(* ===== verification/Prelude.thy ===== *)
theory Prelude
  imports Main "HOL-Library.Word" "HOL-Library.Monad_Syntax"
begin

unbundle bit_operations_syntax

text \<open>
  Shared types, bit-field helpers and lemma collections of the development.

  Machine integers keep the width the C code gives them (\<open>u8\<close>, \<open>u16\<close>, \<open>u32\<close>).  An operation
  that may block for ever (a polling loop on hardware) returns an option; \<open>None\<close> means that the
  C function does not return.  State is passed explicitly, in the option monad.
\<close>

type_synonym u8 = "8 word"
type_synonym u16 = "16 word"
type_synonym u32 = "32 word"

named_theorems wire_simps \<open>evaluation of driver code on the ideal SPI wire\<close>
named_theorems sim_intros \<open>simulation of the ideal wire by a concrete IO layer\<close>

section \<open>Bit fields of packed register structs\<close>

text \<open>Assignment of 1, of 0, and of an \<open>n\<close>-bit value to a field that starts at bit \<open>k\<close>.\<close>

definition bf_set :: "nat \<Rightarrow> 'a::len word \<Rightarrow> 'a word" where
  "bf_set k w = w OR push_bit k 1"

definition bf_clear :: "nat \<Rightarrow> 'a::len word \<Rightarrow> 'a word" where
  "bf_clear k w = w AND NOT (push_bit k 1)"

definition bf_put :: "nat \<Rightarrow> nat \<Rightarrow> 'a::len word \<Rightarrow> 'a word \<Rightarrow> 'a word" where
  "bf_put k n v w = (w AND NOT (push_bit k (mask n))) OR push_bit k (v AND mask n)"

definition bf_get :: "nat \<Rightarrow> 'a::len word \<Rightarrow> bool" where
  "bf_get k w = bit w k"

lemma bit_bf_set: "k < LENGTH('a) \<Longrightarrow> bit (bf_set k (w::'a::len word)) n \<longleftrightarrow> n = k \<or> bit w n"
  by (auto simp: bf_set_def bit_simps dest: bit_imp_le_length)

lemma bit_bf_clear: "bit (bf_clear k (w::'a::len word)) n \<longleftrightarrow> n \<noteq> k \<and> bit w n"
  by (auto simp: bf_clear_def bit_simps dest: bit_imp_le_length)

lemma bit_bf_put:
  "k + m \<le> LENGTH('a) \<Longrightarrow> bit (bf_put k m v (w::'a::len word)) n \<longleftrightarrow>
    (if k \<le> n \<and> n < k + m then bit v (n - k) else bit w n)"
  by (auto simp: bf_put_def bit_simps dest: bit_imp_le_length)

section \<open>Bytes of wider words\<close>

definition lo8 :: "u16 \<Rightarrow> u8" where "lo8 w = ucast w"

definition hi8 :: "u16 \<Rightarrow> u8" where "hi8 w = ucast (drop_bit 8 w)"

definition le16 :: "u8 \<Rightarrow> u8 \<Rightarrow> u16" where
  "le16 l h = ucast l OR push_bit 8 (ucast h)"

lemma le16_lo8_hi8 [simp]: "le16 (lo8 w) (hi8 w) = w"
  by (rule bit_word_eqI) (auto simp: le16_def lo8_def hi8_def bit_simps)

lemma lo8_le16 [simp]: "lo8 (le16 l h) = l"
  by (rule bit_word_eqI) (auto simp: le16_def lo8_def bit_simps)

lemma hi8_le16 [simp]: "hi8 (le16 l h) = h"
  by (rule bit_word_eqI) (auto simp: le16_def hi8_def bit_simps dest: bit_imp_le_length)

section \<open>The option monad\<close>

lemma bind_Some_iff: "Option.bind m f = Some y \<longleftrightarrow> (\<exists>x. m = Some x \<and> f x = Some y)"
  by (cases m) auto

section \<open>Results of operations\<close>

text \<open>An operation returns, with a result that satisfies \<open>Q\<close>.\<close>

definition returns :: "'a option \<Rightarrow> ('a \<Rightarrow> bool) \<Rightarrow> bool" where
  "returns m Q \<longleftrightarrow> (\<exists>r. m = Some r \<and> Q r)"

lemma returns_simps [simp]:
  "returns (Some r) Q \<longleftrightarrow> Q r" "returns None Q \<longleftrightarrow> False"
  "returns (Option.bind m f) Q \<longleftrightarrow> returns m (\<lambda>r. returns (f r) Q)"
  by (auto simp: returns_def bind_Some_iff)

lemma returns_mono: "returns m P \<Longrightarrow> (\<And>r. P r \<Longrightarrow> Q r) \<Longrightarrow> returns m Q"
  by (auto simp: returns_def)

lemma returns_pair:
  assumes "returns m (\<lambda>(r, s). P r s)"
  obtains r s where "m = Some (r, s)" "P r s"
  using assms by (auto simp: returns_def)

lemma returns_conj: "returns m P \<Longrightarrow> returns m Q \<Longrightarrow> returns m (\<lambda>r. P r \<and> Q r)"
  by (auto simp: returns_def)

section \<open>Polling loops\<close>

text \<open>
  \<^verbatim>\<open>do { body } while (again)\<close>, where the body may itself not return.  \<open>None\<close> is a loop that never
  ends.
\<close>

partial_function (option) do_while :: "('s \<Rightarrow> (bool \<times> 's) option) \<Rightarrow> 's \<Rightarrow> 's option" where
  "do_while body s = do { (again, s) \<leftarrow> body s; if again then do_while body s else Some s }"

lemma do_while_stop: "body s = Some (False, s') \<Longrightarrow> do_while body s = Some s'"
  by (subst do_while.simps) simp

lemma do_while_again: "body s = Some (True, s') \<Longrightarrow> do_while body s = do_while body s'"
  by (subst do_while.simps) simp

text \<open>Partial correctness: what every round keeps and the last round establishes.\<close>

lemma do_while_rule:
  assumes ret: "do_while body s = Some r" and init: "I s"
    and again: "\<And>s s'. I s \<Longrightarrow> body s = Some (True, s') \<Longrightarrow> I s'"
    and stop: "\<And>s s'. I s \<Longrightarrow> body s = Some (False, s') \<Longrightarrow> Q s'"
  shows "Q r"
proof -
  have "b = body \<longrightarrow> I s \<longrightarrow> Q r" if "do_while b s = Some r" for b s r
    using that
  proof (rule do_while.raw_induct [rotated])
    fix dw b s r
    assume IH: "\<And>b s r. dw b s = Some r \<Longrightarrow> b = body \<longrightarrow> I s \<longrightarrow> Q r"
      and ret: "Option.bind (b s) (\<lambda>(again, s). if again then dw b s else Some s) = Some r"
    then show "b = body \<longrightarrow> I s \<longrightarrow> Q r"
      by (auto simp: bind_eq_Some_conv split: if_splits dest: again stop)
  qed
  with ret init show ?thesis by blast
qed

text \<open>Termination: a measure that every further round decreases, under an invariant.\<close>

lemma do_while_total:
  fixes m :: "'s \<Rightarrow> nat"
  assumes init: "I s"
    and step: "\<And>s. I s \<Longrightarrow> \<exists>again s'. body s = Some (again, s') \<and> (if again then I s' \<and> m s' < m s else Q s')"
  shows "\<exists>r. do_while body s = Some r \<and> Q r"
  using init
proof (induction "m s" arbitrary: s rule: less_induct)
  case less
  from step [OF less.prems] obtain again s' where body: "body s = Some (again, s')"
    and res: "if again then I s' \<and> m s' < m s else Q s'" by blast
  show ?case
  proof (cases again)
    case True
    with body res less.hyps [of s'] show ?thesis by (simp add: do_while_again)
  next
    case False
    with body res show ?thesis by (simp add: do_while_stop)
  qed
qed

section \<open>Words and natural numbers\<close>

lemma u16_lt: "unat (w :: u16) < 65536"
  using unsigned_less [of w] by simp

lemma word_eq_nat: "unat (w :: 'a::len word) = n \<Longrightarrow> of_nat n = w"
  by auto

lemma unat_ucast16 [simp]: "unat (ucast (w :: u16) :: u32) = unat w"
  using u16_lt [of w] by (simp add: unsigned_ucast_eq take_bit_eq_mod)

end
