(* ===== verification/Lwip_Store.thy ===== *)
theory Lwip_Store
  imports Prelude
begin

text \<open>
  What the users of an allocator rely on.  \<open>ok s L\<close> says that the allocator is in state \<open>s\<close> and the blocks
  in \<open>L\<close> are in use; \<open>mine\<close> are the blocks it may hand out.  A result \<open>None\<close> inside is \<^verbatim>\<open>NULL\<close>,
  outside a failed assertion.  The heap and the pools provide this interface in their theories.
\<close>

fun alloc_many :: "('s \<Rightarrow> ('p option \<times> 's) option) \<Rightarrow> nat \<Rightarrow> 's \<Rightarrow> ('p list \<times> 's) option" where
  "alloc_many alloc 0 s = Some ([], s)"
| "alloc_many alloc (Suc n) s =
     do { (r, s) \<leftarrow> alloc s;
          case r of
            None \<Rightarrow> Some ([], s)
          | Some p \<Rightarrow> do { (ps, s) \<leftarrow> alloc_many alloc n s; Some (p # ps, s) } }"

fun release_many :: "('p \<Rightarrow> 's \<Rightarrow> 's option) \<Rightarrow> 'p list \<Rightarrow> 's \<Rightarrow> 's option" where
  "release_many release [] s = Some s"
| "release_many release (p # ps) s = do { s \<leftarrow> release p s; release_many release ps s }"

locale block_store =
  fixes ok :: "'s \<Rightarrow> 'p set \<Rightarrow> bool"
    and alloc :: "'s \<Rightarrow> ('p option \<times> 's) option"
    and release :: "'p \<Rightarrow> 's \<Rightarrow> 's option"
    and mine :: "'p set"
  assumes alloc_ok: "ok s L \<Longrightarrow> \<exists>r s'. alloc s = Some (r, s') \<and>
      (case r of None \<Rightarrow> s' = s | Some p \<Rightarrow> p \<in> mine \<and> p \<notin> L \<and> ok s' (insert p L))"
    and release_ok: "ok s L \<Longrightarrow> p \<in> L \<Longrightarrow> p \<in> mine \<Longrightarrow> \<exists>s'. release p s = Some s' \<and> ok s' (L - {p})"
begin

lemma alloc_cases:
  assumes "ok s L"
  obtains "alloc s = Some (None, s)"
  | p s' where "alloc s = Some (Some p, s')" "p \<in> mine" "p \<notin> L" "ok s' (insert p L)"
proof -
  obtain r s' where r: "alloc s = Some (r, s')"
    "case r of None \<Rightarrow> s' = s | Some p \<Rightarrow> p \<in> mine \<and> p \<notin> L \<and> ok s' (insert p L)"
    using alloc_ok [OF assms] by blast
  show thesis by (cases r) (use r that in auto)
qed

lemma alloc_many_ok:
  "ok s L \<Longrightarrow> \<exists>ps s'. alloc_many alloc n s = Some (ps, s') \<and> length ps \<le> n \<and> distinct ps \<and> set ps \<subseteq> mine \<and>
    set ps \<inter> L = {} \<and> ok s' (set ps \<union> L)"
proof (induction n arbitrary: s L)
  case (Suc n)
  show ?case
  proof (rule alloc_cases [OF Suc.prems])
    assume "alloc s = Some (None, s)"
    then show ?thesis using Suc.prems by simp
  next
    fix p s' assume a: "alloc s = Some (Some p, s')" "p \<in> mine" "p \<notin> L" "ok s' (insert p L)"
    from Suc.IH [OF a(4)] obtain ps s'' where "alloc_many alloc n s' = Some (ps, s'')" "length ps \<le> n" "distinct ps"
      "set ps \<subseteq> mine" "set ps \<inter> insert p L = {}" "ok s'' (set ps \<union> insert p L)" by blast
    then show ?thesis using a by auto
  qed
qed simp

lemma release_many_ok:
  "ok s L \<Longrightarrow> distinct ps \<Longrightarrow> set ps \<subseteq> L \<Longrightarrow> set ps \<subseteq> mine \<Longrightarrow>
    \<exists>s'. release_many release ps s = Some s' \<and> ok s' (L - set ps)"
proof (induction ps arbitrary: s L)
  case (Cons p ps)
  then obtain s' where s': "release p s = Some s'" "ok s' (L - {p})" using release_ok [of s L p] by auto
  have "L - {p} - set ps = L - set (p # ps)" by auto
  with Cons.IH [OF s'(2)] s'(1) Cons.prems show ?case by auto
qed simp

lemma alloc_release_many:
  assumes "ok s L"
  shows "\<exists>ps s' s''. alloc_many alloc n s = Some (ps, s') \<and> release_many release ps s' = Some s'' \<and> ok s'' L"
proof -
  obtain ps s' where a: "alloc_many alloc n s = Some (ps, s')" "distinct ps" "set ps \<subseteq> mine" "set ps \<inter> L = {}"
    "ok s' (set ps \<union> L)" using alloc_many_ok [OF assms] by blast
  then obtain s'' where "release_many release ps s' = Some s''" "ok s'' ((set ps \<union> L) - set ps)"
    using release_many_ok [OF a(5)] by blast
  moreover have "(set ps \<union> L) - set ps = L" using a(4) by auto
  ultimately show ?thesis using a(1) by auto
qed

end

end
