(* ===== verification/Lwip_Mem.thy ===== *)
theory Lwip_Mem
  imports Lwip_Store
begin

text \<open>
  The heap of lwIP, \<^verbatim>\<open>lwip/src/core/mem.c\<close>, as configured: 1024 bytes, 4-byte alignment, no
  statistics and no overflow check.

  The heap is a doubly linked list of \<^verbatim>\<open>struct mem\<close> headers that lie in the heap itself; the links
  are offsets from \<open>ram\<close>.  Headers are kept in a store indexed by the offset, user data elsewhere.  Offsets and
  sizes are numbers; the casts to the 16-bit \<^verbatim>\<open>mem_size_t\<close> and the unsigned 32-bit differences are written
  out.  A user pointer is its distance from \<open>ram\<close>, which may be any integer; \<open>None\<close> is \<^verbatim>\<open>NULL\<close>.
  An operation that fails an assertion, or does not end, is \<open>None\<close>.
\<close>

section \<open>Sizes\<close>

definition mem_size_cast :: "nat \<Rightarrow> nat" where "mem_size_cast n = n mod 65536"

definition usub :: "nat \<Rightarrow> nat \<Rightarrow> nat" where "usub a b = (a + 4294967296 - b) mod 4294967296"

definition LWIP_MEM_ALIGN_SIZE :: "nat \<Rightarrow> nat" where
  "LWIP_MEM_ALIGN_SIZE n = (n + 3) - (n + 3) mod 4"

definition MEM_SIZE_ALIGNED :: nat where "MEM_SIZE_ALIGNED = 1024"
definition MIN_SIZE_ALIGNED :: nat where "MIN_SIZE_ALIGNED = 12"
definition SIZEOF_STRUCT_MEM :: nat where "SIZEOF_STRUCT_MEM = 8"

lemmas mem_sizes = MEM_SIZE_ALIGNED_def MIN_SIZE_ALIGNED_def SIZEOF_STRUCT_MEM_def

section \<open>State\<close>

record struct_mem =
  mem_next :: nat
  mem_prev :: nat
  mem_used :: nat

record mem_heap =
  hdr :: "nat \<Rightarrow> struct_mem"
  lfree :: nat

text \<open>\<open>ptr_to_mem\<close> and \<open>mem_to_ptr\<close> turn offsets into pointers and back; in this model a pointer to
  a header is its offset.\<close>

definition ptr_to_mem :: "nat \<Rightarrow> nat" where "ptr_to_mem ptr = ptr"
definition mem_to_ptr :: "nat \<Rightarrow> nat" where "mem_to_ptr mem = mem mod 65536"

definition ram_end :: nat where "ram_end = MEM_SIZE_ALIGNED"

definition upd_hdr :: "nat \<Rightarrow> (struct_mem \<Rightarrow> struct_mem) \<Rightarrow> mem_heap \<Rightarrow> mem_heap" where
  "upd_hdr p f h = h\<lparr>hdr := (hdr h)(p := f (hdr h p))\<rparr>"

definition set_next :: "nat \<Rightarrow> nat \<Rightarrow> mem_heap \<Rightarrow> mem_heap" where
  "set_next p v = upd_hdr p (\<lambda>m. m\<lparr>mem_next := v\<rparr>)"
definition set_prev :: "nat \<Rightarrow> nat \<Rightarrow> mem_heap \<Rightarrow> mem_heap" where
  "set_prev p v = upd_hdr p (\<lambda>m. m\<lparr>mem_prev := v\<rparr>)"
definition set_used :: "nat \<Rightarrow> nat \<Rightarrow> mem_heap \<Rightarrow> mem_heap" where
  "set_used p v = upd_hdr p (\<lambda>m. m\<lparr>mem_used := v\<rparr>)"

section \<open>Operations\<close>

definition mem_init :: "mem_heap \<Rightarrow> mem_heap" where
  "mem_init h =
     (let h = set_used 0 0 (set_prev 0 0 (set_next 0 MEM_SIZE_ALIGNED h));
          h = set_prev ram_end MEM_SIZE_ALIGNED (set_next ram_end MEM_SIZE_ALIGNED (set_used ram_end 1 h))
      in h\<lparr>lfree := 0\<rparr>)"

text \<open>The two halves of \<open>plug_holes\<close>: with the block behind, and with the block before.\<close>

definition plug_forward :: "nat \<Rightarrow> mem_heap \<Rightarrow> mem_heap" where
  "plug_forward mem h =
     (let nmem = ptr_to_mem (mem_next (hdr h mem)) in
      if mem \<noteq> nmem \<and> mem_used (hdr h nmem) = 0 \<and> nmem \<noteq> ram_end then
        let h = (if lfree h = nmem then h\<lparr>lfree := mem\<rparr> else h);
            nn = mem_next (hdr h nmem);
            h = set_next mem nn h
        in if nn \<noteq> MEM_SIZE_ALIGNED then set_prev (ptr_to_mem nn) (mem_to_ptr mem) h else h
      else h)"

definition plug_backward :: "nat \<Rightarrow> mem_heap \<Rightarrow> mem_heap" where
  "plug_backward mem h =
     (let pmem = ptr_to_mem (mem_prev (hdr h mem)) in
      if pmem \<noteq> mem \<and> mem_used (hdr h pmem) = 0 then
        let h = (if lfree h = mem then h\<lparr>lfree := pmem\<rparr> else h);
            mn = mem_next (hdr h mem);
            h = set_next pmem mn h
        in if mn \<noteq> MEM_SIZE_ALIGNED then set_prev (ptr_to_mem mn) (mem_to_ptr pmem) h else h
      else h)"

definition plug_holes :: "nat \<Rightarrow> mem_heap \<Rightarrow> mem_heap option" where
  "plug_holes mem h =
     (if \<not> (mem < ram_end \<and> mem_used (hdr h mem) = 0 \<and> mem_next (hdr h mem) \<le> MEM_SIZE_ALIGNED) then None
      else Some (plug_backward mem (plug_forward mem h)))"

definition mem_link_valid :: "nat \<Rightarrow> mem_heap \<Rightarrow> bool" where
  "mem_link_valid mem h =
     (let m = hdr h mem;
          rmem_idx = mem_to_ptr mem;
          nmem = ptr_to_mem (mem_next m);
          pmem = ptr_to_mem (mem_prev m)
      in \<not> (mem_next m > MEM_SIZE_ALIGNED \<or> mem_prev m > MEM_SIZE_ALIGNED \<or>
            (mem_prev m \<noteq> rmem_idx \<and> mem_next (hdr h pmem) \<noteq> rmem_idx) \<or>
            (nmem \<noteq> ram_end \<and> mem_prev (hdr h nmem) \<noteq> rmem_idx)))"

definition mem_free :: "int option \<Rightarrow> mem_heap \<Rightarrow> mem_heap option" where
  "mem_free rmem h =
     (case rmem of
        None \<Rightarrow> Some h
      | Some r \<Rightarrow>
          if r mod 4 \<noteq> 0 then None
          else if r - int SIZEOF_STRUCT_MEM < 0 \<or> r + int MIN_SIZE_ALIGNED > int ram_end then None
          else
            let mem = nat (r - int SIZEOF_STRUCT_MEM) in
            if mem_used (hdr h mem) = 0 then None
            else if \<not> mem_link_valid mem h then None
            else
              let h = set_used mem 0 h;
                  h = (if mem < lfree h then h\<lparr>lfree := mem\<rparr> else h)
              in plug_holes mem h)"

text \<open>The rounded size that \<open>mem_malloc\<close> and \<open>mem_trim\<close> start with; \<open>None\<close> when it is too large.\<close>

definition mem_round :: "nat \<Rightarrow> nat option" where
  "mem_round size_in =
     (let sz = mem_size_cast (LWIP_MEM_ALIGN_SIZE size_in);
          sz = (if sz < MIN_SIZE_ALIGNED then MIN_SIZE_ALIGNED else sz)
      in if sz > MEM_SIZE_ALIGNED \<or> sz < size_in then None else Some sz)"

text \<open>The scan from the lowest free block: the first free block that is large enough.\<close>

partial_function (option) mem_scan :: "mem_heap \<Rightarrow> nat \<Rightarrow> nat \<Rightarrow> nat option option" where
  "mem_scan h sz ptr =
     (if ptr < usub MEM_SIZE_ALIGNED sz then
        if mem_used (hdr h ptr) = 0 \<and> usub (mem_next (hdr h ptr)) (ptr + SIZEOF_STRUCT_MEM) \<ge> sz
        then Some (Some ptr)
        else mem_scan h sz (mem_next (hdr h ptr))
      else Some None)"

partial_function (option) find_lfree :: "mem_heap \<Rightarrow> nat \<Rightarrow> nat option" where
  "find_lfree h cur =
     (if mem_used (hdr h cur) \<noteq> 0 \<and> cur \<noteq> ram_end then find_lfree h (ptr_to_mem (mem_next (hdr h cur)))
      else Some cur)"

text \<open>Marking the block found as used, splitting it when the rest can hold a block.\<close>

definition mem_take :: "nat \<Rightarrow> nat \<Rightarrow> mem_heap \<Rightarrow> mem_heap option" where
  "mem_take sz ptr h =
     (let mem = ptr_to_mem ptr in
      if usub (mem_next (hdr h mem)) (ptr + SIZEOF_STRUCT_MEM) \<ge> sz + SIZEOF_STRUCT_MEM + MIN_SIZE_ALIGNED then
        let ptr2 = mem_size_cast (ptr + SIZEOF_STRUCT_MEM + sz) in
        if ptr2 = MEM_SIZE_ALIGNED then None
        else
          let mem2 = ptr_to_mem ptr2;
              h = set_used mem2 0 h;
              h = set_next mem2 (mem_next (hdr h mem)) h;
              h = set_prev mem2 ptr h;
              h = set_next mem ptr2 h;
              h = set_used mem 1 h
          in Some (if mem_next (hdr h mem2) \<noteq> MEM_SIZE_ALIGNED
                   then set_prev (ptr_to_mem (mem_next (hdr h mem2))) ptr2 h else h)
      else Some (set_used mem 1 h))"

definition mem_malloc :: "nat \<Rightarrow> mem_heap \<Rightarrow> (int option \<times> mem_heap) option" where
  "mem_malloc size_in h =
     (if size_in = 0 then Some (None, h)
      else case mem_round size_in of
        None \<Rightarrow> Some (None, h)
      | Some sz \<Rightarrow>
          do { found \<leftarrow> mem_scan h sz (mem_to_ptr (lfree h));
               case found of
                 None \<Rightarrow> Some (None, h)
               | Some mem \<Rightarrow>
                   do { h \<leftarrow> mem_take sz mem h;
                        h \<leftarrow> (if mem = lfree h
                              then do { cur \<leftarrow> find_lfree h (lfree h);
                                        let h = h\<lparr>lfree := cur\<rparr>;
                                        if lfree h = ram_end \<or> mem_used (hdr h (lfree h)) = 0 then Some h else None }
                              else Some h);
                        if \<not> (mem + SIZEOF_STRUCT_MEM + sz \<le> ram_end \<and> (mem + SIZEOF_STRUCT_MEM) mod 4 = 0 \<and> mem mod 4 = 0)
                        then None
                        else Some (Some (int (mem + SIZEOF_STRUCT_MEM)), h) } })"

text \<open>A pointer whose header would lie below the heap passes the assertion, but reads outside it: \<open>None\<close>.\<close>

definition mem_trim :: "int \<Rightarrow> nat \<Rightarrow> mem_heap \<Rightarrow> (int option \<times> mem_heap) option" where
  "mem_trim rmem new_size h =
     (case mem_round new_size of
        None \<Rightarrow> Some (None, h)
      | Some newsize \<Rightarrow>
          if \<not> (rmem \<ge> 0 \<and> rmem < int ram_end) then None
          else if rmem - int SIZEOF_STRUCT_MEM < 0 then None
          else
            let mem = nat (rmem - int SIZEOF_STRUCT_MEM);
                ptr = mem_to_ptr mem;
                sz = mem_size_cast (usub (mem_size_cast (usub (mem_next (hdr h mem)) ptr)) SIZEOF_STRUCT_MEM)
            in if \<not> newsize \<le> sz then None
               else if newsize = sz then Some (Some rmem, h)
               else
                 let mem2 = ptr_to_mem (mem_next (hdr h mem)) in
                 if mem_used (hdr h mem2) = 0 then
                   if mem_next (hdr h mem) = MEM_SIZE_ALIGNED then None
                   else
                     let next = mem_next (hdr h mem2);
                         ptr2 = mem_size_cast (ptr + SIZEOF_STRUCT_MEM + newsize);
                         h = (if lfree h = mem2 then h\<lparr>lfree := ptr_to_mem ptr2\<rparr> else h);
                         mem2 = ptr_to_mem ptr2;
                         h = set_used mem2 0 h;
                         h = set_next mem2 next h;
                         h = set_prev mem2 ptr h;
                         h = set_next mem ptr2 h;
                         h = (if next \<noteq> MEM_SIZE_ALIGNED then set_prev (ptr_to_mem next) ptr2 h else h)
                     in Some (Some rmem, h)
                 else if newsize + SIZEOF_STRUCT_MEM + MIN_SIZE_ALIGNED \<le> sz then
                   let ptr2 = mem_size_cast (ptr + SIZEOF_STRUCT_MEM + newsize) in
                   if mem_next (hdr h mem) = MEM_SIZE_ALIGNED then None
                   else
                     let mem2 = ptr_to_mem ptr2;
                         h = (if mem2 < lfree h then h\<lparr>lfree := mem2\<rparr> else h);
                         h = set_used mem2 0 h;
                         h = set_next mem2 (mem_next (hdr h mem)) h;
                         h = set_prev mem2 ptr h;
                         h = set_next mem ptr2 h;
                         nn = mem_next (hdr h mem2);
                         h = (if nn \<noteq> MEM_SIZE_ALIGNED then set_prev (ptr_to_mem nn) ptr2 h else h)
                     in Some (Some rmem, h)
                 else Some (Some rmem, h))"

text \<open>\<open>mem_calloc\<close>; the bytes it zeroes are user data, named by the second result.\<close>

definition mem_calloc :: "nat \<Rightarrow> nat \<Rightarrow> mem_heap \<Rightarrow> ((int option \<times> nat) \<times> mem_heap) option" where
  "mem_calloc count sz h =
     (let alloc_size = (count * sz) mod 4294967296 in
      if mem_size_cast alloc_size \<noteq> alloc_size then Some ((None, 0), h)
      else do { (p, h) \<leftarrow> mem_malloc (mem_size_cast alloc_size) h;
                Some ((p, if p = None then 0 else alloc_size), h) })"

section \<open>The block list\<close>

text \<open>
  The abstract heap: the blocks in order of address, each with its full size (header included) and
  whether it is in use.  \<open>blocks\<close> relates a stretch of the header list to them: from the offset
  \<open>p\<close> whose predecessor is \<open>q\<close>, to the offset \<open>p'\<close> with predecessor \<open>q'\<close>.
\<close>

type_synonym block = "nat \<times> bool"

fun blocks :: "(nat \<Rightarrow> struct_mem) \<Rightarrow> nat \<Rightarrow> nat \<Rightarrow> block list \<Rightarrow> nat \<Rightarrow> nat \<Rightarrow> bool" where
  "blocks h p q [] p' q' \<longleftrightarrow> p' = p \<and> q' = q"
| "blocks h p q ((n, u) # bs) p' q' \<longleftrightarrow>
     h p = \<lparr>mem_next = p + n, mem_prev = q, mem_used = of_bool u\<rparr> \<and> 20 \<le> n \<and> 4 dvd n \<and> blocks h (p + n) p bs p' q'"

abbreviation extent :: "block list \<Rightarrow> nat" where
  "extent bs \<equiv> sum_list (map fst bs)"

lemma blocks_end: "blocks h p q bs p' q' \<Longrightarrow> p' = p + extent bs"
proof (induction bs arbitrary: p q)
  case (Cons b bs)
  obtain n u where b: "b = (n, u)" by (cases b)
  with Cons.prems have "blocks h (p + n) p bs p' q'" by simp
  from Cons.IH [OF this] show ?case by (simp add: b)
qed simp

lemma blocks_append:
  "blocks h p q (xs @ ys) p' q' \<longleftrightarrow> (\<exists>r. blocks h p q xs (p + extent xs) r \<and> blocks h (p + extent xs) r ys p' q')"
proof (induction xs arbitrary: p q)
  case (Cons x xs)
  show ?case by (cases x) (auto simp: Cons.IH add.assoc)
qed simp

lemma blocks_cong:
  "(\<And>a. p \<le> a \<Longrightarrow> a < p + extent bs \<Longrightarrow> h' a = h a) \<Longrightarrow> blocks h' p q bs p' q' = blocks h p q bs p' q'"
proof (induction bs arbitrary: p q)
  case (Cons b bs)
  obtain n u where b: "b = (n, u)" by (cases b)
  show ?case
  proof (cases "20 \<le> n")
    case True
    have "h' p = h p" using Cons.prems [of p] True by (simp add: b)
    moreover have "blocks h' (p + n) p bs p' q' = blocks h (p + n) p bs p' q'"
      using Cons.prems True by (intro Cons.IH) (simp add: b)
    ultimately show ?thesis by (simp add: b)
  qed (simp add: b)
qed simp

lemma blocks_hdr:
  "blocks h p q (xs @ (n, u) # ys) p' q' \<Longrightarrow> mem_next (h (p + extent xs)) = p + extent xs + n \<and>
    mem_used (h (p + extent xs)) = of_bool u \<and> 20 \<le> n"
  by (auto simp: blocks_append)

lemma blocks_aligned: "blocks h p q bs p' q' \<Longrightarrow> 4 dvd extent bs"
  by (induction bs arbitrary: p q) auto

lemma blocks_last:
  "blocks h p q bs p' q' \<Longrightarrow> bs \<noteq> [] \<Longrightarrow> q' = p + extent (butlast bs) \<and> p \<le> q' \<and> q' < p' \<and> mem_next (h q') = p'"
proof (induction bs arbitrary: p q)
  case (Cons b bs)
  obtain n u where b: "b = (n, u)" by (cases b)
  show ?case
  proof (cases "bs = []")
    case True
    then show ?thesis using Cons.prems by (auto simp: b)
  next
    case False
    then show ?thesis using Cons.prems Cons.IH [of "p + n" p] by (auto simp: b)
  qed
qed simp

section \<open>The heap as a list of blocks\<close>

definition heap_list :: "mem_heap \<Rightarrow> block list \<Rightarrow> bool" where
  "heap_list h bs \<longleftrightarrow> (\<exists>q. blocks (hdr h) 0 0 bs MEM_SIZE_ALIGNED q) \<and>
     hdr h ram_end = \<lparr>mem_next = MEM_SIZE_ALIGNED, mem_prev = MEM_SIZE_ALIGNED, mem_used = 1\<rparr>"

text \<open>No two free blocks in a row.\<close>

fun merged :: "block list \<Rightarrow> bool" where
  "merged [] \<longleftrightarrow> True"
| "merged (b # bs) \<longleftrightarrow> (snd b \<or> bs = [] \<or> snd (hd bs)) \<and> merged bs"

text \<open>The offset of the lowest free block; the end of the heap when there is none.\<close>

definition lowest :: "block list \<Rightarrow> nat" where
  "lowest bs = extent (takeWhile snd bs)"

definition heap_inv :: "mem_heap \<Rightarrow> block list \<Rightarrow> bool" where
  "heap_inv h bs \<longleftrightarrow> heap_list h bs \<and> lfree h = lowest bs \<and> merged bs"

lemma lowest_append: "lowest (xs @ ys) = (if \<forall>b \<in> set xs. snd b then extent xs + lowest ys else lowest xs)"
  by (auto simp: lowest_def takeWhile_append)

lemma lowest_simps [simp]: "lowest [] = 0" "lowest ((n, True) # bs) = n + lowest bs" "lowest ((n, False) # bs) = 0"
  by (simp_all add: lowest_def)

lemma lowest_le: "lowest bs \<le> extent bs"
  by (induction bs) (auto simp: lowest_def)

lemma merged_append:
  "merged (xs @ b # ys) \<longleftrightarrow> merged (xs @ [b]) \<and> merged (b # ys)"
  by (induction xs) (auto simp: hd_append)

lemma merged_used [simp]: "merged (xs @ (n, True) # ys) \<longleftrightarrow> merged xs \<and> merged ys"
  by (induction xs) (auto simp: hd_append)

lemma mem_init_inv: "heap_inv (mem_init h) [(1024, False)]"
  by (simp add: heap_inv_def heap_list_def mem_init_def Let_def set_used_def set_next_def set_prev_def upd_hdr_def
      mem_sizes ram_end_def)

lemma heap_list_extent: "heap_list h bs \<Longrightarrow> extent bs = 1024"
  by (auto simp: heap_list_def mem_sizes dest: blocks_end)

lemma heap_list_split:
  assumes "heap_list h (xs @ ys)"
  obtains r q where "blocks (hdr h) 0 0 xs (extent xs) r" "blocks (hdr h) (extent xs) r ys 1024 q"
  using assms by (auto simp: heap_list_def mem_sizes blocks_append)

text \<open>The header of a block, and of the one behind it.\<close>

lemma heap_list_hdr:
  assumes "heap_list h (xs @ (n, u) # ys)"
  shows "hdr h (extent xs) = \<lparr>mem_next = extent xs + n, mem_prev = extent (butlast xs), mem_used = of_bool u\<rparr>"
    and "20 \<le> n" "4 dvd n" "4 dvd extent xs" "extent xs + n \<le> 1024"
proof -
  obtain r q where x: "blocks (hdr h) 0 0 xs (extent xs) r" and y: "blocks (hdr h) (extent xs) r ((n, u) # ys) 1024 q"
    using assms by (rule heap_list_split)
  have "r = extent (butlast xs)" using blocks_last [OF x] x by (cases "xs = []") auto
  then show "hdr h (extent xs) = \<lparr>mem_next = extent xs + n, mem_prev = extent (butlast xs), mem_used = of_bool u\<rparr>"
    using y by simp
  show "20 \<le> n" "4 dvd n" using y by simp_all
  show "4 dvd extent xs" by (rule blocks_aligned [OF x])
  show "extent xs + n \<le> 1024" using heap_list_extent [OF assms] by simp
qed

lemma heap_list_prev:
  assumes "heap_list h (xs @ ys)" "xs \<noteq> []"
  shows "mem_next (hdr h (extent (butlast xs))) = extent xs" "extent (butlast xs) < extent xs"
proof -
  obtain r q where x: "blocks (hdr h) 0 0 xs (extent xs) r" using assms(1) by (rule heap_list_split)
  show "mem_next (hdr h (extent (butlast xs))) = extent xs" "extent (butlast xs) < extent xs"
    using blocks_last [OF x assms(2)] by auto
qed

lemma heap_list_end: "heap_list h bs \<Longrightarrow> hdr h 1024 = \<lparr>mem_next = 1024, mem_prev = 1024, mem_used = 1\<rparr>"
  by (simp add: heap_list_def mem_sizes ram_end_def)

section \<open>Replacing a stretch of blocks\<close>

lemma blocks_relink:
  assumes y: "blocks h p q bs p' q'" and same: "\<And>a. p < a \<Longrightarrow> a < p' \<Longrightarrow> h' a = h a"
    and first: "bs \<noteq> [] \<Longrightarrow> h' p = (h p)\<lparr>mem_prev := r\<rparr>"
  shows "\<exists>q''. blocks h' p r bs p' q''"
proof (cases bs)
  case Nil
  then show ?thesis using y by simp
next
  case (Cons b bs')
  obtain n u where b: "b = (n, u)" by (cases b)
  have bl: "blocks h (p + n) p bs' p' q'" "20 \<le> n" "4 dvd n"
    and hp: "h p = \<lparr>mem_next = p + n, mem_prev = q, mem_used = of_bool u\<rparr>" using y by (simp_all add: Cons b)
  have "blocks h' (p + n) p bs' p' q' = blocks h (p + n) p bs' p' q'"
    by (rule blocks_cong) (use bl(2) blocks_end [OF bl(1)] same in auto)
  then have "blocks h' (p + n) p bs' p' q'" using bl(1) by simp
  then show ?thesis using bl(2,3) hp first by (auto simp: Cons b)
qed

text \<open>The list around a stretch survives when the stretch is replaced by another one of the same extent and the block
  behind it points back to the new last block.\<close>

lemma heap_list_replace:
  assumes old: "heap_list h (xs @ mid @ ys)" and ne: "mid \<noteq> []" "mid' \<noteq> []" and ext: "extent mid' = extent mid"
    and same: "\<And>a. a < extent xs \<or> extent xs + extent mid < a \<Longrightarrow> hdr h' a = hdr h a"
    and mid: "\<And>r. blocks (hdr h) (extent xs) r mid (extent xs + extent mid) (extent xs + extent (butlast mid)) \<Longrightarrow>
      \<exists>s. blocks (hdr h') (extent xs) r mid' (extent xs + extent mid) s"
    and link: "extent xs + extent mid < 1024 \<Longrightarrow> hdr h' (extent xs + extent mid) =
      (hdr h (extent xs + extent mid))\<lparr>mem_prev := extent xs + extent (butlast mid')\<rparr>"
    and last: "extent xs + extent mid = 1024 \<Longrightarrow> hdr h' 1024 = hdr h 1024"
  shows "heap_list h' (xs @ mid' @ ys)"
proof -
  let ?X = "extent xs" and ?M = "extent xs + extent mid"
  obtain r q where x: "blocks (hdr h) 0 0 xs ?X r" and my: "blocks (hdr h) ?X r (mid @ ys) 1024 q"
    using old by (rule heap_list_split)
  obtain s where m: "blocks (hdr h) ?X r mid ?M s" and y: "blocks (hdr h) ?M s ys 1024 q"
    using my by (auto simp: blocks_append)
  have "s = ?X + extent (butlast mid)" using blocks_last [OF m ne(1)] by simp
  with m mid obtain s' where m': "blocks (hdr h') ?X r mid' ?M s'" by blast
  have s': "s' = ?X + extent (butlast mid')" using blocks_last [OF m' ne(2)] by simp
  have x': "blocks (hdr h') 0 0 xs ?X r"
    using x blocks_cong [of 0 xs "hdr h'" "hdr h" 0 ?X r] same by auto
  have le: "?M \<le> 1024" using blocks_end [OF y] by simp
  have "ys \<noteq> [] \<Longrightarrow> ?M < 1024" using blocks_last [OF y] by linarith
  then have y': "\<exists>q'. blocks (hdr h') ?M s' ys 1024 q'"
    using link same by (intro blocks_relink [OF y]) (auto simp: s')
  have "hdr h' 1024 = hdr h 1024" using last same [of 1024] le by (cases "?M = 1024") auto
  then show ?thesis
    using x' m' y' old ext by (auto simp: heap_list_def mem_sizes ram_end_def blocks_append)
qed

text \<open>A block changes hands; two blocks become one; one block becomes two.\<close>

lemma hdr_upd [simp]:
  "hdr (set_next p v h) a = (if a = p then (hdr h p)\<lparr>mem_next := v\<rparr> else hdr h a)"
  "hdr (set_prev p v h) a = (if a = p then (hdr h p)\<lparr>mem_prev := v\<rparr> else hdr h a)"
  "hdr (set_used p v h) a = (if a = p then (hdr h p)\<lparr>mem_used := v\<rparr> else hdr h a)"
  "lfree (set_next p v h) = lfree h" "lfree (set_prev p v h) = lfree h" "lfree (set_used p v h) = lfree h"
  by (simp_all add: set_next_def set_prev_def set_used_def upd_hdr_def)

lemma heap_list_lfree [simp]: "heap_list (h\<lparr>lfree := l\<rparr>) bs = heap_list h bs"
  by (simp add: heap_list_def)

lemma heap_list_mark:
  assumes h: "heap_list h (xs @ (n, u) # ys)" and new: "\<And>a. hdr h' a = (if a = extent xs then (hdr h a)\<lparr>mem_used := of_bool w\<rparr> else hdr h a)"
  shows "heap_list h' (xs @ (n, w) # ys)"
proof -
  have n: "20 \<le> n" and hn: "extent xs + n \<le> 1024" using heap_list_hdr [OF h] by simp_all
  have "mem_prev (hdr h (extent xs + n)) = extent xs" if lt: "extent xs + n < 1024"
  proof -
    obtain b zs where ys: "ys = b # zs" using heap_list_extent [OF h] lt by (cases ys) simp_all
    obtain m v where b: "b = (m, v)" by (cases b)
    have "heap_list h ((xs @ [(n, u)]) @ (m, v) # zs)" using h by (simp add: ys b)
    from heap_list_hdr(1) [OF this] show ?thesis by simp
  qed
  note pr = this
  have "heap_list h' (xs @ [(n, w)] @ ys)"
    by (rule heap_list_replace [of h xs "[(n, u)]" ys]) (use h n hn pr in \<open>auto simp: new\<close>)
  then show ?thesis by simp
qed

lemma heap_list_fuse:
  assumes h: "heap_list h (xs @ (n, u) # (m, w) # ys)"
    and new: "\<And>a. hdr h' a = (if a = extent xs then (hdr h a)\<lparr>mem_next := extent xs + n + m\<rparr>
      else if a = extent xs + n + m \<and> a \<noteq> 1024 then (hdr h a)\<lparr>mem_prev := extent xs\<rparr> else hdr h a)"
  shows "heap_list h' (xs @ (n + m, u) # ys)"
proof -
  have 1: "20 \<le> n" "4 dvd n" using heap_list_hdr [OF h] by simp_all
  have "heap_list h ((xs @ [(n, u)]) @ (m, w) # ys)" using h by simp
  from heap_list_hdr [OF this] have 2: "20 \<le> m" "4 dvd m" "extent xs + n + m \<le> 1024" by simp_all
  have "heap_list h' (xs @ [(n + m, u)] @ ys)"
    by (rule heap_list_replace [of h xs "[(n, u), (m, w)]" ys]) (use h 1 2 in \<open>auto simp: new add.assoc\<close>)
  then show ?thesis by simp
qed

lemma heap_list_break:
  assumes h: "heap_list h (xs @ (n, u) # ys)" and k: "20 \<le> k" "4 dvd k" "k + 20 \<le> n"
    and new: "\<And>a. hdr h' a = (if a = extent xs then (hdr h a)\<lparr>mem_next := extent xs + k, mem_used := of_bool v\<rparr>
      else if a = extent xs + k then \<lparr>mem_next = extent xs + n, mem_prev = extent xs, mem_used = of_bool w\<rparr>
      else if a = extent xs + n \<and> a \<noteq> 1024 then (hdr h a)\<lparr>mem_prev := extent xs + k\<rparr> else hdr h a)"
  shows "heap_list h' (xs @ (k, v) # (n - k, w) # ys)"
proof -
  have n: "20 \<le> n" "4 dvd n" "extent xs + n \<le> 1024" using heap_list_hdr [OF h] by simp_all
  have d: "4 dvd n - k" using n(2) k(2) by (simp add: dvd_diff_nat)
  have "heap_list h' (xs @ [(k, v), (n - k, w)] @ ys)"
    by (rule heap_list_replace [of h xs "[(n, u)]" ys]) (use h n k d in \<open>auto simp: new\<close>)
  then show ?thesis by simp
qed

section \<open>Release\<close>

text \<open>Merging every run of free blocks.\<close>

fun fuse :: "block list \<Rightarrow> block list" where
  "fuse ((n, False) # (m, False) # bs) = fuse ((n + m, False) # bs)"
| "fuse (b # bs) = b # fuse bs"
| "fuse [] = []"

lemma fuse_merged: "merged bs \<Longrightarrow> fuse bs = bs"
  by (induction bs rule: fuse.induct) auto

lemma fuse_prefix: "merged (xs @ [b]) \<Longrightarrow> fuse (xs @ b # ys) = xs @ fuse (b # ys)"
proof (induction xs)
  case (Cons a as)
  then show ?case by (cases a; cases "snd a"; cases as; cases b) (auto simp: hd_append split: if_splits)
qed simp

lemma fuse_used: "fuse ((n, True) # bs) = (n, True) # fuse bs"
  by simp

lemma fuse_free: "merged bs \<Longrightarrow> fuse ((n, False) # bs) = (case bs of (m, False) # cs \<Rightarrow> (n + m, False) # cs | _ \<Rightarrow> (n, False) # bs)"
  by (cases bs rule: fuse.cases) (auto simp: fuse_merged split: list.splits bool.splits)

text \<open>The block behind, and the one before, are merged when they are free.\<close>

lemma plug_forward_list:
  assumes h: "heap_list h (xs @ (n, False) # ys)" and lf: "lfree h \<le> extent xs"
  shows "heap_list (plug_forward (extent xs) h)
      (xs @ (case ys of (m, False) # zs \<Rightarrow> (n + m, False) # zs | _ \<Rightarrow> (n, False) # ys))"
    and "lfree (plug_forward (extent xs) h) = lfree h"
proof -
  note X = heap_list_hdr [OF h]
  have step: "plug_forward (extent xs) h = h" if c: "ys = [] \<or> snd (hd ys)"
  proof (cases ys)
    case Nil
    then have "extent xs + n = 1024" using heap_list_extent [OF h] by simp
    then show ?thesis using X by (simp add: plug_forward_def Let_def ptr_to_mem_def ram_end_def mem_sizes)
  next
    case (Cons b zs)
    then obtain m where ys: "ys = (m, True) # zs" using c by (cases b) auto
    have "heap_list h ((xs @ [(n, False)]) @ (m, True) # zs)" using h by (simp add: ys)
    from heap_list_hdr(1) [OF this] show ?thesis using X by (simp add: plug_forward_def Let_def ptr_to_mem_def)
  qed
  have fuse: "heap_list (plug_forward (extent xs) h) (xs @ (n + m, False) # zs) \<and> lfree (plug_forward (extent xs) h) = lfree h"
    if ys: "ys = (m, False) # zs" for m zs
  proof -
    have "heap_list h ((xs @ [(n, False)]) @ (m, False) # zs)" using h by (simp add: ys)
    note Y = heap_list_hdr [OF this]
    have "heap_list (plug_forward (extent xs) h) (xs @ (n + m, False) # zs)"
      by (rule heap_list_fuse [OF h [unfolded ys]])
        (use X Y lf in \<open>auto simp: plug_forward_def Let_def ptr_to_mem_def mem_to_ptr_def ram_end_def mem_sizes\<close>)
    then show ?thesis using X lf by (auto simp: plug_forward_def Let_def ptr_to_mem_def)
  qed
  show "heap_list (plug_forward (extent xs) h)
      (xs @ (case ys of (m, False) # zs \<Rightarrow> (n + m, False) # zs | _ \<Rightarrow> (n, False) # ys))"
    using step fuse h by (auto split: list.splits bool.splits)
  show "lfree (plug_forward (extent xs) h) = lfree h"
    using step fuse by (cases ys) (auto, metis (full_types) surj_pair)
qed

lemma plug_backward_list:
  assumes h: "heap_list h (xs @ (n, False) # ys)" and lf: "lfree h = lowest (xs @ (n, False) # ys)"
  shows "lfree (plug_backward (extent xs) h) = lfree h"
    and "xs = [] \<or> snd (last xs) \<Longrightarrow> heap_list (plug_backward (extent xs) h) (xs @ (n, False) # ys)"
    and "xs = zs @ [(k, False)] \<Longrightarrow> heap_list (plug_backward (extent xs) h) (zs @ (k + n, False) # ys)"
proof -
  note X = heap_list_hdr [OF h]
  have skip: "plug_backward (extent xs) h = h" if c: "xs = [] \<or> snd (last xs)"
  proof (cases xs rule: rev_cases)
    case Nil
    then show ?thesis using X(1) by (simp add: plug_backward_def Let_def ptr_to_mem_def)
  next
    case (snoc zs b)
    then obtain k where xs: "xs = zs @ [(k, True)]" using c by (cases b) auto
    have "heap_list h (zs @ (k, True) # (n, False) # ys)" using h by (simp add: xs)
    from heap_list_hdr(1) [OF this] show ?thesis
      using X(1) by (simp add: xs plug_backward_def Let_def ptr_to_mem_def)
  qed
  have fuse: "heap_list (plug_backward (extent xs) h) (zs @ (k + n, False) # ys) \<and> lfree (plug_backward (extent xs) h) = lfree h"
    if xs: "xs = zs @ [(k, False)]" for zs k
  proof -
    have h': "heap_list h (zs @ (k, False) # (n, False) # ys)" using h by (simp add: xs)
    note Y = heap_list_hdr [OF h']
    have "lfree h \<noteq> extent xs" using lf lowest_le [of zs] Y(2) by (auto simp: xs lowest_append split: if_splits)
    then show ?thesis
      using X Y by (auto simp: xs plug_backward_def Let_def ptr_to_mem_def mem_to_ptr_def mem_sizes
          intro!: heap_list_fuse [OF h'])
  qed
  show "lfree (plug_backward (extent xs) h) = lfree h"
    using skip fuse by (cases xs rule: rev_cases) (auto, metis (full_types) surj_pair)
  show "xs = [] \<or> snd (last xs) \<Longrightarrow> heap_list (plug_backward (extent xs) h) (xs @ (n, False) # ys)"
    using skip h by simp
  show "xs = zs @ [(k, False)] \<Longrightarrow> heap_list (plug_backward (extent xs) h) (zs @ (k + n, False) # ys)"
    using fuse by blast
qed

lemma merged_fuse: "merged (fuse bs)"
  by (induction bs rule: fuse.induct) auto

lemma lowest_fuse: "lowest (fuse bs) = lowest bs"
  by (induction bs rule: fuse.induct) (auto simp: lowest_def)

lemma extent_fuse: "extent (fuse bs) = extent bs"
  by (induction bs rule: fuse.induct) auto

lemma link_valid:
  assumes h: "heap_list h (xs @ (n, u) # ys)"
  shows "mem_link_valid (extent xs) h"
proof -
  note X = heap_list_hdr [OF h]
  have 1: "xs \<noteq> [] \<Longrightarrow> mem_next (hdr h (extent (butlast xs))) = extent xs \<and> extent (butlast xs) < extent xs"
    using heap_list_prev [OF h] by simp
  have 2: "mem_prev (hdr h (extent xs + n)) = extent xs" if lt: "extent xs + n \<noteq> 1024"
  proof -
    obtain m v zs where "ys = (m, v) # zs" using heap_list_extent [OF h] lt by (cases ys) auto
    then have "heap_list h ((xs @ [(n, u)]) @ (m, v) # zs)" using h by simp
    from heap_list_hdr(1) [OF this] show ?thesis by simp
  qed
  show ?thesis using X 1 2
    by (cases "xs = []"; cases "extent xs + n = 1024") (auto simp: mem_link_valid_def Let_def mem_to_ptr_def ptr_to_mem_def mem_sizes ram_end_def)
qed

lemma plug_holes_fuse:
  assumes h: "heap_list h (xs @ (n, False) # ys)" and lf: "lfree h = lowest (xs @ (n, False) # ys)"
    and mg: "merged (xs @ [(n, True)])" "merged ys"
  shows "\<exists>h'. plug_holes (extent xs) h = Some h' \<and> heap_inv h' (fuse (xs @ (n, False) # ys))"
proof -
  let ?h = "plug_forward (extent xs) h"
  let ?h' = "plug_backward (extent xs) ?h"
  note X = heap_list_hdr [OF h]
  have le: "lfree h \<le> extent xs" using lf lowest_le [of xs] by (auto simp: lowest_append)
  obtain n' ys' where ny: "fuse ((n, False) # ys) = (n', False) # ys'"
    using mg(2) by (cases ys; cases "snd (hd ys)") (auto simp: fuse_free)
  have "(case ys of (m, False) # zs \<Rightarrow> (n + m, False) # zs | _ \<Rightarrow> (n, False) # ys) = (n', False) # ys'"
    using ny mg(2) by (auto simp: fuse_free split: list.splits bool.splits)
  then have f: "heap_list ?h (xs @ (n', False) # ys')" "lfree ?h = lowest (xs @ (n', False) # ys')"
    using plug_forward_list [OF h le] lf by (simp_all add: lowest_append)
  have fz: "fuse ((k + n, False) # ys) = (k + n', False) # ys'" for k
    using ny mg(2) by (auto simp: fuse_free split: list.splits bool.splits)
  have b: "heap_list ?h' (fuse (xs @ (n, False) # ys))"
  proof (cases "xs = [] \<or> snd (last xs)")
    case True
    then have "merged (xs @ [(n, False)])" using mg(1)
      by (cases xs rule: rev_cases) (auto simp: merged_append [of _ _ "[(n, False)]"] merged_append [of _ _ "[(n, True)]"])
    then have "fuse (xs @ (n, False) # ys) = xs @ (n', False) # ys'" using ny by (simp add: fuse_prefix)
    then show ?thesis using plug_backward_list(2) [OF f True] by simp
  next
    case False
    then obtain zs k where xs: "xs = zs @ [(k, False)]" by (cases xs rule: rev_cases) auto
    have "merged (zs @ [(k, False)])" using mg(1) merged_append [of zs "(k, False)" "[(n, True)]"] by (simp add: xs)
    then have "fuse (xs @ (n, False) # ys) = zs @ (k + n', False) # ys'" using fz [of k] by (simp add: xs fuse_prefix)
    then show ?thesis using plug_backward_list(3) [OF f xs] by simp
  qed
  have "lfree ?h' = lowest (fuse (xs @ (n, False) # ys))"
    using plug_backward_list(1) [OF f] f(2) lf plug_forward_list(2) [OF h le] by (simp add: lowest_fuse)
  with b have "heap_inv ?h' (fuse (xs @ (n, False) # ys))" by (simp add: heap_inv_def merged_fuse)
  moreover have "plug_holes (extent xs) h = Some ?h'" using X by (simp add: plug_holes_def ram_end_def mem_sizes)
  ultimately show ?thesis by blast
qed

lemma mem_free_fuse:
  assumes inv: "heap_inv h (xs @ (n, True) # ys)"
  shows "\<exists>h'. mem_free (Some (int (extent xs + 8))) h = Some h' \<and> heap_inv h' (fuse (xs @ (n, False) # ys))"
proof -
  let ?X = "extent xs"
  have h: "heap_list h (xs @ (n, True) # ys)" and lf: "lfree h = lowest (xs @ (n, True) # ys)"
    and mg: "merged (xs @ (n, True) # ys)" using inv by (simp_all add: heap_inv_def)
  note X = heap_list_hdr [OF h]
  define h1 where "h1 = (if ?X < lfree h then (set_used ?X 0 h)\<lparr>lfree := ?X\<rparr> else set_used ?X 0 h)"
  have 1: "heap_list h1 (xs @ (n, False) # ys)"
    by (rule heap_list_mark [OF h]) (auto simp: h1_def)
  have 2: "lfree h1 = lowest (xs @ (n, False) # ys)"
    using lf lowest_le [of xs] X(2) by (auto simp: h1_def lowest_append)
  have 3: "merged (xs @ [(n, True)])" "merged ys" using mg merged_append [of xs "(n, True)" ys] by auto
  have c: "int (?X + 8) mod 4 = 0" using X(4) by (auto elim!: dvdE)
  have "mem_free (Some (int (?X + 8))) h = plug_holes ?X h1"
    using X link_valid [OF h] c
    by (simp add: mem_free_def mem_sizes ram_end_def Let_def h1_def)
  with plug_holes_fuse [OF 1 2 3] show ?thesis by simp
qed

section \<open>Allocation\<close>

text \<open>First fit on the list: the offset of the block taken, and the list with it marked and its rest split off when
  the rest is large enough to be a block.\<close>

definition cut_block :: "nat \<Rightarrow> nat \<Rightarrow> block list" where
  "cut_block sz n = (if sz + 28 \<le> n then [(sz + 8, True), (n - (sz + 8), False)] else [(n, True)])"

fun first_fit :: "nat \<Rightarrow> nat \<Rightarrow> block list \<Rightarrow> (nat \<times> block list) option" where
  "first_fit sz p [] = None"
| "first_fit sz p ((n, u) # bs) =
     (if \<not> u \<and> sz + 8 \<le> n then Some (p, cut_block sz n @ bs)
      else map_option (apsnd ((#) (n, u))) (first_fit sz (p + n) bs))"

lemma first_fit_Some:
  "first_fit sz p bs = Some (a, bs') \<Longrightarrow> \<exists>xs n ys. bs = xs @ (n, False) # ys \<and> sz + 8 \<le> n \<and> a = p + extent xs \<and>
     bs' = xs @ cut_block sz n @ ys \<and> (\<forall>m. (m, False) \<in> set xs \<longrightarrow> m < sz + 8)"
proof (induction bs arbitrary: p bs')
  case (Cons b bs)
  obtain n u where b: "b = (n, u)" by (cases b)
  show ?case
  proof (cases "\<not> u \<and> sz + 8 \<le> n")
    case True
    then show ?thesis using Cons.prems by (intro exI [of _ "[]"]) (auto simp: b)
  next
    case False
    then obtain bs1 where f: "first_fit sz (p + n) bs = Some (a, bs1)" "bs' = (n, u) # bs1"
      using Cons.prems by (auto simp: b)
    from Cons.IH [OF f(1)] obtain xs m ys where "bs = xs @ (m, False) # ys" "sz + 8 \<le> m" "a = p + n + extent xs"
      "bs1 = xs @ cut_block sz m @ ys" "\<forall>m. (m, False) \<in> set xs \<longrightarrow> m < sz + 8" by blast
    then show ?thesis using f(2) False by (intro exI [of _ "(n, u) # xs"] exI [of _ m] exI [of _ ys]) (auto simp: b)
  qed
qed simp

lemma first_fit_None: "first_fit sz p bs = None \<longleftrightarrow> (\<forall>n. (n, False) \<in> set bs \<longrightarrow> n < sz + 8)"
  by (induction sz p bs rule: first_fit.induct) auto

lemma first_fit_used: "\<forall>b \<in> set xs. snd b \<Longrightarrow>
   first_fit sz p (xs @ ys) = map_option (apsnd ((@) xs)) (first_fit sz (p + extent xs) ys)"
  by (induction xs arbitrary: p) (auto simp: option.map_comp comp_def apsnd_def map_prod_def add.assoc split_def option.map_ident)

lemma usub_ge: "b \<le> a \<Longrightarrow> a < 4294967296 \<Longrightarrow> usub a b = a - b"
  by (auto simp: usub_def dest!: le_Suc_ex)

lemma mem_scan_fit:
  "blocks (hdr h) p q ys 1024 q' \<Longrightarrow> sz \<le> 1024 \<Longrightarrow> mem_scan h sz p = Some (map_option fst (first_fit sz p ys))"
proof (induction ys arbitrary: p q)
  case Nil
  then have "\<not> 1024 < usub 1024 sz" by (simp add: usub_ge)
  then show ?case using Nil by (subst mem_scan.simps) (simp add: mem_sizes)
next
  case (Cons b ys)
  obtain n u where b: "b = (n, u)" by (cases b)
  have y: "hdr h p = \<lparr>mem_next = p + n, mem_prev = q, mem_used = of_bool u\<rparr>" "20 \<le> n" "blocks (hdr h) (p + n) p ys 1024 q'"
    using Cons.prems by (simp_all add: b)
  have e: "1024 = p + n + extent ys" using blocks_end [OF y(3)] .
  have u1: "usub 1024 sz = 1024 - sz" "usub (p + n) (p + 8) = n - 8" using Cons.prems e y(2) by (simp_all add: usub_ge)
  show ?case
  proof (cases "p < 1024 - sz")
    case True
    then show ?thesis using y u1 Cons.IH [OF y(3) Cons.prems(2)]
      by (subst mem_scan.simps) (auto simp: b mem_sizes option.map_comp comp_def)
  next
    case False
    have "m \<le> n + extent ys" if "(m, v) \<in> set ((n, u) # ys)" for m v
      using member_le_sum_list [of m "map fst ((n, u) # ys)"] that by force
    then have "first_fit sz p (b # ys) = None" using False e by (force simp: first_fit_None b)
    then show ?thesis using False u1 by (subst mem_scan.simps) (simp add: mem_sizes)
  qed
qed

lemma find_lfree_lowest:
  "blocks (hdr h) p q ys 1024 q' \<Longrightarrow> mem_used (hdr h 1024) \<noteq> 0 \<Longrightarrow> find_lfree h p = Some (p + lowest ys)"
proof (induction ys arbitrary: p q)
  case Nil
  then show ?case by (subst find_lfree.simps) (simp add: ram_end_def mem_sizes)
next
  case (Cons b ys)
  obtain n u where b: "b = (n, u)" by (cases b)
  have y: "hdr h p = \<lparr>mem_next = p + n, mem_prev = q, mem_used = of_bool u\<rparr>" "20 \<le> n" "blocks (hdr h) (p + n) p ys 1024 q'"
    using Cons.prems by (simp_all add: b)
  have "1024 = p + n + extent ys" using blocks_end [OF y(3)] .
  then show ?case using y Cons.IH [OF y(3) Cons.prems(2)]
    by (subst find_lfree.simps) (cases u, auto simp: b ram_end_def mem_sizes ptr_to_mem_def)
qed

text \<open>Taking a block.\<close>

lemma mem_take_cut:
  assumes h: "heap_list h (xs @ (n, False) # ys)" and sz: "sz + 8 \<le> n" "12 \<le> sz" "4 dvd sz"
  shows "\<exists>h'. mem_take sz (extent xs) h = Some h' \<and> heap_list h' (xs @ cut_block sz n @ ys) \<and> lfree h' = lfree h"
proof -
  let ?X = "extent xs"
  note X = heap_list_hdr [OF h]
  have u: "usub (?X + n) (?X + 8) = n - 8" using X(2,5) by (simp add: usub_ge)
  show ?thesis
  proof (cases "sz + 28 \<le> n")
    case True
    have s: "(?X + 8 + sz) mod 65536 = ?X + 8 + sz" "?X + 8 + sz \<noteq> 1024" using True X(5) by auto
    define h2 where "h2 = set_used ?X 1 (set_next ?X (?X + 8 + sz) (set_prev (?X + 8 + sz) ?X
      (set_next (?X + 8 + sz) (?X + n) (set_used (?X + 8 + sz) 0 h))))"
    define h' where "h' = (if ?X + n \<noteq> 1024 then set_prev (?X + n) (?X + 8 + sz) h2 else h2)"
    have t: "mem_take sz ?X h = Some h'" "lfree h' = lfree h"
      using True u X s by (simp_all add: mem_take_def Let_def ptr_to_mem_def mem_sizes mem_size_cast_def h'_def h2_def)
    have new: "hdr h' a = (if a = ?X then (hdr h a)\<lparr>mem_next := ?X + (sz + 8), mem_used := of_bool True\<rparr>
      else if a = ?X + (sz + 8) then \<lparr>mem_next = ?X + n, mem_prev = ?X, mem_used = of_bool False\<rparr>
      else if a = ?X + n \<and> a \<noteq> 1024 then (hdr h a)\<lparr>mem_prev := ?X + (sz + 8)\<rparr> else hdr h a)" for a
      using True X(2) by (auto simp: h'_def h2_def)
    have "heap_list h' (xs @ (sz + 8, True) # (n - (sz + 8), False) # ys)"
      by (rule heap_list_break [OF h _ _ _ new]) (use True sz in auto)
    then show ?thesis using t True by (auto simp: cut_block_def)
  next
    case False
    then have "\<not> sz + 8 + 12 \<le> n - 8" using X(2) by linarith
    then have "mem_take sz ?X h = Some (set_used ?X 1 h)"
      using u X by (simp add: mem_take_def Let_def ptr_to_mem_def mem_sizes)
    moreover have "heap_list (set_used ?X 1 h) (xs @ (n, True) # ys)"
      by (rule heap_list_mark [OF h]) auto
    ultimately show ?thesis using False by (simp add: cut_block_def)
  qed
qed

lemma merged_cut: "merged (xs @ (n, False) # ys) \<Longrightarrow> merged (xs @ cut_block sz n @ ys)"
proof -
  assume "merged (xs @ (n, False) # ys)"
  then have "merged (xs @ [(n, False)])" "merged ((n, False) # ys)" using merged_append [of xs "(n, False)" ys] by auto
  then have "merged (xs @ [(k, True)]) \<and> merged (cut_block sz n @ ys)" for k
    by (induction xs) (auto simp: hd_append cut_block_def)
  then show ?thesis using merged_append [of xs "(_, True)" "tl (cut_block sz n) @ ys"] by (auto simp: cut_block_def split: if_splits)
qed

lemma lowest_less: "blocks h p q bs p' q' \<Longrightarrow> \<not> (\<forall>b \<in> set bs. snd b) \<Longrightarrow> lowest bs < extent bs"
proof (induction bs arbitrary: p q)
  case (Cons b bs)
  obtain n u where "b = (n, u)" by (cases b)
  then show ?case using Cons.prems Cons.IH [of "p + n" p] by (cases u) auto
qed simp

text \<open>The rounded sizes.\<close>

lemma mem_round_Some:
  "mem_round n = Some sz \<Longrightarrow> 12 \<le> sz \<and> sz \<le> 1024 \<and> 4 dvd sz \<and> n \<le> sz"
proof -
  have d: "4 dvd LWIP_MEM_ALIGN_SIZE n mod 65536"
    unfolding LWIP_MEM_ALIGN_SIZE_def by (simp add: dvd_mod dvd_minus_mod)
  then show "mem_round n = Some sz \<Longrightarrow> ?thesis"
    by (auto simp: mem_round_def Let_def mem_sizes mem_size_cast_def split: if_splits)
qed

lemma mem_round_small: "n \<le> 1024 \<Longrightarrow> mem_round n = Some (max 12 (4 * ((n + 3) div 4)))"
proof -
  assume n: "n \<le> 1024"
  have e: "LWIP_MEM_ALIGN_SIZE n = 4 * ((n + 3) div 4)"
    unfolding LWIP_MEM_ALIGN_SIZE_def by (metis minus_mod_eq_mult_div)
  have "4 * ((n + 3) div 4) \<le> 1024" "n \<le> 4 * ((n + 3) div 4)" using n by auto
  then show ?thesis by (auto simp: mem_round_def Let_def mem_sizes mem_size_cast_def e max_def)
qed

lemma mem_round_None: "1024 < n \<Longrightarrow> mem_round n = None"
  using mem_round_Some [of n] by (cases "mem_round n") fastforce+

text \<open>The scan starts at the lowest free block and so finds the first fit of the whole list.\<close>

lemma mem_scan_heap:
  assumes h: "heap_list h bs" and lf: "lfree h = lowest bs" and sz: "sz \<le> 1024"
  shows "mem_scan h sz (mem_to_ptr (lfree h)) = Some (map_option fst (first_fit sz 0 bs))"
proof -
  let ?us = "takeWhile snd bs" and ?fs = "dropWhile snd bs"
  have "heap_list h (?us @ ?fs)" using h by simp
  then obtain r q where b: "blocks (hdr h) (extent ?us) r ?fs 1024 q" by (rule heap_list_split)
  have "first_fit sz 0 (?us @ ?fs) = map_option (apsnd ((@) ?us)) (first_fit sz (0 + extent ?us) ?fs)"
    by (rule first_fit_used) (auto dest: set_takeWhileD)
  then have "map_option fst (first_fit sz 0 bs) = map_option fst (first_fit sz (lowest bs) ?fs)"
    by (simp add: lowest_def option.map_comp comp_def)
  moreover have "mem_to_ptr (lfree h) = lowest bs"
    using lf lowest_le [of bs] heap_list_extent [OF h] by (simp add: mem_to_ptr_def)
  ultimately show ?thesis using mem_scan_fit [OF b sz] by (simp add: lowest_def)
qed

lemma malloc_tail:
  assumes h: "heap_list h (xs @ (m, False) # ys)" and lf: "lfree h = lowest (xs @ (m, False) # ys)"
    and t: "heap_list h1 (xs @ cut_block sz m @ ys)" "lfree h1 = lfree h"
  shows "\<exists>h'. (if extent xs = lfree h1
      then do { cur \<leftarrow> find_lfree h1 (lfree h1);
                let h = h1\<lparr>lfree := cur\<rparr>;
                if lfree h = ram_end \<or> mem_used (hdr h (lfree h)) = 0 then Some h else None }
      else Some h1) = Some h' \<and> heap_list h' (xs @ cut_block sz m @ ys) \<and> lfree h' = lowest (xs @ cut_block sz m @ ys)"
proof (cases "\<forall>b \<in> set xs. snd b")
  case True
  let ?bs = "xs @ cut_block sz m @ ys"
  have e1: "mem_used (hdr h1 1024) \<noteq> 0" using heap_list_end [OF t(1)] by simp
  obtain r q where b: "blocks (hdr h1) (extent xs) r (cut_block sz m @ ys) 1024 q"
    using t(1) by (rule heap_list_split)
  have l: "extent xs = lfree h1" using True lf t(2) by (simp add: lowest_append)
  have fl: "find_lfree h1 (lfree h1) = Some (lowest ?bs)"
    using find_lfree_lowest [OF b e1] True l by (simp add: lowest_append [of xs])
  have "lowest ?bs = ram_end \<or> mem_used (hdr h1 (lowest ?bs)) = 0"
  proof (cases "dropWhile snd ?bs")
    case Nil
    then have "takeWhile snd ?bs = ?bs" by (metis append_Nil2 takeWhile_dropWhile_id)
    then show ?thesis using heap_list_extent [OF t(1)] by (simp only: lowest_def ram_end_def mem_sizes simp_thms)
  next
    case (Cons b zs)
    obtain k u where b: "b = (k, u)" by (cases b)
    have u: "\<not> u" using hd_dropWhile [of snd ?bs] Cons by (simp add: b)
    have "heap_list h1 (takeWhile snd ?bs @ (k, u) # zs)" using t(1) Cons b by (metis takeWhile_dropWhile_id)
    from heap_list_hdr(1) [OF this] u show ?thesis by (simp add: lowest_def)
  qed
  then show ?thesis using fl t(1) l by (auto simp: Let_def)
next
  case False
  have lx: "lowest (xs @ zs) = lowest xs" for zs using False by (simp only: lowest_append if_False)
  then have "lfree h1 = lowest xs" using lf t(2) by simp
  moreover obtain r where "blocks (hdr h) 0 0 xs (extent xs) r" using h by (rule heap_list_split)
  ultimately have "lfree h1 \<noteq> extent xs" using lowest_less [OF _ False] by fastforce
  moreover have "lfree h1 = lowest (xs @ cut_block sz m @ ys)" using lf t(2) lx by simp
  ultimately show ?thesis using t(1) by simp
qed

lemma mem_malloc_fit:
  assumes inv: "heap_inv h bs" and n: "0 < n" and sz: "mem_round n = Some sz"
  shows "case first_fit sz 0 bs of
      None \<Rightarrow> mem_malloc n h = Some (None, h)
    | Some (p, bs') \<Rightarrow> \<exists>h'. mem_malloc n h = Some (Some (int (p + 8)), h') \<and> heap_inv h' bs'"
proof -
  have h: "heap_list h bs" and lf: "lfree h = lowest bs" and mg: "merged bs" using inv by (simp_all add: heap_inv_def)
  note s = mem_round_Some [OF sz]
  have scan: "mem_scan h sz (mem_to_ptr (lfree h)) = Some (map_option fst (first_fit sz 0 bs))"
    using mem_scan_heap [OF h lf] s by simp
  show ?thesis
  proof (cases "first_fit sz 0 bs")
    case None
    then show ?thesis using scan n sz by (simp add: mem_malloc_def)
  next
    case (Some a)
    then obtain p bs' where f: "first_fit sz 0 bs = Some (p, bs')" by (cases a) auto
    from first_fit_Some [OF f] obtain xs m ys where x: "bs = xs @ (m, False) # ys" "sz + 8 \<le> m" "p = extent xs"
      "bs' = xs @ cut_block sz m @ ys" by auto
    note X = heap_list_hdr [OF h [unfolded x(1)]]
    obtain h1 where t: "mem_take sz p h = Some h1" "heap_list h1 bs'" "lfree h1 = lfree h"
      using mem_take_cut [OF h [unfolded x(1)] x(2)] s by (auto simp: x)
    obtain h' where h': "(if p = lfree h1
      then do { cur \<leftarrow> find_lfree h1 (lfree h1);
                let h = h1\<lparr>lfree := cur\<rparr>;
                if lfree h = ram_end \<or> mem_used (hdr h (lfree h)) = 0 then Some h else None }
      else Some h1) = Some h'" "heap_list h' bs'" "lfree h' = lowest bs'"
      using malloc_tail [OF h [unfolded x(1)] lf [unfolded x(1)] t(2) [unfolded x(4)] t(3)] by (auto simp: x(3,4))
    have al: "(p + 8) mod 4 = 0" "p mod 4 = 0" "p + 8 + sz \<le> ram_end"
      using X(4,5) x(2) by (auto simp: x(3) ram_end_def mem_sizes elim!: dvdE)
    have "mem_malloc n h = Some (Some (int (p + 8)), h')"
      unfolding mem_malloc_def using n
      by (simp only: sz scan f if_False option.case option.map bind.bind_lunit t(1) h'(1) al option.map_sel) (simp add: al h'(1) t(1) mem_sizes f)
    moreover have "heap_inv h' bs'" using h' mg by (simp add: heap_inv_def x merged_cut)
    ultimately show ?thesis using f by simp
  qed
qed

section \<open>Trimming\<close>

text \<open>What \<open>mem_trim\<close> does to the block \<open>n\<close> in front of the list \<open>ys\<close>.\<close>

definition trimmed :: "nat \<Rightarrow> nat \<Rightarrow> block list \<Rightarrow> block list" where
  "trimmed sz n ys =
     (case ys of
        (m, False) # zs \<Rightarrow> (sz + 8, True) # (n + m - (sz + 8), False) # zs
      | _ \<Rightarrow> cut_block sz n @ ys)"

text \<open>The free block behind grows towards the front.\<close>

lemma heap_list_shift:
  assumes h: "heap_list h (xs @ (n, True) # (m, False) # ys)" and k: "20 \<le> k" "4 dvd k" "k \<le> n"
    and new: "\<And>a. hdr h' a = (if a = extent xs then (hdr h a)\<lparr>mem_next := extent xs + k\<rparr>
      else if a = extent xs + k then \<lparr>mem_next = extent xs + n + m, mem_prev = extent xs, mem_used = 0\<rparr>
      else if a = extent xs + n + m \<and> a \<noteq> 1024 then (hdr h a)\<lparr>mem_prev := extent xs + k\<rparr> else hdr h a)"
  shows "heap_list h' (xs @ (k, True) # (n + m - k, False) # ys)"
proof -
  note X = heap_list_hdr [OF h]
  have "heap_list h ((xs @ [(n, True)]) @ (m, False) # ys)" using h by simp
  from heap_list_hdr [OF this] have Y: "20 \<le> m" "4 dvd m" "extent xs + n + m \<le> 1024" by simp_all
  have d: "4 dvd n + m - k" using X(3) Y(2) k(2) by (simp add: dvd_diff_nat)
  have "heap_list h' (xs @ [(k, True), (n + m - k, False)] @ ys)"
    by (rule heap_list_replace [of h xs "[(n, True), (m, False)]" ys]) (use h X Y k d in \<open>auto simp: new\<close>)
  then show ?thesis by simp
qed

lemma mem_trim_start:
  assumes h: "heap_list h (xs @ (n, True) # ys)" and sz: "mem_round new = Some sz" "sz + 8 \<le> n"
  shows "mem_trim (int (extent xs + 8)) new h =
    (let X = extent xs in
     if sz + 8 = n then Some (Some (int (X + 8)), h)
     else if mem_used (hdr h (X + n)) = 0 then
       if X + n = 1024 then None
       else
         let next = mem_next (hdr h (X + n));
             h = (if lfree h = X + n then h\<lparr>lfree := X + 8 + sz\<rparr> else h);
             h = set_next X (X + 8 + sz) (set_prev (X + 8 + sz) X (set_next (X + 8 + sz) next (set_used (X + 8 + sz) 0 h)))
         in Some (Some (int (X + 8)), if next \<noteq> 1024 then set_prev next (X + 8 + sz) h else h)
     else if sz + 28 \<le> n then
       if X + n = 1024 then None
       else
         let h = (if X + 8 + sz < lfree h then h\<lparr>lfree := X + 8 + sz\<rparr> else h);
             h = set_next X (X + 8 + sz) (set_prev (X + 8 + sz) X (set_next (X + 8 + sz) (X + n) (set_used (X + 8 + sz) 0 h)))
         in Some (Some (int (X + 8)), set_prev (X + n) (X + 8 + sz) h)
     else Some (Some (int (X + 8)), h))"
proof -
  note X = heap_list_hdr [OF h] and s = mem_round_Some [OF sz(1)]
  have u: "mem_size_cast (usub (mem_size_cast (usub (extent xs + n) (extent xs))) 8) = n - 8"
    using X by (simp add: usub_ge mem_size_cast_def)
  have p: "mem_size_cast (extent xs + 8 + sz) = extent xs + 8 + sz" "extent xs mod 65536 = extent xs"
    using X sz s by (simp_all add: mem_size_cast_def)
  have q: "(sz = n - 8) = (sz + 8 = n)" "(sz + 8 + 12 \<le> n - 8) = (sz + 28 \<le> n)" "sz \<le> n - 8" using sz(2) X(2) by auto
  have "n \<noteq> 0" using X by simp
  then show ?thesis
    using X s u p q sz
    by (simp add: mem_trim_def ptr_to_mem_def mem_to_ptr_def mem_sizes ram_end_def Let_def cong: if_cong)
qed

lemma trim_shift:
  assumes inv: "heap_inv h (xs @ (n, True) # (m, False) # ys)" and sz: "12 \<le> sz" "4 dvd sz" "sz + 8 < n"
  defines "p2 \<equiv> extent xs + 8 + sz" and "nx \<equiv> extent xs + n + m"
  defines "h1 \<equiv> if lfree h = extent xs + n then h\<lparr>lfree := p2\<rparr> else h"
  defines "h2 \<equiv> set_next (extent xs) p2 (set_prev p2 (extent xs) (set_next p2 nx (set_used p2 0 h1)))"
  shows "heap_inv (if nx \<noteq> 1024 then set_prev nx p2 h2 else h2) (xs @ (sz + 8, True) # (n + m - (sz + 8), False) # ys)"
proof -
  let ?h = "if nx \<noteq> 1024 then set_prev nx p2 h2 else h2"
  have h: "heap_list h (xs @ (n, True) # (m, False) # ys)" and lf: "lfree h = lowest (xs @ (n, True) # (m, False) # ys)"
    and mg: "merged (xs @ (n, True) # (m, False) # ys)" using inv by (simp_all add: heap_inv_def)
  have h1: "hdr h1 a = hdr h a" for a by (simp add: h1_def)
  have l: "heap_list ?h (xs @ (sz + 8, True) # (n + m - (sz + 8), False) # ys)"
    by (rule heap_list_shift [OF h]) (use sz heap_list_hdr [OF h] in \<open>auto simp: h2_def p2_def nx_def h1\<close>)
  have "\<not> (\<forall>b \<in> set xs. snd b) \<Longrightarrow> lowest xs \<noteq> extent xs + n"
    using lowest_le [of xs] heap_list_hdr(2) [OF h] by simp
  then have "lfree h1 = lowest (xs @ (sz + 8, True) # (n + m - (sz + 8), False) # ys)"
    using lf by (auto simp: h1_def p2_def lowest_append)
  moreover have "lfree ?h = lfree h1" by (simp add: h2_def)
  moreover have "merged (xs @ (sz + 8, True) # (n + m - (sz + 8), False) # ys)"
    using mg by simp
  ultimately show ?thesis using l by (simp add: heap_inv_def)
qed

lemma trim_break:
  assumes inv: "heap_inv h (xs @ (n, True) # ys)" and u: "ys = [] \<or> snd (hd ys)" and sz: "12 \<le> sz" "4 dvd sz" "sz + 28 \<le> n"
    and last: "extent xs + n \<noteq> 1024"
  defines "p2 \<equiv> extent xs + 8 + sz"
  defines "h1 \<equiv> if p2 < lfree h then h\<lparr>lfree := p2\<rparr> else h"
  defines "h2 \<equiv> set_next (extent xs) p2 (set_prev p2 (extent xs) (set_next p2 (extent xs + n) (set_used p2 0 h1)))"
  shows "heap_inv (set_prev (extent xs + n) p2 h2) (xs @ (sz + 8, True) # (n - (sz + 8), False) # ys)"
proof -
  let ?h = "set_prev (extent xs + n) p2 h2"
  have h: "heap_list h (xs @ (n, True) # ys)" and lf: "lfree h = lowest (xs @ (n, True) # ys)"
    and mg: "merged (xs @ (n, True) # ys)" using inv by (simp_all add: heap_inv_def)
  have h1: "hdr h1 a = hdr h a" for a by (simp add: h1_def)
  have l: "heap_list ?h (xs @ (sz + 8, True) # (n - (sz + 8), False) # ys)"
    by (rule heap_list_break [OF h, where v = True and w = False])
      (use sz heap_list_hdr [OF h] last in \<open>auto simp: h2_def p2_def h1\<close>)
  have "lfree h1 = lowest (xs @ (sz + 8, True) # (n - (sz + 8), False) # ys)"
    using lf sz lowest_le [of xs] by (auto simp: h1_def p2_def lowest_append)
  moreover have "lfree ?h = lfree h1" by (simp add: h2_def)
  moreover have "merged (xs @ (sz + 8, True) # (n - (sz + 8), False) # ys)"
    using mg u by simp
  ultimately show ?thesis using l by (simp add: heap_inv_def)
qed

lemma mem_trim_cut:
  assumes inv: "heap_inv h (xs @ (n, True) # ys)" and sz: "mem_round new = Some sz" "sz + 8 \<le> n"
    and last: "ys = [] \<Longrightarrow> n < sz + 28"
  shows "\<exists>h'. mem_trim (int (extent xs + 8)) new h = Some (Some (int (extent xs + 8)), h') \<and>
    heap_inv h' (if sz + 8 = n then xs @ (n, True) # ys else xs @ trimmed sz n ys)"
proof -
  have h: "heap_list h (xs @ (n, True) # ys)" using inv by (simp add: heap_inv_def)
  note X = heap_list_hdr [OF h] and s = mem_round_Some [OF sz(1)]
  note start = mem_trim_start [OF h sz, unfolded Let_def]
  consider "sz + 8 = n" | (free) m zs where "sz + 8 \<noteq> n" "ys = (m, False) # zs" | (used) "sz + 8 \<noteq> n" "ys = [] \<or> snd (hd ys)"
    by (cases ys; cases "snd (hd ys)"; force)
  then show ?thesis
  proof cases
    case 1
    then show ?thesis using start inv by auto
  next
    case free
    have "heap_list h ((xs @ [(n, True)]) @ (m, False) # zs)" using h by (simp add: free)
    note Y = heap_list_hdr [OF this]
    show ?thesis using start free Y sz s trim_shift [OF inv [unfolded free(2)], of sz]
      by (auto simp: trimmed_def)
  next
    case used
    have nx: "ys = [] \<longleftrightarrow> extent xs + n = 1024"
    proof
      show "ys = [] \<Longrightarrow> extent xs + n = 1024" using heap_list_extent [OF h] by simp
      show "extent xs + n = 1024 \<Longrightarrow> ys = []"
      proof (rule ccontr)
        assume e: "extent xs + n = 1024" and "ys \<noteq> []"
        then obtain m v zs where "ys = (m, v) # zs" by (cases ys) auto
        then have "heap_list h ((xs @ [(n, True)]) @ (m, v) # zs)" using h by simp
        from heap_list_hdr [OF this] e show False by simp
      qed
    qed
    have "mem_used (hdr h (extent xs + n)) \<noteq> 0"
    proof (cases ys)
      case Nil
      then show ?thesis using nx heap_list_end [OF h] by simp
    next
      case (Cons b zs)
      then have "heap_list h ((xs @ [(n, True)]) @ (fst b, True) # zs)" using h used by (cases b) auto
      from heap_list_hdr(1) [OF this] show ?thesis by simp
    qed
    moreover have "trimmed sz n ys = cut_block sz n @ ys" using used(2) by (auto simp: trimmed_def split: list.splits bool.splits)
    ultimately show ?thesis
      using start used last nx inv s trim_break [OF inv used(2), of sz] by (auto simp: cut_block_def)
  qed
qed

lemma mem_trim_refused:
  assumes inv: "heap_inv h (xs @ (n, True) # ys)" and sz: "mem_round new = Some sz"
    and bad: "n < sz + 8 \<or> ys = [] \<and> sz + 28 \<le> n"
  shows "mem_trim (int (extent xs + 8)) new h = None"
proof -
  have h: "heap_list h (xs @ (n, True) # ys)" using inv by (simp add: heap_inv_def)
  note X = heap_list_hdr [OF h]
  consider "n < sz + 8" | "ys = []" "sz + 28 \<le> n" using bad by blast
  then show ?thesis
  proof cases
    case 1
    have "mem_size_cast (usub (mem_size_cast (usub (extent xs + n) (extent xs))) 8) = n - 8"
      using X by (simp add: usub_ge mem_size_cast_def)
    moreover have "extent xs mod 65536 = extent xs" "\<not> sz \<le> n - 8" using X 1 by simp_all
    ultimately show ?thesis using X sz by (simp add: mem_trim_def mem_to_ptr_def mem_sizes ram_end_def Let_def)
  next
    case 2
    then have "extent xs + n = 1024" using heap_list_extent [OF h] by simp
    then show ?thesis using mem_trim_start [OF h sz] 2 heap_list_end [OF h] by (simp add: Let_def)
  qed
qed

section \<open>Live regions\<close>

text \<open>The used blocks, with their offsets.\<close>

fun used_at :: "nat \<Rightarrow> block list \<Rightarrow> (nat \<times> nat) set" where
  "used_at p [] = {}"
| "used_at p ((n, u) # bs) = (if u then {(p, n)} else {}) \<union> used_at (p + n) bs"

lemma used_at_append [simp]: "used_at p (xs @ ys) = used_at p xs \<union> used_at (p + extent xs) ys"
  by (induction xs arbitrary: p) (auto simp: add.assoc)

lemma used_at_fuse [simp]: "used_at p (fuse bs) = used_at p bs"
proof (induction bs arbitrary: p rule: fuse.induct, goal_cases)
  case (1 n m bs p)
  then show ?case by (simp add: add.assoc)
next
  case (4 b m bs p)
  obtain k v where "b = (k, v)" by (cases b)
  moreover have "fuse (b # (m, True) # bs) = b # fuse ((m, True) # bs)" by simp
  ultimately show ?case using 4 by (simp del: fuse.simps)
qed auto

lemma used_at_cut: "sz + 8 \<le> n \<Longrightarrow> used_at p (cut_block sz n) = {(p, if sz + 28 \<le> n then sz + 8 else n)}"
  and extent_cut: "sz + 8 \<le> n \<Longrightarrow> extent (cut_block sz n) = n"
  by (auto simp: cut_block_def)

lemma used_at_trimmed:
  "sz + 8 \<le> n \<Longrightarrow> \<exists>m. sz + 8 \<le> m \<and> used_at p (trimmed sz n ys) = insert (p, m) (used_at (p + n) ys)"
  by (auto simp: trimmed_def used_at_cut extent_cut add.assoc split: list.splits bool.splits)

lemma used_at_range: "(a, n) \<in> used_at p bs \<Longrightarrow> p \<le> a \<and> a + n \<le> p + extent bs"
  by (induction bs arbitrary: p) (fastforce split: if_splits)+

lemma used_at_disjoint: "(a, n) \<in> used_at p bs \<Longrightarrow> (b, m) \<in> used_at p bs \<Longrightarrow> (a, n) = (b, m) \<or> a + n \<le> b \<or> b + m \<le> a"
  by (induction bs arbitrary: p) (auto dest: used_at_range split: if_splits)

lemma used_at_split: "(a, n) \<in> used_at p bs \<Longrightarrow> \<exists>xs ys. bs = xs @ (n, True) # ys \<and> a = p + extent xs"
proof (induction bs arbitrary: p)
  case (Cons b bs)
  obtain k u where b: "b = (k, u)" by (cases b)
  show ?case
  proof (cases "(a, n) \<in> used_at (p + k) bs")
    case True
    from Cons.IH [OF this] obtain xs ys where "bs = xs @ (n, True) # ys" "a = p + k + extent xs" by blast
    then show ?thesis by (intro exI [of _ "b # xs"] exI [of _ ys]) (auto simp: b)
  next
    case False
    then show ?thesis using Cons.prems by (intro exI [of _ "[]"] exI [of _ bs]) (auto simp: b split: if_splits)
  qed
qed simp

text \<open>
  A client of the heap: it frees and trims what it has been given.  The second component maps each pointer it holds
  to the size it asked for.
\<close>

inductive heap_reach :: "mem_heap \<Rightarrow> (int \<rightharpoonup> nat) \<Rightarrow> bool" where
  start: "heap_reach (mem_init h) Map.empty"
| malloc: "heap_reach h live \<Longrightarrow> mem_malloc n h = Some (Some p, h') \<Longrightarrow> heap_reach h' (live(p \<mapsto> n))"
| refused: "heap_reach h live \<Longrightarrow> mem_malloc n h = Some (None, h') \<Longrightarrow> heap_reach h' live"
| free: "heap_reach h live \<Longrightarrow> live p = Some n \<Longrightarrow> mem_free (Some p) h = Some h' \<Longrightarrow> heap_reach h' (live(p := None))"
| trim: "heap_reach h live \<Longrightarrow> live p = Some n \<Longrightarrow> mem_trim p m h = Some (Some q, h') \<Longrightarrow> heap_reach h' (live(p \<mapsto> m))"

definition live_ok :: "(int \<rightharpoonup> nat) \<Rightarrow> block list \<Rightarrow> bool" where
  "live_ok live bs \<longleftrightarrow> (\<forall>p k. live p = Some k \<longrightarrow> (\<exists>a n. (a, n) \<in> used_at 0 bs \<and> p = int (a + 8) \<and> k + 8 \<le> n))"

lemma mem_malloc_cases:
  assumes inv: "heap_inv h bs" and m: "mem_malloc n h = Some (r, h')"
  shows "r = None \<and> h' = h \<or> (\<exists>sz p bs'. mem_round n = Some sz \<and> first_fit sz 0 bs = Some (p, bs') \<and>
    r = Some (int (p + 8)) \<and> heap_inv h' bs')"
proof (cases "n = 0 \<or> mem_round n = None")
  case True
  then show ?thesis using m by (auto simp: mem_malloc_def split: if_splits)
next
  case False
  then obtain sz where "mem_round n = Some sz" "0 < n" by auto
  then show ?thesis using mem_malloc_fit [OF inv, of n sz] m by (auto split: option.splits)
qed

lemma live_block:
  assumes "live_ok live bs" "live p = Some k"
  obtains xs n ys where "bs = xs @ (n, True) # ys" "p = int (extent xs + 8)" "k + 8 \<le> n"
proof -
  obtain a n where a: "(a, n) \<in> used_at 0 bs" "p = int (a + 8)" "k + 8 \<le> n"
    using assms unfolding live_ok_def by blast
  from used_at_split [OF a(1)] obtain xs ys where "bs = xs @ (n, True) # ys" "a = extent xs" by auto
  with a that show thesis by blast
qed

lemma heap_reach_inv: "heap_reach h live \<Longrightarrow> \<exists>bs. heap_inv h bs \<and> live_ok live bs"
proof (induction rule: heap_reach.induct)
  case (start h)
  then show ?case using mem_init_inv by (auto simp: live_ok_def)
next
  case (malloc h live n p h')
  then obtain bs where inv: "heap_inv h bs" and ok: "live_ok live bs" by blast
  obtain sz a bs' where m: "mem_round n = Some sz" "first_fit sz 0 bs = Some (a, bs')" "p = int (a + 8)" "heap_inv h' bs'"
    using mem_malloc_cases [OF inv malloc(2)] by auto
  from first_fit_Some [OF m(2)] obtain xs k ys where x: "bs = xs @ (k, False) # ys" "sz + 8 \<le> k" "a = extent xs"
    "bs' = xs @ cut_block sz k @ ys" by auto
  have u: "used_at 0 bs' = insert (a, if sz + 28 \<le> k then sz + 8 else k) (used_at 0 bs)"
    using x by (auto simp: used_at_cut extent_cut)
  have "n + 8 \<le> (if sz + 28 \<le> k then sz + 8 else k)" using mem_round_Some [OF m(1)] x(2) by simp
  then have "live_ok (live(p \<mapsto> n)) bs'" using ok m(3) u unfolding live_ok_def by (metis fun_upd_apply insert_iff option.inject)
  with m show ?case by blast
next
  case (refused h live n h')
  then show ?case using mem_malloc_cases by fastforce
next
  case (free h live p n h')
  then obtain bs where inv: "heap_inv h bs" and ok: "live_ok live bs" by blast
  from live_block [OF ok free(2)] obtain xs k ys where x: "bs = xs @ (k, True) # ys" "p = int (extent xs + 8)" "n + 8 \<le> k" .
  from mem_free_fuse [OF inv [unfolded x(1)]] free(3) have "heap_inv h' (fuse (xs @ (k, False) # ys))" by (simp add: x(2))
  moreover have "live_ok (live(p := None)) (fuse (xs @ (k, False) # ys))"
    unfolding live_ok_def
  proof (intro allI impI)
    fix q m assume q: "(live(p := None)) q = Some m"
    then obtain a l where "(a, l) \<in> used_at 0 bs" "q = int (a + 8)" "m + 8 \<le> l" using ok
      by (auto simp: live_ok_def split: if_splits)
    moreover have "q \<noteq> p" using q by auto
    ultimately show "\<exists>a n. (a, n) \<in> used_at 0 (fuse (xs @ (k, False) # ys)) \<and> q = int (a + 8) \<and> m + 8 \<le> n"
      by (auto simp: x)
  qed
  ultimately show ?case by blast
next
  case (trim h live p n m q h')
  then obtain bs where inv: "heap_inv h bs" and ok: "live_ok live bs" by blast
  from live_block [OF ok trim(2)] obtain xs k ys where x: "bs = xs @ (k, True) # ys" "p = int (extent xs + 8)" "n + 8 \<le> k" .
  obtain sz where sz: "mem_round m = Some sz" using trim(3) by (cases "mem_round m") (auto simp: mem_trim_def)
  note s = mem_round_Some [OF sz]
  have ok': "sz + 8 \<le> k" "ys = [] \<Longrightarrow> k < sz + 28"
    using mem_trim_refused [OF inv [unfolded x(1)] sz] trim(3) x(2) by (fastforce simp: not_less)+
  let ?bs' = "if sz + 8 = k then xs @ (k, True) # ys else xs @ trimmed sz k ys"
  have inv': "heap_inv h' ?bs'" using mem_trim_cut [OF inv [unfolded x(1)] sz ok'] trim(3) x(2) by auto
  obtain l where l: "sz + 8 \<le> l" "used_at 0 ?bs' = insert (extent xs, l) (used_at 0 xs \<union> used_at (extent xs + k) ys)"
    using used_at_trimmed [OF ok'(1), of "extent xs" ys] ok'(1) that [of k] that by (cases "sz + 8 = k") auto
  have "live_ok (live(p \<mapsto> m)) ?bs'"
    unfolding live_ok_def
  proof (intro allI impI)
    fix q j assume q: "(live(p \<mapsto> m)) q = Some j"
    show "\<exists>a n. (a, n) \<in> used_at 0 ?bs' \<and> q = int (a + 8) \<and> j + 8 \<le> n"
    proof (cases "q = p")
      case True
      then show ?thesis using q l s x(2) by (intro exI [of _ "extent xs"] exI [of _ l]) (simp only: l(2), simp)
    next
      case False
      then have "live q = Some j" using q by simp
      then obtain a l where "(a, l) \<in> used_at 0 bs" "q = int (a + 8)" "j + 8 \<le> l"
        using ok unfolding live_ok_def by blast
      then show ?thesis using False unfolding l(2) by (auto simp: x)
    qed
  qed
  with inv' show ?case by blast
qed

section \<open>The heap is an allocator\<close>

definition user_ptrs :: "block list \<Rightarrow> int set" where
  "user_ptrs bs = (\<lambda>(a, n). int (a + 8)) ` used_at 0 bs"

definition heap_ok :: "mem_heap \<Rightarrow> int set \<Rightarrow> bool" where
  "heap_ok h L \<longleftrightarrow> (\<exists>bs. heap_inv h bs \<and> L = user_ptrs bs)"

lemma heap_ok_init: "heap_ok (mem_init h) {}"
  unfolding heap_ok_def user_ptrs_def by (intro exI [of _ "[(1024, False)]"]) (simp add: mem_init_inv)

text \<open>No other used block starts where a block starts.\<close>

lemma block_start_free:
  assumes inv: "heap_inv h (xs @ (n, u) # ys)"
  shows "(extent xs, m) \<notin> used_at 0 xs" "(extent xs, m) \<notin> used_at (extent xs + n) ys"
proof -
  have h: "heap_list h (xs @ (n, u) # ys)" using inv by (simp add: heap_inv_def)
  show "(extent xs, m) \<notin> used_at 0 xs"
  proof
    assume x: "(extent xs, m) \<in> used_at 0 xs"
    from used_at_split [OF x] obtain as bs where s: "xs = as @ (m, True) # bs" by blast
    then have "heap_list h (as @ (m, True) # (bs @ (n, u) # ys))" using h by simp
    from heap_list_hdr(2) [OF this] used_at_range [OF x] show False by simp
  qed
  show "(extent xs, m) \<notin> used_at (extent xs + n) ys"
    using heap_list_hdr(2) [OF h] by (auto dest!: used_at_range)
qed

lemma heap_ok_malloc:
  assumes "heap_ok h L"
  shows "\<exists>r h'. mem_malloc n h = Some (r, h') \<and>
    (case r of None \<Rightarrow> h' = h | Some p \<Rightarrow> p \<in> UNIV \<and> p \<notin> L \<and> heap_ok h' (insert p L))"
proof -
  obtain bs where inv: "heap_inv h bs" and L: "L = user_ptrs bs" using assms by (auto simp: heap_ok_def)
  obtain r h' where r: "mem_malloc n h = Some (r, h')"
  proof (cases "n = 0 \<or> mem_round n = None")
    case True
    then have "mem_malloc n h = Some (None, h)" by (auto simp: mem_malloc_def)
    then show thesis by (rule that)
  next
    case False
    then obtain sz where "mem_round n = Some sz" "0 < n" by auto
    then show thesis using mem_malloc_fit [OF inv, of n sz] that by (auto split: option.splits)
  qed
  from mem_malloc_cases [OF inv r] show ?thesis
  proof (elim disjE conjE exE)
    fix sz a bs'
    assume m: "first_fit sz 0 bs = Some (a, bs')" "r = Some (int (a + 8))" "heap_inv h' bs'"
    from first_fit_Some [OF m(1)] obtain xs k ys where x: "bs = xs @ (k, False) # ys" "sz + 8 \<le> k" "a = extent xs"
      "bs' = xs @ cut_block sz k @ ys" by auto
    have u: "used_at 0 bs' = insert (a, if sz + 28 \<le> k then sz + 8 else k) (used_at 0 bs)"
      using x by (auto simp: used_at_cut extent_cut)
    then have "user_ptrs bs' = insert (int (a + 8)) L" by (simp add: user_ptrs_def L)
    then have "heap_ok h' (insert (int (a + 8)) L)" using m(3) by (auto simp: heap_ok_def)
    moreover have "int (a + 8) \<notin> L"
    proof
      assume "int (a + 8) \<in> L"
      then obtain n where "(a, n) \<in> used_at 0 bs" by (auto simp: L user_ptrs_def)
      moreover have "heap_inv h (xs @ (k, False) # ys)" using inv by (simp add: x)
      ultimately show False using block_start_free [of h xs k False ys n] by (simp add: x)
    qed
    ultimately show ?thesis using r m(2) by auto
  qed (use r in auto)
qed

lemma heap_ok_aligned:
  assumes "heap_ok h L" "p \<in> L"
  shows "p mod 4 = 0"
proof -
  obtain bs where inv: "heap_inv h bs" and L: "L = user_ptrs bs" using assms(1) by (auto simp: heap_ok_def)
  obtain a n where a: "(a, n) \<in> used_at 0 bs" "p = int (a + 8)" using assms(2) by (auto simp: L user_ptrs_def)
  obtain xs ys where x: "bs = xs @ (n, True) # ys" "a = extent xs" using used_at_split [OF a(1)] by auto
  have "heap_list h (xs @ (n, True) # ys)" using inv by (simp add: heap_inv_def x)
  from heap_list_hdr(4) [OF this] show ?thesis by (auto simp: a(2) x(2) elim!: dvdE)
qed

lemma heap_ok_free:
  assumes "heap_ok h L" "p \<in> L"
  shows "\<exists>h'. mem_free (Some p) h = Some h' \<and> heap_ok h' (L - {p})"
proof -
  obtain bs where inv: "heap_inv h bs" and L: "L = user_ptrs bs" using assms(1) by (auto simp: heap_ok_def)
  obtain a n where a: "(a, n) \<in> used_at 0 bs" "p = int (a + 8)" using assms(2) by (auto simp: L user_ptrs_def)
  obtain xs ys where x: "bs = xs @ (n, True) # ys" "a = extent xs" using used_at_split [OF a(1)] by auto
  let ?bs' = "fuse (xs @ (n, False) # ys)"
  obtain h' where h': "mem_free (Some p) h = Some h'" "heap_inv h' ?bs'"
    using mem_free_fuse [OF inv [unfolded x(1)]] by (auto simp: a(2) x(2))
  have "user_ptrs ?bs' = L - {p}"
    using block_start_free [OF inv [unfolded x(1)]] unfolding L user_ptrs_def x(1) a(2) x(2) by auto
  then show ?thesis using h' by (auto simp: heap_ok_def)
qed

text \<open>Trimming leaves the set of blocks in use as it is, or does nothing because the size is out of range.\<close>

lemma heap_ok_trim:
  assumes "heap_ok h L" "p \<in> L" "mem_trim p n h = Some (r, h')"
  shows "r = None \<and> h' = h \<and> mem_round n = None \<or> r = Some p \<and> heap_ok h' L"
proof (cases "mem_round n")
  case None
  then show ?thesis using assms(3) by (simp add: mem_trim_def)
next
  case (Some sz)
  obtain bs where inv: "heap_inv h bs" and L: "L = user_ptrs bs" using assms(1) by (auto simp: heap_ok_def)
  obtain a k where a: "(a, k) \<in> used_at 0 bs" "p = int (a + 8)" using assms(2) by (auto simp: L user_ptrs_def)
  obtain xs ys where x: "bs = xs @ (k, True) # ys" "a = extent xs" using used_at_split [OF a(1)] by auto
  have p: "p = int (extent xs + 8)" by (simp add: a(2) x(2))
  note inv = inv [unfolded x(1)]
  have ok: "\<not> (k < sz + 8 \<or> ys = [] \<and> sz + 28 \<le> k)" using mem_trim_refused [OF inv Some] assms(3) by (auto simp: p)
  obtain h2 where h2: "mem_trim p n h = Some (Some p, h2)"
    "heap_inv h2 (if sz + 8 = k then xs @ (k, True) # ys else xs @ trimmed sz k ys)"
    using mem_trim_cut [OF inv Some] ok by (auto simp: p not_less)
  obtain m where "used_at (extent xs) (trimmed sz k ys) = insert (extent xs, m) (used_at (extent xs + k) ys)"
    using used_at_trimmed [of sz k "extent xs" ys] ok by (auto simp: not_less)
  then have "user_ptrs (xs @ trimmed sz k ys) = user_ptrs (xs @ (k, True) # ys)" by (simp add: user_ptrs_def)
  then have "heap_ok h2 L" using h2(2) by (auto simp: heap_ok_def L x(1) split: if_splits)
  then show ?thesis using h2(1) assms(3) by simp
qed

interpretation heap: block_store heap_ok "mem_malloc n" "\<lambda>p. mem_free (Some p)" UNIV
proof
  show "\<exists>r s'. mem_malloc n s = Some (r, s') \<and> (case r of None \<Rightarrow> s' = s | Some p \<Rightarrow> p \<in> UNIV \<and> p \<notin> L \<and> heap_ok s' (insert p L))"
    if ok: "heap_ok s L" for s L
    using heap_ok_malloc [OF ok] .
  show "\<exists>s'. mem_free (Some p) s = Some s' \<and> heap_ok s' (L - {p})" if l: "heap_ok s L" "p \<in> L" for s L p
    using heap_ok_free [OF l] .
qed

section \<open>Properties\<close>

text \<open>The zeroed memory the witnesses start from.\<close>

definition heap0 :: mem_heap where
  "heap0 = \<lparr>hdr = \<lambda>_. \<lparr>mem_next = 0, mem_prev = 0, mem_used = 0\<rparr>, lfree = 0\<rparr>"

text \<open>C27. \<open>mem_malloc\<close> refines first fit: from a well-formed heap it never fails an assertion and never loops; it returns
  \<^verbatim>\<open>NULL\<close>, with the heap untouched, exactly when the rounded size is too large or fits no free block, and otherwise the
  lowest block that fits, cut to size.\<close>

theorem mem_malloc_refines:
  assumes "heap_inv h bs" "0 < n"
  shows "case Option.bind (mem_round n) (\<lambda>sz. first_fit sz 0 bs) of
      None \<Rightarrow> mem_malloc n h = Some (None, h)
    | Some (p, bs') \<Rightarrow> \<exists>h'. mem_malloc n h = Some (Some (int (p + 8)), h') \<and> heap_inv h' bs'"
proof (cases "mem_round n")
  case None
  then show ?thesis using assms(2) by (simp add: mem_malloc_def)
next
  case (Some sz)
  then show ?thesis using mem_malloc_fit [OF assms Some] by simp
qed

theorem mem_malloc_refines_witness:
  "\<exists>h'. mem_malloc 100 (mem_init heap0) = Some (Some 8, h') \<and> heap_inv h' [(108, True), (916, False)]"
  using mem_malloc_refines [OF mem_init_inv, of 100] by (simp add: mem_round_small cut_block_def)

text \<open>C29. Freeing what was just allocated restores the block list: the pieces merge with each other and nothing else.\<close>

theorem mem_malloc_free_roundtrip:
  assumes "heap_inv h bs" "mem_malloc n h = Some (Some p, h')"
  shows "\<exists>h''. mem_free (Some p) h' = Some h'' \<and> heap_inv h'' bs"
proof -
  obtain sz a bs' where m: "first_fit sz 0 bs = Some (a, bs')" "p = int (a + 8)" "heap_inv h' bs'"
    using mem_malloc_cases [OF assms] by auto
  from first_fit_Some [OF m(1)] obtain xs k ys where x: "bs = xs @ (k, False) # ys" "sz + 8 \<le> k" "a = extent xs"
    "bs' = xs @ cut_block sz k @ ys" by auto
  obtain k' zs where c: "cut_block sz k @ ys = (k', True) # zs" "fuse ((k', False) # zs) = fuse ((k, False) # ys)"
    using x(2) by (cases "sz + 28 \<le> k") (auto simp: cut_block_def)
  have mg: "merged bs" "merged (xs @ [(k, False)])" using assms(1) merged_append [of xs "(k, False)" ys] by (auto simp: heap_inv_def x)
  then have "merged (xs @ [(k', False)])" by (induction xs) (auto simp: hd_append split: if_splits)
  then have "fuse (xs @ (k', False) # zs) = bs"
    using c(2) mg fuse_merged [OF mg(1)] fuse_prefix [OF mg(2), of ys] by (simp add: fuse_prefix x)
  then show ?thesis using mem_free_fuse [of h' xs k' zs] m(3) by (simp add: m(2) x c)
qed

theorem mem_malloc_free_roundtrip_witness:
  "\<exists>h1 h2. mem_malloc 100 (mem_init heap0) = Some (Some 8, h1) \<and> mem_free (Some 8) h1 = Some h2 \<and> heap_inv h2 [(1024, False)]"
proof -
  obtain h1 where "mem_malloc 100 (mem_init heap0) = Some (Some 8, h1)"
    using mem_malloc_fit [OF mem_init_inv, of 100] by (auto simp: mem_round_small cut_block_def)
  with mem_malloc_free_roundtrip [OF mem_init_inv this] show ?thesis by blast
qed

text \<open>C28. Whatever sequence of allocations, releases and trims a client makes, the regions it holds lie inside the heap, are
  aligned and as long as it asked for, and no two of them overlap; releasing a held region succeeds.\<close>

theorem heap_regions_disjoint:
  assumes "heap_reach h live" "live p = Some n"
  shows "8 \<le> p \<and> p + int n \<le> 1024 \<and> p mod 4 = 0 \<and> mem_free (Some p) h \<noteq> None \<and>
    (\<forall>q m. live q = Some m \<and> q \<noteq> p \<longrightarrow> p + int n \<le> q \<or> q + int m \<le> p)"
proof -
  obtain bs where inv: "heap_inv h bs" and ok: "live_ok live bs" using heap_reach_inv [OF assms(1)] by blast
  from live_block [OF ok assms(2)] obtain xs k ys where x: "bs = xs @ (k, True) # ys" "p = int (extent xs + 8)" "n + 8 \<le> k" .
  have h: "heap_list h (xs @ (k, True) # ys)" using inv by (simp add: heap_inv_def x)
  note X = heap_list_hdr [OF h]
  have "p + int n \<le> q \<or> q + int m \<le> p" if q: "live q = Some m" "q \<noteq> p" for q m
  proof -
    obtain a l where a: "(a, l) \<in> used_at 0 bs" "q = int (a + 8)" "m + 8 \<le> l" using ok q(1) unfolding live_ok_def by blast
    have "(extent xs, k) \<in> used_at 0 bs" by (simp add: x(1))
    from used_at_disjoint [OF this a(1)] show ?thesis using a x q(2) by auto
  qed
  moreover have "mem_free (Some p) h \<noteq> None" using mem_free_fuse [OF inv [unfolded x(1)]] by (auto simp: x(2))
  moreover have "int (extent xs + 8) mod 4 = 0" using X(4) by (auto elim!: dvdE)
  ultimately show ?thesis using X x by auto
qed

theorem heap_regions_disjoint_witness:
  "\<exists>h1 h2. mem_malloc 100 (mem_init heap0) = Some (Some 8, h1) \<and> mem_malloc 50 h1 = Some (Some 116, h2) \<and> (8 + 100 :: int) \<le> 116 \<and>
    mem_free (Some 8) h2 \<noteq> None"
proof -
  obtain h1 where 1: "mem_malloc 100 (mem_init heap0) = Some (Some 8, h1)" "heap_inv h1 [(108, True), (916, False)]"
    using mem_malloc_fit [OF mem_init_inv, of 100] by (auto simp: mem_round_small cut_block_def)
  obtain h2 where 2: "mem_malloc 50 h1 = Some (Some 116, h2)"
    using mem_malloc_fit [OF 1(2), of 50] by (auto simp: mem_round_small cut_block_def)
  have "heap_reach h2 ([8 \<mapsto> 100, 116 \<mapsto> 50])"
    using heap_reach.malloc [OF heap_reach.malloc [OF heap_reach.start 1(1)] 2] .
  from heap_regions_disjoint [OF this, of 8 100] 1 2 show ?thesis by auto
qed

text \<open>C30. \<open>mem_trim\<close> on a well-formed heap: a size that no heap has gives \<^verbatim>\<open>NULL\<close> and leaves the heap
  alone.  Growing a block to any other size fails the assertion that memory can only shrink, where the comment on the function
  promises \<^verbatim>\<open>NULL\<close> and the memory untouched; so does shrinking the block that ends the heap by enough to leave a block,
  although the list could be updated as for any other block.  In all other cases the block is shortened in place.\<close>

theorem mem_trim_refines:
  assumes "heap_inv h (xs @ (n, True) # ys)"
  shows "case mem_round new of
      None \<Rightarrow> mem_trim (int (extent xs + 8)) new h = Some (None, h)
    | Some sz \<Rightarrow>
        if n < sz + 8 \<or> ys = [] \<and> sz + 28 \<le> n then mem_trim (int (extent xs + 8)) new h = None
        else \<exists>h'. mem_trim (int (extent xs + 8)) new h = Some (Some (int (extent xs + 8)), h') \<and>
          heap_inv h' (if sz + 8 = n then xs @ (n, True) # ys else xs @ trimmed sz n ys)"
proof (cases "mem_round new")
  case None
  then show ?thesis by (simp add: mem_trim_def)
next
  case (Some sz)
  then show ?thesis using mem_trim_refused [OF assms Some] mem_trim_cut [OF assms Some] by (auto simp: not_less)
qed

theorem mem_trim_refines_witness:
  "\<exists>h1 h2. mem_malloc 1016 (mem_init heap0) = Some (Some 8, h1) \<and> mem_trim 8 500 h1 = None \<and>
    mem_malloc 900 (mem_init heap0) = Some (Some 8, h2) \<and> mem_trim 8 500 h2 \<noteq> None \<and> mem_trim 8 1000 h2 = None \<and>
    mem_trim 8 2000 h2 = Some (None, h2)"
proof -
  obtain h1 where 1: "mem_malloc 1016 (mem_init heap0) = Some (Some 8, h1)" "heap_inv h1 [(1024, True)]"
    using mem_malloc_fit [OF mem_init_inv, of 1016] by (auto simp: mem_round_small cut_block_def)
  obtain h2 where 2: "mem_malloc 900 (mem_init heap0) = Some (Some 8, h2)" "heap_inv h2 [(908, True), (116, False)]"
    using mem_malloc_fit [OF mem_init_inv, of 900] by (auto simp: mem_round_small cut_block_def)
  have r: "mem_round 2000 = None" by (simp add: mem_round_def LWIP_MEM_ALIGN_SIZE_def mem_sizes mem_size_cast_def)
  have "mem_trim 8 500 h1 = None"
    using 1(2) mem_trim_refines [of h1 "[]" 1024 "[]" 500] by (simp add: mem_round_small)
  moreover have "mem_trim 8 500 h2 \<noteq> None"
    using 2(2) mem_trim_refines [of h2 "[]" 908 "[(116, False)]" 500] by (auto simp: mem_round_small)
  moreover have "mem_trim 8 1000 h2 = None"
    using 2(2) mem_trim_refines [of h2 "[]" 908 "[(116, False)]" 1000] by (simp add: mem_round_small)
  moreover have "mem_trim 8 2000 h2 = Some (None, h2)"
    using 2(2) mem_trim_refines [of h2 "[]" 908 "[(116, False)]" 2000] r by simp
  ultimately show ?thesis using 1(1) 2(1) by blast
qed

end
