(* ===== verification/Lwip_Memp.thy ===== *)
theory Lwip_Memp
  imports Lwip_Mem Lwip_Store "HOL-Library.Multiset"
begin

text \<open>
  The memory pools of lwIP, \<^verbatim>\<open>lwip/src/core/memp.c\<close>, as configured: five pools, no overflow or sanity check,
  no statistics.

  A pointer is an object and an offset into it: the heap, the memory of a pool, or anything else.  The objects
  \<open>Ram\<close> and \<open>Pool\<close> start at aligned addresses.  The link of a free element overlays its first word, which
  nothing reads as user data; links are kept apart.

  Each pool provides the allocator interface of \<open>Lwip_Store\<close>.
\<close>

section \<open>Pools\<close>

datatype memp_t = MEMP_REASSDATA | MEMP_FRAG_PBUF | MEMP_SYS_TIMEOUT | MEMP_PBUF | MEMP_PBUF_POOL

datatype area = Ram | Pool memp_t | Ext nat

type_synonym ptr = "area \<times> int"

definition ptr_add :: "ptr \<Rightarrow> int \<Rightarrow> ptr" where
  "ptr_add p n = (fst p, snd p + n)"

lemma ptr_add_simps [simp]: "ptr_add (a, i) n = (a, i + n)" "fst (ptr_add p n) = fst p" "snd (ptr_add p n) = snd p + n"
  "ptr_add p 0 = p" "ptr_add (ptr_add p n) m = ptr_add p (n + m)"
  by (simp_all add: ptr_add_def)

definition MEMP_SIZE :: int where "MEMP_SIZE = 0"

text \<open>The descriptors: element size and number of elements; the base is the start of the pool's memory.\<close>

fun memp_size :: "memp_t \<Rightarrow> nat" where
  "memp_size MEMP_REASSDATA = LWIP_MEM_ALIGN_SIZE 32"
| "memp_size MEMP_FRAG_PBUF = LWIP_MEM_ALIGN_SIZE 24"
| "memp_size MEMP_SYS_TIMEOUT = LWIP_MEM_ALIGN_SIZE 16"
| "memp_size MEMP_PBUF = LWIP_MEM_ALIGN_SIZE 16"
| "memp_size MEMP_PBUF_POOL = LWIP_MEM_ALIGN_SIZE (LWIP_MEM_ALIGN_SIZE 16 + LWIP_MEM_ALIGN_SIZE 256)"

fun memp_num :: "memp_t \<Rightarrow> nat" where
  "memp_num MEMP_REASSDATA = 5"
| "memp_num MEMP_FRAG_PBUF = 15"
| "memp_num MEMP_SYS_TIMEOUT = 3"
| "memp_num MEMP_PBUF = 2"
| "memp_num MEMP_PBUF_POOL = 1"

record memp_state =
  memp_tab :: "memp_t \<Rightarrow> ptr option"
  memp_next :: "ptr \<Rightarrow> ptr option"

text \<open>The list \<open>memp_pools\<close>, in the order of the enumeration.\<close>

definition memp_pools :: "memp_t list" where
  "memp_pools = [MEMP_REASSDATA, MEMP_FRAG_PBUF, MEMP_SYS_TIMEOUT, MEMP_PBUF, MEMP_PBUF_POOL]"

fun memp_init_loop :: "nat \<Rightarrow> memp_t \<Rightarrow> ptr \<Rightarrow> memp_state \<Rightarrow> memp_state" where
  "memp_init_loop 0 desc memp st = st"
| "memp_init_loop (Suc k) desc memp st =
     (let st = st\<lparr>memp_next := (memp_next st)(memp := memp_tab st desc)\<rparr>;
          st = st\<lparr>memp_tab := (memp_tab st)(desc := Some memp)\<rparr>
      in memp_init_loop k desc (ptr_add memp (MEMP_SIZE + int (memp_size desc))) st)"

definition memp_init_pool :: "memp_t \<Rightarrow> memp_state \<Rightarrow> memp_state" where
  "memp_init_pool desc st =
     (let st = st\<lparr>memp_tab := (memp_tab st)(desc := None)\<rparr>
      in memp_init_loop (memp_num desc) desc (Pool desc, 0) st)"

definition memp_init :: "memp_state \<Rightarrow> memp_state" where
  "memp_init st = fold memp_init_pool memp_pools st"

definition do_memp_malloc_pool :: "memp_t \<Rightarrow> memp_state \<Rightarrow> (ptr option \<times> memp_state) option" where
  "do_memp_malloc_pool desc st =
     (case memp_tab st desc of
        Some memp \<Rightarrow>
          let st = st\<lparr>memp_tab := (memp_tab st)(desc := memp_next st memp)\<rparr>
          in if snd memp mod 4 \<noteq> 0 then None else Some (Some (ptr_add memp MEMP_SIZE), st)
      | None \<Rightarrow> Some (None, st))"

definition memp_malloc_pool :: "memp_t option \<Rightarrow> memp_state \<Rightarrow> (ptr option \<times> memp_state) option" where
  "memp_malloc_pool desc st = (case desc of None \<Rightarrow> None | Some d \<Rightarrow> do_memp_malloc_pool d st)"

definition memp_malloc :: "memp_t \<Rightarrow> memp_state \<Rightarrow> (ptr option \<times> memp_state) option" where
  "memp_malloc type st = do_memp_malloc_pool type st"

definition do_memp_free_pool :: "memp_t \<Rightarrow> ptr \<Rightarrow> memp_state \<Rightarrow> memp_state option" where
  "do_memp_free_pool desc mem st =
     (if snd mem mod 4 \<noteq> 0 then None
      else
        let memp = ptr_add mem (- MEMP_SIZE);
            st = st\<lparr>memp_next := (memp_next st)(memp := memp_tab st desc)\<rparr>
        in Some (st\<lparr>memp_tab := (memp_tab st)(desc := Some memp)\<rparr>))"

definition memp_free_pool :: "memp_t option \<Rightarrow> ptr option \<Rightarrow> memp_state \<Rightarrow> memp_state option" where
  "memp_free_pool desc mem st =
     (case desc of None \<Rightarrow> None
      | Some d \<Rightarrow> case mem of None \<Rightarrow> Some st | Some m \<Rightarrow> do_memp_free_pool d m st)"

definition memp_free :: "memp_t \<Rightarrow> ptr option \<Rightarrow> memp_state \<Rightarrow> memp_state option" where
  "memp_free type mem st = (case mem of None \<Rightarrow> Some st | Some m \<Rightarrow> do_memp_free_pool type m st)"

section \<open>Free lists\<close>

fun links :: "(ptr \<Rightarrow> ptr option) \<Rightarrow> ptr option \<Rightarrow> ptr list \<Rightarrow> bool" where
  "links nx p [] \<longleftrightarrow> p = None"
| "links nx p (a # as) \<longleftrightarrow> p = Some a \<and> links nx (nx a) as"

lemma links_upd: "a \<notin> set as \<Longrightarrow> links (nx(a := q)) p as = links nx p as"
  by (induction as arbitrary: p) auto

definition elems :: "memp_t \<Rightarrow> ptr set" where
  "elems t = (\<lambda>i. (Pool t, int (i * memp_size t))) ` {..<memp_num t}"

text \<open>The free list of a pool holds its elements that are not live.\<close>

definition pool_ok :: "memp_state \<Rightarrow> memp_t \<Rightarrow> ptr set \<Rightarrow> bool" where
  "pool_ok st t L \<longleftrightarrow> (\<exists>fs. links (memp_next st) (memp_tab st t) fs \<and> distinct fs \<and> set fs = elems t - L)"

definition memp_ok :: "memp_state \<Rightarrow> ptr set \<Rightarrow> bool" where
  "memp_ok st L \<longleftrightarrow> (\<forall>t. pool_ok st t L)"

lemma memp_size_align: "4 dvd memp_size t" "0 < memp_size t"
  by (cases t; simp add: LWIP_MEM_ALIGN_SIZE_def)+

lemma elems_align: "p \<in> elems t \<Longrightarrow> snd p mod 4 = 0"
  using memp_size_align(1) [of t] by (auto simp: elems_def elim!: dvdE)

lemma elems_disjoint: "p \<in> elems t \<Longrightarrow> p \<in> elems u \<longleftrightarrow> t = u"
  by (auto simp: elems_def)

lemma finite_elems [simp]: "finite (elems t)"
  by (simp add: elems_def)

lemma card_elems: "card (elems t) = memp_num t"
  using memp_size_align(2) [of t] by (simp add: elems_def card_image inj_on_def)

text \<open>A pool is not affected by the links of others.\<close>

lemma pool_ok_frame:
  assumes "pool_ok st t L" "memp_tab st' t = memp_tab st t" "\<And>p. p \<in> elems t - L \<Longrightarrow> memp_next st' p = memp_next st p"
    "elems t - L' = elems t - L"
  shows "pool_ok st' t L'"
proof -
  obtain fs where fs: "links (memp_next st) (memp_tab st t) fs" "distinct fs" "set fs = elems t - L"
    using assms(1) by (auto simp: pool_ok_def)
  have "links (memp_next st') p gs = links (memp_next st) p gs" if "set gs \<subseteq> set fs" for p gs
    using that fs(3) assms(3) by (induction gs arbitrary: p) auto
  then show ?thesis using fs assms(2,4) by (auto simp: pool_ok_def)
qed

lemma memp_malloc_ok:
  assumes ok: "memp_ok st L"
  shows "\<exists>r st'. memp_malloc t st = Some (r, st') \<and>
    (case r of None \<Rightarrow> elems t \<subseteq> L \<and> st' = st | Some p \<Rightarrow> p \<in> elems t \<and> p \<notin> L \<and> memp_ok st' (insert p L))"
proof -
  obtain fs where fs: "links (memp_next st) (memp_tab st t) fs" "distinct fs" "set fs = elems t - L"
    using ok by (auto simp: memp_ok_def pool_ok_def)
  show ?thesis
  proof (cases fs)
    case Nil
    then show ?thesis using fs by (auto simp: memp_malloc_def do_memp_malloc_pool_def)
  next
    case (Cons p gs)
    let ?st = "st\<lparr>memp_tab := (memp_tab st)(t := memp_next st p)\<rparr>"
    have p: "p \<in> elems t" "p \<notin> L" using fs(3) Cons by auto
    have "pool_ok ?st u (insert p L)" for u
    proof (cases "u = t")
      case True
      then show ?thesis using fs Cons by (auto simp: pool_ok_def)
    next
      case False
      show ?thesis
        by (rule pool_ok_frame [of st u L]) (use ok p(1) False in \<open>auto simp: memp_ok_def elems_disjoint\<close>)
    qed
    then have "memp_ok ?st (insert p L)" by (simp add: memp_ok_def)
    moreover have "memp_malloc t st = Some (Some p, ?st)"
      using fs(1) Cons elems_align [OF p(1)] by (simp add: memp_malloc_def do_memp_malloc_pool_def Let_def MEMP_SIZE_def)
    ultimately show ?thesis using p by auto
  qed
qed

lemma memp_free_ok:
  assumes ok: "memp_ok st L" and p: "p \<in> L" "p \<in> elems t"
  shows "\<exists>st'. memp_free t (Some p) st = Some st' \<and> memp_ok st' (L - {p})"
proof -
  let ?st = "st\<lparr>memp_next := (memp_next st)(p := memp_tab st t), memp_tab := (memp_tab st)(t := Some p)\<rparr>"
  have "pool_ok ?st u (L - {p})" for u
  proof (cases "u = t")
    case True
    obtain fs where fs: "links (memp_next st) (memp_tab st t) fs" "distinct fs" "set fs = elems t - L"
      using ok by (auto simp: memp_ok_def pool_ok_def)
    have "p \<notin> set fs" using fs(3) p(1) by simp
    then have "links (memp_next ?st) (memp_tab ?st t) (p # fs) \<and> distinct (p # fs) \<and> set (p # fs) = elems t - (L - {p})"
      using fs p by (auto simp: links_upd)
    then show ?thesis unfolding pool_ok_def True by blast
  next
    case False
    show ?thesis
      by (rule pool_ok_frame [of st u L]) (use ok p(2) False in \<open>auto simp: memp_ok_def elems_disjoint\<close>)
  qed
  then show ?thesis using elems_align [OF p(2)]
    by (auto simp: memp_ok_def memp_free_def do_memp_free_pool_def Let_def MEMP_SIZE_def)
qed

lemma memp_init_loop_links:
  assumes "links (memp_next st) (memp_tab st t) fs" "\<And>i. i < k \<Longrightarrow> ptr_add m (int (i * memp_size t)) \<notin> set fs"
  shows "links (memp_next (memp_init_loop k t m st)) (memp_tab (memp_init_loop k t m st) t)
      (rev (map (\<lambda>i. ptr_add m (int (i * memp_size t))) [0..<k]) @ fs)"
  using assms
proof (induction k arbitrary: m st fs)
  case (Suc k)
  let ?s = "memp_size t"
  let ?st = "st\<lparr>memp_next := (memp_next st)(m := memp_tab st t), memp_tab := (memp_tab st)(t := Some m)\<rparr>"
  have m: "m \<notin> set fs" using Suc.prems(2) [of 0] by simp
  then have 1: "links (memp_next ?st) (memp_tab ?st t) (m # fs)" using Suc.prems(1) by (simp add: links_upd)
  have eq: "ptr_add (ptr_add m (int ?s)) (int (i * ?s)) = ptr_add m (int (Suc i * ?s))" for i by (simp add: algebra_simps)
  have 2: "ptr_add (ptr_add m (int ?s)) (int (i * ?s)) \<notin> set (m # fs)" if "i < k" for i
  proof -
    have "ptr_add m (int (Suc i * ?s)) \<noteq> m"
      using memp_size_align(2) [of t] by (auto simp: ptr_add_def prod_eq_iff simp del: of_nat_mult)
    moreover have "ptr_add m (int (Suc i * ?s)) \<notin> set fs" using Suc.prems(2) [of "Suc i"] that by simp
    ultimately show ?thesis unfolding eq by simp
  qed
  have "map (\<lambda>i. ptr_add m (int (i * ?s))) [0..<Suc k] = m # map (\<lambda>i. ptr_add (ptr_add m (int ?s)) (int (i * ?s))) [0..<k]"
    unfolding eq by (simp add: upt_conv_Cons map_Suc_upt [symmetric] comp_def algebra_simps del: upt_Suc)
  with Suc.IH [OF 1 2] show ?case by (simp add: Let_def MEMP_SIZE_def del: upt_Suc)
qed simp

lemma memp_init_loop_frame:
  "u \<noteq> t \<Longrightarrow> memp_tab (memp_init_loop k t m st) u = memp_tab st u"
  "fst p \<noteq> fst m \<Longrightarrow> memp_next (memp_init_loop k t m st) p = memp_next st p"
  by (induction k arbitrary: m st) (auto simp: Let_def)

lemma memp_init_pool_ok:
  "pool_ok (memp_init_pool t st) t {}"
  "u \<noteq> t \<Longrightarrow> pool_ok st u {} \<Longrightarrow> pool_ok (memp_init_pool t st) u {}"
proof -
  let ?st = "st\<lparr>memp_tab := (memp_tab st)(t := None)\<rparr>"
  let ?fs = "rev (map (\<lambda>i. ptr_add (Pool t, 0) (int (i * memp_size t))) [0..<memp_num t])"
  have "links (memp_next (memp_init_pool t st)) (memp_tab (memp_init_pool t st) t) ?fs"
    using memp_init_loop_links [of ?st t "[]" "memp_num t" "(Pool t, 0)"] by (simp add: memp_init_pool_def)
  moreover have "distinct ?fs" using memp_size_align(2) [of t] by (simp add: distinct_map inj_on_def)
  moreover have "set ?fs = elems t" by (auto simp: elems_def)
  ultimately show "pool_ok (memp_init_pool t st) t {}" unfolding pool_ok_def by (metis Diff_empty)
  assume "u \<noteq> t" "pool_ok st u {}"
  then show "pool_ok (memp_init_pool t st) u {}"
    by - (rule pool_ok_frame [of st u "{}"], auto simp: memp_init_pool_def memp_init_loop_frame elems_def)
qed

lemma memp_init_ok: "memp_ok (memp_init st) {}"
proof -
  have "\<forall>t \<in> set ts. pool_ok (fold memp_init_pool ts st) t {}" if "distinct ts" for ts :: "memp_t list"
    using that
  proof (induction ts rule: rev_induct)
    case (snoc t ts)
    have "pool_ok (memp_init_pool t (fold memp_init_pool ts st)) u {}" if "u \<in> set ts" for u
      using snoc that by (intro memp_init_pool_ok(2)) auto
    then show ?case by (simp add: memp_init_pool_ok(1))
  qed simp
  from this [of memp_pools] have "\<forall>t \<in> set memp_pools. pool_ok (memp_init st) t {}"
    by (simp add: memp_init_def memp_pools_def)
  moreover have "t \<in> set memp_pools" for t by (cases t) (auto simp: memp_pools_def)
  ultimately show ?thesis by (simp add: memp_ok_def)
qed

section \<open>Every pool is an allocator\<close>

interpretation pool: block_store memp_ok "memp_malloc t" "\<lambda>p. memp_free t (Some p)" "elems t"
proof
  show "\<exists>r s'. memp_malloc t s = Some (r, s') \<and>
      (case r of None \<Rightarrow> s' = s | Some p \<Rightarrow> p \<in> elems t \<and> p \<notin> L \<and> memp_ok s' (insert p L))"
    if ok: "memp_ok s L" for s L
  proof -
    obtain r s' where r: "memp_malloc t s = Some (r, s')"
      "case r of None \<Rightarrow> elems t \<subseteq> L \<and> s' = s | Some p \<Rightarrow> p \<in> elems t \<and> p \<notin> L \<and> memp_ok s' (insert p L)"
      using memp_malloc_ok [OF ok, of t] by blast
    then show ?thesis by (intro exI [of _ r] exI [of _ s']) (cases r, auto)
  qed
  show "\<exists>s'. memp_free t (Some p) s = Some s' \<and> memp_ok s' (L - {p})" if "memp_ok s L" "p \<in> L" "p \<in> elems t" for s L p
    using memp_free_ok [OF that] .
qed

lemma memp_alloc_many_length:
  "memp_ok st L \<Longrightarrow> alloc_many (memp_malloc t) n st = Some (ps, st') \<Longrightarrow> length ps = min n (card (elems t - L))"
proof (induction n arbitrary: st L ps)
  case (Suc n)
  obtain r s1 where r: "memp_malloc t st = Some (r, s1)"
    "case r of None \<Rightarrow> elems t \<subseteq> L \<and> s1 = st | Some p \<Rightarrow> p \<in> elems t \<and> p \<notin> L \<and> memp_ok s1 (insert p L)"
    using memp_malloc_ok [OF Suc.prems(1)] by blast
  show ?case
  proof (cases r)
    case None
    then have "elems t - L = {}" using r(2) by auto
    then have c: "card (elems t - L) = 0" by simp
    show ?thesis using Suc.prems(2) r(1) None unfolding c by simp
  next
    case (Some p)
    then obtain qs where q: "alloc_many (memp_malloc t) n s1 = Some (qs, st')" "ps = p # qs"
      using Suc.prems(2) r(1) by (auto simp: bind_eq_Some_conv)
    have "memp_ok s1 (insert p L)" using r(2) Some by simp
    then have "length qs = min n (card (elems t - insert p L))" using q(1) by (rule Suc.IH)
    moreover have "elems t - L = insert p (elems t - insert p L)" using r(2) Some by auto
    then have "card (elems t - L) = Suc (card (elems t - insert p L))" by (metis card_insert_disjoint Diff_iff finite_Diff finite_elems insertI1)
    ultimately show ?thesis using q(2) by simp
  qed
qed simp

section \<open>Property\<close>

text \<open>C31. After \<open>memp_init\<close>, a pool hands out exactly its elements, each once, and then \<^verbatim>\<open>NULL\<close>, whatever has been
  taken from the other pools; giving them back in any order makes all of them available again.\<close>

theorem memp_exhausts:
  assumes "alloc_many (memp_malloc u) m (memp_init st) = Some (qs, st1)" "u \<noteq> t"
  shows "\<exists>ps st2. alloc_many (memp_malloc t) n st1 = Some (ps, st2) \<and> length ps = min n (memp_num t) \<and> distinct ps \<and>
    set ps \<subseteq> elems t \<and>
    (\<forall>rs. mset rs = mset ps \<longrightarrow> (\<exists>st3. release_many (\<lambda>p. memp_free t (Some p)) rs st2 = Some st3 \<and> memp_ok st3 (set qs)))"
proof -
  have 1: "memp_ok st1 (set qs)" "set qs \<subseteq> elems u"
    using pool.alloc_many_ok [OF memp_init_ok, of u m st] assms(1) by auto
  obtain ps st2 where 2: "alloc_many (memp_malloc t) n st1 = Some (ps, st2)" "distinct ps" "set ps \<subseteq> elems t"
    "set ps \<inter> set qs = {}" "memp_ok st2 (set ps \<union> set qs)" using pool.alloc_many_ok [OF 1(1)] by blast
  have "elems t - set qs = elems t" using 1(2) assms(2) elems_disjoint by blast
  then have "length ps = min n (memp_num t)" using memp_alloc_many_length [OF 1(1) 2(1)] by (simp add: card_elems)
  moreover have "\<exists>st3. release_many (\<lambda>p. memp_free t (Some p)) rs st2 = Some st3 \<and> memp_ok st3 (set qs)"
    if "mset rs = mset ps" for rs
  proof -
    have "distinct rs" "set rs = set ps" using that 2(2) by (metis mset_eq_imp_distinct_iff, metis mset_eq_setD)
    moreover have "(set ps \<union> set qs) - set ps = set qs" using 2(4) by auto
    ultimately show ?thesis using pool.release_many_ok [OF 2(5), of rs t] 2(3) by auto
  qed
  ultimately show ?thesis using 2(1-3) by blast
qed

theorem memp_exhausts_witness:
  "\<exists>st2. alloc_many (memp_malloc MEMP_PBUF) 5 (memp_init \<lparr>memp_tab = \<lambda>_. None, memp_next = \<lambda>_. None\<rparr>) =
      Some ([(Pool MEMP_PBUF, 16), (Pool MEMP_PBUF, 0)], st2)"
proof -
  let ?s = "memp_init \<lparr>memp_tab = \<lambda>_. None, memp_next = \<lambda>_. None\<rparr>"
  have "alloc_many (memp_malloc MEMP_PBUF_POOL) 0 ?s = Some ([], ?s)" by simp
  from memp_exhausts [OF this, of MEMP_PBUF 5] obtain ps st2
    where "alloc_many (memp_malloc MEMP_PBUF) 5 ?s = Some (ps, st2)" "length ps = 2" by auto
  moreover have "map_option fst (alloc_many (memp_malloc MEMP_PBUF) 5 ?s) = Some [(Pool MEMP_PBUF, 16), (Pool MEMP_PBUF, 0)]"
    by code_simp
  ultimately show ?thesis by auto
qed

end
