(* ===== verification/Lwip_Types.thy ===== *)
theory Lwip_Types
  imports Prelude
begin

unbundle bit_operations_syntax

text \<open>
  Types that several components of lwIP share: error codes and the network interface, as compiled for this
  configuration (one interface, IPv4 only).  The interface's function pointers are not stored: they are
  fixed for this firmware (\<open>ethernet_input\<close>, \<open>etharp_output\<close>, \<open>low_level_output\<close>) and
  are parameters of the functions that call them.
\<close>

datatype err_t =
  ERR_OK | ERR_MEM | ERR_BUF | ERR_TIMEOUT | ERR_RTE | ERR_INPROGRESS | ERR_VAL | ERR_WOULDBLOCK
| ERR_USE | ERR_ALREADY | ERR_ISCONN | ERR_CONN | ERR_IF | ERR_ABRT | ERR_RST | ERR_CLSD | ERR_ARG

fun err_num :: "err_t \<Rightarrow> int" where
  "err_num ERR_OK = 0"
| "err_num ERR_MEM = - 1"
| "err_num ERR_BUF = - 2"
| "err_num ERR_TIMEOUT = - 3"
| "err_num ERR_RTE = - 4"
| "err_num ERR_INPROGRESS = - 5"
| "err_num ERR_VAL = - 6"
| "err_num ERR_WOULDBLOCK = - 7"
| "err_num ERR_USE = - 8"
| "err_num ERR_ALREADY = - 9"
| "err_num ERR_ISCONN = - 10"
| "err_num ERR_CONN = - 11"
| "err_num ERR_IF = - 12"
| "err_num ERR_ABRT = - 13"
| "err_num ERR_RST = - 14"
| "err_num ERR_CLSD = - 15"
| "err_num ERR_ARG = - 16"

definition NETIF_FLAG_UP :: u8 where "NETIF_FLAG_UP = 0x01"
definition NETIF_FLAG_BROADCAST :: u8 where "NETIF_FLAG_BROADCAST = 0x02"
definition NETIF_FLAG_LINK_UP :: u8 where "NETIF_FLAG_LINK_UP = 0x04"
definition NETIF_FLAG_ETHARP :: u8 where "NETIF_FLAG_ETHARP = 0x08"
definition NETIF_FLAG_ETHERNET :: u8 where "NETIF_FLAG_ETHERNET = 0x10"

text \<open>Addresses are kept in network byte order, as the code keeps them.\<close>

record netif =
  netif_ip4_addr :: u32
  netif_ip4_netmask :: u32
  netif_ip4_gw :: u32
  netif_mtu :: u16
  netif_hwaddr :: "u8 list"
  netif_hwaddr_len :: u8
  netif_flags :: u8
  netif_name :: "u8 list"
  netif_num :: u8

definition netif_is_up :: "netif \<Rightarrow> bool" where
  "netif_is_up n \<longleftrightarrow> netif_flags n AND NETIF_FLAG_UP \<noteq> 0"

definition netif_is_link_up :: "netif \<Rightarrow> bool" where
  "netif_is_link_up n \<longleftrightarrow> netif_flags n AND NETIF_FLAG_LINK_UP \<noteq> 0"

end
