(* ===== verification/Lwip_Pbuf.thy ===== *)
theory Lwip_Pbuf
  imports Lwip_Memp Lwip_Types
begin

unbundle bit_operations_syntax

text \<open>
  Packet buffers, \<^verbatim>\<open>lwip/src/core/pbuf.c\<close>: the types and all operations that are compiled in this
  configuration (no TCP, no checksum on copy, custom pbufs for IP fragments).

  The state holds the structs and the data bytes by address, the heap and the pools.  A struct and the bytes it
  overlays are kept apart: nothing in the program reads one as the other.  A pointer is \<open>None\<close> for \<^verbatim>\<open>NULL\<close>.
  An operation that fails an assertion, uses \<^verbatim>\<open>NULL\<close> as an address or does not end is \<open>None\<close>.
\<close>

section \<open>Types\<close>

datatype pbuf_layer = PBUF_TRANSPORT | PBUF_IP | PBUF_LINK | PBUF_RAW_TX | PBUF_RAW

definition PBUF_LINK_HLEN :: nat where "PBUF_LINK_HLEN = 14"
definition PBUF_IP_HLEN :: nat where "PBUF_IP_HLEN = 20"
definition PBUF_TRANSPORT_HLEN :: nat where "PBUF_TRANSPORT_HLEN = 20"

fun layer_num :: "pbuf_layer \<Rightarrow> nat" where
  "layer_num PBUF_TRANSPORT = PBUF_LINK_HLEN + PBUF_IP_HLEN + PBUF_TRANSPORT_HLEN"
| "layer_num PBUF_IP = PBUF_LINK_HLEN + PBUF_IP_HLEN"
| "layer_num PBUF_LINK = PBUF_LINK_HLEN"
| "layer_num PBUF_RAW_TX = 0"
| "layer_num PBUF_RAW = 0"

lemmas layer_simps = PBUF_LINK_HLEN_def PBUF_IP_HLEN_def PBUF_TRANSPORT_HLEN_def

datatype pbuf_type = PBUF_RAM | PBUF_ROM | PBUF_REF | PBUF_POOL

definition PBUF_TYPE_FLAG_STRUCT_DATA_CONTIGUOUS :: u16 where "PBUF_TYPE_FLAG_STRUCT_DATA_CONTIGUOUS = 0x80"
definition PBUF_TYPE_FLAG_DATA_VOLATILE :: u16 where "PBUF_TYPE_FLAG_DATA_VOLATILE = 0x40"
definition PBUF_TYPE_ALLOC_SRC_MASK :: u16 where "PBUF_TYPE_ALLOC_SRC_MASK = 0x0F"
definition PBUF_ALLOC_FLAG_RX :: u16 where "PBUF_ALLOC_FLAG_RX = 0x0100"
definition PBUF_ALLOC_FLAG_DATA_CONTIGUOUS :: u16 where "PBUF_ALLOC_FLAG_DATA_CONTIGUOUS = 0x0200"
definition PBUF_TYPE_ALLOC_SRC_MASK_STD_HEAP :: u16 where "PBUF_TYPE_ALLOC_SRC_MASK_STD_HEAP = 0x00"
definition PBUF_TYPE_ALLOC_SRC_MASK_STD_MEMP_PBUF :: u16 where "PBUF_TYPE_ALLOC_SRC_MASK_STD_MEMP_PBUF = 0x01"
definition PBUF_TYPE_ALLOC_SRC_MASK_STD_MEMP_PBUF_POOL :: u16 where
  "PBUF_TYPE_ALLOC_SRC_MASK_STD_MEMP_PBUF_POOL = 0x02"

fun type_num :: "pbuf_type \<Rightarrow> u16" where
  "type_num PBUF_RAM = PBUF_ALLOC_FLAG_DATA_CONTIGUOUS OR PBUF_TYPE_FLAG_STRUCT_DATA_CONTIGUOUS OR
     PBUF_TYPE_ALLOC_SRC_MASK_STD_HEAP"
| "type_num PBUF_ROM = PBUF_TYPE_ALLOC_SRC_MASK_STD_MEMP_PBUF"
| "type_num PBUF_REF = PBUF_TYPE_FLAG_DATA_VOLATILE OR PBUF_TYPE_ALLOC_SRC_MASK_STD_MEMP_PBUF"
| "type_num PBUF_POOL = PBUF_ALLOC_FLAG_RX OR PBUF_TYPE_FLAG_STRUCT_DATA_CONTIGUOUS OR
     PBUF_TYPE_ALLOC_SRC_MASK_STD_MEMP_PBUF_POOL"

lemmas type_simps = PBUF_TYPE_FLAG_STRUCT_DATA_CONTIGUOUS_def PBUF_TYPE_FLAG_DATA_VOLATILE_def
  PBUF_TYPE_ALLOC_SRC_MASK_def PBUF_ALLOC_FLAG_RX_def PBUF_ALLOC_FLAG_DATA_CONTIGUOUS_def
  PBUF_TYPE_ALLOC_SRC_MASK_STD_HEAP_def PBUF_TYPE_ALLOC_SRC_MASK_STD_MEMP_PBUF_def
  PBUF_TYPE_ALLOC_SRC_MASK_STD_MEMP_PBUF_POOL_def

definition PBUF_FLAG_IS_CUSTOM :: u8 where "PBUF_FLAG_IS_CUSTOM = 0x02"
definition PBUF_FLAG_LLBCAST :: u8 where "PBUF_FLAG_LLBCAST = 0x08"
definition PBUF_FLAG_LLMCAST :: u8 where "PBUF_FLAG_LLMCAST = 0x10"

record pbuf =
  pb_next :: "ptr option"
  pb_payload :: "ptr option"
  pb_tot_len :: u16
  pb_len :: u16
  pb_type_internal :: u8
  pb_flags :: u8
  pb_ref :: u8
  pb_if_idx :: u8

text \<open>What follows the struct in a custom pbuf.  The only free function of the program is that of IP fragments.\<close>

datatype free_fn = Ipfrag_free

record pbuf_custom_ref =
  custom_free_function :: "free_fn option"
  pcr_original :: "ptr option"

record net_mem =
  pbufs :: "ptr \<Rightarrow> pbuf"
  customs :: "ptr \<Rightarrow> pbuf_custom_ref"
  data_bytes :: "ptr \<Rightarrow> u8"
  ram_heap :: mem_heap
  pools :: memp_state

definition upd_pbuf :: "ptr \<Rightarrow> (pbuf \<Rightarrow> pbuf) \<Rightarrow> net_mem \<Rightarrow> net_mem" where
  "upd_pbuf a f st = st\<lparr>pbufs := (pbufs st)(a := f (pbufs st a))\<rparr>"

definition pbuf_get_allocsrc :: "pbuf \<Rightarrow> u16" where
  "pbuf_get_allocsrc p = ucast (pb_type_internal p) AND PBUF_TYPE_ALLOC_SRC_MASK"

definition pbuf_match_allocsrc :: "pbuf \<Rightarrow> u16 \<Rightarrow> bool" where
  "pbuf_match_allocsrc p type \<longleftrightarrow> pbuf_get_allocsrc p = type AND PBUF_TYPE_ALLOC_SRC_MASK"

section \<open>Memory\<close>

text \<open>\<^verbatim>\<open>MEMCPY\<close> and the reads of single bytes.\<close>

definition read_bytes :: "(ptr \<Rightarrow> u8) \<Rightarrow> ptr \<Rightarrow> nat \<Rightarrow> u8 list" where
  "read_bytes m p n = map (\<lambda>i. m (ptr_add p (int i))) [0..<n]"

definition write_bytes :: "ptr \<Rightarrow> u8 list \<Rightarrow> (ptr \<Rightarrow> u8) \<Rightarrow> ptr \<Rightarrow> u8" where
  "write_bytes p xs m = (\<lambda>q. if fst q = fst p \<and> snd p \<le> snd q \<and> snd q < snd p + int (length xs)
     then xs ! nat (snd q - snd p) else m q)"

definition MEMCPY :: "ptr \<Rightarrow> ptr \<Rightarrow> nat \<Rightarrow> net_mem \<Rightarrow> net_mem" where
  "MEMCPY dst src n st = st\<lparr>data_bytes := write_bytes dst (read_bytes (data_bytes st) src n) (data_bytes st)\<rparr>"

definition LWIP_MEM_ALIGN :: "ptr \<Rightarrow> ptr" where
  "LWIP_MEM_ALIGN p = (fst p, (snd p + 3) - (snd p + 3) mod 4)"

definition SIZEOF_STRUCT_PBUF :: nat where "SIZEOF_STRUCT_PBUF = LWIP_MEM_ALIGN_SIZE 16"

definition PBUF_POOL_BUFSIZE_ALIGNED :: nat where "PBUF_POOL_BUFSIZE_ALIGNED = LWIP_MEM_ALIGN_SIZE 256"

text \<open>The allocators, on the whole state.\<close>

definition st_mem_malloc :: "nat \<Rightarrow> net_mem \<Rightarrow> (ptr option \<times> net_mem) option" where
  "st_mem_malloc n st =
     do { (r, h) \<leftarrow> mem_malloc n (ram_heap st);
          Some (map_option (Pair Ram) r, st\<lparr>ram_heap := h\<rparr>) }"

definition st_mem_free :: "ptr \<Rightarrow> net_mem \<Rightarrow> net_mem option" where
  "st_mem_free p st =
     (if fst p \<noteq> Ram then None
      else do { h \<leftarrow> mem_free (Some (snd p)) (ram_heap st); Some (st\<lparr>ram_heap := h\<rparr>) })"

definition st_mem_trim :: "ptr \<Rightarrow> nat \<Rightarrow> net_mem \<Rightarrow> (ptr option \<times> net_mem) option" where
  "st_mem_trim p n st =
     (if fst p \<noteq> Ram then None
      else do { (r, h) \<leftarrow> mem_trim (snd p) n (ram_heap st);
                Some (map_option (Pair Ram) r, st\<lparr>ram_heap := h\<rparr>) })"

definition st_memp_malloc :: "memp_t \<Rightarrow> net_mem \<Rightarrow> (ptr option \<times> net_mem) option" where
  "st_memp_malloc t st = do { (r, m) \<leftarrow> memp_malloc t (pools st); Some (r, st\<lparr>pools := m\<rparr>) }"

definition st_memp_free :: "memp_t \<Rightarrow> ptr \<Rightarrow> net_mem \<Rightarrow> net_mem option" where
  "st_memp_free t p st = do { m \<leftarrow> memp_free t (Some p) (pools st); Some (st\<lparr>pools := m\<rparr>) }"

section \<open>Release\<close>

text \<open>Returning the memory of a pbuf to where it came from.\<close>

definition free_by_src :: "ptr \<Rightarrow> net_mem \<Rightarrow> net_mem option" where
  "free_by_src p st =
     (let alloc_src = pbuf_get_allocsrc (pbufs st p) in
      if alloc_src = PBUF_TYPE_ALLOC_SRC_MASK_STD_MEMP_PBUF_POOL then st_memp_free MEMP_PBUF_POOL p st
      else if alloc_src = PBUF_TYPE_ALLOC_SRC_MASK_STD_MEMP_PBUF then st_memp_free MEMP_PBUF p st
      else if alloc_src = PBUF_TYPE_ALLOC_SRC_MASK_STD_HEAP then st_mem_free p st
      else None)"

text \<open>
  The loop of \<open>pbuf_free\<close>, with the call of the custom free function.  That function is
  \<open>ipfrag_free_pbuf_custom\<close>: it drops the reference to the original pbuf and frees the custom one.
\<close>

partial_function (option) pbuf_free_loop :: "ptr option \<Rightarrow> u8 \<Rightarrow> net_mem \<Rightarrow> (u8 \<times> net_mem) option" where
  "pbuf_free_loop p cnt st =
     (case p of
        None \<Rightarrow> Some (cnt, st)
      | Some a \<Rightarrow>
          if \<not> pb_ref (pbufs st a) > 0 then None
          else
            let ref = pb_ref (pbufs st a) - 1;
                st = upd_pbuf a (\<lambda>b. b\<lparr>pb_ref := ref\<rparr>) st
            in if ref = 0 then
                 let q = pb_next (pbufs st a) in
                 do { st \<leftarrow>
                        (if pb_flags (pbufs st a) AND PBUF_FLAG_IS_CUSTOM \<noteq> 0 then
                           (case custom_free_function (customs st a) of
                              None \<Rightarrow> None
                            | Some f \<Rightarrow>
                                (case pcr_original (customs st a) of
                                   None \<Rightarrow> st_memp_free MEMP_FRAG_PBUF a st
                                 | Some orig \<Rightarrow>
                                     do { r \<leftarrow> pbuf_free_loop (Some orig) 0 st;
                                          st_memp_free MEMP_FRAG_PBUF a (snd r) }))
                         else free_by_src a st);
                      pbuf_free_loop q (cnt + 1) st }
               else pbuf_free_loop None cnt st)"

definition pbuf_free :: "ptr option \<Rightarrow> net_mem \<Rightarrow> (u8 \<times> net_mem) option" where
  "pbuf_free p st = (case p of None \<Rightarrow> None | Some _ \<Rightarrow> pbuf_free_loop p 0 st)"

section \<open>Allocation\<close>

definition pbuf_init_alloced_pbuf ::
    "ptr \<Rightarrow> ptr option \<Rightarrow> u16 \<Rightarrow> u16 \<Rightarrow> pbuf_type \<Rightarrow> u8 \<Rightarrow> net_mem \<Rightarrow> net_mem" where
  "pbuf_init_alloced_pbuf p payload tot_len len type flags st =
     upd_pbuf p (\<lambda>_. \<lparr>pb_next = None, pb_payload = payload, pb_tot_len = tot_len, pb_len = len,
       pb_type_internal = ucast (type_num type), pb_flags = flags, pb_ref = 1, pb_if_idx = 0\<rparr>) st"

definition pbuf_alloc_reference :: "ptr option \<Rightarrow> u16 \<Rightarrow> pbuf_type \<Rightarrow> net_mem \<Rightarrow> (ptr option \<times> net_mem) option" where
  "pbuf_alloc_reference payload len type st =
     (if \<not> (type = PBUF_REF \<or> type = PBUF_ROM) then None
      else
        do { (p, st) \<leftarrow> st_memp_malloc MEMP_PBUF st;
             case p of
               None \<Rightarrow> Some (None, st)
             | Some a \<Rightarrow> Some (Some a, pbuf_init_alloced_pbuf a payload len len type 0 st) })"

text \<open>The loop over pool buffers: \<open>p\<close> the head so far, \<open>lst\<close> its last element.\<close>

partial_function (option) pool_loop ::
    "ptr option \<Rightarrow> ptr option \<Rightarrow> u16 \<Rightarrow> nat \<Rightarrow> net_mem \<Rightarrow> (ptr option \<times> net_mem) option" where
  "pool_loop p lst rem_len offset st =
     do { (q, st) \<leftarrow> st_memp_malloc MEMP_PBUF_POOL st;
          case q of
            None \<Rightarrow>
              (case p of
                 None \<Rightarrow> Some (None, st)
               | Some _ \<Rightarrow> do { r \<leftarrow> pbuf_free p st; Some (None, snd r) })
          | Some q \<Rightarrow>
              let qlen = min rem_len (of_nat (PBUF_POOL_BUFSIZE_ALIGNED - LWIP_MEM_ALIGN_SIZE offset));
                  payload = LWIP_MEM_ALIGN (ptr_add q (int (SIZEOF_STRUCT_PBUF + offset)));
                  st = pbuf_init_alloced_pbuf q (Some payload) rem_len qlen PBUF_POOL 0 st
              in if snd payload mod 4 \<noteq> 0 then None
                 else if \<not> PBUF_POOL_BUFSIZE_ALIGNED - LWIP_MEM_ALIGN_SIZE offset > 0 then None
                 else
                   let st = (case p of None \<Rightarrow> st | Some _ \<Rightarrow> upd_pbuf (the lst) (\<lambda>b. b\<lparr>pb_next := Some q\<rparr>) st);
                       p = (case p of None \<Rightarrow> Some q | Some _ \<Rightarrow> p);
                       rem_len = rem_len - qlen
                   in if rem_len > 0 then pool_loop p (Some q) rem_len 0 st else Some (p, st) }"

definition pbuf_alloc :: "pbuf_layer \<Rightarrow> u16 \<Rightarrow> pbuf_type \<Rightarrow> net_mem \<Rightarrow> (ptr option \<times> net_mem) option" where
  "pbuf_alloc layer len type st =
     (let offset = layer_num layer in
      case type of
        PBUF_REF \<Rightarrow> pbuf_alloc_reference None len type st
      | PBUF_ROM \<Rightarrow> pbuf_alloc_reference None len type st
      | PBUF_POOL \<Rightarrow> pool_loop None None len offset st
      | PBUF_RAM \<Rightarrow>
          let payload_len = mem_size_cast (LWIP_MEM_ALIGN_SIZE offset + LWIP_MEM_ALIGN_SIZE (unat len));
              alloc_len = mem_size_cast (LWIP_MEM_ALIGN_SIZE SIZEOF_STRUCT_PBUF + payload_len)
          in if payload_len < LWIP_MEM_ALIGN_SIZE (unat len) \<or> alloc_len < LWIP_MEM_ALIGN_SIZE (unat len)
             then Some (None, st)
             else
               do { (p, st) \<leftarrow> st_mem_malloc alloc_len st;
                    case p of
                      None \<Rightarrow> Some (None, st)
                    | Some a \<Rightarrow>
                        let payload = LWIP_MEM_ALIGN (ptr_add a (int (SIZEOF_STRUCT_PBUF + offset)));
                            st = pbuf_init_alloced_pbuf a (Some payload) len len type 0 st
                        in if snd payload mod 4 \<noteq> 0 then None else Some (Some a, st) })"

definition pbuf_alloced_custom ::
    "pbuf_layer \<Rightarrow> u16 \<Rightarrow> pbuf_type \<Rightarrow> ptr \<Rightarrow> ptr option \<Rightarrow> u16 \<Rightarrow> net_mem \<Rightarrow> ptr option \<times> net_mem" where
  "pbuf_alloced_custom l len type p payload_mem payload_mem_len st =
     (let offset = layer_num l in
      if LWIP_MEM_ALIGN_SIZE offset + unat len > unat payload_mem_len then (None, st)
      else
        let payload = map_option (\<lambda>m. ptr_add m (int (LWIP_MEM_ALIGN_SIZE offset))) payload_mem
        in (Some p, pbuf_init_alloced_pbuf p payload len len type PBUF_FLAG_IS_CUSTOM st))"

section \<open>Chains\<close>

partial_function (option) clen_loop :: "ptr option \<Rightarrow> u16 \<Rightarrow> net_mem \<Rightarrow> u16 option" where
  "clen_loop p len st =
     (case p of None \<Rightarrow> Some len | Some a \<Rightarrow> clen_loop (pb_next (pbufs st a)) (len + 1) st)"

definition pbuf_clen :: "ptr option \<Rightarrow> net_mem \<Rightarrow> u16 option" where
  "pbuf_clen p st = clen_loop p 0 st"

definition pbuf_ref :: "ptr option \<Rightarrow> net_mem \<Rightarrow> net_mem option" where
  "pbuf_ref p st =
     (case p of
        None \<Rightarrow> Some st
      | Some a \<Rightarrow>
          let st = upd_pbuf a (\<lambda>b. b\<lparr>pb_ref := pb_ref b + 1\<rparr>) st
          in if \<not> pb_ref (pbufs st a) > 0 then None else Some st)"

text \<open>The walk to the last pbuf of \<open>h\<close>, adding the length of the tail \<open>t\<close> on the way.\<close>

partial_function (option) cat_walk :: "ptr \<Rightarrow> ptr \<Rightarrow> net_mem \<Rightarrow> (ptr \<times> net_mem) option" where
  "cat_walk p t st =
     (case pb_next (pbufs st p) of
        None \<Rightarrow> Some (p, st)
      | Some n \<Rightarrow>
          cat_walk n t (upd_pbuf p (\<lambda>b. b\<lparr>pb_tot_len := pb_tot_len b + pb_tot_len (pbufs st t)\<rparr>) st))"

definition pbuf_cat :: "ptr option \<Rightarrow> ptr option \<Rightarrow> net_mem \<Rightarrow> net_mem option" where
  "pbuf_cat h t st =
     (case (h, t) of
        (Some h, Some t) \<Rightarrow>
          if \<not> h \<noteq> t then None
          else
            do { (p, st) \<leftarrow> cat_walk h t st;
                 if \<not> pb_tot_len (pbufs st p) = pb_len (pbufs st p) then None
                 else if \<not> pb_next (pbufs st p) = None then None
                 else
                   let st = upd_pbuf p (\<lambda>b. b\<lparr>pb_tot_len := pb_tot_len b + pb_tot_len (pbufs st t)\<rparr>) st
                   in Some (upd_pbuf p (\<lambda>b. b\<lparr>pb_next := Some t\<rparr>) st) }
      | _ \<Rightarrow> Some st)"

definition pbuf_chain :: "ptr option \<Rightarrow> ptr option \<Rightarrow> net_mem \<Rightarrow> net_mem option" where
  "pbuf_chain h t st = do { st \<leftarrow> pbuf_cat h t st; pbuf_ref t st }"

definition pbuf_dechain :: "ptr \<Rightarrow> net_mem \<Rightarrow> (ptr option \<times> net_mem) option" where
  "pbuf_dechain p st =
     do { (tail_gone, q, st) \<leftarrow>
            (case pb_next (pbufs st p) of
               None \<Rightarrow> Some (1, None, st)
             | Some q \<Rightarrow>
                 if \<not> uint (pb_tot_len (pbufs st q)) = uint (pb_tot_len (pbufs st p)) - uint (pb_len (pbufs st p)) then None
                 else
                   let st = upd_pbuf q (\<lambda>b. b\<lparr>pb_tot_len := pb_tot_len (pbufs st p) - pb_len (pbufs st p)\<rparr>) st;
                       st = upd_pbuf p (\<lambda>b. b\<lparr>pb_next := None\<rparr>) st;
                       st = upd_pbuf p (\<lambda>b. b\<lparr>pb_tot_len := pb_len b\<rparr>) st
                   in do { (n, st) \<leftarrow> pbuf_free (Some q) st; Some (n, Some q, st) });
          if \<not> pb_tot_len (pbufs st p) = pb_len (pbufs st p) then None
          else Some (if tail_gone > 0 then None else q, st) }"

section \<open>Shrinking\<close>

text \<open>The walk over the pbufs that stay, down to the one that becomes the last.\<close>

partial_function (option) realloc_walk :: "ptr \<Rightarrow> u16 \<Rightarrow> u16 \<Rightarrow> net_mem \<Rightarrow> (ptr \<times> u16 \<times> net_mem) option" where
  "realloc_walk q rem_len shrink st =
     (if rem_len > pb_len (pbufs st q) then
        let rem_len = rem_len - pb_len (pbufs st q);
            st = upd_pbuf q (\<lambda>b. b\<lparr>pb_tot_len := pb_tot_len b - shrink\<rparr>) st
        in case pb_next (pbufs st q) of None \<Rightarrow> None | Some q \<Rightarrow> realloc_walk q rem_len shrink st
      else Some (q, rem_len, st))"

text \<open>A heap pbuf that becomes the last one gives the rest of its block back.\<close>

definition trim_last :: "ptr \<Rightarrow> u16 \<Rightarrow> net_mem \<Rightarrow> net_mem option" where
  "trim_last q rem_len st =
     (if pbuf_match_allocsrc (pbufs st q) PBUF_TYPE_ALLOC_SRC_MASK_STD_HEAP \<and> rem_len \<noteq> pb_len (pbufs st q) \<and>
         pb_flags (pbufs st q) AND PBUF_FLAG_IS_CUSTOM = 0 then
        (case pb_payload (pbufs st q) of
           None \<Rightarrow> None
         | Some pl \<Rightarrow>
             if fst pl \<noteq> fst q then None
             else
               do { (r, st) \<leftarrow> st_mem_trim q (nat ((snd pl - snd q + uint rem_len) mod 65536)) st;
                    if r = Some q then Some st else None })
      else Some st)"

text \<open>Release of what is behind \<open>q\<close>.\<close>

definition free_rest :: "ptr \<Rightarrow> net_mem \<Rightarrow> net_mem option" where
  "free_rest q st = (case pb_next (pbufs st q) of None \<Rightarrow> Some st | Some n \<Rightarrow> do { r \<leftarrow> pbuf_free (Some n) st; Some (snd r) })"

definition pbuf_realloc :: "ptr option \<Rightarrow> u16 \<Rightarrow> net_mem \<Rightarrow> net_mem option" where
  "pbuf_realloc p new_len st =
     (case p of
        None \<Rightarrow> None
      | Some p \<Rightarrow>
          if new_len \<ge> pb_tot_len (pbufs st p) then Some st
          else
            let shrink = pb_tot_len (pbufs st p) - new_len in
            do { (q, rem_len, st) \<leftarrow> realloc_walk p new_len shrink st;
                 st \<leftarrow> trim_last q rem_len st;
                 let st = upd_pbuf q (\<lambda>b. b\<lparr>pb_len := rem_len\<rparr>) st;
                 let st = upd_pbuf q (\<lambda>b. b\<lparr>pb_tot_len := pb_len b\<rparr>) st;
                 st \<leftarrow> free_rest q st;
                 Some (upd_pbuf q (\<lambda>b. b\<lparr>pb_next := None\<rparr>) st) })"

section \<open>Headers\<close>

text \<open>The result is whether the operation failed.\<close>

definition pbuf_add_header_impl :: "ptr option \<Rightarrow> nat \<Rightarrow> bool \<Rightarrow> net_mem \<Rightarrow> (bool \<times> net_mem) option" where
  "pbuf_add_header_impl p header_size_increment force st =
     (case p of
        None \<Rightarrow> None
      | Some a \<Rightarrow>
          if header_size_increment > 0xFFFF then Some (True, st)
          else if header_size_increment = 0 then Some (False, st)
          else
            let increment_magnitude = (of_nat header_size_increment :: u16) in
            if increment_magnitude + pb_tot_len (pbufs st a) < increment_magnitude then Some (True, st)
            else
              let contiguous = ucast (pb_type_internal (pbufs st a)) AND PBUF_TYPE_FLAG_STRUCT_DATA_CONTIGUOUS \<noteq> 0 in
              if \<not> contiguous \<and> \<not> force then Some (True, st)
              else
                (case pb_payload (pbufs st a) of
                   None \<Rightarrow> None
                 | Some pl \<Rightarrow>
                     let payload = ptr_add pl (- int header_size_increment) in
                     if contiguous \<and> fst payload \<noteq> fst a then None
                     else if contiguous \<and> snd payload < snd a + int SIZEOF_STRUCT_PBUF then Some (True, st)
                     else Some (False, upd_pbuf a (\<lambda>b. b\<lparr>pb_payload := Some payload,
                       pb_len := pb_len b + increment_magnitude, pb_tot_len := pb_tot_len b + increment_magnitude\<rparr>) st)))"

definition pbuf_add_header :: "ptr option \<Rightarrow> nat \<Rightarrow> net_mem \<Rightarrow> (bool \<times> net_mem) option" where
  "pbuf_add_header p header_size_increment st = pbuf_add_header_impl p header_size_increment False st"

definition pbuf_add_header_force :: "ptr option \<Rightarrow> nat \<Rightarrow> net_mem \<Rightarrow> (bool \<times> net_mem) option" where
  "pbuf_add_header_force p header_size_increment st = pbuf_add_header_impl p header_size_increment True st"

definition pbuf_remove_header :: "ptr option \<Rightarrow> nat \<Rightarrow> net_mem \<Rightarrow> (bool \<times> net_mem) option" where
  "pbuf_remove_header p header_size_decrement st =
     (case p of
        None \<Rightarrow> None
      | Some a \<Rightarrow>
          if header_size_decrement > 0xFFFF then Some (True, st)
          else if header_size_decrement = 0 then Some (False, st)
          else
            let increment_magnitude = (of_nat header_size_decrement :: u16) in
            if \<not> increment_magnitude \<le> pb_len (pbufs st a) then Some (True, st)
            else
              (case pb_payload (pbufs st a) of
                 None \<Rightarrow> None
               | Some pl \<Rightarrow>
                   Some (False, upd_pbuf a (\<lambda>b. b\<lparr>pb_payload := Some (ptr_add pl (int header_size_decrement)),
                     pb_len := pb_len b - increment_magnitude, pb_tot_len := pb_tot_len b - increment_magnitude\<rparr>) st)))"

definition pbuf_header_impl :: "ptr option \<Rightarrow> u16 \<Rightarrow> bool \<Rightarrow> net_mem \<Rightarrow> (bool \<times> net_mem) option" where
  "pbuf_header_impl p header_size_increment force st =
     (if sint header_size_increment < 0 then pbuf_remove_header p (nat (- sint header_size_increment)) st
      else pbuf_add_header_impl p (nat (sint header_size_increment)) force st)"

definition pbuf_header :: "ptr option \<Rightarrow> u16 \<Rightarrow> net_mem \<Rightarrow> (bool \<times> net_mem) option" where
  "pbuf_header p header_size_increment st = pbuf_header_impl p header_size_increment False st"

definition pbuf_header_force :: "ptr option \<Rightarrow> u16 \<Rightarrow> net_mem \<Rightarrow> (bool \<times> net_mem) option" where
  "pbuf_header_force p header_size_increment st = pbuf_header_impl p header_size_increment True st"

partial_function (option) pbuf_free_header :: "ptr option \<Rightarrow> u16 \<Rightarrow> net_mem \<Rightarrow> (ptr option \<times> net_mem) option" where
  "pbuf_free_header p free_left st =
     (if free_left = 0 then Some (p, st)
      else
        (case p of
           None \<Rightarrow> Some (None, st)
         | Some a \<Rightarrow>
             if free_left \<ge> pb_len (pbufs st a) then
               let free_left = free_left - pb_len (pbufs st a);
                   p = pb_next (pbufs st a);
                   st = upd_pbuf a (\<lambda>b. b\<lparr>pb_next := None\<rparr>) st
               in do { r \<leftarrow> pbuf_free (Some a) st; pbuf_free_header p free_left (snd r) }
             else
               do { r \<leftarrow> pbuf_remove_header (Some a) (unat free_left) st; pbuf_free_header p 0 (snd r) }))"

section \<open>Data\<close>

text \<open>
  Offsets that are \<^verbatim>\<open>size_t\<close> in the code are 32-bit words.  \<open>copy_round\<close> is one round of the loop of
  \<open>pbuf_copy_partial_pbuf\<close>: the result, or the values the next round starts with.
\<close>

type_synonym copy_vars = "ptr option \<times> ptr option \<times> u16 \<times> u32 \<times> u32"

definition copy_round :: "copy_vars \<Rightarrow> net_mem \<Rightarrow> ((err_t + copy_vars) \<times> net_mem) option" where
  "copy_round v st =
     (case v of (p_to, p_from, copy_len, offset_to, offset_from) \<Rightarrow>
        case (p_to, p_from) of
          (Some to, Some from) \<Rightarrow>
            let len_to = (ucast (pb_len (pbufs st to)) :: u32);
                len_from = (ucast (pb_len (pbufs st from)) :: u32);
                len = (if len_to - offset_to \<ge> len_from - offset_from then len_from - offset_from else len_to - offset_to);
                len = min (ucast copy_len) len
            in (case (pb_payload (pbufs st to), pb_payload (pbufs st from)) of
                  (Some pl_to, Some pl_from) \<Rightarrow>
                    let st = MEMCPY (ptr_add pl_to (uint offset_to)) (ptr_add pl_from (uint offset_from)) (unat len) st;
                        offset_to = offset_to + len;
                        offset_from = offset_from + len;
                        copy_len = copy_len - ucast len
                    in if \<not> offset_to \<le> len_to then None
                       else if \<not> offset_from \<le> len_from then None
                       else
                         let (offset_from, p_from) =
                               (if offset_from \<ge> len_from then (0, pb_next (pbufs st from)) else (offset_from, Some from))
                         in if \<not> (p_from \<noteq> None \<or> copy_len = 0) then Some (Inl ERR_ARG, st)
                            else
                              let (offset_to, p_to) =
                                    (if offset_to = len_to then (0, pb_next (pbufs st to)) else (offset_to, Some to))
                              in if \<not> (p_to \<noteq> None \<or> copy_len = 0) then Some (Inl ERR_ARG, st)
                                 else if (case p_from of None \<Rightarrow> False | Some f \<Rightarrow>
                                   pb_len (pbufs st f) = pb_tot_len (pbufs st f) \<and> pb_next (pbufs st f) \<noteq> None)
                                 then Some (Inl ERR_VAL, st)
                                 else if (case p_to of None \<Rightarrow> False | Some t \<Rightarrow>
                                   pb_len (pbufs st t) = pb_tot_len (pbufs st t) \<and> pb_next (pbufs st t) \<noteq> None)
                                 then Some (Inl ERR_VAL, st)
                                 else if copy_len \<noteq> 0 then Some (Inr (p_to, p_from, copy_len, offset_to, offset_from), st)
                                 else Some (Inl ERR_OK, st)
                | _ \<Rightarrow> None)
        | _ \<Rightarrow> None)"

partial_function (option) copy_loop :: "copy_vars \<Rightarrow> net_mem \<Rightarrow> (err_t \<times> net_mem) option" where
  "copy_loop v st =
     do { (r, st) \<leftarrow> copy_round v st;
          case r of Inl e \<Rightarrow> Some (e, st) | Inr v \<Rightarrow> copy_loop v st }"

definition pbuf_copy_partial_pbuf ::
    "ptr option \<Rightarrow> ptr option \<Rightarrow> u16 \<Rightarrow> u16 \<Rightarrow> net_mem \<Rightarrow> (err_t \<times> net_mem) option" where
  "pbuf_copy_partial_pbuf p_to p_from copy_len offset st =
     (if \<not> (case p_from of None \<Rightarrow> False | Some f \<Rightarrow> pb_tot_len (pbufs st f) \<ge> copy_len) then Some (ERR_ARG, st)
      else if \<not> (case p_to of None \<Rightarrow> False | Some t \<Rightarrow> uint (pb_tot_len (pbufs st t)) \<ge> uint offset + uint copy_len)
      then Some (ERR_ARG, st)
      else copy_loop (p_to, p_from, copy_len, ucast offset, 0) st)"

definition pbuf_copy :: "ptr option \<Rightarrow> ptr option \<Rightarrow> net_mem \<Rightarrow> (err_t \<times> net_mem) option" where
  "pbuf_copy p_to p_from st =
     (case p_from of
        None \<Rightarrow> Some (ERR_ARG, st)
      | Some f \<Rightarrow> pbuf_copy_partial_pbuf p_to p_from (pb_tot_len (pbufs st f)) 0 st)"

text \<open>The loop of \<open>pbuf_copy_partial\<close>; \<open>left\<close> and \<open>copied_total\<close> are the same number there.\<close>

partial_function (option) copy_out_loop ::
    "ptr option \<Rightarrow> ptr \<Rightarrow> u16 \<Rightarrow> u16 \<Rightarrow> u16 \<Rightarrow> net_mem \<Rightarrow> (u16 \<times> net_mem) option" where
  "copy_out_loop p dataptr left len offset st =
     (if len = 0 then Some (left, st)
      else
        (case p of
           None \<Rightarrow> Some (left, st)
         | Some a \<Rightarrow>
             if offset \<noteq> 0 \<and> offset \<ge> pb_len (pbufs st a)
             then copy_out_loop (pb_next (pbufs st a)) dataptr left len (offset - pb_len (pbufs st a)) st
             else
               let buf_copy_len = pb_len (pbufs st a) - offset;
                   buf_copy_len = (if buf_copy_len > len then len else buf_copy_len)
               in (case pb_payload (pbufs st a) of
                     None \<Rightarrow> None
                   | Some pl \<Rightarrow>
                       let st = MEMCPY (ptr_add dataptr (uint left)) (ptr_add pl (uint offset)) (unat buf_copy_len) st
                       in copy_out_loop (pb_next (pbufs st a)) dataptr (left + buf_copy_len) (len - buf_copy_len) 0 st)))"

definition pbuf_copy_partial ::
    "ptr option \<Rightarrow> ptr option \<Rightarrow> u16 \<Rightarrow> u16 \<Rightarrow> net_mem \<Rightarrow> (u16 \<times> net_mem) option" where
  "pbuf_copy_partial buf dataptr len offset st =
     (case (buf, dataptr) of
        (Some _, Some d) \<Rightarrow> copy_out_loop buf d 0 len offset st
      | _ \<Rightarrow> Some (0, st))"

partial_function (option) pbuf_skip_const :: "ptr option \<Rightarrow> u16 \<Rightarrow> net_mem \<Rightarrow> (ptr option \<times> u16) option" where
  "pbuf_skip_const q offset_left st =
     (case q of
        None \<Rightarrow> Some (None, offset_left)
      | Some a \<Rightarrow>
          if pb_len (pbufs st a) \<le> offset_left
          then pbuf_skip_const (pb_next (pbufs st a)) (offset_left - pb_len (pbufs st a)) st
          else Some (Some a, offset_left))"

definition pbuf_skip :: "ptr option \<Rightarrow> u16 \<Rightarrow> net_mem \<Rightarrow> (ptr option \<times> u16) option" where
  "pbuf_skip q in_offset st = pbuf_skip_const q in_offset st"

definition pbuf_get_contiguous ::
    "ptr option \<Rightarrow> ptr option \<Rightarrow> nat \<Rightarrow> u16 \<Rightarrow> u16 \<Rightarrow> net_mem \<Rightarrow> (ptr option \<times> net_mem) option" where
  "pbuf_get_contiguous p buffer bufsize len offset st =
     (if p = None then Some (None, st)
      else if \<not> (buffer = None \<or> bufsize \<ge> unat len) then Some (None, st)
      else
        do { (q, out_offset) \<leftarrow> pbuf_skip_const p offset st;
             case q of
               None \<Rightarrow> Some (None, st)
             | Some a \<Rightarrow>
                 if uint (pb_len (pbufs st a)) \<ge> uint out_offset + uint len
                 then Some (map_option (\<lambda>pl. ptr_add pl (uint out_offset)) (pb_payload (pbufs st a)), st)
                 else if buffer = None then Some (None, st)
                 else
                   do { (n, st) \<leftarrow> pbuf_copy_partial q buffer len out_offset st;
                        Some (if n \<noteq> len then None else buffer, st) } })"

partial_function (option) take_loop :: "ptr option \<Rightarrow> ptr \<Rightarrow> u32 \<Rightarrow> u32 \<Rightarrow> net_mem \<Rightarrow> net_mem option" where
  "take_loop p dataptr total_copy_len copied_total st =
     (if total_copy_len = 0 then Some st
      else
        (case p of
           None \<Rightarrow> None
         | Some a \<Rightarrow>
             let buf_copy_len = (if total_copy_len > ucast (pb_len (pbufs st a)) then ucast (pb_len (pbufs st a)) else total_copy_len)
             in (case pb_payload (pbufs st a) of
                   None \<Rightarrow> None
                 | Some pl \<Rightarrow>
                     let st = MEMCPY pl (ptr_add dataptr (uint copied_total)) (unat buf_copy_len) st
                     in take_loop (pb_next (pbufs st a)) dataptr (total_copy_len - buf_copy_len)
                          (copied_total + buf_copy_len) st)))"

definition pbuf_take :: "ptr option \<Rightarrow> ptr option \<Rightarrow> u16 \<Rightarrow> net_mem \<Rightarrow> (err_t \<times> net_mem) option" where
  "pbuf_take buf dataptr len st =
     (case (buf, dataptr) of
        (Some a, Some d) \<Rightarrow>
          if \<not> pb_tot_len (pbufs st a) \<ge> len then Some (ERR_MEM, st)
          else do { st \<leftarrow> take_loop buf d (ucast len) 0 st; Some (ERR_OK, st) }
      | _ \<Rightarrow> Some (ERR_ARG, st))"

definition pbuf_take_at :: "ptr option \<Rightarrow> ptr option \<Rightarrow> u16 \<Rightarrow> u16 \<Rightarrow> net_mem \<Rightarrow> (err_t \<times> net_mem) option" where
  "pbuf_take_at buf dataptr len offset st =
     do { (q, target_offset) \<leftarrow> pbuf_skip buf offset st;
          case q of
            None \<Rightarrow> Some (ERR_MEM, st)
          | Some a \<Rightarrow>
              if uint (pb_tot_len (pbufs st a)) \<ge> uint target_offset + uint len then
                if \<not> target_offset < pb_len (pbufs st a) then None
                else
                  let first_copy_len = (word_of_int (min (uint (pb_len (pbufs st a)) - uint target_offset) (uint len)) :: u16)
                  in (case (pb_payload (pbufs st a), dataptr) of
                        (Some pl, Some d) \<Rightarrow>
                          let st = MEMCPY (ptr_add pl (uint target_offset)) d (unat first_copy_len) st;
                              remaining_len = len - first_copy_len;
                              src_ptr = ptr_add d (uint first_copy_len)
                          in if remaining_len > 0 then pbuf_take (pb_next (pbufs st a)) (Some src_ptr) remaining_len st
                             else Some (ERR_OK, st)
                      | _ \<Rightarrow> None)
              else Some (ERR_MEM, st) }"

definition pbuf_clone :: "pbuf_layer \<Rightarrow> pbuf_type \<Rightarrow> ptr \<Rightarrow> net_mem \<Rightarrow> (ptr option \<times> net_mem) option" where
  "pbuf_clone layer type p st =
     do { (q, st) \<leftarrow> pbuf_alloc layer (pb_tot_len (pbufs st p)) type st;
          case q of
            None \<Rightarrow> Some (None, st)
          | Some _ \<Rightarrow>
              do { (err, st) \<leftarrow> pbuf_copy q (Some p) st;
                   if \<not> err = ERR_OK then None else Some (q, st) } }"

definition pbuf_coalesce :: "ptr \<Rightarrow> pbuf_layer \<Rightarrow> net_mem \<Rightarrow> (ptr \<times> net_mem) option" where
  "pbuf_coalesce p layer st =
     (if pb_next (pbufs st p) = None then Some (p, st)
      else
        do { (q, st) \<leftarrow> pbuf_clone layer PBUF_RAM p st;
             case q of
               None \<Rightarrow> Some (p, st)
             | Some a \<Rightarrow> do { r \<leftarrow> pbuf_free (Some p) st; Some (a, snd r) } })"

section \<open>Bytes\<close>

definition pbuf_try_get_at :: "ptr option \<Rightarrow> u16 \<Rightarrow> net_mem \<Rightarrow> u8 option option" where
  "pbuf_try_get_at p offset st =
     do { (q, q_idx) \<leftarrow> pbuf_skip_const p offset st;
          case q of
            None \<Rightarrow> Some None
          | Some a \<Rightarrow>
              if pb_len (pbufs st a) > q_idx
              then do { pl \<leftarrow> pb_payload (pbufs st a); Some (Some (data_bytes st (ptr_add pl (uint q_idx)))) }
              else Some None }"

definition pbuf_get_at :: "ptr option \<Rightarrow> u16 \<Rightarrow> net_mem \<Rightarrow> u8 option" where
  "pbuf_get_at p offset st =
     do { r \<leftarrow> pbuf_try_get_at p offset st; Some (case r of Some b \<Rightarrow> b | None \<Rightarrow> 0) }"

definition pbuf_put_at :: "ptr option \<Rightarrow> u16 \<Rightarrow> u8 \<Rightarrow> net_mem \<Rightarrow> net_mem option" where
  "pbuf_put_at p offset x st =
     do { (q, q_idx) \<leftarrow> pbuf_skip p offset st;
          case q of
            None \<Rightarrow> Some st
          | Some a \<Rightarrow>
              if pb_len (pbufs st a) > q_idx
              then do { pl \<leftarrow> pb_payload (pbufs st a);
                        Some (st\<lparr>data_bytes := (data_bytes st)(ptr_add pl (uint q_idx) := x)\<rparr>) }
              else Some st }"

text \<open>The comparison loop, from byte \<open>i\<close> on.\<close>

function memcmp_loop :: "ptr option \<Rightarrow> u16 \<Rightarrow> ptr \<Rightarrow> u16 \<Rightarrow> u16 \<Rightarrow> net_mem \<Rightarrow> u16 option" where
  "memcmp_loop q start s2 n i st =
     (if i < n then
        do { a \<leftarrow> pbuf_get_at q (start + i) st;
             let b = data_bytes st (ptr_add s2 (uint i));
             if a \<noteq> b then Some (word_of_int (min (uint i + 1) 0xFFFF)) else memcmp_loop q start s2 n (i + 1) st }
      else Some 0)"
  by pat_completeness auto

lemma next_index: "(i :: 'a::len word) < n \<Longrightarrow> unat (i + 1) = unat i + 1"
proof -
  assume i: "i < n"
  have "unat n < 2 ^ LENGTH('a)" by (rule unsigned_less)
  moreover have "unat i + 1 \<le> unat n" using i by (simp add: word_less_nat_alt)
  ultimately have "unat i + 1 < 2 ^ LENGTH('a)" by (rule le_less_trans [rotated])
  then show ?thesis by (simp add: unat_word_ariths)
qed

termination memcmp_loop
proof (relation "measure (\<lambda>(q, start, s2, n, i, st). unat n - unat i)", goal_cases)
  case (2 q start s2 n i st)
  then show ?case by (simp add: next_index word_less_nat_alt)
qed simp

declare memcmp_loop.simps [simp del]

definition pbuf_memcmp :: "ptr \<Rightarrow> u16 \<Rightarrow> ptr \<Rightarrow> u16 \<Rightarrow> net_mem \<Rightarrow> u16 option" where
  "pbuf_memcmp p offset s2 n st =
     (if uint (pb_tot_len (pbufs st p)) < uint offset + uint n then Some 0xffff
      else
        do { (q, start) \<leftarrow> pbuf_skip_const (Some p) offset st;
             memcmp_loop q start s2 n 0 st })"

partial_function (option) memfind_loop :: "ptr \<Rightarrow> ptr \<Rightarrow> u16 \<Rightarrow> u16 \<Rightarrow> u16 \<Rightarrow> net_mem \<Rightarrow> u16 option" where
  "memfind_loop p mem mem_len max_cmp_start i st =
     (if i \<le> max_cmp_start then
        do { plus \<leftarrow> pbuf_memcmp p i mem mem_len st;
             if plus = 0 then Some i else memfind_loop p mem mem_len max_cmp_start (i + 1) st }
      else Some 0xFFFF)"

definition pbuf_memfind :: "ptr \<Rightarrow> ptr \<Rightarrow> u16 \<Rightarrow> u16 \<Rightarrow> net_mem \<Rightarrow> u16 option" where
  "pbuf_memfind p mem mem_len start_offset st =
     (let max_cmp_start = pb_tot_len (pbufs st p) - mem_len in
      if uint (pb_tot_len (pbufs st p)) \<ge> uint mem_len + uint start_offset
      then memfind_loop p mem mem_len max_cmp_start start_offset st
      else Some 0xFFFF)"

text \<open>\<^verbatim>\<open>strlen\<close> at an address; it does not return when there is no end.\<close>

partial_function (option) mem_strlen :: "ptr \<Rightarrow> net_mem \<Rightarrow> nat option" where
  "mem_strlen s st =
     (if data_bytes st s = 0 then Some 0 else do { n \<leftarrow> mem_strlen (ptr_add s 1) st; Some (n + 1) })"

definition pbuf_strstr :: "ptr \<Rightarrow> ptr option \<Rightarrow> net_mem \<Rightarrow> u16 option" where
  "pbuf_strstr p substr st =
     (case substr of
        None \<Rightarrow> Some 0xFFFF
      | Some s \<Rightarrow>
          if data_bytes st s = 0 \<or> pb_tot_len (pbufs st p) = 0xFFFF then Some 0xFFFF
          else
            do { substr_len \<leftarrow> mem_strlen s st;
                 if substr_len \<ge> 0xFFFF then Some 0xFFFF else pbuf_memfind p s (of_nat substr_len) 0 st })"

end
