(* ===== verification/Lwip_Pbuf_Chain.thy ===== *)
theory Lwip_Pbuf_Chain
  imports Lwip_Pbuf
begin

unbundle bit_operations_syntax

text \<open>
  Chains of packet buffers as lists of addresses: well-formedness, content, ownership of memory, and what allocation,
  release, concatenation and the header operations do to them.
\<close>

section \<open>Chains\<close>

abbreviation pnext :: "net_mem \<Rightarrow> ptr \<Rightarrow> ptr option" where
  "pnext st \<equiv> (\<lambda>a. pb_next (pbufs st a))"

abbreviation plen :: "net_mem \<Rightarrow> ptr \<Rightarrow> nat" where
  "plen st a \<equiv> unat (pb_len (pbufs st a))"

abbreviation lens :: "net_mem \<Rightarrow> ptr list \<Rightarrow> nat" where
  "lens st as \<equiv> sum_list (map (plen st) as)"

text \<open>The invariant of the \<^verbatim>\<open>tot_len\<close> fields.\<close>

fun tot_ok :: "net_mem \<Rightarrow> ptr list \<Rightarrow> bool" where
  "tot_ok st [] \<longleftrightarrow> True"
| "tot_ok st (a # as) \<longleftrightarrow> unat (pb_tot_len (pbufs st a)) = plen st a + lens st as \<and> tot_ok st as"

definition chunk :: "net_mem \<Rightarrow> ptr \<Rightarrow> u8 list" where
  "chunk st a = read_bytes (data_bytes st) (the (pb_payload (pbufs st a))) (plen st a)"

definition content :: "net_mem \<Rightarrow> ptr list \<Rightarrow> u8 list" where
  "content st as = concat (map (chunk st) as)"

definition chain :: "net_mem \<Rightarrow> ptr option \<Rightarrow> ptr list \<Rightarrow> bool" where
  "chain st p as \<longleftrightarrow> links (pnext st) p as \<and> tot_ok st as \<and> (\<forall>a \<in> set as. pb_payload (pbufs st a) \<noteq> None)"

lemma links_None [simp]: "links nx None as \<longleftrightarrow> as = []"
  by (cases as) auto

lemma links_Some: "links nx (Some a) as \<longleftrightarrow> (\<exists>bs. as = a # bs \<and> links nx (nx a) bs)"
  by (cases as) auto

lemma links_unique: "links nx p as \<Longrightarrow> links nx p bs \<Longrightarrow> as = bs"
proof (induction as arbitrary: p bs)
  case (Cons a as)
  then show ?case by (cases bs) auto
qed simp

lemma links_append: "links nx p (as @ b # bs) \<Longrightarrow> links nx (Some b) (b # bs)"
  by (induction as arbitrary: p) auto

lemma links_distinct: "links nx p as \<Longrightarrow> distinct as"
proof (induction as arbitrary: p)
  case (Cons a as)
  have "a \<notin> set as"
  proof
    assume "a \<in> set as"
    then obtain xs ys where "as = xs @ a # ys" by (auto simp: in_set_conv_decomp)
    then have "links nx (Some a) (a # ys)" using Cons.prems links_append by (metis links.simps(2))
    then have "as = ys" using Cons.prems links_unique [of nx "nx a" as ys] by simp
    with \<open>as = xs @ a # ys\<close> show False by simp
  qed
  moreover have "distinct as" using Cons by auto
  ultimately show ?case by simp
qed simp

lemma links_cong: "(\<And>a. a \<in> set as \<Longrightarrow> nx' a = nx a) \<Longrightarrow> links nx' p as = links nx p as"
  by (induction as arbitrary: p) auto

lemma length_read_bytes [simp]: "length (read_bytes m p n) = n"
  by (simp add: read_bytes_def)

lemma nth_read_bytes [simp]: "i < n \<Longrightarrow> read_bytes m p n ! i = m (ptr_add p (int i))"
  by (simp add: read_bytes_def)

lemma length_chunk [simp]: "length (chunk st a) = plen st a"
  by (simp add: chunk_def)

lemma content_simps [simp]: "content st [] = []" "content st (a # as) = chunk st a @ content st as"
  "content st (as @ bs) = content st as @ content st bs"
  by (simp_all add: content_def)

lemma length_content [simp]: "length (content st as) = lens st as"
  by (induction as) auto

lemma tot_ok_append: "tot_ok st (as @ bs) \<Longrightarrow> tot_ok st bs"
  by (induction as) auto

lemma tot_ok_cong: "(\<And>a. a \<in> set as \<Longrightarrow> pb_len (pbufs st' a) = pb_len (pbufs st a) \<and> pb_tot_len (pbufs st' a) = pb_tot_len (pbufs st a)) \<Longrightarrow>
    tot_ok st' as = tot_ok st as \<and> lens st' as = lens st as"
  by (induction as) auto

lemma chain_Some: "chain st (Some a) as \<longleftrightarrow> (\<exists>bs. as = a # bs \<and> chain st (pb_next (pbufs st a)) bs \<and>
    pb_payload (pbufs st a) \<noteq> None \<and> unat (pb_tot_len (pbufs st a)) = plen st a + lens st bs)"
  by (auto simp: chain_def links_Some)

lemma chain_None [simp]: "chain st None as \<longleftrightarrow> as = []"
  by (auto simp: chain_def)

lemma chain_bound: "chain st p (a # as) \<Longrightarrow> lens st (a # as) < 65536"
proof -
  assume "chain st p (a # as)"
  then have "lens st (a # as) = unat (pb_tot_len (pbufs st a))" by (simp add: chain_def)
  also have "\<dots> < 2 ^ LENGTH(16)" by (rule unsigned_less)
  finally show ?thesis by simp
qed

lemma chain_cong:
  assumes "\<And>a. a \<in> set as \<Longrightarrow> pbufs st' a = pbufs st a"
  shows "chain st' p as = chain st p as"
  using assms tot_ok_cong [of as st' st] links_cong [of as "pnext st'" "pnext st" p] by (auto simp: chain_def)

section \<open>Ownership\<close>

text \<open>The blocks in use, and where the memory of a pbuf belongs.\<close>

definition ram_ptrs :: "ptr set \<Rightarrow> int set" where
  "ram_ptrs L = {i. (Ram, i) \<in> L}"

definition mem_ok :: "net_mem \<Rightarrow> ptr set \<Rightarrow> bool" where
  "mem_ok st L \<longleftrightarrow> heap_ok (ram_heap st) (ram_ptrs L) \<and> memp_ok (pools st) L"

definition owned :: "pbuf \<Rightarrow> ptr \<Rightarrow> bool" where
  "owned b a \<longleftrightarrow> pb_flags b AND PBUF_FLAG_IS_CUSTOM = 0 \<and>
     (pbuf_get_allocsrc b = PBUF_TYPE_ALLOC_SRC_MASK_STD_HEAP \<and> fst a = Ram \<or>
      pbuf_get_allocsrc b = PBUF_TYPE_ALLOC_SRC_MASK_STD_MEMP_PBUF \<and> a \<in> elems MEMP_PBUF \<or>
      pbuf_get_allocsrc b = PBUF_TYPE_ALLOC_SRC_MASK_STD_MEMP_PBUF_POOL \<and> a \<in> elems MEMP_PBUF_POOL)"

lemma memp_ok_Ram: "fst p = Ram \<Longrightarrow> memp_ok s (insert p L) = memp_ok s L" "fst p = Ram \<Longrightarrow> memp_ok s (L - {p}) = memp_ok s L"
proof -
  assume p: "fst p = Ram"
  then have "elems t - insert p L = elems t - L" "elems t - (L - {p}) = elems t - L" for t by (auto simp: elems_def)
  then show "memp_ok s (insert p L) = memp_ok s L" "memp_ok s (L - {p}) = memp_ok s L"
    by (simp_all add: memp_ok_def pool_ok_def)
qed

lemma ram_ptrs_simps [simp]:
  "fst p \<noteq> Ram \<Longrightarrow> ram_ptrs (insert p L) = ram_ptrs L" "fst p \<noteq> Ram \<Longrightarrow> ram_ptrs (L - {p}) = ram_ptrs L"
  "ram_ptrs (insert (Ram, j) L) = insert j (ram_ptrs L)" "ram_ptrs (L - {(Ram, j)}) = ram_ptrs L - {j}"
  "i \<in> ram_ptrs L \<longleftrightarrow> (Ram, i) \<in> L"
  by (auto simp: ram_ptrs_def)

lemma elems_area: "p \<in> elems t \<Longrightarrow> fst p = Pool t"
  by (auto simp: elems_def)

text \<open>The structs and bytes, which the allocators do not touch.\<close>

definition same_data :: "net_mem \<Rightarrow> net_mem \<Rightarrow> bool" where
  "same_data st st' \<longleftrightarrow> pbufs st' = pbufs st \<and> customs st' = customs st \<and> data_bytes st' = data_bytes st"

lemma st_mem_malloc_ok:
  assumes "mem_ok st L"
  shows "\<exists>r st'. st_mem_malloc n st = Some (r, st') \<and> same_data st st' \<and>
    (case r of None \<Rightarrow> st' = st | Some a \<Rightarrow> fst a = Ram \<and> snd a mod 4 = 0 \<and> a \<notin> L \<and> mem_ok st' (insert a L))"
proof -
  have h: "heap_ok (ram_heap st) (ram_ptrs L)" and m: "memp_ok (pools st) L" using assms by (auto simp: mem_ok_def)
  show ?thesis
  proof (rule heap.alloc_cases [OF h, of n])
    assume "mem_malloc n (ram_heap st) = Some (None, ram_heap st)"
    then show ?thesis by (simp add: st_mem_malloc_def same_data_def)
  next
    fix i h' assume a: "mem_malloc n (ram_heap st) = Some (Some i, h')" "i \<notin> (ram_ptrs L)"
      "heap_ok h' (insert i (ram_ptrs L))"
    show ?thesis using a m heap_ok_aligned [OF a(3)]
      by (simp add: st_mem_malloc_def same_data_def mem_ok_def memp_ok_Ram)
  qed
qed

lemma st_memp_malloc_ok:
  assumes "mem_ok st L"
  shows "\<exists>r st'. st_memp_malloc t st = Some (r, st') \<and> same_data st st' \<and>
    (case r of None \<Rightarrow> st' = st | Some a \<Rightarrow> a \<in> elems t \<and> a \<notin> L \<and> mem_ok st' (insert a L))"
proof -
  have h: "heap_ok (ram_heap st) (ram_ptrs L)" and m: "memp_ok (pools st) L" using assms by (auto simp: mem_ok_def)
  show ?thesis
  proof (rule pool.alloc_cases [OF m, of t])
    assume "memp_malloc t (pools st) = Some (None, pools st)"
    then show ?thesis by (simp add: st_memp_malloc_def same_data_def)
  next
    fix a s assume a: "memp_malloc t (pools st) = Some (Some a, s)" "a \<in> elems t" "a \<notin> L" "memp_ok s (insert a L)"
    moreover have "fst a \<noteq> Ram" using elems_area [OF a(2)] by simp
    ultimately show ?thesis using h
      by (auto simp: st_memp_malloc_def same_data_def mem_ok_def)
  qed
qed

lemma st_memp_free_ok:
  assumes "mem_ok st L" "a \<in> L" "a \<in> elems t"
  shows "\<exists>st'. st_memp_free t a st = Some st' \<and> same_data st st' \<and> mem_ok st' (L - {a})"
proof -
  have "fst a \<noteq> Ram" using elems_area [OF assms(3)] by simp
  then show ?thesis using pool.release_ok [of "pools st" L a t] assms
    by (auto simp: mem_ok_def st_memp_free_def same_data_def)
qed

lemma free_by_src_ok:
  assumes ok: "mem_ok st L" and a: "a \<in> L" "owned (pbufs st a) a"
  shows "\<exists>st'. free_by_src a st = Some st' \<and> same_data st st' \<and> mem_ok st' (L - {a})"
proof (cases "fst a = Ram")
  case True
  then obtain i where i: "a = (Ram, i)" by (cases a) auto
  have s: "pbuf_get_allocsrc (pbufs st a) = PBUF_TYPE_ALLOC_SRC_MASK_STD_HEAP"
    using a(2) True by (auto simp: owned_def dest: elems_area)
  obtain h' where h': "mem_free (Some i) (ram_heap st) = Some h'" "heap_ok h' ((ram_ptrs L) - {i})"
    using heap.release_ok [of "ram_heap st" "(ram_ptrs L)" i] ok a(1) by (auto simp: mem_ok_def i)
  have "mem_ok (st\<lparr>ram_heap := h'\<rparr>) (L - {a})"
    using ok h'(2) by (simp add: mem_ok_def i memp_ok_Ram)
  then show ?thesis using h'(1) s by (simp add: free_by_src_def Let_def type_simps st_mem_free_def i same_data_def)
next
  case False
  then show ?thesis using a(2) st_memp_free_ok [OF ok a(1)] by (auto simp: owned_def free_by_src_def Let_def type_simps)
qed

section \<open>Release of a chain\<close>

text \<open>The pbufs that are released: those in front that have one reference only.  The next one loses a reference.\<close>

definition dead :: "net_mem \<Rightarrow> ptr list \<Rightarrow> ptr list" where
  "dead st as = takeWhile (\<lambda>a. pb_ref (pbufs st a) = 1) as"

definition alive :: "net_mem \<Rightarrow> ptr list \<Rightarrow> ptr list" where
  "alive st as = dropWhile (\<lambda>a. pb_ref (pbufs st a) = 1) as"

definition drop_refs :: "net_mem \<Rightarrow> ptr list \<Rightarrow> ptr \<Rightarrow> pbuf" where
  "drop_refs st as a =
     (if a \<in> set (dead st as) then (pbufs st a)\<lparr>pb_ref := 0\<rparr>
      else if alive st as \<noteq> [] \<and> a = hd (alive st as) then (pbufs st a)\<lparr>pb_ref := pb_ref (pbufs st a) - 1\<rparr>
      else pbufs st a)"

lemma upd_pbuf_simps [simp]:
  "pbufs (upd_pbuf a f st) b = (if b = a then f (pbufs st a) else pbufs st b)"
  "customs (upd_pbuf a f st) = customs st" "data_bytes (upd_pbuf a f st) = data_bytes st"
  "ram_heap (upd_pbuf a f st) = ram_heap st" "pools (upd_pbuf a f st) = pools st"
  "mem_ok (upd_pbuf a f st) L = mem_ok st L"
  by (simp_all add: upd_pbuf_def mem_ok_def)

lemma pbuf_free_loop_None [simp]: "pbuf_free_loop None c st = Some (c, st)"
  by (subst pbuf_free_loop.simps) simp

lemma pbuf_free_loop_ref:
  "pb_ref (pbufs st a) > 1 \<Longrightarrow> pbuf_free_loop (Some a) c st =
     Some (c, upd_pbuf a (\<lambda>b. b\<lparr>pb_ref := pb_ref b - 1\<rparr>) st)"
proof -
  assume r: "pb_ref (pbufs st a) > 1"
  then have "pb_ref (pbufs st a) \<noteq> 0" "pb_ref (pbufs st a) - 1 \<noteq> 0" by auto
  then show ?thesis by (subst pbuf_free_loop.simps) (simp add: Let_def upd_pbuf_def word_neq_0_conv)
qed

lemma pbuf_free_loop_last:
  assumes "pb_ref (pbufs st a) = 1" "pb_flags (pbufs st a) AND PBUF_FLAG_IS_CUSTOM = 0"
  shows "pbuf_free_loop (Some a) c st =
     do { st' \<leftarrow> free_by_src a (upd_pbuf a (\<lambda>b. b\<lparr>pb_ref := 0\<rparr>) st);
          pbuf_free_loop (pb_next (pbufs st a)) (c + 1) st' }"
  using assms by (subst pbuf_free_loop.simps) (simp add: Let_def)

lemma owned_upd [simp]:
  "owned (b\<lparr>pb_ref := r\<rparr>) a = owned b a" "owned (b\<lparr>pb_next := nx\<rparr>) a = owned b a"
  "owned (b\<lparr>pb_len := l\<rparr>) a = owned b a" "owned (b\<lparr>pb_tot_len := l\<rparr>) a = owned b a"
  "owned (b\<lparr>pb_payload := pl\<rparr>) a = owned b a"
  by (simp_all add: owned_def pbuf_get_allocsrc_def)

lemma drop_refs_Cons:
  assumes r: "pb_ref (pbufs st a) = 1" and a: "a \<notin> set as" and s: "pbufs st' = (pbufs st)(a := (pbufs st a)\<lparr>pb_ref := 0\<rparr>)"
  shows "dead st' as = dead st as" "drop_refs st (a # as) b = (if b = a then (pbufs st a)\<lparr>pb_ref := 0\<rparr> else drop_refs st' as b)"
    "drop_refs st' as a = (pbufs st a)\<lparr>pb_ref := 0\<rparr>"
proof -
  show d: "dead st' as = dead st as" using a by (auto simp: dead_def s intro: takeWhile_cong)
  have e: "alive st' as = alive st as" using a by (auto simp: alive_def s intro: dropWhile_cong)
  have n: "a \<notin> set (alive st as)" "a \<notin> set (dead st as)"
    using a by (auto simp: dead_def alive_def dest: set_dropWhileD set_takeWhileD)
  then have h: "alive st as \<noteq> [] \<Longrightarrow> a \<noteq> hd (alive st as)" using hd_in_set by fastforce
  have d': "dead st (a # as) = a # dead st as" "alive st (a # as) = alive st as" using r by (simp_all add: dead_def alive_def)
  show "drop_refs st' as a = (pbufs st a)\<lparr>pb_ref := 0\<rparr>" using n h by (auto simp: drop_refs_def d e s)
  show "drop_refs st (a # as) b = (if b = a then (pbufs st a)\<lparr>pb_ref := 0\<rparr> else drop_refs st' as b)"
    using r n h by (auto simp: drop_refs_def d d' e s)
qed

lemma pbuf_free_loop_chain:
  assumes "links (pnext st) p as" "mem_ok st L" "\<forall>a \<in> set as. pb_ref (pbufs st a) > 0"
    "\<forall>a \<in> set (dead st as). owned (pbufs st a) a \<and> a \<in> L"
  shows "\<exists>st'. pbuf_free_loop p c st = Some (c + of_nat (length (dead st as)), st') \<and> mem_ok st' (L - set (dead st as)) \<and>
    customs st' = customs st \<and> data_bytes st' = data_bytes st \<and> pbufs st' = drop_refs st as"
  using assms
proof (induction as arbitrary: p c st L)
  case Nil
  then show ?case by (auto simp: dead_def alive_def drop_refs_def)
next
  case (Cons a as)
  have p: "p = Some a" and ln: "links (pnext st) (pb_next (pbufs st a)) as" using Cons.prems(1) by auto
  have a: "a \<notin> set as" using links_distinct [OF Cons.prems(1)] by simp
  show ?case
  proof (cases "pb_ref (pbufs st a) = 1")
    case False
    then have r: "pb_ref (pbufs st a) > 1" using Cons.prems(3) by (auto simp: word_less_nat_alt word_unat_eq_iff)
    have "pbufs (upd_pbuf a (\<lambda>b. b\<lparr>pb_ref := pb_ref b - 1\<rparr>) st) = drop_refs st (a # as)"
      using False by (auto simp: drop_refs_def dead_def alive_def)
    then show ?thesis using pbuf_free_loop_ref [OF r] Cons.prems(2) False by (simp add: p dead_def)
  next
    case True
    have d: "dead st (a # as) = a # dead st as" using True by (simp add: dead_def)
    then have own: "owned (pbufs st a) a" "a \<in> L" using Cons.prems(4) by auto
    let ?s1 = "upd_pbuf a (\<lambda>b. b\<lparr>pb_ref := 0\<rparr>) st"
    obtain s2 where s2: "free_by_src a ?s1 = Some s2" "same_data ?s1 s2" "mem_ok s2 (L - {a})"
      using free_by_src_ok [of ?s1 L a] Cons.prems(2) own by auto
    have pb: "pbufs s2 = (pbufs st)(a := (pbufs st a)\<lparr>pb_ref := 0\<rparr>)"
      using s2(2) by (auto simp: same_data_def upd_pbuf_def)
    note dr = drop_refs_Cons [OF True a pb]
    have eq: "\<And>b. b \<in> set as \<Longrightarrow> pbufs s2 b = pbufs st b" using a by (auto simp: pb)
    have 1: "links (pnext s2) (pb_next (pbufs st a)) as" using ln eq links_cong [of as "pnext s2" "pnext st"] by auto
    have 2: "\<forall>b \<in> set as. pb_ref (pbufs s2 b) > 0" using Cons.prems(3) eq by auto
    have sub: "set (dead st as) \<subseteq> set as" by (auto simp: dead_def dest: set_takeWhileD)
    have 3: "\<forall>b \<in> set (dead s2 as). owned (pbufs s2 b) b \<and> b \<in> L - {a}"
      using Cons.prems(4) sub a eq by (auto simp: dr(1) d)
    from Cons.IH [OF 1 s2(3) 2 3, of "c + 1"] obtain st' where st':
      "pbuf_free_loop (pb_next (pbufs st a)) (c + 1) s2 = Some (c + 1 + of_nat (length (dead s2 as)), st')"
      "mem_ok st' (L - {a} - set (dead s2 as))" "customs st' = customs s2" "data_bytes st' = data_bytes s2"
      "pbufs st' = drop_refs s2 as" by blast
    have "drop_refs s2 as = drop_refs st (a # as)" using dr(2,3) by auto
    moreover have "L - {a} - set (dead s2 as) = L - set (dead st (a # as))" by (auto simp: d dr(1))
    moreover have "pbuf_free_loop p c st = Some (c + of_nat (length (dead st (a # as))), st')"
      using pbuf_free_loop_last [OF True] own(1) s2(1) st'(1) by (simp add: p owned_def d dr(1) add.assoc)
    ultimately show ?thesis using st' s2(2) by (auto simp: same_data_def)
  qed
qed

section \<open>Allocation\<close>

lemma same_data_trans: "same_data a b \<Longrightarrow> same_data b c \<Longrightarrow> same_data a c"
  by (simp add: same_data_def)

lemma pbuf_init_simps [simp]:
  "customs (pbuf_init_alloced_pbuf p pl tot l type fl st) = customs st"
  "data_bytes (pbuf_init_alloced_pbuf p pl tot l type fl st) = data_bytes st"
  "mem_ok (pbuf_init_alloced_pbuf p pl tot l type fl st) L = mem_ok st L"
  "pbufs (pbuf_init_alloced_pbuf p pl tot l type fl st) = (pbufs st)(p := \<lparr>pb_next = None, pb_payload = pl, pb_tot_len = tot,
     pb_len = l, pb_type_internal = ucast (type_num type), pb_flags = fl, pb_ref = 1, pb_if_idx = 0\<rparr>)"
  by (simp_all add: pbuf_init_alloced_pbuf_def upd_pbuf_def mem_ok_def)

lemma align_after: "snd a mod 4 = 0 \<Longrightarrow> LWIP_MEM_ALIGN (ptr_add a (int SIZEOF_STRUCT_PBUF + int n)) =
    ptr_add a (int SIZEOF_STRUCT_PBUF + int (LWIP_MEM_ALIGN_SIZE n))"
proof -
  assume "snd a mod 4 = 0"
  then obtain k where k: "snd a = 4 * k" by (auto elim: dvdE simp: mod_eq_0_iff_dvd)
  have "(4 * k + 16 + int n + 3) mod 4 = (int n + 3) mod 4" by (simp add: mod_simps) presburger
  moreover have "(n + 3) mod 4 \<le> n + 3" by simp
  ultimately show ?thesis
    by (simp add: LWIP_MEM_ALIGN_def LWIP_MEM_ALIGN_SIZE_def SIZEOF_STRUCT_PBUF_def ptr_add_def k of_nat_diff zmod_int)
qed

lemma align_size_dvd: "4 dvd LWIP_MEM_ALIGN_SIZE n" "n \<le> LWIP_MEM_ALIGN_SIZE n" "LWIP_MEM_ALIGN_SIZE n \<le> n + 3"
  unfolding LWIP_MEM_ALIGN_SIZE_def by (simp_all add: dvd_minus_mod)

lemma payload_aligned: "snd a mod 4 = 0 \<Longrightarrow> snd (ptr_add a (int (SIZEOF_STRUCT_PBUF + LWIP_MEM_ALIGN_SIZE n))) mod 4 = 0"
  using align_size_dvd(1) [of n] by (auto simp: SIZEOF_STRUCT_PBUF_def LWIP_MEM_ALIGN_SIZE_def [of 16] elim!: dvdE simp: mod_eq_0_iff_dvd)

lemma type_byte [simp]:
  "(ucast (type_num PBUF_RAM) :: u8) = 0x80" "(ucast (type_num PBUF_ROM) :: u8) = 0x01"
  "(ucast (type_num PBUF_REF) :: u8) = 0x41" "(ucast (type_num PBUF_POOL) :: u8) = 0x82"
  by (simp_all add: type_simps)

declare type_num.simps [simp del]

lemma pbuf_alloc_ram:
  assumes "mem_ok st L"
  shows "\<exists>r st'. pbuf_alloc layer len PBUF_RAM st = Some (r, st') \<and> customs st' = customs st \<and> data_bytes st' = data_bytes st \<and>
    (case r of None \<Rightarrow> st' = st
     | Some a \<Rightarrow> fst a = Ram \<and> a \<notin> L \<and> mem_ok st' (insert a L) \<and> owned (pbufs st' a) a \<and>
         pbufs st' = (pbufs st)(a := \<lparr>pb_next = None,
           pb_payload = Some (ptr_add a (int (SIZEOF_STRUCT_PBUF + LWIP_MEM_ALIGN_SIZE (layer_num layer)))),
           pb_tot_len = len, pb_len = len, pb_type_internal = 0x80, pb_flags = 0, pb_ref = 1, pb_if_idx = 0\<rparr>))"
proof -
  let ?pl = "mem_size_cast (LWIP_MEM_ALIGN_SIZE (layer_num layer) + LWIP_MEM_ALIGN_SIZE (unat len))"
  let ?al = "mem_size_cast (LWIP_MEM_ALIGN_SIZE SIZEOF_STRUCT_PBUF + ?pl)"
  show ?thesis
  proof (cases "?pl < LWIP_MEM_ALIGN_SIZE (unat len) \<or> ?al < LWIP_MEM_ALIGN_SIZE (unat len)")
    case True
    then show ?thesis by (simp add: pbuf_alloc_def Let_def)
  next
    case False
    obtain r s1 where r: "st_mem_malloc ?al st = Some (r, s1)" "same_data st s1"
      "case r of None \<Rightarrow> s1 = st | Some a \<Rightarrow> fst a = Ram \<and> snd a mod 4 = 0 \<and> a \<notin> L \<and> mem_ok s1 (insert a L)"
      using st_mem_malloc_ok [OF assms, of ?al] by blast
    show ?thesis
    proof (cases r)
      case None
      then show ?thesis using r False by (simp add: pbuf_alloc_def Let_def)
    next
      case (Some a)
      then have al: "snd a mod 4 = 0" using r(3) by simp
      have "owned \<lparr>pb_next = None, pb_payload = p, pb_tot_len = len, pb_len = len, pb_type_internal = 0x80, pb_flags = 0,
          pb_ref = 1, pb_if_idx = 0\<rparr> a" for p
        using r(3) Some by (simp add: owned_def pbuf_get_allocsrc_def type_simps)
      then show ?thesis using r False Some payload_aligned [OF al, of "layer_num layer"]
        by (simp add: pbuf_alloc_def Let_def align_after [OF al] same_data_def type_simps)
    qed
  qed
qed

text \<open>A chain under construction: \<open>r\<close> bytes are still to come.\<close>

fun part_ok :: "net_mem \<Rightarrow> ptr list \<Rightarrow> nat \<Rightarrow> bool" where
  "part_ok st [] r \<longleftrightarrow> True"
| "part_ok st (a # as) r \<longleftrightarrow> unat (pb_tot_len (pbufs st a)) = plen st a + lens st as + r \<and> part_ok st as r"

lemma part_ok_0: "part_ok st as 0 = tot_ok st as"
  by (induction as) auto

lemma part_ok_snoc:
  "part_ok st (as @ [a]) r \<longleftrightarrow> part_ok st as (plen st a + r) \<and> unat (pb_tot_len (pbufs st a)) = plen st a + r"
  by (induction as) (auto simp: add.assoc)

lemma part_ok_cong:
  assumes "\<And>a. a \<in> set as \<Longrightarrow> pb_len (pbufs st' a) = pb_len (pbufs st a) \<and> pb_tot_len (pbufs st' a) = pb_tot_len (pbufs st a)"
  shows "part_ok st' as r = part_ok st as r" "lens st' as = lens st as"
  using assms by (induction as) auto

text \<open>The data of a pool buffer lie in its own element, behind the struct.\<close>

definition pool_pbuf :: "net_mem \<Rightarrow> ptr \<Rightarrow> bool" where
  "pool_pbuf st a \<longleftrightarrow> a \<in> elems MEMP_PBUF_POOL \<and> pb_ref (pbufs st a) = 1 \<and> owned (pbufs st a) a \<and> plen st a \<le> 256 \<and>
     pb_payload (pbufs st a) \<noteq> None \<and> fst (the (pb_payload (pbufs st a))) = fst a \<and>
     snd a + int SIZEOF_STRUCT_PBUF \<le> snd (the (pb_payload (pbufs st a))) \<and>
     snd (the (pb_payload (pbufs st a))) + int (plen st a) \<le> snd a + int (memp_size MEMP_PBUF_POOL)"

lemma pool_pbuf_payload: "pool_pbuf st a \<Longrightarrow> pb_payload (pbufs st a) \<noteq> None"
  by (simp add: pool_pbuf_def)

lemma links_snoc:
  "links nx p as \<Longrightarrow> q \<notin> set as \<Longrightarrow> as \<noteq> [] \<Longrightarrow> links (nx(last as := Some q, q := None)) p (as @ [q])"
proof (induction as arbitrary: p)
  case (Cons a as)
  show ?case
  proof (cases as)
    case Nil
    then show ?thesis using Cons.prems by auto
  next
    case (Cons b bs)
    have "a \<notin> set as" using links_distinct [OF Cons.prems(1)] by simp
    then have "a \<noteq> last as" using Cons last_in_set [of as] by auto
    then show ?thesis using Cons.prems Cons.IH [of "nx a"] Cons by auto
  qed
qed simp

text \<open>One more buffer at the end of the chain.\<close>

lemma pool_extend:
  assumes ln: "links (pnext st) p ps" and q: "q \<notin> set ps" "q \<in> elems MEMP_PBUF_POOL"
    and pp: "\<forall>a \<in> set ps. pool_pbuf st a" and part: "part_ok st ps (unat rem)" and qlen: "qlen \<le> rem" "unat qlen \<le> 256"
    and pl: "fst pl = fst q" "snd q + int SIZEOF_STRUCT_PBUF \<le> snd pl" "snd pl + int (unat qlen) \<le> snd q + int (memp_size MEMP_PBUF_POOL)"
    and st1_def: "st1 = pbuf_init_alloced_pbuf q (Some pl) rem qlen PBUF_POOL 0 st"
    and st2_def: "st2 = (case p of None \<Rightarrow> st1 | Some _ \<Rightarrow> upd_pbuf (last ps) (\<lambda>b. b\<lparr>pb_next := Some q\<rparr>) st1)"
  shows "links (pnext st2) (case p of None \<Rightarrow> Some q | Some _ \<Rightarrow> p) (ps @ [q])"
    and "\<forall>a \<in> set (ps @ [q]). pool_pbuf st2 a" and "part_ok st2 (ps @ [q]) (unat (rem - qlen))"
    and "plen st2 q = unat qlen" and "\<And>a. a \<in> set ps \<Longrightarrow> plen st2 a = plen st a"
    and "\<And>b. b \<notin> set ps \<Longrightarrow> b \<noteq> q \<Longrightarrow> pbufs st2 b = pbufs st b"
    and "customs st2 = customs st" "data_bytes st2 = data_bytes st" "mem_ok st2 L = mem_ok st L"
proof -
  have pnull: "p = None \<longleftrightarrow> ps = []" using ln by (cases ps) auto
  have lq: "ps \<noteq> [] \<Longrightarrow> last ps \<noteq> q" using q(1) by auto
  have st2q: "pbufs st2 q = \<lparr>pb_next = None, pb_payload = Some pl, pb_tot_len = rem, pb_len = qlen, pb_type_internal = 0x82,
     pb_flags = 0, pb_ref = 1, pb_if_idx = 0\<rparr>" using lq pnull by (auto simp: st2_def st1_def split: option.splits)
  have st2a: "pbufs st2 a = (if a = last ps then (pbufs st a)\<lparr>pb_next := Some q\<rparr> else pbufs st a)" if "a \<in> set ps" for a
    using that q(1) pnull lq by (auto simp: st2_def st1_def split: option.splits)
  show "pbufs st2 b = pbufs st b" if "b \<notin> set ps" "b \<noteq> q" for b
    using that pnull by (auto simp: st2_def st1_def split: option.splits)
  show "customs st2 = customs st" "data_bytes st2 = data_bytes st" "mem_ok st2 L = mem_ok st L"
    by (auto simp: st2_def st1_def split: option.splits)
  show "plen st2 q = unat qlen" by (simp add: st2q)
  show "plen st2 a = plen st a" if "a \<in> set ps" for a using st2a [OF that] by simp
  show "links (pnext st2) (case p of None \<Rightarrow> Some q | Some _ \<Rightarrow> p) (ps @ [q])"
  proof (cases "ps = []")
    case True
    then show ?thesis using pnull st2q by simp
  next
    case False
    have "links ((pnext st)(last ps := Some q, q := None)) p (ps @ [q])" using links_snoc [OF ln q(1) False] .
    then have "links (pnext st2) p (ps @ [q])"
      using st2a st2q lq False by (subst links_cong [of _ _ "(pnext st)(last ps := Some q, q := None)"]) auto
    then show ?thesis using False pnull by (auto split: option.splits)
  qed
  have "pool_pbuf st2 q" using q(2) qlen(2) pl by (simp add: pool_pbuf_def st2q owned_def pbuf_get_allocsrc_def type_simps)
  moreover have "pool_pbuf st2 a" if "a \<in> set ps" for a
    using pp that st2a [OF that] by (cases "a = last ps") (simp_all add: pool_pbuf_def)
  ultimately show "\<forall>a \<in> set (ps @ [q]). pool_pbuf st2 a" by simp
  have "unat qlen + unat (rem - qlen) = unat rem" using qlen(1) by (simp add: unat_sub word_le_nat_alt)
  moreover have "part_ok st2 ps (unat rem)" using part st2a by (subst part_ok_cong [of _ _ st]) auto
  ultimately show "part_ok st2 (ps @ [q]) (unat (rem - qlen))" by (simp add: part_ok_snoc st2q)
qed

lemma pool_loop_ok:
  assumes "mem_ok st (L \<union> set ps)" "set ps \<inter> L = {}" "links (pnext st) p ps" "ps \<noteq> [] \<Longrightarrow> lst = Some (last ps)"
    "\<forall>a \<in> set ps. pool_pbuf st a" "part_ok st ps (unat rem)" "LWIP_MEM_ALIGN_SIZE offset < 256" "rem > 0 \<or> ps = []"
  shows "\<exists>r st'. pool_loop p lst rem offset st = Some (r, st') \<and> customs st' = customs st \<and> data_bytes st' = data_bytes st \<and>
    (\<forall>b \<in> L. pbufs st' b = pbufs st b) \<and>
    (case r of None \<Rightarrow> mem_ok st' L
     | Some h \<Rightarrow> \<exists>qs. qs \<noteq> [] \<and> links (pnext st') (Some h) (ps @ qs) \<and> (\<forall>a \<in> set (ps @ qs). pool_pbuf st' a) \<and>
         set (ps @ qs) \<inter> L = {} \<and> mem_ok st' (L \<union> set (ps @ qs)) \<and> tot_ok st' (ps @ qs) \<and>
         lens st' qs = unat rem \<and> (\<forall>a \<in> set ps. plen st' a = plen st a))"
  using assms
proof (induction "unat rem" arbitrary: rem st ps p lst offset rule: less_induct)
  case less
  note h = less.prems
  have pnull: "p = None \<longleftrightarrow> ps = []" using h(3) by (cases ps) auto
  obtain r s1 where r: "st_memp_malloc MEMP_PBUF_POOL st = Some (r, s1)" "same_data st s1"
    "case r of None \<Rightarrow> s1 = st | Some q \<Rightarrow> q \<in> elems MEMP_PBUF_POOL \<and> q \<notin> L \<union> set ps \<and> mem_ok s1 (insert q (L \<union> set ps))"
    using st_memp_malloc_ok [OF h(1), of MEMP_PBUF_POOL] by blast
  show ?case
  proof (cases r)
    case None
    then have s1: "s1 = st" using r(3) by simp
    show ?thesis
    proof (cases "ps = []")
      case True
      then show ?thesis using r(1) None s1 pnull h(1) by (subst pool_loop.simps) simp
    next
      case False
      then obtain a where a: "p = Some a" using pnull by auto
      have d: "dead st ps = ps" using h(5) by (simp add: dead_def pool_pbuf_def takeWhile_eq_all_conv)
      have "alive st ps = []" using h(5) by (auto simp: alive_def pool_pbuf_def)
      then have dr: "\<And>b. b \<in> L \<Longrightarrow> drop_refs st ps b = pbufs st b" using h(2) by (auto simp: drop_refs_def d)
      obtain st' where st': "pbuf_free_loop p 0 st = Some (of_nat (length ps), st')" "mem_ok st' (L \<union> set ps - set ps)"
        "customs st' = customs st" "data_bytes st' = data_bytes st" "pbufs st' = drop_refs st ps"
        using pbuf_free_loop_chain [OF h(3,1), of 0] h(5) d by (auto simp: pool_pbuf_def)
      have "L \<union> set ps - set ps = L" using h(2) by auto
      then show ?thesis using r(1) None s1 a st' dr by (subst pool_loop.simps) (simp add: pbuf_free_def)
    qed
  next
    case (Some q)
    then have q: "q \<in> elems MEMP_PBUF_POOL" "q \<notin> L" "q \<notin> set ps" and m1: "mem_ok s1 (insert q (L \<union> set ps))"
      using r(3) by auto
    have al: "snd q mod 4 = 0" using elems_align [OF q(1)] .
    define room where "room = PBUF_POOL_BUFSIZE_ALIGNED - LWIP_MEM_ALIGN_SIZE offset"
    have room: "0 < room" "room \<le> 256" using h(7)
      by (simp_all add: room_def PBUF_POOL_BUFSIZE_ALIGNED_def LWIP_MEM_ALIGN_SIZE_def [of 256])
    define qlen where "qlen = min rem (of_nat room)"
    have ql: "qlen \<le> rem" "rem > 0 \<Longrightarrow> qlen > 0" "unat qlen \<le> 256" "unat qlen \<le> room"
      using room by (auto simp: qlen_def min_def word_less_nat_alt word_le_nat_alt unat_of_nat)
    define pl where "pl = ptr_add q (int SIZEOF_STRUCT_PBUF + int (LWIP_MEM_ALIGN_SIZE offset))"
    define st2 where "st2 = pbuf_init_alloced_pbuf q (Some pl) rem qlen PBUF_POOL 0 s1"
    define st3 where "st3 = (case p of None \<Rightarrow> st2 | Some _ \<Rightarrow> upd_pbuf (last ps) (\<lambda>b. b\<lparr>pb_next := Some q\<rparr>) st2)"
    have pb: "pbufs s1 = pbufs st" using r(2) by (simp add: same_data_def)
    have pre: "links (pnext s1) p ps" "\<forall>a \<in> set ps. pool_pbuf s1 a" "part_ok s1 ps (unat rem)"
      using h(3,5,6) part_ok_cong(1) [of ps s1 st] unfolding pool_pbuf_def pb by simp_all
    have "int (LWIP_MEM_ALIGN_SIZE offset) + int (unat qlen) \<le> 256"
      using ql(4) h(7) room_def [unfolded PBUF_POOL_BUFSIZE_ALIGNED_def LWIP_MEM_ALIGN_SIZE_def [of 256], simplified] by linarith
    then have fit: "fst pl = fst q" "snd q + int SIZEOF_STRUCT_PBUF \<le> snd pl"
      "snd pl + int (unat qlen) \<le> snd q + int (memp_size MEMP_PBUF_POOL)"
      by (simp_all add: pl_def SIZEOF_STRUCT_PBUF_def LWIP_MEM_ALIGN_SIZE_def [of 256] LWIP_MEM_ALIGN_SIZE_def [of 16]
        LWIP_MEM_ALIGN_SIZE_def [of 272])
    note ext = pool_extend [OF pre(1) q(3,1) pre(2,3) ql(1,3) fit st2_def st3_def]
    let ?p = "case p of None \<Rightarrow> Some q | Some _ \<Rightarrow> p"
    have m3: "mem_ok st3 (L \<union> set (ps @ [q]))" using m1 ext(9) by (simp add: insert_commute)
    have oth: "\<forall>b \<in> L. pbufs st3 b = pbufs st b" using ext(6) h(2) q(2) pb by (metis disjoint_iff)
    have dat: "customs st3 = customs st" "data_bytes st3 = data_bytes st" using ext(7,8) r(2) by (simp_all add: same_data_def)
    have "snd pl mod 4 = 0" using payload_aligned [OF al, of offset] by (simp add: pl_def)
    then have unf: "pool_loop p lst rem offset st =
        (if rem - qlen > 0 then pool_loop ?p (Some q) (rem - qlen) 0 st3 else Some (?p, st3))"
      using r(1) Some room h(4) pnull
      by (subst pool_loop.simps)
        (cases p, simp_all add: Let_def align_after [OF al] room_def [symmetric] qlen_def [symmetric] pl_def [symmetric]
          st2_def [symmetric] st3_def)
    show ?thesis
    proof (cases "rem - qlen > 0")
      case True
      have "rem > 0" using True ql(1) by (cases "rem = 0") (auto simp: word_neq_0_conv word_le_nat_alt unat_eq_zero)
      then have lt: "unat (rem - qlen) < unat rem" using ql by (simp add: unat_sub word_less_nat_alt word_le_nat_alt)
      have a0: "LWIP_MEM_ALIGN_SIZE 0 < 256" by (simp add: LWIP_MEM_ALIGN_SIZE_def)
      have disj: "set (ps @ [q]) \<inter> L = {}" using h(2) q(2) by auto
      obtain r' st' where ih: "pool_loop ?p (Some q) (rem - qlen) 0 st3 = Some (r', st')" "customs st' = customs st3"
        "data_bytes st' = data_bytes st3" "\<forall>b \<in> L. pbufs st' b = pbufs st3 b"
        "case r' of None \<Rightarrow> mem_ok st' L
         | Some h \<Rightarrow> \<exists>qs. qs \<noteq> [] \<and> links (pnext st') (Some h) ((ps @ [q]) @ qs) \<and> (\<forall>a \<in> set ((ps @ [q]) @ qs). pool_pbuf st' a) \<and>
             set ((ps @ [q]) @ qs) \<inter> L = {} \<and> mem_ok st' (L \<union> set ((ps @ [q]) @ qs)) \<and> tot_ok st' ((ps @ [q]) @ qs) \<and>
             lens st' qs = unat (rem - qlen) \<and> (\<forall>a \<in> set (ps @ [q]). plen st' a = plen st3 a)"
        using less.hyps [OF lt m3 disj ext(1) _ ext(2,3) a0] True by auto
      show ?thesis
      proof (cases r')
        case None
        then show ?thesis using unf True ih(1,2,3,4,5) oth dat by simp
      next
        case (Some h)
        then obtain qs where qs: "links (pnext st') (Some h) ((ps @ [q]) @ qs)" "\<forall>a \<in> set ((ps @ [q]) @ qs). pool_pbuf st' a"
          "set ((ps @ [q]) @ qs) \<inter> L = {}" "mem_ok st' (L \<union> set ((ps @ [q]) @ qs))" "tot_ok st' ((ps @ [q]) @ qs)"
          "lens st' qs = unat (rem - qlen)" "\<forall>a \<in> set (ps @ [q]). plen st' a = plen st3 a" using ih(5) by auto
        have "plen st' q = unat qlen" "\<forall>a \<in> set ps. plen st' a = plen st a" using qs(7) ext(4,5) pb by auto
        then have "lens st' (q # qs) = unat rem" "\<forall>a \<in> set ps. plen st' a = plen st a"
          using qs(6) ql(1) by (auto simp: unat_sub word_le_nat_alt)
        then show ?thesis using unf True ih(1-4) oth dat Some qs(1-5)
          by (intro exI [of _ r'] exI [of _ st']) (simp, intro exI [of _ "q # qs"], simp)
      qed
    next
      case False
      then have e: "rem = qlen" using ql(1) by (metis eq_iff_diff_eq_0 word_neq_0_conv)
      have "plen st3 q = unat rem" "\<forall>a \<in> set ps. plen st3 a = plen st a" using ext(4,5) e pb by auto
      moreover have "tot_ok st3 (ps @ [q])" using ext(3) e by (simp add: part_ok_0)
      moreover have "set (ps @ [q]) \<inter> L = {}" using h(2) q(2) by auto
      moreover obtain h where hp: "?p = Some h" by (cases p) auto
      ultimately show ?thesis using unf False oth dat m3 ext(1,2)
        by (intro exI [of _ "Some h"] exI [of _ st3]) (simp, intro exI [of _ "[q]"], simp)
    qed
  qed
qed

lemma pbuf_alloc_pool:
  assumes "mem_ok st L"
  shows "\<exists>r st'. pbuf_alloc layer len PBUF_POOL st = Some (r, st') \<and> customs st' = customs st \<and> data_bytes st' = data_bytes st \<and>
    (\<forall>b \<in> L. pbufs st' b = pbufs st b) \<and>
    (case r of None \<Rightarrow> mem_ok st' L
     | Some h \<Rightarrow> \<exists>as. chain st' (Some h) as \<and> (\<forall>a \<in> set as. pool_pbuf st' a) \<and> set as \<inter> L = {} \<and>
         mem_ok st' (L \<union> set as) \<and> lens st' as = unat len)"
proof -
  have off: "LWIP_MEM_ALIGN_SIZE (layer_num layer) < 256"
    by (cases layer) (simp_all add: LWIP_MEM_ALIGN_SIZE_def layer_simps)
  have "\<exists>r st'. pool_loop None None len (layer_num layer) st = Some (r, st') \<and> customs st' = customs st \<and>
    data_bytes st' = data_bytes st \<and> (\<forall>b \<in> L. pbufs st' b = pbufs st b) \<and>
    (case r of None \<Rightarrow> mem_ok st' L
     | Some h \<Rightarrow> \<exists>qs. qs \<noteq> [] \<and> links (pnext st') (Some h) ([] @ qs) \<and> (\<forall>a \<in> set ([] @ qs). pool_pbuf st' a) \<and>
         set ([] @ qs) \<inter> L = {} \<and> mem_ok st' (L \<union> set ([] @ qs)) \<and> tot_ok st' ([] @ qs) \<and>
         lens st' qs = unat len \<and> (\<forall>a \<in> set []. plen st' a = plen st a))"
    by (rule pool_loop_ok) (use assms off in auto)
  then obtain r st' where r: "pool_loop None None len (layer_num layer) st = Some (r, st')" "customs st' = customs st"
    "data_bytes st' = data_bytes st" "\<forall>b \<in> L. pbufs st' b = pbufs st b"
    and res: "case r of None \<Rightarrow> mem_ok st' L
     | Some h \<Rightarrow> \<exists>qs. qs \<noteq> [] \<and> links (pnext st') (Some h) ([] @ qs) \<and> (\<forall>a \<in> set ([] @ qs). pool_pbuf st' a) \<and>
         set ([] @ qs) \<inter> L = {} \<and> mem_ok st' (L \<union> set ([] @ qs)) \<and> tot_ok st' ([] @ qs) \<and>
         lens st' qs = unat len \<and> (\<forall>a \<in> set []. plen st' a = plen st a)"
    by blast
  have "case r of None \<Rightarrow> mem_ok st' L
     | Some h \<Rightarrow> \<exists>as. chain st' (Some h) as \<and> (\<forall>a \<in> set as. pool_pbuf st' a) \<and> set as \<inter> L = {} \<and>
         mem_ok st' (L \<union> set as) \<and> lens st' as = unat len"
  proof (cases r)
    case None
    then show ?thesis using res by simp
  next
    case (Some h)
    then obtain qs where qs: "links (pnext st') (Some h) qs" "\<forall>a \<in> set qs. pool_pbuf st' a" "set qs \<inter> L = {}"
      "mem_ok st' (L \<union> set qs)" "tot_ok st' qs" "lens st' qs = unat len" using res by auto
    then have "chain st' (Some h) qs" by (simp add: chain_def pool_pbuf_payload)
    then show ?thesis using Some qs by auto
  qed
  with r show ?thesis by (simp add: pbuf_alloc_def Let_def)
qed

text \<open>The pool of this configuration has one buffer of 256 bytes.\<close>

lemma pool_limit:
  assumes "chain st (Some h) as" "\<forall>a \<in> set as. pool_pbuf st a"
  shows "as = [h]" "lens st as \<le> 256"
proof -
  have "elems MEMP_PBUF_POOL = {(Pool MEMP_PBUF_POOL, 0)}" by (auto simp: elems_def)
  then have "set as \<subseteq> {(Pool MEMP_PBUF_POOL, 0)}" using assms(2) by (auto simp: pool_pbuf_def)
  moreover have "distinct as" using assms(1) links_distinct by (auto simp: chain_def)
  ultimately have "length as \<le> 1" using card_mono [of "{(Pool MEMP_PBUF_POOL, 0)}" "set as"] by (simp add: distinct_card)
  then show "as = [h]" using assms(1) by (auto simp: chain_def links_Some le_Suc_eq)
  then show "lens st as \<le> 256" using assms(2) by (simp add: pool_pbuf_def)
qed

end
