(* ===== verification/Lwip_Pbuf_Ops.thy ===== *)
theory Lwip_Pbuf_Ops
  imports Lwip_Pbuf_Chain
begin

unbundle bit_operations_syntax

text \<open>
  Properties of the operations on chains: allocation and release, the limit of the pool, concatenation, headers, shrinking.
\<close>

section \<open>A state to start from\<close>

definition net0 :: net_mem where
  "net0 = \<lparr>pbufs = \<lambda>_. \<lparr>pb_next = None, pb_payload = None, pb_tot_len = 0, pb_len = 0, pb_type_internal = 0, pb_flags = 0,
       pb_ref = 0, pb_if_idx = 0\<rparr>,
     customs = \<lambda>_. \<lparr>custom_free_function = None, pcr_original = None\<rparr>, data_bytes = \<lambda>_. 0,
     ram_heap = mem_init heap0, pools = memp_init \<lparr>memp_tab = \<lambda>_. None, memp_next = \<lambda>_. None\<rparr>\<rparr>"

lemma mem_ok_net0: "mem_ok net0 {}"
  by (simp add: mem_ok_def net0_def memp_init_ok heap_ok_init ram_ptrs_def)

section \<open>Allocation and release\<close>

text \<open>What a successful allocation gives: a chain of fresh pbufs with one reference each.\<close>

definition fresh_chain :: "net_mem \<Rightarrow> ptr set \<Rightarrow> ptr \<Rightarrow> ptr list \<Rightarrow> nat \<Rightarrow> bool" where
  "fresh_chain st L h as n \<longleftrightarrow> links (pnext st) (Some h) as \<and> tot_ok st as \<and> lens st as = n \<and> set as \<inter> L = {} \<and>
     mem_ok st (L \<union> set as) \<and> (\<forall>a \<in> set as. pb_ref (pbufs st a) = 1 \<and> owned (pbufs st a) a)"

lemma pbuf_alloc_reference_ok:
  assumes "mem_ok st L" "type = PBUF_ROM \<or> type = PBUF_REF"
  shows "(\<exists>st'. pbuf_alloc_reference pl len type st = Some (None, st') \<and> mem_ok st' L \<and> data_bytes st' = data_bytes st \<and>
      (\<forall>b \<in> L. pbufs st' b = pbufs st b)) \<or>
    (\<exists>a st'. pbuf_alloc_reference pl len type st = Some (Some a, st') \<and> fresh_chain st' L a [a] (unat len) \<and>
      pb_payload (pbufs st' a) = pl \<and> data_bytes st' = data_bytes st \<and> (\<forall>b \<in> L. pbufs st' b = pbufs st b))"
proof -
  obtain r s1 where r: "st_memp_malloc MEMP_PBUF st = Some (r, s1)" "same_data st s1"
    "case r of None \<Rightarrow> s1 = st | Some a \<Rightarrow> a \<in> elems MEMP_PBUF \<and> a \<notin> L \<and> mem_ok s1 (insert a L)"
    using st_memp_malloc_ok [OF assms(1), of MEMP_PBUF] by blast
  have t: "type = PBUF_REF \<or> type = PBUF_ROM" using assms(2) by blast
  show ?thesis
  proof (cases r)
    case None
    then show ?thesis using r assms(1) t by (simp add: pbuf_alloc_reference_def)
  next
    case (Some a)
    let ?st = "pbuf_init_alloced_pbuf a pl len len type 0 s1"
    have "owned (pbufs ?st a) a"
      using r(3) Some t by (auto simp: owned_def pbuf_get_allocsrc_def type_simps)
    then have "fresh_chain ?st L a [a] (unat len)" using r(3) Some by (simp add: fresh_chain_def)
    then show ?thesis using r Some t by (auto simp: pbuf_alloc_reference_def same_data_def)
  qed
qed

lemma pbuf_alloc_ok:
  assumes "mem_ok st L"
  obtains st' where "pbuf_alloc layer len type st = Some (None, st')" "mem_ok st' L" "data_bytes st' = data_bytes st"
      "\<forall>b \<in> L. pbufs st' b = pbufs st b"
    | h as st' where "pbuf_alloc layer len type st = Some (Some h, st')" "fresh_chain st' L h as (unat len)"
      "data_bytes st' = data_bytes st" "\<forall>b \<in> L. pbufs st' b = pbufs st b"
proof (cases type)
  case PBUF_RAM
  obtain r st' where r: "pbuf_alloc layer len PBUF_RAM st = Some (r, st')" "data_bytes st' = data_bytes st"
    "case r of None \<Rightarrow> st' = st
     | Some a \<Rightarrow> fst a = Ram \<and> a \<notin> L \<and> mem_ok st' (insert a L) \<and> owned (pbufs st' a) a \<and>
         pbufs st' = (pbufs st)(a := \<lparr>pb_next = None,
           pb_payload = Some (ptr_add a (int (SIZEOF_STRUCT_PBUF + LWIP_MEM_ALIGN_SIZE (layer_num layer)))),
           pb_tot_len = len, pb_len = len, pb_type_internal = 0x80, pb_flags = 0, pb_ref = 1, pb_if_idx = 0\<rparr>)"
    using pbuf_alloc_ram [OF assms, of layer len] by blast
  show thesis
  proof (cases r)
    case None
    show thesis by (rule that(1) [of st']) (use r None PBUF_RAM assms in auto)
  next
    case (Some a)
    have "fresh_chain st' L a [a] (unat len)" using r(3) Some by (auto simp: fresh_chain_def)
    then show thesis by (rule that(2) [rotated]) (use r Some PBUF_RAM in auto)
  qed
next
  case PBUF_POOL
  obtain r st' where r: "pbuf_alloc layer len PBUF_POOL st = Some (r, st')" "data_bytes st' = data_bytes st"
    "\<forall>b \<in> L. pbufs st' b = pbufs st b"
    "case r of None \<Rightarrow> mem_ok st' L
     | Some h \<Rightarrow> \<exists>as. chain st' (Some h) as \<and> (\<forall>a \<in> set as. pool_pbuf st' a) \<and> set as \<inter> L = {} \<and>
         mem_ok st' (L \<union> set as) \<and> lens st' as = unat len"
    using pbuf_alloc_pool [OF assms, of layer len] by blast
  show thesis
  proof (cases r)
    case None
    show thesis by (rule that(1) [of st']) (use r None PBUF_POOL in auto)
  next
    case (Some h)
    then obtain as where "chain st' (Some h) as" "\<forall>a \<in> set as. pool_pbuf st' a" "set as \<inter> L = {}"
      "mem_ok st' (L \<union> set as)" "lens st' as = unat len" using r(4) by auto
    then have "fresh_chain st' L h as (unat len)" by (simp add: fresh_chain_def chain_def pool_pbuf_def)
    then show thesis by (rule that(2) [rotated]) (use r Some PBUF_POOL in auto)
  qed
next
  case PBUF_ROM
  then have "pbuf_alloc layer len type st = pbuf_alloc_reference None len type st" by (simp add: pbuf_alloc_def)
  with pbuf_alloc_reference_ok [OF assms, of type None len] PBUF_ROM that show thesis by fastforce
next
  case PBUF_REF
  then have "pbuf_alloc layer len type st = pbuf_alloc_reference None len type st" by (simp add: pbuf_alloc_def)
  with pbuf_alloc_reference_ok [OF assms, of type None len] PBUF_REF that show thesis by fastforce
qed

lemma fresh_chain_free:
  assumes f: "fresh_chain st L h as n"
  obtains st' where "pbuf_free (Some h) st = Some (of_nat (length as), st')" "mem_ok st' L" "data_bytes st' = data_bytes st"
    "\<forall>b \<in> L. pbufs st' b = pbufs st b"
proof -
  have d: "dead st as = as" using f by (simp add: fresh_chain_def dead_def takeWhile_eq_all_conv)
  have "alive st as = []" using f by (simp add: fresh_chain_def alive_def)
  then have dr: "\<forall>b \<in> L. drop_refs st as b = pbufs st b" using f by (auto simp: drop_refs_def d fresh_chain_def)
  obtain st' where "pbuf_free_loop (Some h) 0 st = Some (of_nat (length as), st')" "mem_ok st' (L \<union> set as - set as)"
    "data_bytes st' = data_bytes st" "pbufs st' = drop_refs st as"
    using pbuf_free_loop_chain [of st "Some h" as "L \<union> set as" 0] f by (auto simp: fresh_chain_def d)
  moreover have "L \<union> set as - set as = L" using f by (auto simp: fresh_chain_def)
  ultimately show thesis using dr by (intro that [of st']) (auto simp: pbuf_free_def)
qed

lemma net0_alloc: "\<exists>h'. pbuf_alloc PBUF_RAW 100 PBUF_RAM net0 = Some (Some (Ram, 8),
    pbuf_init_alloced_pbuf (Ram, 8) (Some (Ram, 24)) 100 100 PBUF_RAM 0 (net0\<lparr>ram_heap := h'\<rparr>))"
proof -
  obtain h' where h': "mem_malloc 116 (mem_init heap0) = Some (Some 8, h')"
    using mem_malloc_fit [OF mem_init_inv, of 116] by (auto simp: mem_round_small cut_block_def)
  have "mem_size_cast 100 = 100" "mem_size_cast 116 = 116" by (simp_all add: mem_size_cast_def)
  then show ?thesis
    by (intro exI [of _ h']) (simp add: pbuf_alloc_def Let_def LWIP_MEM_ALIGN_SIZE_def SIZEOF_STRUCT_PBUF_def
      st_mem_malloc_def net0_def h' LWIP_MEM_ALIGN_def ptr_add_def)
qed

lemma net0_state:
  obtains st where "pbuf_alloc PBUF_RAW 100 PBUF_RAM net0 = Some (Some (Ram, 8), st)"
    "fresh_chain st {} (Ram, 8) [(Ram, 8)] 100" "data_bytes st = data_bytes net0"
    "pbufs st (Ram, 8) = \<lparr>pb_next = None, pb_payload = Some (Ram, 24), pb_tot_len = 100, pb_len = 100,
       pb_type_internal = 0x80, pb_flags = 0, pb_ref = 1, pb_if_idx = 0\<rparr>"
proof -
  obtain h' where a: "pbuf_alloc PBUF_RAW 100 PBUF_RAM net0 = Some (Some (Ram, 8),
    pbuf_init_alloced_pbuf (Ram, 8) (Some (Ram, 24)) 100 100 PBUF_RAM 0 (net0\<lparr>ram_heap := h'\<rparr>))" (is "_ = Some (_, ?st)")
    using net0_alloc by blast
  from pbuf_alloc_ok [OF mem_ok_net0, of PBUF_RAW 100 PBUF_RAM] a obtain as
    where as: "fresh_chain ?st {} (Ram, 8) as (unat (100 :: u16))" by force
  then have "links (pnext ?st) (Some (Ram, 8)) as" unfolding fresh_chain_def by (elim conjE)
  then have "as = [(Ram, 8)]" by (auto simp: links_Some)
  then show thesis using a as by (intro that [of ?st]) simp_all
qed

text \<open>A state with two separate pbufs of three and two bytes, for examples.\<close>

definition net2 :: net_mem where
  "net2 = net0\<lparr>pbufs := \<lambda>a. if a = (Ram, 8)
     then \<lparr>pb_next = None, pb_payload = Some (Ram, 24), pb_tot_len = 3, pb_len = 3, pb_type_internal = 0x80, pb_flags = 0,
       pb_ref = 1, pb_if_idx = 0\<rparr>
     else \<lparr>pb_next = None, pb_payload = Some (Ram, 56), pb_tot_len = 2, pb_len = 2, pb_type_internal = 0x82, pb_flags = 0,
       pb_ref = 1, pb_if_idx = 0\<rparr>,
     data_bytes := \<lambda>a. word_of_int (snd a)\<rparr>"

lemma chain_net2: "chain net2 (Some (Ram, 8)) [(Ram, 8)]" "chain net2 (Some (Ram, 40)) [(Ram, 40)]"
  by (simp_all add: chain_def net2_def)

section \<open>Properties\<close>

text \<open>C32. Allocation returns for every type, layer and length.  It yields \<^verbatim>\<open>NULL\<close> and leaves all memory in use as
  it was, or a well-formed chain of new blocks with the requested total length and one reference each, other pbufs and
  all bytes untouched; releasing the chain at once gives back exactly those blocks.\<close>

theorem pbuf_alloc_free:
  assumes "mem_ok st L"
  shows "\<exists>r st'. pbuf_alloc layer len type st = Some (r, st') \<and> data_bytes st' = data_bytes st \<and>
    (\<forall>b \<in> L. pbufs st' b = pbufs st b) \<and>
    (case r of None \<Rightarrow> mem_ok st' L
     | Some h \<Rightarrow> \<exists>as st''. fresh_chain st' L h as (unat len) \<and>
         pbuf_free (Some h) st' = Some (of_nat (length as), st'') \<and> mem_ok st'' L \<and> (\<forall>b \<in> L. pbufs st'' b = pbufs st b))"
proof (rule pbuf_alloc_ok [OF assms, of layer len type], goal_cases)
  case (1 st')
  then show ?case by auto
next
  case (2 h as st')
  from fresh_chain_free [OF 2(2)] obtain st'' where "pbuf_free (Some h) st' = Some (of_nat (length as), st'')"
    "mem_ok st'' L" "\<forall>b \<in> L. pbufs st'' b = pbufs st' b" by blast
  then show ?case using 2 by auto
qed

theorem pbuf_alloc_free_witness:
  "\<exists>h st as st''. pbuf_alloc PBUF_RAW 100 PBUF_RAM net0 = Some (Some h, st) \<and> lens st as = 100 \<and>
    pbuf_free (Some h) st = Some (of_nat (length as), st'') \<and> mem_ok st'' {}"
proof -
  obtain r st' where r: "pbuf_alloc PBUF_RAW 100 PBUF_RAM net0 = Some (r, st')"
    "case r of None \<Rightarrow> mem_ok st' {}
     | Some h \<Rightarrow> \<exists>as st''. fresh_chain st' {} h as (unat (100 :: u16)) \<and>
         pbuf_free (Some h) st' = Some (of_nat (length as), st'') \<and> mem_ok st'' {} \<and> (\<forall>b \<in> {}. pbufs st'' b = pbufs net0 b)"
    using pbuf_alloc_free [OF mem_ok_net0, of PBUF_RAW 100 PBUF_RAM] by blast
  then have "r = Some (Ram, 8)" using net0_alloc by auto
  with r show ?thesis by (auto simp: fresh_chain_def)
qed

text \<open>C33. A frame of more than 256 bytes never gets a chain of pool buffers, though the interface accepts 1500 bytes:
  the pool holds one buffer of that size.  The buffer taken on the way is given back.\<close>

theorem pool_refuses_long_frames:
  assumes "mem_ok st L" "unat len > 256"
  shows "\<exists>st'. pbuf_alloc layer len PBUF_POOL st = Some (None, st') \<and> mem_ok st' L"
proof -
  obtain r st' where r: "pbuf_alloc layer len PBUF_POOL st = Some (r, st')"
    "case r of None \<Rightarrow> mem_ok st' L
     | Some h \<Rightarrow> \<exists>as. chain st' (Some h) as \<and> (\<forall>a \<in> set as. pool_pbuf st' a) \<and> set as \<inter> L = {} \<and>
         mem_ok st' (L \<union> set as) \<and> lens st' as = unat len"
    using pbuf_alloc_pool [OF assms(1), of layer len] by blast
  have "r = None"
  proof (cases r)
    case (Some h)
    then obtain as where "chain st' (Some h) as" "\<forall>a \<in> set as. pool_pbuf st' a" "lens st' as = unat len" using r(2) by auto
    then show ?thesis using pool_limit(2) assms(2) by fastforce
  qed simp
  then show ?thesis using r by auto
qed

theorem pool_refuses_long_frames_witness:
  "\<exists>st'. pbuf_alloc PBUF_RAW 257 PBUF_POOL net0 = Some (None, st') \<and> mem_ok st' {}"
  by (rule pool_refuses_long_frames [OF mem_ok_net0]) simp

text \<open>C34. Releasing a chain frees exactly the pbufs in front that have no other owner, takes one reference from the next
  one and touches nothing else; the result is the number of pbufs freed.\<close>

theorem pbuf_free_releases:
  assumes "links (pnext st) (Some h) as" "mem_ok st L" "\<forall>a \<in> set as. pb_ref (pbufs st a) > 0"
    "\<forall>a \<in> set (dead st as). owned (pbufs st a) a \<and> a \<in> L"
  shows "\<exists>st'. pbuf_free (Some h) st = Some (of_nat (length (dead st as)), st') \<and> mem_ok st' (L - set (dead st as)) \<and>
    data_bytes st' = data_bytes st \<and> pbufs st' = drop_refs st as"
  using pbuf_free_loop_chain [OF assms, of 0] by (auto simp: pbuf_free_def)

theorem pbuf_free_releases_witness:
  "\<exists>st st' st''. pbuf_alloc PBUF_RAW 100 PBUF_RAM net0 = Some (Some (Ram, 8), st) \<and> pbuf_ref (Some (Ram, 8)) st = Some st' \<and>
    pbuf_free (Some (Ram, 8)) st' = Some (0, st'') \<and> pb_ref (pbufs st'' (Ram, 8)) = 1 \<and> mem_ok st'' {(Ram, 8)}"
proof -
  let ?a = "(Ram, 8) :: ptr"
  obtain st where st: "pbuf_alloc PBUF_RAW 100 PBUF_RAM net0 = Some (Some ?a, st)" "fresh_chain st {} ?a [?a] 100"
    "pb_ref (pbufs st ?a) = 1" "pb_next (pbufs st ?a) = None" by (rule net0_state) simp
  let ?st = "upd_pbuf ?a (\<lambda>b. b\<lparr>pb_ref := pb_ref b + 1\<rparr>) st"
  have "mem_ok ?st {?a}" using st(2) by (simp add: fresh_chain_def)
  moreover have "dead ?st [?a] = []" "alive ?st [?a] = [?a]" using st(3) by (simp_all add: dead_def alive_def)
  ultimately obtain st'' where "pbuf_free (Some ?a) ?st = Some (0, st'')" "mem_ok st'' {?a}" "pbufs st'' = drop_refs ?st [?a]"
    using pbuf_free_releases [of ?st ?a "[?a]" "{?a}"] st(3,4) by auto
  moreover have "pbuf_ref (Some ?a) st = Some ?st" using st(3) by (simp add: pbuf_ref_def Let_def)
  ultimately show ?thesis using st \<open>alive ?st [?a] = [?a]\<close> \<open>dead ?st [?a] = []\<close>
    by (intro exI [of _ st] exI [of _ ?st] exI [of _ st'']) (simp add: drop_refs_def)
qed

section \<open>Concatenation\<close>

lemma links_join:
  "links nx p as \<Longrightarrow> as \<noteq> [] \<Longrightarrow> links nx q bs \<Longrightarrow> set as \<inter> set bs = {} \<Longrightarrow> links (nx(last as := q)) p (as @ bs)"
proof (induction as arbitrary: p)
  case (Cons a as)
  have a: "a \<notin> set as" using links_distinct [OF Cons.prems(1)] by simp
  show ?case
  proof (cases "as = []")
    case True
    have "links (nx(a := q)) q bs" using Cons.prems by (subst links_cong [of bs "nx(a := q)" nx]) auto
    then show ?thesis using True Cons.prems(1) by (simp del: fun_upd_apply add: fun_upd_same)
  next
    case False
    then have "a \<noteq> last as" using a by auto
    then show ?thesis using Cons.prems Cons.IH [of "nx a"] False by auto
  qed
qed simp

lemma cat_walk_chain:
  assumes "links (pnext st) (Some h) as" "t \<notin> set as"
  shows "cat_walk h t st = Some (last as, st\<lparr>pbufs := (\<lambda>a. if a \<in> set (butlast as)
    then (pbufs st a)\<lparr>pb_tot_len := pb_tot_len (pbufs st a) + pb_tot_len (pbufs st t)\<rparr> else pbufs st a)\<rparr>)"
  using assms
proof (induction as arbitrary: h st)
  case (Cons a as)
  have a: "a = h" "a \<notin> set as" using Cons.prems(1) links_distinct [OF Cons.prems(1)] by auto
  show ?case
  proof (cases as)
    case Nil
    then show ?thesis using Cons.prems(1) a by (subst cat_walk.simps) simp
  next
    case (Cons b bs)
    let ?s = "upd_pbuf h (\<lambda>x. x\<lparr>pb_tot_len := pb_tot_len x + pb_tot_len (pbufs st t)\<rparr>) st"
    have nb: "pb_next (pbufs st h) = Some b" using Cons.prems(1) Cons a by simp
    have "links (pnext ?s) (Some b) as"
      using Cons.prems(1) Cons a by (subst links_cong [of as "pnext ?s" "pnext st"]) auto
    with Cons.IH [of ?s b] Cons.prems(2)
    have ih: "cat_walk b t ?s = Some (last as, ?s\<lparr>pbufs := (\<lambda>x. if x \<in> set (butlast as)
      then (pbufs ?s x)\<lparr>pb_tot_len := pb_tot_len (pbufs ?s x) + pb_tot_len (pbufs ?s t)\<rparr> else pbufs ?s x)\<rparr>)" by simp
    have "(\<lambda>x. if x \<in> set (butlast as) then (pbufs ?s x)\<lparr>pb_tot_len := pb_tot_len (pbufs ?s x) + pb_tot_len (pbufs ?s t)\<rparr>
          else pbufs ?s x) = (\<lambda>x. if x \<in> set (butlast (a # as))
          then (pbufs st x)\<lparr>pb_tot_len := pb_tot_len (pbufs st x) + pb_tot_len (pbufs st t)\<rparr> else pbufs st x)"
      using a Cons.prems(2) Cons by (auto simp: fun_eq_iff dest: in_set_butlastD)
    with ih have "cat_walk b t ?s = Some (last (a # as), st\<lparr>pbufs := \<lambda>x. if x \<in> set (butlast (a # as))
      then (pbufs st x)\<lparr>pb_tot_len := pb_tot_len (pbufs st x) + pb_tot_len (pbufs st t)\<rparr> else pbufs st x\<rparr>)"
      using Cons by (simp add: upd_pbuf_def)
    then show ?thesis using nb by (subst cat_walk.simps) simp
  qed
qed simp

text \<open>C35. Concatenation: when the lengths fit in 16 bits, the pbufs of the tail follow those of the head in one
  well-formed chain whose content is that of the head followed by that of the tail; references and memory are
  unchanged.\<close>

theorem pbuf_cat_content:
  assumes h: "chain st (Some h) as" and t: "chain st (Some t) bs" and disj: "set as \<inter> set bs = {}"
    and fit: "lens st as + lens st bs < 65536"
  shows "\<exists>st'. pbuf_cat (Some h) (Some t) st = Some st' \<and> chain st' (Some h) (as @ bs) \<and>
    content st' (as @ bs) = content st as @ content st bs \<and> (\<forall>a. pb_ref (pbufs st' a) = pb_ref (pbufs st a)) \<and>
    (\<forall>L. mem_ok st' L = mem_ok st L)"
proof -
  obtain as' bs' where as: "as = h # as'" and bs: "bs = t # bs'"
    using h t by (auto simp: chain_Some)
  have la: "links (pnext st) (Some h) as" "links (pnext st) (Some t) bs" using h t by (simp_all add: chain_def)
  have tn: "t \<notin> set as" using disj bs by auto
  define T where "T = pb_tot_len (pbufs st t)"
  have T: "unat T = lens st bs" using t bs by (simp add: chain_def T_def)
  let ?l = "last as"
  have lin: "?l \<in> set as" using as by simp
  define st' where "st' = st\<lparr>pbufs := \<lambda>a. if a \<in> set as
    then (pbufs st a)\<lparr>pb_tot_len := pb_tot_len (pbufs st a) + T, pb_next := (if a = ?l then Some t else pb_next (pbufs st a))\<rparr>
    else pbufs st a\<rparr>"
  have sp: "as = butlast as @ [?l]" using as by simp
  have dl: "?l \<notin> set (butlast as)" using links_distinct [OF la(1)] sp by (metis distinct_append disjoint_iff list.set_intros(1))
  have "links (pnext st) (Some ?l) [?l]" using links_append [of "pnext st" "Some h" "butlast as" ?l "[]"] la(1) sp by simp
  then have nl: "pb_next (pbufs st ?l) = None" by simp
  have "tot_ok st (butlast as @ [?l])" using h sp by (simp add: chain_def)
  then have tl: "pb_tot_len (pbufs st ?l) = pb_len (pbufs st ?l)"
    using tot_ok_append [of st "butlast as" "[?l]"] by (simp add: word_unat_eq_iff)
  have mem: "a \<in> set as \<longleftrightarrow> a = ?l \<or> a \<in> set (butlast as)" for a
    by (subst sp) auto
  have st'_eq: "upd_pbuf ?l (\<lambda>b. b\<lparr>pb_next := Some t\<rparr>) (upd_pbuf ?l (\<lambda>b. b\<lparr>pb_tot_len := pb_tot_len b + T\<rparr>)
      (st\<lparr>pbufs := (\<lambda>a. if a \<in> set (butlast as) then (pbufs st a)\<lparr>pb_tot_len := pb_tot_len (pbufs st a) + T\<rparr> else pbufs st a)\<rparr>)) = st'"
    using dl by (auto simp: st'_def upd_pbuf_def fun_eq_iff mem)
  have "t \<notin> set (butlast as)" "h \<noteq> t" "?l \<noteq> t" using tn lin as by (auto dest: in_set_butlastD)
  then have run: "pbuf_cat (Some h) (Some t) st = Some st'"
    using cat_walk_chain [OF la(1) tn, folded T_def] st'_eq dl nl tl by (simp add: pbuf_cat_def T_def [symmetric])
  have lk: "links (pnext st') (Some h) (as @ bs)"
  proof -
    have "links ((pnext st)(?l := Some t)) (Some h) (as @ bs)" using links_join [OF la(1) _ la(2) disj] as by simp
    moreover have "(pnext st)(?l := Some t) = pnext st'" using lin by (auto simp: st'_def fun_eq_iff)
    ultimately show ?thesis by simp
  qed
  have tot: "tot_ok st' (xs @ bs)" if "set xs \<subseteq> set as" "tot_ok st xs" "lens st xs \<le> lens st as" for xs
    using that
  proof (induction xs)
    case Nil
    have "tot_ok st bs" using t by (simp add: chain_def)
    moreover have "pbufs st' a = pbufs st a" if "a \<in> set bs" for a using that disj by (auto simp: st'_def)
    then have "tot_ok st' bs = tot_ok st bs \<and> lens st' bs = lens st bs" by (intro tot_ok_cong) simp
    ultimately show ?case by simp
  next
    case (Cons x xs)
    have ln: "lens st' ys = lens st ys" for ys by (induction ys) (auto simp: st'_def)
    have "unat (pb_tot_len (pbufs st x) + T) = unat (pb_tot_len (pbufs st x)) + unat T"
      using Cons.prems(2,3) T fit by (intro unat_add_lem [THEN iffD1]) simp
    then show ?case using Cons T by (simp add: ln) (simp add: st'_def)
  qed
  have "tot_ok st' (as @ bs)" using tot [of as] h by (simp add: chain_def)
  moreover have "\<forall>a \<in> set (as @ bs). pb_payload (pbufs st' a) \<noteq> None" using h t by (auto simp: chain_def st'_def)
  ultimately have "chain st' (Some h) (as @ bs)" using lk by (simp add: chain_def)
  moreover have "content st' xs = content st xs" for xs
    by (induction xs) (auto simp: chunk_def st'_def)
  moreover have "pb_ref (pbufs st' a) = pb_ref (pbufs st a)" "mem_ok st' L = mem_ok st L" for a L by (auto simp: st'_def mem_ok_def)
  ultimately show ?thesis using run by (intro exI [of _ st']) auto
qed

theorem pbuf_cat_content_witness:
  "\<exists>st. pbuf_cat (Some (Ram, 8)) (Some (Ram, 40)) net2 = Some st \<and>
    content st [(Ram, 8), (Ram, 40)] = [24, 25, 26, 56, 57]"
proof -
  obtain st where "pbuf_cat (Some (Ram, 8)) (Some (Ram, 40)) net2 = Some st"
    "content st ([(Ram, 8)] @ [(Ram, 40)]) = content net2 [(Ram, 8)] @ content net2 [(Ram, 40)]"
    using pbuf_cat_content [OF chain_net2] by (auto simp: net2_def)
  moreover have "content net2 [(Ram, 8)] = [24, 25, 26]" "content net2 [(Ram, 40)] = [56, 57]" by code_simp+
  ultimately show ?thesis by (auto simp del: content_simps(3))
qed

section \<open>Headers\<close>

lemma payload_same: "pb_payload b = Some pl \<Longrightarrow> b\<lparr>pb_payload := Some pl\<rparr> = b"
  by (cases b) simp

text \<open>C36. Taking a header of at most the first pbuf's length off a chain drops that many bytes of its content; when struct
  and data are in one block, putting it back restores the state.  A longer header is refused.\<close>

theorem header_remove_add:
  assumes c: "chain st (Some a) (a # as)"
    and r: "ucast (pb_type_internal (pbufs st a)) AND PBUF_TYPE_FLAG_STRUCT_DATA_CONTIGUOUS \<noteq> 0"
      "fst (the (pb_payload (pbufs st a))) = fst a" "snd a + int SIZEOF_STRUCT_PBUF \<le> snd (the (pb_payload (pbufs st a)))"
  shows "if n \<le> plen st a
    then \<exists>st'. pbuf_remove_header (Some a) n st = Some (False, st') \<and> chain st' (Some a) (a # as) \<and>
      content st' (a # as) = drop n (content st (a # as)) \<and> pbuf_add_header (Some a) n st' = Some (False, st)
    else pbuf_remove_header (Some a) n st = Some (True, st)"
proof (cases "n \<le> plen st a")
  case False
  moreover have "n \<le> 65535 \<Longrightarrow> unat (of_nat n :: u16) = n" by (simp add: unat_of_nat)
  ultimately show ?thesis by (auto simp: pbuf_remove_header_def Let_def word_le_nat_alt)
next
  case True
  obtain pl where pl: "pb_payload (pbufs st a) = Some pl" using c by (auto simp: chain_Some)
  have lt: "plen st a < 65536" using unsigned_less [of "pb_len (pbufs st a)"] by simp
  have n: "unat (of_nat n :: u16) = n" "n \<le> 65535" using True lt by (simp_all add: unat_of_nat)
  have tot: "unat (pb_tot_len (pbufs st a)) = plen st a + lens st as" and a: "a \<notin> set as"
    using c links_distinct [of "pnext st" "Some a" "a # as"] by (auto simp: chain_def)
  let ?n = "of_nat n :: u16"
  let ?st = "upd_pbuf a (\<lambda>b. b\<lparr>pb_payload := Some (ptr_add pl (int n)), pb_len := pb_len b - ?n,
    pb_tot_len := pb_tot_len b - ?n\<rparr>) st"
  have le: "?n \<le> pb_len (pbufs st a)" "?n \<le> pb_tot_len (pbufs st a)" using True tot n by (simp_all add: word_le_nat_alt)
  have pl0: "ptr_add pl 0 = pl" "ptr_add (ptr_add pl (int n)) (- int n) = pl" by (simp_all add: ptr_add_def)
  have "n = 0 \<Longrightarrow> ?st = st" by (simp add: upd_pbuf_def payload_same pl pl0)
  then have rem: "pbuf_remove_header (Some a) n st = Some (False, ?st)"
    using le n pl by (auto simp: pbuf_remove_header_def Let_def)
  have len: "unat (pb_len (pbufs st a) - ?n) = plen st a - n" "unat (pb_tot_len (pbufs st a) - ?n) = plen st a + lens st as - n"
    using le n tot by (simp_all add: unat_sub)
  have eq: "pbufs ?st b = pbufs st b" if "b \<in> set as" for b using that a by auto
  have ch: "chain ?st (pb_next (pbufs st a)) as" using c eq by (subst chain_cong [of as ?st st]) (auto simp: chain_Some)
  have ls: "lens ?st as = lens st as" using a by (induction as) auto
  have "chain ?st (Some a) (a # as)" using ch ls len True by (simp add: chain_Some)
  moreover have "chunk ?st a = drop n (chunk st a)"
    by (rule nth_equalityI) (simp_all add: chunk_def len pl algebra_simps)
  moreover have "content ?st as = content st as" using eq by (simp add: content_def chunk_def cong: map_cong)
  then have "content ?st (a # as) = drop n (content st (a # as))" using True calculation(2) by simp
  moreover have "pbuf_add_header (Some a) n ?st = Some (False, st)"
  proof -
    have undo: "upd_pbuf a (\<lambda>b. b\<lparr>pb_payload := Some pl, pb_len := pb_len b + ?n, pb_tot_len := pb_tot_len b + ?n\<rparr>) ?st = st"
      by (simp add: upd_pbuf_def pl payload_same)
    have "\<not> ?n + (pb_tot_len (pbufs st a) - ?n) < ?n" using le(2) by (simp add: not_less)
    then show ?thesis using n r pl undo \<open>n = 0 \<Longrightarrow> ?st = st\<close>
      by (cases "n = 0") (simp_all add: pbuf_add_header_def pbuf_add_header_impl_def Let_def pl0)
  qed
  ultimately show ?thesis using True rem by auto
qed

theorem header_remove_add_witness:
  "\<exists>st. pbuf_remove_header (Some (Ram, 8)) 2 net2 = Some (False, st) \<and> content st [(Ram, 8)] = [26] \<and>
    pbuf_add_header (Some (Ram, 8)) 2 st = Some (False, net2) \<and> pbuf_remove_header (Some (Ram, 8)) 4 net2 = Some (True, net2)"
proof -
  let ?a = "(Ram, 8) :: ptr"
  have r: "ucast (pb_type_internal (pbufs net2 ?a)) AND PBUF_TYPE_FLAG_STRUCT_DATA_CONTIGUOUS \<noteq> 0"
    "fst (the (pb_payload (pbufs net2 ?a))) = fst ?a" "snd ?a + int SIZEOF_STRUCT_PBUF \<le> snd (the (pb_payload (pbufs net2 ?a)))"
    by (simp_all add: net2_def type_simps SIZEOF_STRUCT_PBUF_def LWIP_MEM_ALIGN_SIZE_def)
  have "content net2 [?a] = [24, 25, 26]" by code_simp
  moreover have "plen net2 ?a = 3" by (simp add: net2_def)
  ultimately show ?thesis
    using header_remove_add [OF chain_net2(1) r, of 2] header_remove_add [OF chain_net2(1) r, of 4] by auto
qed

section \<open>Shrinking\<close>

lemma realloc_walk_chain:
  assumes "links (pnext st) (Some h) as" "unat new \<le> lens st as"
  shows "\<exists>xs q ys r. as = xs @ q # ys \<and> unat new = lens st xs + unat r \<and> unat r \<le> plen st q \<and>
    realloc_walk h new shrink st = Some (q, r, st\<lparr>pbufs := (\<lambda>a. if a \<in> set xs
      then (pbufs st a)\<lparr>pb_tot_len := pb_tot_len (pbufs st a) - shrink\<rparr> else pbufs st a)\<rparr>)"
  using assms
proof (induction as arbitrary: h st new)
  case (Cons a as)
  have a: "a = h" "a \<notin> set as" "links (pnext st) (pb_next (pbufs st h)) as"
    using Cons.prems(1) links_distinct [OF Cons.prems(1)] by auto
  show ?case
  proof (cases "new > pb_len (pbufs st h)")
    case False
    then have "realloc_walk h new shrink st = Some (h, new, st)" by (subst realloc_walk.simps) simp
    then show ?thesis using a False
      by (intro exI [of _ "[]"] exI [of _ h] exI [of _ as] exI [of _ new]) (simp add: word_le_nat_alt not_less)
  next
    case True
    let ?s = "upd_pbuf h (\<lambda>b. b\<lparr>pb_tot_len := pb_tot_len b - shrink\<rparr>) st"
    let ?new = "new - pb_len (pbufs st h)"
    have new: "unat ?new = unat new - plen st h" "plen st h < unat new" using True by (simp_all add: unat_sub word_less_nat_alt word_le_nat_alt)
    then have "as \<noteq> []" using Cons.prems(2) a(1) by auto
    then obtain b bs where b: "as = b # bs" "pb_next (pbufs st h) = Some b" using a(3) by (cases as) auto
    have ls: "lens ?s zs = lens st zs" for zs by (induction zs) auto
    have lk: "links (pnext ?s) (Some b) as" using a b(2) by (subst links_cong [of as "pnext ?s" "pnext st"]) auto
    have "unat ?new \<le> lens ?s as" unfolding ls using new Cons.prems(2) a(1) by simp
    from Cons.IH [OF lk this] obtain xs q ys r where ih: "as = xs @ q # ys" "unat ?new = lens ?s xs + unat r"
      "unat r \<le> plen ?s q" "realloc_walk b ?new shrink ?s = Some (q, r, ?s\<lparr>pbufs := (\<lambda>a. if a \<in> set xs
        then (pbufs ?s a)\<lparr>pb_tot_len := pb_tot_len (pbufs ?s a) - shrink\<rparr> else pbufs ?s a)\<rparr>)" by blast
    have q: "q \<noteq> h" "h \<notin> set xs" using ih(1) a by auto
    have fe: "(\<lambda>a. if a \<in> set xs then (pbufs ?s a)\<lparr>pb_tot_len := pb_tot_len (pbufs ?s a) - shrink\<rparr> else pbufs ?s a) =
      (\<lambda>a. if a \<in> set (h # xs) then (pbufs st a)\<lparr>pb_tot_len := pb_tot_len (pbufs st a) - shrink\<rparr> else pbufs st a)"
      using q by (auto simp: fun_eq_iff)
    have "realloc_walk h new shrink st = Some (q, r, st\<lparr>pbufs := (\<lambda>a. if a \<in> set (h # xs)
        then (pbufs st a)\<lparr>pb_tot_len := pb_tot_len (pbufs st a) - shrink\<rparr> else pbufs st a)\<rparr>)"
      using ih(4) fe True b(2) by (subst realloc_walk.simps) (simp add: Let_def upd_pbuf_def)
    moreover have "unat new = lens st (h # xs) + unat r" using ih(2) new unfolding ls by simp
    ultimately show ?thesis using ih(1,3) a(1) q(1)
      by (intro exI [of _ "h # xs"] exI [of _ q] exI [of _ ys] exI [of _ r]) simp
  qed
qed simp

lemma tot_part: "tot_ok st (xs @ zs) \<Longrightarrow> part_ok st xs (lens st zs)"
  by (induction xs) auto

lemma part_ok_shrink:
  assumes "\<And>a. a \<in> set xs \<Longrightarrow> pb_len (pbufs st' a) = pb_len (pbufs st a) \<and> pb_tot_len (pbufs st' a) = pb_tot_len (pbufs st a) - d"
    "part_ok st xs R" "unat d = R - r" "r \<le> R"
  shows "part_ok st' xs r \<and> lens st' xs = lens st xs"
  using assms
proof (induction xs)
  case (Cons a xs)
  have "d \<le> pb_tot_len (pbufs st a)" using Cons.prems(2-4) by (simp add: word_le_nat_alt)
  then show ?case using Cons by (simp add: unat_sub)
qed simp

lemma links_cut: "links nx p (xs @ q # ys) \<Longrightarrow> links (nx(q := None)) p (xs @ [q])"
proof (induction xs arbitrary: p)
  case (Cons a xs)
  then have "a \<noteq> q" using links_distinct [of nx p "(a # xs) @ q # ys"] by auto
  then show ?case using Cons by auto
qed simp

text \<open>The chain that is left, whatever became of the rest.\<close>

lemma realloc_chain:
  assumes c: "chain st (Some h) (xs @ q # ys)" and new: "unat new = lens st xs + unat r" "unat r \<le> plen st q"
    and st': "\<And>a. a \<in> set xs \<Longrightarrow> pbufs st' a = (pbufs st a)\<lparr>pb_tot_len := pb_tot_len (pbufs st a) - (pb_tot_len (pbufs st h) - new)\<rparr>"
      "pbufs st' q = (pbufs st q)\<lparr>pb_len := r, pb_tot_len := r, pb_next := None\<rparr>" "data_bytes st' = data_bytes st"
  shows "chain st' (Some h) (xs @ [q])" "content st' (xs @ [q]) = take (unat new) (content st (xs @ q # ys))"
proof -
  have t: "tot_ok st (xs @ q # ys)" "links (pnext st) (Some h) (xs @ q # ys)" using c by (simp_all add: chain_def)
  have q: "q \<notin> set xs" using links_distinct [OF t(2)] by auto
  have "unat (pb_tot_len (pbufs st h)) = lens st (xs @ q # ys)" using t by (cases xs) auto
  moreover from this have "new \<le> pb_tot_len (pbufs st h)" using new by (simp add: word_le_nat_alt)
  ultimately have d: "unat (pb_tot_len (pbufs st h) - new) = (plen st q + lens st ys) - unat r" using new by (simp add: unat_sub)
  have "part_ok st xs (plen st q + lens st ys)" using tot_part [OF t(1)] by simp
  from part_ok_shrink [of xs st' st, OF _ this d] have p: "part_ok st' xs (unat r)" "lens st' xs = lens st xs"
    using st'(1) new(2) by auto
  have tot: "tot_ok st' (xs @ [q])" using p(1) st'(2) by (simp add: part_ok_0 [symmetric] part_ok_snoc)
  have "links (pnext st') (Some h) (xs @ [q])"
    using links_cut [OF t(2)] st' q by (subst links_cong [of "xs @ [q]" "pnext st'" "(pnext st)(q := None)"]) auto
  moreover have "\<forall>a \<in> set (xs @ [q]). pb_payload (pbufs st' a) \<noteq> None" using c st' by (auto simp: chain_def)
  ultimately show "chain st' (Some h) (xs @ [q])" using tot by (simp add: chain_def)
  have "content st' xs = content st xs" using st' by (simp add: content_def chunk_def cong: map_cong)
  moreover have "chunk st' q = take (unat r) (chunk st q)"
    using new(2) st' by (intro nth_equalityI) (simp_all add: chunk_def)
  ultimately show "content st' (xs @ [q]) = take (unat new) (content st (xs @ q # ys))" using new by simp
qed

lemma st_mem_trim_ok:
  assumes "mem_ok st L" "q \<in> L" "st_mem_trim q n st = Some (Some q', st')"
  shows "same_data st st' \<and> mem_ok st' L"
proof -
  obtain i where q: "q = (Ram, i)" using assms(3) by (cases q) (auto simp: st_mem_trim_def split: if_splits)
  obtain r h' where t: "mem_trim i n (ram_heap st) = Some (r, h')" "st' = st\<lparr>ram_heap := h'\<rparr>" "map_option (Pair Ram) r = Some q'"
    using assms(3) by (auto simp: st_mem_trim_def q bind_eq_Some_conv)
  have "heap_ok h' (ram_ptrs L)" using heap_ok_trim [OF _ _ t(1), of "ram_ptrs L"] assms(1,2) t(3) by (auto simp: mem_ok_def q)
  then show ?thesis using assms(1) t(2) by (simp add: same_data_def mem_ok_def)
qed

lemma trim_last_ok:
  assumes "mem_ok st L" "q \<in> L"
  shows "trim_last q n st = Some st' \<Longrightarrow> same_data st st' \<and> mem_ok st' L"
    and "owned (pbufs st q) q \<Longrightarrow> fst q \<noteq> Ram \<Longrightarrow> trim_last q n st \<noteq> None"
proof -
  show "trim_last q n st = Some st' \<Longrightarrow> same_data st st' \<and> mem_ok st' L"
    using assms st_mem_trim_ok [OF assms]
    by (auto simp: trim_last_def bind_eq_Some_conv same_data_def split: if_splits option.splits)
  show "owned (pbufs st q) q \<Longrightarrow> fst q \<noteq> Ram \<Longrightarrow> trim_last q n st \<noteq> None"
    by (auto simp: trim_last_def owned_def pbuf_match_allocsrc_def type_simps)
qed

lemma free_rest_ok:
  assumes "links (pnext st) (pb_next (pbufs st q)) ys" "mem_ok st L"
    "\<forall>a \<in> set ys. pb_ref (pbufs st a) > 0 \<and> owned (pbufs st a) a \<and> a \<in> L"
  shows "\<exists>st'. free_rest q st = Some st' \<and> mem_ok st' (L - set (dead st ys)) \<and> data_bytes st' = data_bytes st \<and>
    pbufs st' = drop_refs st ys"
proof -
  have "\<forall>a \<in> set (dead st ys). owned (pbufs st a) a \<and> a \<in> L" using assms(3) by (auto simp: dead_def dest: set_takeWhileD)
  from pbuf_free_loop_chain [OF assms(1,2) _ this, of 0] assms(3) obtain st' where
    "pbuf_free_loop (pb_next (pbufs st q)) 0 st = Some (of_nat (length (dead st ys)), st')" "mem_ok st' (L - set (dead st ys))"
    "data_bytes st' = data_bytes st" "pbufs st' = drop_refs st ys" by auto
  then show ?thesis by (cases "pb_next (pbufs st q)") (auto simp: free_rest_def pbuf_free_def)
qed

lemma pbuf_realloc_steps:
  "new < pb_tot_len (pbufs st h) \<Longrightarrow> pbuf_realloc (Some h) new st =
    do { (q, rem_len, st) \<leftarrow> realloc_walk h new (pb_tot_len (pbufs st h) - new) st;
         st \<leftarrow> trim_last q rem_len st;
         st \<leftarrow> free_rest q (upd_pbuf q (\<lambda>b. b\<lparr>pb_tot_len := pb_len b\<rparr>) (upd_pbuf q (\<lambda>b. b\<lparr>pb_len := rem_len\<rparr>) st));
         Some (upd_pbuf q (\<lambda>b. b\<lparr>pb_next := None\<rparr>) st) }"
  by (auto simp: pbuf_realloc_def Let_def dest: leD)

lemma net0_pool: "\<exists>h st. pbuf_alloc PBUF_RAW 100 PBUF_POOL net0 = Some (Some h, st)"
proof -
  have "map_option fst (memp_malloc MEMP_PBUF_POOL (pools net0)) = Some (Some (Pool MEMP_PBUF_POOL, 0))" by code_simp
  then obtain s where "st_memp_malloc MEMP_PBUF_POOL net0 = Some (Some (Pool MEMP_PBUF_POOL, 0), s)"
    by (auto simp: st_memp_malloc_def)
  then show ?thesis
    by (simp add: pbuf_alloc_def) (subst pool_loop.simps, simp add: Let_def LWIP_MEM_ALIGN_def ptr_add_def
      SIZEOF_STRUCT_PBUF_def LWIP_MEM_ALIGN_SIZE_def PBUF_POOL_BUFSIZE_ALIGNED_def)
qed

text \<open>C37. Shrinking a chain keeps the first bytes of its content in a well-formed chain and releases the pbufs behind,
  as far as they have no other owner.  It returns unless the last pbuf kept is a heap block, which may fail the assertion
  in \<open>mem_trim\<close>.\<close>

theorem pbuf_realloc_cuts:
  assumes c: "chain st (Some h) as" and m: "mem_ok st L" and new: "unat new \<le> lens st as"
    and own: "\<forall>a \<in> set as. pb_ref (pbufs st a) > 0 \<and> owned (pbufs st a) a \<and> a \<in> L"
  shows "(\<forall>st'. pbuf_realloc (Some h) new st = Some st' \<longrightarrow> (\<exists>xs q ys. as = xs @ q # ys \<and> chain st' (Some h) (xs @ [q]) \<and>
      content st' (xs @ [q]) = take (unat new) (content st as) \<and> mem_ok st' (L - set (dead st ys)))) \<and>
    ((\<forall>a \<in> set as. fst a \<noteq> Ram) \<longrightarrow> pbuf_realloc (Some h) new st \<noteq> None)"
proof (cases "new < pb_tot_len (pbufs st h)")
  case False
  obtain as' where as: "as = h # as'" using c by (auto simp: chain_Some)
  then have "unat (pb_tot_len (pbufs st h)) = lens st as" using c by (simp add: chain_def)
  then have "take (unat new) (content st as) = content st as" using False by (simp add: word_less_nat_alt)
  moreover have "pbuf_realloc (Some h) new st = Some st" using False by (simp add: pbuf_realloc_def not_less)
  moreover obtain xs q where xs: "as = xs @ [q]" using as that by (metis append_butlast_last_id list.distinct(1))
  ultimately have "\<exists>xs q ys. as = xs @ q # ys \<and> chain st (Some h) (xs @ [q]) \<and> content st (xs @ [q]) = take (unat new) (content st as) \<and>
      mem_ok st (L - set (dead st ys))"
    using c m by (intro exI [of _ xs] exI [of _ q] exI [of _ "[]"]) (simp add: dead_def)
  then show ?thesis using \<open>pbuf_realloc (Some h) new st = Some st\<close> by simp
next
  case True
  let ?d = "pb_tot_len (pbufs st h) - new"
  have lk: "links (pnext st) (Some h) as" using c by (simp add: chain_def)
  obtain xs q ys r where w: "as = xs @ q # ys" "unat new = lens st xs + unat r" "unat r \<le> plen st q"
    "realloc_walk h new ?d st = Some (q, r, st\<lparr>pbufs := (\<lambda>a. if a \<in> set xs
      then (pbufs st a)\<lparr>pb_tot_len := pb_tot_len (pbufs st a) - ?d\<rparr> else pbufs st a)\<rparr>)"
    using realloc_walk_chain [OF lk new, of ?d] by blast
  define s1 where "s1 = st\<lparr>pbufs := (\<lambda>a. if a \<in> set xs then (pbufs st a)\<lparr>pb_tot_len := pb_tot_len (pbufs st a) - ?d\<rparr> else pbufs st a)\<rparr>"
  have dist: "distinct (xs @ q # ys)" using links_distinct [OF lk] w(1) by simp
  have s1q: "pbufs s1 q = pbufs st q" using dist by (simp add: s1_def)
  have s1m: "mem_ok s1 L" using m by (simp add: s1_def mem_ok_def)
  have q: "q \<in> L" "owned (pbufs s1 q) q" using own w(1) s1q by auto
  define s3 where "s3 s2 = upd_pbuf q (\<lambda>b. b\<lparr>pb_tot_len := pb_len b\<rparr>) (upd_pbuf q (\<lambda>b. b\<lparr>pb_len := r\<rparr>) s2)" for s2
  have run: "pbuf_realloc (Some h) new st = do { st \<leftarrow> trim_last q r s1; st \<leftarrow> free_rest q (s3 st);
      Some (upd_pbuf q (\<lambda>b. b\<lparr>pb_next := None\<rparr>) st) }"
    using pbuf_realloc_steps [OF True] w(4) by (simp add: s1_def [symmetric] s3_def)
  have rest: "\<exists>st'. free_rest q (s3 s2) = Some st' \<and> chain (upd_pbuf q (\<lambda>b. b\<lparr>pb_next := None\<rparr>) st') (Some h) (xs @ [q]) \<and>
      content (upd_pbuf q (\<lambda>b. b\<lparr>pb_next := None\<rparr>) st') (xs @ [q]) = take (unat new) (content st as) \<and>
      mem_ok st' (L - set (dead st ys))"
    if s2: "same_data s1 s2" "mem_ok s2 L" for s2
  proof -
    have pb: "pbufs (s3 s2) = (\<lambda>a. if a = q then (pbufs st q)\<lparr>pb_len := r, pb_tot_len := r\<rparr> else pbufs s1 a)"
      using s2(1) s1q by (auto simp: s3_def same_data_def fun_eq_iff)
    have ys: "pbufs (s3 s2) a = pbufs st a" if "a \<in> set ys" for a using that dist by (auto simp: pb s1_def)
    have "links (pnext st) (Some q) (q # ys)" using links_append [of "pnext st" "Some h" xs q ys] lk w(1) by simp
    then have ly: "links (pnext (s3 s2)) (pb_next (pbufs (s3 s2) q)) ys"
      using ys by (subst links_cong [of ys _ "pnext st"]) (auto simp: pb)
    have dd: "dead (s3 s2) ys = dead st ys" unfolding dead_def by (rule takeWhile_cong) (auto simp: ys)
    obtain st' where st': "free_rest q (s3 s2) = Some st'" "mem_ok st' (L - set (dead st ys))"
      "data_bytes st' = data_bytes (s3 s2)" "pbufs st' = drop_refs (s3 s2) ys"
      using free_rest_ok [OF ly, of L] own w(1) ys s2(2) unfolding dd by (auto simp: s3_def)
    have off: "pbufs st' a = pbufs (s3 s2) a" if "a \<notin> set ys" for a
    proof -
      have "a \<notin> set (dead (s3 s2) ys)" "a \<notin> set (alive (s3 s2) ys)"
        using that by (auto simp: dead_def alive_def dest: set_takeWhileD set_dropWhileD)
      then show ?thesis by (auto simp: st'(4) drop_refs_def)
    qed
    let ?st = "upd_pbuf q (\<lambda>b. b\<lparr>pb_next := None\<rparr>) st'"
    have "pbufs ?st a = (pbufs st a)\<lparr>pb_tot_len := pb_tot_len (pbufs st a) - ?d\<rparr>" if "a \<in> set xs" for a
    proof -
      have "a \<notin> set ys" "a \<noteq> q" using that dist by auto
      then show ?thesis using off [of a] that by (simp add: pb s1_def)
    qed
    moreover have "pbufs ?st q = (pbufs st q)\<lparr>pb_len := r, pb_tot_len := r, pb_next := None\<rparr>"
      using off [of q] dist by (simp add: pb)
    moreover have "data_bytes ?st = data_bytes st" using s2(1) by (simp add: st'(3) s3_def same_data_def s1_def)
    ultimately show ?thesis using realloc_chain [OF c [unfolded w(1)] w(2,3), of ?st] st'(1,2) by (auto simp: w(1))
  qed
  show ?thesis
  proof (cases "trim_last q r s1")
    case None
    then show ?thesis using run trim_last_ok(2) [OF s1m q, of r] w(1) by auto
  next
    case (Some s2)
    from rest [of s2] trim_last_ok(1) [OF s1m q(1) Some] run Some w(1) show ?thesis by fastforce
  qed
qed

theorem pbuf_realloc_cuts_witness:
  "\<exists>st h st'. pbuf_alloc PBUF_RAW 100 PBUF_POOL net0 = Some (Some h, st) \<and> pbuf_realloc (Some h) 60 st = Some st' \<and>
    chain st' (Some h) [h] \<and> content st' [h] = take 60 (content st [h])"
proof -
  obtain r st where r: "pbuf_alloc PBUF_RAW 100 PBUF_POOL net0 = Some (r, st)"
    "case r of None \<Rightarrow> mem_ok st {}
     | Some h \<Rightarrow> \<exists>as. chain st (Some h) as \<and> (\<forall>a \<in> set as. pool_pbuf st a) \<and> set as \<inter> {} = {} \<and>
         mem_ok st ({} \<union> set as) \<and> lens st as = unat (100 :: u16)"
    using pbuf_alloc_pool [OF mem_ok_net0, of PBUF_RAW 100] by blast
  obtain h where h: "r = Some h" using r(1) net0_pool by auto
  then obtain as where as: "chain st (Some h) as" "\<forall>a \<in> set as. pool_pbuf st a" "mem_ok st (set as)" "lens st as = 100"
    using r(2) by auto
  have e: "as = [h]" using pool_limit(1) [OF as(1,2)] .
  have "fst h \<noteq> Ram" using as(2) e by (auto simp: pool_pbuf_def dest: elems_area)
  have pre: "unat (60 :: u16) \<le> lens st as" "\<forall>a \<in> set as. pb_ref (pbufs st a) > 0 \<and> owned (pbufs st a) a \<and> a \<in> set as"
    using as(2,4) by (auto simp: pool_pbuf_def)
  note p = pbuf_realloc_cuts [OF as(1,3) pre]
  obtain st' where st': "pbuf_realloc (Some h) 60 st = Some st'" using p \<open>fst h \<noteq> Ram\<close> e by auto
  with p obtain xs q ys where "as = xs @ q # ys" "chain st' (Some h) (xs @ [q])"
    "content st' (xs @ [q]) = take (unat (60 :: u16)) (content st as)" by blast
  then show ?thesis using r(1) st' e h by (auto simp: Cons_eq_append_conv)
qed

end
