(* ===== verification/Lwip_Pbuf_Data.thy ===== *)
theory Lwip_Pbuf_Data
  imports Lwip_Pbuf_Ops
begin

unbundle bit_operations_syntax

text \<open>
  Properties of the operations on the data of a chain: each is stated over \<open>content\<close>, the bytes of its pbufs in order.
\<close>

section \<open>Positions\<close>

lemma skip_chain:
  assumes "links (pnext st) p as"
  shows "unat off < lens st as \<Longrightarrow> \<exists>xs a ys r. as = xs @ a # ys \<and> pbuf_skip_const p off st = Some (Some a, r) \<and>
      unat off = lens st xs + unat r \<and> unat r < plen st a"
    and "lens st as \<le> unat off \<Longrightarrow> \<exists>r. pbuf_skip_const p off st = Some (None, r)"
  using assms
proof (induction as arbitrary: p off)
  case Nil
  {
    case 1
    then show ?case by simp
  next
    case 2
    then show ?case by (subst pbuf_skip_const.simps) simp
  }
next
  case (Cons a as)
  {
    case 1
    then have p: "p = Some a" "links (pnext st) (pb_next (pbufs st a)) as" by auto
    show ?case
    proof (cases "pb_len (pbufs st a) \<le> off")
      case True
      then have o: "unat (off - pb_len (pbufs st a)) = unat off - plen st a" "plen st a \<le> unat off"
        by (simp_all add: unat_sub word_le_nat_alt)
      have "unat (off - pb_len (pbufs st a)) < lens st as" using o 1 by simp
      from Cons.IH(1) [OF this p(2)] obtain xs b ys r where "as = xs @ b # ys" "pbuf_skip_const (pb_next (pbufs st a)) (off - pb_len (pbufs st a)) st = Some (Some b, r)"
        "unat (off - pb_len (pbufs st a)) = lens st xs + unat r" "unat r < plen st b" by blast
      then show ?thesis using p(1) True o
        by (intro exI [of _ "a # xs"] exI [of _ b] exI [of _ ys] exI [of _ r]) (subst pbuf_skip_const.simps, simp)
    next
      case False
      then have "unat off < plen st a" by (simp add: word_le_nat_alt)
      then show ?thesis using p(1) False
        by (intro exI [of _ "[]"] exI [of _ a] exI [of _ as] exI [of _ off]) (subst pbuf_skip_const.simps, simp)
    qed
  next
    case 2
    then have p: "p = Some a" "links (pnext st) (pb_next (pbufs st a)) as" by auto
    have le: "pb_len (pbufs st a) \<le> off" using 2 by (simp add: word_le_nat_alt)
    then have "unat (off - pb_len (pbufs st a)) = unat off - plen st a" by (simp add: unat_sub)
    then have "lens st as \<le> unat (off - pb_len (pbufs st a))" using 2 by simp
    from Cons.IH(2) [OF this p(2)] obtain r
      where "pbuf_skip_const (pb_next (pbufs st a)) (off - pb_len (pbufs st a)) st = Some (None, r)" by blast
    then show ?case using p(1) le by (subst pbuf_skip_const.simps) simp
  }
qed

lemma nth_content: "i < plen st a \<Longrightarrow> content st (xs @ a # ys) ! (lens st xs + i) = data_bytes st (ptr_add (the (pb_payload (pbufs st a))) (int i))"
  by (simp add: nth_append chunk_def)

lemma try_get_at_chain:
  assumes "chain st p as"
  shows "pbuf_try_get_at p off st = Some (if unat off < lens st as then Some (content st as ! unat off) else None)"
proof (cases "unat off < lens st as")
  case True
  obtain xs a ys r where s: "as = xs @ a # ys" "pbuf_skip_const p off st = Some (Some a, r)"
    "unat off = lens st xs + unat r" "unat r < plen st a"
    using skip_chain(1) [of st p as off] assms True by (auto simp: chain_def)
  obtain pl where "pb_payload (pbufs st a) = Some pl" using assms s(1) by (auto simp: chain_def)
  then show ?thesis using s True nth_content [OF s(4), of xs ys]
    by (simp add: pbuf_try_get_at_def word_less_nat_alt)
next
  case False
  then obtain r where "pbuf_skip_const p off st = Some (None, r)"
    using skip_chain(2) [of st p as off] assms by (auto simp: chain_def)
  then show ?thesis using False by (simp add: pbuf_try_get_at_def)
qed

section \<open>Comparison\<close>

text \<open>Length of the common prefix.\<close>

fun agree :: "'a list \<Rightarrow> 'a list \<Rightarrow> nat" where
  "agree (x # xs) (y # ys) = (if x = y then Suc (agree xs ys) else 0)"
| "agree _ _ = 0"

lemma agree_le: "agree xs ys \<le> length xs"
  by (induction xs ys rule: agree.induct) auto

lemma agree_full: "length xs = length ys \<Longrightarrow> agree xs ys = length xs \<longleftrightarrow> xs = ys"
  by (induction xs ys rule: agree.induct) auto

lemma memcmp_loop_chain:
  assumes c: "chain st q as" and fit: "unat start + unat n \<le> lens st as" and i: "i \<le> n" and sm: "lens st as < 65536"
  shows "memcmp_loop q start s2 n i st =
    (let xs = drop (unat i) (take (unat n) (drop (unat start) (content st as)));
         ys = drop (unat i) (read_bytes (data_bytes st) s2 (unat n))
     in Some (if xs = ys then 0 else of_nat (unat i + agree xs ys + 1)))"
  using i
proof (induction "unat n - unat i" arbitrary: i rule: less_induct)
  case less
  let ?xs = "take (unat n) (drop (unat start) (content st as))"
  let ?ys = "read_bytes (data_bytes st) s2 (unat n)"
  have lx: "length ?xs = unat n" using fit by simp
  show ?case
  proof (cases "i < n")
    case False
    then show ?thesis using less.prems by (subst memcmp_loop.simps) (simp add: Let_def fit)
  next
    case True
    then have lt: "unat i < unat n" by (simp add: word_less_nat_alt)
    have si: "unat (start + i) = unat start + unat i"
      using lt fit sm by (intro unat_add_lem [THEN iffD1]) simp
    have g: "pbuf_get_at q (start + i) st = Some (?xs ! unat i)"
      using lt fit si by (simp add: pbuf_get_at_def try_get_at_chain [OF c])
    have dx: "drop (unat i) ?xs = ?xs ! unat i # drop (Suc (unat i)) ?xs" using lt lx by (simp only: Cons_nth_drop_Suc)
    have dy: "drop (unat i) ?ys = ?ys ! unat i # drop (Suc (unat i)) ?ys" using lt by (simp only: Cons_nth_drop_Suc length_read_bytes)
    have y: "data_bytes st (ptr_add s2 (uint i)) = ?ys ! unat i" using lt by simp
    have nx: "unat (i + 1) = Suc (unat i)" using next_index [OF True] by simp
    show ?thesis
    proof (cases "?xs ! unat i = ?ys ! unat i")
      case False
      have "unat n < 65536" using unsigned_less [of n] by simp
      then have "int (unat i) + 1 \<le> 65535" using lt by linarith
      then have "min (uint i + 1) 0xFFFF = uint i + 1" by simp
      then have w: "(word_of_int (min (uint i + 1) 0xFFFF) :: u16) = of_nat (unat i + 1)" by simp
      have "memcmp_loop q start s2 n i st = Some (of_nat (unat i + 1))"
        using True g y False w by (subst memcmp_loop.simps) simp
      then show ?thesis using False unfolding dx dy by (simp add: Let_def)
    next
      case eq: True
      have "i + 1 \<le> n" using lt nx by (simp add: word_le_nat_alt)
      with less.hyps [of "i + 1"] lt nx have "memcmp_loop q start s2 n (i + 1) st =
        Some (if drop (Suc (unat i)) ?xs = drop (Suc (unat i)) ?ys then 0
          else of_nat (Suc (unat i) + agree (drop (Suc (unat i)) ?xs) (drop (Suc (unat i)) ?ys) + 1))"
        by (simp add: Let_def)
      then show ?thesis using True g y eq unfolding dx dy by (subst memcmp_loop.simps) (simp add: Let_def)
    qed
  qed
qed

lemma content_suffix: "chain st p (xs @ a # ys) \<Longrightarrow> chain st (Some a) (a # ys)"
  using links_append [of "pnext st" p xs a ys] tot_ok_append [of st xs "a # ys"] by (auto simp: chain_def)

lemma pbuf_memcmp_chain:
  assumes c: "chain st (Some h) as"
  defines "part \<equiv> \<lambda>(off :: u16) (n :: u16). take (unat n) (drop (unat off) (content st as))"
  shows "pbuf_memcmp h off s2 n st = Some (if lens st as < unat off + unat n then 0xffff
    else if part off n = read_bytes (data_bytes st) s2 (unat n) then 0
    else of_nat (agree (part off n) (read_bytes (data_bytes st) s2 (unat n)) + 1))"
proof -
  obtain bs where bs: "as = h # bs" using c by (auto simp: chain_Some)
  have sm: "lens st as < 65536" using chain_bound [of st _ h bs] c bs by simp
  have tot: "unat (pb_tot_len (pbufs st h)) = lens st as" using c bs by (simp add: chain_def)
  have "uint (pb_tot_len (pbufs st h)) < uint off + uint n \<longleftrightarrow> int (unat (pb_tot_len (pbufs st h))) < int (unat off) + int (unat n)"
    by simp
  then have cond: "uint (pb_tot_len (pbufs st h)) < uint off + uint n \<longleftrightarrow> lens st as < unat off + unat n"
    unfolding tot by linarith
  show ?thesis
  proof (cases "lens st as < unat off + unat n")
    case True
    then show ?thesis using cond by (simp add: pbuf_memcmp_def)
  next
    case fits: False
    show ?thesis
    proof (cases "unat off < lens st as")
      case True
      obtain xs a ys r where s: "as = xs @ a # ys" "pbuf_skip_const (Some h) off st = Some (Some a, r)"
        "unat off = lens st xs + unat r" "unat r < plen st a"
        using skip_chain(1) [of st "Some h" as off] c True by (auto simp: chain_def)
      have "chain st (Some a) (a # ys)" using content_suffix c s(1) by metis
      moreover have "unat r + unat n \<le> lens st (a # ys)" "lens st (a # ys) < 65536" using fits s(1,3) sm by simp_all
      moreover have "part off n = take (unat n) (drop (unat r) (content st (a # ys)))"
        using s(1,3) by (simp add: part_def del: content_simps(2))
      ultimately have "memcmp_loop (Some a) r s2 n 0 st = Some (if part off n = read_bytes (data_bytes st) s2 (unat n) then 0
          else of_nat (agree (part off n) (read_bytes (data_bytes st) s2 (unat n)) + 1))"
        using memcmp_loop_chain [of st "Some a" "a # ys" r n 0 s2] by (simp add: Let_def del: content_simps(2))
      then show ?thesis using fits cond s(2) by (simp add: pbuf_memcmp_def)
    next
      case False
      then obtain r where "pbuf_skip_const (Some h) off st = Some (None, r)"
        using skip_chain(2) [of st "Some h" as off] c by (auto simp: chain_def)
      moreover from False fits have "unat n = 0" by linarith
      then have "n = 0" by (simp add: unat_eq_zero)
      moreover have "part off 0 = []" by (simp add: part_def)
      ultimately show ?thesis using fits cond by (simp add: pbuf_memcmp_def read_bytes_def memcmp_loop.simps)
    qed
  qed
qed

section \<open>Search\<close>

text \<open>The bytes \<open>m\<close> occur at position \<open>i\<close>.\<close>

definition occurs_at :: "u8 list \<Rightarrow> u8 list \<Rightarrow> nat \<Rightarrow> bool" where
  "occurs_at xs m i \<longleftrightarrow> i + length m \<le> length xs \<and> take (length m) (drop i xs) = m"

lemma pbuf_memcmp_zero:
  assumes "chain st (Some h) as"
  shows "\<exists>r. pbuf_memcmp h off s2 n st = Some r \<and>
    (r = 0 \<longleftrightarrow> occurs_at (content st as) (read_bytes (data_bytes st) s2 (unat n)) (unat off))"
proof -
  let ?x = "take (unat n) (drop (unat off) (content st as))" and ?y = "read_bytes (data_bytes st) s2 (unat n)"
  have "(of_nat (agree ?x ?y + 1) :: u16) \<noteq> 0" if "?x \<noteq> ?y" "unat off + unat n \<le> lens st as"
  proof -
    have "agree ?x ?y < unat n" using that agree_le [of ?x ?y] agree_full [of ?x ?y] by simp
    moreover have "unat n < 65536" using unsigned_less [of n] by simp
    ultimately have "unat (of_nat (agree ?x ?y + 1) :: u16) = agree ?x ?y + 1" by (simp only: unat_of_nat) simp
    then show ?thesis by (metis add_is_0 one_neq_zero unat_0)
  qed
  then show ?thesis using pbuf_memcmp_chain [OF assms, of off s2 n] by (auto simp: occurs_at_def not_less)
qed

lemma memfind_loop_chain:
  assumes c: "chain st (Some h) as" and mx: "unat mx + unat n = lens st as" and i: "unat i \<le> unat mx + 1"
    and m_def: "m = read_bytes (data_bytes st) s2 (unat n)"
  shows "memfind_loop h s2 n mx i st = Some (if \<exists>j \<ge> unat i. occurs_at (content st as) m j
    then of_nat (LEAST j. unat i \<le> j \<and> occurs_at (content st as) m j) else 0xFFFF)"
  using i
proof (induction "unat mx + 1 - unat i" arbitrary: i rule: less_induct)
  case less
  let ?P = "occurs_at (content st as) m"
  obtain r where r: "pbuf_memcmp h i s2 n st = Some r" "r = 0 \<longleftrightarrow> ?P (unat i)"
    using pbuf_memcmp_zero [OF c, of i s2 n] by (auto simp: m_def)
  show ?case
  proof (cases "i \<le> mx")
    case False
    then have "\<not> ?P j" if "unat i \<le> j" for j
      using that mx by (simp add: occurs_at_def m_def word_le_nat_alt)
    then show ?thesis using False by (subst memfind_loop.simps) auto
  next
    case le: True
    show ?thesis
    proof (cases "?P (unat i)")
      case True
      then have "(LEAST j. unat i \<le> j \<and> ?P j) = unat i" by (intro Least_equality) auto
      then show ?thesis using True r le by (subst memfind_loop.simps) auto
    next
      case False
      have ne: "n \<noteq> 0"
      proof
        assume "n = 0"
        then show False using False mx le by (simp add: occurs_at_def m_def word_le_nat_alt read_bytes_def)
      qed
      have "lens st as < 65536" using chain_bound [of st "Some h" h] c by (auto simp: chain_Some)
      moreover have "unat n \<noteq> 0" using ne by (simp add: unat_eq_zero)
      ultimately have "unat i + 1 < 65536" using mx le by (simp add: word_le_nat_alt)
      then have nx: "unat (i + 1) = unat i + 1" by (simp add: unat_word_ariths)
      have up: "(unat i + 1 \<le> j \<and> ?P j) = (unat i \<le> j \<and> ?P j)" for j using False by (cases "j = unat i") auto
      have "memfind_loop h s2 n mx (i + 1) st = Some (if \<exists>j \<ge> unat (i + 1). ?P j
          then of_nat (LEAST j. unat (i + 1) \<le> j \<and> ?P j) else 0xFFFF)"
        by (rule less.hyps) (use nx le in \<open>simp_all add: word_le_nat_alt\<close>)
      then show ?thesis using False r le unfolding nx up by (subst memfind_loop.simps) auto
    qed
  qed
qed

text \<open>The search returns the first position from the start offset on where the bytes occur in the content of the chain,
  and 0xFFFF when there is none, also across the borders of pbufs.  It always returns.\<close>

theorem pbuf_memfind_first:
  assumes "chain st (Some h) as"
  shows "pbuf_memfind h mem n start st =
    (let P = \<lambda>j. unat start \<le> j \<and> occurs_at (content st as) (read_bytes (data_bytes st) mem (unat n)) j
     in Some (if Ex P then of_nat (Least P) else 0xFFFF))"
proof -
  obtain bs where bs: "as = h # bs" using assms(1) by (auto simp: chain_Some)
  have tot: "unat (pb_tot_len (pbufs st h)) = lens st as" using assms(1) bs by (simp add: chain_def)
  have "uint (pb_tot_len (pbufs st h)) \<ge> uint n + uint start \<longleftrightarrow> int (unat (pb_tot_len (pbufs st h))) \<ge> int (unat n) + int (unat start)"
    by simp
  then have cond: "uint (pb_tot_len (pbufs st h)) \<ge> uint n + uint start \<longleftrightarrow> unat n + unat start \<le> lens st as"
    unfolding tot by linarith
  show ?thesis
  proof (cases "unat n + unat start \<le> lens st as")
    case True
    have "n \<le> pb_tot_len (pbufs st h)" using True tot by (simp add: word_le_nat_alt)
    then have mx: "unat (pb_tot_len (pbufs st h) - n) + unat n = lens st as" using tot by (simp add: unat_sub word_le_nat_alt)
    show ?thesis
      using memfind_loop_chain [OF assms(1) mx _ refl, of start mem] mx True cond
      by (simp add: pbuf_memfind_def Let_def)
  next
    case False
    then have "\<not> (unat start \<le> j \<and> occurs_at (content st as) (read_bytes (data_bytes st) mem (unat n)) j)" for j
      by (simp add: occurs_at_def)
    then show ?thesis using False cond unfolding Let_def by (subst pbuf_memfind_def) auto
  qed
qed

text \<open>An example chain of two pbufs.\<close>

definition net3 :: net_mem where
  "net3 = net2\<lparr>pbufs := (pbufs net2)((Ram, 8) := (pbufs net2 (Ram, 8))\<lparr>pb_next := Some (Ram, 40), pb_tot_len := 5\<rparr>)\<rparr>"

lemma chain_net3: "chain net3 (Some (Ram, 8)) [(Ram, 8), (Ram, 40)]"
  by (simp add: chain_def net3_def net2_def)

lemma lens_net3: "lens net3 [(Ram, 8), (Ram, 40)] = 5"
  by (simp add: net3_def net2_def)

lemma content_net3: "content net3 [(Ram, 8), (Ram, 40)] = [24, 25, 26, 56, 57]"
  by code_simp

theorem pbuf_memfind_first_witness:
  "pbuf_memfind (Ram, 8) (Ram, 26) 1 1 net3 = Some 2 \<and> pbuf_memfind (Ram, 8) (Ram, 27) 1 0 net3 = Some 0xFFFF"
proof -
  have "read_bytes (data_bytes net3) (Ram, 26) 1 = [26]" "read_bytes (data_bytes net3) (Ram, 27) 1 = [27]"
    by (simp_all add: read_bytes_def net3_def net2_def)
  moreover have "occurs_at [24, 25, 26, 56, 57] [26 :: u8] j \<longleftrightarrow> j = 2" "\<not> occurs_at [24, 25, 26, 56, 57] [27 :: u8] j" for j
    by (auto simp: occurs_at_def take_Suc_conv_app_nth nth_Cons split: nat.splits)
  moreover have "(LEAST j. Suc 0 \<le> j \<and> j = (2 :: nat)) = 2" by (rule Least_equality) auto
  ultimately show ?thesis
    using pbuf_memfind_first [OF chain_net3, where mem = "(Ram, 26)" and n = 1 and start = 1]
      pbuf_memfind_first [OF chain_net3, where mem = "(Ram, 27)" and n = 1 and start = 0]
      \<open>(LEAST j. Suc 0 \<le> j \<and> j = (2 :: nat)) = 2\<close>
    by (simp add: content_net3 Let_def del: content_simps)
qed

section \<open>Regions of memory\<close>

definition bytes_at :: "ptr \<Rightarrow> nat \<Rightarrow> ptr set" where
  "bytes_at p n = {q. fst q = fst p \<and> snd p \<le> snd q \<and> snd q < snd p + int n}"

abbreviation region :: "net_mem \<Rightarrow> ptr \<Rightarrow> ptr set" where
  "region st a \<equiv> bytes_at (the (pb_payload (pbufs st a))) (plen st a)"

fun separate :: "net_mem \<Rightarrow> ptr list \<Rightarrow> bool" where
  "separate st [] \<longleftrightarrow> True"
| "separate st (a # as) \<longleftrightarrow> (\<forall>b \<in> set as. region st a \<inter> region st b = {}) \<and> separate st as"

lemma write_bytes_out: "q \<notin> bytes_at p (length xs) \<Longrightarrow> write_bytes p xs m q = m q"
  by (auto simp: write_bytes_def bytes_at_def)

lemma write_bytes_in: "i < length xs \<Longrightarrow> write_bytes p xs m (ptr_add p (int i)) = xs ! i"
  by (simp add: write_bytes_def)

lemma bytes_at_sub: "o1 + k \<le> n \<Longrightarrow> bytes_at (ptr_add p (int o1)) k \<subseteq> bytes_at p n"
  by (auto simp: bytes_at_def)

lemma bytes_at_mono: "k \<le> n \<Longrightarrow> bytes_at p k \<subseteq> bytes_at p n"
  by (auto simp: bytes_at_def)

lemma ptr_in_bytes: "i < n \<Longrightarrow> ptr_add p (int i) \<in> bytes_at p n"
  by (simp add: bytes_at_def)

lemma read_bytes_frame: "(\<And>q. q \<in> bytes_at p n \<Longrightarrow> m' q = m q) \<Longrightarrow> read_bytes m' p n = read_bytes m p n"
  by (simp add: read_bytes_def ptr_in_bytes)

text \<open>Overwriting a part of a region.\<close>

lemma read_write_part:
  assumes "k + length d \<le> n"
  shows "read_bytes (write_bytes (ptr_add p (int k)) d m) p n =
    take k (read_bytes m p n) @ d @ drop (k + length d) (read_bytes m p n)"
proof (rule nth_equalityI)
  fix i assume "i < length (read_bytes (write_bytes (ptr_add p (int k)) d m) p n)"
  then have i: "i < n" by simp
  consider "i < k" | "k \<le> i" "i < k + length d" | "k + length d \<le> i" by linarith
  then show "read_bytes (write_bytes (ptr_add p (int k)) d m) p n ! i =
    (take k (read_bytes m p n) @ d @ drop (k + length d) (read_bytes m p n)) ! i"
  proof cases
    case 1
    then show ?thesis using i assms by (simp add: nth_append write_bytes_def)
  next
    case 2
    then have "i - k < length d" by linarith
    then show ?thesis using 2 i assms by (simp add: nth_append write_bytes_def nat_diff_distrib)
  next
    case 3
    then have "\<not> i - k < length d" by linarith
    then show ?thesis using 3 i assms by (simp add: nth_append write_bytes_def)
  qed
qed (use assms in simp)

lemma read_bytes_sub: "k + n \<le> l \<Longrightarrow> read_bytes m (ptr_add p (int k)) n = take n (drop k (read_bytes m p l))"
  by (rule nth_equalityI) (simp_all add: add.commute)

lemma read_bytes_split: "read_bytes m p (k + n) = read_bytes m p k @ read_bytes m (ptr_add p (int k)) n"
  by (rule nth_equalityI) (auto simp: nth_append of_nat_diff)

lemma content_frame:
  assumes "pbufs st' = pbufs st" "\<And>a q. a \<in> set as \<Longrightarrow> q \<in> region st a \<Longrightarrow> data_bytes st' q = data_bytes st q"
  shows "content st' as = content st as"
  using assms by (induction as) (auto simp: chunk_def intro!: read_bytes_frame)

text \<open>A write inside one pbuf of a chain.\<close>

lemma content_write:
  assumes sep: "separate st (a # as)" and fit: "k + length d \<le> plen st a"
    and st': "st' = st\<lparr>data_bytes := write_bytes (ptr_add (the (pb_payload (pbufs st a))) (int k)) d (data_bytes st)\<rparr>"
  shows "content st' (a # as) = take k (content st (a # as)) @ d @ drop (k + length d) (content st (a # as))"
    and "content st' as = content st as" and "\<And>q. q \<notin> region st a \<Longrightarrow> data_bytes st' q = data_bytes st q"
proof -
  have out: "data_bytes st' q = data_bytes st q" if "q \<notin> region st a" for q
    using that bytes_at_sub [OF fit, of "the (pb_payload (pbufs st a))"] by (auto simp: st' intro!: write_bytes_out)
  then show "\<And>q. q \<notin> region st a \<Longrightarrow> data_bytes st' q = data_bytes st q" .
  show rest: "content st' as = content st as"
    by (rule content_frame) (use sep out in \<open>auto simp: st'\<close>)
  have "chunk st' a = take k (chunk st a) @ d @ drop (k + length d) (chunk st a)"
    using read_write_part [OF fit] by (simp add: chunk_def st')
  then show "content st' (a # as) = take k (content st (a # as)) @ d @ drop (k + length d) (content st (a # as))"
    using rest fit by simp
qed

section \<open>Copying out\<close>

lemma MEMCPY_simps [simp]: "pbufs (MEMCPY d s n st) = pbufs st" "customs (MEMCPY d s n st) = customs st"
  "data_bytes (MEMCPY d s n st) = write_bytes d (read_bytes (data_bytes st) s n) (data_bytes st)"
  "ram_heap (MEMCPY d s n st) = ram_heap st" "pools (MEMCPY d s n st) = pools st"
  by (simp_all add: MEMCPY_def)

lemma nat_sub_int: "nat (x - (y + int n)) = nat (x - y) - n"
  by arith

lemma write_bytes_append: "write_bytes (ptr_add p (int (length xs))) ys (write_bytes p xs m) = write_bytes p (xs @ ys) m"
  by (rule ext) (auto simp: write_bytes_def nth_append nat_sub_int nat_less_iff)

lemma write_bytes_Nil [simp]: "write_bytes p [] m = m"
  by (rule ext) (auto simp: write_bytes_def)

lemma min_split: "(k :: nat) \<le> p \<Longrightarrow> min n (p - k) + min (n - min n (p - k)) l = min n (p + l - k)"
  by (simp add: min_def) arith

lemma copy_out_chain:
  assumes "links (pnext st) p as" "\<forall>a \<in> set as. pb_payload (pbufs st a) \<noteq> None" "unat lft + lens st as < 65536 + unat off"
    "\<forall>a \<in> set as. region st a \<inter> bytes_at (ptr_add d (int (unat lft))) (unat len) = {}"
  shows "\<exists>st'. copy_out_loop p d lft len off st = Some (lft + of_nat (min (unat len) (lens st as - unat off)), st') \<and>
    st' = st\<lparr>data_bytes := write_bytes (ptr_add d (int (unat lft))) (take (unat len) (drop (unat off) (content st as))) (data_bytes st)\<rparr>"
  using assms
proof (induction as arbitrary: p lft len off st)
  case Nil
  then show ?case by (subst copy_out_loop.simps) simp
next
  case (Cons a as)
  have p: "p = Some a" "links (pnext st) (pb_next (pbufs st a)) as" using Cons.prems(1) by auto
  obtain pl where pl: "pb_payload (pbufs st a) = Some pl" using Cons.prems(2) by auto
  show ?case
  proof (cases "len = 0")
    case True
    then show ?thesis by (subst copy_out_loop.simps) simp
  next
    case len: False
    show ?thesis
    proof (cases "off \<noteq> 0 \<and> off \<ge> pb_len (pbufs st a)")
      case True
      then have o: "unat (off - pb_len (pbufs st a)) = unat off - plen st a" "plen st a \<le> unat off"
        by (simp_all add: unat_sub word_le_nat_alt)
      have run: "copy_out_loop p d lft len off st = copy_out_loop (pb_next (pbufs st a)) d lft len (off - pb_len (pbufs st a)) st"
        using True len p(1) by (subst copy_out_loop.simps) simp
      have "lens st as - unat (off - pb_len (pbufs st a)) = lens st (a # as) - unat off" using o by simp
      moreover have "drop (unat (off - pb_len (pbufs st a))) (content st as) = drop (unat off) (content st (a # as))" using o by simp
      ultimately show ?thesis unfolding run
        using Cons.IH [OF p(2), of lft "off - pb_len (pbufs st a)" len] Cons.prems(2-4) o by simp
    next
      case False
      have ol: "unat off \<le> plen st a" using False by (cases "off = 0") (auto simp: word_le_nat_alt)
      define b where "b = pb_len (pbufs st a) - off"
      have b: "unat b = plen st a - unat off" using ol by (simp add: b_def unat_sub word_le_nat_alt)
      define m where "m = (if b > len then len else b)"
      have m: "unat m = min (unat len) (plen st a - unat off)" using b by (auto simp: m_def word_less_nat_alt)
      have lm: "unat (len - m) = unat len - unat m" "unat m \<le> unat len" using m by (simp_all add: unat_sub word_le_nat_alt)
      have fm: "unat (lft + m) = unat lft + unat m"
        using m ol Cons.prems(3) by (intro unat_add_lem [THEN iffD1]) (simp add: min_def split: if_splits)
      define xs where "xs = take (unat m) (drop (unat off) (chunk st a))"
      have xs: "read_bytes (data_bytes st) (ptr_add pl (int (unat off))) (unat m) = xs"
        using read_bytes_sub [of "unat off" "unat m" "plen st a"] m ol by (simp add: xs_def chunk_def pl)
      have lx: "length xs = unat m" using m ol by (simp add: xs_def)
      define s1 where "s1 = MEMCPY (ptr_add d (int (unat lft))) (ptr_add pl (int (unat off))) (unat m) st"
      have run: "copy_out_loop p d lft len off st = copy_out_loop (pb_next (pbufs st a)) d (lft + m) (len - m) 0 s1"
        by (subst copy_out_loop.simps) (simp add: False len p(1) pl Let_def b_def [symmetric] m_def [symmetric] s1_def)
      have s1: "data_bytes s1 = write_bytes (ptr_add d (int (unat lft))) xs (data_bytes st)"
        by (simp only: s1_def MEMCPY_simps xs)
      have sub: "bytes_at (ptr_add d (int (unat lft))) (unat m) \<subseteq> bytes_at (ptr_add d (int (unat lft))) (unat len)"
        by (rule bytes_at_mono) (rule lm(2))
      have cn: "content s1 as = content st as"
      proof (rule content_frame)
        fix b q assume "b \<in> set as" and q: "q \<in> region st b"
        then have "region st b \<inter> bytes_at (ptr_add d (int (unat lft))) (unat len) = {}" using Cons.prems(4) by simp
        with q sub have "q \<notin> bytes_at (ptr_add d (int (unat lft))) (length xs)" unfolding lx by blast
        then show "data_bytes s1 q = data_bytes st q" unfolding s1 by (rule write_bytes_out)
      qed (simp add: s1_def)
      have pb: "pbufs s1 = pbufs st" by (simp add: s1_def)
      have e: "ptr_add d (int (unat (lft + m))) = ptr_add (ptr_add d (int (unat lft))) (int (unat m))"
        unfolding fm by (simp add: ptr_add_def)
      have sub2: "bytes_at (ptr_add d (int (unat (lft + m)))) (unat (len - m)) \<subseteq> bytes_at (ptr_add d (int (unat lft))) (unat len)"
        unfolding e by (rule bytes_at_sub) (use lm in simp)
      have dj: "\<forall>b \<in> set as. region st b \<inter> bytes_at (ptr_add d (int (unat (lft + m)))) (unat (len - m)) = {}"
      proof
        fix b assume "b \<in> set as"
        then have "region st b \<inter> bytes_at (ptr_add d (int (unat lft))) (unat len) = {}" using Cons.prems(4) by simp
        with sub2 show "region st b \<inter> bytes_at (ptr_add d (int (unat (lft + m)))) (unat (len - m)) = {}" by blast
      qed
      have up: "s1\<lparr>data_bytes := f\<rparr> = st\<lparr>data_bytes := f\<rparr>" for f by (simp add: s1_def MEMCPY_def)
      have wr: "write_bytes (ptr_add d (int (unat (lft + m)))) zs (data_bytes s1) =
          write_bytes (ptr_add d (int (unat lft))) (xs @ zs) (data_bytes st)" for zs
        unfolding e s1 lx [symmetric] by (rule write_bytes_append)
      have "\<exists>st'. copy_out_loop (pb_next (pbufs st a)) d (lft + m) (len - m) 0 s1 =
          Some (lft + m + of_nat (min (unat (len - m)) (lens s1 as - unat (0 :: u16))), st') \<and>
        st' = s1\<lparr>data_bytes := write_bytes (ptr_add d (int (unat (lft + m))))
          (take (unat (len - m)) (drop (unat (0 :: u16)) (content s1 as))) (data_bytes s1)\<rparr>"
      proof (rule Cons.IH)
        show "links (pnext s1) (pb_next (pbufs st a)) as" using p(2) by (simp add: pb)
        show "\<forall>b \<in> set as. pb_payload (pbufs s1 b) \<noteq> None" using Cons.prems(2) by (simp add: pb)
        show "unat (lft + m) + lens s1 as < 65536 + unat (0 :: u16)"
          using fm m ol Cons.prems(3) by (simp add: pb min_def split: if_splits)
        show "\<forall>b \<in> set as. region s1 b \<inter> bytes_at (ptr_add d (int (unat (lft + m)))) (unat (len - m)) = {}"
          using dj by (simp only: pb)
      qed
      moreover have "lft + m + of_nat (min (unat (len - m)) (lens s1 as)) =
          lft + of_nat (min (unat len) (lens st (a # as) - unat off))"
      proof -
        have "unat m + min (unat (len - m)) (lens st as) = min (unat len) (lens st (a # as) - unat off)"
          unfolding lm(1) m using min_split [OF ol, of "unat len" "lens st as"] by simp
        from arg_cong [OF this, of "of_nat :: nat \<Rightarrow> u16"] show ?thesis by (simp add: pb add.assoc)
      qed
      moreover have "xs @ take (unat (len - m)) (content st as) = take (unat len) (drop (unat off) (content st (a # as)))"
        using m ol lm by (auto simp: xs_def min_def)
      ultimately show ?thesis unfolding run up wr cn pb by simp
    qed
  qed
qed

text \<open>Copying out of a chain returns the number of bytes that are there, at most the length asked for, and stores these
  bytes, taken from the offset on across all pbufs, at the target; nothing else changes.\<close>

theorem pbuf_copy_partial_reads:
  assumes "chain st (Some h) as" "\<forall>a \<in> set as. region st a \<inter> bytes_at d (unat len) = {}"
  shows "pbuf_copy_partial (Some h) (Some d) len off st = Some (of_nat (min (unat len) (lens st as - unat off)),
    st\<lparr>data_bytes := write_bytes d (take (unat len) (drop (unat off) (content st as))) (data_bytes st)\<rparr>)"
proof -
  obtain bs where "as = h # bs" using assms(1) by (auto simp: chain_Some)
  then have "lens st as < 65536" using chain_bound [of st "Some h" h bs] assms(1) by simp
  then have 1: "unat (0 :: u16) + lens st as < 65536 + unat off" by simp
  have 2: "links (pnext st) (Some h) as" "\<forall>a \<in> set as. pb_payload (pbufs st a) \<noteq> None" using assms(1) by (auto simp: chain_def)
  have 3: "\<forall>a \<in> set as. region st a \<inter> bytes_at (ptr_add d (int (unat (0 :: u16)))) (unat len) = {}" using assms(2) by simp
  show ?thesis using copy_out_chain [OF 2 1 3] by (simp add: pbuf_copy_partial_def)
qed

theorem pbuf_copy_partial_reads_witness:
  "\<exists>st. pbuf_copy_partial (Some (Ram, 8)) (Some (Ext 0, 0)) 9 1 net3 = Some (4, st) \<and>
    read_bytes (data_bytes st) (Ext 0, 0) 4 = [25, 26, 56, 57]"
proof -
  have "\<forall>a \<in> set [(Ram, 8), (Ram, 40)]. region net3 a \<inter> bytes_at (Ext 0, 0) (unat (9 :: u16)) = {}"
    by (auto simp: bytes_at_def net3_def net2_def)
  from pbuf_copy_partial_reads [OF chain_net3 this, of 1]
  have "pbuf_copy_partial (Some (Ram, 8)) (Some (Ext 0, 0)) 9 1 net3 = Some (of_nat (min 9 (5 - 1)),
    net3\<lparr>data_bytes := write_bytes (Ext 0, 0) (take 9 (drop 1 [24, 25, 26, 56, 57])) (data_bytes net3)\<rparr>)"
    unfolding content_net3 lens_net3 by simp
  then show ?thesis using read_write_part [of 0 "[25, 26, 56, 57]" 4 "(Ext 0, 0)"] by simp
qed

section \<open>Copying in\<close>

definition payloads :: "net_mem \<Rightarrow> ptr list \<Rightarrow> ptr set" where
  "payloads st as = (\<Union>a \<in> set as. region st a)"

lemma take_loop_chain:
  assumes "links (pnext st) p as" "\<forall>a \<in> set as. pb_payload (pbufs st a) \<noteq> None" "separate st as"
    "unat n \<le> lens st as" "unat cp + unat n < 2 ^ 32" "payloads st as \<inter> bytes_at (ptr_add s (int (unat cp))) (unat n) = {}"
  shows "\<exists>st'. take_loop p s n cp st = Some st' \<and> st' = st\<lparr>data_bytes := data_bytes st'\<rparr> \<and>
    content st' as = read_bytes (data_bytes st) (ptr_add s (int (unat cp))) (unat n) @ drop (unat n) (content st as) \<and>
    (\<forall>q. q \<notin> payloads st as \<longrightarrow> data_bytes st' q = data_bytes st q)"
  using assms
proof (induction as arbitrary: p n cp st)
  case Nil
  then have "n = 0" by (simp add: unat_eq_zero)
  then show ?case by (subst take_loop.simps) (simp add: read_bytes_def)
next
  case (Cons a as)
  have p: "p = Some a" "links (pnext st) (pb_next (pbufs st a)) as" using Cons.prems(1) by auto
  obtain pl where pl: "pb_payload (pbufs st a) = Some pl" using Cons.prems(2) by auto
  show ?case
  proof (cases "n = 0")
    case True
    then show ?thesis by (subst take_loop.simps) (simp add: read_bytes_def)
  next
    case ne: False
    define m where "m = (if n > ucast (pb_len (pbufs st a)) then ucast (pb_len (pbufs st a)) else n)"
    have m: "unat m = min (unat n) (plen st a)" by (auto simp: m_def word_less_nat_alt unat_ucast16)
    have lm: "unat (n - m) = unat n - unat m" using m by (simp add: unat_sub word_le_nat_alt)
    have cm: "unat (cp + m) = unat cp + unat m" using m Cons.prems(5) by (intro unat_add_lem [THEN iffD1]) simp
    let ?src = "ptr_add s (int (unat cp))"
    define xs where "xs = read_bytes (data_bytes st) ?src (unat m)"
    define s1 where "s1 = MEMCPY pl ?src (unat m) st"
    have s1: "s1 = st\<lparr>data_bytes := write_bytes (ptr_add (the (pb_payload (pbufs st a))) (int 0)) xs (data_bytes st)\<rparr>"
      by (simp add: s1_def MEMCPY_def xs_def pl)
    have run: "take_loop p s n cp st = take_loop (pb_next (pbufs st a)) s (n - m) (cp + m) s1"
      by (subst take_loop.simps) (simp add: ne p(1) pl Let_def m_def [symmetric] s1_def)
    have fit: "0 + length xs \<le> plen st a" using m by (simp add: xs_def)
    note w = content_write [OF Cons.prems(3) fit s1]
    have pb: "pbufs s1 = pbufs st" by (simp add: s1_def)
    have sep: "separate s1 as" using Cons.prems(3) by (induction as) (auto simp: pb)
    have pay: "payloads s1 as = payloads st as" by (simp add: payloads_def pb)
    have e: "ptr_add s (int (unat (cp + m))) = ptr_add ?src (int (unat m))" unfolding cm by simp
    have src: "bytes_at (ptr_add ?src (int (unat m))) (unat (n - m)) \<subseteq> bytes_at ?src (unat n)"
      by (rule bytes_at_sub) (use lm m in simp)
    have ra: "region st a \<subseteq> payloads st (a # as)" "payloads st as \<subseteq> payloads st (a # as)" by (auto simp: payloads_def)
    have "read_bytes (data_bytes s1) (ptr_add ?src (int (unat m))) (unat (n - m)) =
        read_bytes (data_bytes st) (ptr_add ?src (int (unat m))) (unat (n - m))"
      by (rule read_bytes_frame, rule w(3)) (use src ra Cons.prems(6) in blast)
    moreover have "read_bytes (data_bytes st) ?src (unat n) = xs @ read_bytes (data_bytes st) (ptr_add ?src (int (unat m))) (unat (n - m))"
      using lm m by (intro nth_equalityI) (auto simp: xs_def nth_append algebra_simps of_nat_diff)
    moreover have "\<exists>st'. take_loop (pb_next (pbufs st a)) s (n - m) (cp + m) s1 = Some st' \<and> st' = s1\<lparr>data_bytes := data_bytes st'\<rparr> \<and>
      content st' as = read_bytes (data_bytes s1) (ptr_add s (int (unat (cp + m)))) (unat (n - m)) @ drop (unat (n - m)) (content s1 as) \<and>
      (\<forall>q. q \<notin> payloads s1 as \<longrightarrow> data_bytes st' q = data_bytes s1 q)"
    proof (rule Cons.IH)
      show "payloads s1 as \<inter> bytes_at (ptr_add s (int (unat (cp + m)))) (unat (n - m)) = {}"
        unfolding e pay using src ra Cons.prems(6) by blast
      show "unat (cp + m) + unat (n - m) < 2 ^ 32" using cm lm m Cons.prems(5) by simp
    qed (use p(2) Cons.prems(2,4) sep lm m in \<open>auto simp: pb\<close>)
    ultimately obtain st' where st': "take_loop p s n cp st = Some st'" "st' = s1\<lparr>data_bytes := data_bytes st'\<rparr>"
      "xs @ content st' as = read_bytes (data_bytes st) ?src (unat n) @ drop (unat (n - m)) (content st as)"
      "\<forall>q. q \<notin> payloads st as \<longrightarrow> data_bytes st' q = data_bytes s1 q" unfolding run e w(2) pay by auto
    have pb': "pbufs st' = pbufs st" by (subst st'(2)) (simp add: pb)
    have "region st a \<inter> payloads st as = {}" using Cons.prems(3) by (auto simp: payloads_def)
    then have fr: "data_bytes st' q = data_bytes s1 q" if "q \<in> region st a" for q using st'(4) that by blast
    have ch: "chunk st' a = chunk s1 a" unfolding chunk_def pb pb' by (rule read_bytes_frame, rule fr)
    have "content s1 (a # as) = xs @ drop (unat m) (content st (a # as))" using w(1) by (simp add: xs_def)
    then have "chunk s1 a = xs @ drop (unat m) (chunk st a)" using w(2) m by simp
    then have "content st' (a # as) = read_bytes (data_bytes st) ?src (unat n) @ drop (unat n) (content st (a # as))"
      using st'(3) m lm by (cases "unat n \<le> plen st a") (auto simp: ch xs_def)
    moreover have "st' = st\<lparr>data_bytes := data_bytes st'\<rparr>" by (subst st'(2)) (simp add: s1)
    moreover have "data_bytes st' q = data_bytes st q" if "q \<notin> payloads st (a # as)" for q
    proof -
      have "q \<notin> payloads st as" "q \<notin> region st a" using that ra by blast+
      then show ?thesis using spec [OF st'(4), of q] w(3) by simp
    qed
    ultimately show ?thesis using st'(1) by blast
  qed
qed

lemma separate_append: "separate st (xs @ ys) \<longleftrightarrow>
    separate st xs \<and> separate st ys \<and> (\<forall>a \<in> set xs. \<forall>b \<in> set ys. region st a \<inter> region st b = {})"
  by (induction xs) auto

lemma pbuf_take_chain:
  assumes c: "chain st (Some a) as" and sep: "separate st as" and len: "unat len \<le> lens st as"
    and src: "payloads st as \<inter> bytes_at d (unat len) = {}"
  shows "\<exists>st'. pbuf_take (Some a) (Some d) len st = Some (ERR_OK, st') \<and> st' = st\<lparr>data_bytes := data_bytes st'\<rparr> \<and>
    content st' as = read_bytes (data_bytes st) d (unat len) @ drop (unat len) (content st as) \<and>
    (\<forall>q. q \<notin> payloads st as \<longrightarrow> data_bytes st' q = data_bytes st q)"
proof -
  have 1: "links (pnext st) (Some a) as" "\<forall>a \<in> set as. pb_payload (pbufs st a) \<noteq> None" using c by (auto simp: chain_def)
  have 2: "unat (ucast len :: u32) = unat len" by (rule unat_ucast16)
  have "unat len < 65536" using unsigned_less [of len] by simp
  then have 3: "unat (ucast len :: u32) \<le> lens st as" "unat (0 :: u32) + unat (ucast len :: u32) < 2 ^ 32"
    "payloads st as \<inter> bytes_at (ptr_add d (int (unat (0 :: u32)))) (unat (ucast len :: u32)) = {}"
    unfolding 2 using len src by simp_all
  have "len \<le> pb_tot_len (pbufs st a)" using c len by (auto simp: chain_Some word_le_nat_alt)
  then show ?thesis using take_loop_chain [OF 1 sep 3] unfolding 2 by (auto simp: pbuf_take_def)
qed

lemma pbuf_take_at_run:
  assumes s: "pbuf_skip_const (Some h) off st = Some (Some a, r)" and r: "unat r < plen st a"
    and fit: "unat r + unat len \<le> unat (pb_tot_len (pbufs st a))" and pl: "pb_payload (pbufs st a) = Some pl"
    and m: "m = (of_nat (min (plen st a - unat r) (unat len)) :: u16)"
  shows "pbuf_take_at (Some h) (Some d) len off st =
    (let s1 = MEMCPY (ptr_add pl (int (unat r))) d (unat m) st
     in if len - m > 0 then pbuf_take (pb_next (pbufs st a)) (Some (ptr_add d (int (unat m)))) (len - m) s1 else Some (ERR_OK, s1))"
proof -
  have "int (unat r) + int (unat len) \<le> int (unat (pb_tot_len (pbufs st a)))" using fit by linarith
  then have 1: "uint r + uint len \<le> uint (pb_tot_len (pbufs st a))" by simp
  have "int (min (plen st a - unat r) (unat len)) = min (uint (pb_len (pbufs st a)) - uint r) (uint len)"
    using r by (simp add: of_nat_min of_nat_diff)
  then have 2: "word_of_int (min (uint (pb_len (pbufs st a)) - uint r) (uint len)) = m"
    unfolding m by (metis of_int_of_nat_eq)
  have 3: "r < pb_len (pbufs st a)" using r by (simp add: word_less_nat_alt)
  show ?thesis using s 1 3 pl by (simp add: pbuf_take_at_def pbuf_skip_def Let_def 2)
qed

text \<open>The part of \<open>pbuf_take_at\<close> behind the search for the first pbuf.\<close>

lemma pbuf_take_here:
  assumes c: "chain st (Some a) (a # ys)" and sep: "separate st (a # ys)" and r: "k < plen st a"
    and fit: "k + unat len \<le> lens st (a # ys)" and src: "payloads st (a # ys) \<inter> bytes_at d (unat len) = {}"
    and m: "m = (of_nat (min (plen st a - k) (unat len)) :: u16)" and pl: "pb_payload (pbufs st a) = Some pl"
  defines "s1 \<equiv> MEMCPY (ptr_add pl (int k)) d (unat m) st"
  shows "\<exists>st'. (if len - m > 0 then pbuf_take (pb_next (pbufs st a)) (Some (ptr_add d (int (unat m)))) (len - m) s1
      else Some (ERR_OK, s1)) = Some (ERR_OK, st') \<and> st' = st\<lparr>data_bytes := data_bytes st'\<rparr> \<and>
    content st' (a # ys) = take k (content st (a # ys)) @ read_bytes (data_bytes st) d (unat len) @
      drop (k + unat len) (content st (a # ys)) \<and>
    (\<forall>q. q \<notin> payloads st (a # ys) \<longrightarrow> data_bytes st' q = data_bytes st q)"
proof -
  have "plen st a < 65536" using unsigned_less [of "pb_len (pbufs st a)"] by simp
  then have "min (plen st a - k) (unat len) < 65536" by simp
  then have m: "unat m = min (plen st a - k) (unat len)" by (simp add: m unat_of_nat)
  have lm: "unat (len - m) = unat len - unat m" using m by (simp add: unat_sub word_le_nat_alt)
  let ?x = "read_bytes (data_bytes st) d (unat m)"
  have s1: "s1 = st\<lparr>data_bytes := write_bytes (ptr_add (the (pb_payload (pbufs st a))) (int k)) ?x (data_bytes st)\<rparr>"
    by (simp add: s1_def MEMCPY_def pl)
  have fit1: "k + length ?x \<le> plen st a" using m r by simp
  note w = content_write [OF sep fit1 s1]
  have pb: "pbufs s1 = pbufs st" by (simp add: s1_def)
  have ra: "region st a \<subseteq> payloads st (a # ys)" "payloads st ys \<subseteq> payloads st (a # ys)" by (auto simp: payloads_def)
  show ?thesis
  proof (cases "len - m > 0")
    case False
    then have "unat (len - m) = 0" by (metis word_neq_0_conv unat_0)
    moreover have "unat m \<le> unat len" using m by simp
    ultimately have "unat m = unat len" using lm by linarith
    moreover have "data_bytes s1 q = data_bytes st q" if "q \<notin> payloads st (a # ys)" for q
      using that ra w(3) by blast
    moreover have "s1 = st\<lparr>data_bytes := data_bytes s1\<rparr>" by (simp add: s1)
    ultimately show ?thesis using False w(1) by auto
  next
    case True
    then have pos: "0 < unat (len - m)" by (simp add: word_less_nat_alt)
    then have mk: "k + unat m = plen st a" using lm m r by auto
    have fity: "unat (len - m) \<le> lens st ys" using lm mk fit by simp
    then obtain b bs where ys: "ys = b # bs" using pos by (cases ys) auto
    have cs: "chain st (pb_next (pbufs st a)) ys" using c by (auto simp: chain_Some [of st a])
    then have nb: "pb_next (pbufs st a) = Some b" using ys by (auto simp: chain_def)
    have cy: "chain s1 (Some b) ys" "pb_next (pbufs st a) = Some b"
      using cs nb chain_cong [of ys s1 st] pb by simp_all
    have sy: "separate s1 ys" using sep by (induction ys) (auto simp: pb)
    have py: "payloads s1 ys = payloads st ys" by (simp add: payloads_def pb)
    let ?src = "ptr_add d (int (unat m))"
    have sub: "bytes_at ?src (unat (len - m)) \<subseteq> bytes_at d (unat len)" by (rule bytes_at_sub) (use lm m in simp)
    then have dj: "payloads s1 ys \<inter> bytes_at ?src (unat (len - m)) = {}" unfolding py using src ra by blast
    have fity': "unat (len - m) \<le> lens s1 ys" using fity by (simp only: pb)
    obtain st' where st': "pbuf_take (Some b) (Some ?src) (len - m) s1 = Some (ERR_OK, st')" "st' = s1\<lparr>data_bytes := data_bytes st'\<rparr>"
      "content st' ys = read_bytes (data_bytes s1) ?src (unat (len - m)) @ drop (unat (len - m)) (content s1 ys)"
      "\<forall>q. q \<notin> payloads s1 ys \<longrightarrow> data_bytes st' q = data_bytes s1 q"
      using pbuf_take_chain [OF cy(1) sy fity' dj] by blast
    have "read_bytes (data_bytes s1) ?src (unat (len - m)) = read_bytes (data_bytes st) ?src (unat (len - m))"
      by (rule read_bytes_frame, rule w(3)) (use src ra sub in blast)
    moreover have "unat len = unat m + unat (len - m)" using lm m by simp
    then have "read_bytes (data_bytes st) d (unat len) = ?x @ read_bytes (data_bytes st) ?src (unat (len - m))"
      by (metis read_bytes_split)
    moreover have kk: "k + (unat m + unat (len - m)) - plen st a = unat (len - m)" using mk by simp
    moreover have "chunk st' a = take k (chunk st a) @ ?x"
    proof -
      have "region st a \<inter> payloads st ys = {}" using sep by (auto simp: payloads_def)
      then have fr: "data_bytes st' q = data_bytes s1 q" if "q \<in> region st a" for q using spec [OF st'(4), of q] that py by blast
      have pb': "pbufs st' = pbufs st" by (subst st'(2)) (simp add: pb)
      have "chunk st' a = chunk s1 a" unfolding chunk_def pb pb' by (rule read_bytes_frame, rule fr)
      also have "chunk s1 a = take k (chunk st a) @ ?x" using w(1,2) mk r by simp
      finally show ?thesis .
    qed
    ultimately have "content st' (a # ys) = take k (content st (a # ys)) @ read_bytes (data_bytes st) d (unat len) @
        drop (k + unat len) (content st (a # ys))"
      using st'(3) w(2) mk r \<open>unat len = unat m + unat (len - m)\<close> kk by simp
    moreover have "data_bytes st' q = data_bytes st q" if "q \<notin> payloads st (a # ys)" for q
    proof -
      have "q \<notin> payloads s1 ys" "q \<notin> region st a" using that ra py by blast+
      then show ?thesis using spec [OF st'(4), of q] w(3) by simp
    qed
    moreover have "st' = st\<lparr>data_bytes := data_bytes st'\<rparr>" by (subst st'(2)) (simp add: s1)
    ultimately show ?thesis using True st'(1) cy(2) by auto
  qed
qed

text \<open>C39. Storing bytes at an offset replaces exactly that part of the content of the chain, across all pbufs, and touches no
  byte outside the payloads; a range that does not fit is refused with the state unchanged.\<close>

theorem pbuf_take_at_writes:
  assumes c: "chain st (Some h) as" and sep: "separate st as" and src: "payloads st as \<inter> bytes_at d (unat len) = {}"
  shows "if unat off < lens st as \<and> unat off + unat len \<le> lens st as
    then \<exists>st'. pbuf_take_at (Some h) (Some d) len off st = Some (ERR_OK, st') \<and> st' = st\<lparr>data_bytes := data_bytes st'\<rparr> \<and>
      content st' as = take (unat off) (content st as) @ read_bytes (data_bytes st) d (unat len) @
        drop (unat off + unat len) (content st as) \<and>
      (\<forall>q. q \<notin> payloads st as \<longrightarrow> data_bytes st' q = data_bytes st q)
    else pbuf_take_at (Some h) (Some d) len off st = Some (ERR_MEM, st)"
proof (cases "unat off < lens st as")
  case False
  then obtain r where "pbuf_skip_const (Some h) off st = Some (None, r)"
    using skip_chain(2) [of st "Some h" as off] c by (auto simp: chain_def)
  then show ?thesis using False by (simp add: pbuf_take_at_def pbuf_skip_def)
next
  case True
  obtain xs a ys r where s: "as = xs @ a # ys" "pbuf_skip_const (Some h) off st = Some (Some a, r)"
    "unat off = lens st xs + unat r" "unat r < plen st a"
    using skip_chain(1) [of st "Some h" as off] c True by (auto simp: chain_def)
  have ca: "chain st (Some a) (a # ys)" using content_suffix c s(1) by metis
  then obtain pl where pl: "pb_payload (pbufs st a) = Some pl" and tot: "unat (pb_tot_len (pbufs st a)) = plen st a + lens st ys"
    by (auto simp: chain_Some)
  have iff: "unat off + unat len \<le> lens st as \<longleftrightarrow> unat r + unat len \<le> unat (pb_tot_len (pbufs st a))"
    using s(1,3) tot by simp
  have "uint (pb_tot_len (pbufs st a)) \<ge> uint r + uint len \<longleftrightarrow>
      int (unat (pb_tot_len (pbufs st a))) \<ge> int (unat r) + int (unat len)" by simp
  then have wd: "uint (pb_tot_len (pbufs st a)) \<ge> uint r + uint len \<longleftrightarrow> unat off + unat len \<le> lens st as"
    unfolding iff by linarith
  show ?thesis
  proof (cases "unat off + unat len \<le> lens st as")
    case False
    then show ?thesis using s(2) wd by (simp add: pbuf_take_at_def pbuf_skip_def)
  next
    case fit: True
    have cs: "payloads st (a # ys) \<subseteq> payloads st as" using s(1) by (auto simp: payloads_def)
    have sp: "separate st (a # ys)" "\<forall>b \<in> set xs. \<forall>c \<in> set (a # ys). region st b \<inter> region st c = {}"
      using sep s(1) separate_append by metis+
    have fit': "unat r + unat len \<le> lens st (a # ys)" "unat r + unat len \<le> unat (pb_tot_len (pbufs st a))" using fit iff tot by simp_all
    have dj: "payloads st (a # ys) \<inter> bytes_at d (unat len) = {}" using cs src by blast
    note run = pbuf_take_at_run [OF s(2,4) fit'(2) pl refl, where d = d, unfolded Let_def]
    obtain st' where st': "pbuf_take_at (Some h) (Some d) len off st = Some (ERR_OK, st')" "st' = st\<lparr>data_bytes := data_bytes st'\<rparr>"
      "content st' (a # ys) = take (unat r) (content st (a # ys)) @ read_bytes (data_bytes st) d (unat len) @
        drop (unat r + unat len) (content st (a # ys))"
      "\<forall>q. q \<notin> payloads st (a # ys) \<longrightarrow> data_bytes st' q = data_bytes st q"
      using pbuf_take_here [OF ca sp(1) s(4) fit'(1) dj refl pl] unfolding run by blast
    have "content st' xs = content st xs"
    proof (rule content_frame)
      fix b q assume "b \<in> set xs" "q \<in> region st b"
      then have "q \<notin> payloads st (a # ys)" using sp(2) by (auto simp: payloads_def)
      then show "data_bytes st' q = data_bytes st q" using spec [OF st'(4), of q] by simp
    qed (subst st'(2), simp)
    then have "content st' as = take (unat off) (content st as) @ read_bytes (data_bytes st) d (unat len) @
        drop (unat off + unat len) (content st as)" using st'(3) s(1,3) by (simp del: content_simps(2) add: content_simps(3))
    moreover have "data_bytes st' q = data_bytes st q" if "q \<notin> payloads st as" for q
      using that cs spec [OF st'(4), of q] by blast
    ultimately show ?thesis using True fit st'(1,2) by auto
  qed
qed

lemma separate_net3: "separate net3 [(Ram, 8), (Ram, 40)]"
  by (auto simp: bytes_at_def net3_def net2_def)

theorem pbuf_take_at_writes_witness:
  "\<exists>st. pbuf_take_at (Some (Ram, 8)) (Some (Ext 0, 100)) 2 2 net3 = Some (ERR_OK, st) \<and>
    content st [(Ram, 8), (Ram, 40)] = [24, 25, 100, 101, 57] \<and>
    pbuf_take_at (Some (Ram, 8)) (Some (Ext 0, 100)) 2 4 net3 = Some (ERR_MEM, net3)"
proof -
  have d: "payloads net3 [(Ram, 8), (Ram, 40)] \<inter> bytes_at (Ext 0, 100) (unat (2 :: u16)) = {}"
    by (auto simp: payloads_def bytes_at_def net3_def net2_def)
  have "read_bytes (data_bytes net3) (Ext 0, 100) (unat (2 :: u16)) = [100, 101]"
    by code_simp
  then show ?thesis
    using pbuf_take_at_writes [OF chain_net3 separate_net3 d, of 2] pbuf_take_at_writes [OF chain_net3 separate_net3 d, of 4]
    unfolding content_net3 lens_net3 by auto
qed

section \<open>Copying from chain to chain\<close>

text \<open>The pbuf and the offset in it at which the next round starts.\<close>

lemma advance:
  assumes c: "chain st (Some f) (f # fs)" and k: "k \<le> plen st f" "k + r \<le> lens st (f # fs)" "0 < r"
    and pos: "\<forall>a \<in> set (f # fs). plen st a > 0"
  obtains xs g gs k' where "f # fs = xs @ g # gs" "(if k \<ge> plen st f then pb_next (pbufs st f) else Some f) = Some g"
    "k' = (if k \<ge> plen st f then 0 else k)" "k = lens st xs + k'" "k' < plen st g" "chain st (Some g) (g # gs)"
    "k' + r \<le> lens st (g # gs)"
proof (cases "k \<ge> plen st f")
  case True
  then have k: "k = plen st f" "r \<le> lens st fs" using k by simp_all
  then obtain g gs where fs: "fs = g # gs" using \<open>0 < r\<close> by (cases fs) auto
  have cf: "chain st (pb_next (pbufs st f)) fs" using c by (auto simp: chain_Some [of st f])
  then have nx: "pb_next (pbufs st f) = Some g" using fs by (auto simp: chain_def)
  show thesis
  proof (rule that [of "[f]" g gs 0])
    show "chain st (Some g) (g # gs)" using cf nx fs by simp
  qed (use True k fs nx pos in auto)
next
  case False
  show thesis
  proof (rule that [of "[]" f fs k])
    show "chain st (Some f) (f # fs)" by (rule c)
  qed (use False k in auto)
qed

lemma no_queue: "chain st p as \<Longrightarrow> \<forall>a \<in> set as. plen st a > 0 \<Longrightarrow>
    \<not> (case p of None \<Rightarrow> False | Some g \<Rightarrow> pb_len (pbufs st g) = pb_tot_len (pbufs st g) \<and> pb_next (pbufs st g) \<noteq> None)"
proof (cases p)
  case (Some g)
  assume "chain st p as" "\<forall>a \<in> set as. plen st a > 0"
  then obtain gs where g: "chain st (pb_next (pbufs st g)) gs" "unat (pb_tot_len (pbufs st g)) = plen st g + lens st gs"
    "\<forall>a \<in> set gs. plen st a > 0" using Some by (auto simp: chain_Some)
  show ?thesis
  proof (cases gs)
    case Nil
    then show ?thesis using g Some by (auto simp: chain_def)
  next
    case (Cons b bs)
    then have "unat (pb_tot_len (pbufs st g)) \<noteq> plen st g" using g by simp
    then show ?thesis using Some by auto
  qed
qed simp

lemma copy_round_ok:
  assumes t: "chain st (Some t) (t # ts)" and f: "chain st (Some f) (f # fs)"
    and pos: "\<forall>a \<in> set (t # ts). plen st a > 0" "\<forall>a \<in> set (f # fs). plen st a > 0"
    and k: "unat ot < plen st t" "unat k < plen st f"
    and fit: "unat ot + unat n \<le> lens st (t # ts)" "unat k + unat n \<le> lens st (f # fs)"
    and L: "L = min (unat n) (min (plen st t - unat ot) (plen st f - unat k))"
  defines "st1 \<equiv> MEMCPY (ptr_add (the (pb_payload (pbufs st t))) (int (unat ot)))
      (ptr_add (the (pb_payload (pbufs st f))) (int (unat k))) L st"
  shows "copy_round (Some t, Some f, n, ot, k) st =
    (if L = unat n then Some (Inl ERR_OK, st1)
     else Some (Inr (if unat ot + L \<ge> plen st t then pb_next (pbufs st t) else Some t,
       if unat k + L \<ge> plen st f then pb_next (pbufs st f) else Some f, of_nat (unat n - L),
       of_nat (if unat ot + L \<ge> plen st t then 0 else unat ot + L), of_nat (if unat k + L \<ge> plen st f then 0 else unat k + L)), st1))"
proof -
  have b: "plen st t < 65536" "plen st f < 65536" "unat n < 65536"
    using unsigned_less [of "pb_len (pbufs st t)"] unsigned_less [of "pb_len (pbufs st f)"] unsigned_less [of n] by simp_all
  define lt where "lt = (ucast (pb_len (pbufs st t)) :: u32)"
  define lf where "lf = (ucast (pb_len (pbufs st f)) :: u32)"
  have l: "unat lt = plen st t" "unat lf = plen st f" by (simp_all add: lt_def lf_def unat_ucast16)
  have d: "unat (lt - ot) = plen st t - unat ot" "unat (lf - k) = plen st f - unat k"
    using k l by (simp_all add: unat_sub word_le_nat_alt)
  define w where "w = min (ucast n) (if lt - ot \<ge> lf - k then lf - k else lt - ot)"
  have w: "unat w = L" using d by (auto simp: w_def L min_def word_le_nat_alt unat_ucast16)
  have L1: "L \<le> unat n" "unat ot + L \<le> plen st t" "unat k + L \<le> plen st f" using L k by auto
  then have "unat ot + L < 4294967296" "unat k + L < 4294967296" using b by simp_all
  then have wo: "unat (ot + w) = unat ot + L" "unat (k + w) = unat k + L"
    by (simp_all add: unat_word_ariths w)
  have "w = of_nat L" using word_eq_nat [OF w] by simp
  have cw: "unat (ucast w :: u16) = L"
    using w L1(1) b by (simp add: unsigned_ucast_eq take_bit_nat_eq_self_iff)
  then have nw: "n - ucast w = of_nat (unat n - L)"
    using L1(1) word_eq_nat [OF cw] by (simp add: of_nat_diff)
  have n0: "n - ucast w = 0 \<longleftrightarrow> L = unat n"
    unfolding right_minus_eq word_unat_eq_iff [of n] cw by auto
  obtain pt pf where p: "pb_payload (pbufs st t) = Some pt" "pb_payload (pbufs st f) = Some pf" using t f by (auto simp: chain_Some)
  have st1: "st1 = MEMCPY (ptr_add pt (uint ot)) (ptr_add pf (uint k)) (unat w) st" by (simp add: st1_def p w)
  have pb: "pbufs st1 = pbufs st" by (simp add: st1_def)
  have cond: "ot + w \<le> lt" "k + w \<le> lf" "(k + w \<ge> lf) = (unat k + L \<ge> plen st f)" "(ot + w = lt) = (unat ot + L \<ge> plen st t)"
    using wo l L1 by (auto simp: word_le_nat_alt word_unat_eq_iff)
  have nq: "\<not> (case (if unat k + L \<ge> plen st f then pb_next (pbufs st f) else Some f) of None \<Rightarrow> False
      | Some g \<Rightarrow> pb_len (pbufs st g) = pb_tot_len (pbufs st g) \<and> pb_next (pbufs st g) \<noteq> None)"
    "\<not> (case (if unat ot + L \<ge> plen st t then pb_next (pbufs st t) else Some t) of None \<Rightarrow> False
      | Some g \<Rightarrow> pb_len (pbufs st g) = pb_tot_len (pbufs st g) \<and> pb_next (pbufs st g) \<noteq> None)"
    using no_queue [OF f pos(2)] no_queue [OF t pos(1)] no_queue [of st "pb_next (pbufs st f)" fs]
      no_queue [of st "pb_next (pbufs st t)" ts] f t pos by (simp_all add: chain_Some)
  have ne: "(if unat k + L \<ge> plen st f then pb_next (pbufs st f) else Some f) \<noteq> None"
    "(if unat ot + L \<ge> plen st t then pb_next (pbufs st t) else Some t) \<noteq> None" if "L \<noteq> unat n"
  proof -
    have "0 < unat n - L" "unat k + L + (unat n - L) \<le> lens st (f # fs)" "unat ot + L + (unat n - L) \<le> lens st (t # ts)"
      using that L1(1) fit by simp_all
    with advance [OF f L1(3) _ _ pos(2), of "unat n - L"] advance [OF t L1(2) _ _ pos(1), of "unat n - L"]
    show "(if unat k + L \<ge> plen st f then pb_next (pbufs st f) else Some f) \<noteq> None"
      "(if unat ot + L \<ge> plen st t then pb_next (pbufs st t) else Some t) \<noteq> None" by fastforce+
  qed
  obtain k2 qf where A: "(if k + w \<ge> lf then (0, pb_next (pbufs st f)) else (k + w, Some f)) = (k2, qf)" by fastforce
  obtain ot2 qt where B: "(if ot + w = lt then (0, pb_next (pbufs st t)) else (ot + w, Some t)) = (ot2, qt)" by fastforce
  have q: "(if unat k + L \<ge> plen st f then pb_next (pbufs st f) else Some f) = qf"
    "(if unat ot + L \<ge> plen st t then pb_next (pbufs st t) else Some t) = qt"
    using A B unfolding cond(3,4) by (auto split: if_splits)
  note nq = nq [unfolded q] and ne = ne [unfolded q]
  have rest: "copy_round (Some t, Some f, n, ot, k) st =
     (if n - ucast w \<noteq> 0 then Some (Inr (qt, qf, n - ucast w, ot2, k2), st1) else Some (Inl ERR_OK, st1))"
  proof -
    have "copy_round (Some t, Some f, n, ot, k) st =
      (if \<not> (qf \<noteq> None \<or> n - ucast w = 0) then Some (Inl ERR_ARG, st1)
       else if \<not> (qt \<noteq> None \<or> n - ucast w = 0) then Some (Inl ERR_ARG, st1)
       else if n - ucast w \<noteq> 0 then Some (Inr (qt, qf, n - ucast w, ot2, k2), st1) else Some (Inl ERR_OK, st1))"
      unfolding copy_round_def prod.case option.case Let_def lt_def [symmetric] lf_def [symmetric] p w_def [symmetric]
        st1 [symmetric] pb A B
      using cond(1,2) nq by (simp only: not_True_eq_False if_False)
    then show ?thesis using ne n0 by auto
  qed
  have oo: "of_nat (unat k + L) = k + w" "of_nat (unat ot + L) = ot + w" using wo word_eq_nat by metis+
  have "k2 = of_nat (if unat k + L \<ge> plen st f then 0 else unat k + L)"
    "ot2 = of_nat (if unat ot + L \<ge> plen st t then 0 else unat ot + L)"
    using A [unfolded cond(3)] B [unfolded cond(4)] oo by (auto split: if_splits)
  then show ?thesis unfolding rest q using n0 nw by auto
qed

lemma splice:
  "k \<le> length c \<Longrightarrow> take (k + length d) (take k c @ d @ r) = take k c @ d"
  "k \<le> length c \<Longrightarrow> length d \<le> n \<Longrightarrow> drop (k + n) (take k c @ d @ drop (k + length d) c) = drop (k + n) c"
  by (simp_all add: add.commute)

lemma take_split: "l \<le> n \<Longrightarrow> take l (drop k c) @ take (n - l) (drop (k + l) c) = take n (drop k c)"
  using take_add [of l "n - l" "drop k c"] by (simp add: add.commute)

lemma copy_loop_ok:
  assumes "chain st (Some t) (t # ts)" "chain st (Some f) (f # fs)"
    "\<forall>a \<in> set (t # ts). plen st a > 0" "\<forall>a \<in> set (f # fs). plen st a > 0"
    "unat ot < plen st t" "unat k < plen st f"
    "unat ot + unat n \<le> lens st (t # ts)" "unat k + unat n \<le> lens st (f # fs)"
    "separate st (t # ts)" "payloads st (t # ts) \<inter> payloads st (f # fs) = {}"
  shows "\<exists>st'. copy_loop (Some t, Some f, n, ot, k) st = Some (ERR_OK, st') \<and> st' = st\<lparr>data_bytes := data_bytes st'\<rparr> \<and>
    content st' (t # ts) = take (unat ot) (content st (t # ts)) @ take (unat n) (drop (unat k) (content st (f # fs))) @
      drop (unat ot + unat n) (content st (t # ts)) \<and>
    (\<forall>q. q \<notin> payloads st (t # ts) \<longrightarrow> data_bytes st' q = data_bytes st q)"
  using assms
proof (induction "unat n" arbitrary: n t ts f fs ot k st rule: less_induct)
  case less
  note h = less.prems
  define L where "L = min (unat n) (min (plen st t - unat ot) (plen st f - unat k))"
  have L1: "L \<le> unat n" "unat ot + L \<le> plen st t" "unat k + L \<le> plen st f" using L_def h(5,6) by auto
  define s1 where "s1 = MEMCPY (ptr_add (the (pb_payload (pbufs st t))) (int (unat ot)))
      (ptr_add (the (pb_payload (pbufs st f))) (int (unat k))) L st"
  note rd = copy_round_ok [OF h(1-8) L_def, folded s1_def]
  let ?d = "take L (drop (unat k) (chunk st f))"
  have ld: "length ?d = L" using L1 by simp
  have s1: "s1 = st\<lparr>data_bytes := write_bytes (ptr_add (the (pb_payload (pbufs st t))) (int (unat ot))) ?d (data_bytes st)\<rparr>"
    using read_bytes_sub [of "unat k" L "plen st f" "data_bytes st" "the (pb_payload (pbufs st f))"] L1(3)
    by (simp only: s1_def MEMCPY_def chunk_def)
  have fit: "unat ot + length ?d \<le> plen st t" using ld L1 by simp
  note w = content_write [OF h(9) fit s1]
  have pb: "pbufs s1 = pbufs st" by (simp add: s1_def)
  have upd: "s1 = st\<lparr>data_bytes := data_bytes s1\<rparr>" by (simp add: s1)
  have rt: "region st t \<subseteq> payloads st (t # ts)" by (auto simp: payloads_def)
  have dF: "?d = take L (drop (unat k) (content st (f # fs)))" using L1 by simp
  have c1: "content s1 (t # ts) = take (unat ot) (content st (t # ts)) @ ?d @ drop (unat ot + L) (content st (t # ts))"
    using w(1) ld by simp
  show ?case
  proof (cases "L = unat n")
    case True
    then have "copy_loop (Some t, Some f, n, ot, k) st = Some (ERR_OK, s1)"
      using rd by (subst copy_loop.simps) simp
    moreover have "data_bytes s1 q = data_bytes st q" if "q \<notin> payloads st (t # ts)" for q using that rt w(3) by blast
    moreover have "content s1 (t # ts) = take (unat ot) (content st (t # ts)) @
        take (unat n) (drop (unat k) (content st (f # fs))) @ drop (unat ot + unat n) (content st (t # ts))"
      by (simp only: c1 dF, simp only: True)
    ultimately show ?thesis using upd by blast
  next
    case False
    then have pos: "0 < unat n - L" using L1(1) by simp
    have ft: "unat ot + L + (unat n - L) \<le> lens st (t # ts)" "unat k + L + (unat n - L) \<le> lens st (f # fs)" using h(7,8) L1(1) by simp_all
    obtain xs g gs k2 where g: "f # fs = xs @ g # gs" "(if unat k + L \<ge> plen st f then pb_next (pbufs st f) else Some f) = Some g"
      "k2 = (if unat k + L \<ge> plen st f then 0 else unat k + L)" "unat k + L = lens st xs + k2" "k2 < plen st g"
      "chain st (Some g) (g # gs)" "k2 + (unat n - L) \<le> lens st (g # gs)"
      by (rule advance [OF h(2) L1(3) ft(2) pos h(4)])
    obtain ys u us o2 where u: "t # ts = ys @ u # us" "(if unat ot + L \<ge> plen st t then pb_next (pbufs st t) else Some t) = Some u"
      "o2 = (if unat ot + L \<ge> plen st t then 0 else unat ot + L)" "unat ot + L = lens st ys + o2" "o2 < plen st u"
      "chain st (Some u) (u # us)" "o2 + (unat n - L) \<le> lens st (u # us)"
      by (rule advance [OF h(1) L1(2) ft(1) pos h(3)])
    define n2 where "n2 = (of_nat (unat n - L) :: u16)"
    have n2: "unat n2 = unat n - L" using u16_lt [of n] by (simp add: n2_def unat_of_nat)
    have small: "unat (of_nat o2 :: u32) = o2" "unat (of_nat k2 :: u32) = k2"
      using u(5) g(5) u16_lt [of "pb_len (pbufs st u)"] u16_lt [of "pb_len (pbufs st g)"]
      by (simp_all add: unat_of_nat)
    have run: "copy_loop (Some t, Some f, n, ot, k) st = copy_loop (Some u, Some g, n2, of_nat o2, of_nat k2) s1"
      using rd False unfolding g(2) u(2) g(3) [symmetric] u(3) [symmetric] n2_def [symmetric]
      by (subst copy_loop.simps) simp
    have sub: "set (u # us) \<subseteq> set (t # ts)" "set (g # gs) \<subseteq> set (f # fs)" using u(1) g(1) by auto
    have pay: "payloads s1 as = payloads st as" for as by (simp add: payloads_def pb)
    have psub: "payloads st (u # us) \<subseteq> payloads st (t # ts)" "payloads st (g # gs) \<subseteq> payloads st (f # fs)"
      using sub by (auto simp: payloads_def)
    have sp: "separate st (u # us)" "\<forall>b \<in> set ys. \<forall>c \<in> set (u # us). region st b \<inter> region st c = {}"
      using h(9) u(1) separate_append by metis+
    have seq: "separate s1 as = separate st as" for as by (induction as) (auto simp: pb)
    have ceq: "chain s1 p as = chain st p as" for p as by (rule chain_cong) (simp add: pb)
    have fF: "content s1 (g # gs) = content st (g # gs)"
    proof (rule content_frame)
      fix a q assume "a \<in> set (g # gs)" "q \<in> region st a"
      then have "q \<in> payloads st (f # fs)" using sub by (auto simp: payloads_def)
      then show "data_bytes s1 q = data_bytes st q" using h(10) rt by (intro w(3)) blast
    qed (rule pb)
    have "\<exists>st'. copy_loop (Some u, Some g, n2, of_nat o2, of_nat k2) s1 = Some (ERR_OK, st') \<and> st' = s1\<lparr>data_bytes := data_bytes st'\<rparr> \<and>
      content st' (u # us) = take (unat (of_nat o2 :: u32)) (content s1 (u # us)) @ take (unat n2) (drop (unat (of_nat k2 :: u32)) (content s1 (g # gs))) @
        drop (unat (of_nat o2 :: u32) + unat n2) (content s1 (u # us)) \<and>
      (\<forall>q. q \<notin> payloads s1 (u # us) \<longrightarrow> data_bytes st' q = data_bytes s1 q)"
    proof (rule less.hyps)
      show "unat n2 < unat n" using n2 pos h(5,6) by (simp add: L_def)
      show "payloads s1 (u # us) \<inter> payloads s1 (g # gs) = {}" using h(10) psub unfolding pay by blast
      show "\<forall>a \<in> set (u # us). plen s1 a > 0" "\<forall>a \<in> set (g # gs). plen s1 a > 0" using h(3,4) sub unfolding pb by blast+
    qed (use u(5-7) g(5-7) sp(1) n2 in \<open>simp_all only: small ceq seq pb\<close>)
    then obtain st' where st': "copy_loop (Some t, Some f, n, ot, k) st = Some (ERR_OK, st')" "st' = s1\<lparr>data_bytes := data_bytes st'\<rparr>"
      "content st' (u # us) = take o2 (content s1 (u # us)) @ take (unat n - L) (drop k2 (content st (g # gs))) @
        drop (o2 + (unat n - L)) (content s1 (u # us))"
      "\<forall>q. q \<notin> payloads st (u # us) \<longrightarrow> data_bytes st' q = data_bytes s1 q"
      unfolding run small n2 pay fF by blast
    have "content st' ys = content s1 ys"
    proof (rule content_frame)
      fix b q assume "b \<in> set ys" "q \<in> region s1 b"
      then have "q \<notin> payloads st (u # us)" using sp(2) unfolding pb by (auto simp: payloads_def)
      then show "data_bytes st' q = data_bytes s1 q" using spec [OF st'(4), of q] by simp
    qed (subst st'(2), simp)
    then have "content st' (t # ts) = take (unat ot + L) (content s1 (t # ts)) @ take (unat n - L) (drop (unat k + L) (content st (f # fs))) @
        drop (unat ot + L + (unat n - L)) (content s1 (t # ts))"
      unfolding u(1) g(1) u(4) g(4) content_simps(3) st'(3) by (simp add: pb)
    moreover have "take (unat ot + L) (content s1 (t # ts)) = take (unat ot) (content st (t # ts)) @ ?d"
      using splice(1) [of "unat ot" "content st (t # ts)" ?d] ld h(7) unfolding c1 by (simp only: length_content)
    moreover have "drop (unat ot + L + (unat n - L)) (content s1 (t # ts)) = drop (unat ot + unat n) (content st (t # ts))"
    proof -
      have "unat ot + L + (unat n - L) = unat ot + unat n" using L1(1) by simp
      then show ?thesis using splice(2) [of "unat ot" "content st (t # ts)" ?d "unat n"] ld h(7) L1(1)
        unfolding c1 by (simp only: length_content)
    qed
    moreover have "?d @ take (unat n - L) (drop (unat k + L) (content st (f # fs))) = take (unat n) (drop (unat k) (content st (f # fs)))"
      unfolding dF using L1(1) by (rule take_split)
    ultimately have "content st' (t # ts) = take (unat ot) (content st (t # ts)) @ take (unat n) (drop (unat k) (content st (f # fs))) @
      drop (unat ot + unat n) (content st (t # ts))" by (metis append_assoc)
    moreover have "data_bytes st' q = data_bytes st q" if "q \<notin> payloads st (t # ts)" for q
    proof -
      have "q \<notin> payloads st (u # us)" "q \<notin> region st t" using that psub(1) rt by blast+
      then show ?thesis using spec [OF st'(4), of q] w(3) [of q] by simp
    qed
    moreover have "st' = st\<lparr>data_bytes := data_bytes st'\<rparr>" by (subst st'(2), subst upd) simp
    ultimately show ?thesis using st'(1) by blast
  qed
qed

lemma pbuf_copy_partial_pbuf_ok:
  assumes t: "chain st (Some t) ts" and f: "chain st (Some f) fs"
    and pos: "\<forall>a \<in> set ts \<union> set fs. plen st a > 0" and off: "unat off < plen st t"
    and sep: "separate st ts" "payloads st ts \<inter> payloads st fs = {}"
  shows "if unat n \<le> lens st fs \<and> unat off + unat n \<le> lens st ts
    then \<exists>st'. pbuf_copy_partial_pbuf (Some t) (Some f) n off st = Some (ERR_OK, st') \<and> st' = st\<lparr>data_bytes := data_bytes st'\<rparr> \<and>
      content st' ts = take (unat off) (content st ts) @ take (unat n) (content st fs) @ drop (unat off + unat n) (content st ts) \<and>
      (\<forall>q. q \<notin> payloads st ts \<longrightarrow> data_bytes st' q = data_bytes st q)
    else pbuf_copy_partial_pbuf (Some t) (Some f) n off st = Some (ERR_ARG, st)"
proof -
  obtain ts' fs' where ts: "ts = t # ts'" and fs: "fs = f # fs'" using t f by (auto simp: chain_Some)
  have tot: "unat (pb_tot_len (pbufs st t)) = lens st ts" "unat (pb_tot_len (pbufs st f)) = lens st fs"
    using t f ts fs by (simp_all add: chain_def)
  have c1: "pb_tot_len (pbufs st f) \<ge> n \<longleftrightarrow> unat n \<le> lens st fs" using tot by (simp add: word_le_nat_alt)
  have "uint (pb_tot_len (pbufs st t)) \<ge> uint off + uint n \<longleftrightarrow> int (unat (pb_tot_len (pbufs st t))) \<ge> int (unat off) + int (unat n)"
    by simp
  then have c2: "uint (pb_tot_len (pbufs st t)) \<ge> uint off + uint n \<longleftrightarrow> unat off + unat n \<le> lens st ts"
    unfolding tot by linarith
  show ?thesis
  proof (cases "unat n \<le> lens st fs \<and> unat off + unat n \<le> lens st ts")
    case True
    have k: "unat (ucast off :: u32) = unat off" "unat (0 :: u32) = 0" by (simp_all only: unat_ucast16 unat_0)
    have kk: "unat (ucast off :: u32) < plen st t" "unat (0 :: u32) < plen st f" using off pos fs unfolding k by auto
    have fit: "unat (ucast off :: u32) + unat n \<le> lens st (t # ts')" "unat (0 :: u32) + unat n \<le> lens st (f # fs')"
      using True ts fs unfolding k by auto
    have "\<forall>a \<in> set (t # ts'). plen st a > 0" "\<forall>a \<in> set (f # fs'). plen st a > 0" using pos ts fs by auto
    from copy_loop_ok [OF t [unfolded ts] f [unfolded fs] this kk fit sep [unfolded ts fs]]
    have "\<exists>st'. copy_loop (Some t, Some f, n, ucast off, 0) st = Some (ERR_OK, st') \<and> st' = st\<lparr>data_bytes := data_bytes st'\<rparr> \<and>
      content st' ts = take (unat off) (content st ts) @ take (unat n) (content st fs) @ drop (unat off + unat n) (content st ts) \<and>
      (\<forall>q. q \<notin> payloads st ts \<longrightarrow> data_bytes st' q = data_bytes st q)"
      unfolding k ts [symmetric] fs [symmetric] drop_0 .
    moreover have "pbuf_copy_partial_pbuf (Some t) (Some f) n off st = copy_loop (Some t, Some f, n, ucast off, 0) st"
      using True c1 c2 by (simp add: pbuf_copy_partial_pbuf_def)
    ultimately show ?thesis using True by simp
  next
    case False
    then show ?thesis using c1 c2 by (auto simp: pbuf_copy_partial_pbuf_def)
  qed
qed

text \<open>C38. Copying from one chain into another replaces the given number of bytes of the target's content, from the offset on,
  by the first bytes of the source, however the two are cut into pbufs; lengths that do not fit are refused with the state
  unchanged.  No pbuf may be empty, and the offset has to lie in the target's first pbuf.\<close>

theorem pbuf_copy_partial_pbuf_copies:
  assumes "chain st (Some t) ts" "chain st (Some f) fs" "\<forall>a \<in> set ts \<union> set fs. plen st a > 0" "unat off < plen st t"
    "separate st ts" "payloads st ts \<inter> payloads st fs = {}"
  shows "if unat n \<le> lens st fs \<and> unat off + unat n \<le> lens st ts
    then \<exists>st'. pbuf_copy_partial_pbuf (Some t) (Some f) n off st = Some (ERR_OK, st') \<and> st' = st\<lparr>data_bytes := data_bytes st'\<rparr> \<and>
      content st' ts = take (unat off) (content st ts) @ take (unat n) (content st fs) @ drop (unat off + unat n) (content st ts) \<and>
      (\<forall>q. q \<notin> payloads st ts \<longrightarrow> data_bytes st' q = data_bytes st q)
    else pbuf_copy_partial_pbuf (Some t) (Some f) n off st = Some (ERR_ARG, st)"
  by (rule pbuf_copy_partial_pbuf_ok [OF assms])

text \<open>An example with a third pbuf as the target.\<close>

definition net4 :: net_mem where
  "net4 = net3\<lparr>pbufs := (pbufs net3)((Ram, 100) := \<lparr>pb_next = None, pb_payload = Some (Ram, 116), pb_tot_len = 6, pb_len = 6,
     pb_type_internal = 0x80, pb_flags = 0, pb_ref = 1, pb_if_idx = 0\<rparr>)\<rparr>"

theorem pbuf_copy_partial_pbuf_copies_witness:
  "\<exists>st. pbuf_copy_partial_pbuf (Some (Ram, 100)) (Some (Ram, 8)) 4 1 net4 = Some (ERR_OK, st) \<and>
    content st [(Ram, 100)] = [116, 24, 25, 26, 56, 121] \<and>
    pbuf_copy_partial_pbuf (Some (Ram, 100)) (Some (Ram, 8)) 6 0 net4 = Some (ERR_ARG, net4)"
proof -
  have c: "chain net4 (Some (Ram, 100)) [(Ram, 100)]" "chain net4 (Some (Ram, 8)) [(Ram, 8), (Ram, 40)]"
    by (simp_all add: chain_def net4_def net3_def net2_def)
  have p: "\<forall>a \<in> set [(Ram, 100)] \<union> set [(Ram, 8), (Ram, 40)]. plen net4 a > 0" "unat (1 :: u16) < plen net4 (Ram, 100)"
    "unat (0 :: u16) < plen net4 (Ram, 100)"
    by (simp_all add: net4_def net3_def net2_def)
  have s: "separate net4 [(Ram, 100)]" "payloads net4 [(Ram, 100)] \<inter> payloads net4 [(Ram, 8), (Ram, 40)] = {}"
    by (auto simp: payloads_def bytes_at_def net4_def net3_def net2_def)
  have l: "lens net4 [(Ram, 100)] = 6" "lens net4 [(Ram, 8), (Ram, 40)] = 5" by (simp_all add: net4_def net3_def net2_def)
  have d: "content net4 [(Ram, 100)] = [116, 117, 118, 119, 120, 121]" "content net4 [(Ram, 8), (Ram, 40)] = [24, 25, 26, 56, 57]"
    by code_simp+
  show ?thesis
    using pbuf_copy_partial_pbuf_copies [OF c p(1,2) s, of 4] pbuf_copy_partial_pbuf_copies [OF c p(1,3) s, of 6]
    unfolding l d by auto
qed

end
