(* ===== verification/Lwip_Def.thy ===== *)
theory Lwip_Def
  imports Prelude
begin

unbundle bit_operations_syntax

text \<open>
  Common functions of lwIP, \<^verbatim>\<open>lwip/src/core/def.c\<close>: byte order, and the replacements of non-standard
  string functions.  The target is little endian, \<^verbatim>\<open>char\<close> is unsigned, \<^verbatim>\<open>size_t\<close> has 32 bits.  A
  memory area is the list of its bytes from the pointer on; a read past its end is \<open>None\<close>.
\<close>

section \<open>Byte order\<close>

definition lwip_htons :: "u16 \<Rightarrow> u16" where
  "lwip_htons n = push_bit 8 (n AND 0x00ff) OR drop_bit 8 (n AND 0xff00)"

definition lwip_htonl :: "u32 \<Rightarrow> u32" where
  "lwip_htonl n = push_bit 24 (n AND 0x000000ff) OR push_bit 8 (n AND 0x0000ff00) OR
     drop_bit 8 (n AND 0x00ff0000) OR drop_bit 24 (n AND 0xff000000)"

lemma byte_masks16: "(0x00ff :: u16) = mask 8" "(0xff00 :: u16) = push_bit 8 (mask 8)"
  by (simp_all add: mask_eq_exp_minus_1 push_bit_eq_mult)

lemma byte_masks32:
  "(0x000000ff :: u32) = mask 8" "(0x0000ff00 :: u32) = push_bit 8 (mask 8)"
  "(0x00ff0000 :: u32) = push_bit 16 (mask 8)" "(0xff000000 :: u32) = push_bit 24 (mask 8)"
  by (simp_all add: mask_eq_exp_minus_1 push_bit_eq_mult)

lemma lwip_htons_bytes: "lwip_htons (le16 a b) = le16 b a"
  unfolding lwip_htons_def byte_masks16
  by (rule bit_word_eqI) (auto simp: le16_def bit_simps dest: bit_imp_le_length)

lemma lwip_htons_lo_hi: "lo8 (lwip_htons n) = hi8 n" "hi8 (lwip_htons n) = lo8 n"
  by (subst le16_lo8_hi8 [of n, symmetric], subst lwip_htons_bytes, simp)+

text \<open>The number whose bytes in memory order are \<open>a b c d\<close>.\<close>

definition le32 :: "u8 \<Rightarrow> u8 \<Rightarrow> u8 \<Rightarrow> u8 \<Rightarrow> u32" where
  "le32 a b c d = ucast a OR push_bit 8 (ucast b) OR push_bit 16 (ucast c) OR push_bit 24 (ucast d)"

lemma bit_le32:
  "bit (le32 a b c d) n \<longleftrightarrow> (if n < 8 then bit a n else if n < 16 then bit b (n - 8)
     else if n < 24 then bit c (n - 16) else bit d (n - 24))"
  by (auto simp: le32_def bit_simps dest: bit_imp_le_length)

lemma lwip_htonl_bytes: "lwip_htonl (le32 a b c d) = le32 d c b a"
  unfolding lwip_htonl_def byte_masks32
  by (rule bit_word_eqI) (auto simp: bit_le32 bit_simps dest: bit_imp_le_length)

lemma le32_ex: "\<exists>a b c d. n = le32 a b c d"
proof (intro exI)
  show "n = le32 (ucast n) (ucast (drop_bit 8 n)) (ucast (drop_bit 16 n)) (ucast (drop_bit 24 n))"
    by (rule bit_word_eqI) (auto simp: bit_le32 bit_simps)
qed

section \<open>Strings\<close>

text \<open>One round of the comparison loops: do two characters differ even when the case is ignored?\<close>

definition chr_differ :: "u8 \<Rightarrow> u8 \<Rightarrow> bool" where
  "chr_differ c1 c2 =
     (if c1 \<noteq> c2 then
        let c1_upc = c1 OR 0x20 in
        if c1_upc \<ge> 97 \<and> c1_upc \<le> 122
        then let c2_upc = c2 OR 0x20 in c1_upc \<noteq> c2_upc
        else True
      else False)"

fun lwip_stricmp :: "u8 list \<Rightarrow> u8 list \<Rightarrow> int option" where
  "lwip_stricmp (c1 # s1) (c2 # s2) =
     (if chr_differ c1 c2 then Some 1
      else if c1 \<noteq> 0 then lwip_stricmp s1 s2 else Some 0)"
| "lwip_stricmp _ _ = None"

fun lwip_strnicmp :: "u8 list \<Rightarrow> u8 list \<Rightarrow> u32 \<Rightarrow> int option" where
  "lwip_strnicmp (c1 # s1) (c2 # s2) len =
     (if chr_differ c1 c2 then Some 1
      else let len = len - 1 in
           if len \<noteq> 0 \<and> c1 \<noteq> 0 then lwip_strnicmp s1 s2 len else Some 0)"
| "lwip_strnicmp _ _ _ = None"

text \<open>\<^verbatim>\<open>strlen\<close> and \<open>strncmp(..) == 0\<close> of the C library.\<close>

fun strlen :: "u8 list \<Rightarrow> nat option" where
  "strlen [] = None"
| "strlen (c # s) = (if c = 0 then Some 0 else map_option Suc (strlen s))"

fun strncmp_eq :: "u8 list \<Rightarrow> u8 list \<Rightarrow> nat \<Rightarrow> bool option" where
  "strncmp_eq _ _ 0 = Some True"
| "strncmp_eq (c1 # s1) (c2 # s2) (Suc n) =
     (if c1 \<noteq> c2 then Some False else if c1 = 0 then Some True else strncmp_eq s1 s2 n)"
| "strncmp_eq _ _ (Suc n) = None"

text \<open>
  The two search loops; \<open>i\<close> is \<open>p - buffer\<close> and the list is the memory from \<open>p\<close> on.  The result is
  the offset of the returned pointer, or \<open>None\<close> inside for \<^verbatim>\<open>NULL\<close>.
\<close>

fun strnstr_loop :: "nat \<Rightarrow> u8 list \<Rightarrow> u8 list \<Rightarrow> nat \<Rightarrow> nat \<Rightarrow> nat option option" where
  "strnstr_loop i [] token tokenlen n = None"
| "strnstr_loop i (c # p) token tokenlen n =
     (if c \<noteq> 0 \<and> i + tokenlen \<le> n then
        do { eq \<leftarrow> (if c = hd token then strncmp_eq (c # p) token tokenlen else Some False);
             if eq then Some (Some i) else strnstr_loop (Suc i) p token tokenlen n }
      else Some None)"

definition lwip_strnstr :: "u8 list \<Rightarrow> u8 list \<Rightarrow> u32 \<Rightarrow> nat option option" where
  "lwip_strnstr buffer token n =
     do { tokenlen \<leftarrow> strlen token;
          if tokenlen = 0 then Some (Some 0) else strnstr_loop 0 buffer token tokenlen (unat n) }"

fun strnistr_loop :: "nat \<Rightarrow> u8 list \<Rightarrow> u8 list \<Rightarrow> nat \<Rightarrow> nat \<Rightarrow> nat option option" where
  "strnistr_loop i [] token tokenlen n = None"
| "strnistr_loop i (c # p) token tokenlen n =
     (if c \<noteq> 0 \<and> i + tokenlen \<le> n then
        do { r \<leftarrow> lwip_strnicmp (c # p) token (of_nat tokenlen);
             if r = 0 then Some (Some i) else strnistr_loop (Suc i) p token tokenlen n }
      else Some None)"

definition lwip_strnistr :: "u8 list \<Rightarrow> u8 list \<Rightarrow> u32 \<Rightarrow> nat option option" where
  "lwip_strnistr buffer token n =
     do { tokenlen \<leftarrow> strlen token;
          if tokenlen = 0 then Some (Some 0) else strnistr_loop 0 buffer token tokenlen (unat n) }"

section \<open>Numbers\<close>

text \<open>
  \<^verbatim>\<open>lwip_itoa\<close> on a buffer of \<open>length buf\<close> bytes.  The argument is a 32-bit \<^verbatim>\<open>int\<close>; for its least
  value \<open>- number\<close> overflows, which C leaves undefined: \<open>None\<close>.
\<close>

function itoa_loop :: "u8 list \<Rightarrow> nat \<Rightarrow> nat \<Rightarrow> nat \<Rightarrow> u8 list \<times> nat \<times> nat" where
  "itoa_loop buf res tmp n =
     (if n \<noteq> 0 \<and> tmp > res
      then itoa_loop (buf[tmp - 1 := 48 + of_nat (n mod 10)]) res (tmp - 1) (n div 10)
      else (buf, tmp, n))"
  by pat_completeness auto
termination by (relation "measure (\<lambda>(buf, res, tmp, n). tmp)") auto

declare itoa_loop.simps [simp del]

definition lwip_itoa :: "u8 list \<Rightarrow> int \<Rightarrow> u8 list option" where
  "lwip_itoa buf number =
     (let bufsize = length buf in
      if number = - (2 ^ 31) then None
      else if bufsize < 2 then (if bufsize = 1 then Some [0] else Some buf)
      else
        let n = nat (if number \<ge> 0 then number else - number);
            (buf, res) = (if number < 0 then (buf[0 := 45], 1) else (buf, 0));
            buf = buf[bufsize - 1 := 0];
            (buf, tmp, n) = itoa_loop buf res (bufsize - 1) n
        in if n \<noteq> 0 then Some (buf[0 := 0])
           else if buf ! tmp = 0 then Some (buf[res := 48, res + 1 := 0])
           else Some (take res buf @ drop tmp buf @ drop (res + (bufsize - tmp)) buf))"

section \<open>Comparison in constant time\<close>

fun consttime_loop :: "u8 \<Rightarrow> u8 list \<Rightarrow> u8 list \<Rightarrow> nat \<Rightarrow> u8 option" where
  "consttime_loop ret _ _ 0 = Some ret"
| "consttime_loop ret (x # a1) (y # a2) (Suc len) = consttime_loop (ret OR (x XOR y)) a1 a2 len"
| "consttime_loop ret _ _ (Suc len) = None"

definition lwip_memcmp_consttime :: "u8 list \<Rightarrow> u8 list \<Rightarrow> u32 \<Rightarrow> int option" where
  "lwip_memcmp_consttime s1 s2 len = map_option uint (consttime_loop 0 s1 s2 (unat len))"

section \<open>What the string functions compute\<close>

lemma consttime_loop_zero:
  "len \<le> length a1 \<Longrightarrow> len \<le> length a2 \<Longrightarrow>
    \<exists>r. consttime_loop ret a1 a2 len = Some r \<and> (r = 0 \<longleftrightarrow> ret = 0 \<and> take len a1 = take len a2)"
proof (induction ret a1 a2 len rule: consttime_loop.induct)
  case (2 ret x a1 y a2 len)
  have "x XOR y = 0 \<longleftrightarrow> x = y" by (metis xor.right_neutral xor.assoc xor_self_eq)
  then have "ret OR (x XOR y) = 0 \<longleftrightarrow> ret = 0 \<and> x = y" by (auto simp: or_eq_0_iff)
  with 2 show ?case by auto
qed auto

text \<open>Case-insensitive equality of letters, as the contract of \<^verbatim>\<open>stricmp\<close> has it.\<close>

definition to_lower :: "u8 \<Rightarrow> u8" where
  "to_lower c = (if 65 \<le> c \<and> c \<le> 90 then c + 32 else c)"

lemma or_20: "c OR 0x20 = (if bit c 5 then c else c + 0x20)" for c :: u8
proof -
  have b: "bit (0x20 :: u8) n \<longleftrightarrow> n = 5" for n
  proof -
    have "(0x20 :: u8) = push_bit 5 1" by (simp add: push_bit_eq_mult)
    then show ?thesis by (simp only: bit_simps) auto
  qed
  show ?thesis
  proof (cases "bit c 5")
    case True
    then have "c OR 0x20 = c" by (intro bit_word_eqI) (simp only: bit_or_iff b, auto)
    with True show ?thesis by simp
  next
    case False
    then have "c AND 0x20 = 0" by (intro bit_word_eqI) (simp only: bit_and_iff b, auto)
    then have "c + 0x20 = c OR 0x20" by (rule disjunctive_add_eq_or)
    with False show ?thesis by simp
  qed
qed

lemma to_lower_eq: "to_lower c = (if 97 \<le> c OR 0x20 \<and> c OR 0x20 \<le> 122 then c OR 0x20 else c)"
proof -
  have lt: "unat c < 256" using unsigned_less [of c, where 'a = nat] by simp
  have ad: "unat (c + 0x20) = (unat c + 32) mod 256" by (simp add: unat_word_ariths)
  define q r where "q = unat c div 32" and "r = unat c mod 32"
  have b: "bit c 5 \<longleftrightarrow> odd q" by (simp add: q_def bit_iff_odd unat_div word_arith_nat_div)
  have c: "unat c = 32 * q + r" "r < 32" and q: "q < 8" using lt by (auto simp: q_def r_def)
  from q consider "q = 0" | "q = 1" | "q = 2" | "q = 3" | "q = 4" | "q = 5" | "q = 6" | "q = 7" by linarith
  then show ?thesis
    by cases (use c in \<open>simp_all add: to_lower_def or_20 b ad word_le_nat_alt\<close>)
qed

lemma chr_differ_iff: "chr_differ c1 c2 \<longleftrightarrow> to_lower c1 \<noteq> to_lower c2"
proof -
  have idem: "(c OR 0x20) OR 0x20 = c OR 0x20" for c :: u8 by (simp add: or.assoc)
  show ?thesis
    unfolding chr_differ_def to_lower_eq Let_def using idem [of c1] idem [of c2]
    by (auto split: if_splits)
qed

lemma to_lower_0 [simp]: "to_lower c = 0 \<longleftrightarrow> c = 0"
  by (auto simp: to_lower_def) (simp add: word_le_nat_alt unat_arith_simps)

text \<open>C strings: the characters before the terminating zero.\<close>

definition c_string :: "u8 list \<Rightarrow> u8 list \<Rightarrow> bool" where
  "c_string m s \<longleftrightarrow> 0 \<notin> set s \<and> (\<exists>rest. m = s @ 0 # rest)"

lemma c_string_Cons: "c_string (c # m) s \<longleftrightarrow> (if c = 0 then s = [] else \<exists>s'. s = c # s' \<and> c_string m s')"
  by (cases s) (auto simp: c_string_def)

lemma c_string_Nil [simp]: "\<not> c_string [] s"
  by (simp add: c_string_def)

lemma strlen_cstr: "c_string m s \<Longrightarrow> strlen m = Some (length s)"
  by (induction m arbitrary: s) (auto simp: c_string_Cons split: if_splits)

lemma stricmp_cstr:
  "c_string m1 s1 \<Longrightarrow> c_string m2 s2 \<Longrightarrow> lwip_stricmp m1 m2 = Some (if map to_lower s1 = map to_lower s2 then 0 else 1)"
proof (induction m1 m2 arbitrary: s1 s2 rule: lwip_stricmp.induct)
  case (1 c1 m1 c2 m2)
  then show ?case
    by (auto simp: c_string_Cons chr_differ_iff split: if_splits) (metis to_lower_0)+
qed simp_all

lemma strncmp_eq_cstr:
  "c_string m1 s1 \<Longrightarrow> c_string m2 s2 \<Longrightarrow> n \<le> length s2 \<Longrightarrow> strncmp_eq m1 m2 n = Some (take n s1 = take n s2)"
  by (induction m1 m2 n arbitrary: s1 s2 rule: strncmp_eq.induct)
    (auto simp: c_string_Cons split: if_splits)

text \<open>The first position at which \<open>P\<close> holds, among the first \<open>k\<close>.\<close>

definition first_pos :: "(nat \<Rightarrow> bool) \<Rightarrow> nat \<Rightarrow> nat option" where
  "first_pos P k = List.find P [0..<k]"

lemma first_pos_Some: "first_pos P k = Some i \<longleftrightarrow> i < k \<and> P i \<and> (\<forall>j<i. \<not> P j)"
  by (auto simp: first_pos_def find_Some_iff)

lemma first_pos_None: "first_pos P k = None \<longleftrightarrow> (\<forall>j<k. \<not> P j)"
  by (auto simp: first_pos_def find_None_iff)

lemma first_pos_cases:
  "first_pos P k = (if 0 < k then if P 0 then Some 0 else map_option Suc (first_pos (\<lambda>i. P (Suc i)) (k - 1)) else None)"
proof (cases k)
  case (Suc k')
  have "List.find P (map Suc xs) = map_option Suc (List.find (\<lambda>i. P (Suc i)) xs)" for xs
    by (induction xs) auto
  with Suc show ?thesis by (simp add: first_pos_def upt_conv_Cons del: upt_Suc flip: map_Suc_upt)
qed (simp add: first_pos_def)

lemma first_pos_bound_Suc:
  "b \<noteq> 0 \<Longrightarrow> first_pos P b = (if P 0 then Some 0 else map_option Suc (first_pos (\<lambda>i. P (Suc i)) (b - 1)))"
  by (subst first_pos_cases) simp

lemma strnstr_loop_cstr:
  assumes tok: "c_string token t" "t \<noteq> []"
  shows "c_string m s \<Longrightarrow> strnstr_loop i m token (length t) n =
    Some (map_option ((+) i) (first_pos (\<lambda>j. take (length t) (drop j s) = t)
      (min (length s) (n + 1 - (i + length t)))))"
proof (induction m arbitrary: i s)
  case (Cons c p)
  show ?case
  proof (cases "c \<noteq> 0 \<and> i + length t \<le> n")
    case False
    with Cons(2) show ?thesis by (auto simp: c_string_Cons first_pos_def split: if_splits)
  next
    case True
    with Cons(2) obtain s' where s: "s = c # s'" "c_string p s'" by (auto simp: c_string_Cons)
    have hd: "hd token = hd t" using tok by (auto simp: c_string_def)
    have eq: "(if c = hd token then strncmp_eq (c # p) token (length t) else Some False) =
        Some (take (length t) s = t)"
      using strncmp_eq_cstr [OF Cons(2) tok(1), of "length t"] tok(2) by (cases t) (auto simp: hd s)
    have b: "min (length s) (n + 1 - (i + length t)) \<noteq> 0" using True s by simp
    have b1: "min (length s) (n + 1 - (i + length t)) - 1 = min (length s') (n + 1 - (Suc i + length t))"
      using True s by simp
    show ?thesis
      unfolding first_pos_bound_Suc [OF b] b1
      using True by (simp add: eq Cons.IH [OF s(2)]) (simp add: s(1) option.map_comp comp_def)
  qed
qed simp

text \<open>The number of characters that \<open>lwip_strnicmp\<close> looks at: with 0 its counter wraps.\<close>

definition strnicmp_len :: "u32 \<Rightarrow> nat" where
  "strnicmp_len n = (if n = 0 then 2 ^ 32 else unat n)"

lemma strnicmp_len_1 [simp]: "strnicmp_len 1 = 1"
  by (simp add: strnicmp_len_def)

lemma strnicmp_cstr:
  "c_string m1 s1 \<Longrightarrow> c_string m2 s2 \<Longrightarrow> lwip_strnicmp m1 m2 n =
    Some (if map to_lower (take (strnicmp_len n) s1) = map to_lower (take (strnicmp_len n) s2) then 0 else 1)"
proof (induction m1 m2 n arbitrary: s1 s2 rule: lwip_strnicmp.induct)
  case (1 c1 m1 c2 m2 n)
  have len: "strnicmp_len n = Suc (unat (n - 1))"
    by (cases "n = 0") (simp_all add: strnicmp_len_def unat_minus_one unsigned_minus_1_eq_mask mask_eq_exp_minus_1 Suc_pred unat_gt_0)
  have len': "n - 1 \<noteq> 0 \<Longrightarrow> strnicmp_len (n - 1) = unat (n - 1)" by (simp add: strnicmp_len_def)
  show ?case
  proof (cases "chr_differ c1 c2")
    case True
    with 1(2,3) show ?thesis
      by (auto simp: c_string_Cons chr_differ_iff len split: if_splits)
  next
    case False
    then have z: "c1 = 0 \<longleftrightarrow> c2 = 0" by (metis chr_differ_iff to_lower_0)
    show ?thesis
      using False z 1 len' by (cases "n - 1 = 0") (auto simp: c_string_Cons chr_differ_iff len split: if_splits)
  qed
qed simp_all

lemma strnistr_loop_cstr:
  assumes tok: "c_string token t" "t \<noteq> []" and len: "length t < 2 ^ 32"
  shows "c_string m s \<Longrightarrow> strnistr_loop i m token (length t) n =
    Some (map_option ((+) i) (first_pos (\<lambda>j. map to_lower (take (length t) (drop j s)) = map to_lower t)
      (min (length s) (n + 1 - (i + length t)))))"
proof (induction m arbitrary: i s)
  case (Cons c p)
  show ?case
  proof (cases "c \<noteq> 0 \<and> i + length t \<le> n")
    case False
    with Cons(2) show ?thesis by (auto simp: c_string_Cons first_pos_def split: if_splits)
  next
    case True
    with Cons(2) obtain s' where s: "s = c # s'" "c_string p s'" by (auto simp: c_string_Cons)
    have k: "strnicmp_len (of_nat (length t)) = length t"
      using len tok(2) by (simp add: strnicmp_len_def unat_of_nat take_bit_nat_eq_self word_of_nat_eq_0_iff
          nat_dvd_not_less)
    have eq: "lwip_strnicmp (c # p) token (of_nat (length t)) =
        Some (if map to_lower (take (length t) s) = map to_lower t then 0 else 1)"
      using strnicmp_cstr [OF Cons(2) tok(1), of "of_nat (length t)"] by (simp add: k)
    have b: "min (length s) (n + 1 - (i + length t)) \<noteq> 0" using True s by simp
    have b1: "min (length s) (n + 1 - (i + length t)) - 1 = min (length s') (n + 1 - (Suc i + length t))"
      using True s by simp
    show ?thesis
      unfolding first_pos_bound_Suc [OF b] b1
      using True by (simp add: eq Cons.IH [OF s(2)]) (simp add: s(1) option.map_comp comp_def)
  qed
qed simp

section \<open>Decimal output\<close>

fun digits_of :: "nat \<Rightarrow> u8 list" where
  "digits_of n = (if n = 0 then [] else digits_of (n div 10) @ [48 + of_nat (n mod 10)])"

declare digits_of.simps [simp del]

lemma digits_of_0 [simp]: "digits_of 0 = []"
  by (subst digits_of.simps) simp

lemma digits_of_pos: "0 < n \<Longrightarrow> digits_of n = digits_of (n div 10) @ [48 + of_nat (n mod 10)]"
  by (subst digits_of.simps) simp

lemma digit_nonzero: "(48 + of_nat (n mod 10) :: u8) \<noteq> 0"
proof -
  have "unat (48 + of_nat (n mod 10) :: u8) = 48 + n mod 10"
    by (simp add: unat_word_ariths unat_of_nat)
  then show ?thesis by force
qed

lemma digits_of_nonzero: "0 \<notin> set (digits_of n)"
proof (induction n rule: digits_of.induct)
  case (1 n)
  then show ?case by (cases "n = 0") (auto simp: digits_of_pos digit_nonzero dest: sym)
qed

lemma itoa_loop_writes:
  "res \<le> tmp \<Longrightarrow> tmp < length buf \<Longrightarrow>
    (if length (digits_of n) \<le> tmp - res
     then itoa_loop buf res tmp n = (take (tmp - length (digits_of n)) buf @ digits_of n @ drop tmp buf,
       tmp - length (digits_of n), 0)
     else snd (snd (itoa_loop buf res tmp n)) \<noteq> 0)"
proof (induction buf res tmp n rule: itoa_loop.induct)
  case (1 buf res tmp n)
  show ?case
  proof (cases "n \<noteq> 0 \<and> res < tmp")
    case False
    then have "itoa_loop buf res tmp n = (buf, tmp, n)" by (subst itoa_loop.simps) auto
    with False 1(2,3) show ?thesis by (cases "n = 0") (auto simp: digits_of_pos)
  next
    case True
    let ?b = "buf[tmp - 1 := 48 + of_nat (n mod 10)]"
    have step: "itoa_loop buf res tmp n = itoa_loop ?b res (tmp - 1) (n div 10)"
      using True by (subst itoa_loop.simps) simp
    have dr: "drop (tmp - 1) ?b = (48 + of_nat (n mod 10)) # drop tmp buf"
      using True 1(3) Cons_nth_drop_Suc [of "tmp - 1" ?b] by simp
    have dg: "digits_of n = digits_of (n div 10) @ [48 + of_nat (n mod 10)]"
      using True by (simp add: digits_of_pos)
    have "(if length (digits_of (n div 10)) \<le> tmp - 1 - res
       then itoa_loop ?b res (tmp - 1) (n div 10) =
         (take (tmp - 1 - length (digits_of (n div 10))) ?b @ digits_of (n div 10) @ drop (tmp - 1) ?b,
          tmp - 1 - length (digits_of (n div 10)), 0)
       else snd (snd (itoa_loop ?b res (tmp - 1) (n div 10))) \<noteq> 0)"
      using True 1(2,3) by (intro 1(1)) auto
    then show ?thesis
      using True unfolding step dg by (auto simp: dr [unfolded One_nat_def] split: if_splits)
  qed
qed

text \<open>The decimal text of a number.\<close>

definition decimal :: "int \<Rightarrow> u8 list" where
  "decimal k = (if k < 0 then [45] else []) @ (if k = 0 then [48] else digits_of (nat \<bar>k\<bar>))"

lemma itoa_finish:
  assumes b: "length b = N" "drop (N - 1) b = [0]" "res < N" and n: "0 < n"
  defines "ds \<equiv> digits_of n"
  shows "\<exists>b' tmp n'. itoa_loop b res (N - 1) n = (b', tmp, n') \<and> length b' = N \<and>
    (if length ds + res < N
     then n' = 0 \<and> b' ! tmp \<noteq> 0 \<and> (\<exists>rest. take res b' @ drop tmp b' @ drop (res + (N - tmp)) b' =
        take res b @ ds @ 0 # rest \<and> length ds + res + 1 + length rest = N)
     else n' \<noteq> 0)"
proof -
  have ds: "ds \<noteq> []" using n by (simp add: ds_def digits_of_pos)
  have nz: "hd ds \<noteq> 0" using ds digits_of_nonzero [of n] by (metis ds_def hd_in_set)
  have len: "length (fst (itoa_loop b res m k)) = length b" for b m k
    by (induction b res m k rule: itoa_loop.induct) (subst itoa_loop.simps, simp)
  have wr: "if length ds \<le> N - 1 - res
     then itoa_loop b res (N - 1) n = (take (N - 1 - length ds) b @ ds @ [0], N - 1 - length ds, 0)
     else snd (snd (itoa_loop b res (N - 1) n)) \<noteq> 0"
  proof -
    have "res \<le> N - 1" "N - 1 < length b" using b by auto
    from itoa_loop_writes [OF this, of n, unfolded b(2)] show ?thesis by (simp only: ds_def)
  qed
  show ?thesis
  proof (cases "length ds + res < N")
    case True
    define t where "t = N - 1 - length ds"
    have t: "res \<le> t" "t + (length ds + 1) = N" using True by (simp_all add: t_def)
    let ?X = "take t b @ ds @ [0]"
    have X: "length ?X = N" "drop t ?X = ds @ [0]" "take res ?X = take res b" "?X ! t = hd ds"
      using t b ds by (simp_all add: nth_append hd_conv_nth min_def)
    have run: "itoa_loop b res (N - 1) n = (?X, t, 0)"
    proof -
      have "length ds \<le> N - 1 - res" using True by simp
      with wr show ?thesis unfolding t_def by presburger
    qed
    have rest: "\<exists>rest. take res ?X @ drop t ?X @ drop (res + (N - t)) ?X = take res b @ ds @ 0 # rest \<and>
        length ds + res + 1 + length rest = N"
    proof (intro exI conjI)
      show "take res ?X @ drop t ?X @ drop (res + (N - t)) ?X = take res b @ ds @ 0 # drop (res + (N - t)) ?X"
        unfolding X(2,3) by simp
      show "length ds + res + 1 + length (drop (res + (N - t)) ?X) = N"
        unfolding length_drop X(1) using t by simp
    qed
    show ?thesis
      by (intro exI conjI) (rule run, rule X(1), use True rest X(4) nz in \<open>simp only: if_True simp_thms\<close>)
  next
    case False
    obtain b' m n' where l: "itoa_loop b res (N - 1) n = (b', m, n')" by (cases "itoa_loop b res (N - 1) n")
    have "\<not> length ds \<le> N - 1 - res" using False b(3) by simp
    with wr l have "n' \<noteq> 0" by (simp only: if_False) simp
    moreover have "length b' = N" using len [of b "N - 1" n] b(1) l by simp
    ultimately show ?thesis using False l by (intro exI conjI) (rule l, simp_all)
  qed
qed

lemma itoa_text:
  assumes "2 \<le> length buf" "- (2 ^ 31) < k"
  shows "\<exists>r. lwip_itoa buf k = Some r \<and> length r = length buf \<and>
    (if length (decimal k) < length buf then take (length (decimal k) + 1) r = decimal k @ [0] else r ! 0 = 0)"
proof (cases "k = 0")
  case True
  let ?b = "buf[length buf - 1 := 0]"
  have "itoa_loop ?b 0 (length buf - 1) 0 = (?b, length buf - 1, 0)" by (subst itoa_loop.simps) simp
  moreover obtain x y xs where "?b = x # y # xs"
    using assms(1) by (metis One_nat_def Suc_1 Suc_le_length_iff length_list_update)
  moreover from this have "length buf = Suc (Suc (length xs))" by (metis length_Cons length_list_update)
  moreover have "?b ! (length buf - 1) = 0" using assms(1) by simp
  ultimately show ?thesis using True assms by (auto simp: lwip_itoa_def decimal_def)
next
  case False
  let ?res = "if k < 0 then 1 else 0 :: nat"
  let ?b = "(if k < 0 then buf[0 := 45] else buf)[length buf - 1 := 0]"
  have "length ?b = length buf" "drop (length buf - 1) ?b = [0]" "?res < length buf"
    using assms(1) Cons_nth_drop_Suc [of "length buf - 1" ?b] by auto
  from itoa_finish [OF this, of "nat \<bar>k\<bar>"] False obtain b' tmp n' where
    l: "itoa_loop ?b ?res (length buf - 1) (nat \<bar>k\<bar>) = (b', tmp, n')" "length b' = length buf"
      "if length (digits_of (nat \<bar>k\<bar>)) + ?res < length buf
       then n' = 0 \<and> b' ! tmp \<noteq> 0 \<and> (\<exists>rest. take ?res b' @ drop tmp b' @ drop (?res + (length buf - tmp)) b' =
         take ?res ?b @ digits_of (nat \<bar>k\<bar>) @ 0 # rest \<and>
         length (digits_of (nat \<bar>k\<bar>)) + ?res + 1 + length rest = length buf)
       else n' \<noteq> 0" by auto
  have sgn: "take ?res ?b = (if k < 0 then [45] else [])"
    using assms(1) by (cases buf) (auto simp: take_Suc nth_list_update)
  have dec: "decimal k = take ?res ?b @ digits_of (nat \<bar>k\<bar>)"
    unfolding decimal_def sgn using False by simp
  have dec_len: "length (decimal k) = ?res + length (digits_of (nat \<bar>k\<bar>))"
    unfolding decimal_def using False by simp
  have run: "lwip_itoa buf k = Some (if n' \<noteq> 0 then b'[0 := 0]
     else if b' ! tmp = 0 then b'[?res := 48, ?res + 1 := 0]
     else take ?res b' @ drop tmp b' @ drop (?res + (length buf - tmp)) b')"
    using assms l(1) by (auto simp: lwip_itoa_def Let_def split: if_splits)
  show ?thesis
  proof (cases "length (decimal k) < length buf")
    case True
    with l(3) dec_len obtain rest where "n' = 0" "b' ! tmp \<noteq> 0"
      "take ?res b' @ drop tmp b' @ drop (?res + (length buf - tmp)) b' = decimal k @ 0 # rest"
      "length (decimal k) + 1 + length rest = length buf" unfolding dec by auto
    with True run show ?thesis by simp
  next
    case False
    moreover have "b'[0 := 0] ! 0 = 0" using l(2) assms(1) by (intro nth_list_update_eq) linarith
    ultimately show ?thesis using l(2,3) dec_len run by auto
  qed
qed

section \<open>Properties\<close>

text \<open>\<open>lwip_htons\<close> exchanges the two bytes and \<open>lwip_htonl\<close> reverses the four, so each undoes itself.\<close>

theorem byte_order_roundtrip:
  "lwip_htons (le16 a b) = le16 b a \<and> lwip_htons (lwip_htons n) = n \<and>
   lwip_htonl (le32 a b c d) = le32 d c b a \<and> lwip_htonl (lwip_htonl m) = m"
proof -
  have "lwip_htons (lwip_htons n) = n"
    by (metis le16_lo8_hi8 lwip_htons_bytes)
  moreover have "lwip_htonl (lwip_htonl m) = m"
    using le32_ex [of m] by (auto simp: lwip_htonl_bytes)
  ultimately show ?thesis by (simp add: lwip_htons_bytes lwip_htonl_bytes)
qed

text \<open>On terminated strings \<open>lwip_stricmp\<close> answers 0 exactly for strings equal up to case, and
  \<open>lwip_strnicmp\<close> does so for the first \<open>n\<close> characters; with \<open>n = 0\<close>, where the C library's function compares
  nothing, its counter wraps and it compares \<open>2 ^ 32\<close> characters.\<close>

theorem stricmp_correct:
  assumes "c_string m1 s1" "c_string m2 s2"
  shows "lwip_stricmp m1 m2 = Some (if map to_lower s1 = map to_lower s2 then 0 else 1) \<and>
    lwip_strnicmp m1 m2 n =
      Some (if map to_lower (take (strnicmp_len n) s1) = map to_lower (take (strnicmp_len n) s2) then 0 else 1)"
  using stricmp_cstr [OF assms] strnicmp_cstr [OF assms] by simp

theorem stricmp_correct_witness:
  "lwip_stricmp [0x41, 0x62, 0] [0x61, 0x42, 0] = Some 0 \<and> lwip_strnicmp [0x41, 0x62, 0] [0x61, 0x42, 0] 0 = Some 0"
proof -
  have "c_string [0x41, 0x62, 0] [0x41, 0x62]" "c_string [0x61, 0x42, 0] [0x61, 0x42]" by (simp_all add: c_string_Cons)
  from stricmp_correct [OF this, of 0] show ?thesis by (simp add: to_lower_def strnicmp_len_def)
qed

text \<open>\<open>lwip_strnstr\<close> returns the first position at which the token occurs in the string and ends within
  \<open>n\<close> characters, and \<^verbatim>\<open>NULL\<close> when there is none; \<open>lwip_strnistr\<close> the same up to case.  Neither
  reads beyond the terminating zeros.\<close>

theorem strnstr_correct:
  assumes "c_string m s" "c_string token t" "length t < 2 ^ 32"
  shows "lwip_strnstr m token n = Some (if t = [] then Some 0 else
      first_pos (\<lambda>j. take (length t) (drop j s) = t) (min (length s) (unat n + 1 - length t))) \<and>
    lwip_strnistr m token n = Some (if t = [] then Some 0 else
      first_pos (\<lambda>j. map to_lower (take (length t) (drop j s)) = map to_lower t)
        (min (length s) (unat n + 1 - length t)))"
proof (cases "t = []")
  case True
  with strlen_cstr [OF assms(2)] show ?thesis by (simp add: lwip_strnstr_def lwip_strnistr_def)
next
  case False
  have id: "map_option ((+) 0) z = z" for z :: "nat option" by (cases z) auto
  from strnstr_loop_cstr [OF assms(2) False assms(1), of 0 "unat n"]
    strnistr_loop_cstr [OF assms(2) False assms(3,1), of 0 "unat n"] False
  show ?thesis by (simp add: lwip_strnstr_def lwip_strnistr_def strlen_cstr [OF assms(2)] id)
qed

theorem strnstr_correct_witness:
  "lwip_strnstr [0x61, 0x62, 0x61, 0x63, 0] [0x61, 0x63, 0] 4 = Some (Some 2) \<and>
   lwip_strnistr [0x61, 0x62, 0x41, 0x63, 0] [0x61, 0x43, 0] 4 = Some (Some 2)"
proof -
  have s: "c_string [0x61, 0x62, 0x61, 0x63, 0] [0x61, 0x62, 0x61, 0x63]" "c_string [0x61, 0x63, 0] [0x61, 0x63]"
    "c_string [0x61, 0x62, 0x41, 0x63, 0] [0x61, 0x62, 0x41, 0x63]" "c_string [0x61, 0x43, 0] [0x61, 0x43]"
    by (simp_all add: c_string_Cons)
  from strnstr_correct [OF s(1,2), of 4] strnstr_correct [OF s(3,4), of 4] show ?thesis
    by (simp add: first_pos_def upt_rec to_lower_def)
qed

text \<open>\<open>lwip_itoa\<close>, for every \<^verbatim>\<open>int\<close> but the least one, writes the decimal text and a terminating zero when
  they fit in the buffer, and an empty string when they do not; the buffer keeps its length.\<close>

theorem itoa_correct:
  assumes "2 \<le> length buf" "- (2 ^ 31) < k"
  shows "\<exists>r. lwip_itoa buf k = Some r \<and> length r = length buf \<and>
    (if length (decimal k) < length buf then take (length (decimal k) + 1) r = decimal k @ [0] else r ! 0 = 0)"
  using assms by (rule itoa_text)

theorem itoa_correct_witness:
  "\<exists>r. lwip_itoa (replicate 5 0xff) (- 120) = Some r \<and> take 5 r = [45, 49, 50, 48, 0]"
proof -
  have "decimal (- 120) = [45, 49, 50, 48]" by (simp add: decimal_def digits_of_pos)
  with itoa_correct [of "replicate 5 0xff" "- 120"] show ?thesis by auto
qed

text \<open>\<open>lwip_memcmp_consttime\<close> answers 0 exactly when the first \<open>len\<close> bytes agree.\<close>

theorem memcmp_consttime_correct:
  assumes "unat len \<le> length s1" "unat len \<le> length s2"
  shows "\<exists>r. lwip_memcmp_consttime s1 s2 len = Some r \<and> (r = 0 \<longleftrightarrow> take (unat len) s1 = take (unat len) s2)"
proof -
  from consttime_loop_zero [OF assms, of 0] obtain r where
    r: "consttime_loop 0 s1 s2 (unat len) = Some r" "r = 0 \<longleftrightarrow> take (unat len) s1 = take (unat len) s2" by auto
  have "uint r = 0 \<longleftrightarrow> r = 0" by (simp add: unsigned_eq_0_iff)
  with r show ?thesis by (simp add: lwip_memcmp_consttime_def)
qed

theorem memcmp_consttime_correct_witness:
  "\<exists>r. lwip_memcmp_consttime [1, 2, 3] [1, 2, 4] 2 = Some r \<and> r = 0"
  using memcmp_consttime_correct [of 2 "[1, 2, 3]" "[1, 2, 4]"] by simp

end
