(* ===== verification/Lwip_Ip4Addr.thy ===== *)
theory Lwip_Ip4Addr
  imports Lwip_Def Lwip_Types
begin

unbundle bit_operations_syntax

text \<open>
  IPv4 addresses, \<^verbatim>\<open>lwip/src/core/ipv4/ip4_addr.c\<close>: broadcast test, netmask test, and the conversions
  from and to text.  A text is the list of its characters from the pointer on, and a read past its end is
  \<open>None\<close>; the result inside is what the function returns, \<open>None\<close> for failure.
\<close>

section \<open>Address tests\<close>

definition IPADDR_ANY :: u32 where "IPADDR_ANY = 0"
definition IPADDR_BROADCAST :: u32 where "IPADDR_BROADCAST = 0xffffffff"
definition IPADDR_NONE :: u32 where "IPADDR_NONE = 0xffffffff"

definition ip4_addr_net_eq :: "u32 \<Rightarrow> u32 \<Rightarrow> u32 \<Rightarrow> bool" where
  "ip4_addr_net_eq addr1 addr2 m \<longleftrightarrow> addr1 AND m = addr2 AND m"

definition ip4_addr_ismulticast :: "u32 \<Rightarrow> bool" where
  "ip4_addr_ismulticast addr \<longleftrightarrow> addr AND lwip_htonl 0xf0000000 = lwip_htonl 0xe0000000"

definition ip4_addr_islinklocal :: "u32 \<Rightarrow> bool" where
  "ip4_addr_islinklocal addr \<longleftrightarrow> addr AND lwip_htonl 0xffff0000 = lwip_htonl 0xa9fe0000"

definition ip4_addr_isbroadcast_u32 :: "u32 \<Rightarrow> netif \<Rightarrow> bool" where
  "ip4_addr_isbroadcast_u32 addr netif =
     (if NOT addr = IPADDR_ANY \<or> addr = IPADDR_ANY then True
      else if netif_flags netif AND NETIF_FLAG_BROADCAST = 0 then False
      else if addr = netif_ip4_addr netif then False
      else if ip4_addr_net_eq addr (netif_ip4_addr netif) (netif_ip4_netmask netif) \<and>
        addr AND NOT (netif_ip4_netmask netif) = IPADDR_BROADCAST AND NOT (netif_ip4_netmask netif) then True
      else False)"

text \<open>The two loops of \<open>ip4_addr_netmask_valid\<close>: to the first zero, and over the rest.\<close>

function nm_first_zero :: "u32 \<Rightarrow> u32 \<Rightarrow> u32" where
  "nm_first_zero nm m = (if m = 0 then m else if nm AND m = 0 then m else nm_first_zero nm (drop_bit 1 m))"
  by pat_completeness auto

function nm_no_one :: "u32 \<Rightarrow> u32 \<Rightarrow> bool" where
  "nm_no_one nm m = (if m = 0 then True else if nm AND m \<noteq> 0 then False else nm_no_one nm (drop_bit 1 m))"
  by pat_completeness auto

lemma drop_bit_decreases: "m \<noteq> 0 \<Longrightarrow> unat (drop_bit 1 m) < unat (m :: u32)"
proof -
  assume "m \<noteq> 0"
  then have "0 < unat m" by (simp add: unat_gt_0)
  then have "unat m div 2 < unat m" by simp
  then show ?thesis by (simp add: drop_bit_eq_div unat_div)
qed

termination nm_first_zero
  by (relation "measure (\<lambda>(nm, m). unat m)") (auto intro!: drop_bit_decreases simp del: One_nat_def)

termination nm_no_one
  by (relation "measure (\<lambda>(nm, m). unat m)") (auto intro!: drop_bit_decreases simp del: One_nat_def)

declare nm_first_zero.simps [simp del] nm_no_one.simps [simp del]

definition ip4_addr_netmask_valid :: "u32 \<Rightarrow> bool" where
  "ip4_addr_netmask_valid netmask =
     (let nm_hostorder = lwip_htonl netmask;
          m = nm_first_zero nm_hostorder (push_bit 31 1)
      in nm_no_one nm_hostorder m)"

section \<open>Text to address\<close>

definition lwip_isdigit :: "u8 \<Rightarrow> bool" where "lwip_isdigit c \<longleftrightarrow> 48 \<le> c \<and> c \<le> 57"

definition lwip_islower :: "u8 \<Rightarrow> bool" where "lwip_islower c \<longleftrightarrow> 97 \<le> c \<and> c \<le> 122"

definition lwip_isxdigit :: "u8 \<Rightarrow> bool" where
  "lwip_isxdigit c \<longleftrightarrow> lwip_isdigit c \<or> (97 \<le> c \<and> c \<le> 102) \<or> (65 \<le> c \<and> c \<le> 70)"

definition lwip_isspace :: "u8 \<Rightarrow> bool" where
  "lwip_isspace c \<longleftrightarrow> c = 32 \<or> c = 12 \<or> c = 10 \<or> c = 13 \<or> c = 9 \<or> c = 11"

text \<open>The digits of one number, in the given base.\<close>

fun num_loop :: "u32 \<Rightarrow> u32 \<Rightarrow> u8 list \<Rightarrow> (u32 \<times> u8 list) option" where
  "num_loop base val [] = None"
| "num_loop base val (c # cp) =
     (if lwip_isdigit c then
        if base = 8 \<and> (ucast (c - 48) :: u32) \<ge> 8 then Some (val, c # cp)
        else num_loop base (val * base + ucast (c - 48)) cp
      else if base = 16 \<and> lwip_isxdigit c then
        num_loop base (push_bit 4 val OR (ucast c + 10 - (if lwip_islower c then 97 else 65))) cp
      else Some (val, c # cp))"

text \<open>
  The number at \<open>cp\<close> with its base prefix, and the dotted parts.  \<open>room\<close> is the number of parts
  that may still be followed by another one.
\<close>

definition number_at :: "u8 list \<Rightarrow> (u32 \<times> u8 list) option" where
  "number_at cp =
     (if cp = [] then None
      else if hd cp = 48 then
        (case tl cp of
           [] \<Rightarrow> None
         | c # cp' \<Rightarrow> if c = 120 \<or> c = 88 then num_loop 16 0 cp' else num_loop 8 0 (c # cp'))
      else num_loop 10 0 cp)"

fun aton_parts :: "nat \<Rightarrow> u32 list \<Rightarrow> u8 list \<Rightarrow> (u32 list \<times> u32 \<times> u8 list) option option" where
  "aton_parts room parts [] = None"
| "aton_parts room parts (c # cp) =
     (if \<not> lwip_isdigit c then Some None
      else do { (val, cp') \<leftarrow> number_at (c # cp);
                if hd cp' = 46 then
                  (case room of 0 \<Rightarrow> Some None | Suc room' \<Rightarrow> aton_parts room' (parts @ [val]) (tl cp'))
                else Some (Some (parts, val, cp')) })"

text \<open>The address of the parts, by their number.\<close>

definition concoct :: "u32 list \<Rightarrow> u32 \<Rightarrow> u32 option" where
  "concoct parts val =
     (case parts of
        [] \<Rightarrow> Some val
      | [p0] \<Rightarrow> if val > 0xffffff then None else if p0 > 0xff then None else Some (val OR push_bit 24 p0)
      | [p0, p1] \<Rightarrow> if val > 0xffff then None else if p0 > 0xff \<or> p1 > 0xff then None
                  else Some (val OR (push_bit 24 p0 OR push_bit 16 p1))
      | [p0, p1, p2] \<Rightarrow> if val > 0xff then None else if p0 > 0xff \<or> p1 > 0xff \<or> p2 > 0xff then None
                  else Some (val OR (push_bit 24 p0 OR push_bit 16 p1 OR push_bit 8 p2))
      | _ \<Rightarrow> None)"

definition ip4addr_aton :: "u8 list \<Rightarrow> u32 option option" where
  "ip4addr_aton cp =
     do { r \<leftarrow> aton_parts 3 [] cp;
          case r of
            None \<Rightarrow> Some None
          | Some (parts, val, cp) \<Rightarrow>
              let c = hd cp in
              if c \<noteq> 0 \<and> \<not> lwip_isspace c then Some None
              else Some (map_option lwip_htonl (concoct parts val)) }"

definition ipaddr_addr :: "u8 list \<Rightarrow> u32 option" where
  "ipaddr_addr cp =
     do { r \<leftarrow> ip4addr_aton cp;
          Some (case r of Some val \<Rightarrow> val | None \<Rightarrow> IPADDR_NONE) }"

section \<open>Address to text\<close>

text \<open>The digits of a byte, least significant first: the array \<open>inv\<close>.\<close>

function inv_digits :: "u8 \<Rightarrow> u8 list" where
  "inv_digits b = (let rem = b mod 10; b' = b div 10
     in if b' \<noteq> 0 then (48 + rem) # inv_digits b' else [48 + rem])"
  by pat_completeness auto

termination
proof (relation "measure unat", goal_cases)
  case (2 b rem b')
  have "b \<noteq> 0" using 2 by auto
  then have "unat b div 10 < unat b" by (simp add: unat_gt_0)
  then show ?case using 2 by (simp add: unat_div)
qed simp

declare inv_digits.simps [simp del]

text \<open>\<^verbatim>\<open>if (len++ >= buflen) return NULL; *rp++ = c\<close>, and a sequence of these.\<close>

definition put_chr :: "u8 \<Rightarrow> nat \<times> u8 list \<Rightarrow> (nat \<times> u8 list) option" where
  "put_chr c s = (case s of (len, buf) \<Rightarrow> if len \<ge> length buf then None else Some (len + 1, buf[len := c]))"

fun put_chrs :: "u8 list \<Rightarrow> nat \<times> u8 list \<Rightarrow> (nat \<times> u8 list) option" where
  "put_chrs [] s = Some s"
| "put_chrs (c # cs) s = do { s \<leftarrow> put_chr c s; put_chrs cs s }"

fun ntoa_loop :: "u8 list \<Rightarrow> nat \<times> u8 list \<Rightarrow> (nat \<times> u8 list) option" where
  "ntoa_loop [] s = Some s"
| "ntoa_loop (b # ap) s =
     do { s \<leftarrow> put_chrs (rev (inv_digits b)) s;
          s \<leftarrow> put_chr 46 s;
          ntoa_loop ap s }"

text \<open>The bytes of the address in memory order.\<close>

definition addr_bytes :: "u32 \<Rightarrow> u8 list" where
  "addr_bytes a = [ucast a, ucast (drop_bit 8 a), ucast (drop_bit 16 a), ucast (drop_bit 24 a)]"

text \<open>The buffer as it is left behind, or \<open>None\<close> for \<^verbatim>\<open>NULL\<close>.\<close>

definition ip4addr_ntoa_r :: "u32 \<Rightarrow> u8 list \<Rightarrow> u8 list option" where
  "ip4addr_ntoa_r addr buf =
     do { (len, buf) \<leftarrow> ntoa_loop (addr_bytes addr) (0, buf);
          Some (buf[len - 1 := 0]) }"

definition IP4ADDR_STRLEN_MAX :: nat where "IP4ADDR_STRLEN_MAX = 16"

definition ip4addr_ntoa :: "u32 \<Rightarrow> u8 list \<Rightarrow> u8 list option" where
  "ip4addr_ntoa addr str = ip4addr_ntoa_r addr str"

section \<open>Netmasks\<close>

lemma one_bit_test: "i < 32 \<Longrightarrow> nm AND push_bit i 1 = 0 \<longleftrightarrow> \<not> bit (nm :: u32) i"
  by (simp add: bit_iff_and_push_bit_not_eq_0)

lemma one_bit_nonzero: "i < 32 \<Longrightarrow> push_bit i (1 :: u32) \<noteq> 0"
  by (auto simp: bit_eq_iff bit_simps)

lemma one_bit_shift: "Suc i < 32 \<Longrightarrow> drop_bit 1 (push_bit (Suc i) 1) = (push_bit i 1 :: u32)"
  by (rule bit_word_eqI) (auto simp: bit_simps)

lemma one_bit_shift_0: "drop_bit 1 (push_bit 0 1) = (0 :: u32)"
  by (rule bit_word_eqI) (auto simp: bit_simps)

lemma nm_no_one_iff: "i < 32 \<Longrightarrow> nm_no_one nm (push_bit i 1) \<longleftrightarrow> (\<forall>j\<le>i. \<not> bit nm j)"
proof (induction i)
  case 0
  have "nm_no_one nm 0" by (simp add: nm_no_one.simps)
  then show ?case using one_bit_test [of 0 nm] one_bit_nonzero [of 0]
    by (subst nm_no_one.simps) (simp only: one_bit_shift_0 if_False, auto)
next
  case (Suc i)
  show ?case using Suc one_bit_test [of "Suc i" nm] one_bit_nonzero [of "Suc i"]
    by (subst nm_no_one.simps) (simp only: one_bit_shift [OF Suc.prems] if_False, auto simp: le_Suc_eq)
qed

lemma nm_valid_from:
  "i < 32 \<Longrightarrow> nm_no_one nm (nm_first_zero nm (push_bit i 1)) \<longleftrightarrow> (\<exists>k. \<forall>j\<le>i. bit nm j \<longleftrightarrow> k \<le> j)"
proof (induction i)
  case 0
  have "nm_no_one nm (nm_first_zero nm 0)" by (simp add: nm_first_zero.simps nm_no_one.simps)
  then show ?case using one_bit_test [of 0 nm] one_bit_nonzero [of 0] nm_no_one_iff [of 0 nm]
    by (subst nm_first_zero.simps) (cases "bit nm 0"; simp only: one_bit_shift_0 if_False if_True; auto)
next
  case (Suc i)
  let ?m = "push_bit (Suc i) (1 :: u32)"
  show ?case
  proof (cases "bit nm (Suc i)")
    case True
    then have "nm_first_zero nm ?m = nm_first_zero nm (push_bit i 1)"
      using one_bit_test [of "Suc i" nm] one_bit_nonzero [of "Suc i"] Suc.prems
      by (subst nm_first_zero.simps) (simp only: one_bit_shift [OF Suc.prems] if_False simp_thms)
    moreover have "(\<exists>k. \<forall>j\<le>Suc i. bit nm j \<longleftrightarrow> k \<le> j) \<longleftrightarrow> (\<exists>k. \<forall>j\<le>i. bit nm j \<longleftrightarrow> k \<le> j)" (is "?A \<longleftrightarrow> ?B")
    proof
      assume ?B
      then obtain k where k: "\<forall>j\<le>i. bit nm j \<longleftrightarrow> k \<le> j" by blast
      have "\<forall>j\<le>Suc i. bit nm j \<longleftrightarrow> min k (Suc i) \<le> j" using k True by (auto simp: le_Suc_eq)
      then show ?A by blast
    qed (use le_Suc_eq in blast)
    ultimately show ?thesis using Suc by simp
  next
    case False
    then have "nm_first_zero nm ?m = ?m"
      using one_bit_test [of "Suc i" nm] one_bit_nonzero [of "Suc i"] Suc.prems
      by (subst nm_first_zero.simps) (simp only: if_False if_True simp_thms)
    moreover have "(\<exists>k. \<forall>j\<le>Suc i. bit nm j \<longleftrightarrow> k \<le> j) \<longleftrightarrow> (\<forall>j\<le>Suc i. \<not> bit nm j)"
      using False by (metis le_trans not_less_eq_eq order_refl)
    ultimately show ?thesis using nm_no_one_iff [OF Suc.prems, of nm] by simp
  qed
qed

section \<open>Text\<close>

lemma decimal_pos: "0 < n \<Longrightarrow> decimal (int n) = digits_of n"
  by (simp add: decimal_def)

lemma inv_digits_decimal: "rev (inv_digits b) = decimal (int (unat b))"
proof (induction b rule: inv_digits.induct)
  case (1 b)
  have rem: "48 + b mod 10 = 48 + of_nat (unat b mod 10)" by (simp add: word_arith_nat_mod)
  have q: "unat (b div 10) = unat b div 10" by (simp add: unat_div)
  show ?case
  proof (cases "b div 10 = 0")
    case True
    then have small: "unat b div 10 = 0" using q by simp
    then have "inv_digits b = [48 + b mod 10]" using True by (subst inv_digits.simps) (simp add: Let_def)
    then have i: "inv_digits b = [48 + of_nat (unat b mod 10)]" by (simp only: rem)
    show ?thesis
    proof (cases "b = 0")
      case False
      then have "0 < unat b" by (simp add: unat_gt_0)
      then have "digits_of (unat b) = [48 + of_nat (unat b mod 10)]"
        by (subst digits_of_pos) (simp_all add: small)
      then show ?thesis unfolding i decimal_pos [OF \<open>0 < unat b\<close>] by (simp only: rev.simps append_Nil)
    next
      case True
      show ?thesis unfolding i using True by (simp add: decimal_def)
    qed
  next
    case False
    then have "unat b div 10 \<noteq> 0" using q by (metis unsigned_eq_0_iff)
    then have pos: "0 < unat b" "0 < unat b div 10" by (auto intro: gr0I)
    have "inv_digits b = (48 + b mod 10) # inv_digits (b div 10)"
      using False by (subst inv_digits.simps) (simp add: Let_def)
    moreover have "rev (inv_digits (b div 10)) = digits_of (unat b div 10)"
      using 1 [OF refl refl False] decimal_pos [OF pos(2)] by (simp only: q)
    ultimately show ?thesis
      unfolding decimal_pos [OF pos(1)] digits_of_pos [OF pos(1)] rem by (simp only: rev.simps)
  qed
qed

lemma put_chrs_eq:
  "len \<le> length buf \<Longrightarrow> put_chrs cs (len, buf) =
    (if len + length cs \<le> length buf then Some (len + length cs, take len buf @ cs @ drop (len + length cs) buf) else None)"
proof (induction cs arbitrary: len buf)
  case (Cons c cs)
  show ?case
  proof (cases "len < length buf")
    case True
    then have "take (Suc len) (buf[len := c]) = take len buf @ [c]" by (simp add: take_Suc_conv_app_nth)
    with True Cons.IH [of "Suc len" "buf[len := c]"] show ?thesis by (simp add: put_chr_def)
  qed (simp add: put_chr_def)
qed simp

definition dotted :: "u8 list \<Rightarrow> u8 list" where
  "dotted bs = concat (map (\<lambda>b. decimal (int (unat b)) @ [46]) bs)"

lemma put_chrs_append: "put_chrs (xs @ ys) s = Option.bind (put_chrs xs s) (put_chrs ys)"
  by (induction xs arbitrary: s) (auto split: bind_splits)

lemma ntoa_loop_put: "ntoa_loop bs s = put_chrs (dotted bs) s"
proof (induction bs arbitrary: s)
  case (Cons b bs)
  have "ntoa_loop bs = put_chrs (dotted bs)" using Cons by (intro ext)
  then show ?case
    by (simp add: dotted_def put_chrs_append inv_digits_decimal split: bind_splits)
qed (simp add: dotted_def)

lemma ntoa_text:
  "ip4addr_ntoa_r a buf =
    (let txt = dotted (addr_bytes a) in
     if length txt \<le> length buf then Some (butlast txt @ 0 # drop (length txt) buf) else None)"
proof -
  have "dotted (addr_bytes a) \<noteq> []" by (simp add: dotted_def addr_bytes_def)
  then obtain xs x where t: "dotted (addr_bytes a) = xs @ [x]" by (metis rev_exhaust)
  show ?thesis unfolding ip4addr_ntoa_r_def ntoa_loop_put put_chrs_eq [OF le0] t
    by (simp add: Let_def list_update_append)
qed

section \<open>Reading back\<close>

lemma digit_chr: "d < 10 \<Longrightarrow> lwip_isdigit (48 + of_nat d)" "d < 10 \<Longrightarrow> (ucast (of_nat d :: u8) :: u32) = of_nat d"
proof -
  assume "d < 10"
  then have "d \<in> set [0..<10]" by simp
  then show "lwip_isdigit (48 + of_nat d)" "(ucast (of_nat d :: u8) :: u32) = of_nat d"
    by (auto simp: lwip_isdigit_def upt_rec)
qed

lemma digits_digits: "c \<in> set (digits_of n) \<Longrightarrow> lwip_isdigit c"
proof (induction n rule: digits_of.induct)
  case (1 n)
  then show ?case by (cases "n = 0") (auto simp: digits_of_pos intro: digit_chr)
qed

lemma digits_hd: "0 < n \<Longrightarrow> hd (digits_of n) \<noteq> 48"
proof (induction n rule: digits_of.induct)
  case (1 n)
  show ?case
  proof (cases "n div 10 = 0")
    case True
    then have "n < 10" "digits_of n = [48 + of_nat (n mod 10)]" using 1(2) by (auto simp: digits_of_pos)
    moreover have "n \<in> set [1..<10]" using 1(2) True by auto
    ultimately show ?thesis by (auto simp: upt_rec)
  next
    case False
    then have "digits_of (n div 10) \<noteq> []" by (simp add: digits_of_pos [of "n div 10"])
    with 1 False show ?thesis by (simp add: digits_of_pos [of n])
  qed
qed

lemma num_loop_digits:
  "\<forall>c \<in> set ds. lwip_isdigit c \<Longrightarrow>
    num_loop 10 v (ds @ r) = num_loop 10 (foldl (\<lambda>v c. v * 10 + ucast (c - 48)) v ds) r"
  by (induction ds arbitrary: v) auto

lemma digits_value: "foldl (\<lambda>v c. v * 10 + ucast (c - 48)) 0 (digits_of n) = (of_nat n :: u32)"
proof (induction n rule: digits_of.induct)
  case (1 n)
  show ?case
  proof (cases "n = 0")
    case False
    have "(of_nat (n div 10) :: u32) * 10 + of_nat (n mod 10) = of_nat (n div 10 * 10 + n mod 10)"
      by (simp only: of_nat_add of_nat_mult of_nat_numeral)
    then show ?thesis using False 1 by (simp add: digits_of_pos digit_chr(2) del: of_nat_mod)
  qed simp
qed

text \<open>A number that \<open>ip4addr_ntoa\<close> writes is read back, whatever non-digit follows it.\<close>

lemma number_at_decimal:
  assumes "c = 46 \<or> c = 0"
  shows "number_at (decimal (int (unat b)) @ c # r) = Some (ucast b, c # r)"
    "lwip_isdigit (hd (decimal (int (unat b))))" "decimal (int (unat b)) \<noteq> []"
proof -
  have c: "\<not> lwip_isdigit c" "c \<noteq> 120" "c \<noteq> 88" using assms by (auto simp: lwip_isdigit_def)
  have "number_at (decimal (int (unat b)) @ c # r) = Some (ucast b, c # r) \<and>
    lwip_isdigit (hd (decimal (int (unat b)))) \<and> decimal (int (unat b)) \<noteq> []"
  proof (cases "b = 0")
    case True
    have "lwip_isdigit 48" by (simp add: lwip_isdigit_def)
    with c True show ?thesis by (simp add: decimal_def number_at_def)
  next
    case False
    then have pos: "0 < unat b" by (simp add: unat_gt_0)
    have ne: "digits_of (unat b) \<noteq> []" using pos by (simp add: digits_of_pos)
    have "num_loop 10 0 (digits_of (unat b) @ c # r) = num_loop 10 (of_nat (unat b)) (c # r)"
      using num_loop_digits [of "digits_of (unat b)" 0 "c # r"] digits_digits [of _ "unat b"] by (simp only: digits_value) simp
    then show ?thesis
      unfolding decimal_pos [OF pos]
      using ne digits_hd [OF pos] digits_digits [OF hd_in_set [OF ne]] c(1) by (simp add: number_at_def)
  qed
  then show "number_at (decimal (int (unat b)) @ c # r) = Some (ucast b, c # r)"
    "lwip_isdigit (hd (decimal (int (unat b))))" "decimal (int (unat b)) \<noteq> []" by blast+
qed

lemma aton_parts_step:
  "aton_parts (Suc k) ps (decimal (int (unat b)) @ 46 # r) = aton_parts k (ps @ [ucast b]) r"
  using number_at_decimal(1) [where c = 46 and b = b and r = r] number_at_decimal(2,3) [of 46 b] by (cases "decimal (int (unat b))") auto

lemma aton_parts_last:
  "aton_parts k ps (decimal (int (unat b)) @ 0 # r) = Some (Some (ps, ucast b, 0 # r))"
  using number_at_decimal(1) [where c = 0 and b = b and r = r] number_at_decimal(2,3) [of 0 b] by (cases "decimal (int (unat b))") auto

lemma byte_part: "\<not> (ucast (b :: u8) :: u32) > 0xff"
proof -
  have "unat b < 256" using unsigned_less [of b, where 'a = nat] by simp
  then have "unat (ucast b :: u32) = unat b" by (simp add: unsigned_ucast_eq take_bit_nat_eq_self)
  with \<open>unat b < 256\<close> show ?thesis by (simp add: not_less word_le_nat_alt)
qed

lemma concoct_bytes: "concoct [ucast a, ucast b, ucast c] (ucast d) = Some (le32 d c b a)"
proof -
  have "ucast d OR (push_bit 24 (ucast a) OR push_bit 16 (ucast b) OR push_bit 8 (ucast c)) = le32 d c b a"
    by (simp add: le32_def or.commute or.left_commute or.assoc)
  then show ?thesis using byte_part by (simp add: concoct_def)
qed

lemma aton_dotted: "ip4addr_aton (butlast (dotted [a, b, c, d]) @ 0 # r) = Some (Some (le32 a b c d))"
proof -
  have t: "butlast (dotted [a, b, c, d]) @ 0 # r = decimal (int (unat a)) @ 46 # decimal (int (unat b)) @ 46 #
      decimal (int (unat c)) @ 46 # decimal (int (unat d)) @ 0 # r"
    by (simp add: dotted_def butlast_append)
  show ?thesis
    unfolding t ip4addr_aton_def numeral_3_eq_3
    by (simp only: aton_parts_step aton_parts_last append.simps) (simp add: concoct_bytes lwip_htonl_bytes)
qed

lemma addr_bytes_le32 [simp]: "addr_bytes (le32 a b c d) = [a, b, c, d]"
  by (auto simp: addr_bytes_def bit_le32 bit_simps intro!: bit_word_eqI dest: bit_imp_le_length)

lemma digits_length: "n < 10 ^ k \<Longrightarrow> length (digits_of n) \<le> k"
proof (induction k arbitrary: n)
  case (Suc k)
  have "n div 10 < 10 ^ k" using Suc.prems by (simp add: less_mult_imp_div_less mult.commute)
  from Suc.IH [OF this] show ?case by (cases "n = 0") (simp_all add: digits_of_pos)
qed simp

lemma decimal_byte_length: "length (decimal (int (unat (b :: u8)))) \<le> 3"
proof (cases "unat b = 0")
  case False
  have "unat b < 10 ^ 3" using unsigned_less [of b, where 'a = nat] by simp
  from digits_length [OF this] False show ?thesis by (simp add: decimal_def)
qed (simp add: decimal_def)

section \<open>Properties\<close>

text \<open>C40. \<open>ip4addr_ntoa_r\<close> writes the four numbers in decimal, separated by dots and terminated by zero, and
  leaves the rest of the buffer alone; it returns \<^verbatim>\<open>NULL\<close> exactly when the text does not fit, which cannot
  happen with the 16 bytes of \<open>ip4addr_ntoa\<close>; and \<open>ip4addr_aton\<close> reads the text back as the same address.\<close>

theorem ntoa_aton_roundtrip:
  assumes "length str = IP4ADDR_STRLEN_MAX"
  shows "\<exists>s rest. ip4addr_ntoa a str = Some (s @ 0 # rest) \<and> s @ [46] = dotted (addr_bytes a) \<and>
    length (s @ 0 # rest) = 16 \<and> (\<forall>r. ip4addr_aton (s @ 0 # r) = Some (Some a)) \<and>
    (\<forall>buf. ip4addr_ntoa_r a buf =
      (if length s < length buf then Some (s @ 0 # drop (length s + 1) buf) else None))"
proof -
  from le32_ex [of a] obtain w x y z where a: "a = le32 w x y z" by blast
  let ?t = "dotted [w, x, y, z]"
  have len: "length ?t \<le> 16"
    using decimal_byte_length [of w] decimal_byte_length [of x] decimal_byte_length [of y] decimal_byte_length [of z]
    by (simp add: dotted_def)
  have bl: "butlast ?t @ [46] = ?t" by (simp add: dotted_def butlast_append)
  have l1: "length ?t = Suc (length (butlast ?t))" by (subst bl [symmetric]) simp
  have all: "ip4addr_ntoa_r a buf =
      (if length (butlast ?t) < length buf then Some (butlast ?t @ 0 # drop (length (butlast ?t) + 1) buf) else None)" for buf
    unfolding ntoa_text a addr_bytes_le32 Let_def l1 by (simp del: length_butlast)
  let ?r = "drop (length (butlast ?t) + 1) str"
  have 1: "ip4addr_ntoa a str = Some (butlast ?t @ 0 # ?r)"
    using all [of str] len l1 assms by (simp add: ip4addr_ntoa_def IP4ADDR_STRLEN_MAX_def del: length_butlast)
  have 2: "butlast ?t @ [46] = dotted (addr_bytes a)" by (simp only: bl a addr_bytes_le32)
  have 3: "length (butlast ?t @ 0 # ?r) = 16"
    using len l1 assms by (simp add: IP4ADDR_STRLEN_MAX_def del: length_butlast)
  have 4: "\<forall>r. ip4addr_aton (butlast ?t @ 0 # r) = Some (Some a)" by (simp add: aton_dotted a)
  show ?thesis by (rule exI [of _ "butlast ?t"], rule exI [of _ ?r]) (intro conjI allI 1 2 3 4 all)
qed

theorem ntoa_aton_roundtrip_witness:
  "\<exists>s rest. ip4addr_ntoa 0x3f19fea9 (replicate 16 0xff) = Some (s @ 0 # rest) \<and> ip4addr_aton (s @ [0]) = Some (Some 0x3f19fea9)"
  using ntoa_aton_roundtrip [of "replicate 16 0xff" "0x3f19fea9"] by (auto simp: IP4ADDR_STRLEN_MAX_def)

text \<open>\<open>ip4_addr_netmask_valid\<close> accepts exactly the masks that are ones down to some bit and zeros below it, in host
  byte order.\<close>

theorem netmask_valid_iff: "ip4_addr_netmask_valid m \<longleftrightarrow> (\<exists>k. lwip_htonl m = push_bit k (- 1))"
proof -
  have "(\<forall>j\<le>31. P j) \<longleftrightarrow> (\<forall>j<32. P j)" for P :: "nat \<Rightarrow> bool"
    using less_Suc_eq_le [of _ 31] by auto
  moreover have "lwip_htonl m = push_bit k (- 1) \<longleftrightarrow> (\<forall>j<32. bit (lwip_htonl m) j \<longleftrightarrow> k \<le> j)" for k
    by (auto simp: bit_eq_iff bit_simps)
  ultimately show ?thesis using nm_valid_from [of 31 "lwip_htonl m"] by (simp add: ip4_addr_netmask_valid_def)
qed

end
