(* ===== verification/Lwip_Net.thy ===== *)
theory Lwip_Net
  imports Lwip_Pbuf_Data Lwip_Ip4Addr
begin

unbundle bit_operations_syntax

text \<open>
  The state that the protocol layers share, access to the headers in a packet, and transmission on the link:
  \<open>ethernet_output\<close> of \<^verbatim>\<open>lwip/src/core/netif/ethernet.c\<close>.

  An interface is passed as its record; a stored pointer to an interface is its number, which is unique among the
  interfaces in the list.  The link driver \<open>netif->linkoutput\<close> is a parameter: it reads the packet and changes the
  device only.  Headers are bytes in the payload of a pbuf, fields of 16 and 32 bits little endian as on this machine.
\<close>

section \<open>State\<close>

datatype etharp_state =
  ETHARP_STATE_EMPTY | ETHARP_STATE_PENDING | ETHARP_STATE_STABLE | ETHARP_STATE_STABLE_REREQUESTING_1
| ETHARP_STATE_STABLE_REREQUESTING_2

fun etharp_state_num :: "etharp_state \<Rightarrow> nat" where
  "etharp_state_num ETHARP_STATE_EMPTY = 0"
| "etharp_state_num ETHARP_STATE_PENDING = 1"
| "etharp_state_num ETHARP_STATE_STABLE = 2"
| "etharp_state_num ETHARP_STATE_STABLE_REREQUESTING_1 = 3"
| "etharp_state_num ETHARP_STATE_STABLE_REREQUESTING_2 = 4"

text \<open>The code compares states as numbers.\<close>

instantiation etharp_state :: linorder
begin

definition less_eq_etharp_state :: "etharp_state \<Rightarrow> etharp_state \<Rightarrow> bool" where
  "s \<le> t \<longleftrightarrow> etharp_state_num s \<le> etharp_state_num t"

definition less_etharp_state :: "etharp_state \<Rightarrow> etharp_state \<Rightarrow> bool" where
  "s < t \<longleftrightarrow> etharp_state_num s < etharp_state_num t"

instance
proof
  fix s t u :: etharp_state
  show "s < t \<longleftrightarrow> s \<le> t \<and> \<not> t \<le> s" "s \<le> s" "s \<le> t \<or> t \<le> s"
    by (auto simp: less_eq_etharp_state_def less_etharp_state_def)
  show "s \<le> u" if "s \<le> t" "t \<le> u" using that by (simp add: less_eq_etharp_state_def)
  show "s = t" if "s \<le> t" "t \<le> s" using that by (cases s; cases t) (simp_all add: less_eq_etharp_state_def)
qed

end

record etharp_entry =
  ae_q :: "ptr option"
  ae_ipaddr :: u32
  ae_netif :: "u8 option"
  ae_ethaddr :: "u8 list"
  ae_ctime :: u16
  ae_state :: etharp_state

text \<open>A datagram that is being reassembled; the list of them is kept in the order of its links.\<close>

record ip_reassdata =
  ipr_p :: "ptr option"
  ipr_iphdr :: "u8 list"
  ipr_datagram_len :: u16
  ipr_flags :: u8
  ipr_timer :: u8

record ip_globals =
  current_netif :: "u8 option"
  current_input_netif :: "u8 option"
  current_ip4_header :: "ptr option"
  current_ip_header_tot_len :: u16
  current_iphdr_src :: u32
  current_iphdr_dest :: u32

text \<open>
  \<open>reass_next\<close> is the field \<^verbatim>\<open>next_pbuf\<close> of the \<^verbatim>\<open>struct ip_reass_helper\<close> that replaces the header of a waiting
  fragment, by the address of that header; its other two fields are bytes of the payload.
\<close>

record 'd net_st =
  nmem :: net_mem
  arp_table :: "etharp_entry list"
  etharp_cached_entry :: nat
  ip_id :: u16
  ip_data :: ip_globals
  reassdatagrams :: "(ptr \<times> ip_reassdata) list"
  ip_reass_pbufcount :: u16
  reass_next :: "ptr \<Rightarrow> ptr option"
  netif_list :: "netif list"
  netif_default :: "u8 option"
  next_netif_num :: u8
  device :: 'd

type_synonym 'd link_fn = "netif \<Rightarrow> ptr \<Rightarrow> net_mem \<Rightarrow> 'd \<Rightarrow> (err_t \<times> 'd) option"

text \<open>Operations on packets, in the whole state.\<close>

definition in_mem :: "(net_mem \<Rightarrow> ('a \<times> net_mem) option) \<Rightarrow> 'd net_st \<Rightarrow> ('a \<times> 'd net_st) option" where
  "in_mem f s = do { (r, m) \<leftarrow> f (nmem s); Some (r, s\<lparr>nmem := m\<rparr>) }"

definition on_mem :: "(net_mem \<Rightarrow> net_mem option) \<Rightarrow> 'd net_st \<Rightarrow> 'd net_st option" where
  "on_mem f s = do { m \<leftarrow> f (nmem s); Some (s\<lparr>nmem := m\<rparr>) }"

definition free_pbuf :: "ptr \<Rightarrow> 'd net_st \<Rightarrow> 'd net_st option" where
  "free_pbuf p s = do { (_, s) \<leftarrow> in_mem (pbuf_free (Some p)) s; Some s }"

abbreviation the_pbuf :: "'d net_st \<Rightarrow> ptr \<Rightarrow> pbuf" where
  "the_pbuf s p \<equiv> pbufs (nmem s) p"

section \<open>Header fields\<close>

definition put_bytes :: "ptr \<Rightarrow> u8 list \<Rightarrow> 'd net_st \<Rightarrow> 'd net_st" where
  "put_bytes a xs s = s\<lparr>nmem := (nmem s)\<lparr>data_bytes := write_bytes a xs (data_bytes (nmem s))\<rparr>\<rparr>"

definition put16 :: "ptr \<Rightarrow> u16 \<Rightarrow> 'd net_st \<Rightarrow> 'd net_st" where
  "put16 a w s = put_bytes a [lo8 w, hi8 w] s"

definition put32 :: "ptr \<Rightarrow> u32 \<Rightarrow> 'd net_st \<Rightarrow> 'd net_st" where
  "put32 a w s = put_bytes a (addr_bytes w) s"

definition get_bytes :: "ptr \<Rightarrow> nat \<Rightarrow> 'd net_st \<Rightarrow> u8 list" where
  "get_bytes a n s = read_bytes (data_bytes (nmem s)) a n"

definition get8 :: "ptr \<Rightarrow> 'd net_st \<Rightarrow> u8" where
  "get8 a s = data_bytes (nmem s) a"

definition get16 :: "ptr \<Rightarrow> 'd net_st \<Rightarrow> u16" where
  "get16 a s = le16 (get8 a s) (get8 (ptr_add a 1) s)"

definition get32 :: "ptr \<Rightarrow> 'd net_st \<Rightarrow> u32" where
  "get32 a s = le32 (get8 a s) (get8 (ptr_add a 1) s) (get8 (ptr_add a 2) s) (get8 (ptr_add a 3) s)"

text \<open>Writing a header changes bytes only.\<close>

lemma put_bytes_simps [simp]:
  "pbufs (nmem (put_bytes a xs s)) = pbufs (nmem s)" "customs (nmem (put_bytes a xs s)) = customs (nmem s)"
  "ram_heap (nmem (put_bytes a xs s)) = ram_heap (nmem s)" "pools (nmem (put_bytes a xs s)) = pools (nmem s)"
  "data_bytes (nmem (put_bytes a xs s)) = write_bytes a xs (data_bytes (nmem s))"
  "arp_table (put_bytes a xs s) = arp_table s" "etharp_cached_entry (put_bytes a xs s) = etharp_cached_entry s"
  "ip_id (put_bytes a xs s) = ip_id s" "ip_data (put_bytes a xs s) = ip_data s"
  "reassdatagrams (put_bytes a xs s) = reassdatagrams s" "ip_reass_pbufcount (put_bytes a xs s) = ip_reass_pbufcount s"
  "reass_next (put_bytes a xs s) = reass_next s"
  "netif_list (put_bytes a xs s) = netif_list s" "netif_default (put_bytes a xs s) = netif_default s"
  "next_netif_num (put_bytes a xs s) = next_netif_num s"
  "device (put_bytes a xs s) = device s"
  by (simp_all add: put_bytes_def)

lemma put_field_simps [simp]:
  "put16 a w s = put_bytes a [lo8 w, hi8 w] s" "put32 a n s = put_bytes a (addr_bytes n) s"
  by (simp_all add: put16_def put32_def)

section \<open>Ethernet\<close>

definition ETH_HWADDR_LEN :: nat where "ETH_HWADDR_LEN = 6"
definition SIZEOF_ETH_HDR :: nat where "SIZEOF_ETH_HDR = 14"
definition ETHTYPE_IP :: u16 where "ETHTYPE_IP = 0x0800"
definition ETHTYPE_ARP :: u16 where "ETHTYPE_ARP = 0x0806"
definition LL_IP4_MULTICAST_ADDR_0 :: u8 where "LL_IP4_MULTICAST_ADDR_0 = 0x01"
definition LL_IP4_MULTICAST_ADDR_1 :: u8 where "LL_IP4_MULTICAST_ADDR_1 = 0x00"
definition LL_IP4_MULTICAST_ADDR_2 :: u8 where "LL_IP4_MULTICAST_ADDR_2 = 0x5e"

definition ethbroadcast :: "u8 list" where "ethbroadcast = [0xff, 0xff, 0xff, 0xff, 0xff, 0xff]"
definition ethzero :: "u8 list" where "ethzero = [0, 0, 0, 0, 0, 0]"

text \<open>The offsets of the fields of \<^verbatim>\<open>struct eth_hdr\<close>.\<close>

definition eth_dest :: "ptr \<Rightarrow> ptr" where "eth_dest h = h"
definition eth_src :: "ptr \<Rightarrow> ptr" where "eth_src h = ptr_add h 6"
definition eth_type_at :: "ptr \<Rightarrow> ptr" where "eth_type_at h = ptr_add h 12"

definition linkoutput :: "'d link_fn \<Rightarrow> netif \<Rightarrow> ptr \<Rightarrow> 'd net_st \<Rightarrow> (err_t \<times> 'd net_st) option" where
  "linkoutput lo netif p s = do { (e, d) \<leftarrow> lo netif p (nmem s) (device s); Some (e, s\<lparr>device := d\<rparr>) }"

definition ethernet_output ::
    "'d link_fn \<Rightarrow> netif \<Rightarrow> ptr \<Rightarrow> u8 list \<Rightarrow> u8 list \<Rightarrow> u16 \<Rightarrow> 'd net_st \<Rightarrow> (err_t \<times> 'd net_st) option" where
  "ethernet_output lo netif p src dst eth_type s =
     (let eth_type_be = lwip_htons eth_type in
      do { (failed, s) \<leftarrow> in_mem (pbuf_add_header (Some p) SIZEOF_ETH_HDR) s;
           if failed then Some (ERR_BUF, s)
           else
             do { ethhdr \<leftarrow> pb_payload (the_pbuf s p);
                  let s = put16 (eth_type_at ethhdr) eth_type_be s;
                  let s = put_bytes (eth_dest ethhdr) (take ETH_HWADDR_LEN dst) s;
                  let s = put_bytes (eth_src ethhdr) (take ETH_HWADDR_LEN src) s;
                  if \<not> netif_hwaddr_len netif = of_nat ETH_HWADDR_LEN then None
                  else linkoutput lo netif p s } })"

end
