(* ===== verification/Lwip_Etharp.thy ===== *)
theory Lwip_Etharp
  imports Lwip_Net
begin

unbundle bit_operations_syntax

text \<open>
  Address resolution, \<^verbatim>\<open>lwip/src/core/ipv4/etharp.c\<close>, as configured: ten entries, one queued packet per entry, no
  static entries, entries matched by interface.

  A table index is a number; the result of a search is the index or an error.  An address that the code passes by
  reference is passed by value, read where the code reads it first; the packets written meanwhile are others.
\<close>

section \<open>Constants\<close>

definition ARP_TABLE_SIZE :: nat where "ARP_TABLE_SIZE = 10"
definition ARP_MAXAGE :: u16 where "ARP_MAXAGE = 300"
definition ARP_AGE_REREQUEST_USED_UNICAST :: u16 where "ARP_AGE_REREQUEST_USED_UNICAST = ARP_MAXAGE - 30"
definition ARP_AGE_REREQUEST_USED_BROADCAST :: u16 where "ARP_AGE_REREQUEST_USED_BROADCAST = ARP_MAXAGE - 15"
definition ARP_MAXPENDING :: u16 where "ARP_MAXPENDING = 5"

definition ETHARP_FLAG_TRY_HARD :: u8 where "ETHARP_FLAG_TRY_HARD = 1"
definition ETHARP_FLAG_FIND_ONLY :: u8 where "ETHARP_FLAG_FIND_ONLY = 2"

definition SIZEOF_ETHARP_HDR :: nat where "SIZEOF_ETHARP_HDR = 28"
definition LWIP_IANA_HWTYPE_ETHERNET :: u16 where "LWIP_IANA_HWTYPE_ETHERNET = 1"
definition ARP_REQUEST :: u16 where "ARP_REQUEST = 1"
definition ARP_REPLY :: u16 where "ARP_REPLY = 2"

lemmas arp_consts = ARP_TABLE_SIZE_def ARP_MAXAGE_def ARP_AGE_REREQUEST_USED_UNICAST_def
  ARP_AGE_REREQUEST_USED_BROADCAST_def ARP_MAXPENDING_def ETHARP_FLAG_TRY_HARD_def ETHARP_FLAG_FIND_ONLY_def
  SIZEOF_ETHARP_HDR_def LWIP_IANA_HWTYPE_ETHERNET_def ARP_REQUEST_def ARP_REPLY_def

text \<open>The fields of \<^verbatim>\<open>struct etharp_hdr\<close>.\<close>

definition arp_hwtype :: "ptr \<Rightarrow> ptr" where "arp_hwtype h = h"
definition arp_proto :: "ptr \<Rightarrow> ptr" where "arp_proto h = ptr_add h 2"
definition arp_hwlen :: "ptr \<Rightarrow> ptr" where "arp_hwlen h = ptr_add h 4"
definition arp_protolen :: "ptr \<Rightarrow> ptr" where "arp_protolen h = ptr_add h 5"
definition arp_opcode :: "ptr \<Rightarrow> ptr" where "arp_opcode h = ptr_add h 6"
definition arp_shwaddr :: "ptr \<Rightarrow> ptr" where "arp_shwaddr h = ptr_add h 8"
definition arp_sipaddr :: "ptr \<Rightarrow> ptr" where "arp_sipaddr h = ptr_add h 14"
definition arp_dhwaddr :: "ptr \<Rightarrow> ptr" where "arp_dhwaddr h = ptr_add h 18"
definition arp_dipaddr :: "ptr \<Rightarrow> ptr" where "arp_dipaddr h = ptr_add h 24"

lemmas arp_fields = arp_hwtype_def arp_proto_def arp_hwlen_def arp_protolen_def arp_opcode_def arp_shwaddr_def
  arp_sipaddr_def arp_dhwaddr_def arp_dipaddr_def

definition ip4_addr_isany :: "u32 \<Rightarrow> bool" where "ip4_addr_isany a \<longleftrightarrow> a = IPADDR_ANY"

section \<open>Requests\<close>

definition etharp_raw ::
    "'d link_fn \<Rightarrow> netif \<Rightarrow> u8 list \<Rightarrow> u8 list \<Rightarrow> u8 list \<Rightarrow> u32 \<Rightarrow> u8 list \<Rightarrow> u32 \<Rightarrow> u16 \<Rightarrow> 'd net_st \<Rightarrow>
     (err_t \<times> 'd net_st) option" where
  "etharp_raw lo netif ethsrc_addr ethdst_addr hwsrc_addr ipsrc_addr hwdst_addr ipdst_addr opcode s =
     do { (p, s) \<leftarrow> in_mem (pbuf_alloc PBUF_LINK (of_nat SIZEOF_ETHARP_HDR) PBUF_RAM) s;
          case p of
            None \<Rightarrow> Some (ERR_MEM, s)
          | Some p \<Rightarrow>
              if \<not> pb_len (the_pbuf s p) \<ge> of_nat SIZEOF_ETHARP_HDR then None
              else
                do { hdr \<leftarrow> pb_payload (the_pbuf s p);
                     let s = put16 (arp_opcode hdr) (lwip_htons opcode) s;
                     if \<not> netif_hwaddr_len netif = of_nat ETH_HWADDR_LEN then None
                     else
                       let s = put_bytes (arp_shwaddr hdr) (take ETH_HWADDR_LEN hwsrc_addr) s;
                           s = put_bytes (arp_dhwaddr hdr) (take ETH_HWADDR_LEN hwdst_addr) s;
                           s = put32 (arp_sipaddr hdr) ipsrc_addr s;
                           s = put32 (arp_dipaddr hdr) ipdst_addr s;
                           s = put16 (arp_hwtype hdr) (lwip_htons LWIP_IANA_HWTYPE_ETHERNET) s;
                           s = put16 (arp_proto hdr) (lwip_htons ETHTYPE_IP) s;
                           s = put_bytes (arp_hwlen hdr) [of_nat ETH_HWADDR_LEN] s;
                           s = put_bytes (arp_protolen hdr) [4] s
                       in do { (_, s) \<leftarrow> ethernet_output lo netif p ethsrc_addr ethdst_addr ETHTYPE_ARP s;
                               s \<leftarrow> free_pbuf p s;
                               Some (ERR_OK, s) } } }"

definition etharp_request_dst :: "'d link_fn \<Rightarrow> netif \<Rightarrow> u32 \<Rightarrow> u8 list \<Rightarrow> 'd net_st \<Rightarrow> (err_t \<times> 'd net_st) option" where
  "etharp_request_dst lo netif ipaddr hw_dst_addr s =
     etharp_raw lo netif (netif_hwaddr netif) hw_dst_addr (netif_hwaddr netif) (netif_ip4_addr netif) ethzero ipaddr
       ARP_REQUEST s"

definition etharp_request :: "'d link_fn \<Rightarrow> netif \<Rightarrow> u32 \<Rightarrow> 'd net_st \<Rightarrow> (err_t \<times> 'd net_st) option" where
  "etharp_request lo netif ipaddr s = etharp_request_dst lo netif ipaddr ethbroadcast s"

section \<open>The table\<close>

definition upd_entry :: "nat \<Rightarrow> (etharp_entry \<Rightarrow> etharp_entry) \<Rightarrow> 'd net_st \<Rightarrow> 'd net_st" where
  "upd_entry i f s = s\<lparr>arp_table := (arp_table s)[i := f (arp_table s ! i)]\<rparr>"

definition etharp_free_entry :: "nat \<Rightarrow> 'd net_st \<Rightarrow> 'd net_st option" where
  "etharp_free_entry i s =
     do { s \<leftarrow> (case ae_q (arp_table s ! i) of
                  None \<Rightarrow> Some s
                | Some q \<Rightarrow> do { s \<leftarrow> free_pbuf q s; Some (upd_entry i (\<lambda>e. e\<lparr>ae_q := None\<rparr>) s) });
          Some (upd_entry i (\<lambda>e. e\<lparr>ae_state := ETHARP_STATE_EMPTY\<rparr>) s) }"

text \<open>The interface a stored pointer points to.\<close>

definition netif_deref :: "u8 option \<Rightarrow> 'd net_st \<Rightarrow> netif option" where
  "netif_deref n s = (case n of None \<Rightarrow> None | Some k \<Rightarrow> find (\<lambda>netif. netif_num netif = k) (netif_list s))"

text \<open>One round of the timer, for entry \<open>i\<close>.\<close>

definition etharp_tmr_entry :: "'d link_fn \<Rightarrow> nat \<Rightarrow> 'd net_st \<Rightarrow> 'd net_st option" where
  "etharp_tmr_entry lo i s =
     (if ae_state (arp_table s ! i) \<noteq> ETHARP_STATE_EMPTY then
        let s = upd_entry i (\<lambda>e. e\<lparr>ae_ctime := ae_ctime e + 1\<rparr>) s;
            e = arp_table s ! i
        in if ae_ctime e \<ge> ARP_MAXAGE \<or> ae_state e = ETHARP_STATE_PENDING \<and> ae_ctime e \<ge> ARP_MAXPENDING
           then etharp_free_entry i s
           else if ae_state e = ETHARP_STATE_STABLE_REREQUESTING_1
           then Some (upd_entry i (\<lambda>e. e\<lparr>ae_state := ETHARP_STATE_STABLE_REREQUESTING_2\<rparr>) s)
           else if ae_state e = ETHARP_STATE_STABLE_REREQUESTING_2
           then Some (upd_entry i (\<lambda>e. e\<lparr>ae_state := ETHARP_STATE_STABLE\<rparr>) s)
           else if ae_state e = ETHARP_STATE_PENDING
           then do { netif \<leftarrow> netif_deref (ae_netif e) s; (_, s) \<leftarrow> etharp_request lo netif (ae_ipaddr e) s; Some s }
           else Some s
      else Some s)"

fun each_entry :: "('i \<Rightarrow> 's \<Rightarrow> 's option) \<Rightarrow> 'i list \<Rightarrow> 's \<Rightarrow> 's option" where
  "each_entry f [] s = Some s"
| "each_entry f (i # is) s = do { s \<leftarrow> f i s; each_entry f is s }"

definition etharp_tmr :: "'d link_fn \<Rightarrow> 'd net_st \<Rightarrow> 'd net_st option" where
  "etharp_tmr lo s = each_entry (etharp_tmr_entry lo) [0..<ARP_TABLE_SIZE] s"

text \<open>The candidates that the search remembers; \<open>ARP_TABLE_SIZE\<close> stands for none.\<close>

record find_vars =
  old_pending :: nat
  old_stable :: nat
  empty :: nat
  old_queue :: nat
  age_queue :: u16
  age_pending :: u16
  age_stable :: u16

definition remember :: "nat \<Rightarrow> etharp_entry \<Rightarrow> find_vars \<Rightarrow> find_vars" where
  "remember i e v =
     (if ae_state e = ETHARP_STATE_PENDING then
        if ae_q e \<noteq> None then
          (if ae_ctime e \<ge> age_queue v then v\<lparr>old_queue := i, age_queue := ae_ctime e\<rparr> else v)
        else (if ae_ctime e \<ge> age_pending v then v\<lparr>old_pending := i, age_pending := ae_ctime e\<rparr> else v)
      else if ae_state e \<ge> ETHARP_STATE_STABLE then
        (if ae_ctime e \<ge> age_stable v then v\<lparr>old_stable := i, age_stable := ae_ctime e\<rparr> else v)
      else v)"

text \<open>The search from entry \<open>i\<close> on: the index of a match, or the candidates.\<close>

fun find_scan :: "u32 option \<Rightarrow> u8 option \<Rightarrow> nat \<Rightarrow> etharp_entry list \<Rightarrow> find_vars \<Rightarrow> nat + find_vars" where
  "find_scan ipaddr netif i [] v = Inr v"
| "find_scan ipaddr netif i (e # es) v =
     (if empty v = ARP_TABLE_SIZE \<and> ae_state e = ETHARP_STATE_EMPTY
      then find_scan ipaddr netif (i + 1) es (v\<lparr>empty := i\<rparr>)
      else if ae_state e \<noteq> ETHARP_STATE_EMPTY then
        if (case ipaddr of None \<Rightarrow> False | Some a \<Rightarrow> a = ae_ipaddr e) \<and> (netif = None \<or> netif = ae_netif e) then Inl i
        else find_scan ipaddr netif (i + 1) es (remember i e v)
      else find_scan ipaddr netif (i + 1) es v)"

text \<open>The choice of the entry to recycle when none is empty.\<close>

definition recycle :: "find_vars \<Rightarrow> 'd net_st \<Rightarrow> (nat option \<times> 'd net_st) option" where
  "recycle v s =
     do { r \<leftarrow>
            (if old_stable v < ARP_TABLE_SIZE then
               (if \<not> ae_q (arp_table s ! old_stable v) = None then None else Some (Some (old_stable v)))
             else if old_pending v < ARP_TABLE_SIZE then Some (Some (old_pending v))
             else if old_queue v < ARP_TABLE_SIZE then Some (Some (old_queue v))
             else Some None);
          case r of
            None \<Rightarrow> Some (None, s)
          | Some i \<Rightarrow> do { s \<leftarrow> etharp_free_entry i s; Some (Some i, s) } }"

definition etharp_find_entry ::
    "u32 option \<Rightarrow> u8 \<Rightarrow> u8 option \<Rightarrow> 'd net_st \<Rightarrow> ((err_t + nat) \<times> 'd net_st) option" where
  "etharp_find_entry ipaddr flags netif s =
     (case find_scan ipaddr netif 0 (arp_table s)
        \<lparr>old_pending = ARP_TABLE_SIZE, old_stable = ARP_TABLE_SIZE, empty = ARP_TABLE_SIZE, old_queue = ARP_TABLE_SIZE,
         age_queue = 0, age_pending = 0, age_stable = 0\<rparr> of
        Inl i \<Rightarrow> Some (Inr i, s)
      | Inr v \<Rightarrow>
          if flags AND ETHARP_FLAG_FIND_ONLY \<noteq> 0 \<or>
             empty v = ARP_TABLE_SIZE \<and> flags AND ETHARP_FLAG_TRY_HARD = 0 then Some (Inl ERR_MEM, s)
          else
            do { (r, s) \<leftarrow> (if empty v < ARP_TABLE_SIZE then Some (Some (empty v), s) else recycle v s);
                 case r of
                   None \<Rightarrow> Some (Inl ERR_MEM, s)
                 | Some i \<Rightarrow>
                     if \<not> i < ARP_TABLE_SIZE then None
                     else if \<not> ae_state (arp_table s ! i) = ETHARP_STATE_EMPTY then None
                     else
                       let s = (case ipaddr of None \<Rightarrow> s | Some a \<Rightarrow> upd_entry i (\<lambda>e. e\<lparr>ae_ipaddr := a\<rparr>) s);
                           s = upd_entry i (\<lambda>e. e\<lparr>ae_ctime := 0\<rparr>) s;
                           s = upd_entry i (\<lambda>e. e\<lparr>ae_netif := netif\<rparr>) s
                       in Some (Inr i, s) })"

definition etharp_update_arp_entry ::
    "'d link_fn \<Rightarrow> netif \<Rightarrow> u32 \<Rightarrow> u8 list \<Rightarrow> u8 \<Rightarrow> 'd net_st \<Rightarrow> (err_t \<times> 'd net_st) option" where
  "etharp_update_arp_entry lo netif ipaddr ethaddr flags s =
     (if \<not> netif_hwaddr_len netif = of_nat ETH_HWADDR_LEN then None
      else if ip4_addr_isany ipaddr \<or> ip4_addr_isbroadcast_u32 ipaddr netif \<or> ip4_addr_ismulticast ipaddr
      then Some (ERR_ARG, s)
      else
        do { (i, s) \<leftarrow> etharp_find_entry (Some ipaddr) flags (Some (netif_num netif)) s;
             case i of
               Inl e \<Rightarrow> Some (e, s)
             | Inr i \<Rightarrow>
                 let s = upd_entry i (\<lambda>e. e\<lparr>ae_state := ETHARP_STATE_STABLE\<rparr>) s;
                     s = upd_entry i (\<lambda>e. e\<lparr>ae_netif := Some (netif_num netif)\<rparr>) s;
                     s = upd_entry i (\<lambda>e. e\<lparr>ae_ethaddr := take ETH_HWADDR_LEN ethaddr\<rparr>) s;
                     s = upd_entry i (\<lambda>e. e\<lparr>ae_ctime := 0\<rparr>) s
                 in (case ae_q (arp_table s ! i) of
                       None \<Rightarrow> Some (ERR_OK, s)
                     | Some p \<Rightarrow>
                         let s = upd_entry i (\<lambda>e. e\<lparr>ae_q := None\<rparr>) s in
                         do { (_, s) \<leftarrow> ethernet_output lo netif p (netif_hwaddr netif) ethaddr ETHTYPE_IP s;
                              s \<leftarrow> free_pbuf p s;
                              Some (ERR_OK, s) }) })"

definition etharp_cleanup_netif :: "netif \<Rightarrow> 'd net_st \<Rightarrow> 'd net_st option" where
  "etharp_cleanup_netif netif s =
     each_entry (\<lambda>i s. if ae_state (arp_table s ! i) \<noteq> ETHARP_STATE_EMPTY \<and>
                            ae_netif (arp_table s ! i) = Some (netif_num netif)
                         then etharp_free_entry i s else Some s) [0..<ARP_TABLE_SIZE] s"

text \<open>The index and the two addresses found, or \<open>None\<close> for \<^verbatim>\<open>-1\<close>.\<close>

definition etharp_find_addr :: "netif \<Rightarrow> u32 \<Rightarrow> 'd net_st \<Rightarrow> ((nat \<times> u8 list \<times> u32) option \<times> 'd net_st) option" where
  "etharp_find_addr netif ipaddr s =
     do { (i, s) \<leftarrow> etharp_find_entry (Some ipaddr) ETHARP_FLAG_FIND_ONLY (Some (netif_num netif)) s;
          Some (case i of
                  Inl _ \<Rightarrow> (None, s)
                | Inr i \<Rightarrow>
                    if ae_state (arp_table s ! i) \<ge> ETHARP_STATE_STABLE
                    then (Some (i, ae_ethaddr (arp_table s ! i), ae_ipaddr (arp_table s ! i)), s) else (None, s)) }"

definition etharp_get_entry :: "nat \<Rightarrow> 'd net_st \<Rightarrow> (u32 \<times> u8 option \<times> u8 list) option" where
  "etharp_get_entry i s =
     (if i < ARP_TABLE_SIZE \<and> ae_state (arp_table s ! i) \<ge> ETHARP_STATE_STABLE
      then Some (ae_ipaddr (arp_table s ! i), ae_netif (arp_table s ! i), ae_ethaddr (arp_table s ! i)) else None)"

section \<open>Output\<close>

definition etharp_output_to_arp_index :: "'d link_fn \<Rightarrow> netif \<Rightarrow> ptr \<Rightarrow> nat \<Rightarrow> 'd net_st \<Rightarrow> (err_t \<times> 'd net_st) option" where
  "etharp_output_to_arp_index lo netif q arp_idx s =
     (if \<not> ae_state (arp_table s ! arp_idx) \<ge> ETHARP_STATE_STABLE then None
      else
        do { s \<leftarrow>
               (if ae_state (arp_table s ! arp_idx) = ETHARP_STATE_STABLE then
                  if ae_ctime (arp_table s ! arp_idx) \<ge> ARP_AGE_REREQUEST_USED_BROADCAST then
                    do { (r, s) \<leftarrow> etharp_request lo netif (ae_ipaddr (arp_table s ! arp_idx)) s;
                         Some (if r = ERR_OK
                           then upd_entry arp_idx (\<lambda>e. e\<lparr>ae_state := ETHARP_STATE_STABLE_REREQUESTING_1\<rparr>) s else s) }
                  else if ae_ctime (arp_table s ! arp_idx) \<ge> ARP_AGE_REREQUEST_USED_UNICAST then
                    do { (r, s) \<leftarrow> etharp_request_dst lo netif (ae_ipaddr (arp_table s ! arp_idx))
                           (ae_ethaddr (arp_table s ! arp_idx)) s;
                         Some (if r = ERR_OK
                           then upd_entry arp_idx (\<lambda>e. e\<lparr>ae_state := ETHARP_STATE_STABLE_REREQUESTING_1\<rparr>) s else s) }
                  else Some s
                else Some s);
             ethernet_output lo netif q (netif_hwaddr netif) (ae_ethaddr (arp_table s ! arp_idx)) ETHTYPE_IP s })"

text \<open>The walk that looks for a pbuf whose data may change.\<close>

definition PBUF_NEEDS_COPY :: "pbuf \<Rightarrow> bool" where
  "PBUF_NEEDS_COPY p \<longleftrightarrow> ucast (pb_type_internal p) AND PBUF_TYPE_FLAG_DATA_VOLATILE \<noteq> 0"

partial_function (option) copy_needed_walk :: "ptr option \<Rightarrow> net_mem \<Rightarrow> bool option" where
  "copy_needed_walk p st =
     (case p of
        None \<Rightarrow> Some False
      | Some a \<Rightarrow>
          if \<not> (pb_len (pbufs st a) \<noteq> pb_tot_len (pbufs st a) \<or> pb_next (pbufs st a) = None) then None
          else if PBUF_NEEDS_COPY (pbufs st a) then Some True
          else copy_needed_walk (pb_next (pbufs st a)) st)"

text \<open>Queueing of a packet on the pending entry \<open>i\<close>.\<close>

definition etharp_queue :: "nat \<Rightarrow> ptr \<Rightarrow> 'd net_st \<Rightarrow> (err_t \<times> 'd net_st) option" where
  "etharp_queue i q s =
     do { copy_needed \<leftarrow> copy_needed_walk (Some q) (nmem s);
          (p, s) \<leftarrow>
            (if copy_needed then in_mem (pbuf_clone PBUF_LINK PBUF_RAM q) s
             else do { s \<leftarrow> on_mem (pbuf_ref (Some q)) s; Some (Some q, s) });
          case p of
            None \<Rightarrow> Some (ERR_MEM, s)
          | Some p \<Rightarrow>
              do { s \<leftarrow> (case ae_q (arp_table s ! i) of None \<Rightarrow> Some s | Some old \<Rightarrow> free_pbuf old s);
                   Some (ERR_OK, upd_entry i (\<lambda>e. e\<lparr>ae_q := Some p\<rparr>) s) } }"

definition etharp_query :: "'d link_fn \<Rightarrow> netif \<Rightarrow> u32 \<Rightarrow> ptr option \<Rightarrow> 'd net_st \<Rightarrow> (err_t \<times> 'd net_st) option" where
  "etharp_query lo netif ipaddr q s =
     (if ip4_addr_isany ipaddr \<or> ip4_addr_isbroadcast_u32 ipaddr netif \<or> ip4_addr_ismulticast ipaddr
      then Some (ERR_ARG, s)
      else
        do { (i_err, s) \<leftarrow> etharp_find_entry (Some ipaddr) ETHARP_FLAG_TRY_HARD (Some (netif_num netif)) s;
             case i_err of
               Inl e \<Rightarrow> Some (e, s)
             | Inr i \<Rightarrow>
                 let is_new_entry = (ae_state (arp_table s ! i) = ETHARP_STATE_EMPTY);
                     s = (if is_new_entry
                          then upd_entry i (\<lambda>e. e\<lparr>ae_netif := Some (netif_num netif)\<rparr>)
                                 (upd_entry i (\<lambda>e. e\<lparr>ae_state := ETHARP_STATE_PENDING\<rparr>) s)
                          else s)
                 in if \<not> (ae_state (arp_table s ! i) = ETHARP_STATE_PENDING \<or>
                          ae_state (arp_table s ! i) \<ge> ETHARP_STATE_STABLE) then None
                    else
                      do { (result, s) \<leftarrow>
                             (if is_new_entry \<or> q = None then
                                do { (result, s) \<leftarrow> etharp_request lo netif ipaddr s;
                                     Some (result,
                                       if result = ERR_OK \<and> ae_state (arp_table s ! i) = ETHARP_STATE_PENDING \<and>
                                          \<not> is_new_entry
                                       then upd_entry i (\<lambda>e. e\<lparr>ae_ctime := 0\<rparr>) s else s) }
                              else Some (ERR_MEM, s));
                           case q of
                             None \<Rightarrow> Some (result, s)
                           | Some q \<Rightarrow>
                               if ae_state (arp_table s ! i) \<ge> ETHARP_STATE_STABLE then
                                 let s = s\<lparr>etharp_cached_entry := i\<rparr>
                                 in ethernet_output lo netif q (netif_hwaddr netif) (ae_ethaddr (arp_table s ! i))
                                      ETHTYPE_IP s
                               else if ae_state (arp_table s ! i) = ETHARP_STATE_PENDING then etharp_queue i q s
                               else Some (result, s) } })"

text \<open>The search for a stable entry, from index \<open>i\<close> on.\<close>

fun find_stable :: "netif \<Rightarrow> u32 \<Rightarrow> nat \<Rightarrow> etharp_entry list \<Rightarrow> nat option" where
  "find_stable netif dst_addr i [] = None"
| "find_stable netif dst_addr i (e # es) =
     (if ae_state e \<ge> ETHARP_STATE_STABLE \<and> ae_netif e = Some (netif_num netif) \<and> dst_addr = ae_ipaddr e then Some i
      else find_stable netif dst_addr (i + 1) es)"

text \<open>The next hop for an address that is neither broadcast nor multicast; \<open>None\<close> without a gateway.\<close>

definition etharp_next_hop :: "netif \<Rightarrow> u32 \<Rightarrow> u32 option" where
  "etharp_next_hop netif ipaddr =
     (if \<not> ip4_addr_net_eq ipaddr (netif_ip4_addr netif) (netif_ip4_netmask netif) \<and> \<not> ip4_addr_islinklocal ipaddr
      then if \<not> ip4_addr_isany (netif_ip4_gw netif) then Some (netif_ip4_gw netif) else None
      else Some ipaddr)"

definition mcast_hwaddr :: "u32 \<Rightarrow> u8 list" where
  "mcast_hwaddr ipaddr =
     [LL_IP4_MULTICAST_ADDR_0, LL_IP4_MULTICAST_ADDR_1, LL_IP4_MULTICAST_ADDR_2,
      addr_bytes ipaddr ! 1 AND 0x7f, addr_bytes ipaddr ! 2, addr_bytes ipaddr ! 3]"

definition etharp_output :: "'d link_fn \<Rightarrow> netif \<Rightarrow> ptr \<Rightarrow> u32 \<Rightarrow> 'd net_st \<Rightarrow> (err_t \<times> 'd net_st) option" where
  "etharp_output lo netif q ipaddr s =
     (if ip4_addr_isbroadcast_u32 ipaddr netif
      then ethernet_output lo netif q (netif_hwaddr netif) ethbroadcast ETHTYPE_IP s
      else if ip4_addr_ismulticast ipaddr
      then ethernet_output lo netif q (netif_hwaddr netif) (mcast_hwaddr ipaddr) ETHTYPE_IP s
      else
        (case etharp_next_hop netif ipaddr of
           None \<Rightarrow> Some (ERR_RTE, s)
         | Some dst_addr \<Rightarrow>
             if \<not> etharp_cached_entry s < ARP_TABLE_SIZE then None
             else
               let e = arp_table s ! etharp_cached_entry s in
               if ae_state e \<ge> ETHARP_STATE_STABLE \<and> ae_netif e = Some (netif_num netif) \<and> dst_addr = ae_ipaddr e
               then etharp_output_to_arp_index lo netif q (etharp_cached_entry s) s
               else
                 (case find_stable netif dst_addr 0 (arp_table s) of
                    Some i \<Rightarrow> etharp_output_to_arp_index lo netif q i (s\<lparr>etharp_cached_entry := i\<rparr>)
                  | None \<Rightarrow> etharp_query lo netif dst_addr (Some q) s)))"

section \<open>Input\<close>

definition etharp_input :: "'d link_fn \<Rightarrow> ptr \<Rightarrow> netif \<Rightarrow> 'd net_st \<Rightarrow> 'd net_st option" where
  "etharp_input lo p netif s =
     do { hdr \<leftarrow> pb_payload (the_pbuf s p);
          if get16 (arp_hwtype hdr) s \<noteq> lwip_htons LWIP_IANA_HWTYPE_ETHERNET \<or>
             get8 (arp_hwlen hdr) s \<noteq> of_nat ETH_HWADDR_LEN \<or> get8 (arp_protolen hdr) s \<noteq> 4 \<or>
             get16 (arp_proto hdr) s \<noteq> lwip_htons ETHTYPE_IP
          then free_pbuf p s
          else
            let sipaddr = get32 (arp_sipaddr hdr) s;
                dipaddr = get32 (arp_dipaddr hdr) s;
                for_us = (\<not> ip4_addr_isany (netif_ip4_addr netif) \<and> dipaddr = netif_ip4_addr netif);
                from_us = (\<not> ip4_addr_isany (netif_ip4_addr netif) \<and> sipaddr = netif_ip4_addr netif)
            in do { (_, s) \<leftarrow> etharp_update_arp_entry lo netif sipaddr (get_bytes (arp_shwaddr hdr) ETH_HWADDR_LEN s)
                      (if for_us then ETHARP_FLAG_TRY_HARD else ETHARP_FLAG_FIND_ONLY) s;
                    s \<leftarrow>
                      (if get16 (arp_opcode hdr) s = lwip_htons ARP_REQUEST then
                         if for_us \<and> \<not> from_us then
                           let shwaddr = get_bytes (arp_shwaddr hdr) ETH_HWADDR_LEN s in
                           do { (_, s) \<leftarrow> etharp_raw lo netif (netif_hwaddr netif) shwaddr (netif_hwaddr netif)
                                  (netif_ip4_addr netif) shwaddr sipaddr ARP_REPLY s;
                                Some s }
                         else Some s
                       else Some s);
                    free_pbuf p s } }"

end
