(* ===== verification/Lwip_Chksum.thy ===== *)
theory Lwip_Chksum
  imports Lwip_Def
begin

unbundle bit_operations_syntax

text \<open>
  The Internet checksum, \<^verbatim>\<open>lwip/src/core/inet_chksum.c\<close>: the three variants of
  \<open>lwip_standard_chksum\<close> (number 2 is the one compiled by default), the sums over memory and over pbuf chains,
  and the pseudo header sums.

  A buffer is its address and the list of its bytes; the \<open>len\<close> argument is the length of that list.
  A pbuf chain is the list of the buffers its payloads and lengths denote, \<open>seg\<close>.
\<close>

type_synonym seg = "nat \<times> u8 list"

section \<open>The routines\<close>

definition FOLD_U32T :: "u32 \<Rightarrow> u32" where
  "FOLD_U32T u = drop_bit 16 u + (u AND 0x0000ffff)"

definition SWAP_BYTES_IN_WORD :: "u32 \<Rightarrow> u32" where
  "SWAP_BYTES_IN_WORD w = push_bit 8 (w AND 0xff) OR drop_bit 8 (w AND 0xff00)"

text \<open>Version 1: big-endian words, swapped at the end.\<close>

fun chksum1_loop :: "u32 \<Rightarrow> u8 list \<Rightarrow> u32" where
  "chksum1_loop acc (a # b # bs) = chksum1_loop (acc + ucast (push_bit 8 (ucast a :: u16) OR ucast b)) bs"
| "chksum1_loop acc [a] = acc + ucast (push_bit 8 (ucast a :: u16))"
| "chksum1_loop acc [] = acc"

definition lwip_standard_chksum1 :: "u8 list \<Rightarrow> u16" where
  "lwip_standard_chksum1 data =
     (let acc = chksum1_loop 0 data;
          acc = drop_bit 16 acc + (acc AND 0x0000ffff);
          acc = (if acc AND 0xffff0000 \<noteq> 0 then drop_bit 16 acc + (acc AND 0x0000ffff) else acc)
      in lwip_htons (ucast acc))"

text \<open>
  Version 2: the words of the aligned middle part; \<open>t\<close> collects the two end bytes.  The loop returns the sum
  and the bytes left over.
\<close>

fun sum_words :: "u32 \<Rightarrow> u8 list \<Rightarrow> u32 \<times> u8 list" where
  "sum_words acc (a # b # bs) = sum_words (acc + ucast (le16 a b)) bs"
| "sum_words acc bs = (acc, bs)"

definition lwip_standard_chksum :: "nat \<Rightarrow> u8 list \<Rightarrow> u16" where
  "lwip_standard_chksum dataptr data =
     (let t = 0; acc = 0; is_odd = odd dataptr;
          (t, pb) = (if is_odd \<and> data \<noteq> [] then (le16 (lo8 t) (hd data), tl data) else (t, data));
          (acc, ps) = sum_words acc pb;
          t = (if ps \<noteq> [] then le16 (hd ps) (hi8 t) else t);
          acc = acc + ucast t;
          acc = FOLD_U32T acc;
          acc = FOLD_U32T acc;
          acc = (if is_odd then SWAP_BYTES_IN_WORD acc else acc)
      in ucast acc)"

text \<open>Version 3: eight bytes at a time, each 32-bit addition with its carry added back.\<close>

fun sum_longs :: "u32 \<Rightarrow> u8 list \<Rightarrow> u32 \<times> u8 list" where
  "sum_longs acc (a # b # c # d # e # f # g # h # bs) =
     (let tmp = acc + le32 a b c d;
          tmp = (if tmp < acc then tmp + 1 else tmp);
          acc = tmp + le32 e f g h;
          acc = (if acc < tmp then acc + 1 else acc)
      in sum_longs acc bs)"
| "sum_longs acc bs = (acc, bs)"

definition lwip_standard_chksum3 :: "nat \<Rightarrow> u8 list \<Rightarrow> u16" where
  "lwip_standard_chksum3 dataptr data =
     (let t = 0; acc = 0; is_odd = odd dataptr;
          (t, pb) = (if is_odd \<and> data \<noteq> [] then (le16 (lo8 t) (hd data), tl data) else (t, data));
          ps_adr = (if is_odd \<and> data \<noteq> [] then dataptr + 1 else dataptr);
          (acc, pl) = (if ps_adr mod 4 \<noteq> 0 \<and> length pb > 1
                       then (acc + ucast (le16 (pb ! 0) (pb ! 1)), drop 2 pb) else (acc, pb));
          (acc, ps) = sum_longs acc pl;
          acc = FOLD_U32T acc;
          (acc, ps) = sum_words acc ps;
          t = (if ps \<noteq> [] then le16 (hd ps) (hi8 t) else t);
          acc = acc + ucast t;
          acc = FOLD_U32T acc;
          acc = FOLD_U32T acc;
          acc = (if is_odd then SWAP_BYTES_IN_WORD acc else acc)
      in ucast acc)"

definition inet_chksum :: "nat \<Rightarrow> u8 list \<Rightarrow> u16" where
  "inet_chksum dataptr data = NOT (lwip_standard_chksum dataptr data)"

text \<open>Copy, then sum the copy: the bytes stored at \<open>dst\<close> and their sum.\<close>

definition lwip_chksum_copy :: "nat \<Rightarrow> u8 list \<Rightarrow> u8 list \<times> u16" where
  "lwip_chksum_copy dst src = (src, lwip_standard_chksum dst src)"

text \<open>The loop over a pbuf chain that \<open>inet_chksum_pbuf\<close> and the pseudo header sums share.\<close>

fun chain_sum :: "u32 \<Rightarrow> bool \<Rightarrow> seg list \<Rightarrow> u32 \<times> bool" where
  "chain_sum acc swapped [] = (acc, swapped)"
| "chain_sum acc swapped ((adr, data) # q) =
     (let acc = acc + ucast (lwip_standard_chksum adr data);
          acc = FOLD_U32T acc
      in if odd (length data) then chain_sum (SWAP_BYTES_IN_WORD acc) (\<not> swapped) q
         else chain_sum acc swapped q)"

definition inet_chksum_pbuf :: "seg list \<Rightarrow> u16" where
  "inet_chksum_pbuf p =
     (let (acc, swapped) = chain_sum 0 False p;
          acc = (if swapped then SWAP_BYTES_IN_WORD acc else acc)
      in NOT (ucast (acc AND 0xffff)))"

definition inet_cksum_pseudo_base :: "seg list \<Rightarrow> u8 \<Rightarrow> u16 \<Rightarrow> u32 \<Rightarrow> u16" where
  "inet_cksum_pseudo_base p proto proto_len acc =
     (let (acc, swapped) = chain_sum acc False p;
          acc = (if swapped then SWAP_BYTES_IN_WORD acc else acc);
          acc = acc + ucast (lwip_htons (ucast proto));
          acc = acc + ucast (lwip_htons proto_len);
          acc = FOLD_U32T acc;
          acc = FOLD_U32T acc
      in NOT (ucast (acc AND 0xffff)))"

text \<open>The sum of the two addresses, which the IPv4 pseudo header sums start with.\<close>

definition pseudo_addrs :: "u32 \<Rightarrow> u32 \<Rightarrow> u32" where
  "pseudo_addrs src dest =
     (let addr = src;
          acc = addr AND 0xffff;
          acc = acc + (drop_bit 16 addr AND 0xffff);
          addr = dest;
          acc = acc + (addr AND 0xffff);
          acc = acc + (drop_bit 16 addr AND 0xffff);
          acc = FOLD_U32T acc
      in FOLD_U32T acc)"

definition inet_chksum_pseudo :: "seg list \<Rightarrow> u8 \<Rightarrow> u16 \<Rightarrow> u32 \<Rightarrow> u32 \<Rightarrow> u16" where
  "inet_chksum_pseudo p proto proto_len src dest =
     inet_cksum_pseudo_base p proto proto_len (pseudo_addrs src dest)"

definition ip_chksum_pseudo :: "seg list \<Rightarrow> u8 \<Rightarrow> u16 \<Rightarrow> u32 \<Rightarrow> u32 \<Rightarrow> u16" where
  "ip_chksum_pseudo p proto proto_len src dest = inet_chksum_pseudo p proto proto_len src dest"

text \<open>
  The partial sums look at \<open>chksum_len\<close> bytes only.  \<open>None\<close> is the failed assertion on the
  remaining length.
\<close>

fun chain_sum_partial :: "u32 \<Rightarrow> bool \<Rightarrow> u16 \<Rightarrow> seg list \<Rightarrow> (u32 \<times> bool) option" where
  "chain_sum_partial acc swapped chksum_len [] = Some (acc, swapped)"
| "chain_sum_partial acc swapped chksum_len ((adr, data) # q) =
     (if chksum_len > 0 then
        let chklen = of_nat (length data);
            chklen = (if chklen > chksum_len then chksum_len else chklen);
            acc = acc + ucast (lwip_standard_chksum adr (take (unat chklen) data));
            chksum_len = chksum_len - chklen
        in if \<not> chksum_len < 0x7fff then None
           else let acc = FOLD_U32T acc
                in if odd (length data) then chain_sum_partial (SWAP_BYTES_IN_WORD acc) (\<not> swapped) chksum_len q
                   else chain_sum_partial acc swapped chksum_len q
      else Some (acc, swapped))"

definition inet_cksum_pseudo_partial_base :: "seg list \<Rightarrow> u8 \<Rightarrow> u16 \<Rightarrow> u16 \<Rightarrow> u32 \<Rightarrow> u16 option" where
  "inet_cksum_pseudo_partial_base p proto proto_len chksum_len acc =
     do { (acc, swapped) \<leftarrow> chain_sum_partial acc False chksum_len p;
          let acc = (if swapped then SWAP_BYTES_IN_WORD acc else acc);
          let acc = acc + ucast (lwip_htons (ucast proto));
          let acc = acc + ucast (lwip_htons proto_len);
          let acc = FOLD_U32T acc;
          let acc = FOLD_U32T acc;
          Some (NOT (ucast (acc AND 0xffff))) }"

definition inet_chksum_pseudo_partial :: "seg list \<Rightarrow> u8 \<Rightarrow> u16 \<Rightarrow> u16 \<Rightarrow> u32 \<Rightarrow> u32 \<Rightarrow> u16 option" where
  "inet_chksum_pseudo_partial p proto proto_len chksum_len src dest =
     inet_cksum_pseudo_partial_base p proto proto_len chksum_len (pseudo_addrs src dest)"

definition ip_chksum_pseudo_partial :: "seg list \<Rightarrow> u8 \<Rightarrow> u16 \<Rightarrow> u16 \<Rightarrow> u32 \<Rightarrow> u32 \<Rightarrow> u16 option" where
  "ip_chksum_pseudo_partial p proto proto_len chksum_len src dest =
     inet_chksum_pseudo_partial p proto proto_len chksum_len src dest"

section \<open>The reference: one's complement sums\<close>

text \<open>The sum of the 16-bit words of a byte string, an odd last byte padded with zero.\<close>

fun le_sum :: "u8 list \<Rightarrow> nat" where
  "le_sum (a # b # bs) = unat a + 256 * unat b + le_sum bs"
| "le_sum [a] = unat a"
| "le_sum [] = 0"

text \<open>
  The 16-bit one's complement value of a sum: its end-around-carry reduction, in which 0 stands for
  an all-zero sum only.
\<close>

definition oc :: "nat \<Rightarrow> nat" where
  "oc n = (if n = 0 then 0 else (n - 1) mod 65535 + 1)"

definition oc_eq :: "nat \<Rightarrow> nat \<Rightarrow> bool" where
  "oc_eq m n \<longleftrightarrow> m mod 65535 = n mod 65535 \<and> (m = 0 \<longleftrightarrow> n = 0)"

lemma oc_le: "oc n \<le> 65535"
proof -
  have "(n - 1) mod 65535 < 65535" by (rule mod_less_divisor) simp
  then show ?thesis by (auto simp: oc_def)
qed

lemma oc_0 [simp]: "oc 0 = 0"
  by (simp add: oc_def)

lemma oc_eq_oc: "oc_eq (oc n) n"
proof (cases n)
  case (Suc m)
  have "Suc (m mod 65535) mod 65535 = Suc m mod 65535" by (simp add: mod_Suc_eq)
  with Suc show ?thesis by (simp add: oc_eq_def oc_def)
qed (simp add: oc_eq_def)

lemma oc_eq_refl [simp]: "oc_eq n n"
  by (simp add: oc_eq_def)

lemma oc_eq_sym: "oc_eq m n \<Longrightarrow> oc_eq n m"
  by (auto simp: oc_eq_def)

lemma oc_eq_trans: "oc_eq m n \<Longrightarrow> oc_eq n k \<Longrightarrow> oc_eq m k"
  by (auto simp: oc_eq_def)

lemma oc_eq_add: "oc_eq m n \<Longrightarrow> oc_eq m' n' \<Longrightarrow> oc_eq (m + m') (n + n')"
  by (auto simp: oc_eq_def intro: mod_add_cong)

lemma oc_eq_mult: "k \<noteq> 0 \<Longrightarrow> oc_eq m n \<Longrightarrow> oc_eq (k * m) (k * n)"
  by (auto simp: oc_eq_def intro: mod_mult_cong)

lemma oc_unique:
  assumes "x \<le> 65535" "oc_eq x n"
  shows "x = oc n"
proof -
  have "oc_eq x (oc n)" using assms(2) oc_eq_oc oc_eq_sym oc_eq_trans by blast
  then show ?thesis
    using assms(1) oc_le [of n] by (cases "x = 65535"; cases "oc n = 65535") (auto simp: oc_eq_def)
qed

lemma oc_eq_65536: "oc_eq (65536 * n) n"
proof -
  have "65536 * n = n + 65535 * n" by simp
  then have "65536 * n mod 65535 = n mod 65535" by (simp only: mod_mult_self2)
  then show ?thesis by (simp add: oc_eq_def)
qed

lemma oc_eq_carry: "oc_eq (r + 65536 * q) (r + q)"
  by (intro oc_eq_add oc_eq_65536) simp

section \<open>Words as numbers\<close>

lemma unat_le16: "unat (le16 a b) = unat a + 256 * unat b"
proof -
  have "(ucast a :: u16) AND push_bit 8 (ucast b) = 0"
    by (rule bit_word_eqI) (auto simp: bit_simps dest: bit_imp_le_length)
  then have eq: "le16 a b = ucast a + push_bit 8 (ucast b)"
    by (simp add: le16_def disjunctive_add_eq_or)
  have "unat a < 256" "unat b < 256" using unsigned_less [of a, where 'a = nat] unsigned_less [of b, where 'a = nat] by simp_all
  then show ?thesis
    unfolding eq by (simp add: unat_word_ariths push_bit_eq_mult unsigned_ucast_eq take_bit_eq_mod)
qed

lemma le32_le16: "le32 a b c d = ucast (le16 a b) + push_bit 16 (ucast (le16 c d))"
proof -
  have "(ucast (le16 a b) :: u32) AND push_bit 16 (ucast (le16 c d)) = 0"
    by (rule bit_word_eqI) (auto simp: bit_simps dest: bit_imp_le_length)
  then have "ucast (le16 a b) + push_bit 16 (ucast (le16 c d)) = (ucast (le16 a b) OR push_bit 16 (ucast (le16 c d)) :: u32)"
    by (rule disjunctive_add_eq_or)
  also have "\<dots> = le32 a b c d"
    by (rule bit_word_eqI) (auto simp: bit_le32 le16_def bit_simps dest: bit_imp_le_length)
  finally show ?thesis ..
qed

lemma u32_lt: "unat (w :: u32) < 4294967296"
  using unsigned_less [of w, where 'a = nat] by simp

lemma unat_le32: "unat (le32 a b c d) = unat (le16 a b) + 65536 * unat (le16 c d)"
  using u16_lt [of "le16 a b"] u16_lt [of "le16 c d"]
  unfolding le32_le16 by (simp add: unat_word_ariths push_bit_eq_mult)

lemma unat_FOLD: "unat (FOLD_U32T u) = unat u div 65536 + unat u mod 65536"
proof -
  have "u AND 0x0000ffff = take_bit 16 u" by (simp add: take_bit_eq_mask mask_eq_exp_minus_1)
  then have "unat (u AND 0x0000ffff) = take_bit 16 (unat u)" by (simp only: unsigned_take_bit_eq)
  then have "unat (u AND 0x0000ffff) = unat u mod 65536" by (simp add: take_bit_eq_mod)
  moreover have "unat (drop_bit 16 u) = unat u div 65536" by (simp add: drop_bit_eq_div unat_div)
  moreover have "unat u div 65536 < 65536" using u32_lt [of u] by auto
  ultimately show ?thesis by (simp add: FOLD_U32T_def unat_word_ariths)
qed

lemma FOLD_oc: "oc_eq (unat (FOLD_U32T u)) (unat u)"
proof -
  have "oc_eq (unat u mod 65536 + 65536 * (unat u div 65536)) (unat u mod 65536 + unat u div 65536)"
    by (rule oc_eq_carry)
  then show ?thesis by (simp add: unat_FOLD add.commute oc_eq_sym)
qed

lemma FOLD_twice: "unat (FOLD_U32T (FOLD_U32T u)) = oc (unat u)"
proof (rule oc_unique)
  show "oc_eq (unat (FOLD_U32T (FOLD_U32T u))) (unat u)" by (rule oc_eq_trans [OF FOLD_oc FOLD_oc])
  have "unat u div 65536 \<le> 65535" using u32_lt [of u] by auto
  moreover have "unat u mod 65536 \<le> 65535" by (simp add: less_Suc_eq_le [symmetric])
  ultimately have "unat (FOLD_U32T u) \<le> 131070" unfolding unat_FOLD [of u] by linarith
  moreover define q r where "q = unat (FOLD_U32T u) div 65536" and "r = unat (FOLD_U32T u) mod 65536"
  ultimately have "65536 * q + r \<le> 131070" "r \<le> 65535" by (simp_all add: less_Suc_eq_le [symmetric])
  then have "q + r \<le> 65535" by (cases q) auto
  then show "unat (FOLD_U32T (FOLD_U32T u)) \<le> 65535"
    unfolding unat_FOLD [of "FOLD_U32T u"] q_def r_def .
qed

lemma oc_eq_swap: "oc_eq (unat (le16 b a)) (256 * unat (le16 a b))"
  using oc_eq_sym [OF oc_eq_carry [of "256 * unat a" "unat b"]] by (simp add: unat_le16 add.commute algebra_simps)

lemma SWAP_ucast: "SWAP_BYTES_IN_WORD (ucast (le16 a b)) = ucast (le16 b a)"
proof -
  have m: "(0xff :: u32) = mask 8" "(0xff00 :: u32) = push_bit 8 (mask 8)"
    by (simp_all add: mask_eq_exp_minus_1 push_bit_eq_mult)
  show ?thesis
    unfolding SWAP_BYTES_IN_WORD_def m
    by (rule bit_word_eqI) (auto simp: le16_def bit_simps dest: bit_imp_le_length)
qed

lemma u32_small: "unat (w :: u32) \<le> 65535 \<Longrightarrow> \<exists>a b. w = ucast (le16 a b)"
proof (intro exI)
  assume "unat w \<le> 65535"
  then have "unat (ucast (ucast w :: u16) :: u32) = unat w" by (simp add: unsigned_ucast_eq take_bit_eq_mod unat_mod)
  then have "w = ucast (ucast w :: u16)" by (simp add: word_unat_eq_iff)
  then show "w = ucast (le16 (lo8 (ucast w)) (hi8 (ucast w)))" by simp
qed

lemma SWAP_oc:
  assumes "unat w \<le> 65535"
  shows "unat (SWAP_BYTES_IN_WORD w) \<le> 65535" "oc_eq (unat (SWAP_BYTES_IN_WORD w)) (256 * unat w)"
proof -
  from u32_small [OF assms] obtain a b where w: "w = ucast (le16 a b)" by blast
  show "unat (SWAP_BYTES_IN_WORD w) \<le> 65535" "oc_eq (unat (SWAP_BYTES_IN_WORD w)) (256 * unat w)"
    using u16_lt [of "le16 b a"] by (auto simp: w SWAP_ucast intro: oc_eq_swap)
qed

section \<open>The routines compute the reference\<close>

lemma unat_byte: "unat (b :: u8) \<le> 255"
  using unsigned_less [of b, where 'a = nat] by simp

lemma le_sum_Cons2: "le_sum (x # b # c # bs) = unat x + 256 * unat b + le_sum (c # bs)"
  by simp

lemma le_sum_Cons: "oc_eq (le_sum (x # bs)) (unat x + 256 * le_sum bs)"
proof (induction bs arbitrary: x rule: le_sum.induct)
  case (1 b c bs)
  let ?m = "unat x + 256 * unat b + 256 * le_sum bs"
  have "oc_eq (unat x + 256 * unat b + le_sum (c # bs)) (unat x + 256 * unat b + (unat c + 256 * le_sum bs))"
    by (intro oc_eq_add [OF oc_eq_refl] 1)
  then have "oc_eq (unat x + 256 * unat b + le_sum (c # bs)) (?m + unat c)" by (simp add: ac_simps)
  then have "oc_eq (unat x + 256 * unat b + le_sum (c # bs)) (?m + 65536 * unat c)"
    by (rule oc_eq_trans) (rule oc_eq_sym [OF oc_eq_carry])
  then show ?case by (simp add: algebra_simps)
qed simp_all

lemma le_sum_append_even: "even (length xs) \<Longrightarrow> le_sum (xs @ ys) = le_sum xs + le_sum ys"
  by (induction xs rule: le_sum.induct) auto

lemma le_sum_append_odd: "odd (length xs) \<Longrightarrow> oc_eq (le_sum (xs @ ys)) (le_sum xs + 256 * le_sum ys)"
proof (induction xs rule: le_sum.induct)
  case (1 a b bs)
  then show ?case by (auto simp: add.assoc intro!: oc_eq_add)
qed (simp_all add: le_sum_Cons)

lemma le_sum_bound: "le_sum bs \<le> 65535 * ((length bs + 1) div 2)"
proof (induction bs rule: le_sum.induct)
  case (1 a b bs)
  then show ?case using unat_byte [of a] unat_byte [of b] by simp
next
  case (2 a)
  then show ?case using unat_byte [of a] by simp
qed simp

lemma le_sum_eq_0: "le_sum bs = 0 \<longleftrightarrow> set bs \<subseteq> {0}"
  by (induction bs rule: le_sum.induct) (auto simp: unsigned_eq_0_iff)

lemma unat_add16: "unat s + unat (w::u16) < 4294967296 \<Longrightarrow> unat ((s :: u32) + ucast w) = unat s + unat w"
  by (simp add: unat_word_ariths)

lemma sum_words_sum:
  "sum_words s bs = (s', r) \<Longrightarrow> unat s + le_sum bs < 4294967296 \<Longrightarrow>
    unat s' + le_sum r = unat s + le_sum bs \<and> length r \<le> 1"
proof (induction s bs rule: sum_words.induct)
  case (1 s a b bs)
  have "unat (s + ucast (le16 a b)) = unat s + unat (le16 a b)"
    using 1(3) by (intro unat_add16) (simp add: unat_le16)
  with 1 show ?case by (simp add: unat_le16)
qed auto

lemma zero16 [simp]: "lo8 0 = 0" "hi8 0 = 0" "le16 0 0 = 0"
  by (simp_all add: lo8_def hi8_def le16_def)

text \<open>How the two end bytes enter: the low byte of \<open>t\<close> from the back, its high byte from the front.\<close>

lemma end_bytes:
  assumes "length r \<le> 1"
  shows "unat (if r \<noteq> [] then le16 (hd r) x else le16 0 x) = le_sum r + 256 * unat x"
  using assms by (cases r) (auto simp: unat_le16)

text \<open>The swap for an odd address undoes the shift of all bytes by one place.\<close>

lemma end_swap:
  assumes r: "unat r \<le> 65535"
    "oc_eq (unat r) (256 * unat (if odd adr \<and> data \<noteq> [] then hd data else 0) +
       le_sum (if odd adr \<and> data \<noteq> [] then tl data else data))"
  shows "unat (ucast (if odd adr then SWAP_BYTES_IN_WORD r else r) :: u16) = oc (le_sum data)"
proof -
  let ?x = "if odd adr \<and> data \<noteq> [] then hd data else 0"
  let ?pb = "if odd adr \<and> data \<noteq> [] then tl data else data"
  have small16: "unat (ucast w :: u16) = unat w" if "unat w \<le> 65535" for w :: u32
    using that by (simp add: unsigned_ucast_eq take_bit_eq_mod unat_mod)
  show ?thesis
  proof (cases "odd adr")
    case False
    then show ?thesis using r by (simp add: small16) (rule oc_unique, auto)
  next
    case True
    have "oc_eq (256 * unat r) (256 * (256 * unat ?x + le_sum ?pb))" using r(2) by (intro oc_eq_mult) auto
    moreover have "oc_eq (256 * (256 * unat ?x + le_sum ?pb)) (le_sum data)"
    proof (cases data)
      case (Cons x bs)
      have "oc_eq (256 * le_sum bs + 65536 * unat x) (256 * le_sum bs + unat x)" by (rule oc_eq_carry)
      then have "oc_eq (256 * le_sum bs + 65536 * unat x) (le_sum (x # bs))"
        by (rule oc_eq_trans) (use oc_eq_sym [OF le_sum_Cons [of x bs]] in \<open>simp add: add.commute\<close>)
      with True Cons show ?thesis by (simp add: algebra_simps)
    qed simp
    ultimately have "oc_eq (unat (SWAP_BYTES_IN_WORD r)) (le_sum data)"
      using SWAP_oc(2) [OF r(1)] oc_eq_trans by blast
    then show ?thesis using True SWAP_oc(1) [OF r(1)] by (simp add: small16 oc_unique)
  qed
qed

lemma chksum_oc:
  assumes "length data \<le> 0x20000"
  shows "unat (lwip_standard_chksum adr data) = oc (le_sum data)"
proof -
  let ?x = "if odd adr \<and> data \<noteq> [] then hd data else 0"
  let ?pb = "if odd adr \<and> data \<noteq> [] then tl data else data"
  obtain s ps where sw: "sum_words 0 ?pb = (s, ps)" by fastforce
  have len: "length ?pb \<le> 0x20000" "odd adr \<Longrightarrow> length ?pb \<le> 0x1ffff" using assms by auto
  have small: "256 * unat ?x + le_sum ?pb < 4294967296"
  proof (cases "odd adr")
    case True
    then have "(length ?pb + 1) div 2 \<le> 65536" using len(2) by simp
    then have "le_sum ?pb \<le> 65535 * 65536" using le_sum_bound [of ?pb] by (meson le_trans mult_le_mono2)
    then show ?thesis using unat_byte [of ?x] by simp
  next
    case False
    then have "(length ?pb + 1) div 2 \<le> 65536" using len(1) by simp
    then have "le_sum ?pb \<le> 65535 * 65536" using le_sum_bound [of ?pb] by (meson le_trans mult_le_mono2)
    then show ?thesis using False by simp
  qed
  from sum_words_sum [OF sw] small have s: "unat s + le_sum ps = le_sum ?pb" "length ps \<le> 1" by simp_all
  define t where "t = (if ps \<noteq> [] then le16 (hd ps) ?x else le16 0 ?x)"
  have t: "unat t = le_sum ps + 256 * unat ?x" unfolding t_def by (rule end_bytes [OF s(2)])
  have total: "unat (s + ucast t) = 256 * unat ?x + le_sum ?pb"
    using small s(1) t by (subst unat_add16) auto
  let ?r = "FOLD_U32T (FOLD_U32T (s + ucast t))"
  have run: "lwip_standard_chksum adr data = ucast (if odd adr then SWAP_BYTES_IN_WORD ?r else ?r)"
    using sw by (cases "odd adr"; cases "data = []")
      (auto simp: lwip_standard_chksum_def Let_def t_def zero16)
  have r: "unat ?r \<le> 65535" "oc_eq (unat ?r) (256 * unat ?x + le_sum ?pb)"
    unfolding FOLD_twice total by (rule oc_le, rule oc_eq_oc)
  show ?thesis unfolding run by (rule end_swap [OF r])
qed

text \<open>Version 1.\<close>

lemma chksum1_loop_oc:
  "unat acc + 65535 * ((length bs + 1) div 2) < 4294967296 \<Longrightarrow>
    oc_eq (unat (chksum1_loop acc bs)) (unat acc + 256 * le_sum bs)"
proof (induction acc bs rule: chksum1_loop.induct)
  case (1 acc a b bs)
  let ?w = "le16 b a"
  have w: "push_bit 8 (ucast a :: u16) OR ucast b = ?w" by (simp add: le16_def or.commute)
  have u: "unat (acc + ucast ?w) = unat acc + unat ?w"
    using 1(2) u16_lt [of ?w] by (intro unat_add16) simp
  have A: "oc_eq (unat (chksum1_loop (acc + ucast ?w) bs)) (unat acc + unat ?w + 256 * le_sum bs)"
    using 1 u16_lt [of ?w] unfolding w u by auto
  have B: "oc_eq (unat acc + unat ?w + 256 * le_sum bs) (unat acc + 256 * unat (le16 a b) + 256 * le_sum bs)"
    by (intro oc_eq_add oc_eq_swap oc_eq_refl)
  have "unat acc + 256 * unat (le16 a b) + 256 * le_sum bs = unat acc + 256 * le_sum (a # b # bs)"
    by (simp add: unat_le16 algebra_simps)
  with oc_eq_trans [OF A B] show ?case by (simp only: chksum1_loop.simps w)
next
  case (2 acc a)
  have w: "push_bit 8 (ucast a :: u16) = le16 0 a" by (simp add: le16_def)
  have "unat (acc + ucast (le16 0 a)) = unat acc + unat (le16 0 a)"
    using 2 u16_lt [of "le16 0 a"] by (intro unat_add16) simp
  then show ?case unfolding chksum1_loop.simps w by (simp add: unat_le16)
qed simp

lemma FOLD_small: "unat w \<le> 65535 \<Longrightarrow> FOLD_U32T w = w"
  by (simp add: word_unat_eq_iff unat_FOLD)

lemma fold_when_needed:
  "(if w AND 0xffff0000 \<noteq> 0 then FOLD_U32T w else w) = FOLD_U32T w"
proof (cases "w AND 0xffff0000 = 0")
  case True
  have m: "(0xffff0000 :: u32) = push_bit 16 (mask 16)" by (simp add: mask_eq_exp_minus_1 push_bit_eq_mult)
  have "drop_bit 16 w = 0"
  proof (rule bit_word_eqI)
    fix n
    show "bit (drop_bit 16 w) n = bit (0 :: u32) n"
      using arg_cong [OF True [unfolded m], of "\<lambda>v. bit v (n + 16)"]
      by (auto simp: bit_simps add.commute dest: bit_imp_le_length)
  qed
  then have "unat (drop_bit 16 w) = 0" by simp
  then have "unat w div 65536 = 0" by (simp only: drop_bit_eq_div unat_div) simp
  then show ?thesis by (simp add: FOLD_small)
qed simp

lemma htons_oc: "oc_eq (unat (lwip_htons w)) (256 * unat w)"
  by (metis le16_lo8_hi8 lwip_htons_bytes oc_eq_swap)

lemma chksum1_oc:
  assumes "length data \<le> 0x20000 - 2"
  shows "unat (lwip_standard_chksum1 data) = oc (le_sum data)"
proof -
  let ?r = "FOLD_U32T (FOLD_U32T (chksum1_loop 0 data))"
  have run: "lwip_standard_chksum1 data = lwip_htons (ucast ?r)"
    unfolding lwip_standard_chksum1_def Let_def FOLD_U32T_def [symmetric] fold_when_needed ..
  have "(length data + 1) div 2 \<le> 65535" using assms by simp
  then have "oc_eq (unat (chksum1_loop 0 data)) (256 * le_sum data)"
    using chksum1_loop_oc [of 0 data] by simp
  moreover have r: "unat ?r = oc (unat (chksum1_loop 0 data))" by (rule FOLD_twice)
  ultimately have o: "oc_eq (unat ?r) (256 * le_sum data)"
    unfolding r by (intro oc_eq_trans [OF oc_eq_oc])
  have "unat ?r \<le> 65535" unfolding r by (rule oc_le)
  then have u: "unat (ucast ?r :: u16) = unat ?r" by (simp add: unsigned_ucast_eq take_bit_eq_mod unat_mod)
  have "oc_eq (256 * unat ?r) (65536 * le_sum data)" using oc_eq_mult [OF _ o, of 256] by simp
  with htons_oc [of "ucast ?r", unfolded u] have "oc_eq (unat (lwip_htons (ucast ?r))) (le_sum data)"
    by (rule oc_eq_trans [OF _ oc_eq_trans [OF _ oc_eq_65536]])
  moreover have "unat (lwip_htons (ucast ?r)) \<le> 65535" using u16_lt [of "lwip_htons (ucast ?r)"] by simp
  ultimately show ?thesis unfolding run by (intro oc_unique)
qed

text \<open>Version 3.\<close>

lemma add_carry_oc:
  assumes tmp_def: "tmp = s + (l :: u32)"
  shows "oc_eq (unat (if tmp < s then tmp + 1 else tmp)) (unat s + unat l)"
proof (cases "unat s + unat l < 4294967296")
  case True
  then have "unat tmp = unat s + unat l" by (simp add: tmp_def unat_word_ariths)
  then show ?thesis by (simp add: word_less_nat_alt)
next
  case False
  then obtain k where k: "unat s + unat l = 4294967296 + k" using le_Suc_ex not_less by blast
  then have tmp: "unat tmp = k" using u32_lt [of l] u32_lt [of s] by (simp add: tmp_def unat_word_ariths)
  have less: "tmp < s" using k u32_lt [of l] by (simp add: word_less_nat_alt tmp)
  have "k + 1 < 4294967296" using k u32_lt [of l] u32_lt [of s] by linarith
  then have "unat (tmp + 1) = k + 1" by (simp add: unat_word_ariths tmp)
  moreover have "oc_eq (65536 * 65536 + k) (1 + k)"
    using oc_eq_trans [OF oc_eq_65536 oc_eq_65536 [of 1, simplified]] by (intro oc_eq_add) simp_all
  ultimately show ?thesis using less k by (simp add: oc_eq_sym)
qed

lemma unat_le32_oc: "oc_eq (unat (le32 a b c d)) (unat (le16 a b) + unat (le16 c d))"
  unfolding unat_le32 by (rule oc_eq_carry)

lemma sum_longs_oc:
  "sum_longs s bs = (s', r) \<Longrightarrow> oc_eq (unat s' + le_sum r) (unat s + le_sum bs) \<and> length r \<le> 7"
proof (induction s bs rule: sum_longs.induct)
  case (1 s a b c d e f g h bs)
  define s1 where "s1 = (if s + le32 a b c d < s then s + le32 a b c d + 1 else s + le32 a b c d)"
  define s2 where "s2 = (if s1 + le32 e f g h < s1 then s1 + le32 e f g h + 1 else s1 + le32 e f g h)"
  have run: "sum_longs s2 bs = (s', r)" using 1(2) by (simp only: s1_def s2_def sum_longs.simps Let_def)
  have "oc_eq (unat s' + le_sum r) (unat s2 + le_sum bs) \<and> length r \<le> 7"
    unfolding s2_def s1_def by (rule 1(1) [OF refl refl refl refl run [unfolded s2_def s1_def]])
  then have IH: "oc_eq (unat s' + le_sum r) (unat s2 + le_sum bs)" "length r \<le> 7" by simp_all
  have "oc_eq (unat s1) (unat s + unat (le32 a b c d))" unfolding s1_def by (rule add_carry_oc [OF refl])
  moreover have "oc_eq (unat s2) (unat s1 + unat (le32 e f g h))" unfolding s2_def by (rule add_carry_oc [OF refl])
  ultimately have "oc_eq (unat s2) (unat s + unat (le32 a b c d) + unat (le32 e f g h))"
    using oc_eq_add oc_eq_refl oc_eq_trans by blast
  moreover have "oc_eq (unat s + unat (le32 a b c d) + unat (le32 e f g h))
      (unat s + (unat (le16 a b) + unat (le16 c d)) + (unat (le16 e f) + unat (le16 g h)))"
    by (intro oc_eq_add unat_le32_oc oc_eq_refl)
  ultimately have "oc_eq (unat s2 + le_sum bs)
      (unat s + (unat (le16 a b) + unat (le16 c d)) + (unat (le16 e f) + unat (le16 g h)) + le_sum bs)"
    by (intro oc_eq_add oc_eq_refl) (rule oc_eq_trans)
  with IH show ?case
    using oc_eq_trans by (auto simp: unat_le16 add.assoc)
qed auto

lemma two_elems: "1 < length xs \<Longrightarrow> \<exists>a b r. xs = a # b # r"
  by (cases xs; cases "tl xs") auto

lemma chksum3_oc: "unat (lwip_standard_chksum3 adr data) = oc (le_sum data)"
proof -
  let ?x = "if odd adr \<and> data \<noteq> [] then hd data else 0"
  let ?pb = "if odd adr \<and> data \<noteq> [] then tl data else data"
  let ?ps = "if odd adr \<and> data \<noteq> [] then adr + 1 else adr"
  define s0 :: u32 where "s0 = (if ?ps mod 4 \<noteq> 0 \<and> length ?pb > 1 then 0 + ucast (le16 (?pb ! 0) (?pb ! 1)) else 0)"
  define pl where "pl = (if ?ps mod 4 \<noteq> 0 \<and> length ?pb > 1 then drop 2 ?pb else ?pb)"
  have s0: "unat s0 + le_sum pl = le_sum ?pb"
  proof (cases "?ps mod 4 \<noteq> 0 \<and> length ?pb > 1")
    case True
    then obtain a b r where "?pb = a # b # r" using two_elems by blast
    with True show ?thesis unfolding s0_def pl_def by (simp add: unat_le16)
  qed (auto simp: s0_def pl_def)
  obtain s1 p1 where sl: "sum_longs s0 pl = (s1, p1)" by fastforce
  from sum_longs_oc [OF sl] s0 have s1: "oc_eq (unat s1 + le_sum p1) (le_sum ?pb)" "length p1 \<le> 7" by auto
  have f: "oc_eq (unat (FOLD_U32T s1)) (unat s1)" "unat (FOLD_U32T s1) \<le> 131070"
  proof -
    have "unat s1 div 65536 \<le> 65535" using u32_lt [of s1] by auto
    moreover have "unat s1 mod 65536 \<le> 65535" by (simp add: less_Suc_eq_le [symmetric])
    ultimately show "unat (FOLD_U32T s1) \<le> 131070" unfolding unat_FOLD by linarith
  qed (rule FOLD_oc)
  obtain s2 p2 where sw: "sum_words (FOLD_U32T s1) p1 = (s2, p2)" by fastforce
  have "(length p1 + 1) div 2 \<le> 4" using s1(2) by simp
  then have p1: "le_sum p1 \<le> 65535 * 4" using le_sum_bound [of p1] by (meson le_trans mult_le_mono2)
  from sum_words_sum [OF sw] f(2) p1 have s2: "unat s2 + le_sum p2 = unat (FOLD_U32T s1) + le_sum p1" "length p2 \<le> 1"
    by simp_all
  define t where "t = (if p2 \<noteq> [] then le16 (hd p2) ?x else le16 0 ?x)"
  have t: "unat t = le_sum p2 + 256 * unat ?x" unfolding t_def by (rule end_bytes [OF s2(2)])
  have total: "unat (s2 + ucast t) = 256 * unat ?x + (unat (FOLD_U32T s1) + le_sum p1)"
    using s2 t f(2) p1 unat_byte [of ?x] by (subst unat_add16) auto
  let ?r = "FOLD_U32T (FOLD_U32T (s2 + ucast t))"
  have run: "lwip_standard_chksum3 adr data = ucast (if odd adr then SWAP_BYTES_IN_WORD ?r else ?r)"
    using sl sw unfolding s0_def pl_def by (cases "odd adr \<and> data \<noteq> []")
      (auto simp: lwip_standard_chksum3_def Let_def t_def)
  have r: "unat ?r \<le> 65535" unfolding FOLD_twice by (rule oc_le)
  have "oc_eq (unat (FOLD_U32T s1) + le_sum p1) (le_sum ?pb)"
    by (rule oc_eq_trans [OF oc_eq_add [OF f(1) oc_eq_refl] s1(1)])
  then have r2: "oc_eq (unat ?r) (256 * unat ?x + le_sum ?pb)"
    unfolding FOLD_twice total by (intro oc_eq_trans [OF oc_eq_oc] oc_eq_add oc_eq_refl)
  show ?thesis unfolding run by (rule end_swap [OF r r2])
qed

section \<open>Chains and pseudo headers\<close>

text \<open>The checksum field that RFC 1071 asks for, of a byte string.\<close>

definition internet_checksum :: "u8 list \<Rightarrow> u16" where
  "internet_checksum bs = NOT (of_nat (oc (le_sum bs)))"

abbreviation chain_bytes :: "seg list \<Rightarrow> u8 list" where
  "chain_bytes p \<equiv> concat (map snd p)"

definition chain_wf :: "seg list \<Rightarrow> bool" where
  "chain_wf p \<longleftrightarrow> (\<forall>(adr, data) \<in> set p. length data < 65536)"

lemma chain_wf_simps [simp]: "chain_wf []" "chain_wf ((adr, data) # q) \<longleftrightarrow> length data < 65536 \<and> chain_wf q"
  by (auto simp: chain_wf_def)

lemma fold_chksum:
  assumes "unat acc \<le> 65535" "length data < 65536"
    and acc1_def: "acc1 = FOLD_U32T (acc + ucast (lwip_standard_chksum adr data))"
  shows "unat acc1 \<le> 65535" "oc_eq (unat acc1) (unat acc + le_sum data)"
proof -
  let ?c = "lwip_standard_chksum adr data"
  have c: "unat ?c = oc (le_sum data)" using assms(2) by (intro chksum_oc) simp
  have u: "unat (acc + ucast ?c) = unat acc + unat ?c" using assms(1) u16_lt [of ?c] by (intro unat_add16) simp
  have "oc_eq (unat acc1) (unat acc + oc (le_sum data))" using FOLD_oc unfolding acc1_def u [unfolded c, symmetric] .
  then show "oc_eq (unat acc1) (unat acc + le_sum data)"
    by (rule oc_eq_trans) (intro oc_eq_add oc_eq_oc oc_eq_refl)
  have le: "unat acc + unat ?c \<le> 131070" using assms(1) u16_lt [of ?c] by simp
  define q r where "q = (unat acc + unat ?c) div 65536" and "r = (unat acc + unat ?c) mod 65536"
  have "65536 * q + r \<le> 131070" "r \<le> 65535" using le by (simp_all add: q_def r_def less_Suc_eq_le [symmetric])
  then have "q + r \<le> 65535" by (cases q) auto
  then show "unat acc1 \<le> 65535" unfolding acc1_def unat_FOLD u q_def r_def .
qed

lemma oc_eq_256_256: "oc_eq (256 * (256 * n)) n"
  using oc_eq_65536 [of n] by simp

lemma oc_eq_swap_step:
  assumes "oc_eq a2 (256 * a1)" "oc_eq a1 (x + le_sum data)" "odd (length data)"
    "oc_eq (k * y) (a2 + le_sum rest)" "k = 1 \<or> k = 256"
  shows "oc_eq ((if k = 1 then 256 else 1) * y) (x + le_sum (data @ rest))"
proof -
  have A: "oc_eq (256 * (k * y)) (256 * a2 + 256 * le_sum rest)"
    using oc_eq_mult [OF _ assms(4), of 256] by (simp add: distrib_left)
  have "oc_eq (256 * a2) (256 * (256 * a1))" by (rule oc_eq_mult [OF _ assms(1)]) simp
  then have "oc_eq (256 * a2) (x + le_sum data)"
    by (intro oc_eq_trans [OF oc_eq_trans [OF _ oc_eq_256_256] assms(2)])
  then have B: "oc_eq (256 * a2 + 256 * le_sum rest) (x + le_sum data + 256 * le_sum rest)"
    by (rule oc_eq_add) simp
  have C: "oc_eq (x + le_sum data + 256 * le_sum rest) (x + le_sum (data @ rest))"
    unfolding add.assoc by (rule oc_eq_add [OF oc_eq_refl oc_eq_sym [OF le_sum_append_odd [OF assms(3)]]])
  note * = oc_eq_trans [OF oc_eq_trans [OF A B] C]
  show ?thesis
  proof (cases "k = 1")
    case True with * show ?thesis by simp
  next
    case False
    with assms(5) have k: "k = 256" by simp
    from oc_eq_trans [OF oc_eq_sym [OF oc_eq_256_256 [of y]] * [unfolded k]] False show ?thesis by simp
  qed
qed

lemma chain_sum_oc:
  "unat acc \<le> 65535 \<Longrightarrow> chain_wf p \<Longrightarrow> chain_sum acc sw p = (acc', sw') \<Longrightarrow>
    unat acc' \<le> 65535 \<and> oc_eq ((if sw' = sw then 1 else 256) * unat acc') (unat acc + le_sum (chain_bytes p))"
proof (induction acc sw p rule: chain_sum.induct)
  case (2 acc sw adr data q)
  define acc1 where "acc1 = FOLD_U32T (acc + ucast (lwip_standard_chksum adr data))"
  have a1: "unat acc1 \<le> 65535" "oc_eq (unat acc1) (unat acc + le_sum data)"
    using fold_chksum [OF 2(3) _ acc1_def] 2(4) by simp_all
  have wf: "chain_wf q" using 2(4) by simp
  show ?case
  proof (cases "odd (length data)")
    case False
    have run: "chain_sum acc1 sw q = (acc', sw')" using 2(5) False by (simp add: acc1_def Let_def)
    from 2(2) [OF refl _ False] a1(1) wf run have
      "unat acc' \<le> 65535" "oc_eq ((if sw' = sw then 1 else 256) * unat acc') (unat acc1 + le_sum (chain_bytes q))"
      by (simp_all add: acc1_def)
    with oc_eq_add [OF a1(2) oc_eq_refl, of "le_sum (chain_bytes q)"] False show ?thesis
      by (auto simp: le_sum_append_even add.assoc intro: oc_eq_trans)
  next
    case True
    let ?a2 = "SWAP_BYTES_IN_WORD acc1"
    have run: "chain_sum ?a2 (\<not> sw) q = (acc', sw')" using 2(5) True by (simp add: acc1_def Let_def)
    from 2(1) [OF refl _ True] SWAP_oc(1) [OF a1(1)] wf run have
      IH: "unat acc' \<le> 65535"
        "oc_eq ((if sw' = (\<not> sw) then 1 else 256) * unat acc') (unat ?a2 + le_sum (chain_bytes q))"
      by (simp_all add: acc1_def)
    from oc_eq_swap_step [OF SWAP_oc(2) [OF a1(1)] a1(2) True IH(2)] IH(1) show ?thesis
      by (auto split: if_splits)
  qed
qed simp

lemma unswap_oc:
  assumes "unat acc \<le> 65535" "oc_eq ((if sw then 256 else 1) * unat acc) n"
  shows "unat (if sw then SWAP_BYTES_IN_WORD acc else acc) \<le> 65535"
    "oc_eq (unat (if sw then SWAP_BYTES_IN_WORD acc else acc)) n"
  using assms SWAP_oc [OF assms(1)] by (auto intro: oc_eq_trans)

lemma low16: "(ucast (w AND 0xffff) :: u16) = of_nat (unat (w :: u32))"
proof -
  have m: "(0xffff :: u32) = mask 16" by (simp add: mask_eq_exp_minus_1)
  have "(ucast (w AND 0xffff) :: u16) = ucast w"
    unfolding m by (intro bit_word_eqI) (simp add: bit_simps)
  then show ?thesis by simp
qed

lemma pbuf_chksum_eq:
  assumes "chain_wf p"
  shows "inet_chksum_pbuf p = internet_checksum (chain_bytes p)"
proof -
  obtain acc sw where cs: "chain_sum 0 False p = (acc, sw)" by fastforce
  from chain_sum_oc [OF _ assms cs] have "unat acc \<le> 65535"
    "oc_eq ((if sw then 256 else 1) * unat acc) (le_sum (chain_bytes p))" by (cases sw; simp)+
  note u = unswap_oc [OF this]
  show ?thesis
    unfolding inet_chksum_pbuf_def cs internet_checksum_def Let_def prod.case low16 oc_unique [OF u] ..
qed

text \<open>The bytes of a word in memory.\<close>

definition mem32 :: "u32 \<Rightarrow> u8 list" where
  "mem32 w = [ucast w, ucast (drop_bit 8 w), ucast (drop_bit 16 w), ucast (drop_bit 24 w)]"

lemma mem32_le32 [simp]: "mem32 (le32 a b c d) = [a, b, c, d]"
  by (auto simp: mem32_def bit_le32 bit_simps intro!: bit_word_eqI dest: bit_imp_le_length)

lemma pseudo_addrs_oc: "unat (pseudo_addrs src dest) = oc (le_sum (mem32 src @ mem32 dest))"
proof -
  from le32_ex [of src] le32_ex [of dest] obtain a b c d e f g h where
    w: "src = le32 a b c d" "dest = le32 e f g h" by blast
  have m: "(0xffff :: u32) = mask 16" by (simp add: mask_eq_exp_minus_1)
  have lo: "le32 a b c d AND 0xffff = ucast (le16 a b)" for a b c d
    unfolding m by (rule bit_word_eqI) (auto simp: bit_le32 le16_def bit_simps dest: bit_imp_le_length)
  have hi: "drop_bit 16 (le32 a b c d) AND 0xffff = ucast (le16 c d)" for a b c d
    unfolding m by (rule bit_word_eqI) (auto simp: bit_le32 le16_def bit_simps dest: bit_imp_le_length)
  have "unat (ucast (le16 a b) + ucast (le16 c d) + ucast (le16 e f) + ucast (le16 g h) :: u32) =
      unat (le16 a b) + unat (le16 c d) + unat (le16 e f) + unat (le16 g h)"
    using u16_lt [of "le16 a b"] u16_lt [of "le16 c d"] u16_lt [of "le16 e f"] u16_lt [of "le16 g h"]
    by (simp add: unat_word_ariths)
  then show ?thesis
    by (simp add: pseudo_addrs_def Let_def w lo hi FOLD_twice) (simp add: unat_le16 add.assoc)
qed

definition pseudo_header :: "u32 \<Rightarrow> u32 \<Rightarrow> u8 \<Rightarrow> u16 \<Rightarrow> u8 list" where
  "pseudo_header src dest proto proto_len =
     mem32 src @ mem32 dest @ [0, proto, hi8 proto_len, lo8 proto_len]"

text \<open>The end of both pseudo header sums.\<close>

lemma pseudo_finish:
  assumes "unat acc \<le> 65535" "oc_eq ((if sw then 256 else 1) * unat acc) (unat (pseudo_addrs src dest) + le_sum data)"
  defines "acc1 \<equiv> (if sw then SWAP_BYTES_IN_WORD acc else acc)"
  shows "NOT (ucast (FOLD_U32T (FOLD_U32T (acc1 + ucast (lwip_htons (ucast proto)) + ucast (lwip_htons proto_len)))
      AND 0xffff) :: u16) = internet_checksum (pseudo_header src dest proto proto_len @ data)"
proof -
  have a1: "unat acc1 \<le> 65535" "oc_eq (unat acc1) (unat (pseudo_addrs src dest) + le_sum data)"
    unfolding acc1_def by (rule unswap_oc [OF assms(1,2)])+
  have "ucast proto = le16 proto 0" by (simp add: le16_def)
  then have pr: "lwip_htons (ucast proto) = le16 0 proto" by (simp add: lwip_htons_bytes)
  have pl: "lwip_htons proto_len = le16 (hi8 proto_len) (lo8 proto_len)"
    by (metis le16_lo8_hi8 lwip_htons_bytes)
  let ?t = "acc1 + ucast (lwip_htons (ucast proto)) + ucast (lwip_htons proto_len)"
  have u: "unat ?t = unat acc1 + unat (le16 0 proto) + unat (le16 (hi8 proto_len) (lo8 proto_len))"
    using a1(1) u16_lt [of "le16 0 proto"] u16_lt [of "le16 (hi8 proto_len) (lo8 proto_len)"]
    unfolding pr pl by (simp add: unat_word_ariths)
  have A: "oc_eq (unat acc1) (le_sum (mem32 src @ mem32 dest) + le_sum data)"
    by (rule oc_eq_trans [OF a1(2)]) (auto simp: pseudo_addrs_oc intro!: oc_eq_add oc_eq_oc)
  have "oc_eq (unat ?t) (le_sum (mem32 src @ mem32 dest) + le_sum data + unat (le16 0 proto) +
      unat (le16 (hi8 proto_len) (lo8 proto_len)))"
    unfolding u by (intro oc_eq_add A oc_eq_refl)
  also have "le_sum (mem32 src @ mem32 dest) + le_sum data + unat (le16 0 proto) +
      unat (le16 (hi8 proto_len) (lo8 proto_len)) = le_sum (pseudo_header src dest proto proto_len @ data)"
    by (simp add: pseudo_header_def mem32_def unat_le16)
  finally have "oc_eq (oc (unat ?t)) (le_sum (pseudo_header src dest proto proto_len @ data))"
    by (rule oc_eq_trans [OF oc_eq_oc])
  with oc_le have "oc (unat ?t) = oc (le_sum (pseudo_header src dest proto proto_len @ data))"
    by (rule oc_unique)
  then show ?thesis by (simp only: internet_checksum_def low16 FOLD_twice)
qed

lemma pseudo_eq:
  assumes "chain_wf p"
  shows "inet_chksum_pseudo p proto proto_len src dest =
    internet_checksum (pseudo_header src dest proto proto_len @ chain_bytes p)"
proof -
  obtain acc sw where cs: "chain_sum (pseudo_addrs src dest) False p = (acc, sw)" by fastforce
  have "unat (pseudo_addrs src dest) \<le> 65535" unfolding pseudo_addrs_oc by (rule oc_le)
  from chain_sum_oc [OF this assms cs] have "unat acc \<le> 65535"
    "oc_eq ((if sw then 256 else 1) * unat acc) (unat (pseudo_addrs src dest) + le_sum (chain_bytes p))"
    by (cases sw; simp)+
  from pseudo_finish [OF this] cs show ?thesis
    by (simp add: inet_chksum_pseudo_def inet_cksum_pseudo_base_def Let_def)
qed

lemma chain_sum_partial_oc:
  "unat acc \<le> 65535 \<Longrightarrow> chain_wf p \<Longrightarrow> n < 0x7fff \<Longrightarrow>
    \<exists>acc' sw'. chain_sum_partial acc sw n p = Some (acc', sw') \<and> unat acc' \<le> 65535 \<and>
      oc_eq ((if sw' = sw then 1 else 256) * unat acc') (unat acc + le_sum (take (unat n) (chain_bytes p)))"
proof (induction p arbitrary: acc sw n)
  case (Cons s q)
  obtain adr data where s: "s = (adr, data)" by (cases s)
  have len: "length data < 65536" and wf: "chain_wf q" using Cons.prems(2) by (simp_all add: s)
  let ?L = "of_nat (length data) :: u16"
  have L: "unat ?L = length data" using len by (simp add: unat_of_nat take_bit_nat_eq_self)
  define k where "k = (if ?L > n then n else ?L)"
  define m where "m = n - k"
  have k: "unat k = min (unat n) (length data)" by (simp add: k_def word_less_nat_alt L min_def)
  have "k \<le> n" unfolding k_def by (cases "?L > n") (simp_all add: not_less del: of_nat_less_iff)
  then have m: "unat m = unat n - length data" by (simp add: m_def unat_sub k min_def)
  have "m \<le> n" using \<open>k \<le> n\<close> m by (simp add: word_le_nat_alt)
  then have m7: "m < 0x7fff" using Cons.prems(3) by (rule le_less_trans)
  have tk: "take (unat k) data = take (unat n) data" by (simp add: k min_def)
  define acc1 where "acc1 = FOLD_U32T (acc + ucast (lwip_standard_chksum adr (take (unat k) data)))"
  have a1: "unat acc1 \<le> 65535" "oc_eq (unat acc1) (unat acc + le_sum (take (unat n) data))"
    using fold_chksum [OF Cons.prems(1) _ acc1_def [unfolded tk]] len by simp_all
  show ?case
  proof (cases "n > 0")
    case False
    then have "n = 0" using word_neq_0_conv by blast
    with Cons.prems show ?thesis by (auto simp: s)
  next
    case True
    have split: "take (unat n) (chain_bytes (s # q)) = take (unat n) data @ take (unat m) (chain_bytes q)"
      by (simp add: s m)
    show ?thesis
    proof (cases "odd (length data)")
      case False
      have run: "chain_sum_partial acc sw n (s # q) = chain_sum_partial acc1 sw m q"
        using True False m7 by (simp add: s acc1_def k_def m_def Let_def)
      from Cons.IH [OF a1(1) wf m7, of sw] obtain acc' sw' where
        r: "chain_sum_partial acc1 sw m q = Some (acc', sw')" "unat acc' \<le> 65535"
          "oc_eq ((if sw' = sw then 1 else 256) * unat acc') (unat acc1 + le_sum (take (unat m) (chain_bytes q)))" by blast
      have app: "le_sum (take (unat n) (chain_bytes (s # q))) =
          le_sum (take (unat n) data) + le_sum (take (unat m) (chain_bytes q))"
        unfolding split using False m by (cases "unat n \<le> length data") (auto simp: le_sum_append_even)
      show ?thesis
        using r(2) oc_eq_trans [OF r(3) oc_eq_add [OF a1(2) oc_eq_refl]]
        unfolding run r(1) app by (auto simp: add.assoc)
    next
      case odd: True
      let ?a2 = "SWAP_BYTES_IN_WORD acc1"
      have run: "chain_sum_partial acc sw n (s # q) = chain_sum_partial ?a2 (\<not> sw) m q"
        using True odd m7 by (simp add: s acc1_def k_def m_def Let_def)
      from Cons.IH [OF SWAP_oc(1) [OF a1(1)] wf m7, of "\<not> sw"] obtain acc' sw' where
        r: "chain_sum_partial ?a2 (\<not> sw) m q = Some (acc', sw')" "unat acc' \<le> 65535"
          "oc_eq ((if sw' = (\<not> sw) then 1 else 256) * unat acc') (unat ?a2 + le_sum (take (unat m) (chain_bytes q)))"
        by blast
      have "oc_eq ((if sw' = sw then 1 else 256) * unat acc') (unat acc + le_sum (take (unat n) (chain_bytes (s # q))))"
      proof (cases "length data \<le> unat n")
        case True
        then have t: "take (unat n) data = data" by simp
        from oc_eq_swap_step [OF SWAP_oc(2) [OF a1(1)] a1(2) [unfolded t] odd r(3)] show ?thesis
          unfolding split t by (auto split: if_splits)
      next
        case False
        then have "m = 0" using m by (simp add: unat_eq_0 [symmetric])
        then have e: "acc' = ?a2" "sw' = (\<not> sw)" using r(1) by (cases q; auto)+
        have "oc_eq (256 * unat ?a2) (256 * (256 * unat acc1))" by (rule oc_eq_mult [OF _ SWAP_oc(2) [OF a1(1)]]) simp
        then have "oc_eq (256 * unat ?a2) (unat acc + le_sum (take (unat n) data))"
          by (intro oc_eq_trans [OF oc_eq_trans [OF _ oc_eq_256_256] a1(2)])
        then show ?thesis unfolding e split using \<open>m = 0\<close> by simp
      qed
      with r(1,2) show ?thesis unfolding run by blast
    qed
  qed
qed simp

section \<open>Properties\<close>

text \<open>C11. The three versions of \<open>lwip_standard_chksum\<close> compute the same number, the one's complement sum of the
  16-bit words of the data, at every alignment and every length up to \<open>0x20000\<close> (two bytes less for
  version 1), and 0 only for data that are all zero.\<close>

theorem standard_chksum_versions:
  assumes "length data \<le> 0x20000 - 2"
  shows "lwip_standard_chksum adr data = of_nat (oc (le_sum data)) \<and>
    lwip_standard_chksum1 data = lwip_standard_chksum adr data \<and>
    lwip_standard_chksum3 adr' data = lwip_standard_chksum adr data \<and>
    (lwip_standard_chksum adr data = 0 \<longleftrightarrow> set data \<subseteq> {0})"
proof -
  have len: "length data \<le> 0x20000" using assms by simp
  have eqI: "w = of_nat n" if "unat w = n" for w :: u16 and n using that by auto
  have 1: "unat (lwip_standard_chksum adr data) = oc (le_sum data)" by (rule chksum_oc [OF len])
  have "lwip_standard_chksum adr data = 0 \<longleftrightarrow> le_sum data = 0"
    unfolding unsigned_eq_0_iff [of "lwip_standard_chksum adr data", where 'a = nat, symmetric] 1 by (simp add: oc_def)
  with 1 chksum1_oc [OF assms] chksum3_oc [of adr' data] show ?thesis
    by (auto simp: le_sum_eq_0 intro!: eqI) (simp_all add: word_unat_eq_iff)
qed

theorem standard_chksum_versions_witness:
  "lwip_standard_chksum 1 [0x45, 0, 0x12] = of_nat (oc (le_sum [0x45, 0, 0x12])) \<and>
   lwip_standard_chksum3 2 [0x45, 0, 0x12] = lwip_standard_chksum 1 [0x45, 0, 0x12]"
  using standard_chksum_versions [of "[0x45, 0, 0x12]" 1 2] by simp

text \<open>C12. The checksum of a pbuf chain does not depend on how the data are split into pbufs or on where the pieces
  lie: it is the checksum of the concatenated payloads, also when pieces have odd lengths.\<close>

theorem chksum_pbuf_split:
  assumes "chain_wf p"
  shows "inet_chksum_pbuf p = internet_checksum (chain_bytes p)"
  using assms by (rule pbuf_chksum_eq)

theorem chksum_pbuf_split_witness:
  "inet_chksum_pbuf [(3, [1, 2, 3]), (8, [4])] = internet_checksum [1, 2, 3, 4]"
  using chksum_pbuf_split [of "[(3, [1, 2, 3]), (8, [4])]"] by simp

text \<open>The transport checksum is that of the pseudo header followed by the chain's data; the partial one takes
  the first \<open>chksum_len\<close> bytes of the data, provided the length is below the asserted bound 32767.\<close>

theorem chksum_pseudo_correct:
  assumes "chain_wf p" "chksum_len < 0x7fff"
  shows "ip_chksum_pseudo p proto proto_len src dest =
      internet_checksum (pseudo_header src dest proto proto_len @ chain_bytes p) \<and>
    ip_chksum_pseudo_partial p proto proto_len chksum_len src dest =
      Some (internet_checksum (pseudo_header src dest proto proto_len @ take (unat chksum_len) (chain_bytes p)))"
proof -
  have "unat (pseudo_addrs src dest) \<le> 65535" unfolding pseudo_addrs_oc by (rule oc_le)
  from chain_sum_partial_oc [OF this assms, of False] obtain acc sw where
    cs: "chain_sum_partial (pseudo_addrs src dest) False chksum_len p = Some (acc, sw)" "unat acc \<le> 65535" and
    o: "oc_eq ((if sw = False then 1 else 256) * unat acc)
      (unat (pseudo_addrs src dest) + le_sum (take (unat chksum_len) (chain_bytes p)))" by blast
  have "oc_eq ((if sw then 256 else 1) * unat acc)
      (unat (pseudo_addrs src dest) + le_sum (take (unat chksum_len) (chain_bytes p)))" using o by (cases sw) auto
  from pseudo_finish [OF cs(2) this] cs(1) pseudo_eq [OF assms(1)] show ?thesis
    by (simp add: ip_chksum_pseudo_def ip_chksum_pseudo_partial_def inet_chksum_pseudo_partial_def
        inet_cksum_pseudo_partial_base_def Let_def)
qed

theorem chksum_pseudo_correct_witness:
  "ip_chksum_pseudo_partial [(0, [1, 2, 3]), (4, [4, 5])] 17 5 4 0x0100007f 0x0100007f =
    Some (internet_checksum (pseudo_header 0x0100007f 0x0100007f 17 5 @ [1, 2, 3, 4]))"
  using chksum_pseudo_correct [of "[(0, [1, 2, 3]), (4, [4, 5])]" 4 17 5 "0x0100007f" "0x0100007f"] by simp

text \<open>A receiver's check accepts what a sender stores: with the checksum of the data (its field zero) stored in
  the field, at any even offset, the checksum of the whole is 0.\<close>

theorem chksum_verifies:
  assumes "even (length pre)" "length pre + length post + 2 \<le> 0x20000" "\<not> set (pre @ post) \<subseteq> {0}"
    and c_def: "c = inet_chksum adr (pre @ [0, 0] @ post)"
  shows "inet_chksum adr (pre @ [lo8 c, hi8 c] @ post) = 0"
proof -
  have len: "length (pre @ [x, y] @ post) \<le> 0x20000" for x y using assms(2) by simp
  have sum: "le_sum (pre @ [x, y] @ post) = le_sum (pre @ [0, 0] @ post) + unat (le16 x y)" for x y
    by (simp add: le_sum_append_even [OF assms(1)] unat_le16)
  have NOT: "unat (NOT w) = 65535 - unat w" for w :: u16
  proof -
    have "NOT w = - 1 - w" by (simp add: not_eq_complement)
    moreover have "unat (- 1 - w) = unat (- 1 :: u16) - unat w" by (rule unat_sub) simp
    ultimately show ?thesis by (simp add: unsigned_minus_1_eq_mask mask_eq_exp_minus_1)
  qed
  let ?S = "le_sum (pre @ [0, 0] @ post)"
  have "?S \<noteq> 0" using assms(3) by (auto simp: le_sum_eq_0)
  have c: "unat c = 65535 - oc ?S" unfolding c_def inet_chksum_def NOT chksum_oc [OF len] ..
  have "oc_eq (?S + unat c) 65535"
  proof -
    have "oc_eq (?S + unat c) (oc ?S + unat c)" by (intro oc_eq_add oc_eq_sym [OF oc_eq_oc] oc_eq_refl)
    with oc_le [of ?S] show ?thesis unfolding c by simp
  qed
  then have "oc_eq 65535 (?S + unat c)" by (rule oc_eq_sym)
  then have "oc (?S + unat c) = 65535" by (intro oc_unique [symmetric]) (rule order_refl)
  then have "unat (lwip_standard_chksum adr (pre @ [lo8 c, hi8 c] @ post)) = 65535"
    unfolding chksum_oc [OF len] sum [of "lo8 c" "hi8 c"] le16_lo8_hi8 .
  then have "unat (inet_chksum adr (pre @ [lo8 c, hi8 c] @ post)) = 0" by (simp only: inet_chksum_def NOT)
  then show ?thesis by (simp only: unsigned_eq_0_iff)
qed

theorem chksum_verifies_witness:
  "\<exists>c. inet_chksum 0 ([0x45, 0] @ [lo8 c, hi8 c] @ [7]) = 0"
proof
  let ?c = "inet_chksum 0 ([0x45, 0] @ [0, 0] @ [7])"
  have p: "even (length [0x45 :: u8, 0])" "length [0x45 :: u8, 0] + length [7 :: u8] + 2 \<le> 0x20000"
    "\<not> set ([0x45 :: u8, 0] @ [7]) \<subseteq> {0}" by simp_all
  show "inet_chksum 0 ([0x45, 0] @ [lo8 ?c, hi8 ?c] @ [7]) = 0" by (rule chksum_verifies [OF p refl])
qed

end
