(* ===== verification/Lwip_Ip4_Out.thy ===== *)
theory Lwip_Ip4_Out
  imports Lwip_Etharp Lwip_Chksum
begin

unbundle bit_operations_syntax

text \<open>
  IPv4 output: the header, routing and output of \<^verbatim>\<open>lwip/src/core/ipv4/ip4.c\<close> and the fragmentation of
  \<^verbatim>\<open>lwip/src/core/ipv4/ip4_frag.c\<close>.  The output function of an interface is \<open>etharp_output\<close>, as
  \<^verbatim>\<open>core/src/main.c\<close> sets it.

  A header pointer is an address, its fields are offsets.  The result of an output function is the error code.
\<close>

section \<open>The header\<close>

definition IP_HLEN :: nat where "IP_HLEN = 20"
definition IP_MF :: u16 where "IP_MF = 0x2000"
definition IP_OFFMASK :: u16 where "IP_OFFMASK = 0x1fff"
definition IP_PROTO_ICMP :: u8 where "IP_PROTO_ICMP = 1"

definition iph_v_hl :: "ptr \<Rightarrow> ptr" where "iph_v_hl h = h"
definition iph_tos :: "ptr \<Rightarrow> ptr" where "iph_tos h = ptr_add h 1"
definition iph_len :: "ptr \<Rightarrow> ptr" where "iph_len h = ptr_add h 2"
definition iph_id :: "ptr \<Rightarrow> ptr" where "iph_id h = ptr_add h 4"
definition iph_offset :: "ptr \<Rightarrow> ptr" where "iph_offset h = ptr_add h 6"
definition iph_ttl :: "ptr \<Rightarrow> ptr" where "iph_ttl h = ptr_add h 8"
definition iph_proto :: "ptr \<Rightarrow> ptr" where "iph_proto h = ptr_add h 9"
definition iph_chksum :: "ptr \<Rightarrow> ptr" where "iph_chksum h = ptr_add h 10"
definition iph_src :: "ptr \<Rightarrow> ptr" where "iph_src h = ptr_add h 12"
definition iph_dest :: "ptr \<Rightarrow> ptr" where "iph_dest h = ptr_add h 16"

lemmas iph_fields = iph_v_hl_def iph_tos_def iph_len_def iph_id_def iph_offset_def iph_ttl_def iph_proto_def iph_chksum_def
  iph_src_def iph_dest_def

definition IPH_V :: "ptr \<Rightarrow> 'd net_st \<Rightarrow> u8" where "IPH_V h s = drop_bit 4 (get8 (iph_v_hl h) s)"
definition IPH_HL :: "ptr \<Rightarrow> 'd net_st \<Rightarrow> u8" where "IPH_HL h s = get8 (iph_v_hl h) s AND 0x0f"
definition IPH_HL_BYTES :: "ptr \<Rightarrow> 'd net_st \<Rightarrow> u8" where "IPH_HL_BYTES h s = IPH_HL h s * 4"
definition IPH_OFFSET_BYTES :: "ptr \<Rightarrow> 'd net_st \<Rightarrow> u16" where
  "IPH_OFFSET_BYTES h s = (lwip_htons (get16 (iph_offset h) s) AND IP_OFFMASK) * 8"

text \<open>The checksum of \<open>n\<close> bytes at an address.\<close>

definition chksum_at :: "ptr \<Rightarrow> nat \<Rightarrow> 'd net_st \<Rightarrow> u16" where
  "chksum_at a n s = inet_chksum (nat (snd a)) (get_bytes a n s)"

section \<open>Routing\<close>

definition ip4_addr_isloopback :: "u32 \<Rightarrow> bool" where
  "ip4_addr_isloopback addr \<longleftrightarrow> addr AND lwip_htonl 0xff000000 = lwip_htonl (push_bit 24 127)"

fun route_scan :: "u32 \<Rightarrow> netif list \<Rightarrow> netif option" where
  "route_scan dest [] = None"
| "route_scan dest (netif # ns) =
     (if netif_is_up netif \<and> netif_is_link_up netif \<and> \<not> ip4_addr_isany (netif_ip4_addr netif) \<and>
         (ip4_addr_net_eq dest (netif_ip4_addr netif) (netif_ip4_netmask netif) \<or>
          netif_flags netif AND NETIF_FLAG_BROADCAST = 0 \<and> dest = netif_ip4_gw netif)
      then Some netif else route_scan dest ns)"

definition ip4_route :: "u32 \<Rightarrow> 'd net_st \<Rightarrow> netif option" where
  "ip4_route dest s =
     (case route_scan dest (netif_list s) of
        Some netif \<Rightarrow> Some netif
      | None \<Rightarrow>
          (case netif_deref (netif_default s) s of
             None \<Rightarrow> None
           | Some d \<Rightarrow>
               if \<not> netif_is_up d \<or> \<not> netif_is_link_up d \<or> ip4_addr_isany (netif_ip4_addr d) \<or> ip4_addr_isloopback dest
               then None else Some d))"

section \<open>Fragmentation\<close>

text \<open>
  The loop that mirrors the next \<open>left_to_copy\<close> bytes of the packet behind \<open>rambuf\<close>; the result is the place reached and
  the length of the last piece, or \<open>None\<close> when memory runs out.
\<close>

definition ip_frag_alloc_pbuf_custom_ref :: "'d net_st \<Rightarrow> (ptr option \<times> 'd net_st) option" where
  "ip_frag_alloc_pbuf_custom_ref s = in_mem (st_memp_malloc MEMP_FRAG_PBUF) s"

definition ip_frag_free_pbuf_custom_ref :: "ptr \<Rightarrow> 'd net_st \<Rightarrow> 'd net_st option" where
  "ip_frag_free_pbuf_custom_ref p s = on_mem (st_memp_free MEMP_FRAG_PBUF p) s"

definition set_custom :: "ptr \<Rightarrow> pbuf_custom_ref \<Rightarrow> net_mem \<Rightarrow> net_mem option" where
  "set_custom a c m = Some (m\<lparr>customs := (customs m)(a := c)\<rparr>)"

partial_function (option) frag_fill ::
    "ptr \<Rightarrow> u16 \<Rightarrow> u16 \<Rightarrow> u16 \<Rightarrow> ptr \<Rightarrow> 'd net_st \<Rightarrow> ((ptr \<times> u16 \<times> u16) option \<times> 'd net_st) option" where
  "frag_fill p poff newpbuflen left_to_copy rambuf s =
     (if left_to_copy = 0 then Some (Some (p, poff, newpbuflen), s)
      else if \<not> pb_len (the_pbuf s p) \<ge> poff then None
      else
        let newpbuflen = min left_to_copy (pb_len (the_pbuf s p) - poff) in
        if newpbuflen = 0 then do { p \<leftarrow> pb_next (the_pbuf s p); frag_fill p 0 newpbuflen left_to_copy rambuf s }
        else
          do { (pcr, s) \<leftarrow> ip_frag_alloc_pbuf_custom_ref s;
               case pcr of
                 None \<Rightarrow> do { s \<leftarrow> free_pbuf rambuf s; Some (None, s) }
               | Some pcr \<Rightarrow>
                   do { pl \<leftarrow> pb_payload (the_pbuf s p);
                        (newpbuf, s) \<leftarrow> in_mem (\<lambda>m. Some (pbuf_alloced_custom PBUF_RAW newpbuflen PBUF_REF pcr
                           (Some (ptr_add pl (uint poff))) newpbuflen m)) s;
                        case newpbuf of
                          None \<Rightarrow>
                            do { s \<leftarrow> ip_frag_free_pbuf_custom_ref pcr s; s \<leftarrow> free_pbuf rambuf s; Some (None, s) }
                        | Some newpbuf \<Rightarrow>
                            do { s \<leftarrow> on_mem (pbuf_ref (Some p)) s;
                                 s \<leftarrow> on_mem (set_custom pcr \<lparr>custom_free_function = Some Ipfrag_free, pcr_original = Some p\<rparr>) s;
                                 s \<leftarrow> on_mem (pbuf_cat (Some rambuf) (Some newpbuf)) s;
                                 let left_to_copy = left_to_copy - newpbuflen in
                                 if left_to_copy \<noteq> 0
                                 then do { p \<leftarrow> pb_next (the_pbuf s p); frag_fill p 0 newpbuflen left_to_copy rambuf s }
                                 else frag_fill p poff newpbuflen left_to_copy rambuf s } } })"

text \<open>The loop over the fragments.\<close>

partial_function (option) frag_loop ::
    "'d link_fn \<Rightarrow> ptr \<Rightarrow> u16 \<Rightarrow> u16 \<Rightarrow> u16 \<Rightarrow> ptr \<Rightarrow> bool \<Rightarrow> u16 \<Rightarrow> netif \<Rightarrow> u32 \<Rightarrow> 'd net_st \<Rightarrow> (err_t \<times> 'd net_st) option" where
  "frag_loop lo p poff lft ofo original_iphdr mf_set nfb netif dest s =
     (if lft = 0 then Some (ERR_OK, s)
      else
        let fragsize = min lft (nfb * 8) in
        do { (rambuf, s) \<leftarrow> in_mem (pbuf_alloc PBUF_LINK (of_nat IP_HLEN) PBUF_RAM) s;
             case rambuf of
               None \<Rightarrow> Some (ERR_MEM, s)
             | Some rambuf \<Rightarrow>
                 if \<not> pb_len (the_pbuf s rambuf) \<ge> of_nat IP_HLEN then None
                 else
                   do { iphdr \<leftarrow> pb_payload (the_pbuf s rambuf);
                        let s = put_bytes iphdr (get_bytes original_iphdr IP_HLEN s) s;
                        (r, s) \<leftarrow> frag_fill p poff 0 fragsize rambuf s;
                        case r of
                          None \<Rightarrow> Some (ERR_MEM, s)
                        | Some (p, poff, newpbuflen) \<Rightarrow>
                            let poff = poff + newpbuflen;
                                last_frag = (uint lft \<le> uint (netif_mtu netif) - int IP_HLEN);
                                tmp = IP_OFFMASK AND ofo;
                                tmp = (if \<not> last_frag \<or> mf_set then tmp OR IP_MF else tmp);
                                s = put16 (iph_offset iphdr) (lwip_htons tmp) s;
                                s = put16 (iph_len iphdr) (lwip_htons (fragsize + of_nat IP_HLEN)) s;
                                s = put16 (iph_chksum iphdr) 0 s;
                                s = put16 (iph_chksum iphdr) (chksum_at iphdr IP_HLEN s) s
                            in do { (_, s) \<leftarrow> etharp_output lo netif rambuf dest s;
                                    s \<leftarrow> free_pbuf rambuf s;
                                    frag_loop lo p poff (lft - fragsize) (ofo + nfb) original_iphdr mf_set nfb netif dest s } } })"

text \<open>The number of 8-byte blocks of a fragment, computed in \<^verbatim>\<open>int\<close>.\<close>

definition frag_nfb :: "u16 \<Rightarrow> u16" where
  "frag_nfb mtu = (if mtu \<ge> of_nat IP_HLEN then (mtu - of_nat IP_HLEN) div 8 else of_int (- ((int IP_HLEN - uint mtu) div 8)))"

definition ip4_frag :: "'d link_fn \<Rightarrow> ptr \<Rightarrow> netif \<Rightarrow> u32 \<Rightarrow> 'd net_st \<Rightarrow> (err_t \<times> 'd net_st) option" where
  "ip4_frag lo p netif dest s =
     (let nfb = frag_nfb (netif_mtu netif) in
      do { iphdr \<leftarrow> pb_payload (the_pbuf s p);
           if IPH_HL_BYTES iphdr s \<noteq> of_nat IP_HLEN then Some (ERR_VAL, s)
           else if \<not> pb_len (the_pbuf s p) \<ge> of_nat IP_HLEN then Some (ERR_VAL, s)
           else
             let tmp = lwip_htons (get16 (iph_offset iphdr) s);
                 ofo = tmp AND IP_OFFMASK;
                 mf_set = (tmp AND IP_MF \<noteq> 0);
                 lft = pb_tot_len (the_pbuf s p) - of_nat IP_HLEN
             in frag_loop lo p (of_nat IP_HLEN) lft ofo iphdr mf_set nfb netif dest s })"

section \<open>Output\<close>

text \<open>The header checksum as it is summed up on the way.\<close>

definition ip_hdr_chksum :: "u8 \<Rightarrow> u8 \<Rightarrow> u32 \<Rightarrow> u8 \<Rightarrow> u8 \<Rightarrow> u16 \<Rightarrow> u16 \<Rightarrow> u32 \<Rightarrow> u16" where
  "ip_hdr_chksum proto ttl dest tos v_hl len_be id_be src =
     (let chk_sum = ucast (lwip_htons (ucast proto OR push_bit 8 (ucast ttl))) :: u32;
          chk_sum = chk_sum + (dest AND 0xFFFF);
          chk_sum = chk_sum + drop_bit 16 dest;
          chk_sum = chk_sum + ucast (lwip_htons (ucast tos OR push_bit 8 (ucast v_hl)));
          chk_sum = chk_sum + ucast len_be;
          chk_sum = chk_sum + ucast id_be;
          chk_sum = chk_sum + (src AND 0xFFFF);
          chk_sum = chk_sum + drop_bit 16 src;
          chk_sum = drop_bit 16 chk_sum + (chk_sum AND 0xFFFF);
          chk_sum = drop_bit 16 chk_sum + chk_sum;
          chk_sum = NOT chk_sum
      in ucast chk_sum)"

text \<open>The generation of the header, for a packet of the given length.\<close>

definition ip4_write_header :: "ptr \<Rightarrow> u16 \<Rightarrow> u32 \<Rightarrow> u32 \<Rightarrow> u8 \<Rightarrow> u8 \<Rightarrow> u8 \<Rightarrow> 'd net_st \<Rightarrow> 'd net_st" where
  "ip4_write_header iphdr tot_len src dest ttl tos proto s =
     (let s = put_bytes (iph_ttl iphdr) [ttl] s;
          s = put_bytes (iph_proto iphdr) [proto] s;
          s = put32 (iph_dest iphdr) dest s;
          v_hl = push_bit 4 4 OR of_nat (IP_HLEN div 4);
          s = put_bytes (iph_v_hl iphdr) [v_hl] s;
          s = put_bytes (iph_tos iphdr) [tos] s;
          len_be = lwip_htons tot_len;
          s = put16 (iph_len iphdr) len_be s;
          s = put16 (iph_offset iphdr) 0 s;
          id_be = lwip_htons (ip_id s);
          s = put16 (iph_id iphdr) id_be s;
          s = s\<lparr>ip_id := ip_id s + 1\<rparr>;
          s = put32 (iph_src iphdr) src s
      in put16 (iph_chksum iphdr) (ip_hdr_chksum proto ttl dest tos v_hl len_be id_be src) s)"

text \<open>The destination is \<open>None\<close> for \<^verbatim>\<open>LWIP_IP_HDRINCL\<close>, the source for \<^verbatim>\<open>NULL\<close>.\<close>

definition ip4_output_if_src ::
    "'d link_fn \<Rightarrow> ptr \<Rightarrow> u32 option \<Rightarrow> u32 option \<Rightarrow> u8 \<Rightarrow> u8 \<Rightarrow> u8 \<Rightarrow> netif \<Rightarrow> 'd net_st \<Rightarrow> (err_t \<times> 'd net_st) option" where
  "ip4_output_if_src lo p src dest ttl tos proto netif s =
     (if \<not> pb_ref (the_pbuf s p) = 1 then None
      else
        do { (e, s) \<leftarrow>
               (case dest of
                  Some dest \<Rightarrow>
                    do { (failed, s) \<leftarrow> in_mem (pbuf_add_header (Some p) IP_HLEN) s;
                         if failed then Some (Inl ERR_BUF, s)
                         else
                           do { iphdr \<leftarrow> pb_payload (the_pbuf s p);
                                if \<not> pb_len (the_pbuf s p) \<ge> of_nat IP_HLEN then None
                                else
                                  let src = (case src of None \<Rightarrow> IPADDR_ANY | Some src \<Rightarrow> src)
                                  in Some (Inr dest, ip4_write_header iphdr (pb_tot_len (the_pbuf s p)) src dest ttl tos proto s) } }
                | None \<Rightarrow>
                    if pb_len (the_pbuf s p) < of_nat IP_HLEN then Some (Inl ERR_BUF, s)
                    else do { iphdr \<leftarrow> pb_payload (the_pbuf s p); Some (Inr (get32 (iph_dest iphdr) s), s) });
             case e of
               Inl err \<Rightarrow> Some (err, s)
             | Inr dest \<Rightarrow>
                 if netif_mtu netif \<noteq> 0 \<and> pb_tot_len (the_pbuf s p) > netif_mtu netif then ip4_frag lo p netif dest s
                 else etharp_output lo netif p dest s })"

definition ip4_output_if ::
    "'d link_fn \<Rightarrow> ptr \<Rightarrow> u32 option \<Rightarrow> u32 option \<Rightarrow> u8 \<Rightarrow> u8 \<Rightarrow> u8 \<Rightarrow> netif \<Rightarrow> 'd net_st \<Rightarrow> (err_t \<times> 'd net_st) option" where
  "ip4_output_if lo p src dest ttl tos proto netif s =
     (let src_used = (if dest \<noteq> None \<and> (case src of None \<Rightarrow> True | Some a \<Rightarrow> ip4_addr_isany a)
                      then Some (netif_ip4_addr netif) else src)
      in ip4_output_if_src lo p src_used dest ttl tos proto netif s)"

definition ip4_output ::
    "'d link_fn \<Rightarrow> ptr \<Rightarrow> u32 option \<Rightarrow> u32 \<Rightarrow> u8 \<Rightarrow> u8 \<Rightarrow> u8 \<Rightarrow> 'd net_st \<Rightarrow> (err_t \<times> 'd net_st) option" where
  "ip4_output lo p src dest ttl tos proto s =
     (if \<not> pb_ref (the_pbuf s p) = 1 then None
      else
        (case ip4_route dest s of
           None \<Rightarrow> Some (ERR_RTE, s)
         | Some netif \<Rightarrow> ip4_output_if lo p src (Some dest) ttl tos proto netif s))"

end
