(* ===== verification/Lwip_Icmp.thy ===== *)
theory Lwip_Icmp
  imports Lwip_Ip4_Out
begin

unbundle bit_operations_syntax

text \<open>
  ICMP, \<^verbatim>\<open>lwip/src/core/ipv4/icmp.c\<close>: echo replies and the error messages that IPv4 input and reassembly send.
  Neither multicast nor broadcast requests are answered.
\<close>

section \<open>Header\<close>

definition ICMP_ER :: u8 where "ICMP_ER = 0"
definition ICMP_DUR :: u8 where "ICMP_DUR = 3"
definition ICMP_ECHO :: u8 where "ICMP_ECHO = 8"
definition ICMP_TE :: u8 where "ICMP_TE = 11"
definition ICMP_TTL :: u8 where "ICMP_TTL = 255"
definition ICMP_DEST_UNREACH_DATASIZE :: u16 where "ICMP_DEST_UNREACH_DATASIZE = 8"
definition SIZEOF_ICMP_HDR :: nat where "SIZEOF_ICMP_HDR = 8"
definition NETIF_NO_INDEX :: u8 where "NETIF_NO_INDEX = 0"

lemmas icmp_consts = ICMP_ER_def ICMP_DUR_def ICMP_ECHO_def ICMP_TE_def ICMP_TTL_def ICMP_DEST_UNREACH_DATASIZE_def
  SIZEOF_ICMP_HDR_def NETIF_NO_INDEX_def

text \<open>The header of the error messages has a word \<open>data\<close> where that of an echo has identifier and number.\<close>

definition icmph_type :: "ptr \<Rightarrow> ptr" where "icmph_type h = h"
definition icmph_code :: "ptr \<Rightarrow> ptr" where "icmph_code h = ptr_add h 1"
definition icmph_chksum :: "ptr \<Rightarrow> ptr" where "icmph_chksum h = ptr_add h 2"
definition icmph_data :: "ptr \<Rightarrow> ptr" where "icmph_data h = ptr_add h 4"

lemmas icmp_fields = icmph_type_def icmph_code_def icmph_chksum_def icmph_data_def

datatype icmp_dur_type = ICMP_DUR_NET | ICMP_DUR_HOST | ICMP_DUR_PROTO | ICMP_DUR_PORT | ICMP_DUR_FRAG | ICMP_DUR_SR

primrec icmp_dur_num :: "icmp_dur_type \<Rightarrow> u8" where
  "icmp_dur_num ICMP_DUR_NET = 0"
| "icmp_dur_num ICMP_DUR_HOST = 1"
| "icmp_dur_num ICMP_DUR_PROTO = 2"
| "icmp_dur_num ICMP_DUR_PORT = 3"
| "icmp_dur_num ICMP_DUR_FRAG = 4"
| "icmp_dur_num ICMP_DUR_SR = 5"

datatype icmp_te_type = ICMP_TE_TTL | ICMP_TE_FRAG

primrec icmp_te_num :: "icmp_te_type \<Rightarrow> u8" where
  "icmp_te_num ICMP_TE_TTL = 0"
| "icmp_te_num ICMP_TE_FRAG = 1"

section \<open>Error messages\<close>

text \<open>The message in the buffer \<open>q\<close>, with the first bytes of the packet \<open>p\<close> that caused it.\<close>

definition icmp_fill_response :: "'d link_fn \<Rightarrow> ptr \<Rightarrow> ptr \<Rightarrow> u16 \<Rightarrow> u8 \<Rightarrow> u8 \<Rightarrow> 'd net_st \<Rightarrow> 'd net_st option" where
  "icmp_fill_response lo p q response_pkt_len type code s =
     (if \<not> unat (pb_len (the_pbuf s q)) \<ge> SIZEOF_ICMP_HDR + unat response_pkt_len then None
      else
        do { iphdr \<leftarrow> pb_payload (the_pbuf s p);
             icmphdr \<leftarrow> pb_payload (the_pbuf s q);
             let s = put_bytes (icmph_type icmphdr) [type] s;
             let s = put_bytes (icmph_code icmphdr) [code] s;
             let s = put32 (icmph_data icmphdr) 0 s;
             (_, s) \<leftarrow> in_mem (pbuf_copy_partial_pbuf (Some q) (Some p) response_pkt_len (of_nat SIZEOF_ICMP_HDR)) s;
             let iphdr_src = get32 (iph_src iphdr) s;
             s \<leftarrow>
               (case ip4_route iphdr_src s of
                  None \<Rightarrow> Some s
                | Some netif \<Rightarrow>
                    let s = put16 (icmph_chksum icmphdr) 0 s;
                        s = put16 (icmph_chksum icmphdr) (chksum_at icmphdr (unat (pb_len (the_pbuf s q))) s) s
                    in do { (_, s) \<leftarrow> ip4_output_if lo q None (Some iphdr_src) ICMP_TTL 0 IP_PROTO_ICMP netif s;
                            Some s });
             free_pbuf q s })"

definition icmp_send_response :: "'d link_fn \<Rightarrow> ptr \<Rightarrow> u8 \<Rightarrow> u8 \<Rightarrow> 'd net_st \<Rightarrow> 'd net_st option" where
  "icmp_send_response lo p type code s =
     (let response_pkt_len = of_nat IP_HLEN + ICMP_DEST_UNREACH_DATASIZE;
          response_pkt_len = (if pb_tot_len (the_pbuf s p) < response_pkt_len then pb_tot_len (the_pbuf s p)
                              else response_pkt_len)
      in do { (q, s) \<leftarrow> in_mem (pbuf_alloc PBUF_IP (of_nat SIZEOF_ICMP_HDR + response_pkt_len) PBUF_RAM) s;
              case q of
                None \<Rightarrow> Some s
              | Some q \<Rightarrow> icmp_fill_response lo p q response_pkt_len type code s })"

definition icmp_dest_unreach :: "'d link_fn \<Rightarrow> ptr \<Rightarrow> icmp_dur_type \<Rightarrow> 'd net_st \<Rightarrow> 'd net_st option" where
  "icmp_dest_unreach lo p t s = icmp_send_response lo p ICMP_DUR (icmp_dur_num t) s"

definition icmp_time_exceeded :: "'d link_fn \<Rightarrow> ptr \<Rightarrow> icmp_te_type \<Rightarrow> 'd net_st \<Rightarrow> 'd net_st option" where
  "icmp_time_exceeded lo p t s = icmp_send_response lo p ICMP_TE (icmp_te_num t) s"

section \<open>Echo\<close>

text \<open>The buffers of a packet as the checksum routine reads them.\<close>

partial_function (option) chain_segs :: "ptr option \<Rightarrow> net_mem \<Rightarrow> seg list option" where
  "chain_segs p st =
     (case p of
        None \<Rightarrow> Some []
      | Some a \<Rightarrow>
          do { pl \<leftarrow> pb_payload (pbufs st a);
               q \<leftarrow> chain_segs (pb_next (pbufs st a)) st;
               Some ((nat (snd pl), read_bytes (data_bytes st) pl (unat (pb_len (pbufs st a)))) # q) })"

text \<open>
  Room for the link header: the packet itself if its buffer has the room, or else a copy of it.  \<open>None\<close> stands for
  \<^verbatim>\<open>goto icmperr\<close>.
\<close>

definition icmp_make_room :: "ptr \<Rightarrow> ptr \<Rightarrow> u16 \<Rightarrow> 'd net_st \<Rightarrow> (ptr option \<times> 'd net_st) option" where
  "icmp_make_room p iphdr_in hlen s =
     do { (failed, s) \<leftarrow> in_mem (pbuf_add_header (Some p) (unat hlen + PBUF_LINK_HLEN)) s;
          if failed then
            let alloc_len = pb_tot_len (the_pbuf s p) + hlen in
            if alloc_len < pb_tot_len (the_pbuf s p) then Some (None, s)
            else
              do { (r, s) \<leftarrow> in_mem (pbuf_alloc PBUF_LINK alloc_len PBUF_RAM) s;
                   case r of
                     None \<Rightarrow> Some (None, s)
                   | Some r \<Rightarrow>
                       if unat (pb_len (the_pbuf s r)) < unat hlen + SIZEOF_ICMP_HDR
                       then do { s \<leftarrow> free_pbuf r s; Some (None, s) }
                       else
                         do { rp \<leftarrow> pb_payload (the_pbuf s r);
                              let s = put_bytes rp (get_bytes iphdr_in (unat hlen) s) s;
                              (failed, s) \<leftarrow> in_mem (pbuf_remove_header (Some r) (unat hlen)) s;
                              if failed then None
                              else
                                do { (e, s) \<leftarrow> in_mem (pbuf_copy (Some r) (Some p)) s;
                                     if e \<noteq> ERR_OK then do { s \<leftarrow> free_pbuf r s; Some (None, s) }
                                     else do { s \<leftarrow> free_pbuf p s; Some (Some r, s) } } } }
          else
            do { (failed, s) \<leftarrow> in_mem (pbuf_remove_header (Some p) (unat hlen + PBUF_LINK_HLEN)) s;
                 if failed then None else Some (Some p, s) } }"

text \<open>The checksum of the reply, from that of the request: the type goes down by 8.\<close>

definition icmp_adjust_chksum :: "u16 \<Rightarrow> u16" where
  "icmp_adjust_chksum chksum =
     (if chksum > lwip_htons (0xffff - push_bit 8 (ucast ICMP_ECHO))
      then chksum + lwip_htons (push_bit 8 (ucast ICMP_ECHO)) + 1
      else chksum + lwip_htons (push_bit 8 (ucast ICMP_ECHO)))"

text \<open>The request becomes the reply, and is sent.\<close>

definition icmp_reply :: "'d link_fn \<Rightarrow> ptr \<Rightarrow> u16 \<Rightarrow> u32 \<Rightarrow> netif \<Rightarrow> 'd net_st \<Rightarrow> 'd net_st option" where
  "icmp_reply lo p hlen src inp s =
     do { iecho \<leftarrow> pb_payload (the_pbuf s p);
          (failed, s) \<leftarrow> in_mem (pbuf_add_header (Some p) (unat hlen)) s;
          if failed then Some s
          else
            do { iphdr \<leftarrow> pb_payload (the_pbuf s p);
                 let s = put32 (iph_src iphdr) src s;
                 let s = put32 (iph_dest iphdr) (current_iphdr_src (ip_data s)) s;
                 let s = put_bytes (icmph_type iecho) [ICMP_ER] s;
                 s \<leftarrow> on_mem (\<lambda>m. Some (upd_pbuf p (\<lambda>b. b\<lparr>pb_if_idx := NETIF_NO_INDEX\<rparr>) m)) s;
                 let s = put16 (icmph_chksum iecho) (icmp_adjust_chksum (get16 (icmph_chksum iecho) s)) s;
                 let s = put_bytes (iph_ttl iphdr) [ICMP_TTL] s;
                 let s = put16 (iph_chksum iphdr) 0 s;
                 let s = put16 (iph_chksum iphdr) (chksum_at iphdr (unat hlen) s) s;
                 (_, s) \<leftarrow> ip4_output_if lo p (Some src) None ICMP_TTL 0 IP_PROTO_ICMP inp s;
                 Some s } }"

definition icmp_input :: "'d link_fn \<Rightarrow> ptr \<Rightarrow> netif \<Rightarrow> 'd net_st \<Rightarrow> 'd net_st option" where
  "icmp_input lo p inp s =
     do { iphdr_in \<leftarrow> current_ip4_header (ip_data s);
          let hlen = (ucast (IPH_HL_BYTES iphdr_in s) :: u16);
          if hlen < of_nat IP_HLEN then free_pbuf p s
          else if pb_len (the_pbuf s p) < 4 then free_pbuf p s
          else
            do { ih \<leftarrow> pb_payload (the_pbuf s p);
                 let type = get8 (icmph_type ih) s;
                 if type = ICMP_ECHO then
                   let src = current_iphdr_dest (ip_data s) in
                   if ip4_addr_ismulticast (current_iphdr_dest (ip_data s)) then free_pbuf p s
                   else
                     do { cn \<leftarrow> netif_deref (current_netif (ip_data s)) s;
                          if ip4_addr_isbroadcast_u32 (current_iphdr_dest (ip_data s)) cn then free_pbuf p s
                          else if unat (pb_tot_len (the_pbuf s p)) < SIZEOF_ICMP_HDR then free_pbuf p s
                          else
                            do { segs \<leftarrow> chain_segs (Some p) (nmem s);
                                 if inet_chksum_pbuf segs \<noteq> 0 then free_pbuf p s
                                 else
                                   do { (r, s) \<leftarrow> icmp_make_room p iphdr_in hlen s;
                                        case r of
                                          None \<Rightarrow> free_pbuf p s
                                        | Some p \<Rightarrow> do { s \<leftarrow> icmp_reply lo p hlen src inp s; free_pbuf p s } } } }
                 else free_pbuf p s } }"

end
