(* ===== verification/Lwip_Reass.thy ===== *)
theory Lwip_Reass
  imports Lwip_Icmp
begin

unbundle bit_operations_syntax

text \<open>
  Reassembly of fragments, \<^verbatim>\<open>lwip/src/core/ipv4/ip4_frag.c\<close>: at most five datagrams and ten pbufs wait, for fifteen
  seconds.

  The list of datagrams holds the address of each structure with its contents, in the order of the links.  The header of
  a waiting fragment is replaced by a helper structure: its pointer is \<open>reass_next\<close>, its other fields stay in the payload.
  The four bytes under the pointer are not read again before the header is put back.
\<close>

section \<open>The list of datagrams\<close>

definition IP_REASS_MAXAGE :: u8 where "IP_REASS_MAXAGE = 15"
definition IP_REASS_MAX_PBUFS :: int where "IP_REASS_MAX_PBUFS = 10"
definition IP_REASS_FLAG_LASTFRAG :: u8 where "IP_REASS_FLAG_LASTFRAG = 1"

lemmas reass_consts = IP_REASS_MAXAGE_def IP_REASS_MAX_PBUFS_def IP_REASS_FLAG_LASTFRAG_def

text \<open>The structure at an address, and a change to it.\<close>

definition the_reass :: "'d net_st \<Rightarrow> ptr \<Rightarrow> ip_reassdata" where
  "the_reass s a = the (map_of (reassdatagrams s) a)"

definition upd_reass :: "ptr \<Rightarrow> (ip_reassdata \<Rightarrow> ip_reassdata) \<Rightarrow> 'd net_st \<Rightarrow> 'd net_st" where
  "upd_reass a f s = s\<lparr>reassdatagrams := map (\<lambda>(b, e). (b, if b = a then f e else e)) (reassdatagrams s)\<rparr>"

text \<open>The structure linked behind another, and the one linked before it.\<close>

fun next_of :: "ptr \<Rightarrow> (ptr \<times> 'e) list \<Rightarrow> ptr option" where
  "next_of a ((b, e) # (c, f) # rs) = (if a = b then Some c else next_of a ((c, f) # rs))"
| "next_of a rs = None"

fun prev_of :: "ptr \<Rightarrow> (ptr \<times> 'e) list \<Rightarrow> ptr option" where
  "prev_of a ((b, e) # (c, f) # rs) = (if a = c then Some b else prev_of a ((c, f) # rs))"
| "prev_of a rs = None"

text \<open>The fields of the helper structure.\<close>

definition iprh_start :: "ptr \<Rightarrow> ptr" where "iprh_start h = ptr_add h 4"
definition iprh_end :: "ptr \<Rightarrow> ptr" where "iprh_end h = ptr_add h 6"

definition set_next_pbuf :: "ptr \<Rightarrow> ptr option \<Rightarrow> 'd net_st \<Rightarrow> 'd net_st" where
  "set_next_pbuf h q s = s\<lparr>reass_next := (reass_next s)(h := q)\<rparr>"

text \<open>The match of the header that is kept with the header of a fragment.\<close>

definition IP_ADDRESSES_AND_ID_MATCH :: "u8 list \<Rightarrow> ptr \<Rightarrow> 'd net_st \<Rightarrow> bool" where
  "IP_ADDRESSES_AND_ID_MATCH iphdrA iphdrB s \<longleftrightarrow>
     take 4 (drop 12 iphdrA) = get_bytes (iph_src iphdrB) 4 s \<and> take 4 (drop 16 iphdrA) = get_bytes (iph_dest iphdrB) 4 s \<and>
     take 2 (drop 4 iphdrA) = get_bytes (iph_id iphdrB) 2 s"

section \<open>Datagrams that are given up\<close>

definition ip_reass_dequeue_datagram :: "ptr \<Rightarrow> ptr option \<Rightarrow> 'd net_st \<Rightarrow> 'd net_st option" where
  "ip_reass_dequeue_datagram ipr prev s =
     do { let behind = tl (dropWhile (\<lambda>(a, _). a \<noteq> ipr) (reassdatagrams s));
          s \<leftarrow>
            (if map_option fst (List.find (\<lambda>_. True) (reassdatagrams s)) = Some ipr then Some (s\<lparr>reassdatagrams := behind\<rparr>)
             else
               (case prev of
                  None \<Rightarrow> None
                | Some q \<Rightarrow>
                    Some (s\<lparr>reassdatagrams := takeWhile (\<lambda>(a, _). a \<noteq> q) (reassdatagrams s) @
                                              (q, the_reass s q) # behind\<rparr>)));
          on_mem (st_memp_free MEMP_REASSDATA ipr) s }"

text \<open>The loop that frees the fragments of a datagram and counts their pbufs.\<close>

partial_function (option) free_fragments :: "ptr option \<Rightarrow> u16 \<Rightarrow> 'd net_st \<Rightarrow> (u16 \<times> 'd net_st) option" where
  "free_fragments p pbufs_freed s =
     (case p of
        None \<Rightarrow> Some (pbufs_freed, s)
      | Some pcur \<Rightarrow>
          do { iprh \<leftarrow> pb_payload (the_pbuf s pcur);
               let p = reass_next s iprh;
               clen \<leftarrow> pbuf_clen (Some pcur) (nmem s);
               if \<not> uint pbufs_freed + uint clen \<le> 0xffff then None
               else do { s \<leftarrow> free_pbuf pcur s; free_fragments p (pbufs_freed + clen) s } })"

definition ip_reass_free_complete_datagram ::
    "'d link_fn \<Rightarrow> ptr \<Rightarrow> ptr option \<Rightarrow> 'd net_st \<Rightarrow> (u16 \<times> 'd net_st) option" where
  "ip_reass_free_complete_datagram lo ipr prev s =
     (if \<not> prev \<noteq> Some ipr then None
      else if \<not> (case prev of None \<Rightarrow> True | Some q \<Rightarrow> next_of q (reassdatagrams s) = Some ipr) then None
      else
        do { (pbufs_freed, s) \<leftarrow>
               (case ipr_p (the_reass s ipr) of
                  None \<Rightarrow> Some (0, s)
                | Some p \<Rightarrow>
                    do { iprh \<leftarrow> pb_payload (the_pbuf s p);
                         if get16 (iprh_start iprh) s = 0 then
                           let s = upd_reass ipr (\<lambda>e. e\<lparr>ipr_p := reass_next s iprh\<rparr>) s;
                               s = put_bytes iprh (ipr_iphdr (the_reass s ipr)) s
                           in do { s \<leftarrow> icmp_time_exceeded lo p ICMP_TE_FRAG s;
                                   clen \<leftarrow> pbuf_clen (Some p) (nmem s);
                                   s \<leftarrow> free_pbuf p s;
                                   Some (clen, s) }
                         else Some (0, s) });
             (pbufs_freed, s) \<leftarrow> free_fragments (ipr_p (the_reass s ipr)) pbufs_freed s;
             s \<leftarrow> ip_reass_dequeue_datagram ipr prev s;
             if \<not> ip_reass_pbufcount s \<ge> pbufs_freed then None
             else Some (pbufs_freed, s\<lparr>ip_reass_pbufcount := ip_reass_pbufcount s - pbufs_freed\<rparr>) })"

text \<open>The timer: the structures from one on, with the one before it.\<close>

fun reass_tmr_loop :: "'d link_fn \<Rightarrow> ptr list \<Rightarrow> ptr option \<Rightarrow> 'd net_st \<Rightarrow> 'd net_st option" where
  "reass_tmr_loop lo [] prev s = Some s"
| "reass_tmr_loop lo (r # rs) prev s =
     (if ipr_timer (the_reass s r) > 0
      then reass_tmr_loop lo rs (Some r) (upd_reass r (\<lambda>e. e\<lparr>ipr_timer := ipr_timer e - 1\<rparr>) s)
      else do { (_, s) \<leftarrow> ip_reass_free_complete_datagram lo r prev s; reass_tmr_loop lo rs prev s })"

definition ip_reass_tmr :: "'d link_fn \<Rightarrow> 'd net_st \<Rightarrow> 'd net_st option" where
  "ip_reass_tmr lo s = reass_tmr_loop lo (map fst (reassdatagrams s)) None s"

text \<open>The oldest datagram that does not match, with the one before it, and the number of those that do not match.\<close>

fun oldest_scan ::
    "(ip_reassdata \<Rightarrow> bool) \<Rightarrow> ptr option \<Rightarrow> (ptr \<times> ptr option \<times> u8) option \<Rightarrow> int \<Rightarrow> (ptr \<times> ip_reassdata) list \<Rightarrow>
     (ptr \<times> ptr option \<times> u8) option \<times> int" where
  "oldest_scan m prev oldest others [] = (oldest, others)"
| "oldest_scan m prev oldest others ((a, r) # rs) =
     (let (oldest, others) =
            (if \<not> m r then
               ((case oldest of
                   None \<Rightarrow> Some (a, prev, ipr_timer r)
                 | Some (b, q, t) \<Rightarrow> if ipr_timer r \<le> t then Some (a, prev, ipr_timer r) else oldest), others + 1)
             else (oldest, others));
          prev = (if rs \<noteq> [] then Some a else prev)
      in oldest_scan m prev oldest others rs)"

partial_function (option) remove_oldest_loop ::
    "'d link_fn \<Rightarrow> ptr \<Rightarrow> int \<Rightarrow> int \<Rightarrow> 'd net_st \<Rightarrow> (int \<times> 'd net_st) option" where
  "remove_oldest_loop lo fraghdr pbufs_needed pbufs_freed s =
     (case oldest_scan (\<lambda>r. IP_ADDRESSES_AND_ID_MATCH (ipr_iphdr r) fraghdr s) None None 0 (reassdatagrams s) of
        (oldest, other_datagrams) \<Rightarrow>
          do { (pbufs_freed, s) \<leftarrow>
                 (case oldest of
                    None \<Rightarrow> Some (pbufs_freed, s)
                  | Some (oldest, oldest_prev, _) \<Rightarrow>
                      do { (n, s) \<leftarrow> ip_reass_free_complete_datagram lo oldest oldest_prev s; Some (pbufs_freed + uint n, s) });
               if pbufs_freed < pbufs_needed \<and> other_datagrams > 1
               then remove_oldest_loop lo fraghdr pbufs_needed pbufs_freed s
               else Some (pbufs_freed, s) })"

definition ip_reass_remove_oldest_datagram :: "'d link_fn \<Rightarrow> ptr \<Rightarrow> int \<Rightarrow> 'd net_st \<Rightarrow> (int \<times> 'd net_st) option" where
  "ip_reass_remove_oldest_datagram lo fraghdr pbufs_needed s = remove_oldest_loop lo fraghdr pbufs_needed 0 s"

section \<open>New fragments\<close>

definition ip_reass_enqueue_new_datagram :: "'d link_fn \<Rightarrow> ptr \<Rightarrow> int \<Rightarrow> 'd net_st \<Rightarrow> (ptr option \<times> 'd net_st) option" where
  "ip_reass_enqueue_new_datagram lo fraghdr clen s =
     do { (ipr, s) \<leftarrow> in_mem (st_memp_malloc MEMP_REASSDATA) s;
          (ipr, s) \<leftarrow>
            (if ipr = None then
               do { (n, s) \<leftarrow> ip_reass_remove_oldest_datagram lo fraghdr clen s;
                    if n \<ge> clen then in_mem (st_memp_malloc MEMP_REASSDATA) s else Some (None, s) }
             else Some (ipr, s));
          case ipr of
            None \<Rightarrow> Some (None, s)
          | Some a \<Rightarrow>
              Some (Some a, s\<lparr>reassdatagrams :=
                (a, \<lparr>ipr_p = None, ipr_iphdr = get_bytes fraghdr IP_HLEN s, ipr_datagram_len = 0, ipr_flags = 0,
                     ipr_timer = IP_REASS_MAXAGE\<rparr>) # reassdatagrams s\<rparr>) }"

datatype reass_validate =
  IP_REASS_VALIDATE_TELEGRAM_FINISHED | IP_REASS_VALIDATE_PBUF_QUEUED | IP_REASS_VALIDATE_PBUF_DROPPED

text \<open>
  The search for the place of the new fragment, with helper \<open>iprh\<close>, from fragment \<open>q\<close> on.  The result is whether it was
  put in before the end, the helper before the place, and whether there were no holes; or \<open>None\<close> for a fragment that is dropped.
\<close>

partial_function (option) place_fragment ::
    "ptr \<Rightarrow> ptr \<Rightarrow> ptr \<Rightarrow> ptr option \<Rightarrow> ptr option \<Rightarrow> bool \<Rightarrow> 'd net_st \<Rightarrow> ((bool \<times> ptr option \<times> bool) option \<times> 'd net_st) option" where
  "place_fragment ipr new_p iprh q iprh_prev valid s =
     (case q of
        None \<Rightarrow> Some (Some (False, iprh_prev, valid), s)
      | Some q \<Rightarrow>
          do { iprh_tmp \<leftarrow> pb_payload (the_pbuf s q);
               if get16 (iprh_start iprh) s < get16 (iprh_start iprh_tmp) s then
                 let s = set_next_pbuf iprh (Some q) s in
                 (case iprh_prev of
                    Some pr \<Rightarrow>
                      if get16 (iprh_start iprh) s < get16 (iprh_end pr) s \<or> get16 (iprh_end iprh) s > get16 (iprh_start iprh_tmp) s
                      then Some (None, s)
                      else
                        let s = set_next_pbuf pr (Some new_p) s
                        in Some (Some (True, iprh_prev, valid \<and> get16 (iprh_end pr) s = get16 (iprh_start iprh) s), s)
                  | None \<Rightarrow>
                      if get16 (iprh_end iprh) s > get16 (iprh_start iprh_tmp) s then Some (None, s)
                      else Some (Some (True, None, valid), upd_reass ipr (\<lambda>e. e\<lparr>ipr_p := Some new_p\<rparr>) s))
               else if get16 (iprh_start iprh) s = get16 (iprh_start iprh_tmp) s then Some (None, s)
               else if get16 (iprh_start iprh) s < get16 (iprh_end iprh_tmp) s then Some (None, s)
               else
                 place_fragment ipr new_p iprh (reass_next s iprh_tmp) (Some iprh_tmp)
                   (valid \<and> (case iprh_prev of None \<Rightarrow> True | Some pr \<Rightarrow> get16 (iprh_end pr) s = get16 (iprh_start iprh_tmp) s)) s })"

text \<open>Whether there are no holes behind a fragment, and the helper of the fragment where the search ends.\<close>

partial_function (option) no_holes_behind :: "ptr \<Rightarrow> 'd net_st \<Rightarrow> (bool \<times> ptr) option" where
  "no_holes_behind iprh_prev s =
     (case reass_next s iprh_prev of
        None \<Rightarrow> Some (True, iprh_prev)
      | Some q \<Rightarrow>
          do { iprh \<leftarrow> pb_payload (the_pbuf s q);
               if get16 (iprh_end iprh_prev) s \<noteq> get16 (iprh_start iprh) s then Some (False, iprh)
               else no_holes_behind iprh s })"

definition validate_datagram :: "ptr \<Rightarrow> ptr \<Rightarrow> bool \<Rightarrow> bool \<Rightarrow> 'd net_st \<Rightarrow> reass_validate option" where
  "validate_datagram ipr iprh is_last valid s =
     (if is_last \<or> ipr_flags (the_reass s ipr) AND IP_REASS_FLAG_LASTFRAG \<noteq> 0 then
        do { valid \<leftarrow>
               (if valid then
                  (case ipr_p (the_reass s ipr) of
                     None \<Rightarrow> Some False
                   | Some first \<Rightarrow>
                       do { fh \<leftarrow> pb_payload (the_pbuf s first);
                            if get16 (iprh_start fh) s \<noteq> 0 then Some False
                            else
                              do { (valid, iprh) \<leftarrow> no_holes_behind iprh s;
                                   if valid then
                                     if \<not> fh \<noteq> iprh then None
                                     else if \<not> reass_next s iprh = None then None
                                     else Some True
                                   else Some False } })
                else Some False);
             Some (if valid then IP_REASS_VALIDATE_TELEGRAM_FINISHED else IP_REASS_VALIDATE_PBUF_QUEUED) }
      else Some IP_REASS_VALIDATE_PBUF_QUEUED)"

definition ip_reass_chain_frag_into_datagram_and_validate ::
    "ptr \<Rightarrow> ptr \<Rightarrow> bool \<Rightarrow> 'd net_st \<Rightarrow> (reass_validate \<times> 'd net_st) option" where
  "ip_reass_chain_frag_into_datagram_and_validate ipr new_p is_last s =
     do { fraghdr \<leftarrow> pb_payload (the_pbuf s new_p);
          let len = lwip_htons (get16 (iph_len fraghdr) s);
          let hlen = (ucast (IPH_HL_BYTES fraghdr s) :: u16);
          if hlen > len then Some (IP_REASS_VALIDATE_PBUF_DROPPED, s)
          else
            let len = len - hlen;
                offset = IPH_OFFSET_BYTES fraghdr s;
                iprh = fraghdr;
                s = set_next_pbuf iprh None s;
                s = put16 (iprh_start iprh) offset s;
                s = put16 (iprh_end iprh) (offset + len) s
            in if get16 (iprh_end iprh) s < offset then Some (IP_REASS_VALIDATE_PBUF_DROPPED, s)
               else
                 do { (r, s) \<leftarrow> place_fragment ipr new_p iprh (ipr_p (the_reass s ipr)) None True s;
                      case r of
                        None \<Rightarrow> Some (IP_REASS_VALIDATE_PBUF_DROPPED, s)
                      | Some (placed, iprh_prev, valid) \<Rightarrow>
                          do { (valid, s) \<leftarrow>
                                 (if placed then Some (valid, s)
                                  else
                                    (case iprh_prev of
                                       Some pr \<Rightarrow>
                                         if \<not> get16 (iprh_end pr) s \<le> get16 (iprh_start iprh) s then None
                                         else Some (valid \<and> get16 (iprh_end pr) s = get16 (iprh_start iprh) s,
                                                    set_next_pbuf pr (Some new_p) s)
                                     | None \<Rightarrow>
                                         if \<not> ipr_p (the_reass s ipr) = None then None
                                         else Some (valid, upd_reass ipr (\<lambda>e. e\<lparr>ipr_p := Some new_p\<rparr>) s)));
                               v \<leftarrow> validate_datagram ipr iprh is_last valid s;
                               Some (v, s) } } }"

section \<open>Reassembly\<close>

text \<open>The loop that chains the fragments of a complete datagram.\<close>

partial_function (option) chain_fragments :: "ptr \<Rightarrow> ptr option \<Rightarrow> 'd net_st \<Rightarrow> 'd net_st option" where
  "chain_fragments p r s =
     (case r of
        None \<Rightarrow> Some s
      | Some r \<Rightarrow>
          do { iprh \<leftarrow> pb_payload (the_pbuf s r);
               (_, s) \<leftarrow> in_mem (pbuf_remove_header (Some r) IP_HLEN) s;
               s \<leftarrow> on_mem (pbuf_cat (Some p) (Some r)) s;
               chain_fragments p (reass_next s iprh) s })"

text \<open>A complete datagram leaves the list as one packet.\<close>

definition finish_datagram :: "ptr \<Rightarrow> 'd net_st \<Rightarrow> (ptr option \<times> 'd net_st) option" where
  "finish_datagram ipr s =
     (let datagram_len = ipr_datagram_len (the_reass s ipr) + of_nat IP_HLEN
      in do { p \<leftarrow> ipr_p (the_reass s ipr);
              fraghdr \<leftarrow> pb_payload (the_pbuf s p);
              let r = reass_next s fraghdr;
              let s = put_bytes fraghdr (ipr_iphdr (the_reass s ipr)) s;
              let s = put16 (iph_len fraghdr) (lwip_htons datagram_len) s;
              let s = put16 (iph_offset fraghdr) 0 s;
              let s = put16 (iph_chksum fraghdr) 0 s;
              let s = put16 (iph_chksum fraghdr) (chksum_at fraghdr IP_HLEN s) s;
              s \<leftarrow> chain_fragments p r s;
              s \<leftarrow> ip_reass_dequeue_datagram ipr (prev_of ipr (reassdatagrams s)) s;
              clen \<leftarrow> pbuf_clen (Some p) (nmem s);
              if \<not> ip_reass_pbufcount s \<ge> clen then None
              else Some (Some p, s\<lparr>ip_reass_pbufcount := ip_reass_pbufcount s - clen\<rparr>) })"

text \<open>The exits that drop the fragment.\<close>

definition nullreturn :: "ptr \<Rightarrow> 'd net_st \<Rightarrow> (ptr option \<times> 'd net_st) option" where
  "nullreturn p s = do { s \<leftarrow> free_pbuf p s; Some (None, s) }"

definition nullreturn_ipr :: "ptr \<Rightarrow> ptr \<Rightarrow> 'd net_st \<Rightarrow> (ptr option \<times> 'd net_st) option" where
  "nullreturn_ipr ipr p s =
     do { s \<leftarrow>
            (if ipr_p (the_reass s ipr) = None then
               if \<not> map_option fst (List.find (\<lambda>_. True) (reassdatagrams s)) = Some ipr then None
               else ip_reass_dequeue_datagram ipr None s
             else Some s);
          nullreturn p s }"

text \<open>The fragment \<open>p\<close>, with its header, offset and length, goes into the datagram \<open>ipr\<close>.\<close>

definition reass_add ::
    "ptr \<Rightarrow> ptr \<Rightarrow> ptr \<Rightarrow> u16 \<Rightarrow> u16 \<Rightarrow> u16 \<Rightarrow> 'd net_st \<Rightarrow> (ptr option \<times> 'd net_st) option" where
  "reass_add ipr p fraghdr offset len clen s =
     do { let is_last = (get16 (iph_offset fraghdr) s AND lwip_htons IP_MF = 0);
          let datagram_len = offset + len;
          if is_last \<and> (datagram_len < offset \<or> datagram_len > 0xFFFF - of_nat IP_HLEN) then nullreturn_ipr ipr p s
          else
            do { (valid, s) \<leftarrow> ip_reass_chain_frag_into_datagram_and_validate ipr p is_last s;
                 if valid = IP_REASS_VALIDATE_PBUF_DROPPED then nullreturn_ipr ipr p s
                 else
                   let s = s\<lparr>ip_reass_pbufcount := ip_reass_pbufcount s + clen\<rparr>;
                       s = (if is_last
                            then upd_reass ipr (\<lambda>e. e\<lparr>ipr_datagram_len := datagram_len,
                                                      ipr_flags := ipr_flags e OR IP_REASS_FLAG_LASTFRAG\<rparr>) s
                            else s)
                   in if valid = IP_REASS_VALIDATE_TELEGRAM_FINISHED then finish_datagram ipr s else Some (None, s) } }"

definition ip4_reass :: "'d link_fn \<Rightarrow> ptr \<Rightarrow> 'd net_st \<Rightarrow> (ptr option \<times> 'd net_st) option" where
  "ip4_reass lo p s =
     do { fraghdr \<leftarrow> pb_payload (the_pbuf s p);
          let offset = IPH_OFFSET_BYTES fraghdr s;
          let len = lwip_htons (get16 (iph_len fraghdr) s);
          let hlen = (ucast (IPH_HL_BYTES fraghdr s) :: u16);
          if IPH_HL_BYTES fraghdr s \<noteq> of_nat IP_HLEN then nullreturn p s
          else if hlen > len then nullreturn p s
          else
            do { let len = len - hlen;
                 clen \<leftarrow> pbuf_clen (Some p) (nmem s);
                 (full, s) \<leftarrow>
                   (if uint (ip_reass_pbufcount s) + uint clen > IP_REASS_MAX_PBUFS then
                      do { (n, s) \<leftarrow> ip_reass_remove_oldest_datagram lo fraghdr (uint clen) s;
                           Some (n = 0 \<or> uint (ip_reass_pbufcount s) + uint clen > IP_REASS_MAX_PBUFS, s) }
                    else Some (False, s));
                 if full then nullreturn p s
                 else
                   (case List.find (\<lambda>(_, r). IP_ADDRESSES_AND_ID_MATCH (ipr_iphdr r) fraghdr s) (reassdatagrams s) of
                      None \<Rightarrow>
                        do { (ipr, s) \<leftarrow> ip_reass_enqueue_new_datagram lo fraghdr (uint clen) s;
                             case ipr of None \<Rightarrow> nullreturn p s | Some ipr \<Rightarrow> reass_add ipr p fraghdr offset len clen s }
                    | Some (ipr, r) \<Rightarrow>
                        let s = (if lwip_htons (get16 (iph_offset fraghdr) s) AND IP_OFFMASK = 0 \<and>
                                    lwip_htons (le16 (ipr_iphdr r ! 6) (ipr_iphdr r ! 7)) AND IP_OFFMASK \<noteq> 0
                                 then upd_reass ipr (\<lambda>e. e\<lparr>ipr_iphdr := get_bytes fraghdr IP_HLEN s\<rparr>) s else s)
                        in reass_add ipr p fraghdr offset len clen s) } }"

end
