(* ===== verification/Lwip_Ip4.thy ===== *)
theory Lwip_Ip4
  imports Lwip_Reass
begin

unbundle bit_operations_syntax

text \<open>
  Reception: \<open>ip4_input\<close> of \<^verbatim>\<open>lwip/src/core/ipv4/ip4.c\<close> and \<open>ethernet_input\<close> of
  \<^verbatim>\<open>lwip/src/core/netif/ethernet.c\<close>, as configured: ICMP is the only protocol above IPv4, options are skipped,
  packets are not forwarded.
\<close>

section \<open>IPv4\<close>

definition ip4_input_accept :: "netif \<Rightarrow> 'd net_st \<Rightarrow> bool" where
  "ip4_input_accept netif s \<longleftrightarrow>
     netif_is_up netif \<and> \<not> ip4_addr_isany (netif_ip4_addr netif) \<and>
     (current_iphdr_dest (ip_data s) = netif_ip4_addr netif \<or> ip4_addr_isbroadcast_u32 (current_iphdr_dest (ip_data s)) netif)"

text \<open>The interface that the packet is for.\<close>

definition ip4_input_netif :: "netif \<Rightarrow> 'd net_st \<Rightarrow> netif option" where
  "ip4_input_netif inp s =
     (if ip4_addr_ismulticast (current_iphdr_dest (ip_data s)) then
        if netif_is_up inp \<and> \<not> ip4_addr_isany (netif_ip4_addr inp) then Some inp else None
      else if ip4_input_accept inp s then Some inp
      else if \<not> ip4_addr_isloopback (current_iphdr_dest (ip_data s))
      then List.find (\<lambda>netif. netif_num netif \<noteq> netif_num inp \<and> ip4_input_accept netif s) (netif_list s)
      else None)"

text \<open>A packet that is dropped.\<close>

definition drop_packet :: "ptr \<Rightarrow> 'd net_st \<Rightarrow> (err_t \<times> 'd net_st) option" where
  "drop_packet p s = do { s \<leftarrow> free_pbuf p s; Some (ERR_OK, s) }"

text \<open>The packet goes to the protocol that its header names; then the data about the current packet are cleared.\<close>

definition ip4_deliver :: "'d link_fn \<Rightarrow> ptr \<Rightarrow> ptr \<Rightarrow> u16 \<Rightarrow> netif \<Rightarrow> netif \<Rightarrow> 'd net_st \<Rightarrow> (err_t \<times> 'd net_st) option" where
  "ip4_deliver lo p iphdr iphdr_hlen netif inp s =
     (let s = s\<lparr>ip_data := (ip_data s)\<lparr>current_netif := Some (netif_num netif), current_input_netif := Some (netif_num inp),
                current_ip4_header := Some iphdr, current_ip_header_tot_len := ucast (IPH_HL_BYTES iphdr s)\<rparr>\<rparr>
      in do { (_, s) \<leftarrow> in_mem (pbuf_remove_header (Some p) (unat iphdr_hlen)) s;
              s \<leftarrow>
                (if get8 (iph_proto iphdr) s = IP_PROTO_ICMP then icmp_input lo p inp s
                 else
                   do { s \<leftarrow>
                          (if \<not> ip4_addr_isbroadcast_u32 (current_iphdr_dest (ip_data s)) netif \<and>
                              \<not> ip4_addr_ismulticast (current_iphdr_dest (ip_data s)) then
                             do { (_, s) \<leftarrow> in_mem (pbuf_header_force (Some p) iphdr_hlen) s;
                                  icmp_dest_unreach lo p ICMP_DUR_PROTO s }
                           else Some s);
                        free_pbuf p s });
              Some (ERR_OK, s\<lparr>ip_data := \<lparr>current_netif = None, current_input_netif = None, current_ip4_header = None,
                current_ip_header_tot_len = 0, current_iphdr_src = IPADDR_ANY, current_iphdr_dest = IPADDR_ANY\<rparr>\<rparr>) })"

definition ip4_input :: "'d link_fn \<Rightarrow> ptr \<Rightarrow> netif \<Rightarrow> 'd net_st \<Rightarrow> (err_t \<times> 'd net_st) option" where
  "ip4_input lo p inp s =
     do { iphdr \<leftarrow> pb_payload (the_pbuf s p);
          if IPH_V iphdr s \<noteq> 4 then drop_packet p s
          else
            do { let iphdr_hlen = (ucast (IPH_HL_BYTES iphdr s) :: u16);
                 let iphdr_len = lwip_htons (get16 (iph_len iphdr) s);
                 s \<leftarrow> (if iphdr_len < pb_tot_len (the_pbuf s p) then on_mem (pbuf_realloc (Some p) iphdr_len) s else Some s);
                 if iphdr_hlen > pb_len (the_pbuf s p) \<or> iphdr_len > pb_tot_len (the_pbuf s p) \<or> iphdr_hlen < of_nat IP_HLEN
                 then drop_packet p s
                 else if chksum_at iphdr (unat iphdr_hlen) s \<noteq> 0 then drop_packet p s
                 else
                   let s = s\<lparr>ip_data := (ip_data s)\<lparr>current_iphdr_dest := get32 (iph_dest iphdr) s\<rparr>\<rparr>;
                       s = s\<lparr>ip_data := (ip_data s)\<lparr>current_iphdr_src := get32 (iph_src iphdr) s\<rparr>\<rparr>;
                       netif = ip4_input_netif inp s
                   in if ip4_addr_isbroadcast_u32 (current_iphdr_src (ip_data s)) inp \<or>
                         ip4_addr_ismulticast (current_iphdr_src (ip_data s)) then drop_packet p s
                      else
                        (case netif of
                           None \<Rightarrow> drop_packet p s
                         | Some netif \<Rightarrow>
                             if get16 (iph_offset iphdr) s AND lwip_htons (IP_OFFMASK OR IP_MF) \<noteq> 0 then
                               do { (r, s) \<leftarrow> ip4_reass lo p s;
                                    case r of
                                      None \<Rightarrow> Some (ERR_OK, s)
                                    | Some p \<Rightarrow>
                                        do { iphdr \<leftarrow> pb_payload (the_pbuf s p);
                                             ip4_deliver lo p iphdr iphdr_hlen netif inp s } }
                             else ip4_deliver lo p iphdr iphdr_hlen netif inp s) } }"

section \<open>Ethernet\<close>

definition netif_get_index :: "netif \<Rightarrow> u8" where
  "netif_get_index netif = netif_num netif + 1"

text \<open>The flags of a frame to a group of stations.\<close>

definition frame_flags :: "ptr \<Rightarrow> 'd net_st \<Rightarrow> u8" where
  "frame_flags ethhdr s =
     (if get8 (eth_dest ethhdr) s AND 1 \<noteq> 0 then
        if get8 (eth_dest ethhdr) s = LL_IP4_MULTICAST_ADDR_0 then
          (if get8 (ptr_add (eth_dest ethhdr) 1) s = LL_IP4_MULTICAST_ADDR_1 \<and>
              get8 (ptr_add (eth_dest ethhdr) 2) s = LL_IP4_MULTICAST_ADDR_2 then PBUF_FLAG_LLMCAST else 0)
        else if get_bytes (eth_dest ethhdr) ETH_HWADDR_LEN s = ethbroadcast then PBUF_FLAG_LLBCAST
        else 0
      else 0)"

definition ethernet_input :: "'d link_fn \<Rightarrow> ptr \<Rightarrow> netif \<Rightarrow> 'd net_st \<Rightarrow> (err_t \<times> 'd net_st) option" where
  "ethernet_input lo p netif s =
     (if unat (pb_len (the_pbuf s p)) \<le> SIZEOF_ETH_HDR then drop_packet p s
      else
        do { ethhdr \<leftarrow> pb_payload (the_pbuf s p);
             let type = get16 (eth_type_at ethhdr) s;
             s \<leftarrow> (if pb_if_idx (the_pbuf s p) = NETIF_NO_INDEX
                  then on_mem (\<lambda>m. Some (upd_pbuf p (\<lambda>b. b\<lparr>pb_if_idx := netif_get_index netif\<rparr>) m)) s else Some s);
             s \<leftarrow> on_mem (\<lambda>m. Some (upd_pbuf p (\<lambda>b. b\<lparr>pb_flags := pb_flags b OR frame_flags ethhdr s\<rparr>) m)) s;
             if type = lwip_htons ETHTYPE_IP then
               if netif_flags netif AND NETIF_FLAG_ETHARP = 0 then drop_packet p s
               else
                 do { (failed, s) \<leftarrow> in_mem (pbuf_remove_header (Some p) SIZEOF_ETH_HDR) s;
                      if failed then drop_packet p s
                      else do { (_, s) \<leftarrow> ip4_input lo p netif s; Some (ERR_OK, s) } }
             else if type = lwip_htons ETHTYPE_ARP then
               if netif_flags netif AND NETIF_FLAG_ETHARP = 0 then drop_packet p s
               else
                 do { (failed, s) \<leftarrow> in_mem (pbuf_remove_header (Some p) SIZEOF_ETH_HDR) s;
                      if failed then drop_packet p s
                      else do { s \<leftarrow> etharp_input lo p netif s; Some (ERR_OK, s) } }
             else drop_packet p s })"

end
