(* ===== verification/Lwip_Netif.thy ===== *)
theory Lwip_Netif
  imports Lwip_Ip4
begin

unbundle bit_operations_syntax

text \<open>
  Network interfaces, \<^verbatim>\<open>lwip/src/core/netif.c\<close>, as configured: IPv4 only, no loopback interface, no callbacks, no
  statistics.

  The operations on an interface take its record and return it changed; \<open>on_netif\<close> applies one to an interface of the list.
  The function pointers of an interface do not change after \<^verbatim>\<open>netif_add\<close>: \<open>output\<close> is \<open>etharp_output\<close>, \<open>input\<close> is
  \<open>ethernet_input\<close>, and \<open>linkoutput\<close> is the parameter \<open>lo\<close>.
\<close>

definition on_netif :: "u8 \<Rightarrow> (netif \<Rightarrow> 'd net_st \<Rightarrow> (netif \<times> 'd net_st) option) \<Rightarrow> 'd net_st \<Rightarrow> 'd net_st option" where
  "on_netif k f s =
     do { netif \<leftarrow> netif_deref (Some k) s;
          (netif, s) \<leftarrow> f netif s;
          Some (s\<lparr>netif_list := map (\<lambda>n. if netif_num n = k then netif else n) (netif_list s)\<rparr>) }"

definition netif_set_flags :: "netif \<Rightarrow> u8 \<Rightarrow> netif" where
  "netif_set_flags netif set_flags = netif\<lparr>netif_flags := netif_flags netif OR set_flags\<rparr>"

definition netif_clear_flags :: "netif \<Rightarrow> u8 \<Rightarrow> netif" where
  "netif_clear_flags netif clr_flags = netif\<lparr>netif_flags := netif_flags netif AND (NOT clr_flags AND 0xff)\<rparr>"

section \<open>Addresses\<close>

definition NETIF_REPORT_TYPE_IPV4 :: u8 where "NETIF_REPORT_TYPE_IPV4 = 1"
definition NETIF_REPORT_TYPE_IPV6 :: u8 where "NETIF_REPORT_TYPE_IPV6 = 2"

definition etharp_gratuitous :: "'d link_fn \<Rightarrow> netif \<Rightarrow> 'd net_st \<Rightarrow> (err_t \<times> 'd net_st) option" where
  "etharp_gratuitous lo netif s = etharp_request lo netif (netif_ip4_addr netif) s"

definition netif_issue_reports :: "'d link_fn \<Rightarrow> netif \<Rightarrow> u8 \<Rightarrow> 'd net_st \<Rightarrow> 'd net_st option" where
  "netif_issue_reports lo netif report_type s =
     (if netif_flags netif AND NETIF_FLAG_LINK_UP = 0 \<or> netif_flags netif AND NETIF_FLAG_UP = 0 then Some s
      else if report_type AND NETIF_REPORT_TYPE_IPV4 \<noteq> 0 \<and> \<not> ip4_addr_isany (netif_ip4_addr netif)
      then if netif_flags netif AND NETIF_FLAG_ETHARP \<noteq> 0 then do { (_, s) \<leftarrow> etharp_gratuitous lo netif s; Some s } else Some s
      else Some s)"

text \<open>The old addresses, which only callbacks get, are left out.\<close>

definition netif_do_set_ipaddr :: "'d link_fn \<Rightarrow> netif \<Rightarrow> u32 \<Rightarrow> 'd net_st \<Rightarrow> (bool \<times> netif \<times> 'd net_st) option" where
  "netif_do_set_ipaddr lo netif ipaddr s =
     (if ipaddr \<noteq> netif_ip4_addr netif then
        let netif = netif\<lparr>netif_ip4_addr := ipaddr\<rparr>
        in do { s \<leftarrow> netif_issue_reports lo netif NETIF_REPORT_TYPE_IPV4 s; Some (True, netif, s) }
      else Some (False, netif, s))"

definition netif_do_set_netmask :: "netif \<Rightarrow> u32 \<Rightarrow> bool \<times> netif" where
  "netif_do_set_netmask netif netmask =
     (if netmask \<noteq> netif_ip4_netmask netif then (True, netif\<lparr>netif_ip4_netmask := netmask\<rparr>) else (False, netif))"

definition netif_do_set_gw :: "netif \<Rightarrow> u32 \<Rightarrow> bool \<times> netif" where
  "netif_do_set_gw netif gw = (if gw \<noteq> netif_ip4_gw netif then (True, netif\<lparr>netif_ip4_gw := gw\<rparr>) else (False, netif))"

text \<open>A \<^verbatim>\<open>NULL\<close> address stands for any.\<close>

definition addr_or_any :: "u32 option \<Rightarrow> u32" where
  "addr_or_any a = (case a of None \<Rightarrow> IPADDR_ANY | Some a \<Rightarrow> a)"

definition netif_set_ipaddr :: "'d link_fn \<Rightarrow> u32 option \<Rightarrow> netif \<Rightarrow> 'd net_st \<Rightarrow> (netif \<times> 'd net_st) option" where
  "netif_set_ipaddr lo ipaddr netif s =
     do { (_, netif, s) \<leftarrow> netif_do_set_ipaddr lo netif (addr_or_any ipaddr) s; Some (netif, s) }"

definition netif_set_netmask :: "u32 option \<Rightarrow> netif \<Rightarrow> 'd net_st \<Rightarrow> (netif \<times> 'd net_st) option" where
  "netif_set_netmask netmask netif s = Some (snd (netif_do_set_netmask netif (addr_or_any netmask)), s)"

definition netif_set_gw :: "u32 option \<Rightarrow> netif \<Rightarrow> 'd net_st \<Rightarrow> (netif \<times> 'd net_st) option" where
  "netif_set_gw gw netif s = Some (snd (netif_do_set_gw netif (addr_or_any gw)), s)"

definition netif_set_addr ::
    "'d link_fn \<Rightarrow> u32 option \<Rightarrow> u32 option \<Rightarrow> u32 option \<Rightarrow> netif \<Rightarrow> 'd net_st \<Rightarrow> (netif \<times> 'd net_st) option" where
  "netif_set_addr lo ipaddr netmask gw netif s =
     (let ipaddr = addr_or_any ipaddr;
          netmask = addr_or_any netmask;
          gw = addr_or_any gw;
          remove = ip4_addr_isany ipaddr
      in do { (netif, s) \<leftarrow>
                (if remove then do { (_, netif, s) \<leftarrow> netif_do_set_ipaddr lo netif ipaddr s; Some (netif, s) }
                 else Some (netif, s));
              let netif = snd (netif_do_set_netmask netif netmask);
              let netif = snd (netif_do_set_gw netif gw);
              if \<not> remove then do { (_, netif, s) \<leftarrow> netif_do_set_ipaddr lo netif ipaddr s; Some (netif, s) }
              else Some (netif, s) })"

section \<open>Up and down\<close>

definition netif_set_up :: "'d link_fn \<Rightarrow> netif \<Rightarrow> 'd net_st \<Rightarrow> (netif \<times> 'd net_st) option" where
  "netif_set_up lo netif s =
     (if netif_flags netif AND NETIF_FLAG_UP = 0 then
        let netif = netif_set_flags netif NETIF_FLAG_UP
        in do { s \<leftarrow> netif_issue_reports lo netif (NETIF_REPORT_TYPE_IPV4 OR NETIF_REPORT_TYPE_IPV6) s; Some (netif, s) }
      else Some (netif, s))"

definition netif_set_down :: "netif \<Rightarrow> 'd net_st \<Rightarrow> (netif \<times> 'd net_st) option" where
  "netif_set_down netif s =
     (if netif_flags netif AND NETIF_FLAG_UP \<noteq> 0 then
        let netif = netif_clear_flags netif NETIF_FLAG_UP
        in do { s \<leftarrow> (if netif_flags netif AND NETIF_FLAG_ETHARP \<noteq> 0 then etharp_cleanup_netif netif s else Some s);
                Some (netif, s) }
      else Some (netif, s))"

definition netif_set_link_up :: "'d link_fn \<Rightarrow> netif \<Rightarrow> 'd net_st \<Rightarrow> (netif \<times> 'd net_st) option" where
  "netif_set_link_up lo netif s =
     (if netif_flags netif AND NETIF_FLAG_LINK_UP = 0 then
        let netif = netif_set_flags netif NETIF_FLAG_LINK_UP
        in do { s \<leftarrow> netif_issue_reports lo netif (NETIF_REPORT_TYPE_IPV4 OR NETIF_REPORT_TYPE_IPV6) s; Some (netif, s) }
      else Some (netif, s))"

definition netif_set_link_down :: "netif \<Rightarrow> 'd net_st \<Rightarrow> (netif \<times> 'd net_st) option" where
  "netif_set_link_down netif s =
     (if netif_flags netif AND NETIF_FLAG_LINK_UP \<noteq> 0 then Some (netif_clear_flags netif NETIF_FLAG_LINK_UP, s)
      else Some (netif, s))"

section \<open>The list\<close>

text \<open>
  One pass of the search for a free number: whether an interface has the number; \<open>None\<close> when the assertion on the
  number of interfaces fails.
\<close>

fun num_taken :: "u8 \<Rightarrow> int \<Rightarrow> netif list \<Rightarrow> bool option" where
  "num_taken num num_netifs [] = Some False"
| "num_taken num num_netifs (netif2 # ns) =
     (let num_netifs = num_netifs + 1 in
      if \<not> num_netifs \<le> 255 then None
      else if netif_num netif2 = num then Some True
      else num_taken num num_netifs ns)"

partial_function (option) unique_num :: "netif list \<Rightarrow> u8 \<Rightarrow> u8 option" where
  "unique_num ns num =
     (let num = (if num = 255 then 0 else num) in
      do { taken \<leftarrow> num_taken num 0 ns;
           if taken then unique_num ns (num + 1) else Some num })"

text \<open>
  The interface is new; \<open>init\<close> is the driver's initialisation.  The result is the number of the interface, or \<open>None\<close> for
  \<^verbatim>\<open>NULL\<close>.
\<close>

definition netif_add ::
    "'d link_fn \<Rightarrow> netif \<Rightarrow> u32 option \<Rightarrow> u32 option \<Rightarrow> u32 option \<Rightarrow> (netif \<Rightarrow> err_t \<times> netif) \<Rightarrow> 'd net_st \<Rightarrow>
     (u8 option \<times> 'd net_st) option" where
  "netif_add lo netif ipaddr netmask gw init s =
     (let netif = netif\<lparr>netif_ip4_addr := 0, netif_ip4_netmask := 0, netif_ip4_gw := 0, netif_mtu := 0, netif_flags := 0,
                        netif_num := next_netif_num s\<rparr>
      in do { (netif, s) \<leftarrow> netif_set_addr lo ipaddr netmask gw netif s;
              let (e, netif) = init netif;
              if e \<noteq> ERR_OK then Some (None, s)
              else
                do { num \<leftarrow> unique_num (netif_list s) (netif_num netif);
                     let netif = netif\<lparr>netif_num := num\<rparr>;
                     let s = s\<lparr>next_netif_num := (if num = 254 then 0 else num + 1)\<rparr>;
                     Some (Some num, s\<lparr>netif_list := netif # netif_list s\<rparr>) } })"

definition netif_set_default :: "u8 option \<Rightarrow> 'd net_st \<Rightarrow> 'd net_st" where
  "netif_set_default netif s = s\<lparr>netif_default := netif\<rparr>"

definition netif_remove :: "u8 \<Rightarrow> 'd net_st \<Rightarrow> 'd net_st option" where
  "netif_remove k s =
     do { netif \<leftarrow> netif_deref (Some k) s;
          s \<leftarrow> (if netif_is_up netif then on_netif k netif_set_down s else Some s);
          let s = (if netif_default s = Some k then netif_set_default None s else s);
          Some (s\<lparr>netif_list := takeWhile (\<lambda>n. netif_num n \<noteq> k) (netif_list s) @
                                 tl (dropWhile (\<lambda>n. netif_num n \<noteq> k) (netif_list s))\<rparr>) }"

section \<open>Lookup\<close>

definition netif_get_by_index :: "u8 \<Rightarrow> 'd net_st \<Rightarrow> netif option" where
  "netif_get_by_index idx s =
     (if idx \<noteq> NETIF_NO_INDEX then List.find (\<lambda>netif. idx = netif_get_index netif) (netif_list s) else None)"

definition netif_index_to_num :: "u8 \<Rightarrow> int" where "netif_index_to_num index = uint index - 1"
definition NETIF_NAMESIZE :: nat where "NETIF_NAMESIZE = 6"

text \<open>The buffer has \<open>NETIF_NAMESIZE\<close> bytes.\<close>

definition netif_index_to_name :: "u8 \<Rightarrow> u8 list \<Rightarrow> 'd net_st \<Rightarrow> u8 list option option" where
  "netif_index_to_name idx name s =
     (case netif_get_by_index idx s of
        Some netif \<Rightarrow>
          (let name = name[0 := netif_name netif ! 0, 1 := netif_name netif ! 1] in
           do { digits \<leftarrow> lwip_itoa (drop 2 name) (netif_index_to_num idx);
                Some (Some (take 2 name @ digits)) })
      | None \<Rightarrow> Some None)"

text \<open>The C library's \<^verbatim>\<open>atoi\<close> on a string: white space, a sign, digits; the value is an \<^verbatim>\<open>int\<close>.\<close>

fun atoi_digits :: "int \<Rightarrow> u8 list \<Rightarrow> int" where
  "atoi_digits n (c # cs) = (if 48 \<le> c \<and> c \<le> 57 then atoi_digits (n * 10 + (uint c - 48)) cs else n)"
| "atoi_digits n [] = n"

definition atoi :: "u8 list \<Rightarrow> int" where
  "atoi str =
     (let str = dropWhile (\<lambda>c. c = 32 \<or> 9 \<le> c \<and> c \<le> 13) str in
      case str of
        c # cs \<Rightarrow> if c = 45 then - atoi_digits 0 cs else if c = 43 then atoi_digits 0 cs else atoi_digits 0 str
      | [] \<Rightarrow> 0)"

definition netif_find :: "u8 list \<Rightarrow> 'd net_st \<Rightarrow> netif option" where
  "netif_find name s =
     (let num = (of_int (atoi (drop 2 name)) :: u8) in
      if num = 0 \<and> name ! 2 \<noteq> 48 then None
      else List.find (\<lambda>netif. num = netif_num netif \<and> name ! 0 = netif_name netif ! 0 \<and> name ! 1 = netif_name netif ! 1)
             (netif_list s))"

definition netif_name_to_index :: "u8 list \<Rightarrow> 'd net_st \<Rightarrow> u8" where
  "netif_name_to_index name s = (case netif_find name s of Some netif \<Rightarrow> netif_get_index netif | None \<Rightarrow> NETIF_NO_INDEX)"

section \<open>Input\<close>

definition netif_input :: "'d link_fn \<Rightarrow> ptr \<Rightarrow> netif \<Rightarrow> 'd net_st \<Rightarrow> (err_t \<times> 'd net_st) option" where
  "netif_input lo p inp s =
     (if netif_flags inp AND (NETIF_FLAG_ETHARP OR NETIF_FLAG_ETHERNET) \<noteq> 0 then ethernet_input lo p inp s
      else ip4_input lo p inp s)"

end
