(* ===== verification/Lwip_Timeouts.thy ===== *)
theory Lwip_Timeouts
  imports Prelude "HOL-Library.Multiset"
begin

unbundle bit_operations_syntax

text \<open>
  The timer list, \<^verbatim>\<open>lwip/src/core/timeouts.c\<close>, as configured: no TCP, ARP and IP reassembly timers,
  three list nodes.

  The linked list \<open>next_timeout\<close> is the list of its nodes in order.  The nodes come from a pool of which only
  the number of free ones matters here (\<open>timeo_free\<close>).  Time is the tick counter of \<^verbatim>\<open>main.c\<close>.
  A handler is an identifier whose effect on the whole state is a parameter; it may not return.  \<open>None\<close> is a
  failed assertion or a handler that does not return.
\<close>

definition LWIP_MAX_TIMEOUT :: u32 where "LWIP_MAX_TIMEOUT = 0x7fffffff"

definition TIME_LESS_THAN :: "u32 \<Rightarrow> u32 \<Rightarrow> bool" where
  "TIME_LESS_THAN t compare_to \<longleftrightarrow> t - compare_to > LWIP_MAX_TIMEOUT"

definition MEMP_NUM_SYS_TIMEOUT :: nat where "MEMP_NUM_SYS_TIMEOUT = 3"

text \<open>The handlers: the cyclic timer function, or another one.\<close>

datatype 'x sys_timeout_handler = Cyclic | User 'x

record 'x sys_timeo =
  timeo_time :: u32
  timeo_h :: "'x sys_timeout_handler option"
  timeo_arg :: nat

record ('x, 'w) timers =
  next_timeout :: "'x sys_timeo list"
  current_timeout_due_time :: u32
  timeo_free :: nat
  sys_time :: u32
  world :: 'w

text \<open>\<^verbatim>\<open>main.c\<close>: the tick interrupt and the clock.\<close>

definition SysTick_Handler :: "('x, 'w) timers \<Rightarrow> ('x, 'w) timers" where
  "SysTick_Handler st = st\<lparr>sys_time := sys_time st + 1\<rparr>"

definition sys_now :: "('x, 'w) timers \<Rightarrow> u32" where
  "sys_now st = sys_time st"

section \<open>Operations\<close>

text \<open>The loop that finds the place behind a node that is not later.\<close>

fun insert_behind :: "'x sys_timeo \<Rightarrow> 'x sys_timeo list \<Rightarrow> 'x sys_timeo list" where
  "insert_behind timeout [] = []"
| "insert_behind timeout (t # next) =
     (if next = [] \<or> TIME_LESS_THAN (timeo_time timeout) (timeo_time (hd next)) then t # timeout # next
      else t # insert_behind timeout next)"

definition sys_timeout_abs ::
    "u32 \<Rightarrow> 'x sys_timeout_handler option \<Rightarrow> nat \<Rightarrow> ('x, 'w) timers \<Rightarrow> ('x, 'w) timers option" where
  "sys_timeout_abs abs_time handler a st =
     (if timeo_free st = 0 then None
      else
        let timeout = \<lparr>timeo_time = abs_time, timeo_h = handler, timeo_arg = a\<rparr>;
            st = st\<lparr>timeo_free := timeo_free st - 1\<rparr>
        in case next_timeout st of
             [] \<Rightarrow> Some (st\<lparr>next_timeout := [timeout]\<rparr>)
           | t # ts \<Rightarrow>
               if TIME_LESS_THAN (timeo_time timeout) (timeo_time t)
               then Some (st\<lparr>next_timeout := timeout # t # ts\<rparr>)
               else Some (st\<lparr>next_timeout := insert_behind timeout (t # ts)\<rparr>))"

definition sys_timeout ::
    "u32 \<Rightarrow> 'x sys_timeout_handler option \<Rightarrow> nat \<Rightarrow> ('x, 'w) timers \<Rightarrow> ('x, 'w) timers option" where
  "sys_timeout msecs handler a st =
     (if \<not> msecs \<le> 0xffffffff div 4 then None
      else
        let next_timeout_time = sys_now st + msecs
        in sys_timeout_abs next_timeout_time handler a st)"

text \<open>The table of cyclic timers: interval and timer function.\<close>

datatype tmr = ip_reass_tmr | etharp_tmr

definition lwip_cyclic_timers :: "(u32 \<times> tmr) list" where
  "lwip_cyclic_timers = [(1000, ip_reass_tmr), (1000, etharp_tmr)]"

definition lwip_cyclic_timer ::
    "(tmr \<Rightarrow> ('x, 'w) timers \<Rightarrow> ('x, 'w) timers option) \<Rightarrow> nat \<Rightarrow> ('x, 'w) timers \<Rightarrow> ('x, 'w) timers option" where
  "lwip_cyclic_timer run a st =
     (let cyclic = lwip_cyclic_timers ! a in
      do { st \<leftarrow> run (snd cyclic) st;
           let now = sys_now st;
           let next_timeout_time = current_timeout_due_time st + fst cyclic;
           if TIME_LESS_THAN next_timeout_time now
           then sys_timeout_abs (now + fst cyclic) (Some Cyclic) a st
           else sys_timeout_abs next_timeout_time (Some Cyclic) a st })"

fun timeouts_init_loop :: "nat list \<Rightarrow> ('x, 'w) timers \<Rightarrow> ('x, 'w) timers option" where
  "timeouts_init_loop [] st = Some st"
| "timeouts_init_loop (i # is) st =
     do { st \<leftarrow> sys_timeout (fst (lwip_cyclic_timers ! i)) (Some Cyclic) i st;
          timeouts_init_loop is st }"

definition sys_timeouts_init :: "('x, 'w) timers \<Rightarrow> ('x, 'w) timers option" where
  "sys_timeouts_init st = timeouts_init_loop [0..<length lwip_cyclic_timers] st"

text \<open>The walk of \<open>sys_untimeout\<close>: the list without the first match, and whether there was one.\<close>

fun unlink_first :: "'x sys_timeout_handler option \<Rightarrow> nat \<Rightarrow> 'x sys_timeo list \<Rightarrow> 'x sys_timeo list \<times> bool" where
  "unlink_first handler a [] = ([], False)"
| "unlink_first handler a (t # ts) =
     (if timeo_h t = handler \<and> timeo_arg t = a then (ts, True)
      else let (ts', found) = unlink_first handler a ts in (t # ts', found))"

definition sys_untimeout :: "'x sys_timeout_handler option \<Rightarrow> nat \<Rightarrow> ('x, 'w) timers \<Rightarrow> ('x, 'w) timers" where
  "sys_untimeout handler a st =
     (if next_timeout st = [] then st
      else
        let (ts, found) = unlink_first handler a (next_timeout st) in
        if found then st\<lparr>next_timeout := ts, timeo_free := timeo_free st + 1\<rparr> else st)"

definition call_handler ::
    "(tmr \<Rightarrow> ('x, 'w) timers \<Rightarrow> ('x, 'w) timers option) \<Rightarrow>
     ('x \<Rightarrow> nat \<Rightarrow> ('x, 'w) timers \<Rightarrow> ('x, 'w) timers option) \<Rightarrow>
     'x sys_timeout_handler \<Rightarrow> nat \<Rightarrow> ('x, 'w) timers \<Rightarrow> ('x, 'w) timers option" where
  "call_handler run user handler a st =
     (case handler of Cyclic \<Rightarrow> lwip_cyclic_timer run a st | User x \<Rightarrow> user x a st)"

text \<open>One round of the loop of \<open>sys_check_timeouts\<close>: whether it goes on, and the state.\<close>

definition check_round ::
    "(tmr \<Rightarrow> ('x, 'w) timers \<Rightarrow> ('x, 'w) timers option) \<Rightarrow>
     ('x \<Rightarrow> nat \<Rightarrow> ('x, 'w) timers \<Rightarrow> ('x, 'w) timers option) \<Rightarrow>
     u32 \<Rightarrow> ('x, 'w) timers \<Rightarrow> (bool \<times> ('x, 'w) timers) option" where
  "check_round run user now st =
     (case next_timeout st of
        [] \<Rightarrow> Some (False, st)
      | t # ts \<Rightarrow>
          if TIME_LESS_THAN now (timeo_time t) then Some (False, st)
          else
            let st = st\<lparr>next_timeout := ts, current_timeout_due_time := timeo_time t, timeo_free := timeo_free st + 1\<rparr>
            in case timeo_h t of
                 None \<Rightarrow> Some (True, st)
               | Some handler \<Rightarrow> do { st \<leftarrow> call_handler run user handler (timeo_arg t) st; Some (True, st) })"

definition sys_check_timeouts ::
    "(tmr \<Rightarrow> ('x, 'w) timers \<Rightarrow> ('x, 'w) timers option) \<Rightarrow>
     ('x \<Rightarrow> nat \<Rightarrow> ('x, 'w) timers \<Rightarrow> ('x, 'w) timers option) \<Rightarrow>
     ('x, 'w) timers \<Rightarrow> ('x, 'w) timers option" where
  "sys_check_timeouts run user st = (let now = sys_now st in do_while (check_round run user now) st)"

definition sys_restart_timeouts :: "('x, 'w) timers \<Rightarrow> ('x, 'w) timers" where
  "sys_restart_timeouts st =
     (if next_timeout st = [] then st
      else
        let now = sys_now st; base = timeo_time (hd (next_timeout st))
        in st\<lparr>next_timeout := map (\<lambda>t. t\<lparr>timeo_time := (timeo_time t - base) + now\<rparr>) (next_timeout st)\<rparr>)"

definition SYS_TIMEOUTS_SLEEPTIME_INFINITE :: u32 where "SYS_TIMEOUTS_SLEEPTIME_INFINITE = 0xffffffff"

definition sys_timeouts_sleeptime :: "('x, 'w) timers \<Rightarrow> u32 option" where
  "sys_timeouts_sleeptime st =
     (if next_timeout st = [] then Some SYS_TIMEOUTS_SLEEPTIME_INFINITE
      else
        let now = sys_now st in
        if TIME_LESS_THAN (timeo_time (hd (next_timeout st))) now then Some 0
        else let ret = timeo_time (hd (next_timeout st)) - now
             in if \<not> ret \<le> LWIP_MAX_TIMEOUT then None else Some ret)"

section \<open>Time modulo \<open>2 ^ 32\<close>\<close>

text \<open>Within a window of \<open>2 ^ 31\<close> ticks from a base, the comparison is that of the distances from the base.\<close>

definition due :: "u32 \<Rightarrow> u32 \<Rightarrow> nat" where
  "due b t = unat (t - b)"

definition in_window :: "u32 \<Rightarrow> u32 \<Rightarrow> bool" where
  "in_window b t \<longleftrightarrow> due b t < 2 ^ 31"

lemma TIME_LESS_THAN_due:
  assumes "in_window b x" "in_window b y"
  shows "TIME_LESS_THAN x y \<longleftrightarrow> due b x < due b y"
proof -
  define p q where "p = x - b" and "q = y - b"
  have pq: "unat p < 2147483648" "unat q < 2147483648" using assms by (simp_all add: in_window_def due_def p_def q_def)
  have "x - y = p - q" by (simp add: p_def q_def)
  moreover have "unat (p - q) = (if unat q \<le> unat p then unat p - unat q else unat p + 4294967296 - unat q)"
    by (simp add: unat_sub_if_size size_word_def)
  ultimately have "unat (x - y) > 2147483647 \<longleftrightarrow> unat p < unat q" using pq by auto
  then show ?thesis by (simp add: TIME_LESS_THAN_def LWIP_MAX_TIMEOUT_def word_less_nat_alt due_def p_def q_def)
qed

lemma due_self [simp]: "due b b = 0"
  by (simp add: due_def)

lemma due_add: "due b t + unat k < 2 ^ 32 \<Longrightarrow> due b (t + k) = due b t + unat k"
proof -
  assume *: "due b t + unat k < 2 ^ 32"
  have "t + k - b = (t - b) + k" by simp
  then show ?thesis using * unfolding due_def by (simp only:) (simp add: unat_word_ariths)
qed

section \<open>Insertion and removal\<close>

definition place :: "'x sys_timeo \<Rightarrow> 'x sys_timeo list \<Rightarrow> 'x sys_timeo list" where
  "place x ts =
     (let early = (\<lambda>t. \<not> TIME_LESS_THAN (timeo_time x) (timeo_time t))
      in takeWhile early ts @ x # dropWhile early ts)"

lemma insert_behind_place:
  "insert_behind x (t # ts) = t # place x ts"
proof (induction ts arbitrary: t)
  case (Cons u us)
  then show ?case by (simp add: place_def Let_def)
qed (simp add: place_def)

lemma sys_timeout_abs_place:
  assumes "timeo_free st > 0"
  shows "sys_timeout_abs t f a st = Some (st\<lparr>timeo_free := timeo_free st - 1,
    next_timeout := place \<lparr>timeo_time = t, timeo_h = f, timeo_arg = a\<rparr> (next_timeout st)\<rparr>)"
proof (cases "next_timeout st")
  case Nil
  with assms show ?thesis by (simp add: sys_timeout_abs_def Let_def place_def)
next
  case (Cons u us)
  then show ?thesis
    using assms insert_behind_place [of "\<lparr>timeo_time = t, timeo_h = f, timeo_arg = a\<rparr>" u us]
    by (simp add: sys_timeout_abs_def Let_def place_def)
qed

text \<open>The list in order of due time, all of it within the window, and no node lost.\<close>

definition timers_ok :: "u32 \<Rightarrow> ('x, 'w) timers \<Rightarrow> bool" where
  "timers_ok b st \<longleftrightarrow> sorted (map (due b \<circ> timeo_time) (next_timeout st)) \<and>
     (\<forall>t \<in> set (next_timeout st). in_window b (timeo_time t)) \<and>
     length (next_timeout st) + timeo_free st = MEMP_NUM_SYS_TIMEOUT"

lemma place_mset [simp]: "mset (place x ts) = add_mset x (mset ts)"
proof -
  have "mset (takeWhile P ts) + mset (dropWhile P ts) = mset ts" for P
    by (simp flip: mset_append)
  then show ?thesis by (simp add: place_def Let_def)
qed

lemma place_set [simp]: "set (place x ts) = insert x (set ts)"
  by (metis place_mset set_mset_add_mset_insert set_mset_mset)

lemma place_length [simp]: "length (place x ts) = Suc (length ts)"
  by (metis place_mset size_add_mset size_mset)

lemma place_filter:
  assumes "sorted (map (due b \<circ> timeo_time) ts)" "\<forall>t \<in> set ts. in_window b (timeo_time t)" "in_window b (timeo_time x)"
  shows "place x ts = filter (\<lambda>t. due b (timeo_time t) \<le> due b (timeo_time x)) ts @ x #
    filter (\<lambda>t. due b (timeo_time t) > due b (timeo_time x)) ts"
proof -
  let ?d = "\<lambda>t. due b (timeo_time t)"
  have eq: "takeWhile (\<lambda>t. \<not> TIME_LESS_THAN (timeo_time x) (timeo_time t)) ts = takeWhile (\<lambda>t. ?d t \<le> ?d x) ts"
    "dropWhile (\<lambda>t. \<not> TIME_LESS_THAN (timeo_time x) (timeo_time t)) ts = dropWhile (\<lambda>t. ?d t \<le> ?d x) ts"
    using assms(2) by (auto simp: TIME_LESS_THAN_due [OF assms(3)] not_less intro: takeWhile_cong dropWhile_cong)
  have "takeWhile (\<lambda>t. ?d t \<le> k) ts = filter (\<lambda>t. ?d t \<le> k) ts \<and>
    dropWhile (\<lambda>t. ?d t \<le> k) ts = filter (\<lambda>t. ?d t > k) ts" for k
    using assms(1)
  proof (induction ts)
    case (Cons u us)
    show ?case
    proof (cases "?d u \<le> k")
      case True
      with Cons show ?thesis by simp
    next
      case False
      with Cons.prems have "\<forall>v \<in> set us. k < ?d v" by auto
      then have "filter (\<lambda>t. ?d t \<le> k) us = []" "filter (\<lambda>t. k < ?d t) us = us"
        by (auto simp: filter_empty_conv filter_id_conv not_le)
      with False show ?thesis by simp
    qed
  qed simp
  with eq show ?thesis by (simp add: place_def Let_def)
qed

lemma place_sorted:
  assumes "sorted (map (due b \<circ> timeo_time) ts)" "\<forall>t \<in> set ts. in_window b (timeo_time t)" "in_window b (timeo_time x)"
  shows "sorted (map (due b \<circ> timeo_time) (place x ts))"
  using assms(1) unfolding place_filter [OF assms]
  by (auto simp: sorted_append intro: sorted_filter)

lemma sys_timeout_abs_ok:
  assumes "timers_ok b st" "timeo_free st > 0" "in_window b t"
  shows "\<exists>st'. sys_timeout_abs t f a st = Some st' \<and> timers_ok b st' \<and>
    next_timeout st' = place \<lparr>timeo_time = t, timeo_h = f, timeo_arg = a\<rparr> (next_timeout st)"
  using assms place_sorted [of b "next_timeout st" "\<lparr>timeo_time = t, timeo_h = f, timeo_arg = a\<rparr>"]
  by (simp add: sys_timeout_abs_place timers_ok_def)

definition timeo_match :: "'x sys_timeout_handler option \<Rightarrow> nat \<Rightarrow> 'x sys_timeo \<Rightarrow> bool" where
  "timeo_match f a t \<longleftrightarrow> timeo_h t = f \<and> timeo_arg t = a"

lemma unlink_first_found:
  "unlink_first f a ts = (ts', True) \<Longrightarrow>
    \<exists>us y vs. ts = us @ y # vs \<and> ts' = us @ vs \<and> timeo_match f a y \<and> (\<forall>u \<in> set us. \<not> timeo_match f a u)"
proof (induction ts arbitrary: ts')
  case (Cons t ts)
  show ?case
  proof (cases "timeo_match f a t")
    case True
    with Cons.prems show ?thesis
      by (intro exI [of _ "[]"] exI [of _ t] exI [of _ ts]) (simp add: timeo_match_def)
  next
    case False
    with Cons.prems obtain ts1 where 1: "unlink_first f a ts = (ts1, True)" "ts' = t # ts1"
      by (auto simp: timeo_match_def split: prod.splits if_splits)
    from Cons.IH [OF this(1)] obtain us y vs where
      "ts = us @ y # vs" "ts1 = us @ vs" "timeo_match f a y" "\<forall>u \<in> set us. \<not> timeo_match f a u" by blast
    with False 1(2) show ?thesis by (intro exI [of _ "t # us"] exI [of _ y] exI [of _ vs]) simp
  qed
qed simp

lemma unlink_first_none:
  "unlink_first f a ts = (ts', False) \<Longrightarrow> ts' = ts \<and> (\<forall>u \<in> set ts. \<not> timeo_match f a u)"
  by (induction ts arbitrary: ts') (auto simp: timeo_match_def split: prod.splits if_splits)

lemma untimeout_cases:
  obtains (found) us y vs where "next_timeout st = us @ y # vs" "timeo_match f a y"
      "\<forall>u \<in> set us. \<not> timeo_match f a u"
      "sys_untimeout f a st = st\<lparr>next_timeout := us @ vs, timeo_free := timeo_free st + 1\<rparr>"
  | (none) "\<forall>u \<in> set (next_timeout st). \<not> timeo_match f a u" "sys_untimeout f a st = st"
proof (cases "unlink_first f a (next_timeout st)")
  case (Pair ts fnd)
  show ?thesis
  proof (cases fnd)
    case True
    with Pair have u: "unlink_first f a (next_timeout st) = (ts, True)" by simp
    from unlink_first_found [OF u] u show ?thesis by (auto simp: sys_untimeout_def intro: found)
  next
    case False
    with Pair have u: "unlink_first f a (next_timeout st) = (ts, False)" by simp
    from unlink_first_none [OF u] u show ?thesis by (auto simp: sys_untimeout_def intro: none)
  qed
qed

lemma untimeout_ok: "timers_ok b st \<Longrightarrow> timers_ok b (sys_untimeout f a st)"
  by (cases rule: untimeout_cases [of st f a]) (auto simp: timers_ok_def sorted_append)

section \<open>Expiry\<close>

text \<open>How often a timer that is due at distance \<open>d\<close> can still expire when the clock stands at \<open>n\<close>.\<close>

definition rounds :: "nat \<Rightarrow> nat \<Rightarrow> nat" where
  "rounds n d = (if d < n then 2 else if d = n then 1 else 0)"

definition all_rounds :: "u32 \<Rightarrow> u32 \<Rightarrow> 'x sys_timeo list \<Rightarrow> nat" where
  "all_rounds b now ts = sum_mset (image_mset (\<lambda>t. rounds (due b now) (due b (timeo_time t))) (mset ts))"

lemma all_rounds_simps [simp]:
  "all_rounds b now [] = 0"
  "all_rounds b now (t # ts) = rounds (due b now) (due b (timeo_time t)) + all_rounds b now ts"
  "all_rounds b now (place x ts) = rounds (due b now) (due b (timeo_time x)) + all_rounds b now ts"
  by (simp_all add: all_rounds_def)

definition cyclic_only :: "('x, 'w) timers \<Rightarrow> bool" where
  "cyclic_only st \<longleftrightarrow> (\<forall>t \<in> set (next_timeout st). timeo_h t = Some Cyclic \<and> timeo_arg t < length lwip_cyclic_timers)"

lemma interval_1000: "a < length lwip_cyclic_timers \<Longrightarrow> fst (lwip_cyclic_timers ! a) = 1000"
  by (auto simp: lwip_cyclic_timers_def less_Suc_eq)

text \<open>A timer function that returns, leaves the timers and the clock alone, has the effect \<open>g\<close> on the rest of the state and
  keeps an invariant of it; and the effect of a list of calls.\<close>

definition tame :: "('w \<Rightarrow> bool) \<Rightarrow> (tmr \<Rightarrow> 'w \<Rightarrow> 'w option) \<Rightarrow> (tmr \<Rightarrow> ('x, 'w) timers \<Rightarrow> ('x, 'w) timers option) \<Rightarrow> bool" where
  "tame J g run \<longleftrightarrow> (\<forall>f st. J (world st) \<longrightarrow> (\<exists>w. g f (world st) = Some w \<and> run f st = Some (st\<lparr>world := w\<rparr>) \<and> J w))"

primrec exec_all :: "('f \<Rightarrow> 'w \<Rightarrow> 'w option) \<Rightarrow> 'f list \<Rightarrow> 'w \<Rightarrow> 'w option" where
  "exec_all g [] w = Some w"
| "exec_all g (f # fs) w = do { w \<leftarrow> g f w; exec_all g fs w }"

lemma exec_all_append [simp]: "exec_all g (fs @ fs') w = do { w \<leftarrow> exec_all g fs w; exec_all g fs' w }"
  by (induction fs arbitrary: w) (simp_all add: Option.bind_assoc)

text \<open>The calls due at the time \<open>now\<close>: those of the expired timers in the order of the list, and a second one for a timer that
  is late by exactly its interval, because it is started again for the present.  A timer that was due is due next an interval after
  it was due, or after the present when that has passed.\<close>

definition expired :: "u32 \<Rightarrow> 'x sys_timeo \<Rightarrow> bool" where
  "expired now t \<longleftrightarrow> \<not> TIME_LESS_THAN now (timeo_time t)"

definition twice :: "u32 \<Rightarrow> 'x sys_timeo \<Rightarrow> bool" where
  "twice now t \<longleftrightarrow> timeo_time t + 1000 = now"

definition calls :: "u32 \<Rightarrow> 'x sys_timeo list \<Rightarrow> tmr list" where
  "calls now ts = map (\<lambda>t. snd (lwip_cyclic_timers ! timeo_arg t)) (filter (expired now) ts @ filter (twice now) ts)"

definition next_due :: "u32 \<Rightarrow> 'x sys_timeo \<Rightarrow> 'x sys_timeo" where
  "next_due now t =
     (if \<not> expired now t then t
      else if TIME_LESS_THAN now (timeo_time t + 1000) then t\<lparr>timeo_time := timeo_time t + 1000\<rparr>
      else t\<lparr>timeo_time := now + 1000\<rparr>)"

lemma next_due_arg [simp]: "timeo_arg (next_due now t) = timeo_arg t"
  by (simp add: next_due_def)

text \<open>The expiry of a timer in the window: the time it is started again for, and what becomes of the calls and of the due times.\<close>

definition again_at :: "u32 \<Rightarrow> u32 \<Rightarrow> u32" where
  "again_at now t = (if TIME_LESS_THAN (t + 1000) now then now + 1000 else t + 1000)"

lemma expired_due: "due b now = 2 ^ 30 \<Longrightarrow> in_window b (timeo_time t) \<Longrightarrow> expired now t \<longleftrightarrow> due b (timeo_time t) \<le> 2 ^ 30"
  by (simp add: expired_def TIME_LESS_THAN_due [of b] in_window_def not_less)

lemma due_inj: "due b x = due b y \<Longrightarrow> x = y"
  by (simp add: due_def word_unat_eq_iff [symmetric])

lemma again_due:
  assumes "due b now = 2 ^ 30" "due b t \<le> 2 ^ 30"
  shows "due b (t + 1000) = due b t + 1000" "due b (now + 1000) = 2 ^ 30 + 1000"
    "due b (again_at now t) = (if due b t + 1000 < 2 ^ 30 then 2 ^ 30 + 1000 else due b t + 1000)" "in_window b (again_at now t)"
proof -
  show d: "due b (t + 1000) = due b t + 1000" "due b (now + 1000) = 2 ^ 30 + 1000" using assms by (subst due_add; simp)+
  have "TIME_LESS_THAN (t + 1000) now \<longleftrightarrow> due b t + 1000 < 2 ^ 30"
    using assms d by (subst TIME_LESS_THAN_due [of b]) (simp_all add: in_window_def)
  then show k: "due b (again_at now t) = (if due b t + 1000 < 2 ^ 30 then 2 ^ 30 + 1000 else due b t + 1000)"
    using d by (simp add: again_at_def)
  show "in_window b (again_at now t)" using assms by (simp add: in_window_def k)
qed

lemma calls_again:
  assumes n: "due b now = 2 ^ 30" and t: "due b (timeo_time t) \<le> 2 ^ 30"
    and ts: "sorted (map (due b \<circ> timeo_time) ts)" "\<forall>u \<in> set ts. in_window b (timeo_time u)"
  shows "calls now (t # ts) = snd (lwip_cyclic_timers ! timeo_arg t) # calls now (place (t\<lparr>timeo_time := again_at now (timeo_time t)\<rparr>) ts)"
    "next_due now (t\<lparr>timeo_time := again_at now (timeo_time t)\<rparr>) = next_due now t"
proof -
  let ?k = "again_at now (timeo_time t)" and ?d = "due b (timeo_time t)"
  let ?x = "t\<lparr>timeo_time := ?k\<rparr>"
  note k = again_due [OF n t]
  have et: "expired now t" using t by (subst expired_due [OF n]) (simp_all add: in_window_def)
  have "due b ?k = due b now \<longleftrightarrow> ?d + 1000 = 2 ^ 30" using k(3) n by simp
  then have kn: "?k = now \<longleftrightarrow> ?d + 1000 = 2 ^ 30" using due_inj [of b ?k now] by auto
  have ex: "expired now ?x \<longleftrightarrow> ?k = now"
    unfolding kn using k(3,4) t by (subst expired_due [OF n]) (auto split: if_splits)
  have tw: "twice now t \<longleftrightarrow> ?k = now" unfolding kn twice_def using k(1) n due_inj [of b "timeo_time t + 1000" now] by auto
  have "due b (?k + 1000) = due b ?k + 1000" using k(3) t by (subst due_add) auto
  then have tx: "\<not> twice now ?x" using k(3) n t by (auto simp: twice_def split: if_splits)
  let ?le = "filter (\<lambda>u. due b (timeo_time u) \<le> due b ?k) ts" and ?gt = "filter (\<lambda>u. due b ?k < due b (timeo_time u)) ts"
  have pl: "place ?x ts = ?le @ ?x # ?gt" using place_filter [OF ts, of ?x] k(4) by simp
  have e: "expired now u \<longleftrightarrow> due b (timeo_time u) \<le> 2 ^ 30" if "u \<in> set ts" for u using ts(2) that expired_due [OF n] by blast
  have w: "twice now u \<longleftrightarrow> due b (timeo_time u) + 1000 = 2 ^ 30" if "u \<in> set ts" for u
  proof -
    have "due b (timeo_time u + 1000) = due b (timeo_time u) + 1000"
      using ts(2) that by (subst due_add) (auto simp: in_window_def)
    then show ?thesis using n due_inj [of b "timeo_time u + 1000" now] by (auto simp: twice_def)
  qed
  have ge: "2 ^ 30 \<le> due b ?k" using k(3) by simp
  have "filter (expired now) ?gt = []" using ge by (auto simp: filter_empty_conv e)
  moreover have "filter (expired now) ?le = filter (expired now) ts" using ge by (auto simp: e intro: filter_cong)
  moreover have "filter (twice now) ?gt = []" using ge by (auto simp: filter_empty_conv w)
  moreover have "filter (twice now) ?le = filter (twice now) ts" using ge by (auto simp: w intro: filter_cong)
  ultimately show "calls now (t # ts) = snd (lwip_cyclic_timers ! timeo_arg t) # calls now (place ?x ts)"
    using et ex tw tx unfolding pl calls_def by auto
  have "TIME_LESS_THAN now (timeo_time t + 1000) \<longleftrightarrow> 2 ^ 30 < ?d + 1000"
    using k(1) n t by (subst TIME_LESS_THAN_due [of b]) (simp_all add: in_window_def)
  moreover have "TIME_LESS_THAN (timeo_time t + 1000) now \<longleftrightarrow> ?d + 1000 < 2 ^ 30"
    using k(1) n t by (subst TIME_LESS_THAN_due [of b]) (simp_all add: in_window_def)
  moreover have "TIME_LESS_THAN now (now + 1000)"
    using k(2) n by (subst TIME_LESS_THAN_due [of b]) (simp_all add: in_window_def)
  moreover have "timeo_time t + 1000 = now" if "?d + 1000 = 2 ^ 30" using that k(1) n due_inj [of b] by metis
  ultimately show "next_due now ?x = next_due now t"
    using et ex by (auto simp: next_due_def again_at_def)
qed

text \<open>The state of the clock and the list during \<open>sys_check_timeouts\<close>: no timer is due later than \<open>M\<close>; the calls made so far and
  those that are due now are the calls \<open>F\<close>, whatever is called will be due as \<open>D\<close> says.\<close>

definition in_check :: "('w \<Rightarrow> bool) \<Rightarrow> (tmr \<Rightarrow> 'w \<Rightarrow> 'w option) \<Rightarrow> u32 \<Rightarrow> nat \<Rightarrow> u32 \<Rightarrow> tmr list \<Rightarrow> 'x sys_timeo multiset \<Rightarrow> 'w \<Rightarrow>
    ('x, 'w) timers \<Rightarrow> bool" where
  "in_check J g b M now F D w st \<longleftrightarrow> J (world st) \<and> timers_ok b st \<and> (\<forall>t \<in> set (next_timeout st). due b (timeo_time t) \<le> M) \<and>
     cyclic_only st \<and> sys_time st = now \<and> image_mset (next_due now) (mset (next_timeout st)) = D \<and>
     (\<exists>fs. exec_all g fs w = Some (world st) \<and> fs @ calls now (next_timeout st) = F)"

lemma rearm:
  assumes "tame J g run" "in_check J g b M now F D w st" "due b now = 2 ^ 30" "next_timeout st = t # ts"
    "due b (timeo_time t) \<le> due b now" "2 ^ 30 + 1000 \<le> M"
  shows "\<exists>st'. lwip_cyclic_timer run (timeo_arg t)
      (st\<lparr>next_timeout := ts, current_timeout_due_time := timeo_time t, timeo_free := timeo_free st + 1\<rparr>) = Some st' \<and>
    in_check J g b M now F D w st' \<and> all_rounds b now (next_timeout st') < all_rounds b now (next_timeout st)"
proof -
  let ?s = "st\<lparr>next_timeout := ts, current_timeout_due_time := timeo_time t, timeo_free := timeo_free st + 1\<rparr>"
  let ?d = "due b (timeo_time t)" and ?k = "again_at now (timeo_time t)" and ?f = "snd (lwip_cyclic_timers ! timeo_arg t)"
  have J: "J (world ?s)" and ok: "timers_ok b ?s" and a: "timeo_arg t < length lwip_cyclic_timers" "timeo_h t = Some Cyclic"
    and cyc: "cyclic_only ?s" and now: "sys_time st = now" and D: "image_mset (next_due now) (mset (t # ts)) = D"
    and ts: "sorted (map (due b \<circ> timeo_time) ts)" "\<forall>u \<in> set ts. in_window b (timeo_time u)"
    using assms(2,4) by (auto simp: in_check_def timers_ok_def cyclic_only_def)
  obtain fs where fs: "exec_all g fs w = Some (world st)" "fs @ calls now (t # ts) = F" using assms(2,4) by (auto simp: in_check_def)
  obtain v where v: "g ?f (world ?s) = Some v" "run ?f ?s = Some (?s\<lparr>world := v\<rparr>)" "J v"
    using assms(1) J unfolding tame_def by blast
  have le: "?d \<le> 2 ^ 30" using assms(3,5) by simp
  note k = again_due [OF assms(3) le] and c = calls_again [OF assms(3) le ts]
  let ?x = "t\<lparr>timeo_time := ?k\<rparr>" and ?s' = "?s\<lparr>world := v\<rparr>"
  have x: "?x = \<lparr>timeo_time = ?k, timeo_h = Some Cyclic, timeo_arg = timeo_arg t\<rparr>" using a(2) by (cases t) simp
  have exec: "lwip_cyclic_timer run (timeo_arg t) ?s = sys_timeout_abs ?k (Some Cyclic) (timeo_arg t) ?s'"
    using v(2) a now by (simp add: lwip_cyclic_timer_def Let_def interval_1000 sys_now_def again_at_def)
  have "timers_ok b ?s'" using ok by (simp add: timers_ok_def)
  from sys_timeout_abs_ok [OF this _ k(4), of "Some Cyclic" "timeo_arg t"] obtain st' where
    st': "sys_timeout_abs ?k (Some Cyclic) (timeo_arg t) ?s' = Some st'" "timers_ok b st'" "next_timeout st' = place ?x ts"
    unfolding x by auto
  have t': "sys_time st' = now" "world st' = v" using st'(1) now by (auto simp: sys_timeout_abs_place)
  have "cyclic_only st'" using cyc a by (auto simp: cyclic_only_def st'(3))
  moreover have "image_mset (next_due now) (mset (next_timeout st')) = D" using D c(2) by (simp add: st'(3))
  moreover have "exec_all g (fs @ [?f]) w = Some (world st')" using fs(1) v(1) by (simp add: t'(2))
  moreover have "(fs @ [?f]) @ calls now (next_timeout st') = F" using fs(2) c(1) by (simp add: st'(3))
  moreover have "\<forall>u \<in> set (next_timeout st'). due b (timeo_time u) \<le> M"
    using assms(2-6) by (auto simp: st'(3) k(3) in_check_def)
  ultimately have "in_check J g b M now F D w st'" using st'(2) t' v(3) unfolding in_check_def by blast
  moreover have "rounds (2 ^ 30) (due b ?k) < rounds (2 ^ 30) ?d"
    using le by (auto simp: rounds_def k(3))
  then have "all_rounds b now (next_timeout st') < all_rounds b now (next_timeout st)"
    using assms(3,4) by (simp add: st'(3))
  ultimately show ?thesis using exec st'(1) by auto
qed

lemma window_now: "due (now - 2 ^ 30) now = 2 ^ 30"
  by (simp add: due_def)

lemma check_timeouts_ok:
  assumes "tame J g run" "in_check J g b M now F D w st" "due b now = 2 ^ 30" "2 ^ 30 + 1000 \<le> M"
  shows "\<exists>st'. do_while (check_round run user now) st = Some st' \<and> in_check J g b M now F D w st' \<and>
    (\<forall>t \<in> set (next_timeout st'). TIME_LESS_THAN now (timeo_time t))"
proof (rule do_while_total [where I = "in_check J g b M now F D w" and m = "\<lambda>st. all_rounds b now (next_timeout st)"])
  fix st :: "('b, 'a) timers"
  assume I: "in_check J g b M now F D w st"
  show "\<exists>again s'. check_round run user now st = Some (again, s') \<and>
      (if again then in_check J g b M now F D w s' \<and> all_rounds b now (next_timeout s') < all_rounds b now (next_timeout st)
       else in_check J g b M now F D w s' \<and> (\<forall>t \<in> set (next_timeout s'). TIME_LESS_THAN now (timeo_time t)))"
  proof (cases "next_timeout st")
    case Nil
    with I show ?thesis by (auto simp: check_round_def)
  next
    case (Cons t ts)
    have ok: "timers_ok b st" using I by (simp add: in_check_def)
    then have win: "\<forall>u \<in> set (t # ts). in_window b (timeo_time u)" and
      srt: "\<forall>u \<in> set ts. due b (timeo_time t) \<le> due b (timeo_time u)" using Cons by (auto simp: timers_ok_def)
    have wn: "in_window b now" using assms(3) by (simp add: in_window_def)
    show ?thesis
    proof (cases "TIME_LESS_THAN now (timeo_time t)")
      case True
      then have "due b now < due b (timeo_time t)" using TIME_LESS_THAN_due [OF wn] win by auto
      then have "\<forall>u \<in> set (t # ts). TIME_LESS_THAN now (timeo_time u)"
        using TIME_LESS_THAN_due [OF wn] win srt by (auto intro: less_le_trans)
      with True I Cons show ?thesis by (auto simp: check_round_def)
    next
      case False
      then have "due b (timeo_time t) \<le> due b now" using TIME_LESS_THAN_due [OF wn] win by auto
      from rearm [OF assms(1) I assms(3) Cons this assms(4)] obtain st' where
        "lwip_cyclic_timer run (timeo_arg t) (st\<lparr>next_timeout := ts, current_timeout_due_time := timeo_time t,
           timeo_free := timeo_free st + 1\<rparr>) = Some st'"
        "in_check J g b M now F D w st'" "all_rounds b now (next_timeout st') < all_rounds b now (next_timeout st)" by blast
      moreover have "timeo_h t = Some Cyclic" using I Cons by (simp add: in_check_def cyclic_only_def)
      ultimately show ?thesis using False Cons by (auto simp: check_round_def call_handler_def Let_def)
    qed
  qed
qed (rule assms(2))

text \<open>When all timers are in the future, no call is left and every timer has the time it will be due.\<close>

lemma calls_future:
  assumes "timers_ok b st" "due b now = 2 ^ 30" "\<forall>t \<in> set (next_timeout st). TIME_LESS_THAN now (timeo_time t)"
  shows "calls now (next_timeout st) = []" "image_mset (next_due now) (mset (next_timeout st)) = mset (next_timeout st)"
proof -
  have e: "\<not> expired now t" if "t \<in> set (next_timeout st)" for t using assms(3) that by (simp add: expired_def)
  have "\<not> twice now t" if t: "t \<in> set (next_timeout st)" for t
  proof
    assume "twice now t"
    then have "due b (timeo_time t + 1000) = 2 ^ 30" using assms(2) by (simp add: twice_def)
    moreover have "2 ^ 30 < due b (timeo_time t)" "in_window b (timeo_time t)"
      using e [OF t] expired_due [OF assms(2), of t] assms(1) t by (auto simp: timers_ok_def)
    moreover from this(2) have "due b (timeo_time t + 1000) = due b (timeo_time t) + 1000" by (subst due_add) (auto simp: in_window_def)
    ultimately show False by simp
  qed
  with e show "calls now (next_timeout st) = []" by (simp add: calls_def filter_empty_conv)
  have "image_mset (next_due now) (mset (next_timeout st)) = image_mset (\<lambda>t. t) (mset (next_timeout st))"
    using e by (intro image_mset_cong) (simp add: next_due_def)
  then show "image_mset (next_due now) (mset (next_timeout st)) = mset (next_timeout st)" by simp
qed

lemma check_timeouts_all:
  assumes "tame J g run" "J (world st)" "timers_ok (sys_now st - 2 ^ 30) st" "cyclic_only st"
    and "\<forall>t \<in> set (next_timeout st). due (sys_now st - 2 ^ 30) (timeo_time t) \<le> M" "2 ^ 30 + 1000 \<le> M"
  shows "\<exists>st'. sys_check_timeouts run user st = Some st' \<and> J (world st') \<and> timers_ok (sys_now st - 2 ^ 30) st' \<and> cyclic_only st' \<and>
    sys_time st' = sys_time st \<and> exec_all g (calls (sys_now st) (next_timeout st)) (world st) = Some (world st') \<and>
    mset (next_timeout st') = image_mset (next_due (sys_now st)) (mset (next_timeout st)) \<and>
    mset (map timeo_arg (next_timeout st')) = mset (map timeo_arg (next_timeout st)) \<and>
    (\<forall>t \<in> set (next_timeout st'). TIME_LESS_THAN (sys_now st) (timeo_time t) \<and> due (sys_now st - 2 ^ 30) (timeo_time t) \<le> M)"
proof -
  let ?F = "calls (sys_now st) (next_timeout st)" and ?D = "image_mset (next_due (sys_now st)) (mset (next_timeout st))"
  have "in_check J g (sys_now st - 2 ^ 30) M (sys_now st) ?F ?D (world st) st"
    using assms by (auto simp: in_check_def sys_now_def intro: exI [of _ "[]"])
  from check_timeouts_ok [OF assms(1) this window_now assms(6), of user] obtain st' where
    st': "sys_check_timeouts run user st = Some st'" "in_check J g (sys_now st - 2 ^ 30) M (sys_now st) ?F ?D (world st) st'"
      "\<forall>t \<in> set (next_timeout st'). TIME_LESS_THAN (sys_now st) (timeo_time t)"
    by (auto simp: sys_check_timeouts_def)
  note I = st'(2) [unfolded in_check_def]
  have f: "calls (sys_now st) (next_timeout st') = []" "image_mset (next_due (sys_now st)) (mset (next_timeout st')) = mset (next_timeout st')"
    using calls_future [OF _ window_now st'(3)] I by blast+
  then have m: "mset (next_timeout st') = ?D" using I by simp
  have "mset (map timeo_arg (next_timeout st')) = mset (map timeo_arg (next_timeout st))"
    unfolding mset_map m by (simp add: image_mset.compositionality comp_def)
  then show ?thesis using st'(1,3) I f(1) m by (auto simp: sys_now_def)
qed

section \<open>Nodes are never lost\<close>

text \<open>The events in the life of the timer list.\<close>

inductive timer_step :: "('x, 'w) timers \<Rightarrow> ('x, 'w) timers \<Rightarrow> bool" where
  tick: "timer_step st (SysTick_Handler st)"
| arm: "sys_timeout ms f a st = Some st' \<Longrightarrow> timer_step st st'"
| disarm: "timer_step st (sys_untimeout f a st)"
| restart: "timer_step st (sys_restart_timeouts st)"
| expire: "next_timeout st = t # ts \<Longrightarrow> \<not> TIME_LESS_THAN (sys_now st) (timeo_time t) \<Longrightarrow>
    timer_step st (st\<lparr>next_timeout := ts, current_timeout_due_time := timeo_time t, timeo_free := timeo_free st + 1\<rparr>)"

inductive timer_reach :: "('x, 'w) timers \<Rightarrow> bool" where
  start: "next_timeout st = [] \<Longrightarrow> timeo_free st = MEMP_NUM_SYS_TIMEOUT \<Longrightarrow> timer_reach st"
| step: "timer_reach st \<Longrightarrow> timer_step st st' \<Longrightarrow> timer_reach st'"

inductive_cases timer_stepE: "timer_step st st'"

abbreviation nodes :: "('x, 'w) timers \<Rightarrow> nat" where
  "nodes st \<equiv> length (next_timeout st) + timeo_free st"

lemma timer_step_nodes: "timer_step st st' \<Longrightarrow> nodes st' = nodes st"
proof (induction rule: timer_step.induct)
  case (arm ms f a st st')
  then show ?case
    using sys_timeout_abs_place [of st]
    by (cases "timeo_free st = 0") (auto simp: sys_timeout_def sys_timeout_abs_def [of _ _ _ st] split: if_splits)
next
  case (disarm st f a)
  show ?case by (cases rule: untimeout_cases [of st f a]) auto
qed (auto simp: SysTick_Handler_def sys_restart_timeouts_def Let_def)

lemma timer_reach_nodes: "timer_reach st \<Longrightarrow> nodes st = MEMP_NUM_SYS_TIMEOUT"
  by (induction rule: timer_reach.induct) (auto dest: timer_step_nodes)

section \<open>Properties\<close>

text \<open>C17. \<open>sys_timeout\<close>, with a free node and a time within the window, keeps the list ordered by due time across the
  wrap-around of the clock; the new timer goes behind all that are due no later, so equal timers expire in
  the order they were started.\<close>

theorem sys_timeout_ordered:
  assumes "timers_ok b st" "timeo_free st > 0" "msecs \<le> 0xffffffff div 4" "in_window b (sys_now st + msecs)"
    and x_def: "x = \<lparr>timeo_time = sys_now st + msecs, timeo_h = f, timeo_arg = a\<rparr>"
  shows "\<exists>st'. sys_timeout msecs f a st = Some st' \<and> timers_ok b st' \<and>
    next_timeout st' =
      filter (\<lambda>t. due b (timeo_time t) \<le> due b (timeo_time x)) (next_timeout st) @ x #
      filter (\<lambda>t. due b (timeo_time t) > due b (timeo_time x)) (next_timeout st)"
proof -
  from sys_timeout_abs_ok [OF assms(1,2,4), of f a] obtain st' where
    st': "sys_timeout_abs (sys_now st + msecs) f a st = Some st'" "timers_ok b st'" "next_timeout st' = place x (next_timeout st)"
    unfolding x_def by blast
  have "in_window b (timeo_time x)" using assms(4) by (simp add: x_def)
  with assms(1) have "place x (next_timeout st) =
      filter (\<lambda>t. due b (timeo_time t) \<le> due b (timeo_time x)) (next_timeout st) @ x #
      filter (\<lambda>t. due b (timeo_time t) > due b (timeo_time x)) (next_timeout st)"
    by (intro place_filter) (simp_all add: timers_ok_def)
  with st' assms(3) show ?thesis by (simp add: sys_timeout_def Let_def)
qed

definition timers0 :: "(unit, unit) timers" where
  "timers0 = \<lparr>next_timeout = [], current_timeout_due_time = 0, timeo_free = 3, sys_time = 0xfffffff0, world = ()\<rparr>"

lemma timers0_ok: "timers_ok b timers0"
  by (simp add: timers_ok_def timers0_def MEMP_NUM_SYS_TIMEOUT_def)

theorem sys_timeout_ordered_witness:
  "\<exists>st'. sys_timeout 0x20 None 7 timers0 = Some st' \<and> map timeo_time (next_timeout st') = [0x10]"
proof -
  have "sys_now timers0 = 0xfffffff0" by (simp add: sys_now_def timers0_def)
  moreover have "in_window 0xfffffff0 (0xfffffff0 + 0x20)" by (simp add: in_window_def due_def)
  ultimately show ?thesis
    using sys_timeout_ordered [OF timers0_ok [of "0xfffffff0"] _ _ _ refl, of "0x20" None 7]
    by (auto simp: timers0_def)
qed

text \<open>\<open>sys_untimeout\<close> removes exactly the first timer with the given handler and argument, and no other; its node
  goes back to the pool.  Without such a timer nothing changes.\<close>

theorem sys_untimeout_removes:
  "(\<exists>us y vs. next_timeout st = us @ y # vs \<and> timeo_h y = f \<and> timeo_arg y = a \<and>
      (\<forall>u \<in> set us. \<not> (timeo_h u = f \<and> timeo_arg u = a)) \<and>
      sys_untimeout f a st = st\<lparr>next_timeout := us @ vs, timeo_free := timeo_free st + 1\<rparr>) \<or>
   (\<forall>u \<in> set (next_timeout st). \<not> (timeo_h u = f \<and> timeo_arg u = a)) \<and> sys_untimeout f a st = st"
proof (cases rule: untimeout_cases [of st f a])
  case (found us y vs)
  then show ?thesis unfolding timeo_match_def by blast
next
  case none
  then show ?thesis unfolding timeo_match_def by blast
qed

theorem sys_untimeout_removes_witness:
  "\<exists>st :: (unit, unit) timers. sys_untimeout None 7 st = st \<and> next_timeout st = []"
  using sys_untimeout_removes [of timers0 None 7] by (auto simp: timers0_def)

text \<open>C16. \<open>sys_check_timeouts\<close> returns and makes exactly the calls that are due: with the cyclic timers in the list, due within
  \<open>2 ^ 30\<close> ticks on either side of the clock, and timer functions that return, leave the timers alone, have the effect \<open>g\<close> and keep an
  invariant \<open>J\<close>, the state at the end is the effect of the timer functions of the expired timers, called in the order of the list
  (and once more for a timer that is late by exactly its interval); every timer, with its handler and argument, is started again for
  the time it is due next, also after a long delay, the others keep their time, and all are in order and strictly in the future.\<close>

theorem check_timeouts_returns:
  assumes "tame J g run" "J (world st)" "timers_ok (sys_now st - 2 ^ 30) st" "cyclic_only st"
  shows "\<exists>st'. sys_check_timeouts run user st = Some st' \<and>
    exec_all g (calls (sys_now st) (next_timeout st)) (world st) = Some (world st') \<and> J (world st') \<and>
    mset (next_timeout st') = image_mset (next_due (sys_now st)) (mset (next_timeout st)) \<and>
    timers_ok (sys_now st - 2 ^ 30) st' \<and> cyclic_only st' \<and> sys_time st' = sys_time st \<and>
    (\<forall>t \<in> set (next_timeout st'). TIME_LESS_THAN (sys_now st) (timeo_time t))"
proof -
  have "\<forall>t \<in> set (next_timeout st). due (sys_now st - 2 ^ 30) (timeo_time t) \<le> 2 ^ 31"
    using assms(3) by (auto simp: timers_ok_def in_window_def intro: less_imp_le)
  from check_timeouts_all [OF assms this, of user] show ?thesis by auto
qed

definition late :: "(unit, unit) timers" where
  "late = \<lparr>next_timeout = [\<lparr>timeo_time = 0, timeo_h = Some Cyclic, timeo_arg = 0\<rparr>, \<lparr>timeo_time = 5000, timeo_h = Some Cyclic, timeo_arg = 1\<rparr>],
     current_timeout_due_time = 0, timeo_free = 1, sys_time = 5000, world = ()\<rparr>"

text \<open>Timer functions that write down that they have been called; one timer is late by its interval, the other is due.\<close>

definition logged :: "(unit, tmr list) timers" where
  "logged = \<lparr>next_timeout = [\<lparr>timeo_time = 4000, timeo_h = Some Cyclic, timeo_arg = 0\<rparr>, \<lparr>timeo_time = 4500, timeo_h = Some Cyclic, timeo_arg = 1\<rparr>],
     current_timeout_due_time = 0, timeo_free = 1, sys_time = 5000, world = []\<rparr>"

theorem check_timeouts_returns_witness:
  "\<exists>st'. sys_check_timeouts (\<lambda>f st. Some (st\<lparr>world := world st @ [f]\<rparr>)) (\<lambda>_ _. Some) logged = Some st' \<and>
    world st' = [ip_reass_tmr, etharp_tmr, ip_reass_tmr] \<and> image_mset timeo_time (mset (next_timeout st')) = {#6000, 5500#}"
proof -
  let ?run = "\<lambda>f (st :: (unit, tmr list) timers). Some (st\<lparr>world := world st @ [f]\<rparr>)" and ?g = "\<lambda>f w. Some (w @ [f])"
  have now: "sys_now logged = 5000" by (simp add: sys_now_def logged_def)
  have t: "tame (\<lambda>_. True) ?g ?run" by (simp add: tame_def)
  have k: "timers_ok (sys_now logged - 2 ^ 30) logged"
    by (simp add: now) (simp add: logged_def timers_ok_def in_window_def due_def MEMP_NUM_SYS_TIMEOUT_def)
  have c: "cyclic_only logged" by (simp add: logged_def cyclic_only_def lwip_cyclic_timers_def)
  have "calls 5000 (next_timeout logged) = [ip_reass_tmr, etharp_tmr, ip_reass_tmr]"
    "image_mset (next_due 5000) (mset (next_timeout logged)) = {#\<lparr>timeo_time = 6000, timeo_h = Some Cyclic, timeo_arg = 0\<rparr>,
       \<lparr>timeo_time = 5500, timeo_h = Some Cyclic, timeo_arg = 1\<rparr>#}"
    by (simp_all add: logged_def calls_def expired_def twice_def next_due_def TIME_LESS_THAN_def LWIP_MAX_TIMEOUT_def lwip_cyclic_timers_def)
  then show ?thesis
    using check_timeouts_returns [OF t TrueI k c, of "\<lambda>_ _. Some"] unfolding now by (auto simp: logged_def)
qed

text \<open>\<open>sys_timeouts_init\<close> starts both cyclic timers 1000 ticks from now and leaves one node free.\<close>

theorem timeouts_init_starts:
  assumes "next_timeout st = []" "timeo_free st = MEMP_NUM_SYS_TIMEOUT"
  shows "\<exists>st'. sys_timeouts_init st = Some st' \<and> timeo_free st' = 1 \<and> cyclic_only st' \<and>
    map timeo_arg (next_timeout st') = [0, 1] \<and> (\<forall>t \<in> set (next_timeout st'). timeo_time t = sys_now st + 1000)"
  using assms
  by (auto simp: sys_timeouts_init_def lwip_cyclic_timers_def upt_rec sys_timeout_def sys_timeout_abs_place
      MEMP_NUM_SYS_TIMEOUT_def place_def sys_now_def TIME_LESS_THAN_def LWIP_MAX_TIMEOUT_def cyclic_only_def
      Let_def)

theorem timeouts_init_starts_witness:
  "\<exists>st'. sys_timeouts_init timers0 = Some st' \<and> timeo_free st' = 1"
  using timeouts_init_starts [of timers0] by (auto simp: timers0_def MEMP_NUM_SYS_TIMEOUT_def)

text \<open>In every reachable state the nodes in the list and in the pool add up to the pool's size: no operation
  loses or duplicates one; and \<open>sys_timeouts_sleeptime\<close> never fails its assertion.\<close>

theorem timer_nodes_invariant:
  assumes "timer_reach st"
  shows "length (next_timeout st) + timeo_free st = MEMP_NUM_SYS_TIMEOUT \<and>
    (\<exists>ms. sys_timeouts_sleeptime st = Some ms \<and> (next_timeout st \<noteq> [] \<longrightarrow> ms \<le> LWIP_MAX_TIMEOUT))"
proof -
  have "\<not> LWIP_MAX_TIMEOUT < x \<Longrightarrow> x \<le> LWIP_MAX_TIMEOUT" for x by simp
  then show ?thesis
    using timer_reach_nodes [OF assms] by (auto simp: sys_timeouts_sleeptime_def Let_def TIME_LESS_THAN_def LWIP_MAX_TIMEOUT_def)
qed

theorem timer_nodes_invariant_witness:
  "length (next_timeout (SysTick_Handler timers0)) + timeo_free (SysTick_Handler timers0) = MEMP_NUM_SYS_TIMEOUT"
proof -
  have "timer_reach timers0" by (rule timer_reach.start) (simp_all add: timers0_def MEMP_NUM_SYS_TIMEOUT_def)
  then have "timer_reach (SysTick_Handler timers0)" by (rule timer_reach.step) (rule timer_step.tick)
  from timer_nodes_invariant [OF this] show ?thesis by simp
qed

text \<open>\<open>sys_restart_timeouts\<close> moves the first timer to the present and keeps the order and the distances of all
  timers.\<close>

theorem restart_timeouts_shifts:
  assumes "timers_ok b st" "next_timeout st \<noteq> []"
  shows "timers_ok (sys_now st) (sys_restart_timeouts st) \<and>
    map (due (sys_now st) \<circ> timeo_time) (next_timeout (sys_restart_timeouts st)) =
      map (\<lambda>t. due b (timeo_time t) - due b (timeo_time (hd (next_timeout st)))) (next_timeout st)"
proof -
  obtain u us where n: "next_timeout st = u # us" using assms(2) by (cases "next_timeout st") auto
  have d: "due (sys_now st) ((timeo_time t - timeo_time u) + sys_now st) = due b (timeo_time t) - due b (timeo_time u)"
    if "t \<in> set (u # us)" for t
  proof -
    have "due b (timeo_time u) \<le> due b (timeo_time t)" using assms(1) that by (auto simp: timers_ok_def n)
    then have "unat ((timeo_time t - b) - (timeo_time u - b)) = due b (timeo_time t) - due b (timeo_time u)"
      unfolding due_def by (intro unat_sub) (simp add: word_le_nat_alt)
    then show ?thesis by (simp add: due_def)
  qed
  have m: "map (due (sys_now st) \<circ> timeo_time) (next_timeout (sys_restart_timeouts st)) =
      map (\<lambda>t. due b (timeo_time t) - due b (timeo_time (hd (next_timeout st)))) (next_timeout st)"
    using d by (simp add: sys_restart_timeouts_def n Let_def)
  have "sorted (map (due b \<circ> timeo_time) (u # us))" using assms(1) by (simp add: timers_ok_def n)
  then have "sorted (map (\<lambda>t. due b (timeo_time t) - due b (timeo_time u)) (u # us))"
    by (auto simp: sorted_wrt_map sorted_map diff_le_mono elim: sorted_wrt_mono_rel [rotated])
  moreover have "due b (timeo_time t) - due b (timeo_time u) < 2 ^ 31" if "t \<in> set (u # us)" for t
    using assms(1) that by (auto simp: timers_ok_def n in_window_def intro: le_less_trans [OF diff_le_self])
  moreover have "length (next_timeout (sys_restart_timeouts st)) = length (next_timeout st)"
    "timeo_free (sys_restart_timeouts st) = timeo_free st" by (simp_all add: sys_restart_timeouts_def n Let_def)
  ultimately show ?thesis
    using m assms(1) d unfolding timers_ok_def m by (auto simp: n in_window_def sys_restart_timeouts_def Let_def)
qed

theorem restart_timeouts_shifts_witness:
  "map (due 5000 \<circ> timeo_time) (next_timeout (sys_restart_timeouts late)) = [0, 5000]"
proof -
  have "timers_ok 0 late" by (simp add: late_def timers_ok_def in_window_def due_def MEMP_NUM_SYS_TIMEOUT_def)
  from restart_timeouts_shifts [OF this] show ?thesis by (simp add: late_def sys_now_def due_def)
qed

end
