(* ===== verification/Enc_Regs.thy ===== *)
theory Enc_Regs
  imports Prelude
begin

unbundle bit_operations_syntax

text \<open>
  The register map of \<^verbatim>\<open>enc28j60/lowlayer/inc/enc28j60_register_map.h\<close>: opcodes, banks, register
  kinds, the table of registers and the bit fields the driver assigns.
\<close>

section \<open>Memory layout and SPI command constants\<close>

definition RX_BUFFER_START_ADDR :: u16 where "RX_BUFFER_START_ADDR = 0x0"

definition RX_BUFFER_END_ADDR :: u16 where "RX_BUFFER_END_ADDR = 0x17ff"

definition TX_BUFFER_START_ADDR :: u16 where "TX_BUFFER_START_ADDR = 0x1800"

definition MACON3_60B_PADDED :: u16 where "MACON3_60B_PADDED = 0x01"

definition BUFFER_MEMORY_ARG :: u8 where "BUFFER_MEMORY_ARG = 0x1A"

definition SOFT_RESET_ARG :: u8 where "SOFT_RESET_ARG = 0x1F"

lemmas layout_defs = RX_BUFFER_START_ADDR_def RX_BUFFER_END_ADDR_def TX_BUFFER_START_ADDR_def
  MACON3_60B_PADDED_def BUFFER_MEMORY_ARG_def SOFT_RESET_ARG_def

datatype Opcode_t =
    ReadControlRegister | ReadBufferMemory | WriteControlRegister | WriteBufferMemory
  | BitFieldSet | BitFieldClear | SystemResetCommand

fun opcode :: "Opcode_t \<Rightarrow> u8" where
  "opcode ReadControlRegister = 0x00"
| "opcode ReadBufferMemory = 0x20"
| "opcode WriteControlRegister = 0x40"
| "opcode WriteBufferMemory = 0x60"
| "opcode BitFieldSet = 0x80"
| "opcode BitFieldClear = 0xA0"
| "opcode SystemResetCommand = 0xE0"

section \<open>Banks, register kinds, registers\<close>

datatype Bank_t = Bank0 | Bank1 | Bank2 | Bank3 | Common

text \<open>The numeric value of the enumerator, which \<open>BSEL = new_bank\<close> stores.\<close>

fun bank_val :: "Bank_t \<Rightarrow> u8" where
  "bank_val Bank0 = 0"
| "bank_val Bank1 = 1"
| "bank_val Bank2 = 2"
| "bank_val Bank3 = 3"
| "bank_val Common = 4"

datatype RegType_t = ETH_R | MAC_R | MII_R | PHY_R

record Reg_t =
  reg_type :: RegType_t
  reg_bank :: Bank_t
  reg_addr :: u8
  reg_length :: u8

definition mk_reg :: "RegType_t \<Rightarrow> Bank_t \<Rightarrow> u8 \<Rightarrow> u8 \<Rightarrow> Reg_t" where
  "mk_reg t b a l = \<lparr>reg_type = t, reg_bank = b, reg_addr = a, reg_length = l\<rparr>"

lemma mk_reg_sel [simp]:
  "reg_type (mk_reg t b a l) = t" "reg_bank (mk_reg t b a l) = b"
  "reg_addr (mk_reg t b a l) = a" "reg_length (mk_reg t b a l) = l"
  by (simp_all add: mk_reg_def)

section \<open>The register table\<close>

definition EIE :: Reg_t where "EIE = mk_reg ETH_R Common 0x1b 1"

definition EIR :: Reg_t where "EIR = mk_reg ETH_R Common 0x1c 1"

definition ESTAT :: Reg_t where "ESTAT = mk_reg ETH_R Common 0x1d 1"

definition ECON2 :: Reg_t where "ECON2 = mk_reg ETH_R Common 0x1e 1"

definition ECON1 :: Reg_t where "ECON1 = mk_reg ETH_R Common 0x1f 1"

definition ERDPTL :: Reg_t where "ERDPTL = mk_reg ETH_R Bank0 0x00 2"

definition EWRPTL :: Reg_t where "EWRPTL = mk_reg ETH_R Bank0 0x02 2"

definition ETXSTL :: Reg_t where "ETXSTL = mk_reg ETH_R Bank0 0x04 2"

definition ETXNDL :: Reg_t where "ETXNDL = mk_reg ETH_R Bank0 0x06 2"

definition ERXSTL :: Reg_t where "ERXSTL = mk_reg ETH_R Bank0 0x08 2"

definition ERXNDL :: Reg_t where "ERXNDL = mk_reg ETH_R Bank0 0x0a 2"

definition ERXRDPTL :: Reg_t where "ERXRDPTL = mk_reg ETH_R Bank0 0x0c 2"

definition ERXWRPTL :: Reg_t where "ERXWRPTL = mk_reg ETH_R Bank0 0x0e 2"

definition EDMASTL :: Reg_t where "EDMASTL = mk_reg ETH_R Bank0 0x10 2"

definition EDMANDL :: Reg_t where "EDMANDL = mk_reg ETH_R Bank0 0x12 2"

definition EDMADSTL :: Reg_t where "EDMADSTL = mk_reg ETH_R Bank0 0x14 2"

definition EDMACSL :: Reg_t where "EDMACSL = mk_reg ETH_R Bank0 0x16 2"

definition EHT0 :: Reg_t where "EHT0 = mk_reg ETH_R Bank1 0x00 1"

definition EHT1 :: Reg_t where "EHT1 = mk_reg ETH_R Bank1 0x01 1"

definition EHT2 :: Reg_t where "EHT2 = mk_reg ETH_R Bank1 0x02 1"

definition EHT3 :: Reg_t where "EHT3 = mk_reg ETH_R Bank1 0x03 1"

definition EHT4 :: Reg_t where "EHT4 = mk_reg ETH_R Bank1 0x04 1"

definition EHT5 :: Reg_t where "EHT5 = mk_reg ETH_R Bank1 0x05 1"

definition EHT6 :: Reg_t where "EHT6 = mk_reg ETH_R Bank1 0x06 1"

definition EHT7 :: Reg_t where "EHT7 = mk_reg ETH_R Bank1 0x07 1"

definition EPMM0 :: Reg_t where "EPMM0 = mk_reg ETH_R Bank1 0x08 1"

definition EPMM1 :: Reg_t where "EPMM1 = mk_reg ETH_R Bank1 0x09 1"

definition EPMM2 :: Reg_t where "EPMM2 = mk_reg ETH_R Bank1 0x0a 1"

definition EPMM3 :: Reg_t where "EPMM3 = mk_reg ETH_R Bank1 0x0b 1"

definition EPMM4 :: Reg_t where "EPMM4 = mk_reg ETH_R Bank1 0x0c 1"

definition EPMM5 :: Reg_t where "EPMM5 = mk_reg ETH_R Bank1 0x0d 1"

definition EPMM6 :: Reg_t where "EPMM6 = mk_reg ETH_R Bank1 0x0e 1"

definition EPMM7 :: Reg_t where "EPMM7 = mk_reg ETH_R Bank1 0x0f 1"

definition EPMCSL :: Reg_t where "EPMCSL = mk_reg ETH_R Bank1 0x10 2"

definition EPMOL :: Reg_t where "EPMOL = mk_reg ETH_R Bank1 0x14 2"

definition ERXFCON :: Reg_t where "ERXFCON = mk_reg ETH_R Bank1 0x18 1"

definition EPKTCNT :: Reg_t where "EPKTCNT = mk_reg ETH_R Bank1 0x19 1"

definition MACON1 :: Reg_t where "MACON1 = mk_reg MAC_R Bank2 0x00 1"

definition MACON3 :: Reg_t where "MACON3 = mk_reg MAC_R Bank2 0x02 1"

definition MACON4 :: Reg_t where "MACON4 = mk_reg MAC_R Bank2 0x03 1"

definition MABBIPG :: Reg_t where "MABBIPG = mk_reg MAC_R Bank2 0x04 1"

definition MAIPGL :: Reg_t where "MAIPGL = mk_reg MAC_R Bank2 0x06 2"

definition MACLCON1 :: Reg_t where "MACLCON1 = mk_reg MAC_R Bank2 0x08 1"

definition MACLCON2 :: Reg_t where "MACLCON2 = mk_reg MAC_R Bank2 0x09 1"

definition MAMXFLL :: Reg_t where "MAMXFLL = mk_reg MAC_R Bank2 0x0a 2"

definition MICMD :: Reg_t where "MICMD = mk_reg MII_R Bank2 0x12 1"

definition MIREGADR :: Reg_t where "MIREGADR = mk_reg MII_R Bank2 0x14 1"

definition MIWRL :: Reg_t where "MIWRL = mk_reg MII_R Bank2 0x16 2"

definition MIRDL :: Reg_t where "MIRDL = mk_reg MII_R Bank2 0x18 2"

definition MAADR5 :: Reg_t where "MAADR5 = mk_reg MAC_R Bank3 0x00 1"

definition MAADR6 :: Reg_t where "MAADR6 = mk_reg MAC_R Bank3 0x01 1"

definition MAADR3 :: Reg_t where "MAADR3 = mk_reg MAC_R Bank3 0x02 1"

definition MAADR4 :: Reg_t where "MAADR4 = mk_reg MAC_R Bank3 0x03 1"

definition MAADR1 :: Reg_t where "MAADR1 = mk_reg MAC_R Bank3 0x04 1"

definition MAADR2 :: Reg_t where "MAADR2 = mk_reg MAC_R Bank3 0x05 1"

definition EBSTSD :: Reg_t where "EBSTSD = mk_reg ETH_R Bank3 0x06 1"

definition EBSTCON :: Reg_t where "EBSTCON = mk_reg ETH_R Bank3 0x07 1"

definition EBSTCSL :: Reg_t where "EBSTCSL = mk_reg ETH_R Bank3 0x08 2"

definition MISTAT :: Reg_t where "MISTAT = mk_reg MII_R Bank3 0x0a 1"

definition EREVID :: Reg_t where "EREVID = mk_reg ETH_R Bank3 0x12 1"

definition ECOCON :: Reg_t where "ECOCON = mk_reg ETH_R Bank3 0x15 1"

definition EFLOCON :: Reg_t where "EFLOCON = mk_reg ETH_R Bank3 0x17 1"

definition EPAUSL :: Reg_t where "EPAUSL = mk_reg ETH_R Bank3 0x18 2"

definition PHCON1 :: Reg_t where "PHCON1 = mk_reg PHY_R Common 0x00 2"

definition PHSTAT1 :: Reg_t where "PHSTAT1 = mk_reg PHY_R Common 0x01 2"

definition PHID1 :: Reg_t where "PHID1 = mk_reg PHY_R Common 0x02 2"

definition PHID2 :: Reg_t where "PHID2 = mk_reg PHY_R Common 0x03 2"

definition PHCON2 :: Reg_t where "PHCON2 = mk_reg PHY_R Common 0x10 2"

definition PHSTAT2 :: Reg_t where "PHSTAT2 = mk_reg PHY_R Common 0x11 2"

definition PHIE :: Reg_t where "PHIE = mk_reg PHY_R Common 0x12 2"

definition PHIR :: Reg_t where "PHIR = mk_reg PHY_R Common 0x13 2"

definition PHLCON :: Reg_t where "PHLCON = mk_reg PHY_R Common 0x14 2"

lemmas reg_defs =
  EIE_def EIR_def ESTAT_def ECON2_def ECON1_def ERDPTL_def EWRPTL_def ETXSTL_def
  ETXNDL_def ERXSTL_def ERXNDL_def ERXRDPTL_def ERXWRPTL_def EDMASTL_def EDMANDL_def EDMADSTL_def
  EDMACSL_def EHT0_def EHT1_def EHT2_def EHT3_def EHT4_def EHT5_def EHT6_def
  EHT7_def EPMM0_def EPMM1_def EPMM2_def EPMM3_def EPMM4_def EPMM5_def EPMM6_def
  EPMM7_def EPMCSL_def EPMOL_def ERXFCON_def EPKTCNT_def MACON1_def MACON3_def MACON4_def
  MABBIPG_def MAIPGL_def MACLCON1_def MACLCON2_def MAMXFLL_def MICMD_def MIREGADR_def MIWRL_def
  MIRDL_def MAADR5_def MAADR6_def MAADR3_def MAADR4_def MAADR1_def MAADR2_def EBSTSD_def
  EBSTCON_def EBSTCSL_def MISTAT_def EREVID_def ECOCON_def EFLOCON_def EPAUSL_def PHCON1_def
  PHSTAT1_def PHID1_def PHID2_def PHCON2_def PHSTAT2_def PHIE_def PHIR_def PHLCON_def

text \<open>Every register of the table, in the order of the header.\<close>

definition all_regs :: "Reg_t list" where
  "all_regs =
        [EIE, EIR, ESTAT, ECON2, ECON1, ERDPTL, EWRPTL, ETXSTL, ETXNDL, ERXSTL, ERXNDL,
     ERXRDPTL, ERXWRPTL, EDMASTL, EDMANDL, EDMADSTL, EDMACSL, EHT0, EHT1, EHT2, EHT3, EHT4,
     EHT5, EHT6, EHT7, EPMM0, EPMM1, EPMM2, EPMM3, EPMM4, EPMM5, EPMM6, EPMM7, EPMCSL, EPMOL,
     ERXFCON, EPKTCNT, MACON1, MACON3, MACON4, MABBIPG, MAIPGL, MACLCON1, MACLCON2, MAMXFLL,
     MICMD, MIREGADR, MIWRL, MIRDL, MAADR5, MAADR6, MAADR3, MAADR4, MAADR1, MAADR2, EBSTSD,
     EBSTCON, EBSTCSL, MISTAT, EREVID, ECOCON, EFLOCON, EPAUSL, PHCON1, PHSTAT1, PHID1, PHID2,
     PHCON2, PHSTAT2, PHIE, PHIR, PHLCON]"

text \<open>
  The banked address space of the chip: addresses from 0x1b on name the same register in every
  bank, and each address fits in the five argument bits of an SPI opcode.
\<close>

definition reg_wf :: "Reg_t \<Rightarrow> bool" where
  "reg_wf r \<longleftrightarrow> reg_addr r \<le> 0x1f \<and> reg_addr r + reg_length r - 1 \<le> 0x1f \<and> (reg_length r = 1 \<or> reg_length r = 2) \<and>
     (reg_type r \<noteq> PHY_R \<longrightarrow> (reg_bank r = Common \<longleftrightarrow> 0x1b \<le> reg_addr r)) \<and>
     (reg_type r \<noteq> PHY_R \<and> reg_bank r = Common \<longrightarrow> reg_length r = 1) \<and>
     (reg_type r \<noteq> PHY_R \<and> reg_bank r \<noteq> Common \<longrightarrow> reg_addr r + reg_length r - 1 < 0x1b)"

lemma all_regs_wf: "list_all reg_wf all_regs"
  by (simp add: all_regs_def reg_defs reg_wf_def word_le_nat_alt word_less_nat_alt)

section \<open>Named bits\<close>

text \<open>Bit numbers of the packed structs, as the driver uses them.\<close>

definition CLKRDY :: nat where "CLKRDY = 0"

definition CRCEN :: nat where "CRCEN = 5"

definition MARXEN :: nat where "MARXEN = 0"

definition RXPAUS :: nat where "RXPAUS = 2"

definition TXPAUS :: nat where "TXPAUS = 3"

definition FULLDPX :: nat where "FULLDPX = 0"

definition FRMLNEN :: nat where "FRMLNEN = 1"

definition TXCRCEN :: nat where "TXCRCEN = 4"

definition PADCFG :: nat where "PADCFG = 5"

definition BSEL :: nat where "BSEL = 0"

definition RXEN :: nat where "RXEN = 2"

definition TXRTS :: nat where "TXRTS = 3"

definition PKTDEC :: nat where "PKTDEC = 6"

definition AUTOINC :: nat where "AUTOINC = 7"

definition BUSY :: nat where "BUSY = 0"

definition MIIRD :: nat where "MIIRD = 0"

definition PDPXMD :: nat where "PDPXMD = 7"

lemmas bit_defs = CLKRDY_def CRCEN_def MARXEN_def RXPAUS_def TXPAUS_def FULLDPX_def FRMLNEN_def
  TXCRCEN_def PADCFG_def BSEL_def RXEN_def TXRTS_def PKTDEC_def AUTOINC_def BUSY_def MIIRD_def
  PDPXMD_def

end
