(* ===== verification/Enc_Port.thy ===== *)
theory Enc_Port
  imports Enc_Regs
begin

unbundle bit_operations_syntax

text \<open>
  The port layer, \<^verbatim>\<open>enc28j60/port/src/enc28j60_port.c\<close>: the SPI1, GPIOA and USART1 register
  accesses by which the STM32 talks to the ENC28J60 and to the log.

  The peripherals are modelled by what the code sees of them.  A write to \<^verbatim>\<open>SPI1->DR\<close> starts the
  exchange of one byte; the received byte (the answer of the chip to everything that happened on
  the wire so far) reaches \<^verbatim>\<open>DR\<close> and sets \<^verbatim>\<open>RXNE\<close> after some number of reads of \<^verbatim>\<open>SR\<close>, and
  \<^verbatim>\<open>BSY\<close> falls after some number of them.  The chip's answers and these delays are parameters of
  the model, collected in the record \<open>env\<close>.
\<close>

section \<open>The hardware the port sees\<close>

datatype spi_event = CsLow | CsHigh | Xfer u8

record env =
  miso :: "spi_event list \<Rightarrow> u8"
  rx_latency :: "spi_event list \<Rightarrow> nat"
  bsy_latency :: "spi_event list \<Rightarrow> nat"
  tc_latency :: "u8 list \<Rightarrow> nat"

record hw =
  rcc_apb2enr :: u32
  gpioa_crl :: u32
  gpioa_crh :: u32
  gpioa_odr :: u16
  spi1_cr1 :: u16
  spi1_cr2 :: u16
  spi_dr :: u8
  spi_shift :: u8
  spi_rxne :: bool
  spi_rx_left :: nat
  spi_bsy_left :: nat
  usart1_brr :: u16
  usart1_cr1 :: u16
  usart_tc_left :: nat
  uart_log :: "u8 list"
  hist :: "spi_event list"

text \<open>A write to \<^verbatim>\<open>GPIOA->BSRR\<close>: the low half sets pins, the high half resets those not set.  Pin 4 is
  the chip select line (active low).\<close>

definition gpioa_write_bsrr :: "u32 \<Rightarrow> hw \<Rightarrow> hw" where
  "gpioa_write_bsrr v w =
     (let s = ucast v :: u16; r = ucast (drop_bit 16 v) :: u16
      in w\<lparr>gpioa_odr := (gpioa_odr w AND NOT r) OR s,
           hist := hist w @ (if bit s 4 then [CsHigh] else if bit r 4 then [CsLow] else [])\<rparr>)"

text \<open>Each read of \<^verbatim>\<open>SPI1->SR\<close> lets time pass.\<close>

definition spi_tick :: "hw \<Rightarrow> hw" where
  "spi_tick w = w\<lparr>
     spi_dr := (if spi_rx_left w = 1 \<and> \<not> spi_rxne w then spi_shift w else spi_dr w),
     spi_rxne := (spi_rxne w \<or> spi_rx_left w = 1),
     spi_rx_left := spi_rx_left w - 1,
     spi_bsy_left := spi_bsy_left w - 1\<rparr>"

definition read_SR_RXNE :: "hw \<Rightarrow> bool \<times> hw" where
  "read_SR_RXNE w = (spi_rxne w, spi_tick w)"

definition read_SR_BSY :: "hw \<Rightarrow> bool \<times> hw" where
  "read_SR_BSY w = (0 < spi_bsy_left w, spi_tick w)"

text \<open>A write to \<^verbatim>\<open>SPI1->DR\<close>; without \<open>SPE\<close> (bit 6 of \<open>CR1\<close>) nothing is exchanged.\<close>

definition write_DR :: "env \<Rightarrow> u8 \<Rightarrow> hw \<Rightarrow> hw" where
  "write_DR E b w =
     (if bit (spi1_cr1 w) 6
      then (let h = hist w @ [Xfer b]
            in w\<lparr>hist := h, spi_shift := miso E h, spi_rx_left := Suc (rx_latency E h),
                 spi_bsy_left := bsy_latency E h\<rparr>)
      else w)"

definition read_DR :: "hw \<Rightarrow> u8 \<times> hw" where
  "read_DR w = (spi_dr w, w\<lparr>spi_rxne := False\<rparr>)"

section \<open>Initialisation\<close>

text \<open>The register constants are those of \<^verbatim>\<open>CMSIS/stm32f10x.h\<close>.\<close>

definition enc28j60_hw_spi_init :: "hw \<Rightarrow> hw option" where
  "enc28j60_hw_spi_init w0 =
     (let w = w0\<lparr>rcc_apb2enr := rcc_apb2enr w0 OR 0x00000004 OR 0x00000001\<rparr>;
          w = w\<lparr>gpioa_crl := gpioa_crl w AND
                  NOT (0x00000C00 OR 0x000C0000 OR 0x00C00000 OR 0x0C000000 OR 0xC0000000)\<rparr>;
          w = w\<lparr>gpioa_crl := gpioa_crl w OR
                  0x00000100 OR 0x00010000 OR 0x00100000 OR 0x01000000 OR 0x10000000\<rparr>;
          w = w\<lparr>gpioa_crl := gpioa_crl w OR 0x00800000 OR 0x08000000 OR 0x80000000\<rparr>;
          w = gpioa_write_bsrr 0x00000004 w;
          w = gpioa_write_bsrr 0x00000010 w;
          w = w\<lparr>rcc_apb2enr := rcc_apb2enr w OR 0x00001000\<rparr>;
          w = w\<lparr>spi1_cr1 := spi1_cr1 w OR 0x0020 OR 0x0010 OR 0x0004 OR 0x0100\<rparr>;
          w = w\<lparr>spi1_cr2 := spi1_cr2 w OR 0x04\<rparr>;
          w = w\<lparr>spi1_cr1 := spi1_cr1 w OR 0x0040\<rparr>
      in Some w)"

definition enc28j60_hw_uart_init :: "hw \<Rightarrow> hw option" where
  "enc28j60_hw_uart_init w0 =
     (let w = w0\<lparr>rcc_apb2enr := rcc_apb2enr w0 OR 0x00000004 OR 0x00000001\<rparr>;
          w = w\<lparr>gpioa_crh := gpioa_crh w AND NOT 0x000000C0\<rparr>;
          w = w\<lparr>gpioa_crh := gpioa_crh w OR 0x00000080\<rparr>;
          w = w\<lparr>gpioa_crh := gpioa_crh w OR 0x00000010\<rparr>;
          w = w\<lparr>gpioa_crh := gpioa_crh w AND NOT 0x00000C00\<rparr>;
          w = w\<lparr>gpioa_crh := gpioa_crh w OR 0x00000400\<rparr>;
          w = w\<lparr>gpioa_crh := gpioa_crh w AND NOT 0x00000300\<rparr>;
          w = w\<lparr>rcc_apb2enr := rcc_apb2enr w OR 0x00004000\<rparr>;
          w = w\<lparr>usart1_brr := 0x271\<rparr>;
          w = w\<lparr>usart1_cr1 := 0x2000 OR 0x0004 OR 0x0008\<rparr>
      in Some w)"

datatype ENC28J60_Init_Status = MPU_INIT_OK | MPU_INIT_SPI_FAILED

definition enc28j60_hw_is_spi_on :: "hw \<Rightarrow> ENC28J60_Init_Status" where
  "enc28j60_hw_is_spi_on w = (if spi1_cr1 w AND 0x0040 \<noteq> 0 then MPU_INIT_OK else MPU_INIT_SPI_FAILED)"

section \<open>The log\<close>

text \<open>\<^verbatim>\<open>while((USART1->SR & USART_SR_TC) == 0);\<close>: each read of \<open>SR\<close> lets time pass.\<close>

primrec uart_wait_tc :: "nat \<Rightarrow> hw \<Rightarrow> hw" where
  "uart_wait_tc 0 w = w\<lparr>usart_tc_left := 0\<rparr>"
| "uart_wait_tc (Suc n) w = uart_wait_tc n (w\<lparr>usart_tc_left := n\<rparr>)"

text \<open>A write to \<^verbatim>\<open>USART1->DR\<close> transmits when the transmitter is enabled (\<open>UE\<close> and \<open>TE\<close>) and clears
  \<open>TC\<close> for the time the transmission takes.\<close>

definition usart_write_DR :: "env \<Rightarrow> u8 \<Rightarrow> hw \<Rightarrow> hw" where
  "usart_write_DR E b w =
     (if bit (usart1_cr1 w) 13 \<and> bit (usart1_cr1 w) 3
      then w\<lparr>uart_log := uart_log w @ [b], usart_tc_left := tc_latency E (uart_log w @ [b])\<rparr>
      else w)"

definition enc28j60_hw_send_log_8b :: "env \<Rightarrow> u8 \<Rightarrow> hw \<Rightarrow> hw option" where
  "enc28j60_hw_send_log_8b E data w =
     (let w = usart_write_DR E data w in Some (uart_wait_tc (usart_tc_left w) w))"

text \<open>The message is the memory from \<open>msg\<close> on; its end stands for the terminating NUL.\<close>

fun enc28j60_hw_send_log_msg :: "env \<Rightarrow> u8 list \<Rightarrow> hw \<Rightarrow> hw option" where
  "enc28j60_hw_send_log_msg E [] w = Some w"
| "enc28j60_hw_send_log_msg E (c # msg) w =
     (if c \<noteq> 0
      then do { w \<leftarrow> enc28j60_hw_send_log_8b E c w; enc28j60_hw_send_log_msg E msg w }
      else Some w)"

section \<open>Chip select and byte exchange\<close>

text \<open>\<open>BSRR\<close> reads as zero, so \<open>BSRR |= v\<close> writes \<open>v\<close>.\<close>

definition enc28j60_hw_cs_high :: "hw \<Rightarrow> hw option" where
  "enc28j60_hw_cs_high w = Some (gpioa_write_bsrr 0x00000010 w)"

definition enc28j60_hw_cs_low :: "hw \<Rightarrow> hw option" where
  "enc28j60_hw_cs_low w = Some (gpioa_write_bsrr 0x00100000 w)"

text \<open>\<^verbatim>\<open>while(!(SPI1->SR & SPI_SR_RXNE) || (SPI1->SR & SPI_SR_BSY));\<close>\<close>

partial_function (option) spi_wait_rxne :: "hw \<Rightarrow> hw option" where
  "spi_wait_rxne w =
     (let (rxne, w) = read_SR_RXNE w
      in if \<not> rxne then spi_wait_rxne w
         else let (bsy, w) = read_SR_BSY w in if bsy then spi_wait_rxne w else Some w)"

text \<open>\<^verbatim>\<open>while(SPI1->SR & SPI_SR_BSY);\<close>\<close>

partial_function (option) spi_wait_bsy :: "hw \<Rightarrow> hw option" where
  "spi_wait_bsy w = (let (bsy, w) = read_SR_BSY w in if bsy then spi_wait_bsy w else Some w)"

text \<open>\<^verbatim>\<open>SPI1->DR = b\<close> and the wait for the received byte, as every transfer of the file starts.\<close>

definition spi_put :: "env \<Rightarrow> u8 \<Rightarrow> hw \<Rightarrow> hw option" where
  "spi_put E b w = spi_wait_rxne (write_DR E b w)"

definition enc28j60_hw_send_short_cmd :: "env \<Rightarrow> u8 \<Rightarrow> hw \<Rightarrow> (u8 \<times> hw) option" where
  "enc28j60_hw_send_short_cmd E cmd w =
     do { w \<leftarrow> spi_put E cmd w;
          w \<leftarrow> spi_wait_bsy w;
          Some (read_DR w) }"

definition enc28j60_hw_send_data_8b :: "env \<Rightarrow> u8 \<Rightarrow> u8 \<Rightarrow> hw \<Rightarrow> hw option" where
  "enc28j60_hw_send_data_8b E reg data w =
     do { w \<leftarrow> spi_put E reg w;
          let w = snd (read_DR w);
          w \<leftarrow> spi_wait_bsy w;
          w \<leftarrow> spi_put E data w;
          let w = snd (read_DR w);
          spi_wait_bsy w }"

definition enc28j60_hw_read_data_8b :: "env \<Rightarrow> u8 \<Rightarrow> hw \<Rightarrow> (u8 \<times> hw) option" where
  "enc28j60_hw_read_data_8b E reg w =
     do { w \<leftarrow> spi_put E (0x00 OR reg) w;
          let w = snd (read_DR w);
          w \<leftarrow> spi_wait_bsy w;
          w \<leftarrow> spi_put E 0 w;
          Some (read_DR w) }"

definition enc28j60_hw_send_data_16b :: "env \<Rightarrow> u8 \<Rightarrow> u16 \<Rightarrow> hw \<Rightarrow> hw option" where
  "enc28j60_hw_send_data_16b E reg data w =
     do { w \<leftarrow> spi_put E reg w;
          let w = snd (read_DR w);
          w \<leftarrow> spi_wait_bsy w;
          w \<leftarrow> spi_put E (hi8 data) w;
          let w = snd (read_DR w);
          w \<leftarrow> spi_wait_bsy w;
          w \<leftarrow> spi_put E (lo8 data) w;
          let w = snd (read_DR w);
          spi_wait_bsy w }"

definition enc28j60_hw_read_data_16b :: "env \<Rightarrow> u8 \<Rightarrow> hw \<Rightarrow> (u16 \<times> hw) option" where
  "enc28j60_hw_read_data_16b E reg w =
     do { w \<leftarrow> spi_put E (0x00 OR reg) w;
          let w = snd (read_DR w);
          w \<leftarrow> spi_wait_bsy w;
          w \<leftarrow> spi_put E 0 w;
          let (d, w) = read_DR w;
          let ret = push_bit 8 (ucast d :: u16);
          w \<leftarrow> spi_put E 0 w;
          let (d, w) = read_DR w;
          Some (ret OR ucast d, w) }"

section \<open>Correctness of the byte exchange\<close>

text \<open>The interface is at rest: enabled, nothing received and nothing in flight.\<close>

definition spi_idle :: "hw \<Rightarrow> bool" where
  "spi_idle w \<longleftrightarrow> bit (spi1_cr1 w) 6 \<and> \<not> spi_rxne w \<and> spi_rx_left w = 0 \<and> spi_bsy_left w = 0"

definition spi_done :: "u8 \<Rightarrow> hw \<Rightarrow> bool" where
  "spi_done b w \<longleftrightarrow>
     bit (spi1_cr1 w) 6 \<and> spi_rxne w \<and> spi_dr w = b \<and> spi_rx_left w = 0 \<and> spi_bsy_left w = 0"

text \<open>A byte is under way, and either still on the wire or already in \<open>DR\<close>.\<close>

definition spi_pending :: "u8 \<Rightarrow> hw \<Rightarrow> bool" where
  "spi_pending b w \<longleftrightarrow> bit (spi1_cr1 w) 6 \<and>
     (if spi_rxne w then spi_rx_left w = 0 \<and> spi_dr w = b else 0 < spi_rx_left w \<and> spi_shift w = b)"

lemma spi_tick_pending: "spi_pending b w \<Longrightarrow> spi_pending b (spi_tick w)"
  by (auto simp: spi_pending_def spi_tick_def)

lemma spi_tick_hist [simp]: "hist (spi_tick w) = hist w"
  by (simp add: spi_tick_def)

text \<open>Whatever the delays, the wait loop ends, with the answer in \<open>DR\<close> and the bus quiet.\<close>

lemma spi_wait_rxne_done:
  assumes "spi_pending b w"
  shows "\<exists>w'. spi_wait_rxne w = Some w' \<and> spi_done b w' \<and> hist w' = hist w"
  using assms
proof (induction "spi_rx_left w + spi_bsy_left w" arbitrary: w rule: less_induct)
  case less
  note pend = spi_tick_pending [OF less.prems]
  show ?case
  proof (cases "spi_rxne w")
    case False
    then have "spi_rx_left (spi_tick w) + spi_bsy_left (spi_tick w) < spi_rx_left w + spi_bsy_left w"
      using less.prems by (auto simp: spi_pending_def spi_tick_def)
    from less.hyps [OF this pend] False show ?thesis
      by (subst spi_wait_rxne.simps) (simp add: read_SR_RXNE_def)
  next
    case rx: True
    show ?thesis
    proof (cases "spi_bsy_left (spi_tick w) = 0")
      case True
      with rx less.prems have "spi_done b (spi_tick (spi_tick w))"
        by (auto simp: spi_pending_def spi_done_def spi_tick_def)
      with True rx show ?thesis
        by (subst spi_wait_rxne.simps) (simp add: read_SR_RXNE_def read_SR_BSY_def)
    next
      case False
      then have "spi_rx_left (spi_tick (spi_tick w)) + spi_bsy_left (spi_tick (spi_tick w))
          < spi_rx_left w + spi_bsy_left w"
        by (auto simp: spi_tick_def)
      from less.hyps [OF this spi_tick_pending [OF pend]] False rx show ?thesis
        by (subst spi_wait_rxne.simps) (simp add: read_SR_RXNE_def read_SR_BSY_def)
    qed
  qed
qed

lemma spi_put_done:
  assumes "spi_idle w"
  shows "\<exists>w'. spi_put E b w = Some w' \<and> spi_done (miso E (hist w @ [Xfer b])) w' \<and>
    hist w' = hist w @ [Xfer b]"
proof -
  have "spi_pending (miso E (hist w @ [Xfer b])) (write_DR E b w)" "hist (write_DR E b w) = hist w @ [Xfer b]"
    using assms by (simp_all add: spi_idle_def spi_pending_def write_DR_def Let_def)
  then show ?thesis
    using spi_wait_rxne_done unfolding spi_put_def by metis
qed

lemma read_DR_done: "spi_done b w \<Longrightarrow> read_DR w = (b, w\<lparr>spi_rxne := False\<rparr>) \<and> spi_idle (w\<lparr>spi_rxne := False\<rparr>)"
  by (simp add: read_DR_def spi_done_def spi_idle_def)

lemma spi_wait_bsy_quiet: "spi_bsy_left w = 0 \<Longrightarrow> spi_wait_bsy w = Some (spi_tick w)"
  by (subst spi_wait_bsy.simps) (simp add: read_SR_BSY_def)

lemma spi_tick_idle: "spi_idle w \<Longrightarrow> spi_idle (spi_tick w)"
  by (simp add: spi_idle_def spi_tick_def)

lemma spi_tick_done: "spi_done b w \<Longrightarrow> spi_done b (spi_tick w)"
  by (simp add: spi_done_def spi_tick_def)

lemma spi_wait_bsy_idle:
  "spi_idle w \<Longrightarrow> \<exists>w'. spi_wait_bsy w = Some w' \<and> spi_idle w' \<and> hist w' = hist w"
  by (rule exI [of _ "spi_tick w"]) (simp add: spi_tick_idle, simp add: spi_idle_def spi_wait_bsy_quiet)

lemma spi_wait_bsy_done:
  "spi_done b w \<Longrightarrow> \<exists>w'. spi_wait_bsy w = Some w' \<and> spi_done b w' \<and> hist w' = hist w"
  by (rule exI [of _ "spi_tick w"]) (simp add: spi_tick_done, simp add: spi_done_def spi_wait_bsy_quiet)

end
