(* ===== verification/Enc_LL.thy ===== *)
theory Enc_LL
  imports Enc_Port
begin

unbundle bit_operations_syntax

text \<open>
  The middle layer, \<^verbatim>\<open>enc28j60/lowlayer/src/enc28j60_ll.c\<close>: register and buffer access over the
  function pointers of \<^verbatim>\<open>enc28j60_io_t\<close> (\<^verbatim>\<open>enc28j60_priv.h\<close>).

  The function pointers are set once, by \<^verbatim>\<open>enc28j60_init\<close>; the model passes their record \<open>io\<close>
  beside the device state.  The world \<open>'w\<close> is whatever the functions behind the pointers act on.
\<close>

section \<open>State\<close>

record ETH_rx_header_t =
  next_packet_ptr :: u16
  byte_count :: u16
  status :: u16

record 'w enc28j60_io_t =
  uart_init :: "'w \<Rightarrow> 'w option"
  uart_send_msg :: "u8 list \<Rightarrow> 'w \<Rightarrow> 'w option"
  spi_init :: "'w \<Rightarrow> 'w option"
  cs_deselect :: "'w \<Rightarrow> 'w option"
  cs_select :: "'w \<Rightarrow> 'w option"
  send_1byte :: "u8 \<Rightarrow> u8 \<Rightarrow> 'w \<Rightarrow> 'w option"
  send_2bytes :: "u8 \<Rightarrow> u16 \<Rightarrow> 'w \<Rightarrow> 'w option"
  send_short_cmd :: "u8 \<Rightarrow> 'w \<Rightarrow> (u8 \<times> 'w) option"
  read_1byte :: "u8 \<Rightarrow> 'w \<Rightarrow> (u8 \<times> 'w) option"
  read_2bytes :: "u8 \<Rightarrow> 'w \<Rightarrow> (u16 \<times> 'w) option"

record enc28j60 =
  bank :: Bank_t
  enc_header :: ETH_rx_header_t
  next_rx_packet_ptr :: u16
  tx_buff_ptr :: u16

record MAC_addr_t =
  addr1 :: u8
  addr2 :: u8
  addr3 :: u8
  addr4 :: u8
  addr5 :: u8
  addr6 :: u8

type_synonym 'w enc_st = "enc28j60 \<times> 'w"

section \<open>Reset and bank selection\<close>

definition enc28j60_soft_reset :: "'w enc28j60_io_t \<Rightarrow> 'w enc_st \<Rightarrow> 'w enc_st option" where
  "enc28j60_soft_reset io s =
     (case s of (dev, w) \<Rightarrow>
      do { w \<leftarrow> cs_select io w;
           (_, w) \<leftarrow> send_short_cmd io (opcode SystemResetCommand OR SOFT_RESET_ARG) w;
           w \<leftarrow> cs_deselect io w;
           Some (dev, w) })"

definition enc28j60_bank_changing :: "'w enc28j60_io_t \<Rightarrow> Bank_t \<Rightarrow> 'w enc_st \<Rightarrow> 'w enc_st option" where
  "enc28j60_bank_changing io new_bank s =
     (case s of (dev, w) \<Rightarrow>
      do { w \<leftarrow> cs_select io w;
           (tmp, w) \<leftarrow> read_1byte io (opcode ReadControlRegister OR reg_addr ECON1) w;
           let tmp = bf_put BSEL 2 (bank_val new_bank) tmp;
           w \<leftarrow> cs_deselect io w;
           w \<leftarrow> cs_select io w;
           w \<leftarrow> send_1byte io (opcode WriteControlRegister OR reg_addr ECON1) tmp w;
           w \<leftarrow> cs_deselect io w;
           Some (dev\<lparr>bank := new_bank\<rparr>, w) })"

text \<open>The guard at the head of the register operations.\<close>

definition select_bank :: "'w enc28j60_io_t \<Rightarrow> Reg_t \<Rightarrow> 'w enc_st \<Rightarrow> 'w enc_st option" where
  "select_bank io reg s =
     (if bank (fst s) \<noteq> reg_bank reg \<and> reg_bank reg \<noteq> Common
      then enc28j60_bank_changing io (reg_bank reg) s else Some s)"

section \<open>Reading a register\<close>

text \<open>The loop \<^verbatim>\<open>do { select; state = read_2bytes(MISTAT); deselect; } while (BUSY == 1)\<close>.\<close>

definition poll_mistat :: "'w enc28j60_io_t \<Rightarrow> 'w \<Rightarrow> 'w option" where
  "poll_mistat io = do_while (\<lambda>w.
     do { w \<leftarrow> cs_select io w;
          (state, w) \<leftarrow> read_2bytes io (opcode ReadControlRegister OR reg_addr MISTAT) w;
          w \<leftarrow> cs_deselect io w;
          Some (bf_get BUSY state, w) })"

text \<open>The case \<open>PHY_R\<close>.  (The 200 \<^verbatim>\<open>__nop()\<close> between the command and the poll change no state.)\<close>

definition read_phy :: "'w enc28j60_io_t \<Rightarrow> Reg_t \<Rightarrow> 'w enc_st \<Rightarrow> (u16 \<times> 'w enc_st) option" where
  "read_phy io reg s =
     do { (dev, w) \<leftarrow> enc28j60_bank_changing io (reg_bank MIREGADR) s;
          w \<leftarrow> cs_select io w;
          (t, w) \<leftarrow> read_2bytes io (opcode ReadControlRegister OR reg_addr MICMD) w;
          let tmp = lo8 t;
          w \<leftarrow> cs_deselect io w;
          w \<leftarrow> cs_select io w;
          w \<leftarrow> send_1byte io (opcode WriteControlRegister OR reg_addr MIREGADR) (reg_addr reg) w;
          w \<leftarrow> cs_deselect io w;
          w \<leftarrow> cs_select io w;
          let tmp = bf_set MIIRD tmp;
          w \<leftarrow> send_1byte io (opcode WriteControlRegister OR reg_addr MICMD) tmp w;
          w \<leftarrow> cs_deselect io w;
          (dev, w) \<leftarrow> enc28j60_bank_changing io (reg_bank MISTAT) (dev, w);
          w \<leftarrow> poll_mistat io w;
          w \<leftarrow> cs_deselect io w;
          w \<leftarrow> cs_select io w;
          (dev, w) \<leftarrow> enc28j60_bank_changing io (reg_bank MIREGADR) (dev, w);
          w \<leftarrow> cs_select io w;
          (t, w) \<leftarrow> read_2bytes io (opcode ReadControlRegister OR reg_addr MICMD) w;
          let tmp = lo8 t;
          w \<leftarrow> cs_deselect io w;
          w \<leftarrow> cs_select io w;
          let tmp = bf_clear MIIRD tmp;
          w \<leftarrow> send_1byte io (opcode WriteControlRegister OR reg_addr MICMD) tmp w;
          w \<leftarrow> cs_deselect io w;
          w \<leftarrow> cs_select io w;
          (l, w) \<leftarrow> read_2bytes io (opcode ReadControlRegister OR reg_addr MIRDL) w;
          let ret = l AND 0xff;
          w \<leftarrow> cs_deselect io w;
          w \<leftarrow> cs_select io w;
          (h, w) \<leftarrow> read_2bytes io (opcode ReadControlRegister OR (reg_addr MIRDL + 1)) w;
          Some (ret OR push_bit 8 h, (dev, w)) }"

definition enc28j60_read_reg :: "'w enc28j60_io_t \<Rightarrow> Reg_t \<Rightarrow> 'w enc_st \<Rightarrow> (u16 \<times> 'w enc_st) option" where
  "enc28j60_read_reg io reg s =
     do { (dev, w) \<leftarrow> select_bank io reg s;
          w \<leftarrow> cs_select io w;
          (ret, (dev, w)) \<leftarrow>
            (case reg_type reg of
               ETH_R \<Rightarrow>
                 do { (b, w) \<leftarrow> read_1byte io (opcode ReadControlRegister OR reg_addr reg) w;
                      let ret = (ucast b :: u16);
                      if reg_length reg = 2
                      then do { w \<leftarrow> cs_deselect io w;
                                w \<leftarrow> cs_select io w;
                                (b, w) \<leftarrow> read_1byte io (opcode ReadControlRegister OR (reg_addr reg + 1)) w;
                                Some (ret OR push_bit 8 (ucast b), (dev, w)) }
                      else Some (ret, (dev, w)) }
             | PHY_R \<Rightarrow> read_phy io reg (dev, w)
             | _ \<Rightarrow>
                 do { (v, w) \<leftarrow> read_2bytes io (opcode ReadControlRegister OR reg_addr reg) w;
                      let ret = v AND 0xff;
                      if reg_length reg = 2
                      then do { w \<leftarrow> cs_deselect io w;
                                w \<leftarrow> cs_select io w;
                                (v, w) \<leftarrow> read_2bytes io (opcode ReadControlRegister OR (reg_addr reg + 1)) w;
                                Some (ret OR push_bit 8 v, (dev, w)) }
                      else Some (ret, (dev, w)) });
          w \<leftarrow> cs_deselect io w;
          Some (ret, (dev, w)) }"

section \<open>Writing a register\<close>

text \<open>The loop \<^verbatim>\<open>do { state = read_reg(&MISTAT); deselect; select; } while (BUSY == 1)\<close>.\<close>

definition write_phy_wait :: "'w enc28j60_io_t \<Rightarrow> 'w enc_st \<Rightarrow> 'w enc_st option" where
  "write_phy_wait io = do_while (\<lambda>s.
     do { (state, (dev, w)) \<leftarrow> enc28j60_read_reg io MISTAT s;
          w \<leftarrow> cs_deselect io w;
          w \<leftarrow> cs_select io w;
          Some (bf_get BUSY state, (dev, w)) })"

definition enc28j60_write_reg :: "'w enc28j60_io_t \<Rightarrow> Reg_t \<Rightarrow> u16 \<Rightarrow> 'w enc_st \<Rightarrow> 'w enc_st option" where
  "enc28j60_write_reg io reg value s =
     do { (dev, w) \<leftarrow> select_bank io reg s;
          w \<leftarrow> cs_select io w;
          (dev, w) \<leftarrow>
            (case reg_type reg of
               PHY_R \<Rightarrow>
                 do { w \<leftarrow> send_1byte io (opcode WriteControlRegister OR reg_addr MIREGADR) (reg_addr reg) w;
                      w \<leftarrow> cs_deselect io w;
                      w \<leftarrow> cs_select io w;
                      w \<leftarrow> send_1byte io (opcode WriteControlRegister OR reg_addr MIWRL) (lo8 value) w;
                      w \<leftarrow> cs_deselect io w;
                      w \<leftarrow> cs_select io w;
                      w \<leftarrow> send_1byte io (opcode WriteControlRegister OR (reg_addr MIWRL + 1)) (hi8 value) w;
                      w \<leftarrow> cs_deselect io w;
                      w \<leftarrow> cs_select io w;
                      write_phy_wait io (dev, w) }
             | _ \<Rightarrow>
                 do { w \<leftarrow> send_1byte io (opcode WriteControlRegister OR reg_addr reg) (lo8 value) w;
                      if reg_length reg = 2
                      then do { w \<leftarrow> cs_deselect io w;
                                w \<leftarrow> cs_select io w;
                                w \<leftarrow> send_1byte io (opcode WriteControlRegister OR (reg_addr reg + 1)) (hi8 value) w;
                                Some (dev, w) }
                      else Some (dev, w) });
          w \<leftarrow> cs_deselect io w;
          Some (dev, w) }"

section \<open>Buffer memory\<close>

text \<open>
  \<^verbatim>\<open>for(int16_t i = 0; i < buf_lng; i++) send_short_cmd(*(buf + i))\<close>: the counter is signed and
  wraps from 32767 to -32768, while the bound is unsigned; both are compared as \<open>int\<close>.  The memory
  around \<open>buf\<close> is a function of the offset.
\<close>

definition write_buf_loop ::
    "'w enc28j60_io_t \<Rightarrow> (int \<Rightarrow> u8) \<Rightarrow> u16 \<Rightarrow> u16 \<times> 'w \<Rightarrow> (u16 \<times> 'w) option" where
  "write_buf_loop io buf buf_lng = do_while (\<lambda>(i, w).
     if sint i < uint buf_lng
     then do { (_, w) \<leftarrow> send_short_cmd io (buf (sint i)) w;
               Some (True, (i + 1, w)) }
     else Some (False, (i, w)))"

definition enc28j60_write_buf :: "'w enc28j60_io_t \<Rightarrow> (int \<Rightarrow> u8) \<Rightarrow> u16 \<Rightarrow> 'w enc_st \<Rightarrow> 'w enc_st option" where
  "enc28j60_write_buf io buf buf_lng s =
     (case s of (dev, w) \<Rightarrow>
      do { w \<leftarrow> cs_select io w;
           (_, w) \<leftarrow> send_short_cmd io (opcode WriteBufferMemory OR BUFFER_MEMORY_ARG) w;
           (_, w) \<leftarrow> write_buf_loop io buf buf_lng (0, w);
           w \<leftarrow> cs_deselect io w;
           Some (dev, w) })"

text \<open>
  \<^verbatim>\<open>for(uint16_t i = 0; i < length; i++) *(buf + i) = send_short_cmd(0xFF)\<close>: the bytes stored at
  \<open>buf\<close> are the result.
\<close>

primrec read_buf_loop :: "'w enc28j60_io_t \<Rightarrow> nat \<Rightarrow> 'w \<Rightarrow> (u8 list \<times> 'w) option" where
  "read_buf_loop io 0 w = Some ([], w)"
| "read_buf_loop io (Suc n) w =
     do { (b, w) \<leftarrow> send_short_cmd io 0xFF w;
          (bs, w) \<leftarrow> read_buf_loop io n w;
          Some (b # bs, w) }"

definition enc28j60_read_buf :: "'w enc28j60_io_t \<Rightarrow> u16 \<Rightarrow> 'w enc_st \<Rightarrow> (u8 list \<times> 'w enc_st) option" where
  "enc28j60_read_buf io lngth s =
     (case s of (dev, w) \<Rightarrow>
      do { w \<leftarrow> cs_select io w;
           (_, w) \<leftarrow> send_short_cmd io (opcode ReadBufferMemory OR BUFFER_MEMORY_ARG) w;
           (bs, w) \<leftarrow> read_buf_loop io (unat lngth) w;
           w \<leftarrow> cs_deselect io w;
           Some (bs, (dev, w)) })"

section \<open>Bit field commands\<close>

definition enc28j60_bitfield_set :: "'w enc28j60_io_t \<Rightarrow> Reg_t \<Rightarrow> u8 \<Rightarrow> 'w enc_st \<Rightarrow> 'w enc_st option" where
  "enc28j60_bitfield_set io reg msk s =
     (if reg_type reg = ETH_R
      then do { (dev, w) \<leftarrow> select_bank io reg s;
                w \<leftarrow> cs_select io w;
                w \<leftarrow> send_1byte io (opcode BitFieldSet OR reg_addr reg) msk w;
                w \<leftarrow> cs_deselect io w;
                Some (dev, w) }
      else Some s)"

definition enc28j60_bitfield_clear :: "'w enc28j60_io_t \<Rightarrow> Reg_t \<Rightarrow> u8 \<Rightarrow> 'w enc_st \<Rightarrow> 'w enc_st option" where
  "enc28j60_bitfield_clear io reg msk s =
     (if reg_type reg = ETH_R
      then do { (dev, w) \<leftarrow> select_bank io reg s;
                w \<leftarrow> cs_select io w;
                w \<leftarrow> send_1byte io (opcode BitFieldClear OR reg_addr reg) msk w;
                w \<leftarrow> cs_deselect io w;
                Some (dev, w) }
      else Some s)"

section \<open>Self test and initialisation\<close>

definition cstr :: "string \<Rightarrow> u8 list" where "cstr s = map of_char s"

definition log_msg :: "'w enc28j60_io_t \<Rightarrow> string \<Rightarrow> 'w enc_st \<Rightarrow> 'w enc_st option" where
  "log_msg io msg s = (case s of (dev, w) \<Rightarrow> do { w \<leftarrow> uart_send_msg io (cstr msg) w; Some (dev, w) })"

text \<open>A failed test logs and spins in \<^verbatim>\<open>while(1){}\<close>: the function does not return.\<close>

definition test_verdict :: "'w enc28j60_io_t \<Rightarrow> bool \<Rightarrow> 'w enc_st \<Rightarrow> 'w enc_st option" where
  "test_verdict io ok s =
     (if \<not> ok then do { _ \<leftarrow> log_msg io (''Test failed'' @ [CHR 0x0A]) s; None }
      else log_msg io (''Test passed'' @ [CHR 0x0A]) s)"

text \<open>\<^verbatim>\<open>do { answer = read_reg(&ESTAT); } while (!CLKRDY)\<close>\<close>

definition poll_clkrdy :: "'w enc28j60_io_t \<Rightarrow> 'w enc_st \<Rightarrow> 'w enc_st option" where
  "poll_clkrdy io = do_while (\<lambda>s.
     do { (status, s) \<leftarrow> enc28j60_read_reg io ESTAT s;
          Some (\<not> bf_get CLKRDY status, s) })"

definition ll_test :: "'w enc28j60_io_t \<Rightarrow> 'w enc_st \<Rightarrow> 'w enc_st option" where
  "ll_test io s =
     do { (dev, w) \<leftarrow> Some s;
          w \<leftarrow> uart_init io w;
          let s = (dev, w);
          let test_val = (0x1234 :: u16);
          s \<leftarrow> enc28j60_write_reg io ERXSTL test_val s;
          (answer, s) \<leftarrow> enc28j60_read_reg io ERXSTL s;
          s \<leftarrow> log_msg io ('' MidWare Test1: Trying to write and read the ETH register'' @ [CHR 0x0A]) s;
          s \<leftarrow> test_verdict io (answer = test_val) s;
          s \<leftarrow> poll_clkrdy io s;
          s \<leftarrow> enc28j60_write_reg io MAMXFLL test_val s;
          (answer, s) \<leftarrow> enc28j60_read_reg io MAMXFLL s;
          s \<leftarrow> log_msg io (''MidWare Test2: Trying to write and read the MAC register'' @ [CHR 0x0A]) s;
          s \<leftarrow> test_verdict io (answer = test_val) s;
          let led_on = (0x3883 :: u16);
          s \<leftarrow> enc28j60_write_reg io PHLCON led_on s;
          (answer, s) \<leftarrow> enc28j60_read_reg io PHLCON s;
          s \<leftarrow> log_msg io (''MidWare Test3: Trying to write and read the PHY register'' @ [CHR 0x0A]) s;
          s \<leftarrow> test_verdict io (drop_bit 1 answer = drop_bit 1 led_on) s;
          let test_vals = [0x12, 0x34, 0x56, 0x78];
          (answer, s) \<leftarrow> enc28j60_read_reg io ECON2 s;
          s \<leftarrow> enc28j60_write_reg io ECON2 (bf_set AUTOINC answer) s;
          s \<leftarrow> enc28j60_write_reg io ERXSTL 0x00 s;
          s \<leftarrow> enc28j60_write_reg io ERXNDL 0xfff s;
          s \<leftarrow> enc28j60_write_reg io EWRPTL 0x1000 s;
          s \<leftarrow> enc28j60_write_buf io (\<lambda>i. test_vals ! nat i) 4 s;
          s \<leftarrow> enc28j60_write_reg io ERDPTL 0x1000 s;
          (returned_vals, s) \<leftarrow> enc28j60_read_buf io 4 s;
          s \<leftarrow> log_msg io (''MidWare Test4: Trying to write and read buffer memory'' @ [CHR 0x0A]) s;
          s \<leftarrow> test_verdict io (returned_vals = test_vals) s;
          enc28j60_soft_reset io s }"

text \<open>\<open>LL_TEST\<close> and \<open>LOGGING\<close> are both defined.\<close>

definition enc28j60_ll_init :: "'w enc28j60_io_t \<Rightarrow> MAC_addr_t \<Rightarrow> 'w enc_st \<Rightarrow> 'w enc_st option" where
  "enc28j60_ll_init io my_addr s =
     do { (dev, w) \<leftarrow> Some s;
          w \<leftarrow> spi_init io w;
          s \<leftarrow> enc28j60_soft_reset io (dev, w);
          s \<leftarrow> ll_test io s;
          s \<leftarrow> enc28j60_write_reg io ERXSTL RX_BUFFER_START_ADDR s;
          s \<leftarrow> enc28j60_write_reg io ERXNDL RX_BUFFER_END_ADDR s;
          s \<leftarrow> enc28j60_write_reg io ERXRDPTL RX_BUFFER_END_ADDR s;
          (status, s) \<leftarrow> enc28j60_read_reg io ERXFCON s;
          s \<leftarrow> enc28j60_write_reg io ERXFCON (bf_set CRCEN status) s;
          (status, s) \<leftarrow> enc28j60_read_reg io ECON2 s;
          s \<leftarrow> enc28j60_write_reg io ECON2 (bf_set AUTOINC status) s;
          s \<leftarrow> poll_clkrdy io s;
          (status, s) \<leftarrow> enc28j60_read_reg io MACON1 s;
          s \<leftarrow> enc28j60_write_reg io MACON1 (bf_set RXPAUS (bf_set TXPAUS (bf_set MARXEN status))) s;
          (status, s) \<leftarrow> enc28j60_read_reg io MACON3 s;
          s \<leftarrow> enc28j60_write_reg io MACON3
                 (bf_set FULLDPX (bf_set FRMLNEN (bf_set TXCRCEN (bf_put PADCFG 3 MACON3_60B_PADDED status)))) s;
          s \<leftarrow> enc28j60_write_reg io MAMXFLL 1518 s;
          s \<leftarrow> enc28j60_write_reg io MABBIPG 0x15 s;
          s \<leftarrow> enc28j60_write_reg io MAADR1 (ucast (addr1 my_addr)) s;
          s \<leftarrow> enc28j60_write_reg io MAADR2 (ucast (addr2 my_addr)) s;
          s \<leftarrow> enc28j60_write_reg io MAADR3 (ucast (addr3 my_addr)) s;
          s \<leftarrow> enc28j60_write_reg io MAADR4 (ucast (addr4 my_addr)) s;
          s \<leftarrow> enc28j60_write_reg io MAADR5 (ucast (addr5 my_addr)) s;
          s \<leftarrow> enc28j60_write_reg io MAADR6 (ucast (addr6 my_addr)) s;
          (status, s) \<leftarrow> enc28j60_read_reg io PHCON1 s;
          s \<leftarrow> enc28j60_write_reg io PHCON1 (bf_set PDPXMD status) s;
          (status, s) \<leftarrow> enc28j60_read_reg io ECON1 s;
          s \<leftarrow> enc28j60_write_reg io ECON1 (bf_set RXEN status) s;
          log_msg io (''ECN28J60 init completed'' @ [CHR 0x0A]) s }"

end
