(* ===== verification/Enc_Iface.thy ===== *)
theory Enc_Iface
  imports Enc_LL
begin

unbundle bit_operations_syntax

text \<open>
  The interface layer, \<^verbatim>\<open>enc28j60/interface/src/enc28j60.c\<close>: initialisation, reception of a
  packet from the ring buffer, and transmission, in one go or piece by piece.
\<close>

section \<open>Initialisation\<close>

text \<open>The assignments to \<^verbatim>\<open>dev->io\<close>.\<close>

definition port_io :: "env \<Rightarrow> hw enc28j60_io_t" where
  "port_io E = \<lparr>
     uart_init = enc28j60_hw_uart_init,
     uart_send_msg = enc28j60_hw_send_log_msg E,
     spi_init = enc28j60_hw_spi_init,
     cs_deselect = enc28j60_hw_cs_high,
     cs_select = enc28j60_hw_cs_low,
     send_1byte = enc28j60_hw_send_data_8b E,
     send_2bytes = enc28j60_hw_send_data_16b E,
     send_short_cmd = enc28j60_hw_send_short_cmd E,
     read_1byte = enc28j60_hw_read_data_8b E,
     read_2bytes = enc28j60_hw_read_data_16b E\<rparr>"

definition enc28j60_init :: "'w enc28j60_io_t \<Rightarrow> MAC_addr_t \<Rightarrow> 'w enc_st \<Rightarrow> 'w enc_st option" where
  "enc28j60_init io my_addr s =
     (case s of (dev, w) \<Rightarrow>
      let dev = dev\<lparr>bank := Common\<rparr>;
          dev = dev\<lparr>next_rx_packet_ptr := RX_BUFFER_START_ADDR\<rparr>;
          dev = dev\<lparr>tx_buff_ptr := TX_BUFFER_START_ADDR\<rparr>
      in enc28j60_ll_init io my_addr (dev, w))"

section \<open>Reception\<close>

text \<open>The six header bytes land in the packed struct \<open>enc_header\<close>, little endian.\<close>

definition ENC_HEADER_SIZE :: u16 where "ENC_HEADER_SIZE = 6"

definition header_of_bytes :: "u8 list \<Rightarrow> ETH_rx_header_t" where
  "header_of_bytes bs = \<lparr>next_packet_ptr = le16 (bs ! 0) (bs ! 1), byte_count = le16 (bs ! 2) (bs ! 3),
     status = le16 (bs ! 4) (bs ! 5)\<rparr>"

definition enc28j60_read_rx_header :: "'w enc28j60_io_t \<Rightarrow> 'w enc_st \<Rightarrow> 'w enc_st option" where
  "enc28j60_read_rx_header io s =
     do { (bs, (dev, w)) \<leftarrow> enc28j60_read_buf io ENC_HEADER_SIZE s;
          Some (dev\<lparr>enc_header := header_of_bytes bs\<rparr>, w) }"

definition enc28j60_read_payload :: "'w enc28j60_io_t \<Rightarrow> u16 \<Rightarrow> 'w enc_st \<Rightarrow> (u8 list \<times> 'w enc_st) option" where
  "enc28j60_read_payload io sz s = enc28j60_read_buf io sz s"

text \<open>The length that is copied out: the CRC is dropped, the rest is cut to the buffer.\<close>

definition rx_copy_len :: "u16 \<Rightarrow> u16 \<Rightarrow> u16" where
  "rx_copy_len count maxlen =
     (let len = (if 4 < count then count - 4 else count) in if maxlen < len then maxlen else len)"

text \<open>The result is the length and the bytes stored at \<open>buf\<close>.\<close>

definition enc28j60_receive_packet ::
    "'w enc28j60_io_t \<Rightarrow> u16 \<Rightarrow> 'w enc_st \<Rightarrow> ((u16 \<times> u8 list) \<times> 'w enc_st) option" where
  "enc28j60_receive_packet io maxlen s =
     do { (cnt, s) \<leftarrow> enc28j60_read_reg io EPKTCNT s;
          if cnt \<noteq> 0
          then do { s \<leftarrow> enc28j60_write_reg io ERDPTL (next_rx_packet_ptr (fst s)) s;
                    s \<leftarrow> enc28j60_read_rx_header io s;
                    let len = rx_copy_len (byte_count (enc_header (fst s))) maxlen;
                    (buf, (dev, w)) \<leftarrow> enc28j60_read_buf io len s;
                    let dev = dev\<lparr>next_rx_packet_ptr := next_packet_ptr (enc_header dev)\<rparr>;
                    (dev, w) \<leftarrow> enc28j60_write_reg io ERDPTL (next_rx_packet_ptr dev) (dev, w);
                    (dev, w) \<leftarrow>
                      (if next_packet_ptr (enc_header dev) = RX_BUFFER_START_ADDR
                       then enc28j60_write_reg io ERXRDPTL RX_BUFFER_END_ADDR (dev, w)
                       else enc28j60_write_reg io ERXRDPTL (next_packet_ptr (enc_header dev) - 1) (dev, w));
                    (v, (dev, w)) \<leftarrow> enc28j60_read_reg io ECON2 (dev, w);
                    let reg_data = bf_set PKTDEC (lo8 v);
                    s \<leftarrow> enc28j60_write_reg io ECON2 (ucast reg_data) (dev, w);
                    Some ((len, buf), s) }
          else Some ((0, []), s) }"

section \<open>Transmission\<close>

text \<open>\<^verbatim>\<open>do { tmp = read_reg(&ECON1); } while (TXRTS)\<close>\<close>

definition poll_txrts :: "'w enc28j60_io_t \<Rightarrow> 'w enc_st \<Rightarrow> 'w enc_st option" where
  "poll_txrts io = do_while (\<lambda>s.
     do { (tmp, s) \<leftarrow> enc28j60_read_reg io ECON1 s;
          Some (bf_get TXRTS tmp, s) })"

definition enc28j60_send_packet :: "'w enc28j60_io_t \<Rightarrow> (int \<Rightarrow> u8) \<Rightarrow> u16 \<Rightarrow> 'w enc_st \<Rightarrow> 'w enc_st option" where
  "enc28j60_send_packet io buf lngth s =
     do { s \<leftarrow> enc28j60_write_reg io EWRPTL TX_BUFFER_START_ADDR s;
          s \<leftarrow> enc28j60_write_buf io buf lngth s;
          s \<leftarrow> poll_txrts io s;
          s \<leftarrow> enc28j60_write_reg io ETXNDL (TX_BUFFER_START_ADDR + lngth - 1) s;
          s \<leftarrow> enc28j60_write_reg io ETXSTL TX_BUFFER_START_ADDR s;
          (tmp16, s) \<leftarrow> enc28j60_read_reg io ECON1 s;
          s \<leftarrow> enc28j60_write_reg io ECON1 (bf_set TXRTS tmp16) s;
          poll_txrts io s }"

definition enc28j60_write_to_tx :: "'w enc28j60_io_t \<Rightarrow> (int \<Rightarrow> u8) \<Rightarrow> u16 \<Rightarrow> 'w enc_st \<Rightarrow> 'w enc_st option" where
  "enc28j60_write_to_tx io buf lngth s =
     do { s \<leftarrow> enc28j60_write_reg io EWRPTL (tx_buff_ptr (fst s)) s;
          (dev, w) \<leftarrow> enc28j60_write_buf io buf lngth s;
          Some (dev\<lparr>tx_buff_ptr := tx_buff_ptr dev + lngth\<rparr>, w) }"

definition enc28j60_ready_to_send :: "'w enc28j60_io_t \<Rightarrow> 'w enc_st \<Rightarrow> 'w enc_st option" where
  "enc28j60_ready_to_send io s =
     do { s \<leftarrow> poll_txrts io s;
          s \<leftarrow> enc28j60_write_reg io ETXNDL (tx_buff_ptr (fst s) - 1) s;
          s \<leftarrow> enc28j60_write_reg io ETXSTL TX_BUFFER_START_ADDR s;
          (tmp, s) \<leftarrow> enc28j60_read_reg io ECON1 s;
          s \<leftarrow> enc28j60_write_reg io ECON1 (bf_set TXRTS tmp) s;
          (dev, w) \<leftarrow> poll_txrts io s;
          Some (dev\<lparr>tx_buff_ptr := TX_BUFFER_START_ADDR\<rparr>, w) }"

definition enc28j60_prepare_to_tx :: "'w enc28j60_io_t \<Rightarrow> 'w enc_st \<Rightarrow> 'w enc_st option" where
  "enc28j60_prepare_to_tx io s = (case s of (dev, w) \<Rightarrow> Some (dev\<lparr>tx_buff_ptr := TX_BUFFER_START_ADDR\<rparr>, w))"

end
