(* ===== verification/Enc_Sim.thy ===== *)
theory Enc_Sim
  imports Enc_Iface
begin

unbundle bit_operations_syntax

text \<open>
  The contract between the middle layer and whatever is behind its function pointers, as the
  locale \<open>enc_io\<close>: every IO function returns, appends exactly its own events to the trace of the
  wire, and delivers the bytes that the chip answers.  Under the contract every driver function
  simulates its run on an ideal wire (\<open>wire_io\<close>), whose state is nothing but that trace.  The
  port functions of \<open>Enc_Port\<close> satisfy the contract (interpretation \<open>port\<close>).
\<close>

section \<open>The ideal wire\<close>

definition wire_xfer :: "(spi_event list \<Rightarrow> u8) \<Rightarrow> u8 \<Rightarrow> spi_event list \<Rightarrow> u8 \<times> spi_event list" where
  "wire_xfer reply b h = (reply (h @ [Xfer b]), h @ [Xfer b])"

definition wire_io :: "(spi_event list \<Rightarrow> u8) \<Rightarrow> spi_event list enc28j60_io_t" where
  "wire_io reply = \<lparr>
     uart_init = Some,
     uart_send_msg = (\<lambda>msg. Some),
     spi_init = (\<lambda>h. Some (h @ [CsHigh])),
     cs_deselect = (\<lambda>h. Some (h @ [CsHigh])),
     cs_select = (\<lambda>h. Some (h @ [CsLow])),
     send_1byte = (\<lambda>r d h. Some (h @ [Xfer r, Xfer d])),
     send_2bytes = (\<lambda>r d h. Some (h @ [Xfer r, Xfer (hi8 d), Xfer (lo8 d)])),
     send_short_cmd = (\<lambda>c h. Some (reply (h @ [Xfer c]), h @ [Xfer c])),
     read_1byte = (\<lambda>r h. Some (reply (h @ [Xfer r, Xfer 0]), h @ [Xfer r, Xfer 0])),
     read_2bytes = (\<lambda>r h. Some (le16 (reply (h @ [Xfer r, Xfer 0, Xfer 0])) (reply (h @ [Xfer r, Xfer 0])),
                               h @ [Xfer r, Xfer 0, Xfer 0]))\<rparr>"

lemma wire_io_sel [wire_simps]:
  "uart_init (wire_io reply) h = Some h"
  "uart_send_msg (wire_io reply) m h = Some h"
  "spi_init (wire_io reply) h = Some (h @ [CsHigh])"
  "cs_deselect (wire_io reply) h = Some (h @ [CsHigh])"
  "cs_select (wire_io reply) h = Some (h @ [CsLow])"
  "send_1byte (wire_io reply) r d h = Some (h @ [Xfer r, Xfer d])"
  "send_2bytes (wire_io reply) r v h = Some (h @ [Xfer r, Xfer (hi8 v), Xfer (lo8 v)])"
  "send_short_cmd (wire_io reply) c h = Some (reply (h @ [Xfer c]), h @ [Xfer c])"
  "read_1byte (wire_io reply) r h = Some (reply (h @ [Xfer r, Xfer 0]), h @ [Xfer r, Xfer 0])"
  "read_2bytes (wire_io reply) r h =
     Some (le16 (reply (h @ [Xfer r, Xfer 0, Xfer 0])) (reply (h @ [Xfer r, Xfer 0])), h @ [Xfer r, Xfer 0, Xfer 0])"
  by (simp_all add: wire_io_def)

section \<open>Simulation of option computations\<close>

text \<open>Whenever the ideal computation returns, the concrete one does, with a related result.\<close>

definition osim :: "('a \<Rightarrow> 'b \<Rightarrow> bool) \<Rightarrow> 'a option \<Rightarrow> 'b option \<Rightarrow> bool" where
  "osim R m1 m2 \<longleftrightarrow> (\<forall>y. m2 = Some y \<longrightarrow> (\<exists>x. m1 = Some x \<and> R x y))"

lemma osim_Some [simp]: "osim R (Some x) (Some y) \<longleftrightarrow> R x y"
  by (simp add: osim_def)

lemma osim_None [simp]: "osim R m None"
  by (simp add: osim_def)

lemma osim_bind:
  "osim R m1 m2 \<Longrightarrow> (\<And>x y. R x y \<Longrightarrow> osim S (f x) (g y)) \<Longrightarrow> osim S (Option.bind m1 f) (Option.bind m2 g)"
  by (cases m2) (auto simp: osim_def)

lemma osim_if:
  "c = d \<Longrightarrow> (d \<Longrightarrow> osim R a a') \<Longrightarrow> (\<not> d \<Longrightarrow> osim R b b') \<Longrightarrow> osim R (if c then a else b) (if d then a' else b')"
  by simp

lemma osim_do_while:
  assumes body: "\<And>s s'. R s s' \<Longrightarrow> osim (rel_prod (=) R) (b1 s) (b2 s')" and init: "R s s'"
  shows "osim R (do_while b1 s) (do_while b2 s')"
proof -
  have "b = b2 \<longrightarrow> (\<forall>s. R s s' \<longrightarrow> osim R (do_while b1 s) (Some r))" if "do_while b s' = Some r" for b s' r
    using that
  proof (rule do_while.raw_induct [rotated], intro impI allI)
    fix dw b s' r s
    assume IH: "\<And>b s' r. dw b s' = Some r \<Longrightarrow> b = b2 \<longrightarrow> (\<forall>s. R s s' \<longrightarrow> osim R (do_while b1 s) (Some r))"
      and ret: "Option.bind (b s') (\<lambda>(again, s). if again then dw b s else Some s) = Some r"
      and b: "b = b2" and rel: "R s s'"
    from ret obtain again t' where t': "b2 s' = Some (again, t')" "(if again then dw b t' else Some t') = Some r"
      by (auto simp: bind_eq_Some_conv b)
    with body [OF rel] obtain t where t: "b1 s = Some (again, t)" "R t t'"
      by (auto simp: osim_def)
    show "osim R (do_while b1 s) (Some r)"
      using IH [of b2 t' r] t t' by (cases again) (auto simp: do_while_again do_while_stop b)
  qed
  with init show ?thesis by (auto simp: osim_def)
qed

section \<open>The contract\<close>

locale enc_io =
  fixes io :: "'w enc28j60_io_t"
    and boot :: "'w \<Rightarrow> bool"
    and ready :: "'w \<Rightarrow> bool"
    and trace :: "'w \<Rightarrow> spi_event list"
    and reply :: "spi_event list \<Rightarrow> u8"
  assumes ready_boot: "ready w \<Longrightarrow> boot w"
    and spi_init_law: "boot w \<Longrightarrow> \<exists>w'. spi_init io w = Some w' \<and> ready w' \<and> trace w' = trace w @ [CsHigh]"
    and uart_init_law: "ready w \<Longrightarrow> \<exists>w'. uart_init io w = Some w' \<and> ready w' \<and> trace w' = trace w"
    and uart_send_msg_law: "ready w \<Longrightarrow> \<exists>w'. uart_send_msg io m w = Some w' \<and> ready w' \<and> trace w' = trace w"
    and cs_deselect_law: "ready w \<Longrightarrow> \<exists>w'. cs_deselect io w = Some w' \<and> ready w' \<and> trace w' = trace w @ [CsHigh]"
    and cs_select_law: "ready w \<Longrightarrow> \<exists>w'. cs_select io w = Some w' \<and> ready w' \<and> trace w' = trace w @ [CsLow]"
    and send_1byte_law: "ready w \<Longrightarrow> \<exists>w'. send_1byte io r d w = Some w' \<and> ready w' \<and>
          trace w' = trace w @ [Xfer r, Xfer d]"
    and send_2bytes_law: "ready w \<Longrightarrow> \<exists>w'. send_2bytes io r v w = Some w' \<and> ready w' \<and>
          trace w' = trace w @ [Xfer r, Xfer (hi8 v), Xfer (lo8 v)]"
    and send_short_cmd_law: "ready w \<Longrightarrow> \<exists>w'. send_short_cmd io c w = Some (reply (trace w @ [Xfer c]), w') \<and>
          ready w' \<and> trace w' = trace w @ [Xfer c]"
    and read_1byte_law: "ready w \<Longrightarrow> \<exists>w'. read_1byte io r w = Some (reply (trace w @ [Xfer r, Xfer 0]), w') \<and>
          ready w' \<and> trace w' = trace w @ [Xfer r, Xfer 0]"
    and read_2bytes_law: "ready w \<Longrightarrow> \<exists>w'. read_2bytes io r w =
          Some (le16 (reply (trace w @ [Xfer r, Xfer 0, Xfer 0])) (reply (trace w @ [Xfer r, Xfer 0])), w') \<and>
          ready w' \<and> trace w' = trace w @ [Xfer r, Xfer 0, Xfer 0]"
begin

definition wrel :: "'w \<Rightarrow> spi_event list \<Rightarrow> bool" where
  "wrel w h \<longleftrightarrow> ready w \<and> trace w = h"

definition srel :: "'w enc_st \<Rightarrow> spi_event list enc_st \<Rightarrow> bool" where
  "srel = rel_prod (=) wrel"

lemma srel_pair [simp]: "srel (d, w) (d', h) \<longleftrightarrow> d = d' \<and> wrel w h"
  by (simp add: srel_def)

lemma io_sim:
  assumes "wrel w h"
  shows "osim wrel (uart_init io w) (uart_init (wire_io reply) h)"
    and "osim wrel (uart_send_msg io m w) (uart_send_msg (wire_io reply) m h)"
    and "osim wrel (cs_deselect io w) (cs_deselect (wire_io reply) h)"
    and "osim wrel (cs_select io w) (cs_select (wire_io reply) h)"
    and "osim wrel (send_1byte io r d w) (send_1byte (wire_io reply) r d h)"
    and "osim (rel_prod (=) wrel) (send_short_cmd io c w) (send_short_cmd (wire_io reply) c h)"
    and "osim (rel_prod (=) wrel) (read_1byte io r w) (read_1byte (wire_io reply) r h)"
    and "osim (rel_prod (=) wrel) (read_2bytes io r w) (read_2bytes (wire_io reply) r h)"
  using assms uart_init_law [of w] uart_send_msg_law [of w m] cs_deselect_law [of w] cs_select_law [of w]
    send_1byte_law [of w r d] send_short_cmd_law [of w c] read_1byte_law [of w r] read_2bytes_law [of w r]
  by (auto simp: osim_def wrel_def wire_simps)

text \<open>Composition rules, one for each shape of result, so that automation never has to choose.\<close>

lemma osim_bind_st:
  "osim srel m1 m2 \<Longrightarrow> (\<And>d w h. wrel w h \<Longrightarrow> osim S (f (d, w)) (g (d, h))) \<Longrightarrow>
   osim S (Option.bind m1 f) (Option.bind m2 g)"
  by (erule osim_bind) (auto simp: srel_def elim!: rel_prod.cases)

lemma osim_bind_rst:
  "osim (rel_prod (=) srel) m1 m2 \<Longrightarrow> (\<And>r d w h. wrel w h \<Longrightarrow> osim S (f (r, d, w)) (g (r, d, h))) \<Longrightarrow>
   osim S (Option.bind m1 f) (Option.bind m2 g)"
  by (erule osim_bind) (auto simp: srel_def elim!: rel_prod.cases)

lemma osim_bind_word:
  fixes m1 :: "('b::len word \<times> 'w) option"
  shows "osim (rel_prod (=) wrel) m1 m2 \<Longrightarrow> (\<And>r w h. wrel w h \<Longrightarrow> osim S (f (r, w)) (g (r, h))) \<Longrightarrow>
    osim S (Option.bind m1 f) (Option.bind m2 g)"
  by (erule osim_bind) (auto elim!: rel_prod.cases)

lemma osim_bind_bytes:
  fixes m1 :: "(u8 list \<times> 'w) option"
  shows "osim (rel_prod (=) wrel) m1 m2 \<Longrightarrow> (\<And>r w h. wrel w h \<Longrightarrow> osim S (f (r, w)) (g (r, h))) \<Longrightarrow>
    osim S (Option.bind m1 f) (Option.bind m2 g)"
  by (erule osim_bind) (auto elim!: rel_prod.cases)

lemma osim_bind_w:
  fixes m1 :: "'w option"
  shows "osim wrel m1 m2 \<Longrightarrow> (\<And>w h. wrel w h \<Longrightarrow> osim S (f w) (g h)) \<Longrightarrow>
    osim S (Option.bind m1 f) (Option.bind m2 g)"
  by (rule osim_bind)

lemmas osim_intros = io_sim osim_bind_rst osim_bind_st osim_bind_word osim_bind_bytes osim_bind_w

lemma soft_reset_sim:
  "wrel w h \<Longrightarrow> osim srel (enc28j60_soft_reset io (d, w)) (enc28j60_soft_reset (wire_io reply) (d, h))"
  by (auto simp: enc28j60_soft_reset_def intro!: osim_intros)

lemma bank_changing_sim:
  "wrel w h \<Longrightarrow>
   osim srel (enc28j60_bank_changing io b (d, w)) (enc28j60_bank_changing (wire_io reply) b (d, h))"
  by (auto simp: enc28j60_bank_changing_def Let_def intro!: osim_intros)

lemma select_bank_sim:
  "wrel w h \<Longrightarrow> osim srel (select_bank io r (d, w)) (select_bank (wire_io reply) r (d, h))"
  by (auto simp: select_bank_def intro!: bank_changing_sim)

lemma poll_mistat_sim:
  "wrel w h \<Longrightarrow> osim wrel (poll_mistat io w) (poll_mistat (wire_io reply) h)"
  by (auto simp: poll_mistat_def intro!: osim_do_while [of wrel] osim_intros)

lemma read_phy_sim:
  "wrel w h \<Longrightarrow> osim (rel_prod (=) srel) (read_phy io r (d, w)) (read_phy (wire_io reply) r (d, h))"
  by (auto simp: read_phy_def Let_def intro!: osim_intros bank_changing_sim poll_mistat_sim)

lemma read_reg_sim:
  "wrel w h \<Longrightarrow> osim (rel_prod (=) srel) (enc28j60_read_reg io r (d, w)) (enc28j60_read_reg (wire_io reply) r (d, h))"
  by (cases "reg_type r")
    (auto simp: enc28j60_read_reg_def Let_def intro!: osim_intros osim_if select_bank_sim read_phy_sim)

lemma write_phy_wait_sim:
  "wrel w h \<Longrightarrow> osim srel (write_phy_wait io (d, w)) (write_phy_wait (wire_io reply) (d, h))"
  by (auto simp: write_phy_wait_def intro!: osim_do_while [of srel] osim_intros read_reg_sim)

lemma write_reg_sim:
  "wrel w h \<Longrightarrow> osim srel (enc28j60_write_reg io r v (d, w)) (enc28j60_write_reg (wire_io reply) r v (d, h))"
  by (cases "reg_type r")
    (auto simp: enc28j60_write_reg_def Let_def intro!: osim_intros osim_if select_bank_sim write_phy_wait_sim)

lemma write_buf_loop_sim:
  "wrel w h \<Longrightarrow> osim (rel_prod (=) wrel) (write_buf_loop io b n (i, w)) (write_buf_loop (wire_io reply) b n (i, h))"
  by (auto simp: write_buf_loop_def intro!: osim_do_while [of "rel_prod (=) wrel"] osim_intros osim_if)

lemma write_buf_sim:
  "wrel w h \<Longrightarrow> osim srel (enc28j60_write_buf io b n (d, w)) (enc28j60_write_buf (wire_io reply) b n (d, h))"
  by (auto simp: enc28j60_write_buf_def intro!: osim_intros write_buf_loop_sim)

lemma read_buf_loop_sim:
  "wrel w h \<Longrightarrow> osim (rel_prod (=) wrel) (read_buf_loop io n w) (read_buf_loop (wire_io reply) n h)"
  by (induction n arbitrary: w h) (auto intro!: osim_intros)

lemma read_buf_sim:
  "wrel w h \<Longrightarrow> osim (rel_prod (=) srel) (enc28j60_read_buf io n (d, w)) (enc28j60_read_buf (wire_io reply) n (d, h))"
  by (auto simp: enc28j60_read_buf_def intro!: osim_intros read_buf_loop_sim)

lemma bitfield_set_sim:
  "wrel w h \<Longrightarrow> osim srel (enc28j60_bitfield_set io r m (d, w)) (enc28j60_bitfield_set (wire_io reply) r m (d, h))"
  by (auto simp: enc28j60_bitfield_set_def intro!: osim_intros select_bank_sim)

lemma bitfield_clear_sim:
  "wrel w h \<Longrightarrow> osim srel (enc28j60_bitfield_clear io r m (d, w)) (enc28j60_bitfield_clear (wire_io reply) r m (d, h))"
  by (auto simp: enc28j60_bitfield_clear_def intro!: osim_intros select_bank_sim)

lemma log_msg_sim:
  "wrel w h \<Longrightarrow> osim srel (log_msg io m (d, w)) (log_msg (wire_io reply) m (d, h))"
  by (auto simp: log_msg_def intro!: osim_intros)

lemma test_verdict_sim:
  "wrel w h \<Longrightarrow> osim srel (test_verdict io ok (d, w)) (test_verdict (wire_io reply) ok (d, h))"
  by (auto simp: test_verdict_def intro!: log_msg_sim osim_bind_st)

lemma poll_clkrdy_sim:
  "wrel w h \<Longrightarrow> osim srel (poll_clkrdy io (d, w)) (poll_clkrdy (wire_io reply) (d, h))"
  by (auto simp: poll_clkrdy_def intro!: osim_do_while [of srel] osim_intros read_reg_sim)

lemmas ll_sims = soft_reset_sim read_reg_sim write_reg_sim write_buf_sim read_buf_sim log_msg_sim
  test_verdict_sim poll_clkrdy_sim

lemma ll_test_sim:
  "wrel w h \<Longrightarrow> osim srel (ll_test io (d, w)) (ll_test (wire_io reply) (d, h))"
  by (auto simp: ll_test_def Let_def intro!: osim_intros ll_sims)

lemma ll_init_sim:
  assumes "boot w"
  shows "osim srel (enc28j60_ll_init io a (d, w)) (enc28j60_ll_init (wire_io reply) a (d, trace w))"
proof -
  have "osim wrel (spi_init io w) (spi_init (wire_io reply) (trace w))"
    using spi_init_law [OF assms] by (auto simp: osim_def wrel_def wire_simps)
  then show ?thesis
    by (auto simp: enc28j60_ll_init_def Let_def intro!: osim_intros ll_sims ll_test_sim)
qed

lemma init_sim:
  "boot w \<Longrightarrow> osim srel (enc28j60_init io a (d, w)) (enc28j60_init (wire_io reply) a (d, trace w))"
  by (simp add: enc28j60_init_def Let_def ll_init_sim)

lemma read_rx_header_sim:
  "wrel w h \<Longrightarrow> osim srel (enc28j60_read_rx_header io (d, w)) (enc28j60_read_rx_header (wire_io reply) (d, h))"
  by (auto simp: enc28j60_read_rx_header_def intro!: osim_intros read_buf_sim)

lemma receive_packet_sim:
  "wrel w h \<Longrightarrow> osim (rel_prod (=) srel) (enc28j60_receive_packet io n (d, w))
     (enc28j60_receive_packet (wire_io reply) n (d, h))"
  by (auto simp: enc28j60_receive_packet_def Let_def
      intro!: osim_intros osim_if ll_sims read_rx_header_sim)

lemma poll_txrts_sim:
  "wrel w h \<Longrightarrow> osim srel (poll_txrts io (d, w)) (poll_txrts (wire_io reply) (d, h))"
  by (auto simp: poll_txrts_def intro!: osim_do_while [of srel] osim_intros read_reg_sim)

lemma send_packet_sim:
  "wrel w h \<Longrightarrow> osim srel (enc28j60_send_packet io b n (d, w)) (enc28j60_send_packet (wire_io reply) b n (d, h))"
  by (auto simp: enc28j60_send_packet_def intro!: osim_intros ll_sims poll_txrts_sim)

lemma write_to_tx_sim:
  "wrel w h \<Longrightarrow> osim srel (enc28j60_write_to_tx io b n (d, w)) (enc28j60_write_to_tx (wire_io reply) b n (d, h))"
  by (auto simp: enc28j60_write_to_tx_def intro!: osim_intros ll_sims)

lemma ready_to_send_sim:
  "wrel w h \<Longrightarrow> osim srel (enc28j60_ready_to_send io (d, w)) (enc28j60_ready_to_send (wire_io reply) (d, h))"
  by (auto simp: enc28j60_ready_to_send_def intro!: osim_intros ll_sims poll_txrts_sim)

text \<open>The contract, unfolded to what a client states: the ideal run tells the concrete one.\<close>

lemma transfer_st:
  assumes "osim srel m m'" "m' = Some (d', h')"
  shows "\<exists>w'. m = Some (d', w') \<and> ready w' \<and> trace w' = h'"
  using assms by (auto simp: osim_def srel_def wrel_def)

lemma transfer_rst:
  assumes "osim (rel_prod (=) srel) m m'" "m' = Some (r, d', h')"
  shows "\<exists>w'. m = Some (r, d', w') \<and> ready w' \<and> trace w' = h'"
  using assms by (auto simp: osim_def srel_def wrel_def)

lemma wrelI: "ready w \<Longrightarrow> wrel w (trace w)"
  by (simp add: wrel_def)

end

section \<open>The port functions satisfy the contract\<close>

text \<open>At boot the data path is empty; \<^verbatim>\<open>spi_init\<close> then enables the interface.\<close>

definition hw_boot :: "hw \<Rightarrow> bool" where
  "hw_boot w \<longleftrightarrow> \<not> spi_rxne w \<and> spi_rx_left w = 0 \<and> spi_bsy_left w = 0"

lemma spi_idle_boot: "spi_idle w \<Longrightarrow> hw_boot w"
  by (simp add: spi_idle_def hw_boot_def)

lemma write_bsrr_idle [simp]: "spi_idle (gpioa_write_bsrr v w) = spi_idle w"
  by (simp add: gpioa_write_bsrr_def spi_idle_def Let_def)

lemma uart_wait_tc_frame: "spi_idle (uart_wait_tc n w) = spi_idle w \<and> hist (uart_wait_tc n w) = hist w"
  by (induction n arbitrary: w) (auto simp: spi_idle_def)

lemma usart_write_DR_frame: "spi_idle (usart_write_DR E b w) = spi_idle w \<and> hist (usart_write_DR E b w) = hist w"
  by (simp add: usart_write_DR_def spi_idle_def)

lemma send_log_8b_ok:
  "\<exists>w'. enc28j60_hw_send_log_8b E b w = Some w' \<and> spi_idle w' = spi_idle w \<and> hist w' = hist w"
  by (simp add: enc28j60_hw_send_log_8b_def Let_def uart_wait_tc_frame usart_write_DR_frame)

lemma send_log_msg_ok:
  "\<exists>w'. enc28j60_hw_send_log_msg E m w = Some w' \<and> spi_idle w' = spi_idle w \<and> hist w' = hist w"
proof (induction m arbitrary: w)
  case (Cons c m)
  from send_log_8b_ok [of E c w] obtain w1 where w1: "enc28j60_hw_send_log_8b E c w = Some w1"
    "spi_idle w1 = spi_idle w" "hist w1 = hist w" by blast
  with Cons.IH [of w1] show ?case by auto
qed simp

text \<open>One byte, sent and read back, followed by the wait for the end of the transfer or not.\<close>

lemma put_read_step:
  assumes "spi_idle w"
  obtains w1 where "spi_put E b w = Some w1" "read_DR w1 = (miso E (hist w @ [Xfer b]), w1\<lparr>spi_rxne := False\<rparr>)"
    "spi_idle (w1\<lparr>spi_rxne := False\<rparr>)" "hist w1 = hist w @ [Xfer b]" "spi_done (miso E (hist w @ [Xfer b])) w1"
  using spi_put_done [OF assms, of E b] read_DR_done by blast

lemma put_wait_step:
  assumes "spi_idle w"
  obtains w1 w2 where "spi_put E b w = Some w1" "snd (read_DR w1) = w1\<lparr>spi_rxne := False\<rparr>"
    "spi_wait_bsy (w1\<lparr>spi_rxne := False\<rparr>) = Some w2" "spi_idle w2" "hist w2 = hist w @ [Xfer b]"
proof -
  obtain w1 where w1: "spi_put E b w = Some w1" "read_DR w1 = (miso E (hist w @ [Xfer b]), w1\<lparr>spi_rxne := False\<rparr>)"
    "spi_idle (w1\<lparr>spi_rxne := False\<rparr>)" "hist w1 = hist w @ [Xfer b]"
    using put_read_step [OF assms] by metis
  from spi_wait_bsy_idle [OF w1(3)] w1 that show ?thesis by auto
qed

lemma hw_send_short_cmd_ok:
  assumes "spi_idle w"
  shows "\<exists>w'. enc28j60_hw_send_short_cmd E c w = Some (miso E (hist w @ [Xfer c]), w') \<and>
    spi_idle w' \<and> hist w' = hist w @ [Xfer c]"
proof -
  obtain w1 where w1: "spi_put E c w = Some w1" "hist w1 = hist w @ [Xfer c]"
    "spi_done (miso E (hist w @ [Xfer c])) w1"
    using put_read_step [OF assms, of E c] by metis
  from spi_wait_bsy_done [OF w1(3)] obtain w2 where w2: "spi_wait_bsy w1 = Some w2"
    "spi_done (miso E (hist w @ [Xfer c])) w2" "hist w2 = hist w1" by blast
  with w1 read_DR_done [OF w2(2)] show ?thesis
    by (auto simp: enc28j60_hw_send_short_cmd_def)
qed

lemma hw_send_data_8b_ok:
  assumes "spi_idle w"
  shows "\<exists>w'. enc28j60_hw_send_data_8b E r d w = Some w' \<and> spi_idle w' \<and> hist w' = hist w @ [Xfer r, Xfer d]"
proof -
  from put_wait_step [OF assms, of E r] obtain w1 w2 where w2: "spi_put E r w = Some w1"
    "snd (read_DR w1) = w1\<lparr>spi_rxne := False\<rparr>" "spi_wait_bsy (w1\<lparr>spi_rxne := False\<rparr>) = Some w2"
    "spi_idle w2" "hist w2 = hist w @ [Xfer r]" .
  from put_wait_step [OF w2(4), of E d] obtain w3 w4 where w4: "spi_put E d w2 = Some w3"
    "snd (read_DR w3) = w3\<lparr>spi_rxne := False\<rparr>" "spi_wait_bsy (w3\<lparr>spi_rxne := False\<rparr>) = Some w4"
    "spi_idle w4" "hist w4 = hist w2 @ [Xfer d]" .
  from w2 w4 show ?thesis by (simp add: enc28j60_hw_send_data_8b_def)
qed

lemma hw_send_data_16b_ok:
  assumes "spi_idle w"
  shows "\<exists>w'. enc28j60_hw_send_data_16b E r v w = Some w' \<and> spi_idle w' \<and>
    hist w' = hist w @ [Xfer r, Xfer (hi8 v), Xfer (lo8 v)]"
proof -
  from put_wait_step [OF assms, of E r] obtain w1 w2 where w2: "spi_put E r w = Some w1"
    "snd (read_DR w1) = w1\<lparr>spi_rxne := False\<rparr>" "spi_wait_bsy (w1\<lparr>spi_rxne := False\<rparr>) = Some w2"
    "spi_idle w2" "hist w2 = hist w @ [Xfer r]" .
  from put_wait_step [OF w2(4), of E "hi8 v"] obtain w3 w4 where w4: "spi_put E (hi8 v) w2 = Some w3"
    "snd (read_DR w3) = w3\<lparr>spi_rxne := False\<rparr>" "spi_wait_bsy (w3\<lparr>spi_rxne := False\<rparr>) = Some w4"
    "spi_idle w4" "hist w4 = hist w2 @ [Xfer (hi8 v)]" .
  from put_wait_step [OF w4(4), of E "lo8 v"] obtain w5 w6 where w6: "spi_put E (lo8 v) w4 = Some w5"
    "snd (read_DR w5) = w5\<lparr>spi_rxne := False\<rparr>" "spi_wait_bsy (w5\<lparr>spi_rxne := False\<rparr>) = Some w6"
    "spi_idle w6" "hist w6 = hist w4 @ [Xfer (lo8 v)]" .
  from w2 w4 w6 show ?thesis by (simp add: enc28j60_hw_send_data_16b_def)
qed

lemma hw_read_data_8b_ok:
  assumes "spi_idle w"
  shows "\<exists>w'. enc28j60_hw_read_data_8b E r w = Some (miso E (hist w @ [Xfer r, Xfer 0]), w') \<and> spi_idle w' \<and>
    hist w' = hist w @ [Xfer r, Xfer 0]"
proof -
  from put_wait_step [OF assms, of E r] obtain w1 w2 where w2: "spi_put E r w = Some w1"
    "snd (read_DR w1) = w1\<lparr>spi_rxne := False\<rparr>" "spi_wait_bsy (w1\<lparr>spi_rxne := False\<rparr>) = Some w2"
    "spi_idle w2" "hist w2 = hist w @ [Xfer r]" .
  from put_read_step [OF w2(4), of E 0] obtain w3 where w3: "spi_put E 0 w2 = Some w3"
    "read_DR w3 = (miso E (hist w2 @ [Xfer 0]), w3\<lparr>spi_rxne := False\<rparr>)"
    "spi_idle (w3\<lparr>spi_rxne := False\<rparr>)" "hist w3 = hist w2 @ [Xfer 0]" .
  from w2 w3 show ?thesis by (simp add: enc28j60_hw_read_data_8b_def)
qed

lemma hw_read_data_16b_ok:
  assumes "spi_idle w"
  shows "\<exists>w'. enc28j60_hw_read_data_16b E r w =
      Some (le16 (miso E (hist w @ [Xfer r, Xfer 0, Xfer 0])) (miso E (hist w @ [Xfer r, Xfer 0])), w') \<and>
    spi_idle w' \<and> hist w' = hist w @ [Xfer r, Xfer 0, Xfer 0]"
proof -
  from put_wait_step [OF assms, of E r] obtain w1 w2 where w2: "spi_put E r w = Some w1"
    "snd (read_DR w1) = w1\<lparr>spi_rxne := False\<rparr>" "spi_wait_bsy (w1\<lparr>spi_rxne := False\<rparr>) = Some w2"
    "spi_idle w2" "hist w2 = hist w @ [Xfer r]" .
  from put_read_step [OF w2(4), of E 0] obtain w3 where w3: "spi_put E 0 w2 = Some w3"
    "read_DR w3 = (miso E (hist w2 @ [Xfer 0]), w3\<lparr>spi_rxne := False\<rparr>)"
    "spi_idle (w3\<lparr>spi_rxne := False\<rparr>)" "hist w3 = hist w2 @ [Xfer 0]" .
  from put_read_step [OF w3(3), of E 0] obtain w4 where w4: "spi_put E 0 (w3\<lparr>spi_rxne := False\<rparr>) = Some w4"
    "read_DR w4 = (miso E (hist (w3\<lparr>spi_rxne := False\<rparr>) @ [Xfer 0]), w4\<lparr>spi_rxne := False\<rparr>)"
    "spi_idle (w4\<lparr>spi_rxne := False\<rparr>)" "hist w4 = hist (w3\<lparr>spi_rxne := False\<rparr>) @ [Xfer 0]" .
  from w2 w3 w4 show ?thesis by (simp add: enc28j60_hw_read_data_16b_def le16_def or.commute)
qed

lemma hw_spi_init_ok:
  "hw_boot w \<Longrightarrow> \<exists>w'. enc28j60_hw_spi_init w = Some w' \<and> spi_idle w' \<and> hist w' = hist w @ [CsHigh]"
  by (simp add: enc28j60_hw_spi_init_def hw_boot_def spi_idle_def gpioa_write_bsrr_def Let_def bit_simps)

lemma hw_uart_init_ok:
  "\<exists>w'. enc28j60_hw_uart_init w = Some w' \<and> spi_idle w' = spi_idle w \<and> hist w' = hist w"
  by (simp add: enc28j60_hw_uart_init_def spi_idle_def Let_def)

lemma hw_cs_ok:
  "\<exists>w'. enc28j60_hw_cs_high w = Some w' \<and> spi_idle w' = spi_idle w \<and> hist w' = hist w @ [CsHigh]"
  "\<exists>w'. enc28j60_hw_cs_low w = Some w' \<and> spi_idle w' = spi_idle w \<and> hist w' = hist w @ [CsLow]"
  by (simp_all add: enc28j60_hw_cs_high_def enc28j60_hw_cs_low_def)
    (simp_all add: gpioa_write_bsrr_def Let_def)

interpretation port: enc_io "port_io E" hw_boot spi_idle hist "miso E" for E
proof (unfold_locales, goal_cases)
  case (1 w) then show ?case by (rule spi_idle_boot)
next
  case (2 w) then show ?case by (simp add: port_io_def hw_spi_init_ok)
next
  case (3 w) then show ?case using hw_uart_init_ok [of w] by (simp add: port_io_def)
next
  case (4 w m) then show ?case using send_log_msg_ok [of E m w] by (simp add: port_io_def)
next
  case (5 w) then show ?case using hw_cs_ok(1) [of w] by (simp add: port_io_def)
next
  case (6 w) then show ?case using hw_cs_ok(2) [of w] by (simp add: port_io_def)
next
  case (7 w r d) then show ?case by (simp add: port_io_def hw_send_data_8b_ok)
next
  case (8 w r v) then show ?case by (simp add: port_io_def hw_send_data_16b_ok)
next
  case (9 w c) then show ?case by (simp add: port_io_def hw_send_short_cmd_ok)
next
  case (10 w r) then show ?case by (simp add: port_io_def hw_read_data_8b_ok)
next
  case (11 w r) then show ?case by (simp add: port_io_def hw_read_data_16b_ok)
qed

end
