(* ===== verification/Enc_Bus.thy ===== *)
theory Enc_Bus
  imports Enc_Sim
begin

unbundle bit_operations_syntax

text \<open>
  What a trace of the wire tells the chip: the specification against which the driver is checked.

  A trace is cut into frames by the chip select line, a frame is read as one SPI command (the
  opcodes of \<open>Opcode_t\<close>), and the commands are folded into the host's view of the chip: bank, control
  registers, buffer memory.  This follows the command descriptions in \<^verbatim>\<open>enc28j60_ll.h\<close> (WCR, BFS, BFC,
  WBM, RBM, reset) and the bank layout of \<^verbatim>\<open>enc28j60_register_map.h\<close>.  Nothing is said about what the
  chip answers, or about what it does by itself.
\<close>

section \<open>Frames\<close>

record framing =
  cs_is_low :: bool
  cur :: "u8 list"
  finished :: "u8 list list"

fun frame_step :: "spi_event \<Rightarrow> framing \<Rightarrow> framing" where
  "frame_step CsLow f = (if cs_is_low f then f else f\<lparr>cs_is_low := True, cur := []\<rparr>)"
| "frame_step CsHigh f =
     (if cs_is_low f
      then f\<lparr>cs_is_low := False, cur := [],
             finished := finished f @ (if cur f = [] then [] else [cur f])\<rparr>
      else f)"
| "frame_step (Xfer b) f = (if cs_is_low f then f\<lparr>cur := cur f @ [b]\<rparr> else f)"

definition framing_from :: "framing \<Rightarrow> spi_event list \<Rightarrow> framing" where
  "framing_from f h = fold frame_step h f"

definition frame0 :: framing where
  "frame0 = \<lparr>cs_is_low = False, cur = [], finished = []\<rparr>"

definition frames :: "spi_event list \<Rightarrow> u8 list list" where
  "frames h = finished (framing_from frame0 h)"

text \<open>The chip is deselected at the end of the trace.\<close>

definition quiet :: "spi_event list \<Rightarrow> bool" where
  "quiet h \<longleftrightarrow> \<not> cs_is_low (framing_from frame0 h)"

lemma framing_from_simps [simp]:
  "framing_from f [] = f" "framing_from f (e # h) = framing_from (frame_step e f) h"
  "framing_from f (h @ h') = framing_from (framing_from f h) h'"
  by (simp_all add: framing_from_def)

lemma framing_finished:
  "framing_from (f\<lparr>finished := xs @ finished f\<rparr>) h =
     (framing_from f h)\<lparr>finished := xs @ finished (framing_from f h)\<rparr>"
proof (induction h arbitrary: f)
  case (Cons e h)
  have "frame_step e (f\<lparr>finished := xs @ finished f\<rparr>) = (frame_step e f)\<lparr>finished := xs @ finished (frame_step e f)\<rparr>"
    by (cases e) simp_all
  with Cons.IH [of "frame_step e f"] show ?case by simp
qed simp

lemma framing_cur: "\<not> cs_is_low f \<Longrightarrow> cur f = [] \<Longrightarrow> \<not> cs_is_low (framing_from f h) \<Longrightarrow> cur (framing_from f h) = []"
proof (induction h rule: rev_induct)
  case (snoc e h)
  have "cs_is_low (framing_from f h) \<or> cur (framing_from f h) = []" if "\<not> cs_is_low f" "cur f = []"
    using snoc.IH that by blast
  then show ?case using snoc.prems by (cases e) (auto split: if_splits)
qed simp

lemma quiet_framing: "quiet h \<Longrightarrow> framing_from frame0 h = frame0\<lparr>finished := frames h @ finished frame0\<rparr>"
  using framing_cur [of frame0 h] by (simp add: quiet_def frames_def frame0_def)

lemma framing_append:
  assumes "quiet h"
  shows "framing_from frame0 (h @ h') =
    (framing_from frame0 h')\<lparr>finished := frames h @ finished (framing_from frame0 h')\<rparr>"
  using framing_finished [of "frames h" frame0 h'] quiet_framing [OF assms] by simp

lemma quiet_append: "quiet h \<Longrightarrow> quiet (h @ h') \<longleftrightarrow> quiet h'"
  using framing_append [of h h'] unfolding quiet_def [of "h @ h'"] quiet_def [of h'] by simp

lemma frames_append: "quiet h \<Longrightarrow> frames (h @ h') = frames h @ frames h'"
  using framing_append [of h h'] unfolding frames_def [of "h @ h'"] frames_def [of h'] by simp

text \<open>No frame is half sent: the chip is deselected, or just selected.\<close>

definition settled :: "spi_event list \<Rightarrow> bool" where
  "settled h \<longleftrightarrow> cur (framing_from frame0 h) = []"

lemma quiet_settled: "quiet h \<Longrightarrow> settled h"
  by (simp add: settled_def quiet_framing) (simp add: frame0_def)

lemma settled_framing:
  assumes "settled h"
  shows "framing_from frame0 (h @ CsLow # t) =
    (framing_from frame0 (CsLow # t))\<lparr>finished := frames h @ finished (framing_from frame0 (CsLow # t))\<rparr>"
proof -
  have "frame_step CsLow (framing_from frame0 h) =
      (frame_step CsLow frame0)\<lparr>finished := frames h @ finished (frame_step CsLow frame0)\<rparr>"
    using assms by (cases "framing_from frame0 h") (auto simp: settled_def frames_def frame0_def)
  then show ?thesis
    using framing_finished [of "frames h" "frame_step CsLow frame0" t] by simp
qed

lemma settled_append:
  assumes "settled h"
  shows "quiet (h @ CsLow # t) = quiet (CsLow # t)" "frames (h @ CsLow # t) = frames h @ frames (CsLow # t)"
    "settled (h @ CsLow # t) = settled (CsLow # t)"
  using settled_framing [OF assms, of t]
  unfolding quiet_def frames_def [of "h @ CsLow # t"] frames_def [of "CsLow # t"] settled_def
  by simp_all

lemma quiet_then_settled: "quiet h \<Longrightarrow> settled (h @ t) = settled t"
  using framing_append [of h t] unfolding settled_def by simp

lemma settled_high:
  "settled h \<Longrightarrow> quiet (h @ [CsHigh])" "settled h \<Longrightarrow> frames (h @ [CsHigh]) = frames h"
  by (simp_all add: settled_def quiet_def frames_def)

lemma settled_low [simp]: "settled [CsLow]" and settled_Nil [simp]: "settled []"
  by (simp_all add: settled_def frame0_def)

section \<open>Commands\<close>

datatype spi_cmd = RCR u8 | RBM nat | WCR u8 u8 | WBM "u8 list" | BFS u8 u8 | BFC u8 u8 | SRC | BadCmd

definition decode_frame :: "u8 list \<Rightarrow> spi_cmd" where
  "decode_frame bs =
     (case bs of [] \<Rightarrow> BadCmd
      | b # rest \<Rightarrow>
          (let opc = b AND 0xE0; a = b AND 0x1F
           in if opc = 0x00 then RCR a
              else if opc = 0x20 \<and> a = 0x1A then RBM (length rest)
              else if opc = 0x60 \<and> a = 0x1A then WBM rest
              else if opc = 0xE0 \<and> a = 0x1F then SRC
              else (case rest of [v] \<Rightarrow>
                      if opc = 0x40 then WCR a v else if opc = 0x80 then BFS a v
                      else if opc = 0xA0 then BFC a v else BadCmd
                    | _ \<Rightarrow> BadCmd)))"

definition cmds :: "spi_event list \<Rightarrow> spi_cmd list" where
  "cmds h = map decode_frame (frames h)"

lemma cmds_append: "quiet h \<Longrightarrow> cmds (h @ h') = cmds h @ cmds h'"
  by (simp add: cmds_def frames_append)

text \<open>Traces made of whole frames.\<close>

definition frame_ev :: "u8 list \<Rightarrow> spi_event list" where
  "frame_ev bs = CsLow # map Xfer bs @ [CsHigh]"

lemma framing_xfers: "cs_is_low f \<Longrightarrow> framing_from f (map Xfer bs) = f\<lparr>cur := cur f @ bs\<rparr>"
  by (induction bs arbitrary: f) simp_all

lemma frames_frame_ev [simp]: "frames (frame_ev bs) = (if bs = [] then [] else [bs])"
  by (simp add: frames_def frame_ev_def frame0_def framing_xfers)

lemma quiet_frame_ev [simp]: "quiet (frame_ev bs)"
  by (simp add: quiet_def frame_ev_def frame0_def framing_xfers)

lemma quiet_Nil [simp]: "quiet []" and frames_Nil [simp]: "frames [] = []" and cmds_Nil [simp]: "cmds [] = []"
  by (simp_all add: quiet_def frames_def frame0_def cmds_def)

lemma cmds_frame_ev [simp]: "cmds (frame_ev bs) = (if bs = [] then [] else [decode_frame bs])"
  by (simp add: cmds_def)

section \<open>The host's view of the chip\<close>

record host_view =
  hv_econ1 :: u8
  hv_regs :: "u8 \<times> u8 \<Rightarrow> u8"
  hv_mem :: "u16 \<Rightarrow> u8"

definition hv_bank :: "host_view \<Rightarrow> u8" where "hv_bank v = hv_econ1 v AND 3"

text \<open>Addresses from 0x1b on are common to all banks; they are filed under bank 0.\<close>

definition reg_slot :: "u8 \<Rightarrow> u8 \<Rightarrow> u8 \<times> u8" where
  "reg_slot b a = (if 0x1b \<le> a then 0 else b, a)"

text \<open>The buffer pointer is 13 bits wide; it moves after each byte only if \<open>AUTOINC\<close> is set in \<open>ECON2\<close>.\<close>

definition ewrpt :: "host_view \<Rightarrow> u16" where
  "ewrpt v = le16 (hv_regs v (0, 0x02)) (hv_regs v (0, 0x03))"

definition set_ewrpt :: "u16 \<Rightarrow> host_view \<Rightarrow> host_view" where
  "set_ewrpt p v = v\<lparr>hv_regs := (hv_regs v)((0, 0x02) := lo8 p, (0, 0x03) := hi8 p)\<rparr>"

definition autoinc :: "host_view \<Rightarrow> bool" where
  "autoinc v = bit (hv_regs v (0, 0x1e)) AUTOINC"

definition hv_put :: "u8 \<Rightarrow> host_view \<Rightarrow> host_view" where
  "hv_put b v = (let p = ewrpt v AND 0x1fff; v = v\<lparr>hv_mem := (hv_mem v)(p := b)\<rparr>
     in if autoinc v then set_ewrpt ((p + 1) AND 0x1fff) v else v)"

fun hv_step :: "host_view \<Rightarrow> spi_cmd \<Rightarrow> host_view \<Rightarrow> host_view" where
  "hv_step rv (WCR a x) v =
     (if a = 0x1f then v\<lparr>hv_econ1 := x\<rparr>
      else v\<lparr>hv_regs := (hv_regs v)(reg_slot (hv_bank v) a := x)\<rparr>)"
| "hv_step rv (BFS a m) v =
     (if a = 0x1f then v\<lparr>hv_econ1 := hv_econ1 v OR m\<rparr>
      else v\<lparr>hv_regs := (hv_regs v)(reg_slot (hv_bank v) a := hv_regs v (reg_slot (hv_bank v) a) OR m)\<rparr>)"
| "hv_step rv (BFC a m) v =
     (if a = 0x1f then v\<lparr>hv_econ1 := hv_econ1 v AND NOT m\<rparr>
      else v\<lparr>hv_regs := (hv_regs v)(reg_slot (hv_bank v) a := hv_regs v (reg_slot (hv_bank v) a) AND NOT m)\<rparr>)"
| "hv_step rv (WBM bs) v = fold hv_put bs v"
| "hv_step rv SRC v = rv\<lparr>hv_mem := hv_mem v\<rparr>"
| "hv_step rv (RCR a) v = v"
| "hv_step rv (RBM n) v = v"
| "hv_step rv BadCmd v = v"

text \<open>\<open>rv\<close> is the view at power-on and, but for the buffer memory, after a reset command.\<close>

definition view :: "host_view \<Rightarrow> spi_event list \<Rightarrow> host_view" where
  "view rv h = fold (hv_step rv) (cmds h) rv"

lemma view_append: "quiet h \<Longrightarrow> view rv (h @ h') = fold (hv_step rv) (cmds h') (view rv h)"
  by (simp add: view_def cmds_append)

lemma view_settled: "settled h \<Longrightarrow> view rv (h @ CsLow # t) = fold (hv_step rv) (cmds (CsLow # t)) (view rv h)"
  by (simp add: view_def cmds_def settled_append)

lemma view_high: "settled h \<Longrightarrow> view rv (h @ [CsHigh]) = view rv h"
  by (simp add: view_def cmds_def settled_high)

lemma cmds_low [simp]: "cmds [CsLow] = []"
  by (simp add: cmds_def frames_def frame0_def)

lemma view_Nil [simp]: "view rv [] = rv"
  by (simp add: view_def)

lemma view_frame: "quiet h \<Longrightarrow> view rv (h @ frame_ev bs) = (if bs = [] then view rv h else hv_step rv (decode_frame bs) (view rv h))"
  by (simp add: view_append)

text \<open>The driver's record of the selected bank agrees with the chip.\<close>

definition coherent :: "host_view \<Rightarrow> enc28j60 \<Rightarrow> spi_event list \<Rightarrow> bool" where
  "coherent rv dev h \<longleftrightarrow> settled h \<and> (bank dev \<noteq> Common \<longrightarrow> hv_bank (view rv h) = bank_val (bank dev))"

section \<open>Decoding of the commands the driver sends\<close>

lemma arg_bits: "a \<le> 0x1f \<Longrightarrow> (a::u8) AND 0x1f = a"
  using less_mask_eq [of a 5] by (simp add: mask_eq_exp_minus_1 word_le_nat_alt word_less_nat_alt)

lemma op_bits: "a \<le> 0x1f \<Longrightarrow> (a::u8) AND 0xE0 = 0"
  by (subst arg_bits [symmetric], assumption) (simp add: and.assoc)

lemma decode_driver:
  assumes "a \<le> 0x1f"
  shows "decode_frame [0x40 OR a, v] = WCR a v" "decode_frame (a # bs) = RCR a"
    "decode_frame [0x80 OR a, v] = BFS a v" "decode_frame [0xA0 OR a, v] = BFC a v"
    "decode_frame ((0x20 OR 0x1A) # bs) = RBM (length bs)" "decode_frame ((0x60 OR 0x1A) # bs) = WBM bs"
    "decode_frame ((0xE0 OR 0x1F) # bs) = SRC"
  using arg_bits [OF assms] op_bits [OF assms]
  by (simp_all add: decode_frame_def Let_def bit.conj_disj_distrib2)

section \<open>Evaluation of explicit traces\<close>

lemma framing_tail: "framing_from frame0 (frame_ev bs @ t) =
    (framing_from frame0 t)\<lparr>finished := (if bs = [] then [] else [bs]) @ finished (framing_from frame0 t)\<rparr>"
  using framing_append [of "frame_ev bs" t] by (simp only: quiet_frame_ev frames_frame_ev)

lemma cmds_frame_tail: "bs \<noteq> [] \<Longrightarrow> cmds (frame_ev bs @ t) = decode_frame bs # cmds t"
  by (simp add: cmds_append)

lemma quiet_frame_tail: "quiet (frame_ev bs @ t) = quiet t"
  by (simp add: quiet_append)

lemma trace_eval [wire_simps]:
  "cmds (CsLow # Xfer a # Xfer b # CsHigh # t) = decode_frame [a, b] # cmds t"
  "cmds (CsLow # Xfer a # Xfer b # Xfer c # CsHigh # t) = decode_frame [a, b, c] # cmds t"
  "cmds (CsLow # Xfer a # CsHigh # t) = decode_frame [a] # cmds t"
  "cmds (CsLow # CsLow # t) = cmds (CsLow # t)"
  "cmds (CsHigh # t) = cmds t"
  "cmds (CsLow # CsHigh # t) = cmds t"
  "quiet (CsLow # Xfer a # Xfer b # CsHigh # t) = quiet t"
  "quiet (CsLow # Xfer a # Xfer b # Xfer c # CsHigh # t) = quiet t"
  "quiet (CsLow # Xfer a # CsHigh # t) = quiet t"
  "quiet (CsLow # CsLow # t) = quiet (CsLow # t)"
  "quiet (CsHigh # t) = quiet t"
  "quiet (CsLow # CsHigh # t) = quiet t"
  using cmds_frame_tail [of "[a, b]" t] cmds_frame_tail [of "[a, b, c]" t] cmds_frame_tail [of "[a]" t]
    quiet_frame_tail [of "[a, b]" t] quiet_frame_tail [of "[a, b, c]" t] quiet_frame_tail [of "[a]" t]
  by (simp_all add: frame_ev_def) (simp_all add: cmds_def frames_def quiet_def frame0_def)

lemma settled_eval [wire_simps]:
  "settled [CsHigh]" "settled (CsHigh # t) = settled t" "settled (CsLow # CsLow # t) = settled (CsLow # t)"
  by (simp_all add: settled_def frame0_def)

lemma trace_eval_buf [wire_simps]:
  "cmds (CsLow # Xfer a # map Xfer bs @ CsHigh # t) = decode_frame (a # bs) # cmds t"
  "quiet (CsLow # Xfer a # map Xfer bs @ CsHigh # t) = quiet t"
  using cmds_frame_tail [of "a # bs" t] quiet_frame_tail [of "a # bs" t] by (simp_all add: frame_ev_def)

end
