(* ===== verification/Enc_Driver.thy ===== *)
theory Enc_Driver
  imports Enc_Bus
begin

unbundle bit_operations_syntax

text \<open>
  Correctness of the middle and the interface layer.  Each fact is first proved for the ideal wire,
  by evaluation, and then carried to the port functions by the interpretation \<open>port\<close>.
\<close>

section \<open>Bank selection\<close>

lemma hv_bank_frame [simp]: "hv_bank (v\<lparr>hv_regs := f\<rparr>) = hv_bank v" "hv_bank (v\<lparr>hv_mem := g\<rparr>) = hv_bank v"
  by (simp_all add: hv_bank_def)

lemma mask2_u8: "(3::u8) = mask 2"
  by (simp add: mask_eq_exp_minus_1)

lemma bank_val_and3: "b \<noteq> Common \<Longrightarrow> bank_val b AND 3 = bank_val b"
  by (cases b) simp_all

lemma bf_put_bsel: "bf_put BSEL 2 v (w::u8) AND 3 = v AND 3"
  unfolding mask2_u8 by (rule bit_word_eqI) (auto simp: BSEL_def bit_bf_put bit_simps)

lemma econ1_decode: "decode_frame [0x40 OR 0x1f, v] = WCR 0x1f v" "decode_frame [0x1f, v] = RCR 0x1f"
  using decode_driver [of "0x1f"] by simp_all

definition switch_dev :: "Reg_t \<Rightarrow> enc28j60 \<Rightarrow> enc28j60" where
  "switch_dev reg d = (if reg_bank reg = Common then d else d\<lparr>bank := reg_bank reg\<rparr>)"

definition same_store :: "host_view \<Rightarrow> host_view \<Rightarrow> bool" where
  "same_store v v' \<longleftrightarrow> hv_regs v' = hv_regs v \<and> hv_mem v' = hv_mem v"

lemma wire_bank_changing:
  assumes "settled h" "b \<noteq> Common"
  shows "\<exists>h'. enc28j60_bank_changing (wire_io R) b (d, h) = Some (d\<lparr>bank := b\<rparr>, h') \<and> quiet h' \<and>
    coherent rv (d\<lparr>bank := b\<rparr>) h' \<and> same_store (view rv h) (view rv h')"
  using assms econ1_decode
  by (simp add: enc28j60_bank_changing_def wire_simps reg_defs Let_def coherent_def view_settled settled_append
      quiet_settled hv_bank_def same_store_def bf_put_bsel bank_val_and3)

text \<open>After the guard the chip's bank is the register's, whichever way the guard went.\<close>

lemma wire_select_bank:
  assumes "coherent rv d h"
  shows "\<exists>h'. select_bank (wire_io R) reg (d, h) = Some (switch_dev reg d, h') \<and>
    coherent rv (switch_dev reg d) h' \<and> same_store (view rv h) (view rv h') \<and>
    (reg_bank reg \<noteq> Common \<longrightarrow> hv_bank (view rv h') = bank_val (reg_bank reg))"
proof (cases "bank d \<noteq> reg_bank reg \<and> reg_bank reg \<noteq> Common")
  case True
  with wire_bank_changing [of h "reg_bank reg" R d rv] assms show ?thesis
    by (auto simp: select_bank_def switch_dev_def coherent_def)
next
  case False
  then have "select_bank (wire_io R) reg (d, h) = Some (switch_dev reg d, h)"
    by (auto simp: select_bank_def switch_dev_def)
  with False assms show ?thesis by (auto simp: same_store_def coherent_def switch_dev_def)
qed

section \<open>Control registers\<close>

text \<open>Where a register lives, and the effect of writing it.\<close>

definition slot_of :: "Reg_t \<Rightarrow> u8 \<times> u8" where
  "slot_of reg = reg_slot (bank_val (reg_bank reg)) (reg_addr reg)"

definition slot_hi :: "Reg_t \<Rightarrow> u8 \<times> u8" where
  "slot_hi reg = reg_slot (bank_val (reg_bank reg)) (reg_addr reg + 1)"

definition store_reg :: "Reg_t \<Rightarrow> u16 \<Rightarrow> (u8 \<times> u8 \<Rightarrow> u8) \<Rightarrow> (u8 \<times> u8 \<Rightarrow> u8)" where
  "store_reg reg v f =
     (if reg_length reg = 2 then f(slot_of reg := lo8 v, slot_hi reg := hi8 v) else f(slot_of reg := lo8 v))"

definition ctl_reg :: "Reg_t \<Rightarrow> bool" where
  "ctl_reg reg \<longleftrightarrow> reg_wf reg \<and> reg_type reg \<noteq> PHY_R \<and> reg_addr reg \<noteq> 0x1f"

lemma reg_wf_addr:
  assumes "reg_wf reg"
  shows "reg_addr reg \<le> 0x1f" and "reg_length reg = 2 \<Longrightarrow> reg_addr reg + 1 \<le> 0x1f"
  using assms by (auto simp: reg_wf_def add.commute)

lemma ctl_reg_addr:
  assumes "ctl_reg reg"
  shows "reg_addr reg \<le> 0x1f" and "reg_length reg = 2 \<Longrightarrow> reg_addr reg + 1 \<le> 0x1f \<and> reg_addr reg + 1 \<noteq> 0x1f"
    and "hv_bank v = bank_val (reg_bank reg) \<or> reg_bank reg = Common \<Longrightarrow>
      reg_slot (hv_bank v) (reg_addr reg) = slot_of reg"
    and "reg_length reg = 2 \<Longrightarrow> hv_bank v = bank_val (reg_bank reg) \<Longrightarrow>
      reg_slot (hv_bank v) (reg_addr reg + 1) = slot_hi reg"
proof -
  show "reg_addr reg \<le> 0x1f"
    using assms reg_wf_addr by (simp add: ctl_reg_def)
  show "reg_length reg = 2 \<Longrightarrow> reg_addr reg + 1 \<le> 0x1f \<and> reg_addr reg + 1 \<noteq> 0x1f"
    using assms by (auto simp: ctl_reg_def reg_wf_def) unat_arith
qed (use assms in \<open>auto simp: slot_of_def slot_hi_def reg_slot_def ctl_reg_def reg_wf_def\<close>)

lemma wire_write_reg:
  assumes coh: "coherent rv d h" and reg: "ctl_reg reg"
  shows "\<exists>h'. enc28j60_write_reg (wire_io R) reg v (d, h) = Some (switch_dev reg d, h') \<and>
    quiet h' \<and> coherent rv (switch_dev reg d) h' \<and> hv_regs (view rv h') = store_reg reg v (hv_regs (view rv h)) \<and>
    hv_mem (view rv h') = hv_mem (view rv h)"
proof -
  obtain h1 where h1: "select_bank (wire_io R) reg (d, h) = Some (switch_dev reg d, h1)"
    "coherent rv (switch_dev reg d) h1" "same_store (view rv h) (view rv h1)"
    "reg_bank reg \<noteq> Common \<longrightarrow> hv_bank (view rv h1) = bank_val (reg_bank reg)"
    using wire_select_bank [OF coh] by blast
  note slots = ctl_reg_addr [OF reg]
  have com: "reg_length reg = 2 \<Longrightarrow> reg_bank reg \<noteq> Common"
    using reg by (auto simp: ctl_reg_def reg_wf_def)
  have lo: "decode_frame [0x40 OR reg_addr reg, lo8 v] = WCR (reg_addr reg) (lo8 v)"
    using slots(1) by (rule decode_driver)
  have hi: "reg_length reg = 2 \<Longrightarrow> decode_frame [0x40 OR (reg_addr reg + 1), hi8 v] = WCR (reg_addr reg + 1) (hi8 v)"
    using slots(2) by (auto intro: decode_driver)
  have a: "reg_addr reg \<noteq> 0x1f" "reg_type reg \<noteq> PHY_R" using reg by (simp_all add: ctl_reg_def)
  have slot: "reg_slot (hv_bank (view rv h1)) (reg_addr reg) = slot_of reg"
    using slots(3) h1(4) by blast
  have slot': "reg_length reg = 2 \<Longrightarrow> reg_slot (hv_bank (view rv h1)) (reg_addr reg + 1) = slot_hi reg"
    using slots(4) h1(4) com by blast
  show ?thesis
    using h1(1-3) lo hi a slots(2) slot slot'
    by (cases "reg_type reg"; cases "reg_length reg = 2")
      (auto simp: enc28j60_write_reg_def wire_simps coherent_def view_settled settled_append
        quiet_settled store_reg_def same_store_def)
qed

text \<open>\<open>ECON1\<close> itself is written as it is, without a bank switch.\<close>

lemma wire_write_econ1:
  assumes "settled h"
  shows "\<exists>h'. enc28j60_write_reg (wire_io R) ECON1 v (d, h) = Some (d, h') \<and> quiet h' \<and>
    view rv h' = (view rv h)\<lparr>hv_econ1 := lo8 v\<rparr>"
  using assms econ1_decode
  by (simp add: enc28j60_write_reg_def select_bank_def wire_simps reg_defs view_settled settled_append)

section \<open>Reading\<close>

text \<open>The value assembled from the chip's answers; MAC and MII registers answer after a dummy byte.\<close>

definition answer_byte :: "(spi_event list \<Rightarrow> u8) \<Rightarrow> RegType_t \<Rightarrow> u8 \<Rightarrow> spi_event list \<Rightarrow> u8" where
  "answer_byte R t a h =
     R (h @ (if t = ETH_R then [CsLow, Xfer a, Xfer 0] else [CsLow, Xfer a, Xfer 0, Xfer 0]))"

definition read_frame :: "RegType_t \<Rightarrow> u8 \<Rightarrow> spi_event list" where
  "read_frame t a = frame_ev (if t = ETH_R then [a, 0] else [a, 0, 0])"

definition reg_answer :: "(spi_event list \<Rightarrow> u8) \<Rightarrow> Reg_t \<Rightarrow> spi_event list \<Rightarrow> u16" where
  "reg_answer R reg h =
     (let t = reg_type reg; a = reg_addr reg
      in if reg_length reg = 2
         then le16 (answer_byte R t a h) (answer_byte R t (a + 1) (h @ read_frame t a))
         else ucast (answer_byte R t a h))"

lemma le16_and_ff: "le16 l h AND 0xff = ucast l"
proof -
  have ff: "(0xff::u16) = mask 8" by (simp add: mask_eq_exp_minus_1)
  show ?thesis unfolding ff by (rule bit_word_eqI) (auto simp: le16_def bit_simps dest: bit_imp_le_length)
qed

lemma ucast_or_shift: "ucast l OR push_bit 8 (ucast h) = le16 l h"
  by (simp add: le16_def)

lemma ucast_or_shift_le16: "ucast l OR push_bit 8 (le16 h x) = le16 l h"
  by (rule bit_word_eqI) (auto simp: le16_def bit_simps dest: bit_imp_le_length)

lemma wire_read_reg:
  assumes coh: "coherent rv d h" and wf: "reg_wf reg" and np: "reg_type reg \<noteq> PHY_R"
  shows "\<exists>h1 h'. select_bank (wire_io R) reg (d, h) = Some (switch_dev reg d, h1) \<and>
    enc28j60_read_reg (wire_io R) reg (d, h) = Some (reg_answer R reg h1, switch_dev reg d, h') \<and>
    coherent rv (switch_dev reg d) h1 \<and> quiet h' \<and> coherent rv (switch_dev reg d) h' \<and>
    view rv h' = view rv h1 \<and> same_store (view rv h) (view rv h1) \<and> frames h' = frames h1 @
      (if reg_type reg = ETH_R then [reg_addr reg, 0] else [reg_addr reg, 0, 0]) #
      (if reg_length reg = 2 then [if reg_type reg = ETH_R then [reg_addr reg + 1, 0] else [reg_addr reg + 1, 0, 0]] else [])"
proof -
  obtain h1 where h1: "select_bank (wire_io R) reg (d, h) = Some (switch_dev reg d, h1)"
    "coherent rv (switch_dev reg d) h1" "same_store (view rv h) (view rv h1)"
    using wire_select_bank [OF coh] by blast
  note a = reg_wf_addr [OF wf]
  note dec = decode_driver(2) [OF a(1)] decode_driver(2) [OF a(2)]
  have fr: "frames (CsLow # Xfer x # Xfer y # CsHigh # t) = [x, y] # frames t"
    "frames (CsLow # Xfer x # Xfer y # Xfer z # CsHigh # t) = [x, y, z] # frames t" for x y z t
  proof -
    have "frames (frame_ev bs @ t) = bs # frames t" if "bs \<noteq> []" for bs
      using that by (simp add: frames_append)
    from this [of "[x, y]"] this [of "[x, y, z]"]
    show "frames (CsLow # Xfer x # Xfer y # CsHigh # t) = [x, y] # frames t"
      "frames (CsLow # Xfer x # Xfer y # Xfer z # CsHigh # t) = [x, y, z] # frames t"
      by (simp_all add: frame_ev_def)
  qed
  show ?thesis
    using h1 np
    by (cases "reg_type reg"; cases "reg_length reg = 2")
      (auto simp: enc28j60_read_reg_def wire_simps coherent_def view_settled settled_append
        quiet_settled frames_append fr
        reg_answer_def answer_byte_def read_frame_def frame_ev_def dec
        le16_and_ff ucast_or_shift ucast_or_shift_le16 Let_def)
qed

section \<open>Polling\<close>

text \<open>
  That the chip eventually reports what a polling loop waits for: some rank of the traffic so far
  falls with every poll that is answered by "not yet".  (Other traffic may raise the rank, so one
  such hypothesis covers any number of waits.)
\<close>

definition poll_frame :: "RegType_t \<Rightarrow> u8 \<Rightarrow> u8 list" where
  "poll_frame t a = (if t = ETH_R then [a, 0] else [a, 0, 0])"

definition poll_ends :: "host_view \<Rightarrow> (spi_event list \<Rightarrow> u8) \<Rightarrow> Bank_t \<Rightarrow> RegType_t \<Rightarrow> u8 \<Rightarrow>
    (u8 \<Rightarrow> bool) \<Rightarrow> (u8 list list \<Rightarrow> nat) \<Rightarrow> bool" where
  "poll_ends rv R b t a pending rank \<longleftrightarrow>
     (\<forall>h. settled h \<and> (b = Common \<or> hv_bank (view rv h) = bank_val b) \<and> pending (answer_byte R t a h) \<longrightarrow>
        rank (frames h @ [poll_frame t a]) < rank (frames h))"

lemma poll_endsD:
  "poll_ends rv R b t a pending rank \<Longrightarrow> settled h \<Longrightarrow> b = Common \<or> hv_bank (view rv h) = bank_val b \<Longrightarrow>
   pending (answer_byte R t a h) \<Longrightarrow> rank (frames h @ [poll_frame t a]) < rank (frames h)"
  by (simp add: poll_ends_def)

text \<open>A wait loop that reads a one-byte common ETH register stays in the current bank.\<close>

lemma wire_poll_eth:
  assumes reg: "reg_wf reg" "reg_type reg = ETH_R" "reg_bank reg = Common" "reg_length reg = 1"
    and ends: "poll_ends rv R Common ETH_R (reg_addr reg) pending rank" and coh: "coherent rv d h"
  shows "\<exists>s. do_while (\<lambda>s. do { (v, s) \<leftarrow> enc28j60_read_reg (wire_io R) reg s; Some (pending (ucast v), s) }) (d, h) = Some s \<and>
    (case s of (d', h') \<Rightarrow> d' = d \<and> quiet h' \<and> coherent rv d h' \<and> view rv h' = view rv h)"
proof (rule do_while_total [where I = "\<lambda>(d', g). d' = d \<and> coherent rv d g \<and> view rv g = view rv h"
      and m = "\<lambda>(d', g). rank (frames g)"], goal_cases)
  case 1
  show ?case using coh by simp
next
  case (2 s)
  obtain g where s: "s = (d, g)" and g: "coherent rv d g" "view rv g = view rv h" using 2 by (cases s) auto
  have dev: "switch_dev reg d = d" using reg by (simp add: switch_dev_def)
  have sel: "select_bank (wire_io R) reg (d, g) = Some (d, g)" using reg by (simp add: select_bank_def)
  from wire_read_reg [OF g(1) reg(1), of R] sel reg obtain g2 where
    g2: "enc28j60_read_reg (wire_io R) reg (d, g) = Some (ucast (answer_byte R ETH_R (reg_addr reg) g), d, g2)"
      "quiet g2" "coherent rv d g2" "view rv g2 = view rv g" "frames g2 = frames g @ [poll_frame ETH_R (reg_addr reg)]"
    by (auto simp: dev reg_answer_def poll_frame_def)
  have "ucast (ucast (answer_byte R ETH_R (reg_addr reg) g) :: u16) = answer_byte R ETH_R (reg_addr reg) g"
    by (rule bit_word_eqI) (auto simp: bit_simps)
  then show ?case
    using s g g2 poll_endsD [OF ends, of g] by (simp add: coherent_def)
qed

end
