(* ===== verification/Enc_Phy.thy ===== *)
theory Enc_Phy
  imports Enc_Driver
begin

unbundle bit_operations_syntax

text \<open>
  PHY registers are reached through the MII registers of bank 2 and a poll of \<open>MISTAT.BUSY\<close> in
  bank 3.  Reading selects bank 2 itself; writing does not, so what a write reaches depends on the
  bank the driver happens to be in.
\<close>

section \<open>Waiting for the MII\<close>

abbreviation mii_completes :: "host_view \<Rightarrow> (spi_event list \<Rightarrow> u8) \<Rightarrow> (u8 list list \<Rightarrow> nat) \<Rightarrow> bool" where
  "mii_completes rv R rank \<equiv> poll_ends rv R Bank3 MII_R 0x0a (\<lambda>x. bit x 0) rank"

lemma mistat_wf: "reg_wf MISTAT" "reg_type MISTAT = MII_R" "reg_addr MISTAT = 0x0a" "reg_length MISTAT = 1"
    "reg_bank MISTAT = Bank3"
  by (simp_all add: reg_defs reg_wf_def word_le_nat_alt word_less_nat_alt)

lemma frames_mistat: "frames (CsLow # Xfer 0x0a # Xfer 0 # Xfer 0 # CsHigh # t) = [0x0a, 0, 0] # frames t"
  using frames_append [of "frame_ev [0x0a, 0, 0]" t] by (simp only: quiet_frame_ev frames_frame_ev) (simp add: frame_ev_def)

lemma rcr_mistat: "decode_frame [0x0a, 0, 0] = RCR 0x0a"
  using decode_driver(2) [of "0x0a"] by simp

lemma mistat_poll_frame: "poll_frame MII_R 0x0a = [0x0a, 0, 0]"
  by (simp add: poll_frame_def)

lemma wire_poll_mistat:
  assumes "settled h" "hv_bank (view rv h) = 3" and mii: "mii_completes rv R rank"
  shows "\<exists>h'. poll_mistat (wire_io R) h = Some h' \<and> quiet h' \<and> view rv h' = view rv h"
  unfolding poll_mistat_def
proof (rule do_while_total [where I = "\<lambda>g. settled g \<and> view rv g = view rv h"
      and m = "\<lambda>g. rank (frames g)"], goal_cases)
  case 1
  show ?case using assms by simp
next
  case (2 g)
  let ?g' = "g @ [CsLow, Xfer 0x0a, Xfer 0, Xfer 0, CsHigh]"
  have "frames ?g' = frames g @ [[0x0a, 0, 0]]" "quiet ?g'" "view rv ?g' = view rv g"
    using 2 by (simp_all add: settled_append frames_mistat wire_simps view_settled rcr_mistat)
  then show ?case
    using 2 assms(2) poll_endsD [OF mii, of g]
    by (auto simp: wire_simps reg_defs answer_byte_def bf_get_def BUSY_def le16_def bit_simps quiet_settled
        mistat_poll_frame)
qed

text \<open>The loop of a write reads \<open>MISTAT\<close> through \<open>enc28j60_read_reg\<close>, and so ends in bank 3.\<close>

lemma wire_mistat_round:
  assumes coh: "coherent rv d g"
  shows "\<exists>g1 g3. do { (state, (dev, w)) \<leftarrow> enc28j60_read_reg (wire_io R) MISTAT (d, g);
      w \<leftarrow> cs_deselect (wire_io R) w; w \<leftarrow> cs_select (wire_io R) w;
      Some (bf_get BUSY state, (dev, w)) } = Some (bit (answer_byte R MII_R 0x0a g1) 0, d\<lparr>bank := Bank3\<rparr>, g3) \<and>
    coherent rv (d\<lparr>bank := Bank3\<rparr>) g3 \<and> same_store (view rv g) (view rv g3) \<and>
    coherent rv (d\<lparr>bank := Bank3\<rparr>) g1 \<and> frames g3 = frames g1 @ [[0x0a, 0, 0]] \<and> (bank d = Bank3 \<longrightarrow> g1 = g)"
proof -
  from wire_read_reg [OF coh mistat_wf(1), of R] obtain g1 g2 where
    g2: "enc28j60_read_reg (wire_io R) MISTAT (d, g) = Some (reg_answer R MISTAT g1, d\<lparr>bank := Bank3\<rparr>, g2)"
    "quiet g2" "coherent rv (d\<lparr>bank := Bank3\<rparr>) g2" "view rv g2 = view rv g1" "same_store (view rv g) (view rv g1)"
    "frames g2 = frames g1 @ [[0x0a, 0, 0]]" and
    g1: "select_bank (wire_io R) MISTAT (d, g) = Some (d\<lparr>bank := Bank3\<rparr>, g1)" "coherent rv (d\<lparr>bank := Bank3\<rparr>) g1"
    by (auto simp: mistat_wf switch_dev_def)
  have "bf_get BUSY (reg_answer R MISTAT g1) \<longleftrightarrow> bit (answer_byte R MII_R 0x0a g1) 0"
    by (simp add: reg_answer_def mistat_wf bf_get_def BUSY_def bit_simps)
  moreover have "bank d = Bank3 \<longrightarrow> g1 = g"
    using g1(1) by (auto simp: select_bank_def mistat_wf)
  moreover let ?g3 = "g2 @ [CsHigh, CsLow]"
  have g3: "settled ?g3" "view rv ?g3 = view rv g2" "frames ?g3 = frames g2"
    using g2(2) by (simp_all add: quiet_then_settled wire_simps view_append frames_append)
      (simp add: frames_def frame0_def)
  ultimately show ?thesis
    using g2 g1(2) by (intro exI [of _ g1] exI [of _ ?g3]) (auto simp: wire_simps coherent_def same_store_def)
qed

lemma wire_write_phy_wait:
  assumes coh: "coherent rv d h" and mii: "mii_completes rv R rank"
  shows "\<exists>s. write_phy_wait (wire_io R) (d, h) = Some s \<and>
    (case s of (d', h') \<Rightarrow> d' = d\<lparr>bank := Bank3\<rparr> \<and> coherent rv d' h' \<and> same_store (view rv h) (view rv h'))"
proof -
  have loop: "\<exists>s. write_phy_wait (wire_io R) (d\<lparr>bank := Bank3\<rparr>, g) = Some s \<and>
      (case s of (d', h') \<Rightarrow> d' = d\<lparr>bank := Bank3\<rparr> \<and> coherent rv d' h' \<and> same_store (view rv g) (view rv h'))"
    if g: "coherent rv (d\<lparr>bank := Bank3\<rparr>) g" for g
    unfolding write_phy_wait_def
  proof (rule do_while_total [where m = "\<lambda>(d', g). rank (frames g)" and
        I = "\<lambda>(d', g'). d' = d\<lparr>bank := Bank3\<rparr> \<and> coherent rv d' g' \<and> same_store (view rv g) (view rv g')"],
      goal_cases)
    case 1
    show ?case using g by (simp add: same_store_def)
  next
    case (2 s)
    then obtain g' where s: "s = (d\<lparr>bank := Bank3\<rparr>, g')" "coherent rv (d\<lparr>bank := Bank3\<rparr>) g'"
      "same_store (view rv g) (view rv g')" by (cases s) auto
    from wire_mistat_round [OF s(2), of R] s(1,3) poll_endsD [OF mii, of g'] show ?case
      by (fastforce simp: mistat_poll_frame same_store_def coherent_def)
  qed
  from wire_mistat_round [OF coh, of R] obtain busy g where
    round: "do { (state, (dev, w)) \<leftarrow> enc28j60_read_reg (wire_io R) MISTAT (d, h);
      w \<leftarrow> cs_deselect (wire_io R) w; w \<leftarrow> cs_select (wire_io R) w;
      Some (bf_get BUSY state, (dev, w)) } = Some (busy, d\<lparr>bank := Bank3\<rparr>, g)"
    "coherent rv (d\<lparr>bank := Bank3\<rparr>) g" "same_store (view rv h) (view rv g)" by blast
  show ?thesis
  proof (cases busy)
    case True
    with round(1) have "write_phy_wait (wire_io R) (d, h) = write_phy_wait (wire_io R) (d\<lparr>bank := Bank3\<rparr>, g)"
      unfolding write_phy_wait_def by (intro do_while_again) simp
    with loop [OF round(2)] round(3) show ?thesis by (auto simp: same_store_def)
  next
    case False
    with round(1) have "write_phy_wait (wire_io R) (d, h) = Some (d\<lparr>bank := Bank3\<rparr>, g)"
      unfolding write_phy_wait_def by (intro do_while_stop) simp
    with round(2,3) show ?thesis by simp
  qed
qed

section \<open>Writing a PHY register\<close>

text \<open>The three MII writes, in whatever bank \<open>b\<close> the chip is in.\<close>

definition phy_store :: "u8 \<Rightarrow> Reg_t \<Rightarrow> u16 \<Rightarrow> (u8 \<times> u8 \<Rightarrow> u8) \<Rightarrow> (u8 \<times> u8 \<Rightarrow> u8)" where
  "phy_store b reg v f = f((b, 0x14) := reg_addr reg, (b, 0x16) := lo8 v, (b, 0x17) := hi8 v)"

lemma mii_decode: "decode_frame [0x54, v] = WCR 0x14 v" "decode_frame [0x56, v] = WCR 0x16 v"
    "decode_frame [0x57, v] = WCR 0x17 v"
  using decode_driver(1) [of "0x14" v] decode_driver(1) [of "0x16" v] decode_driver(1) [of "0x17" v] by simp_all

lemma wire_write_phy:
  assumes coh: "coherent rv d h" and reg: "reg_type reg = PHY_R" "reg_bank reg = Common"
    and mii: "mii_completes rv R rank"
  shows "\<exists>h'. enc28j60_write_reg (wire_io R) reg v (d, h) = Some (d\<lparr>bank := Bank3\<rparr>, h') \<and> quiet h' \<and>
    coherent rv (d\<lparr>bank := Bank3\<rparr>) h' \<and>
    hv_regs (view rv h') = phy_store (hv_bank (view rv h)) reg v (hv_regs (view rv h)) \<and>
    hv_mem (view rv h') = hv_mem (view rv h)"
proof -
  let ?h1 = "h @ [CsLow, Xfer 0x54, Xfer (reg_addr reg), CsHigh, CsLow, Xfer 0x56, Xfer (lo8 v), CsHigh,
    CsLow, Xfer 0x57, Xfer (hi8 v), CsHigh, CsLow]"
  have slots: "reg_slot b 0x14 = (b, 0x14)" "reg_slot b 0x16 = (b, 0x16)" "reg_slot b 0x17 = (b, 0x17)" for b
    by (simp_all add: reg_slot_def)
  have set: "settled h" using coh by (simp add: coherent_def)
  have settle: "settled ?h1"
    using quiet_then_settled [of "h @ [CsLow, Xfer 0x54, Xfer (reg_addr reg), CsHigh, CsLow, Xfer 0x56, Xfer (lo8 v),
        CsHigh, CsLow, Xfer 0x57, Xfer (hi8 v), CsHigh]" "[CsLow]"] set
    by (simp add: settled_append wire_simps)
  have v1: "hv_regs (view rv ?h1) = phy_store (hv_bank (view rv h)) reg v (hv_regs (view rv h))"
    "hv_mem (view rv ?h1) = hv_mem (view rv h)" "hv_bank (view rv ?h1) = hv_bank (view rv h)"
    using set by (simp_all add: view_settled wire_simps mii_decode slots phy_store_def)
  with coh settle have "coherent rv d ?h1" by (simp add: coherent_def)
  from wire_write_phy_wait [OF this mii] obtain h2 where
    h2: "write_phy_wait (wire_io R) (d, ?h1) = Some (d\<lparr>bank := Bank3\<rparr>, h2)"
    "coherent rv (d\<lparr>bank := Bank3\<rparr>) h2" "same_store (view rv ?h1) (view rv h2)" by auto
  then have "quiet (h2 @ [CsHigh])" "view rv (h2 @ [CsHigh]) = view rv h2"
    by (simp_all add: coherent_def settled_high view_high)
  moreover have "enc28j60_write_reg (wire_io R) reg v (d, h) = Some (d\<lparr>bank := Bank3\<rparr>, h2 @ [CsHigh])"
    using reg h2(1) by (simp add: enc28j60_write_reg_def select_bank_def wire_simps reg_defs)
  ultimately show ?thesis
    using h2 v1 by (auto simp: coherent_def same_store_def quiet_settled)
qed

section \<open>Reading a PHY register\<close>

lemma mii_read_decode: "decode_frame [0x52, v] = WCR 0x12 v" "decode_frame (0x12 # bs) = RCR 0x12"
    "decode_frame (0x18 # bs) = RCR 0x18" "decode_frame (0x19 # bs) = RCR 0x19"
  using decode_driver(1) [of "0x12" v] decode_driver(2) [of "0x12"] decode_driver(2) [of "0x18"]
    decode_driver(2) [of "0x19"] by simp_all

text \<open>The two MII registers a read writes: the PHY address, and \<open>MIIRD\<close> set, then cleared.\<close>

definition phy_read_store :: "Reg_t \<Rightarrow> (u8 \<times> u8 \<Rightarrow> u8) \<Rightarrow> (u8 \<times> u8 \<Rightarrow> u8) \<Rightarrow> bool" where
  "phy_read_store reg f f' \<longleftrightarrow> (\<exists>x. f' = f((2, 0x14) := reg_addr reg, (2, 0x12) := x) \<and> \<not> bit x MIIRD)"

lemma not_bit_clear: "\<not> bit (bf_clear k (x::u8)) k"
  by (simp add: bit_bf_clear)

lemma wire_read_phy:
  assumes set: "settled h" and mii: "mii_completes rv R rank"
  shows "\<exists>h' g. read_phy (wire_io R) reg (d, h) =
      Some (le16 (answer_byte R MII_R 0x18 g) (answer_byte R MII_R 0x19 (g @ read_frame MII_R 0x18)),
            d\<lparr>bank := Bank2\<rparr>, h') \<and>
    quiet (h' @ [CsHigh]) \<and> coherent rv (d\<lparr>bank := Bank2\<rparr>) (h' @ [CsHigh]) \<and>
    phy_read_store reg (hv_regs (view rv h)) (hv_regs (view rv (h' @ [CsHigh]))) \<and>
    hv_mem (view rv (h' @ [CsHigh])) = hv_mem (view rv h) \<and>
    quiet g \<and> hv_bank (view rv g) = 2 \<and> phy_read_store reg (hv_regs (view rv h)) (hv_regs (view rv g))"
proof -
  have slots: "reg_slot b 0x14 = (b, 0x14)" "reg_slot b 0x12 = (b, 0x12)" for b
    by (simp_all add: reg_slot_def)
  obtain h1 where h1: "enc28j60_bank_changing (wire_io R) Bank2 (d, h) = Some (d\<lparr>bank := Bank2\<rparr>, h1)"
    "quiet h1" "hv_bank (view rv h1) = 2" "same_store (view rv h) (view rv h1)"
    using wire_bank_changing [OF set, of Bank2 R d rv] by (auto simp: coherent_def)
  define x where "x = bf_set MIIRD (lo8 (le16 (R (h1 @ [CsLow, Xfer 0x12, Xfer 0, Xfer 0]))
    (R (h1 @ [CsLow, Xfer 0x12, Xfer 0]))))"
  define h2 where "h2 = h1 @ [CsLow, Xfer 0x12, Xfer 0, Xfer 0, CsHigh, CsLow, Xfer 0x54, Xfer (reg_addr reg),
    CsHigh, CsLow, Xfer 0x52, Xfer x, CsHigh]"
  have v2: "quiet h2" "hv_bank (view rv h2) = 2" "hv_mem (view rv h2) = hv_mem (view rv h)"
    "hv_regs (view rv h2) = (hv_regs (view rv h))((2, 0x14) := reg_addr reg, (2, 0x12) := x)"
    using h1 by (simp_all add: h2_def quiet_append view_append wire_simps mii_decode mii_read_decode slots same_store_def)
  obtain h3 where h3: "enc28j60_bank_changing (wire_io R) Bank3 (d\<lparr>bank := Bank2\<rparr>, h2) = Some (d\<lparr>bank := Bank3\<rparr>, h3)"
    "quiet h3" "same_store (view rv h2) (view rv h3)" "hv_bank (view rv h3) = 3"
    using wire_bank_changing [OF quiet_settled [OF v2(1)], of Bank3 R "d\<lparr>bank := Bank2\<rparr>" rv]
    by (auto simp: coherent_def)
  obtain h4 where h4: "poll_mistat (wire_io R) h3 = Some h4" "quiet h4" "view rv h4 = view rv h3"
    using wire_poll_mistat [OF quiet_settled [OF h3(2)] h3(4) mii] by blast
  have h4': "settled (h4 @ [CsHigh, CsLow])" "view rv (h4 @ [CsHigh, CsLow]) = view rv h4"
    using h4 by (simp_all add: quiet_then_settled view_append wire_simps)
  obtain h5 where h5: "enc28j60_bank_changing (wire_io R) Bank2 (d\<lparr>bank := Bank3\<rparr>, h4 @ [CsHigh, CsLow]) =
      Some (d\<lparr>bank := Bank2\<rparr>, h5)"
    "quiet h5" "hv_bank (view rv h5) = 2" "same_store (view rv h4) (view rv h5)"
    using wire_bank_changing [OF h4'(1), of Bank2 R "d\<lparr>bank := Bank3\<rparr>" rv] h4'(2) by (auto simp: coherent_def)
  define y where "y = bf_clear MIIRD (lo8 (le16 (R (h5 @ [CsLow, Xfer 0x12, Xfer 0, Xfer 0]))
    (R (h5 @ [CsLow, Xfer 0x12, Xfer 0]))))"
  define g where "g = h5 @ [CsLow, Xfer 0x12, Xfer 0, Xfer 0, CsHigh, CsLow, Xfer 0x52, Xfer y, CsHigh]"
  define h6 where "h6 = g @ [CsLow, Xfer 0x18, Xfer 0, Xfer 0, CsHigh, CsLow, Xfer 0x19, Xfer 0, Xfer 0]"
  have v6: "quiet (h6 @ [CsHigh])" "hv_bank (view rv (h6 @ [CsHigh])) = 2"
    "hv_mem (view rv (h6 @ [CsHigh])) = hv_mem (view rv h)"
    "hv_regs (view rv (h6 @ [CsHigh])) = (hv_regs (view rv h))((2, 0x14) := reg_addr reg, (2, 0x12) := y)"
    using h5 h4(3) h3(3) v2
    by (simp_all add: h6_def g_def quiet_append view_append wire_simps mii_decode mii_read_decode slots same_store_def)
  have vg: "quiet g" "hv_bank (view rv g) = 2"
    "hv_regs (view rv g) = (hv_regs (view rv h))((2, 0x14) := reg_addr reg, (2, 0x12) := y)"
    using h5 h4(3) h3(3) v2 by (simp_all add: g_def quiet_append view_append wire_simps mii_decode mii_read_decode slots same_store_def)
  have run: "read_phy (wire_io R) reg (d, h) =
      Some (le16 (answer_byte R MII_R 0x18 g) (answer_byte R MII_R 0x19 (g @ read_frame MII_R 0x18)),
            d\<lparr>bank := Bank2\<rparr>, h6)"
    using h1(1) h3(1) h4(1) h5(1)
    by (simp add: read_phy_def wire_simps reg_defs x_def h2_def y_def g_def h6_def Let_def answer_byte_def
        read_frame_def frame_ev_def le16_and_ff ucast_or_shift_le16)
  have "coherent rv (d\<lparr>bank := Bank2\<rparr>) (h6 @ [CsHigh])"
    using v6 by (simp add: coherent_def quiet_settled)
  with run v6 vg not_bit_clear show ?thesis
    unfolding phy_read_store_def y_def by blast
qed

lemma wire_read_phy_reg:
  assumes set: "settled h" and mii: "mii_completes rv R rank" and reg: "reg_type reg = PHY_R" "reg_bank reg = Common"
  shows "\<exists>h' g. enc28j60_read_reg (wire_io R) reg (d, h) =
      Some (le16 (answer_byte R MII_R 0x18 g) (answer_byte R MII_R 0x19 (g @ read_frame MII_R 0x18)),
            d\<lparr>bank := Bank2\<rparr>, h') \<and>
    quiet h' \<and> coherent rv (d\<lparr>bank := Bank2\<rparr>) h' \<and>
    phy_read_store reg (hv_regs (view rv h)) (hv_regs (view rv h')) \<and> hv_mem (view rv h') = hv_mem (view rv h) \<and>
    quiet g \<and> hv_bank (view rv g) = 2 \<and> phy_read_store reg (hv_regs (view rv h)) (hv_regs (view rv g))"
proof -
  have "settled (h @ [CsLow])" "view rv (h @ [CsLow]) = view rv h"
    using set by (simp_all add: settled_append view_settled)
  with wire_read_phy [OF this(1) mii, of reg d] reg show ?thesis
    by (auto simp: enc28j60_read_reg_def select_bank_def wire_simps)
qed

end
