(* ===== verification/Enc_Xfer.thy ===== *)
theory Enc_Xfer
  imports Enc_Phy
begin

unbundle bit_operations_syntax

text \<open>
  Buffer memory, reception and transmission: which bytes reach the chip, which bytes come back, and
  where the ring and transmit pointers stand afterwards.
\<close>

section \<open>Writing buffer memory\<close>

text \<open>A count above 32767 is never reached by the signed counter, whatever the IO layer does.\<close>

lemma sint_16_less: "sint (i :: u16) < 32768"
  using sint_lt [of i] by simp

lemma write_buf_loop_diverges:
  assumes "32767 < uint n"
  shows "write_buf_loop io buf n s = None"
proof (rule ccontr)
  assume "write_buf_loop io buf n s \<noteq> None"
  then obtain r where "write_buf_loop io buf n s = Some r" by blast
  then have False
    unfolding write_buf_loop_def
  proof (rule do_while_rule [where I = "\<lambda>_. True"])
    fix s s' :: "u16 \<times> 'a"
    assume "(case s of (i, w) \<Rightarrow>
        if sint i < uint n then do { (_, w) \<leftarrow> send_short_cmd io (buf (sint i)) w; Some (True, i + 1, w) }
        else Some (False, i, w)) = Some (False, s')"
    moreover have "sint (fst s) < uint n" using sint_16_less [of "fst s"] assms by linarith
    ultimately show False by (auto simp: bind_eq_Some_conv split: prod.splits)
  qed simp_all
  then show False .
qed

definition mem_bytes :: "(int \<Rightarrow> u8) \<Rightarrow> nat \<Rightarrow> nat \<Rightarrow> u8 list" where
  "mem_bytes buf i n = map (\<lambda>k. buf (int k)) [i..<n]"

lemma sint_16_small:
  assumes "unat (w :: u16) < 32768"
  shows "sint w = int (unat w)"
proof -
  have "int (unat w) < int 32768" using assms by (simp only: of_nat_less_iff)
  then have "uint w < 32768" by simp
  with signed_take_bit_int_eq_self [of 15 "uint w"] uint_ge_0 [of w] show ?thesis by (simp add: sint_uint)
qed

lemma sint_of_nat_16: "k < 32768 \<Longrightarrow> sint (of_nat k :: u16) = int k"
  using sint_16_small [of "of_nat k"] by (simp add: unat_of_nat take_bit_nat_eq_self)

lemma wire_write_buf_loop:
  assumes n: "unat n \<le> 32767" and k: "k \<le> unat n"
  shows "write_buf_loop (wire_io R) buf n (of_nat k, h) = Some (n, h @ map Xfer (mem_bytes buf k (unat n)))"
  using k
proof (induction "unat n - k" arbitrary: k h)
  case 0
  then have "k = unat n" by simp
  then show ?case
    using n unfolding write_buf_loop_def by (intro do_while_stop) (simp add: mem_bytes_def sint_16_small)
next
  case (Suc m)
  then have lt: "k < unat n" by simp
  with n have sk: "sint (of_nat k :: u16) = int k" by (intro sint_of_nat_16) simp
  moreover have "int k < int (unat n)" using lt by (simp only: of_nat_less_iff)
  then have "int k < uint n" by simp
  ultimately have "write_buf_loop (wire_io R) buf n (of_nat k, h) =
      write_buf_loop (wire_io R) buf n (of_nat (Suc k), h @ [Xfer (buf (int k))])"
    unfolding write_buf_loop_def by (intro do_while_again) (simp add: wire_simps add.commute)
  with Suc.hyps(1) [of "Suc k" "h @ [Xfer (buf (int k))]"] Suc.hyps(2) lt show ?case
    by (simp add: mem_bytes_def upt_conv_Cons)
qed

lemma wire_write_buf:
  assumes set: "settled h" and n: "unat n \<le> 32767"
  shows "\<exists>h'. enc28j60_write_buf (wire_io R) buf n (d, h) = Some (d, h') \<and> quiet h' \<and>
    cmds h' = cmds h @ [WBM (mem_bytes buf 0 (unat n))] \<and>
    view rv h' = fold hv_put (mem_bytes buf 0 (unat n)) (view rv h)"
  using set wire_write_buf_loop [OF n, of 0 R buf "h @ [CsLow, Xfer 0x7a]"] decode_driver(6) [of 0]
  by (simp add: enc28j60_write_buf_def wire_simps layout_defs settled_append view_settled cmds_def)
    (simp flip: cmds_def add: wire_simps)

section \<open>The chip's side of a buffer write\<close>

primrec mem_write :: "u16 \<Rightarrow> u8 list \<Rightarrow> (u16 \<Rightarrow> u8) \<Rightarrow> (u16 \<Rightarrow> u8)" where
  "mem_write p [] m = m"
| "mem_write p (b # bs) m = mem_write (p + 1) bs (m(p := b))"

lemma mem_write_append: "mem_write p (xs @ ys) m = mem_write (p + of_nat (length xs)) ys (mem_write p xs m)"
  by (induction xs arbitrary: p m) (simp_all add: add.assoc)

lemma mem_write_other: "(\<And>i. i < length bs \<Longrightarrow> a \<noteq> p + of_nat i) \<Longrightarrow> mem_write p bs m a = m a"
proof (induction bs arbitrary: p m)
  case (Cons b bs)
  have "mem_write (p + 1) bs (m(p := b)) a = (m(p := b)) a"
    using Cons.prems [of "Suc i" for i] by (intro Cons.IH) (simp add: add.assoc)
  with Cons.prems [of 0] show ?case by simp
qed simp

lemma mem_write_nth:
  assumes "i < length bs" "length bs \<le> 2 ^ 16"
  shows "mem_write p bs m (p + of_nat i) = bs ! i"
  using assms
proof (induction bs arbitrary: p m i)
  case (Cons b bs)
  show ?case
  proof (cases i)
    case 0
    have "mem_write (p + 1) bs (m(p := b)) p = (m(p := b)) p"
    proof (rule mem_write_other)
      fix j assume "j < length bs"
      with Cons.prems have "unat (of_nat (Suc j) :: u16) = Suc j"
        by (simp only: unat_of_nat) (simp add: take_bit_nat_eq_self)
      then have "(of_nat (Suc j) :: u16) \<noteq> 0" by (metis nat.distinct(1) unsigned_0)
      then show "p \<noteq> p + 1 + of_nat j" by (simp add: add.assoc)
    qed
    with 0 show ?thesis by simp
  next
    case (Suc j)
    with Cons.prems Cons.IH [where i = j and p = "p + 1" and m = "m(p := b)"] show ?thesis by (simp add: add.assoc del: fun_upd_apply)
  qed
qed simp

lemma and_1fff: "unat (p :: u16) < 0x2000 \<Longrightarrow> p AND 0x1fff = p"
  using less_mask_eq [of p 13] by (simp add: mask_eq_exp_minus_1 word_less_nat_alt)

lemma ewrpt_set [simp]: "ewrpt (set_ewrpt p v) = p" "autoinc (set_ewrpt p v) = autoinc v"
    "hv_mem (set_ewrpt p v) = hv_mem v" "hv_econ1 (set_ewrpt p v) = hv_econ1 v"
  by (simp_all add: ewrpt_def set_ewrpt_def autoinc_def)

lemma hv_put_autoinc:
  assumes "autoinc v" "unat (ewrpt v) < 0x2000"
  shows "hv_put b v = set_ewrpt ((ewrpt v + 1) AND 0x1fff) (v\<lparr>hv_mem := (hv_mem v)(ewrpt v := b)\<rparr>)"
  using assms by (simp add: hv_put_def Let_def and_1fff) (simp add: autoinc_def)

lemma fold_hv_put:
  assumes "autoinc v" "unat (ewrpt v) + length bs \<le> 0x2000"
  shows "hv_mem (fold hv_put bs v) = mem_write (ewrpt v) bs (hv_mem v) \<and> autoinc (fold hv_put bs v) \<and>
    hv_econ1 (fold hv_put bs v) = hv_econ1 v \<and>
    (\<forall>s. s \<noteq> (0, 2) \<and> s \<noteq> (0, 3) \<longrightarrow> hv_regs (fold hv_put bs v) s = hv_regs v s)"
  using assms
proof (induction bs arbitrary: v)
  case (Cons b bs)
  let ?v = "hv_put b v"
  have put: "?v = set_ewrpt ((ewrpt v + 1) AND 0x1fff) (v\<lparr>hv_mem := (hv_mem v)(ewrpt v := b)\<rparr>)"
    using Cons.prems by (intro hv_put_autoinc) simp_all
  have frame: "autoinc ?v" "hv_econ1 ?v = hv_econ1 v" "hv_mem ?v = (hv_mem v)(ewrpt v := b)"
    "\<forall>s. s \<noteq> (0, 2) \<and> s \<noteq> (0, 3) \<longrightarrow> hv_regs ?v s = hv_regs v s"
    using Cons.prems(1) unfolding put by (simp_all add: autoinc_def) (auto simp: set_ewrpt_def)
  show ?case
  proof (cases "bs = []")
    case True
    with frame show ?thesis by simp
  next
    case False
    then have "unat (ewrpt v) + 1 < 0x2000" using Cons.prems(2) by (cases bs) simp_all
    then have "unat (ewrpt v + 1) = unat (ewrpt v) + 1" by (simp add: unat_word_ariths)
    with \<open>unat (ewrpt v) + 1 < 0x2000\<close> have e: "ewrpt ?v = ewrpt v + 1"
      unfolding put by (simp add: and_1fff)
    have "unat (ewrpt ?v) + length bs \<le> 0x2000"
      using Cons.prems(2) \<open>unat (ewrpt v + 1) = unat (ewrpt v) + 1\<close> unfolding e by simp
    from Cons.IH [OF frame(1) this] frame e show ?thesis by (simp del: fun_upd_apply)
  qed
qed simp

section \<open>Transmission\<close>

lemma ctl_regs:
  "ctl_reg EWRPTL" "ctl_reg ETXNDL" "ctl_reg ETXSTL" "ctl_reg ERDPTL" "ctl_reg ERXRDPTL" "ctl_reg ECON2"
  "ctl_reg ERXSTL" "ctl_reg ERXNDL" "ctl_reg ERXFCON"
  by (simp_all add: ctl_reg_def reg_wf_def reg_defs word_le_nat_alt word_less_nat_alt)

lemma store_regs:
  "store_reg EWRPTL v f = f((0, 0x02) := lo8 v, (0, 0x03) := hi8 v)"
  "store_reg ETXSTL v f = f((0, 0x04) := lo8 v, (0, 0x05) := hi8 v)"
  "store_reg ETXNDL v f = f((0, 0x06) := lo8 v, (0, 0x07) := hi8 v)"
  "store_reg ERDPTL v f = f((0, 0x00) := lo8 v, (0, 0x01) := hi8 v)"
  "store_reg ERXRDPTL v f = f((0, 0x0c) := lo8 v, (0, 0x0d) := hi8 v)"
  "store_reg ECON2 v f = f((0, 0x1e) := lo8 v)"
  by (simp_all add: store_reg_def slot_of_def slot_hi_def reg_slot_def reg_defs word_le_nat_alt word_less_nat_alt)

lemma bank0_regs:
  "switch_dev EWRPTL d = d\<lparr>bank := Bank0\<rparr>" "switch_dev ETXSTL d = d\<lparr>bank := Bank0\<rparr>"
  "switch_dev ETXNDL d = d\<lparr>bank := Bank0\<rparr>" "switch_dev ERDPTL d = d\<lparr>bank := Bank0\<rparr>"
  "switch_dev ERXRDPTL d = d\<lparr>bank := Bank0\<rparr>" "switch_dev ECON2 d = d"
  by (simp_all add: switch_dev_def reg_defs)

lemma coherent_tx [simp]: "coherent rv (d\<lparr>tx_buff_ptr := p\<rparr>) h = coherent rv d h"
    "coherent rv (d\<lparr>next_rx_packet_ptr := p\<rparr>) h = coherent rv d h"
    "coherent rv (d\<lparr>enc_header := x\<rparr>) h = coherent rv d h"
  by (simp_all add: coherent_def)

text \<open>
  The bytes go to the write pointer; they are known to land there in order when the pointer moves on by itself and does
  not wrap.
\<close>

lemma hv_put_econ1: "hv_econ1 (fold hv_put bs v) = hv_econ1 v"
  by (induction bs arbitrary: v) (simp_all add: hv_put_def Let_def set_ewrpt_def)

lemma wire_write_to_tx:
  assumes coh: "coherent rv d h" and n: "unat n \<le> 32767"
  shows "\<exists>h'. enc28j60_write_to_tx (wire_io R) buf n (d, h) =
      Some (d\<lparr>bank := Bank0, tx_buff_ptr := tx_buff_ptr d + n\<rparr>, h') \<and> quiet h' \<and>
    coherent rv (d\<lparr>bank := Bank0\<rparr>) h' \<and>
    (autoinc (view rv h) \<and> unat (tx_buff_ptr d) + unat n \<le> 0x2000 \<longrightarrow> autoinc (view rv h') \<and>
      hv_mem (view rv h') = mem_write (tx_buff_ptr d) (mem_bytes buf 0 (unat n)) (hv_mem (view rv h)))"
proof -
  from wire_write_reg [OF coh ctl_regs(1), of R "tx_buff_ptr d"] obtain h1 where
    h1: "enc28j60_write_reg (wire_io R) EWRPTL (tx_buff_ptr d) (d, h) = Some (d\<lparr>bank := Bank0\<rparr>, h1)"
    "quiet h1" "coherent rv (d\<lparr>bank := Bank0\<rparr>) h1"
    "hv_regs (view rv h1) = (hv_regs (view rv h))((0, 2) := lo8 (tx_buff_ptr d), (0, 3) := hi8 (tx_buff_ptr d))"
    "hv_mem (view rv h1) = hv_mem (view rv h)"
    by (auto simp: store_regs bank0_regs)
  have e: "ewrpt (view rv h1) = tx_buff_ptr d" "autoinc (view rv h1) = autoinc (view rv h)"
    by (simp_all add: ewrpt_def autoinc_def h1(4))
  obtain h2 where h2: "enc28j60_write_buf (wire_io R) buf n (d\<lparr>bank := Bank0\<rparr>, h1) = Some (d\<lparr>bank := Bank0\<rparr>, h2)"
    "quiet h2" "view rv h2 = fold hv_put (mem_bytes buf 0 (unat n)) (view rv h1)"
    using wire_write_buf [OF quiet_settled [OF h1(2)] n, of R buf "d\<lparr>bank := Bank0\<rparr>" rv] by blast
  have "coherent rv (d\<lparr>bank := Bank0\<rparr>) h2"
    using h1(3) h2(2,3) by (simp add: coherent_def quiet_settled hv_bank_def hv_put_econ1)
  moreover have "autoinc (view rv h2) \<and> hv_mem (view rv h2) = mem_write (tx_buff_ptr d) (mem_bytes buf 0 (unat n)) (hv_mem (view rv h))"
    if "autoinc (view rv h)" "unat (tx_buff_ptr d) + unat n \<le> 0x2000"
    using fold_hv_put [of "view rv h1" "mem_bytes buf 0 (unat n)"] that e h1(5) h2(3) by (simp add: mem_bytes_def)
  ultimately show ?thesis
    using h1(1) h2 by (auto simp: enc28j60_write_to_tx_def)
qed

text \<open>What the chip is assumed to answer about \<open>ECON1\<close>: its bank bits truthfully, and \<open>TXRTS\<close> clear
  after finitely many polls.\<close>

definition bank_answers :: "host_view \<Rightarrow> (spi_event list \<Rightarrow> u8) \<Rightarrow> bool" where
  "bank_answers rv R \<longleftrightarrow> (\<forall>h. settled h \<longrightarrow> answer_byte R ETH_R 0x1f h AND 3 = hv_bank (view rv h))"

abbreviation tx_completes :: "host_view \<Rightarrow> (spi_event list \<Rightarrow> u8) \<Rightarrow> (u8 list list \<Rightarrow> nat) \<Rightarrow> bool" where
  "tx_completes rv R rank \<equiv> poll_ends rv R Common ETH_R 0x1f (\<lambda>x. bit x 3) rank"

lemma econ1_reg: "reg_wf ECON1" "reg_type ECON1 = ETH_R" "reg_bank ECON1 = Common" "reg_length ECON1 = 1"
    "reg_addr ECON1 = 0x1f"
  by (simp_all add: reg_defs reg_wf_def word_le_nat_alt word_less_nat_alt)

lemma bf_get_ucast: "bf_get k (v :: u16) = bit (ucast v :: u8) k" if "k < 8"
  using that by (simp add: bf_get_def bit_simps)

lemma wire_poll_txrts:
  assumes "coherent rv d h" "tx_completes rv R rank"
  shows "\<exists>h'. poll_txrts (wire_io R) (d, h) = Some (d, h') \<and> quiet h' \<and> coherent rv d h' \<and> view rv h' = view rv h"
  using wire_poll_eth [OF econ1_reg(1-4), of rv R "\<lambda>x. bit x 3" rank d h] assms
  by (auto simp: poll_txrts_def econ1_reg bf_get_ucast TXRTS_def)

text \<open>Read-modify-write of \<open>ECON1\<close>, as the driver sets a bit of it.\<close>

lemma wire_econ1_set:
  assumes coh: "coherent rv d h" and ans: "bank_answers rv R" and k: "2 \<le> k" "k < 8"
  shows "\<exists>h'. do { (tmp, s) \<leftarrow> enc28j60_read_reg (wire_io R) ECON1 (d, h);
      enc28j60_write_reg (wire_io R) ECON1 (bf_set k tmp) s } = Some (d, h') \<and> quiet h' \<and>
    coherent rv d h' \<and> same_store (view rv h) (view rv h') \<and> bit (hv_econ1 (view rv h')) k"
proof -
  let ?a = "answer_byte R ETH_R 0x1f h"
  have sel: "select_bank (wire_io R) ECON1 (d, h) = Some (d, h)" by (simp add: select_bank_def econ1_reg)
  have dev: "switch_dev ECON1 d = d" by (simp add: switch_dev_def econ1_reg)
  obtain h1 where h1: "enc28j60_read_reg (wire_io R) ECON1 (d, h) = Some (ucast ?a, d, h1)" "quiet h1"
    "coherent rv d h1" "view rv h1 = view rv h"
    using wire_read_reg [OF coh econ1_reg(1), of R] sel by (auto simp: dev econ1_reg reg_answer_def)
  obtain h2 where h2: "enc28j60_write_reg (wire_io R) ECON1 (bf_set k (ucast ?a)) (d, h1) = Some (d, h2)" "quiet h2"
    "view rv h2 = (view rv h1)\<lparr>hv_econ1 := lo8 (bf_set k (ucast ?a))\<rparr>"
    using wire_write_econ1 [OF quiet_settled [OF h1(2)], of R "bf_set k (ucast ?a)" d rv] by blast
  have "lo8 (bf_set k (ucast ?a)) AND 3 = ?a AND 3"
    using k unfolding mask2_u8 by (intro bit_word_eqI) (auto simp: lo8_def bit_simps bit_bf_set)
  also have "?a AND 3 = hv_bank (view rv h)"
    using ans coh by (simp add: bank_answers_def coherent_def)
  finally have "coherent rv d h2"
    using coh h1(4) h2(2,3) by (simp add: coherent_def quiet_settled hv_bank_def)
  moreover have "bit (hv_econ1 (view rv h2)) k"
    using k h2(3) by (simp add: lo8_def bit_simps bit_bf_set)
  ultimately show ?thesis using h1 h2 by (simp add: same_store_def)
qed

text \<open>The start of a transmission: end and start pointer, then \<open>TXRTS\<close>, after any earlier one is over.\<close>

lemma wire_ready_to_send:
  assumes coh: "coherent rv d h" and ans: "bank_answers rv R" and tx: "tx_completes rv R rank"
  shows "\<exists>h'. enc28j60_ready_to_send (wire_io R) (d, h) =
      Some (d\<lparr>bank := Bank0, tx_buff_ptr := TX_BUFFER_START_ADDR\<rparr>, h') \<and> quiet h' \<and>
    coherent rv (d\<lparr>bank := Bank0\<rparr>) h' \<and> bit (hv_econ1 (view rv h')) TXRTS \<and>
    hv_regs (view rv h') = store_reg ETXSTL TX_BUFFER_START_ADDR
      (store_reg ETXNDL (tx_buff_ptr d - 1) (hv_regs (view rv h))) \<and>
    hv_mem (view rv h') = hv_mem (view rv h)"
proof -
  let ?d = "d\<lparr>bank := Bank0\<rparr>"
  obtain h1 where h1: "poll_txrts (wire_io R) (d, h) = Some (d, h1)" "coherent rv d h1" "view rv h1 = view rv h"
    using wire_poll_txrts [OF coh tx] by blast
  obtain h2 where h2: "enc28j60_write_reg (wire_io R) ETXNDL (tx_buff_ptr d - 1) (d, h1) = Some (?d, h2)"
    "coherent rv ?d h2" "hv_regs (view rv h2) = store_reg ETXNDL (tx_buff_ptr d - 1) (hv_regs (view rv h1))"
    "hv_mem (view rv h2) = hv_mem (view rv h1)"
    using wire_write_reg [OF h1(2) ctl_regs(2), of R "tx_buff_ptr d - 1"] by (auto simp: bank0_regs)
  obtain h3 where h3: "enc28j60_write_reg (wire_io R) ETXSTL TX_BUFFER_START_ADDR (?d, h2) = Some (?d, h3)"
    "coherent rv ?d h3" "hv_regs (view rv h3) = store_reg ETXSTL TX_BUFFER_START_ADDR (hv_regs (view rv h2))"
    "hv_mem (view rv h3) = hv_mem (view rv h2)"
    using wire_write_reg [OF h2(2) ctl_regs(3), of R TX_BUFFER_START_ADDR] by (auto simp: bank0_regs)
  obtain h4 where h4: "do { (tmp, s) \<leftarrow> enc28j60_read_reg (wire_io R) ECON1 (?d, h3);
      enc28j60_write_reg (wire_io R) ECON1 (bf_set TXRTS tmp) s } = Some (?d, h4)"
    "coherent rv ?d h4" "same_store (view rv h3) (view rv h4)" "bit (hv_econ1 (view rv h4)) TXRTS"
    using wire_econ1_set [OF h3(2) ans, of TXRTS] by (auto simp: TXRTS_def)
  obtain h5 where h5: "poll_txrts (wire_io R) (?d, h4) = Some (?d, h5)" "quiet h5" "coherent rv ?d h5"
    "view rv h5 = view rv h4"
    using wire_poll_txrts [OF h4(2) tx] by blast
  have "enc28j60_ready_to_send (wire_io R) (d, h) = Some (?d\<lparr>tx_buff_ptr := TX_BUFFER_START_ADDR\<rparr>, h5)"
    using h1(1) h2(1) h3(1) h4(1) h5(1) by (auto simp: enc28j60_ready_to_send_def bind_eq_Some_conv split: prod.splits)
  then show ?thesis
    using h1 h2 h3 h4 h5 by (auto simp: same_store_def)
qed

end
