(* ===== verification/Enc_Recv.thy ===== *)
theory Enc_Recv
  imports Enc_Xfer
begin

unbundle bit_operations_syntax

text \<open>
  Reception: the bytes read from the ring buffer and the pointers left behind, on the ideal wire.
\<close>

section \<open>Reading buffer memory\<close>

text \<open>The answers to \<open>n\<close> dummy bytes after the trace \<open>g\<close>.\<close>

definition rx_bytes :: "(spi_event list \<Rightarrow> u8) \<Rightarrow> spi_event list \<Rightarrow> nat \<Rightarrow> u8 list" where
  "rx_bytes R g n = map (\<lambda>i. R (g @ replicate (Suc i) (Xfer 0xFF))) [0..<n]"

lemma length_rx_bytes [simp]: "length (rx_bytes R g n) = n"
  by (simp add: rx_bytes_def)

lemma rx_bytes_Suc: "rx_bytes R g (Suc n) = R (g @ [Xfer 0xFF]) # rx_bytes R (g @ [Xfer 0xFF]) n"
  by (simp add: rx_bytes_def upt_conv_Cons map_Suc_upt [symmetric] comp_def del: upt_Suc)

lemma wire_read_buf_loop:
  "read_buf_loop (wire_io R) n g = Some (rx_bytes R g n, g @ map Xfer (replicate n 0xFF))"
proof (induction n arbitrary: g)
  case 0
  show ?case by (simp add: rx_bytes_def)
next
  case (Suc n)
  from Suc.IH [of "g @ [Xfer 0xFF]"] show ?case
    by (simp add: wire_simps rx_bytes_Suc)
qed

text \<open>One RBM command of \<open>n\<close> bytes on the wire.\<close>

definition rbm_read :: "nat \<Rightarrow> spi_event list" where
  "rbm_read n = [CsLow, Xfer 0x3a] @ replicate n (Xfer 0xFF) @ [CsHigh]"

lemma wire_read_buf:
  assumes "settled h"
  shows "enc28j60_read_buf (wire_io R) n (d, h) =
      Some (rx_bytes R (h @ [CsLow, Xfer 0x3a]) (unat n), d, h @ rbm_read (unat n)) \<and>
    quiet (h @ rbm_read (unat n)) \<and> view rv (h @ rbm_read (unat n)) = view rv h"
  using assms decode_driver(5) [of 0 "replicate (unat n) 0xFF"] trace_eval_buf [of "0x3a" "replicate (unat n) 0xFF" "[]"]
  by (simp add: enc28j60_read_buf_def rbm_read_def wire_simps layout_defs wire_read_buf_loop settled_append view_settled)

section \<open>The next packet\<close>

text \<open>What reading the header at \<open>ERDPT = next_rx_packet_ptr\<close> brings, from the trace \<open>h\<close> on.\<close>

definition rx_at :: "host_view \<Rightarrow> u16 \<Rightarrow> spi_event list \<Rightarrow> bool" where
  "rx_at rv p h \<longleftrightarrow> quiet h \<and> hv_regs (view rv h) (0, 0) = lo8 p \<and> hv_regs (view rv h) (0, 1) = hi8 p"

definition rbm_answer :: "(spi_event list \<Rightarrow> u8) \<Rightarrow> spi_event list \<Rightarrow> nat \<Rightarrow> u8 list" where
  "rbm_answer R h n = rx_bytes R (h @ [CsLow, Xfer 0x3a]) n"

text \<open>The receive read pointer the driver programs: just behind the freed packet.\<close>

definition erxrdpt_for :: "u16 \<Rightarrow> u16" where
  "erxrdpt_for next = (if next = RX_BUFFER_START_ADDR then RX_BUFFER_END_ADDR else next - 1)"

lemma epktcnt_reg: "reg_wf EPKTCNT" "reg_type EPKTCNT = ETH_R" "reg_length EPKTCNT = 1" "reg_addr EPKTCNT = 0x19"
    "switch_dev EPKTCNT d = d\<lparr>bank := Bank1\<rparr>"
  by (simp_all add: reg_defs reg_wf_def switch_dev_def word_le_nat_alt word_less_nat_alt)

lemma econ2_reg: "reg_wf ECON2" "reg_type ECON2 = ETH_R" "reg_length ECON2 = 1" "reg_addr ECON2 = 0x1e"
    "reg_bank ECON2 = Common"
  by (simp_all add: reg_defs reg_wf_def word_le_nat_alt word_less_nat_alt)

text \<open>No packet: nothing is read or moved.\<close>

lemma wire_receive_none:
  assumes coh: "coherent rv d h"
    and sel: "select_bank (wire_io R) EPKTCNT (d, h) = Some (d1, h1)"
    and none: "answer_byte R ETH_R 0x19 h1 = 0"
  shows "\<exists>h'. enc28j60_receive_packet (wire_io R) maxlen (d, h) = Some ((0, []), d\<lparr>bank := Bank1\<rparr>, h') \<and>
    quiet h' \<and> coherent rv (d\<lparr>bank := Bank1\<rparr>) h' \<and> same_store (view rv h) (view rv h')"
  using wire_read_reg [OF coh epktcnt_reg(1), of R] sel none
  by (auto simp: enc28j60_receive_packet_def epktcnt_reg reg_answer_def)

lemma wire_receive_packet:
  assumes coh: "coherent rv d h"
    and sel: "select_bank (wire_io R) EPKTCNT (d, h) = Some (d1, h1)"
    and some: "answer_byte R ETH_R 0x19 h1 \<noteq> 0"
  shows "\<exists>g1 g3 h'. let hdr = header_of_bytes (rbm_answer R g1 6); len = rx_copy_len (byte_count hdr) maxlen in
    rx_at rv (next_rx_packet_ptr d) g1 \<and>
    hv_regs (view rv g3) = store_reg ERXRDPTL (erxrdpt_for (next_packet_ptr hdr)) (store_reg ERDPTL (next_packet_ptr hdr) (hv_regs (view rv h))) \<and>
    enc28j60_receive_packet (wire_io R) maxlen (d, h) = Some ((len, rbm_answer R (g1 @ rbm_read 6) (unat len)),
      d\<lparr>bank := Bank0, enc_header := hdr, next_rx_packet_ptr := next_packet_ptr hdr\<rparr>, h') \<and>
    quiet h' \<and> coherent rv (d\<lparr>bank := Bank0\<rparr>) h' \<and>
    hv_regs (view rv h') = store_reg ECON2 (ucast (bf_set PKTDEC (answer_byte R ETH_R 0x1e g3)))
      (store_reg ERXRDPTL (erxrdpt_for (next_packet_ptr hdr))
        (store_reg ERDPTL (next_packet_ptr hdr) (hv_regs (view rv h)))) \<and>
    hv_mem (view rv h') = hv_mem (view rv h)"
proof -
  let ?d0 = "d\<lparr>bank := Bank0\<rparr>"
  obtain h2 where h2: "enc28j60_read_reg (wire_io R) EPKTCNT (d, h) =
      Some (ucast (answer_byte R ETH_R 0x19 h1), d\<lparr>bank := Bank1\<rparr>, h2)"
    "coherent rv (d\<lparr>bank := Bank1\<rparr>) h2" "same_store (view rv h) (view rv h2)"
    using wire_read_reg [OF coh epktcnt_reg(1), of R] sel by (auto simp: epktcnt_reg reg_answer_def)
  obtain h3 where h3: "enc28j60_write_reg (wire_io R) ERDPTL (next_rx_packet_ptr d) (d\<lparr>bank := Bank1\<rparr>, h2) = Some (?d0, h3)"
    "quiet h3" "coherent rv ?d0 h3" "hv_regs (view rv h3) = store_reg ERDPTL (next_rx_packet_ptr d) (hv_regs (view rv h2))"
    "hv_mem (view rv h3) = hv_mem (view rv h2)"
    using wire_write_reg [OF h2(2) ctl_regs(4), of R "next_rx_packet_ptr d"] by (auto simp: bank0_regs)
  define hdr where "hdr = header_of_bytes (rbm_answer R h3 6)"
  define len where "len = rx_copy_len (byte_count hdr) maxlen"
  let ?d1 = "?d0\<lparr>enc_header := hdr\<rparr>"
  define h4 where "h4 = h3 @ rbm_read 6"
  have h4: "enc28j60_read_rx_header (wire_io R) (?d0, h3) = Some (?d1, h4)" "quiet h4" "view rv h4 = view rv h3"
    using wire_read_buf [OF quiet_settled [OF h3(2)], of R ENC_HEADER_SIZE ?d0 rv]
    by (auto simp: enc28j60_read_rx_header_def ENC_HEADER_SIZE_def hdr_def rbm_answer_def h4_def)
  obtain h5 where h5: "enc28j60_read_buf (wire_io R) len (?d1, h4) = Some (rbm_answer R h4 (unat len), ?d1, h5)"
    "quiet h5" "view rv h5 = view rv h4"
    using wire_read_buf [OF quiet_settled [OF h4(2)], of R len ?d1 rv] by (auto simp: rbm_answer_def)
  let ?d2 = "?d1\<lparr>next_rx_packet_ptr := next_packet_ptr hdr\<rparr>"
  have sw: "switch_dev ERDPTL ?d2 = ?d2" "switch_dev ERXRDPTL ?d2 = ?d2" "switch_dev ECON2 ?d2 = ?d2"
    by (cases d; simp add: switch_dev_def reg_defs)+
  have "coherent rv ?d2 h5"
    using h3(3) h4(3) h5(2,3) by (simp add: coherent_def quiet_settled)
  from wire_write_reg [OF this ctl_regs(4), of R "next_packet_ptr hdr"] obtain h6 where
    h6: "enc28j60_write_reg (wire_io R) ERDPTL (next_packet_ptr hdr) (?d2, h5) = Some (?d2, h6)"
    "coherent rv ?d2 h6" "hv_regs (view rv h6) = store_reg ERDPTL (next_packet_ptr hdr) (hv_regs (view rv h5))"
    "hv_mem (view rv h6) = hv_mem (view rv h5)"
    by (auto simp: sw)
  from wire_write_reg [OF h6(2) ctl_regs(5), of R "erxrdpt_for (next_packet_ptr hdr)"] obtain h7 where
    h7: "enc28j60_write_reg (wire_io R) ERXRDPTL (erxrdpt_for (next_packet_ptr hdr)) (?d2, h6) = Some (?d2, h7)"
    "coherent rv ?d2 h7"
    "hv_regs (view rv h7) = store_reg ERXRDPTL (erxrdpt_for (next_packet_ptr hdr)) (hv_regs (view rv h6))"
    "hv_mem (view rv h7) = hv_mem (view rv h6)"
    by (auto simp: sw)
  let ?a = "answer_byte R ETH_R 0x1e h7"
  have sel2: "select_bank (wire_io R) ECON2 (?d2, h7) = Some (?d2, h7)" by (simp add: select_bank_def econ2_reg)
  obtain h8 where h8: "enc28j60_read_reg (wire_io R) ECON2 (?d2, h7) = Some (ucast ?a, ?d2, h8)"
    "coherent rv ?d2 h8" "view rv h8 = view rv h7"
    using wire_read_reg [OF h7(2) econ2_reg(1), of R] sel2 by (auto simp: sw econ2_reg reg_answer_def)
  have lo: "lo8 (ucast x) = x" for x :: u8
    by (rule bit_word_eqI) (auto simp: lo8_def bit_simps)
  obtain h9 where h9: "enc28j60_write_reg (wire_io R) ECON2 (ucast (bf_set PKTDEC ?a)) (?d2, h8) = Some (?d2, h9)"
    "quiet h9" "coherent rv ?d2 h9"
    "hv_regs (view rv h9) = store_reg ECON2 (ucast (bf_set PKTDEC ?a)) (hv_regs (view rv h8))"
    "hv_mem (view rv h9) = hv_mem (view rv h8)"
    using wire_write_reg [OF h8(2) ctl_regs(6), of R "ucast (bf_set PKTDEC ?a)"] by (auto simp: sw)
  have some': "ucast (answer_byte R ETH_R 0x19 h1) \<noteq> (0::u16)"
    using some by (metis lo lo8_def ucast_0)
  have run: "enc28j60_receive_packet (wire_io R) maxlen (d, h) = Some ((len, rbm_answer R h4 (unat len)), ?d2, h9)"
    using h2(1) h3(1) h4(1) h5(1) h6(1) h7(1) h8(1) h9(1) some'
    by (cases "next_packet_ptr hdr = RX_BUFFER_START_ADDR")
      (simp_all add: enc28j60_receive_packet_def len_def erxrdpt_for_def lo Let_def)
  have moved: "hv_regs (view rv h7) =
      store_reg ERXRDPTL (erxrdpt_for (next_packet_ptr hdr)) (store_reg ERDPTL (next_packet_ptr hdr) (hv_regs (view rv h)))"
    using h2(3) h3(4) h4(3) h5(3) h6(3) h7(3) by (simp add: same_store_def store_regs(4))
  have store: "hv_regs (view rv h9) = store_reg ECON2 (ucast (bf_set PKTDEC ?a)) (hv_regs (view rv h7))"
    "hv_mem (view rv h9) = hv_mem (view rv h)"
    using h9(4,5) h8(3) h7(4) h6(4) h5(3) h4(3) h3(5) h2(3) by (simp_all add: same_store_def)
  have rx: "rx_at rv (next_rx_packet_ptr d) h3" using h3(2,4) by (simp add: rx_at_def store_regs(4))
  show ?thesis
    unfolding Let_def
    apply (rule exI [of _ h3], rule exI [of _ h7], rule exI [of _ h9])
    unfolding hdr_def [symmetric] len_def [symmetric] h4_def [symmetric]
    using run store moved rx h9(2,3) by simp
qed

section \<open>Bounds\<close>

lemma rx_copy_len_le: "rx_copy_len c m \<le> m"
  by (auto simp: rx_copy_len_def Let_def)

end
