(* ===== verification/Enc_Ref.thy ===== *)
theory Enc_Ref
  imports Enc_Recv
begin

unbundle bit_operations_syntax

text \<open>
  One concrete environment in which every hypothesis on the chip holds: a register file and buffer
  memory that remember what the host wrote, a packet waiting, no operation ever pending.  It is used
  only to show, in the witnesses, that those hypotheses can be met.
\<close>

definition ref_reg :: "host_view \<Rightarrow> u8 \<Rightarrow> u8" where
  "ref_reg v a =
     (if a = 0x1f then hv_econ1 v AND NOT 8
      else if a = 0x1d then 1
      else if hv_bank v = 3 \<and> a = 0x0a then 0
      else if hv_bank v = 2 \<and> a = 0x18 then hv_regs v (2, 0x16)
      else if hv_bank v = 2 \<and> a = 0x19 then hv_regs v (2, 0x17)
      else if hv_bank v = 1 \<and> a = 0x19 then 1
      else hv_regs v (reg_slot (hv_bank v) a))"

definition ref_reply :: "host_view \<Rightarrow> spi_event list \<Rightarrow> u8" where
  "ref_reply rv h =
     (let v = view rv h in
      case cur (framing_from frame0 h) of [] \<Rightarrow> 0
      | b # rest \<Rightarrow>
          (if b = 0x3a
           then hv_mem v ((le16 (hv_regs v (0, 0)) (hv_regs v (0, 1)) + of_nat (length rest) - 1) AND 0x1fff)
           else if b \<le> 0x1f then ref_reg v b else 0))"

definition rv0 :: host_view where
  "rv0 = \<lparr>hv_econ1 = 0, hv_regs = (\<lambda>s. if s = (0, 0x1e) then 0x80 else 0), hv_mem = (\<lambda>_. 0)\<rparr>"

definition env0 :: env where
  "env0 = \<lparr>miso = ref_reply rv0, rx_latency = (\<lambda>_. 2), bsy_latency = (\<lambda>_. 3), tc_latency = (\<lambda>_. 1)\<rparr>"

definition hw0 :: hw where
  "hw0 = \<lparr>rcc_apb2enr = 0, gpioa_crl = 0x44444444, gpioa_crh = 0x44444444, gpioa_odr = 0x10, spi1_cr1 = 0x40,
     spi1_cr2 = 0, spi_dr = 0, spi_shift = 0, spi_rxne = False, spi_rx_left = 0, spi_bsy_left = 0,
     usart1_brr = 0, usart1_cr1 = 0, usart_tc_left = 0, uart_log = [], hist = []\<rparr>"

definition dev0 :: enc28j60 where
  "dev0 = \<lparr>bank = Bank0, enc_header = \<lparr>next_packet_ptr = 0, byte_count = 0, status = 0\<rparr>,
     next_rx_packet_ptr = 0, tx_buff_ptr = 0x1800\<rparr>"

text \<open>A selected chip has the answer bytes of a register read open in the current frame.\<close>

lemma cur_open:
  assumes "settled h"
  shows "cur (framing_from frame0 (h @ CsLow # map Xfer bs)) = bs" "frames (h @ CsLow # map Xfer bs) = frames h"
proof -
  have eq: "framing_from frame0 (CsLow # map Xfer bs) = \<lparr>cs_is_low = True, cur = bs, finished = []\<rparr>"
    by (simp add: frame0_def framing_xfers)
  show "cur (framing_from frame0 (h @ CsLow # map Xfer bs)) = bs"
    using settled_framing [OF assms, of "map Xfer bs"] unfolding eq by simp
  show "frames (h @ CsLow # map Xfer bs) = frames h"
    using settled_framing [OF assms, of "map Xfer bs"] unfolding eq frames_def [of "h @ CsLow # map Xfer bs"] by simp
qed

lemma ref_answer:
  assumes "settled h" "a \<le> 0x1f"
  shows "answer_byte (ref_reply rv) t a h = ref_reg (view rv h) a"
proof -
  have v: "view rv (h @ CsLow # map Xfer bs) = view rv h" for bs
    using cur_open(2) [OF assms(1), of bs] by (simp add: view_def cmds_def)
  have "a \<noteq> 0x3a" using assms(2) by auto
  then show ?thesis
    using cur_open(1) [OF assms(1), of "[a, 0]"] cur_open(1) [OF assms(1), of "[a, 0, 0]"] assms(2)
      v [of "[a, 0]"] v [of "[a, 0, 0]"]
    by (simp add: answer_byte_def ref_reply_def Let_def)
qed

lemma hw0_ok: "spi_idle hw0" "hist hw0 = []" "coherent rv0 dev0 []" "autoinc rv0" "hw_boot hw0"
  by (simp_all add: hw0_def spi_idle_def coherent_def dev0_def rv0_def hv_bank_def autoinc_def AUTOINC_def
      hw_boot_def)

lemma ref_mii: "mii_completes rv (ref_reply rv) (\<lambda>_. 0)"
  by (auto simp: poll_ends_def ref_answer ref_reg_def)

lemma ref_tx: "tx_completes rv (ref_reply rv) (\<lambda>_. 0)"
  by (auto simp: poll_ends_def ref_answer ref_reg_def bit_simps)

lemma ref_bank: "bank_answers rv (ref_reply rv)"
  by (auto simp: bank_answers_def ref_answer ref_reg_def hv_bank_def and.assoc)

end
