(* ===== verification/Enc_Props.thy ===== *)
theory Enc_Props
  imports Enc_Ref
begin

unbundle bit_operations_syntax

text \<open>
  The properties of the driver as it runs on the port functions: the wire facts carried over by the
  interpretation \<open>port\<close> of the contract \<open>enc_io\<close>.
\<close>

text \<open>The driver is at rest: the SPI interface idle, and the recorded bank that of the chip.\<close>

definition drv_ok :: "host_view \<Rightarrow> enc28j60 \<Rightarrow> hw \<Rightarrow> bool" where
  "drv_ok rv d w \<longleftrightarrow> spi_idle w \<and> coherent rv d (hist w)"

definition chip :: "host_view \<Rightarrow> hw \<Rightarrow> host_view" where
  "chip rv w = view rv (hist w)"

lemma drv_ok0: "drv_ok rv0 dev0 hw0"
  using hw0_ok by (simp add: drv_ok_def)

lemma drv_okD: "drv_ok rv d w \<Longrightarrow> spi_idle w" "drv_ok rv d w \<Longrightarrow> coherent rv d (hist w)"
  by (simp_all add: drv_ok_def)

section \<open>The SPI port\<close>

text \<open>Whatever the delays of the SPI peripheral, \<open>enc28j60_hw_read_data_16b\<close> returns: it exchanges
  exactly the command byte and two zero bytes, the chip's second answer becomes the high byte and the
  third the low byte of the result, and the interface is idle again.\<close>

theorem port_read_data_16b:
  assumes "spi_idle w"
  shows "\<exists>w'. enc28j60_hw_read_data_16b E r w =
      Some (le16 (miso E (hist w @ [Xfer r, Xfer 0, Xfer 0])) (miso E (hist w @ [Xfer r, Xfer 0])), w') \<and>
    spi_idle w' \<and> hist w' = hist w @ [Xfer r, Xfer 0, Xfer 0]"
  using assms by (rule hw_read_data_16b_ok)

theorem port_read_data_16b_witness:
  "\<exists>w'. enc28j60_hw_read_data_16b env0 0x0a hw0 =
      Some (le16 (miso env0 ([Xfer 0x0a, Xfer 0, Xfer 0])) (miso env0 ([Xfer 0x0a, Xfer 0])), w') \<and>
    spi_idle w' \<and> hist w' = [Xfer 0x0a, Xfer 0, Xfer 0]"
  using port_read_data_16b [OF hw0_ok(1), of env0 "0x0a"] by (simp add: hw0_ok)

section \<open>Registers\<close>

text \<open>C8. A write to any ETH, MAC or MII register other than \<open>ECON1\<close> returns, leaves the driver coherent,
  and stores exactly the value's low byte (and high byte, for a 16-bit register) at the register's own
  bank and address; no other register but \<open>ECON1\<close> and no buffer byte changes.\<close>

theorem write_reg_stores:
  assumes "drv_ok rv d w" "ctl_reg reg"
  shows "\<exists>w'. enc28j60_write_reg (port_io E) reg v (d, w) = Some (switch_dev reg d, w') \<and>
    drv_ok rv (switch_dev reg d) w' \<and> quiet (hist w') \<and>
    hv_regs (chip rv w') = store_reg reg v (hv_regs (chip rv w)) \<and> hv_mem (chip rv w') = hv_mem (chip rv w)"
proof -
  from wire_write_reg [OF drv_okD(2) [OF assms(1)] assms(2), of "miso E" v] obtain h' where
    h': "enc28j60_write_reg (wire_io (miso E)) reg v (d, hist w) = Some (switch_dev reg d, h')" "quiet h'"
      "coherent rv (switch_dev reg d) h'" "hv_regs (view rv h') = store_reg reg v (hv_regs (view rv (hist w)))"
      "hv_mem (view rv h') = hv_mem (view rv (hist w))" by blast
  from port.transfer_st [OF port.write_reg_sim [OF port.wrelI [OF drv_okD(1) [OF assms(1)]]] h'(1)] h'(2-)
  show ?thesis by (auto simp: drv_ok_def chip_def)
qed

lemma macon3_ctl: "ctl_reg MACON3"
  by (simp add: ctl_reg_def reg_wf_def reg_defs word_le_nat_alt word_less_nat_alt)

theorem write_reg_stores_witness:
  "\<exists>w'. enc28j60_write_reg (port_io env0) MACON3 0x33 (dev0, hw0) = Some (switch_dev MACON3 dev0, w') \<and>
    drv_ok rv0 (switch_dev MACON3 dev0) w' \<and> quiet (hist w') \<and>
    hv_regs (chip rv0 w') = store_reg MACON3 0x33 (hv_regs (chip rv0 hw0)) \<and> hv_mem (chip rv0 w') = hv_mem (chip rv0 hw0)"
  by (rule write_reg_stores [OF drv_ok0 macon3_ctl])

text \<open>A register whose bytes the chip answers as they were last written.\<close>

definition mem_reg :: "host_view \<Rightarrow> (spi_event list \<Rightarrow> u8) \<Rightarrow> Reg_t \<Rightarrow> bool" where
  "mem_reg rv R reg \<longleftrightarrow> (\<forall>h. settled h \<and> (reg_bank reg \<noteq> Common \<longrightarrow> hv_bank (view rv h) = bank_val (reg_bank reg)) \<longrightarrow>
     answer_byte R (reg_type reg) (reg_addr reg) h = hv_regs (view rv h) (slot_of reg) \<and>
     (reg_length reg = 2 \<longrightarrow> answer_byte R (reg_type reg) (reg_addr reg + 1) h = hv_regs (view rv h) (slot_hi reg)))"

lemma slot_lo_hi: "ctl_reg reg \<Longrightarrow> slot_of reg \<noteq> slot_hi reg"
  by (simp add: slot_of_def slot_hi_def reg_slot_def)

lemma coherent_bank: "coherent rv (switch_dev reg d) h \<Longrightarrow> reg_bank reg \<noteq> Common \<Longrightarrow>
    hv_bank (view rv h) = bank_val (reg_bank reg)"
  by (simp add: coherent_def switch_dev_def)

lemma read_frame_settled: "settled h \<Longrightarrow> a \<le> 0x1f \<Longrightarrow>
    settled (h @ read_frame t a) \<and> view rv (h @ read_frame t a) = view rv h"
  using decode_driver(2) [of a]
  by (auto simp: read_frame_def frame_ev_def settled_append view_settled wire_simps quiet_settled)

lemma wire_reg_answer:
  assumes "coherent rv (switch_dev reg d) h" "ctl_reg reg" "mem_reg rv R reg"
    "hv_regs (view rv h) = store_reg reg v f"
  shows "reg_answer R reg h = (if reg_length reg = 2 then v else v AND 0xff)"
proof -
  have h: "settled h" "reg_bank reg \<noteq> Common \<longrightarrow> hv_bank (view rv h) = bank_val (reg_bank reg)"
    using assms(1) coherent_bank by (auto simp: coherent_def)
  note frame = read_frame_settled [OF h(1) ctl_reg_addr(1) [OF assms(2)], of "reg_type reg" rv]
  have "ucast (lo8 v) = v AND 0xff"
    using le16_and_ff [of "lo8 v" "hi8 v"] by simp
  with assms(3) h frame slot_lo_hi [OF assms(2)] show ?thesis
    unfolding mem_reg_def by (simp add: reg_answer_def Let_def assms(4) store_reg_def)
qed

text \<open>C9. Round trip: what \<open>enc28j60_write_reg\<close> wrote to a register that the chip keeps, a following
  \<open>enc28j60_read_reg\<close> returns: all 16 bits of a two-byte register, the low byte of the others, for ETH
  registers as for MAC and MII registers with their dummy byte.\<close>

theorem write_read_roundtrip:
  assumes "drv_ok rv d w" "ctl_reg reg" "mem_reg rv (miso E) reg"
  shows "\<exists>w1 w2. enc28j60_write_reg (port_io E) reg v (d, w) = Some (switch_dev reg d, w1) \<and>
    enc28j60_read_reg (port_io E) reg (switch_dev reg d, w1) =
      Some (if reg_length reg = 2 then v else v AND 0xff, switch_dev reg d, w2) \<and>
    drv_ok rv (switch_dev reg d) w2"
proof -
  let ?d = "switch_dev reg d"
  obtain h1 where h1: "enc28j60_write_reg (wire_io (miso E)) reg v (d, hist w) = Some (?d, h1)"
      "coherent rv ?d h1" "hv_regs (view rv h1) = store_reg reg v (hv_regs (view rv (hist w)))"
    using wire_write_reg [OF drv_okD(2) [OF assms(1)] assms(2), of "miso E" v] by blast
  from port.transfer_st [OF port.write_reg_sim [OF port.wrelI [OF drv_okD(1) [OF assms(1)]]] h1(1)] obtain w1 where
    w1: "enc28j60_write_reg (port_io E) reg v (d, w) = Some (?d, w1)" "spi_idle w1" "hist w1 = h1" by blast
  have reg: "reg_wf reg" "reg_type reg \<noteq> PHY_R" using assms(2) by (simp_all add: ctl_reg_def)
  have dd: "switch_dev reg ?d = ?d" by (simp add: switch_dev_def)
  have "select_bank (wire_io (miso E)) reg (?d, h1) = Some (?d, h1)"
    by (simp add: select_bank_def switch_dev_def)
  with wire_read_reg [OF h1(2) reg, of "miso E"] obtain h2 where
    h2: "enc28j60_read_reg (wire_io (miso E)) reg (?d, hist w1) = Some (reg_answer (miso E) reg h1, ?d, h2)"
      "coherent rv ?d h2" unfolding dd w1(3) by auto
  from port.transfer_rst [OF port.read_reg_sim [OF port.wrelI [OF w1(2)]] h2(1)] obtain w2 where
    "enc28j60_read_reg (port_io E) reg (?d, w1) = Some (reg_answer (miso E) reg h1, ?d, w2)" "spi_idle w2" "hist w2 = h2"
    by blast
  with w1 h2 wire_reg_answer [OF h1(2) assms(2,3) h1(3)] show ?thesis
    by (auto simp: drv_ok_def)
qed

lemma ref_mem_mamxfl: "mem_reg rv0 (miso env0) MAMXFLL" "ctl_reg MAMXFLL"
  by (auto simp: mem_reg_def env0_def ref_answer ref_reg_def slot_of_def slot_hi_def reg_slot_def reg_defs
      ctl_reg_def reg_wf_def word_le_nat_alt word_less_nat_alt)

theorem write_read_roundtrip_witness:
  "\<exists>w1 w2. enc28j60_write_reg (port_io env0) MAMXFLL 0x1234 (dev0, hw0) = Some (switch_dev MAMXFLL dev0, w1) \<and>
    enc28j60_read_reg (port_io env0) MAMXFLL (switch_dev MAMXFLL dev0, w1) =
      Some (0x1234, switch_dev MAMXFLL dev0, w2) \<and> drv_ok rv0 (switch_dev MAMXFLL dev0) w2"
  using write_read_roundtrip [OF drv_ok0 ref_mem_mamxfl(2,1), of "0x1234"] by (simp add: reg_defs)

section \<open>PHY registers\<close>

text \<open>C13. A write to a PHY register returns once the MII has finished, and its three MII register writes
  (address, low byte, high byte) go to whatever bank the chip was in: they reach \<open>MIREGADR\<close> and
  \<open>MIWR\<close>, which are in bank 2, exactly when the driver was in bank 2.  The driver does not select it.\<close>

theorem write_phy_follows_bank:
  assumes "drv_ok rv d w" "bank d \<noteq> Common" "reg_type reg = PHY_R" "reg_bank reg = Common"
    and "mii_completes rv (miso E) rank"
  shows "\<exists>w'. enc28j60_write_reg (port_io E) reg v (d, w) = Some (d\<lparr>bank := Bank3\<rparr>, w') \<and>
    drv_ok rv (d\<lparr>bank := Bank3\<rparr>) w' \<and>
    hv_regs (chip rv w') = (hv_regs (chip rv w))((bank_val (bank d), reg_addr MIREGADR) := reg_addr reg,
      (bank_val (bank d), reg_addr MIWRL) := lo8 v, (bank_val (bank d), reg_addr MIWRL + 1) := hi8 v) \<and>
    (bank_val (bank d) = bank_val (reg_bank MIREGADR) \<longleftrightarrow> bank d = Bank2)"
proof -
  have b: "hv_bank (view rv (hist w)) = bank_val (bank d)"
    using assms(1,2) by (simp add: drv_ok_def coherent_def)
  from wire_write_phy [OF drv_okD(2) [OF assms(1)] assms(3,4,5), of v] obtain h' where
    h': "enc28j60_write_reg (wire_io (miso E)) reg v (d, hist w) = Some (d\<lparr>bank := Bank3\<rparr>, h')"
      "coherent rv (d\<lparr>bank := Bank3\<rparr>) h'"
      "hv_regs (view rv h') = phy_store (bank_val (bank d)) reg v (hv_regs (view rv (hist w)))" unfolding b by blast
  have "bank_val (bank d) = 2 \<longleftrightarrow> bank d = Bank2" by (cases "bank d") simp_all
  with port.transfer_st [OF port.write_reg_sim [OF port.wrelI [OF drv_okD(1) [OF assms(1)]]] h'(1)] h'(2-)
  show ?thesis by (auto simp: drv_ok_def chip_def phy_store_def reg_defs)
qed

theorem write_phy_follows_bank_witness:
  "\<exists>w'. enc28j60_write_reg (port_io env0) PHLCON 0x3883 (dev0, hw0) = Some (dev0\<lparr>bank := Bank3\<rparr>, w') \<and>
    hv_regs (chip rv0 w') = (hv_regs (chip rv0 hw0))((0, 0x14) := 0x14, (0, 0x16) := lo8 0x3883, (0, 0x17) := hi8 0x3883)"
proof -
  have "mii_completes rv0 (miso env0) (\<lambda>_. 0)" by (simp add: env0_def ref_mii)
  moreover have "bank dev0 = Bank0" "reg_type PHLCON = PHY_R" "reg_bank PHLCON = Common"
    by (simp_all add: dev0_def reg_defs)
  ultimately show ?thesis
    using write_phy_follows_bank [OF drv_ok0, of PHLCON env0 "\<lambda>_. 0" "0x3883"]
    by (auto simp: reg_defs)
qed

text \<open>Reading a PHY register selects bank 2 by itself: from any bank it returns the two bytes the chip
  answers for \<open>MIRDL\<close> and \<open>MIRDH\<close>, with \<open>MIREGADR\<close> set to the PHY address, \<open>MIIRD\<close> cleared again, and
  the driver left in bank 2, where a following PHY write is addressed correctly.\<close>

theorem read_phy_returns:
  assumes "drv_ok rv d w" "reg_type reg = PHY_R" "reg_bank reg = Common" and "mii_completes rv (miso E) rank"
  shows "\<exists>w' g. enc28j60_read_reg (port_io E) reg (d, w) =
      Some (le16 (answer_byte (miso E) MII_R (reg_addr MIRDL) g)
        (answer_byte (miso E) MII_R (reg_addr MIRDL + 1) (g @ read_frame MII_R (reg_addr MIRDL))),
        d\<lparr>bank := Bank2\<rparr>, w') \<and>
    drv_ok rv (d\<lparr>bank := Bank2\<rparr>) w' \<and> hv_regs (chip rv w') (2, reg_addr MIREGADR) = reg_addr reg \<and>
    \<not> bit (hv_regs (chip rv w') (2, reg_addr MICMD)) MIIRD"
proof -
  have set: "settled (hist w)" using assms(1) by (simp add: drv_ok_def coherent_def)
  from wire_read_phy_reg [OF set assms(4,2,3), of d] obtain h' g where
    h': "enc28j60_read_reg (wire_io (miso E)) reg (d, hist w) =
      Some (le16 (answer_byte (miso E) MII_R 0x18 g) (answer_byte (miso E) MII_R 0x19 (g @ read_frame MII_R 0x18)),
        d\<lparr>bank := Bank2\<rparr>, h')" "coherent rv (d\<lparr>bank := Bank2\<rparr>) h'"
      "phy_read_store reg (hv_regs (view rv (hist w))) (hv_regs (view rv h'))" by blast
  from port.transfer_rst [OF port.read_reg_sim [OF port.wrelI [OF drv_okD(1) [OF assms(1)]]] h'(1)] h'(2-)
  show ?thesis
    by (fastforce simp: drv_ok_def chip_def phy_read_store_def reg_defs)
qed

theorem read_phy_returns_witness:
  "\<exists>w' g. enc28j60_read_reg (port_io env0) PHCON1 (dev0, hw0) =
      Some (le16 (answer_byte (miso env0) MII_R (reg_addr MIRDL) g)
        (answer_byte (miso env0) MII_R (reg_addr MIRDL + 1) (g @ read_frame MII_R (reg_addr MIRDL))),
        dev0\<lparr>bank := Bank2\<rparr>, w') \<and>
    drv_ok rv0 (dev0\<lparr>bank := Bank2\<rparr>) w' \<and> hv_regs (chip rv0 w') (2, reg_addr MIREGADR) = reg_addr PHCON1 \<and>
    \<not> bit (hv_regs (chip rv0 w') (2, reg_addr MICMD)) MIIRD"
  by (rule read_phy_returns [OF drv_ok0, where rank = "\<lambda>_. 0"]) (simp_all add: reg_defs env0_def ref_mii)

section \<open>Reset\<close>

lemma wire_soft_reset:
  assumes "settled h"
  shows "\<exists>h'. enc28j60_soft_reset (wire_io R) (d, h) = Some (d, h') \<and> quiet h' \<and>
    view rv h' = rv\<lparr>hv_mem := hv_mem (view rv h)\<rparr>"
  using assms decode_driver(7) [of 0 "[]"]
  by (simp add: enc28j60_soft_reset_def wire_simps layout_defs settled_append view_settled)

text \<open>C14. \<open>enc28j60_soft_reset\<close> puts the chip back to bank 0 but keeps the driver's record of the bank, so
  the driver is coherent afterwards exactly if that record was bank 0 or \<open>Common\<close>.\<close>

theorem soft_reset_coherence:
  assumes "drv_ok rv d w" "hv_bank rv = bank_val Bank0"
  shows "\<exists>w'. enc28j60_soft_reset (port_io E) (d, w) = Some (d, w') \<and> spi_idle w' \<and>
    hv_bank (chip rv w') = bank_val Bank0 \<and> hv_mem (chip rv w') = hv_mem (chip rv w) \<and>
    (drv_ok rv d w' \<longleftrightarrow> bank d = Bank0 \<or> bank d = Common)"
proof -
  have set: "settled (hist w)" using assms(1) by (simp add: drv_ok_def coherent_def)
  from wire_soft_reset [OF set, of "miso E" d rv] obtain h' where
    h': "enc28j60_soft_reset (wire_io (miso E)) (d, hist w) = Some (d, h')" "quiet h'"
      "view rv h' = rv\<lparr>hv_mem := hv_mem (view rv (hist w))\<rparr>" by blast
  have "bank d = Bank0 \<or> bank d = Common \<longleftrightarrow> (bank d \<noteq> Common \<longrightarrow> bank_val (bank d) = 0)"
    by (cases "bank d") simp_all
  with port.transfer_st [OF port.soft_reset_sim [OF port.wrelI [OF drv_okD(1) [OF assms(1)]]] h'(1)] h'(2-) assms(2)
  show ?thesis by (auto simp: drv_ok_def chip_def coherent_def quiet_settled)
qed

theorem soft_reset_coherence_witness:
  "\<exists>w'. enc28j60_soft_reset (port_io env0) (dev0, hw0) = Some (dev0, w') \<and> spi_idle w' \<and>
    hv_bank (chip rv0 w') = bank_val Bank0 \<and> hv_mem (chip rv0 w') = hv_mem (chip rv0 hw0) \<and>
    (drv_ok rv0 dev0 w' \<longleftrightarrow> bank dev0 = Bank0 \<or> bank dev0 = Common)"
  by (rule soft_reset_coherence [OF drv_ok0]) (simp add: rv0_def hv_bank_def)

end
