(* ===== verification/Enc_Frames.thy ===== *)
theory Enc_Frames
  imports Enc_Props
begin

unbundle bit_operations_syntax

text \<open>
  The properties of buffer transfers and of reception on the port functions.
\<close>

section \<open>Buffer transfers\<close>

text \<open>\<open>enc28j60_write_buf\<close> sends exactly one WBM command with the first \<open>buf_lng\<close> bytes of \<open>buf\<close>, for
  every count up to 32767.\<close>

theorem write_buf_sends:
  assumes "drv_ok rv d w" "unat n \<le> 32767"
  shows "\<exists>w'. enc28j60_write_buf (port_io E) buf n (d, w) = Some (d, w') \<and> spi_idle w' \<and> quiet (hist w') \<and>
    cmds (hist w') = cmds (hist w) @ [WBM (mem_bytes buf 0 (unat n))]"
proof -
  have set: "settled (hist w)" using assms(1) by (simp add: drv_ok_def coherent_def)
  from wire_write_buf [OF set assms(2), of "miso E" buf d] obtain h' where
    h': "enc28j60_write_buf (wire_io (miso E)) buf n (d, hist w) = Some (d, h')" "quiet h'"
      "cmds h' = cmds (hist w) @ [WBM (mem_bytes buf 0 (unat n))]" by blast
  from port.transfer_st [OF port.write_buf_sim [OF port.wrelI [OF drv_okD(1) [OF assms(1)]]] h'(1)] h'(2-)
  show ?thesis by auto
qed

theorem write_buf_sends_witness:
  "\<exists>w'. enc28j60_write_buf (port_io env0) (\<lambda>i. of_int i + 7) 3 (dev0, hw0) = Some (dev0, w') \<and> spi_idle w' \<and>
    quiet (hist w') \<and> cmds (hist w') = cmds (hist hw0) @ [WBM (mem_bytes (\<lambda>i. of_int i + 7) 0 (unat (3::u16)))]"
  by (rule write_buf_sends [OF drv_ok0]) simp

text \<open>C15. For every count above 32767 it never returns, whatever the hardware does: the signed loop counter
  cannot reach the bound.\<close>

theorem write_buf_diverges:
  assumes "32767 < unat n"
  shows "enc28j60_write_buf (port_io E) buf n s = None"
proof -
  have "int 32767 < int (unat n)" using assms by (simp only: of_nat_less_iff)
  then have "32767 < uint n" by simp
  then show ?thesis
    by (cases s) (simp add: enc28j60_write_buf_def write_buf_loop_diverges bind_eq_None_conv split: prod.splits)
qed

theorem write_buf_diverges_witness:
  "enc28j60_write_buf (port_io env0) (\<lambda>_. 0) 0x8000 (dev0, hw0) = None"
  by (rule write_buf_diverges) simp

section \<open>Reception\<close>

text \<open>C10. With a packet waiting, \<open>enc28j60_receive_packet\<close> reads the header from the ring at the recorded position, and the
  payload right behind it: the command that reads the payload follows the one that read the header, with nothing in between that
  would move the read pointer.  It returns the length without CRC, cut to the buffer, together with that many bytes, moves on to the
  next packet's address and frees the ring up to just before it; only then it requests one packet decrement, in \<open>ECON2\<close> as it reads
  at that time.  The buffer memory is not written.\<close>

theorem receive_packet_reads:
  assumes "drv_ok rv d w"
    and "select_bank (wire_io (miso E)) EPKTCNT (d, hist w) = Some (d1, h1)"
    and "answer_byte (miso E) ETH_R (reg_addr EPKTCNT) h1 \<noteq> 0"
  shows "\<exists>g1 g3 w'. let hdr = header_of_bytes (rbm_answer (miso E) g1 6);
      len = rx_copy_len (byte_count hdr) maxlen;
      moved = store_reg ERXRDPTL (erxrdpt_for (next_packet_ptr hdr)) (store_reg ERDPTL (next_packet_ptr hdr) (hv_regs (chip rv w))) in
    rx_at rv (next_rx_packet_ptr d) g1 \<and> hv_regs (view rv g3) = moved \<and>
    enc28j60_receive_packet (port_io E) maxlen (d, w) = Some ((len, rbm_answer (miso E) (g1 @ rbm_read 6) (unat len)),
      d\<lparr>bank := Bank0, enc_header := hdr, next_rx_packet_ptr := next_packet_ptr hdr\<rparr>, w') \<and>
    drv_ok rv (d\<lparr>bank := Bank0\<rparr>) w' \<and> hv_mem (chip rv w') = hv_mem (chip rv w) \<and>
    hv_regs (chip rv w') = store_reg ECON2 (ucast (bf_set PKTDEC (answer_byte (miso E) ETH_R (reg_addr ECON2) g3))) moved"
proof -
  have "answer_byte (miso E) ETH_R 0x19 h1 \<noteq> 0" using assms(3) by (simp add: epktcnt_reg)
  from wire_receive_packet [OF drv_okD(2) [OF assms(1)] assms(2) this, of maxlen] obtain g1 g3 h' hdr len where
    h': "hdr = header_of_bytes (rbm_answer (miso E) g1 6)" "len = rx_copy_len (byte_count hdr) maxlen"
      "rx_at rv (next_rx_packet_ptr d) g1" "coherent rv (d\<lparr>bank := Bank0\<rparr>) h'"
      "hv_regs (view rv h') = store_reg ECON2 (ucast (bf_set PKTDEC (answer_byte (miso E) ETH_R 0x1e g3)))
        (store_reg ERXRDPTL (erxrdpt_for (next_packet_ptr hdr))
          (store_reg ERDPTL (next_packet_ptr hdr) (hv_regs (view rv (hist w)))))"
      "hv_regs (view rv g3) = store_reg ERXRDPTL (erxrdpt_for (next_packet_ptr hdr)) (store_reg ERDPTL (next_packet_ptr hdr) (hv_regs (view rv (hist w))))"
      "hv_mem (view rv h') = hv_mem (view rv (hist w))" and
    run: "enc28j60_receive_packet (wire_io (miso E)) maxlen (d, hist w) = Some ((len, rbm_answer (miso E) (g1 @ rbm_read 6) (unat len)),
        d\<lparr>bank := Bank0, enc_header := hdr, next_rx_packet_ptr := next_packet_ptr hdr\<rparr>, h')"
    unfolding Let_def by blast
  from port.transfer_rst [OF port.receive_packet_sim [OF port.wrelI [OF drv_okD(1) [OF assms(1)]]] run]
  obtain w' where w': "enc28j60_receive_packet (port_io E) maxlen (d, w) = Some ((len, rbm_answer (miso E) (g1 @ rbm_read 6) (unat len)),
        d\<lparr>bank := Bank0, enc_header := hdr, next_rx_packet_ptr := next_packet_ptr hdr\<rparr>, w')"
      "spi_idle w'" "hist w' = h'" by blast
  with h' show ?thesis
    by (intro exI [of _ g1] exI [of _ g3] exI [of _ w'])
      (simp add: Let_def h'(1,2) [symmetric] drv_ok_def chip_def econ2_reg)
qed

lemma ref_packet_waiting:
  assumes "select_bank (wire_io (miso env0)) EPKTCNT (dev0, hist hw0) = Some (d1, h1)"
  shows "answer_byte (miso env0) ETH_R (reg_addr EPKTCNT) h1 \<noteq> 0"
proof -
  from wire_select_bank [OF hw0_ok(3), of "miso env0" EPKTCNT] assms have "settled h1" "hv_bank (view rv0 h1) = 1"
    by (auto simp: hw0_ok coherent_def reg_defs)
  then show ?thesis by (simp add: env0_def epktcnt_reg ref_answer ref_reg_def)
qed

theorem receive_packet_reads_witness:
  "\<exists>g1 len d' w'. enc28j60_receive_packet (port_io env0) 1520 (dev0, hw0) = Some ((len, rbm_answer (miso env0) (g1 @ rbm_read 6) (unat len)), d', w') \<and>
    rx_at rv0 (next_rx_packet_ptr dev0) g1 \<and> next_rx_packet_ptr d' = next_packet_ptr (header_of_bytes (rbm_answer (miso env0) g1 6))"
proof -
  obtain d1 h1 where sel: "select_bank (wire_io (miso env0)) EPKTCNT (dev0, hist hw0) = Some (d1, h1)"
    using wire_select_bank [OF hw0_ok(3), of "miso env0" EPKTCNT] by (auto simp: hw0_ok)
  from receive_packet_reads [OF drv_ok0 sel ref_packet_waiting [OF sel], of 1520] show ?thesis
    unfolding Let_def by fastforce
qed

text \<open>The length returned is never larger than the caller's buffer, nor than the byte count of the
  packet; and if the chip's next-packet pointer is an even address of the receive ring, the read pointer
  the driver programs is an odd address inside that ring.\<close>

theorem receive_bounds:
  assumes "even (unat next)" "next \<le> RX_BUFFER_END_ADDR"
  shows "rx_copy_len c m \<le> m \<and> rx_copy_len c m \<le> c \<and> erxrdpt_for next \<le> RX_BUFFER_END_ADDR \<and>
    odd (unat (erxrdpt_for next))"
proof -
  have c: "rx_copy_len c m \<le> c"
  proof -
    have "4 < c \<Longrightarrow> c - 4 \<le> c" by unat_arith
    then show ?thesis by (auto simp: rx_copy_len_def Let_def)
  qed
  have "next \<noteq> 0 \<Longrightarrow> unat (next - 1) = unat next - 1" by unat_arith
  moreover have "next \<noteq> 0 \<Longrightarrow> 0 < unat next" by unat_arith
  moreover have "next \<noteq> 0 \<Longrightarrow> next - 1 \<le> next" by unat_arith
  ultimately have "erxrdpt_for next \<le> RX_BUFFER_END_ADDR \<and> odd (unat (erxrdpt_for next))"
    using assms by (auto simp: erxrdpt_for_def layout_defs)
  with c rx_copy_len_le show ?thesis by blast
qed

theorem receive_bounds_witness:
  "rx_copy_len 64 1520 \<le> 1520 \<and> rx_copy_len 64 1520 \<le> 64 \<and> erxrdpt_for 0x42 \<le> RX_BUFFER_END_ADDR \<and>
    odd (unat (erxrdpt_for 0x42))"
  by (rule receive_bounds) (simp_all add: layout_defs)

end
