(* ===== verification/Main_Glue.thy ===== *)
theory Main_Glue
  imports Lwip_Netif Lwip_Timeouts Enc_Frames
begin

unbundle bit_operations_syntax

text \<open>
  The program, \<^verbatim>\<open>core/src/main.c\<close>: the driver functions of the interface, the start and one round of the main loop.

  The device of the network state is the driver's state with its world; the network state is the world of the timers.
  \<open>io\<close> are the port functions, \<open>ETH_BUFFER\<close> is the static receive buffer.  The two delay loops and the LED are left out.
\<close>

type_synonym 'w board = "'w enc_st net_st"

section \<open>The driver functions of the interface\<close>

definition ETH_BUFFER :: ptr where "ETH_BUFFER = (Ext 0, 0)"
definition ETH_BUFFER_SIZE :: u16 where "ETH_BUFFER_SIZE = 1520"

definition low_level_input :: "'w enc28j60_io_t \<Rightarrow> ptr \<Rightarrow> u16 \<Rightarrow> 'w board \<Rightarrow> (ptr option \<times> 'w board) option" where
  "low_level_input io buf buf_size s =
     do { ((len, bytes), d) \<leftarrow> enc28j60_receive_packet io buf_size (device s);
          let s = put_bytes buf bytes (s\<lparr>device := d\<rparr>);
          if len = 0 then Some (None, s)
          else
            do { (p, s) \<leftarrow> in_mem (pbuf_alloc PBUF_RAW len PBUF_POOL) s;
                 case p of
                   None \<Rightarrow> Some (None, s)
                 | Some p \<Rightarrow> do { (_, s) \<leftarrow> in_mem (pbuf_take (Some p) (Some buf) len) s; Some (Some p, s) } } }"

text \<open>The loop over the chain.\<close>

partial_function (option) output_chain :: "'w enc28j60_io_t \<Rightarrow> ptr option \<Rightarrow> net_mem \<Rightarrow> 'w enc_st \<Rightarrow> 'w enc_st option" where
  "output_chain io q m d =
     (case q of
        None \<Rightarrow> Some d
      | Some a \<Rightarrow>
          do { pl \<leftarrow> pb_payload (pbufs m a);
               d \<leftarrow> enc28j60_write_to_tx io (\<lambda>i. data_bytes m (ptr_add pl i)) (pb_len (pbufs m a)) d;
               output_chain io (pb_next (pbufs m a)) m d })"

definition low_level_output :: "'w enc28j60_io_t \<Rightarrow> 'w enc_st link_fn" where
  "low_level_output io netif p m d =
     do { d \<leftarrow> enc28j60_prepare_to_tx io d;
          d \<leftarrow> enc28j60_write_to_tx io (\<lambda>i. [0x00] ! nat i) 1 d;
          d \<leftarrow> output_chain io (Some p) m d;
          d \<leftarrow> enc28j60_ready_to_send io d;
          Some (ERR_OK, d) }"

definition ethernetif_init :: "netif \<Rightarrow> err_t \<times> netif" where
  "ethernetif_init netif =
     (ERR_OK, netif\<lparr>netif_name := [101, 110], netif_hwaddr_len := of_nat ETH_HWADDR_LEN,
                    netif_hwaddr := [0x02, 0x00, 0x00, 0x00, 0x00, 0x01], netif_mtu := 1500,
                    netif_flags := NETIF_FLAG_BROADCAST OR NETIF_FLAG_ETHARP OR NETIF_FLAG_LINK_UP OR NETIF_FLAG_ETHERNET\<rparr>)"

section \<open>Start\<close>

definition IP4_ADDR :: "u8 \<Rightarrow> u8 \<Rightarrow> u8 \<Rightarrow> u8 \<Rightarrow> u32" where
  "IP4_ADDR a b c d = lwip_htonl (push_bit 24 (ucast a) OR push_bit 16 (ucast b) OR push_bit 8 (ucast c) OR ucast d)"

definition my_MAC_addr :: MAC_addr_t where
  "my_MAC_addr = \<lparr>addr1 = 2, addr2 = 0, addr3 = 0, addr4 = 0, addr5 = 0, addr6 = 1\<rparr>"

text \<open>The modules of the configuration that have something to initialise.\<close>

definition lwip_init :: "('x, 'w board) timers \<Rightarrow> ('x, 'w board) timers option" where
  "lwip_init st =
     (let s = world st;
          s = s\<lparr>nmem := (nmem s)\<lparr>ram_heap := mem_init (ram_heap (nmem s))\<rparr>\<rparr>;
          s = s\<lparr>nmem := (nmem s)\<lparr>pools := memp_init (pools (nmem s))\<rparr>\<rparr>
      in sys_timeouts_init (st\<lparr>world := s\<rparr>))"

definition main_start ::
    "'w enc28j60_io_t \<Rightarrow> netif \<Rightarrow> ('x, 'w board) timers \<Rightarrow> (u8 option \<times> ('x, 'w board) timers) option" where
  "main_start io netif st =
     do { d \<leftarrow> enc28j60_init io my_MAC_addr (device (world st));
          let st = st\<lparr>world := (world st)\<lparr>device := d\<rparr>\<rparr>;
          let ipaddr = IP4_ADDR 169 254 25 63;
          let netmask = IP4_ADDR 255 255 255 0;
          let gw = IP4_ADDR 0 0 0 0;
          st \<leftarrow> lwip_init st;
          (k, s) \<leftarrow> netif_add (low_level_output io) netif (Some ipaddr) (Some netmask) (Some gw) ethernetif_init (world st);
          let s = netif_set_default k s;
          s \<leftarrow> (case k of None \<Rightarrow> Some s | Some k \<Rightarrow> on_netif k (netif_set_up (low_level_output io)) s);
          Some (k, st\<lparr>world := s\<rparr>) }"

section \<open>The main loop\<close>

text \<open>The cyclic timers, on the whole state.\<close>

definition run_tmr :: "'w enc28j60_io_t \<Rightarrow> tmr \<Rightarrow> ('x, 'w board) timers \<Rightarrow> ('x, 'w board) timers option" where
  "run_tmr io t st =
     do { s \<leftarrow> (case t of
                  tmr.ip_reass_tmr \<Rightarrow> Lwip_Reass.ip_reass_tmr (low_level_output io) (world st)
                | tmr.etharp_tmr \<Rightarrow> Lwip_Etharp.etharp_tmr (low_level_output io) (world st));
          Some (st\<lparr>world := s\<rparr>) }"

text \<open>One round, for the interface number \<open>k\<close>; \<open>user\<close> are the handlers of other timers, of which the program has none.\<close>

definition main_round ::
    "'w enc28j60_io_t \<Rightarrow> ('x \<Rightarrow> nat \<Rightarrow> ('x, 'w board) timers \<Rightarrow> ('x, 'w board) timers option) \<Rightarrow> u8 \<Rightarrow>
     ('x, 'w board) timers \<Rightarrow> ('x, 'w board) timers option" where
  "main_round io user k st =
     do { (p, s) \<leftarrow> low_level_input io ETH_BUFFER ETH_BUFFER_SIZE (world st);
          s \<leftarrow>
            (case p of
               None \<Rightarrow> Some s
             | Some p \<Rightarrow>
                 do { netif \<leftarrow> netif_deref (Some k) s;
                      (e, s) \<leftarrow> ethernet_input (low_level_output io) p netif s;
                      if e \<noteq> ERR_OK then free_pbuf p s else Some s });
          sys_check_timeouts (run_tmr io) user (st\<lparr>world := s\<rparr>) }"

end
