(* ===== verification/Lwip_Refs.thy ===== *)
theory Lwip_Refs
  imports Lwip_Pbuf_Data
begin

unbundle bit_operations_syntax

text \<open>
  Reference counting across packets.  \<open>R\<close> gives the number of holders of each packet, named by the address of its
  first pbuf, and \<open>C\<close> the pbufs of a packet.  \<open>held\<close> says that the counters in memory are these numbers, that packets
  share no pbuf, and that exactly their pbufs and the other blocks \<open>L\<close> are allocated.  Each operation that takes,
  drops or creates a packet changes one count.
\<close>

section \<open>Packets and holders\<close>

declare split_paired_All [simp del] split_paired_Ex [simp del]

text \<open>A pbuf whose data follows the struct has its payload in the same block of memory.\<close>

definition home :: "pbuf \<Rightarrow> ptr \<Rightarrow> bool" where
  "home b a \<longleftrightarrow> (ucast (pb_type_internal b) AND PBUF_TYPE_FLAG_STRUCT_DATA_CONTIGUOUS \<noteq> 0 \<longrightarrow>
     fst (the (pb_payload b)) = fst a \<and> snd a + int SIZEOF_STRUCT_PBUF \<le> snd (the (pb_payload b)))"

definition packet :: "net_mem \<Rightarrow> ptr \<Rightarrow> ptr list \<Rightarrow> bool" where
  "packet st a as \<longleftrightarrow> chain st (Some a) as \<and> (\<forall>b \<in> set as. owned (pbufs st b) b \<and> home (pbufs st b) b) \<and>
     (\<forall>b \<in> set as - {a}. pb_ref (pbufs st b) = 1)"

definition all_blocks :: "(ptr \<Rightarrow> nat) \<Rightarrow> (ptr \<Rightarrow> ptr list) \<Rightarrow> ptr set" where
  "all_blocks R C = (\<Union>a \<in> {a. 0 < R a}. set (C a))"

definition held :: "net_mem \<Rightarrow> ptr set \<Rightarrow> (ptr \<Rightarrow> nat) \<Rightarrow> (ptr \<Rightarrow> ptr list) \<Rightarrow> bool" where
  "held st L R C \<longleftrightarrow>
     (\<forall>a. 0 < R a \<longrightarrow> packet st a (C a) \<and> unat (pb_ref (pbufs st a)) = R a \<and> set (C a) \<inter> L = {}) \<and>
     (\<forall>a b. 0 < R a \<longrightarrow> 0 < R b \<longrightarrow> a \<noteq> b \<longrightarrow> set (C a) \<inter> set (C b) = {}) \<and>
     mem_ok st (L \<union> all_blocks R C)"

text \<open>Equal pbufs apart from the counter; the packets in \<open>R\<close> are as before in this sense.\<close>

definition like :: "pbuf \<Rightarrow> pbuf \<Rightarrow> bool" where
  "like b b' \<longleftrightarrow> pb_next b' = pb_next b \<and> pb_payload b' = pb_payload b \<and> pb_tot_len b' = pb_tot_len b \<and>
     pb_len b' = pb_len b \<and> pb_type_internal b' = pb_type_internal b \<and> pb_flags b' = pb_flags b \<and>
     pb_if_idx b' = pb_if_idx b"

definition keeps :: "(ptr \<Rightarrow> nat) \<Rightarrow> (ptr \<Rightarrow> ptr list) \<Rightarrow> net_mem \<Rightarrow> net_mem \<Rightarrow> bool" where
  "keeps R C st st' \<longleftrightarrow> (\<forall>b \<in> all_blocks R C. like (pbufs st b) (pbufs st' b))"

lemma like_refl [simp]: "like b b"
  by (simp add: like_def)

lemma like_ref [simp]: "like b (b\<lparr>pb_ref := r\<rparr>)"
  by (simp add: like_def)

lemma like_trans: "like a b \<Longrightarrow> like b c \<Longrightarrow> like a c"
  by (simp add: like_def)

lemma heldD:
  assumes "held st L R C" "0 < R a"
  shows "packet st a (C a)" "unat (pb_ref (pbufs st a)) = R a" "set (C a) \<inter> L = {}"
  using assms by (auto simp: held_def)

lemma held_disjoint: "held st L R C \<Longrightarrow> 0 < R a \<Longrightarrow> 0 < R b \<Longrightarrow> a \<noteq> b \<Longrightarrow> set (C a) \<inter> set (C b) = {}"
  unfolding held_def by blast

lemma held_mem: "held st L R C \<Longrightarrow> mem_ok st (L \<union> all_blocks R C)"
  by (simp add: held_def)

lemma packet_head: "packet st a as \<Longrightarrow> a \<in> set as"
  by (auto simp: packet_def chain_Some)

lemma in_blocks: "0 < R a \<Longrightarrow> b \<in> set (C a) \<Longrightarrow> b \<in> all_blocks R C"
  by (auto simp: all_blocks_def)

lemma all_blocks_upd: "0 < n \<Longrightarrow> all_blocks (R(a := n)) C = all_blocks R C \<union> set (C a)"
  by (auto simp: all_blocks_def split: if_splits)

lemma all_blocks_new: "R a = 0 \<Longrightarrow> all_blocks R (C(a := as)) = all_blocks R C"
proof -
  assume "R a = 0"
  then have "set ((C(a := as)) b) = set (C b)" if "0 < R b" for b using that by auto
  then show ?thesis by (simp add: all_blocks_def)
qed

lemma all_blocks_drop:
  assumes "held st L R C" "0 < R a"
  shows "all_blocks (R(a := 0)) C = all_blocks R C - set (C a)"
proof
  show "all_blocks (R(a := 0)) C \<subseteq> all_blocks R C - set (C a)"
  proof
    fix b assume "b \<in> all_blocks (R(a := 0)) C"
    then obtain c where "c \<noteq> a" "0 < R c" "b \<in> set (C c)" by (auto simp: all_blocks_def split: if_splits)
    then show "b \<in> all_blocks R C - set (C a)" using held_disjoint [OF assms, of c] by (auto simp: all_blocks_def)
  qed
  show "all_blocks R C - set (C a) \<subseteq> all_blocks (R(a := 0)) C" by (auto simp: all_blocks_def)
qed

lemma keeps_refl [simp]: "keeps R C st st"
  by (simp add: keeps_def)

lemma keeps_trans: "keeps R C s1 s2 \<Longrightarrow> keeps R C s2 s3 \<Longrightarrow> keeps R C s1 s3"
  by (auto simp: keeps_def intro: like_trans)

lemma keeps_mono: "keeps R C s1 s2 \<Longrightarrow> all_blocks R' C' \<subseteq> all_blocks R C \<Longrightarrow> keeps R' C' s1 s2"
  by (auto simp: keeps_def)

lemma tot_ok_like: "(\<And>b. b \<in> set as \<Longrightarrow> like (pbufs st b) (pbufs st' b)) \<Longrightarrow> tot_ok st' as = tot_ok st as"
  by (induction as) (auto simp: like_def cong: map_cong)

lemma chain_like:
  assumes "\<And>b. b \<in> set as \<Longrightarrow> like (pbufs st b) (pbufs st' b)"
  shows "chain st' p as = chain st p as" "lens st' as = lens st as"
    "b \<in> set as \<Longrightarrow> owned (pbufs st' b) b = owned (pbufs st b) b"
    "b \<in> set as \<Longrightarrow> home (pbufs st' b) b = home (pbufs st b) b"
    "data_bytes st' = data_bytes st \<Longrightarrow> content st' as = content st as"
proof -
  note l = assms [unfolded like_def]
  have "links (pnext st') p as = links (pnext st) p as" by (rule links_cong) (use l in simp)
  then show "chain st' p as = chain st p as"
    using l tot_ok_like [OF assms, of as] by (simp add: chain_def)
  show "lens st' as = lens st as" using l by (simp cong: map_cong)
  show "owned (pbufs st' b) b = owned (pbufs st b) b" if "b \<in> set as"
    using l [OF that] by (simp add: owned_def pbuf_get_allocsrc_def)
  show "home (pbufs st' b) b = home (pbufs st b) b" if "b \<in> set as"
    using l [OF that] by (simp add: home_def)
  show "content st' as = content st as" if "data_bytes st' = data_bytes st"
    using l that by (simp add: content_def chunk_def cong: map_cong)
qed

lemma packet_like:
  assumes "\<And>b. b \<in> set as \<Longrightarrow> like (pbufs st b) (pbufs st' b)"
    and "\<And>b. b \<in> set as \<Longrightarrow> b \<noteq> a \<Longrightarrow> pb_ref (pbufs st' b) = pb_ref (pbufs st b)"
  shows "packet st' a as = packet st a as"
  using chain_like(1,3,4) [OF assms(1)] assms(2) by (simp add: packet_def)

text \<open>Changing the data only.\<close>

lemma held_same_pbufs:
  assumes "pbufs st' = pbufs st" "ram_heap st' = ram_heap st" "pools st' = pools st"
  shows "held st' L R C = held st L R C"
proof -
  have "packet st' a as = packet st a as" for a as by (rule packet_like) (simp_all add: assms(1))
  then show ?thesis by (simp add: held_def mem_ok_def assms)
qed

section \<open>Dropping and taking a reference\<close>

lemma dead_single:
  assumes "packet st a as" "pb_ref (pbufs st a) = 1"
  shows "dead st as = as" "alive st as = []"
proof -
  have "\<forall>b \<in> set as. pb_ref (pbufs st b) = 1" using assms by (auto simp: packet_def)
  then show "dead st as = as" "alive st as = []" by (simp_all add: dead_def alive_def)
qed

lemma held_free:
  assumes h: "held st L R C" and a: "0 < R a"
  shows "\<exists>n st'. pbuf_free (Some a) st = Some (n, st') \<and> held st' L (R(a := R a - 1)) C \<and>
    keeps (R(a := R a - 1)) C st st' \<and> data_bytes st' = data_bytes st"
proof -
  note p = heldD [OF h a]
  have ln: "links (pnext st) (Some a) (C a)" using p(1) by (simp add: packet_def chain_def)
  show ?thesis
  proof (cases "R a = 1")
    case True
    then have r: "pb_ref (pbufs st a) = 1" using p(2) word_eq_nat [of "pb_ref (pbufs st a)" 1] by simp
    note d = dead_single [OF p(1) r]
    have pos: "\<forall>b \<in> set (C a). pb_ref (pbufs st b) > 0" using d(1) by (auto simp: dead_def takeWhile_eq_all_conv)
    have sub: "set (C a) \<subseteq> L \<union> all_blocks R C" using in_blocks [of R a] a by auto
    obtain st' where st': "pbuf_free_loop (Some a) 0 st = Some (of_nat (length (C a)), st')"
      "mem_ok st' (L \<union> all_blocks R C - set (C a))" "data_bytes st' = data_bytes st" "pbufs st' = drop_refs st (C a)"
      using pbuf_free_loop_chain [OF ln held_mem [OF h] pos, of 0] p(1) sub by (auto simp: packet_def d)
    have eq: "pbufs st' b = pbufs st b" if "b \<notin> set (C a)" for b using that by (simp add: st'(4) drop_refs_def d)
    have blocks: "L \<union> all_blocks R C - set (C a) = L \<union> all_blocks (R(a := 0)) C"
      using p(3) all_blocks_drop [OF h a] by auto
    have "packet st' b (C b) = packet st b (C b) \<and> pb_ref (pbufs st' b) = pb_ref (pbufs st b)" if "0 < R b" "b \<noteq> a" for b
    proof -
      have dis: "set (C b) \<inter> set (C a) = {}" by (rule held_disjoint [OF h that(1) a that(2)])
      then have "c \<in> set (C b) \<Longrightarrow> pbufs st' c = pbufs st c" for c by (intro eq) auto
      then show ?thesis using packet_like [of "C b" st st' b] packet_head [OF heldD(1) [OF h that(1)]] by simp
    qed
    then have "held st' L (R(a := 0)) C"
      using h st'(2) by (simp add: held_def blocks)
    moreover have "keeps (R(a := 0)) C st st'" using eq by (auto simp: keeps_def all_blocks_drop [OF h a])
    ultimately show ?thesis using st'(1,3) True by (simp add: pbuf_free_def)
  next
    case False
    then have r: "pb_ref (pbufs st a) > 1" "unat (pb_ref (pbufs st a) - 1) = R a - 1"
      using p(2) a by (simp_all add: word_less_nat_alt unat_sub word_le_nat_alt)
    let ?st = "upd_pbuf a (\<lambda>b. b\<lparr>pb_ref := pb_ref b - 1\<rparr>) st"
    have like: "like (pbufs st b) (pbufs ?st b)" for b by simp
    have blocks: "all_blocks (R(a := R a - 1)) C = all_blocks R C"
      using False a by (subst all_blocks_upd) (auto intro: in_blocks)
    have pk: "packet ?st b (C b) = packet st b (C b)" if "0 < R b" for b
    proof (rule packet_like [OF like])
      fix c assume "c \<in> set (C b)" "c \<noteq> b"
      then have "c \<noteq> a" using held_disjoint [OF h that a] packet_head [OF p(1)] by blast
      then show "pb_ref (pbufs ?st c) = pb_ref (pbufs st c)" by simp
    qed
    have "held ?st L (R(a := R a - 1)) C" unfolding held_def blocks
    proof (intro conjI allI impI)
      fix b c
      assume "0 < (R(a := R a - 1)) b" then have b: "0 < R b" by (simp split: if_splits)
      show "packet ?st b (C b)" "set (C b) \<inter> L = {}" using pk [OF b] heldD [OF h b] by simp_all
      show "unat (pb_ref (pbufs ?st b)) = (R(a := R a - 1)) b" using heldD(2) [OF h b] r(2) by simp
      assume "0 < (R(a := R a - 1)) c" "b \<noteq> c"
      then show "set (C b) \<inter> set (C c) = {}" using held_disjoint [OF h b, of c] by (simp split: if_splits)
    next
      show "mem_ok ?st (L \<union> all_blocks R C)" using held_mem [OF h] by simp
    qed
    then show ?thesis using pbuf_free_loop_ref [OF r(1)] like by (simp add: pbuf_free_def keeps_def)
  qed
qed

lemma unat_inc: "unat (w :: u8) < 255 \<Longrightarrow> unat (w + 1) = unat w + 1"
  by (simp add: unat_word_ariths)

lemma held_ref:
  assumes h: "held st L R C" and a: "0 < R a" "R a < 255"
  shows "\<exists>st'. pbuf_ref (Some a) st = Some st' \<and> held st' L (R(a := R a + 1)) C \<and> keeps R C st st' \<and>
    data_bytes st' = data_bytes st"
proof -
  note p = heldD [OF h a(1)]
  let ?st = "upd_pbuf a (\<lambda>b. b\<lparr>pb_ref := pb_ref b + 1\<rparr>) st"
  have r: "unat (pb_ref (pbufs st a) + 1) = R a + 1" using unat_inc [of "pb_ref (pbufs st a)"] p(2) a(2) by simp
  have like: "like (pbufs st b) (pbufs ?st b)" for b by simp
  have blocks: "all_blocks (R(a := R a + 1)) C = all_blocks R C"
    using a by (subst all_blocks_upd) (auto intro: in_blocks)
  have pk: "packet ?st b (C b) = packet st b (C b)" if "0 < R b" for b
  proof (rule packet_like [OF like])
    fix c assume "c \<in> set (C b)" "c \<noteq> b"
    then have "c \<noteq> a" using held_disjoint [OF h that a(1)] packet_head [OF p(1)] by blast
    then show "pb_ref (pbufs ?st c) = pb_ref (pbufs st c)" by simp
  qed
  have "held ?st L (R(a := R a + 1)) C" unfolding held_def blocks
  proof (intro conjI allI impI)
    fix b c
    assume "0 < (R(a := R a + 1)) b" then have b: "0 < R b" using a by (simp split: if_splits)
    show "packet ?st b (C b)" "set (C b) \<inter> L = {}" using pk [OF b] heldD [OF h b] by simp_all
    show "unat (pb_ref (pbufs ?st b)) = (R(a := R a + 1)) b" using heldD(2) [OF h b] r by simp
    assume "0 < (R(a := R a + 1)) c" "b \<noteq> c"
    then show "set (C b) \<inter> set (C c) = {}" using held_disjoint [OF h b, of c] a by (simp split: if_splits)
  next
    show "mem_ok ?st (L \<union> all_blocks R C)" using held_mem [OF h] by simp
  qed
  moreover have "pb_ref (pbufs st a) + 1 \<noteq> 0" using r by auto
  ultimately show ?thesis using like by (simp add: pbuf_ref_def Let_def keeps_def word_neq_0_conv)
qed

section \<open>New packets\<close>

lemma held_new:
  assumes h: "held st L R C" and f: "fresh_chain st' (L \<union> all_blocks R C) a as n" and c: "chain st' (Some a) as"
    and hm: "\<forall>b \<in> set as. home (pbufs st' b) b" and same: "\<forall>b \<in> L \<union> all_blocks R C. pbufs st' b = pbufs st b"
  shows "R a = 0" "held st' L (R(a := 1)) (C(a := as))" "keeps R C st st'"
proof -
  have a: "a \<in> set as" using c by (auto simp: chain_Some)
  have new: "set as \<inter> (L \<union> all_blocks R C) = {}" and mem: "mem_ok st' (L \<union> all_blocks R C \<union> set as)"
    and own: "\<forall>b \<in> set as. pb_ref (pbufs st' b) = 1 \<and> owned (pbufs st' b) b"
    using f by (auto simp: fresh_chain_def)
  show 0: "R a = 0"
  proof (rule ccontr)
    assume "R a \<noteq> 0"
    then have "a \<in> all_blocks R C" using packet_head [OF heldD(1) [OF h, of a]] by (intro in_blocks [of R a]) simp_all
    then show False using a new by blast
  qed
  show keep: "keeps R C st st'" using same by (simp add: keeps_def)
  have blocks: "all_blocks (R(a := 1)) (C(a := as)) = all_blocks R C \<union> set as"
    using all_blocks_new [of R a C as] 0 by (subst all_blocks_upd) simp_all
  have pk: "packet st' b (C b) = packet st b (C b)" "pb_ref (pbufs st' b) = pb_ref (pbufs st b)" if "0 < R b" for b
  proof -
    have eq: "pbufs st' c = pbufs st c" if "c \<in> set (C b)" for c
      using same in_blocks [of R b c C] \<open>0 < R b\<close> that by blast
    then show "packet st' b (C b) = packet st b (C b)" by (intro packet_like) simp_all
    show "pb_ref (pbufs st' b) = pb_ref (pbufs st b)" using eq packet_head [OF heldD(1) [OF h that]] by simp
  qed
  have dis: "set as \<inter> set (C b) = {}" if "0 < R b" for b using new in_blocks [of R b _ C] that by blast
  show "held st' L (R(a := 1)) (C(a := as))" unfolding held_def blocks
  proof (intro conjI allI impI)
    fix b d
    assume b: "0 < (R(a := 1)) b"
    have "packet st' a as" using c own hm by (simp add: packet_def)
    then show "packet st' b ((C(a := as)) b)" using b pk(1) [of b] heldD(1) [OF h, of b] by (cases "b = a") simp_all
    show "unat (pb_ref (pbufs st' b)) = (R(a := 1)) b" using b pk(2) [of b] heldD(2) [OF h, of b] own a by (cases "b = a") simp_all
    show "set ((C(a := as)) b) \<inter> L = {}" using b heldD(3) [OF h, of b] new by (cases "b = a") auto
    assume d: "0 < (R(a := 1)) d" "b \<noteq> d"
    consider "b = a" | "d = a" | "b \<noteq> a" "d \<noteq> a" by blast
    then show "set ((C(a := as)) b) \<inter> set ((C(a := as)) d) = {}"
    proof cases
      case 1
      then show ?thesis using dis [of d] d by simp
    next
      case 2
      then show ?thesis using dis [of b] b d by (simp add: Int_commute)
    next
      case 3
      then show ?thesis using held_disjoint [OF h, of b d] b d by (simp split: if_splits)
    qed
  next
    show "mem_ok st' (L \<union> (all_blocks R C \<union> set as))" using mem by (simp add: Un_assoc)
  qed
qed

lemma held_alloc_ram:
  assumes h: "held st L R C"
  shows "\<exists>r st'. pbuf_alloc layer len PBUF_RAM st = Some (r, st') \<and> data_bytes st' = data_bytes st \<and>
    (case r of None \<Rightarrow> st' = st
     | Some a \<Rightarrow> R a = 0 \<and> held st' L (R(a := 1)) (C(a := [a])) \<and> keeps R C st st' \<and> fst a = Ram \<and>
         pbufs st' a = \<lparr>pb_next = None,
           pb_payload = Some (ptr_add a (int (SIZEOF_STRUCT_PBUF + LWIP_MEM_ALIGN_SIZE (layer_num layer)))),
           pb_tot_len = len, pb_len = len, pb_type_internal = 0x80, pb_flags = 0, pb_ref = 1, pb_if_idx = 0\<rparr>)"
proof -
  let ?B = "L \<union> all_blocks R C"
  obtain r st' where r: "pbuf_alloc layer len PBUF_RAM st = Some (r, st')" "data_bytes st' = data_bytes st"
    "case r of None \<Rightarrow> st' = st
     | Some a \<Rightarrow> fst a = Ram \<and> a \<notin> ?B \<and> mem_ok st' (insert a ?B) \<and> owned (pbufs st' a) a \<and>
         pbufs st' = (pbufs st)(a := \<lparr>pb_next = None,
           pb_payload = Some (ptr_add a (int (SIZEOF_STRUCT_PBUF + LWIP_MEM_ALIGN_SIZE (layer_num layer)))),
           pb_tot_len = len, pb_len = len, pb_type_internal = 0x80, pb_flags = 0, pb_ref = 1, pb_if_idx = 0\<rparr>)"
    using pbuf_alloc_ram [OF held_mem [OF h], of layer len] by blast
  show ?thesis
  proof (cases r)
    case None
    then show ?thesis using r by simp
  next
    case (Some a)
    have "owned (pbufs st' a) a" using r(3) unfolding Some option.case by (elim conjE)
    then have f: "fresh_chain st' ?B a [a] (unat len)" "chain st' (Some a) [a]"
      using r(3) Some by (simp_all add: fresh_chain_def chain_def)
    have "\<forall>b \<in> set [a]. home (pbufs st' b) b" "\<forall>b \<in> ?B. pbufs st' b = pbufs st b" using r(3) Some
      by (auto simp: home_def)
    note held_new [OF h f this]
    then show ?thesis using r Some by simp
  qed
qed

text \<open>A packet from the pool is the one buffer that the pool has.\<close>

lemma held_alloc_pool:
  assumes h: "held st L R C"
  shows "\<exists>r st'. pbuf_alloc layer len PBUF_POOL st = Some (r, st') \<and> data_bytes st' = data_bytes st \<and> keeps R C st st' \<and>
    (case r of None \<Rightarrow> held st' L R C
     | Some a \<Rightarrow> R a = 0 \<and> held st' L (R(a := 1)) (C(a := [a])) \<and> pool_pbuf st' a \<and> plen st' a = unat len \<and> unat len \<le> 256)"
proof -
  let ?B = "L \<union> all_blocks R C"
  obtain r st' where r: "pbuf_alloc layer len PBUF_POOL st = Some (r, st')" "data_bytes st' = data_bytes st"
    "\<forall>b \<in> ?B. pbufs st' b = pbufs st b"
    "case r of None \<Rightarrow> mem_ok st' ?B
     | Some a \<Rightarrow> \<exists>as. chain st' (Some a) as \<and> (\<forall>b \<in> set as. pool_pbuf st' b) \<and> set as \<inter> ?B = {} \<and>
         mem_ok st' (?B \<union> set as) \<and> lens st' as = unat len"
    using pbuf_alloc_pool [OF held_mem [OF h], of layer len] by blast
  have keep: "keeps R C st st'" using r(3) by (simp add: keeps_def)
  show ?thesis
  proof (cases r)
    case None
    have eq: "pbufs st' c = pbufs st c" if "0 < R b" "c \<in> set (C b)" for b c using r(3) in_blocks [of R b c C] that by blast
    have "packet st' b (C b) = packet st b (C b)" if "0 < R b" for b by (rule packet_like) (use eq [OF that] in simp_all)
    moreover have "pbufs st' b = pbufs st b" if "0 < R b" for b
      using eq [OF that] packet_head [OF heldD(1) [OF h that]] by simp
    ultimately have "held st' L R C" using h r(4) None by (simp add: held_def)
    then show ?thesis using r(1,2) None keep by simp
  next
    case (Some a)
    then obtain as where as: "chain st' (Some a) as" "\<forall>b \<in> set as. pool_pbuf st' b" "set as \<inter> ?B = {}"
      "mem_ok st' (?B \<union> set as)" "lens st' as = unat len" using r(4) by auto
    note one = pool_limit [OF as(1,2)]
    have f: "fresh_chain st' ?B a [a] (unat len)" using as one(1) by (simp add: fresh_chain_def chain_def pool_pbuf_def)
    have "\<forall>b \<in> set [a]. home (pbufs st' b) b" using as(2) one(1) by (simp add: home_def pool_pbuf_def)
    note new = held_new [OF h f as(1) [unfolded one(1)] this r(3)]
    then show ?thesis using r(1,2) Some keep as(2,5) one by simp
  qed
qed

section \<open>Changes to the head of a packet\<close>

lemma held_head:
  assumes h: "held st L R C" and a: "0 < R a" and f: "pb_ref (f (pbufs st a)) = pb_ref (pbufs st a)"
    "owned (f (pbufs st a)) a" "home (f (pbufs st a)) a" and c: "chain (upd_pbuf a f st) (Some a) (C a)"
  shows "held (upd_pbuf a f st) L R C" "keeps (R(a := 0)) C st (upd_pbuf a f st)"
proof -
  let ?st = "upd_pbuf a f st"
  note p = heldD [OF h a]
  have eq: "pbufs ?st d = pbufs st d" if "0 < R b" "b \<noteq> a" "d \<in> set (C b)" for b d
    using held_disjoint [OF h that(1) a that(2)] that(3) packet_head [OF p(1)] by auto
  have pk: "packet ?st b (C b)" "pb_ref (pbufs ?st b) = pb_ref (pbufs st b)" if b: "0 < R b" for b
  proof -
    show "packet ?st b (C b)"
    proof (cases "b = a")
      case True
      then show ?thesis using p(1) c f(2,3) by (auto simp: packet_def)
    next
      case False
      have "packet ?st b (C b) = packet st b (C b)" by (rule packet_like) (use eq [OF b False] in simp_all)
      then show ?thesis using heldD(1) [OF h b] by simp
    qed
    show "pb_ref (pbufs ?st b) = pb_ref (pbufs st b)" using f(1) by simp
  qed
  show "held ?st L R C" unfolding held_def
  proof (intro conjI allI impI)
    fix b d
    assume b: "0 < R b"
    show "packet ?st b (C b)" "unat (pb_ref (pbufs ?st b)) = R b" "set (C b) \<inter> L = {}"
      using pk [OF b] heldD [OF h b] by simp_all
    show "set (C b) \<inter> set (C d) = {}" if "0 < R d" "b \<noteq> d" using held_disjoint [OF h b that] .
  next
    show "mem_ok ?st (L \<union> all_blocks R C)" using held_mem [OF h] by simp
  qed
  show "keeps (R(a := 0)) C st ?st" unfolding keeps_def
  proof
    fix d assume "d \<in> all_blocks (R(a := 0)) C"
    then obtain b where "0 < R b" "b \<noteq> a" "d \<in> set (C b)" by (auto simp: all_blocks_def split: if_splits)
    then show "like (pbufs st d) (pbufs ?st d)" using eq [of b d] by simp
  qed
qed

lemma chain_head_upd:
  assumes c: "chain st (Some a) (a # as)" and f: "pb_next (f (pbufs st a)) = pb_next (pbufs st a)"
    "pb_payload (f (pbufs st a)) \<noteq> None" "unat (pb_tot_len (f (pbufs st a))) = unat (pb_len (f (pbufs st a))) + lens st as"
  shows "chain (upd_pbuf a f st) (Some a) (a # as)" "lens (upd_pbuf a f st) as = lens st as"
    "content (upd_pbuf a f st) as = content st as"
proof -
  have a: "a \<notin> set as" using links_distinct [of "pnext st" "Some a" "a # as"] c by (auto simp: chain_def)
  have eq: "pbufs (upd_pbuf a f st) b = pbufs st b" if "b \<in> set as" for b using a that by auto
  show l: "lens (upd_pbuf a f st) as = lens st as" using eq by (simp cong: map_cong)
  show "content (upd_pbuf a f st) as = content st as" using eq by (simp add: content_def chunk_def cong: map_cong)
  have "chain (upd_pbuf a f st) (pb_next (pbufs st a)) as"
    using c chain_cong [of as "upd_pbuf a f st" st] eq by (simp add: chain_Some)
  then show "chain (upd_pbuf a f st) (Some a) (a # as)" using f l by (simp add: chain_Some)
qed

lemma packet_cases:
  assumes "held st L R C" "0 < R a"
  obtains as pl where "C a = a # as" "chain st (Some a) (a # as)" "pb_payload (pbufs st a) = Some pl"
    "unat (pb_tot_len (pbufs st a)) = plen st a + lens st as" "owned (pbufs st a) a" "home (pbufs st a) a"
  using heldD(1) [OF assms] by (auto simp: packet_def chain_Some)

lemma held_add_header:
  assumes h: "held st L R C" and a: "0 < R a" and n: "n \<le> 0xFFFF"
  obtains "pbuf_add_header (Some a) n st = Some (True, st)"
  | st' pl where "pbuf_add_header (Some a) n st = Some (False, st')" "held st' L R C" "keeps (R(a := 0)) C st st'"
      "data_bytes st' = data_bytes st" "pb_payload (pbufs st a) = Some pl"
      "pb_payload (pbufs st' a) = Some (ptr_add pl (- int n))" "plen st' a = plen st a + n"
      "lens st' (C a) = lens st (C a) + n" "content st' (tl (C a)) = content st (tl (C a))"
proof -
  obtain as pl where 1: "C a = a # as" "chain st (Some a) (a # as)" "pb_payload (pbufs st a) = Some pl"
    "unat (pb_tot_len (pbufs st a)) = plen st a + lens st as" "owned (pbufs st a) a" "home (pbufs st a) a"
    by (rule packet_cases [OF h a])
  have n': "unat (of_nat n :: u16) = n" using n by (simp add: unat_of_nat)
  let ?f = "\<lambda>b. b\<lparr>pb_payload := Some (ptr_add pl (- int n)), pb_len := pb_len b + of_nat n, pb_tot_len := pb_tot_len b + of_nat n\<rparr>"
  let ?st = "upd_pbuf a ?f st"
  let ?c = "ucast (pb_type_internal (pbufs st a)) AND PBUF_TYPE_FLAG_STRUCT_DATA_CONTIGUOUS \<noteq> 0"
  consider "n = 0" | "n \<noteq> 0" "of_nat n + pb_tot_len (pbufs st a) < of_nat n \<or> \<not> ?c \<or> snd pl - int n < snd a + int SIZEOF_STRUCT_PBUF"
    | "n \<noteq> 0" "\<not> of_nat n + pb_tot_len (pbufs st a) < of_nat n" "?c" "\<not> snd pl - int n < snd a + int SIZEOF_STRUCT_PBUF" by blast
  then show thesis
  proof cases
    assume z: "n = 0"
    then show thesis by (intro that(2) [of st pl]) (use 1 h n in \<open>auto simp: pbuf_add_header_def pbuf_add_header_impl_def keeps_def\<close>)
  next
    assume "n \<noteq> 0" "of_nat n + pb_tot_len (pbufs st a) < of_nat n \<or> \<not> ?c \<or> snd pl - int n < snd a + int SIZEOF_STRUCT_PBUF"
    then have "pbuf_add_header (Some a) n st = Some (True, st)"
      using n 1(3,6) by (auto simp: pbuf_add_header_def pbuf_add_header_impl_def Let_def home_def)
    then show thesis by (rule that(1))
  next
    assume x: "n \<noteq> 0" "\<not> of_nat n + pb_tot_len (pbufs st a) < of_nat n" "?c" "\<not> snd pl - int n < snd a + int SIZEOF_STRUCT_PBUF"
    have run: "pbuf_add_header (Some a) n st = Some (False, ?st)"
      using n x 1(3,6) by (auto simp: pbuf_add_header_def pbuf_add_header_impl_def Let_def home_def)
    have small: "n + unat (pb_tot_len (pbufs st a)) < 65536"
    proof (rule ccontr)
      assume "\<not> n + unat (pb_tot_len (pbufs st a)) < 65536"
      moreover have "unat (of_nat n + pb_tot_len (pbufs st a)) = (n + unat (pb_tot_len (pbufs st a))) mod 65536"
        by (simp add: unat_word_ariths n')
      ultimately have "unat (of_nat n + pb_tot_len (pbufs st a)) < n"
        using u16_lt [of "pb_tot_len (pbufs st a)"] n by (simp add: mod_if split: if_splits)
      then show False using x(2) n' by (simp add: word_less_nat_alt)
    qed
    have len: "unat (pb_tot_len (pbufs st a) + of_nat n) = unat (pb_tot_len (pbufs st a)) + n"
      "unat (pb_len (pbufs st a) + of_nat n) = plen st a + n" using small 1(4) by (simp_all add: unat_word_ariths n')
    have f: "pb_ref (?f (pbufs st a)) = pb_ref (pbufs st a)" "owned (?f (pbufs st a)) a" "home (?f (pbufs st a)) a"
      using 1(3,5,6) x(4) by (auto simp: owned_def pbuf_get_allocsrc_def home_def)
    have "unat (pb_tot_len (?f (pbufs st a))) = unat (pb_len (?f (pbufs st a))) + lens st as"
      using len 1(4) by simp
    note c = chain_head_upd [OF 1(2), of ?f, OF _ _ this, simplified]
    have "lens ?st (a # as) = lens st (a # as) + n" using c(2) len by simp
    then show thesis
      using held_head [of st L R C a ?f] h a f run c 1(1,3) len by (intro that(2) [of ?st pl]) simp_all
  qed
qed

lemma held_remove_header:
  assumes h: "held st L R C" and a: "0 < R a" and n: "n \<le> plen st a"
  obtains st' pl where "pbuf_remove_header (Some a) n st = Some (False, st')" "held st' L R C" "keeps (R(a := 0)) C st st'"
      "data_bytes st' = data_bytes st" "pb_payload (pbufs st a) = Some pl"
      "pb_payload (pbufs st' a) = Some (ptr_add pl (int n))" "plen st' a = plen st a - n"
      "lens st' (C a) = lens st (C a) - n" "content st' (C a) = drop n (content st (C a))"
proof -
  obtain as pl where 1: "C a = a # as" "chain st (Some a) (a # as)" "pb_payload (pbufs st a) = Some pl"
    "unat (pb_tot_len (pbufs st a)) = plen st a + lens st as" "owned (pbufs st a) a" "home (pbufs st a) a"
    by (rule packet_cases [OF h a])
  have n': "unat (of_nat n :: u16) = n" "n \<le> 65535" using n u16_lt [of "pb_len (pbufs st a)"] by (simp_all add: unat_of_nat)
  let ?f = "\<lambda>b. b\<lparr>pb_payload := Some (ptr_add pl (int n)), pb_len := pb_len b - of_nat n, pb_tot_len := pb_tot_len b - of_nat n\<rparr>"
  let ?st = "upd_pbuf a ?f st"
  have le: "of_nat n \<le> pb_len (pbufs st a)" "of_nat n \<le> pb_tot_len (pbufs st a)"
    using n n' 1(4) by (simp_all add: word_le_nat_alt)
  have "n = 0 \<Longrightarrow> ?st = st" using 1(3) by (simp add: upd_pbuf_def payload_same)
  then have run: "pbuf_remove_header (Some a) n st = Some (False, ?st)"
    using le n' 1(3) by (auto simp: pbuf_remove_header_def Let_def)
  have len: "unat (pb_len (pbufs st a) - of_nat n) = plen st a - n" "unat (pb_tot_len (pbufs st a) - of_nat n) = plen st a + lens st as - n"
    using le n' 1(4) by (simp_all add: unat_sub)
  have f: "pb_ref (?f (pbufs st a)) = pb_ref (pbufs st a)" "owned (?f (pbufs st a)) a" "home (?f (pbufs st a)) a"
    using 1(3,5,6) by (auto simp: owned_def pbuf_get_allocsrc_def home_def)
  have "unat (pb_tot_len (?f (pbufs st a))) = unat (pb_len (?f (pbufs st a))) + lens st as"
    using len 1(4) n by simp
  note c = chain_head_upd [OF 1(2), of ?f, OF _ _ this, simplified]
  have "chunk ?st a = drop n (chunk st a)"
    by (rule nth_equalityI) (use 1(3) in \<open>simp_all add: chunk_def len algebra_simps\<close>)
  then have "content ?st (a # as) = drop n (content st (a # as))" using c(3) n by simp
  moreover have "lens ?st (a # as) = lens st (a # as) - n" using c(2) len n by simp
  ultimately show thesis
    using held_head [of st L R C a ?f] h a f run c 1(1,3) len by (intro that [of ?st pl]) simp_all
qed

lemma add_header_room:
  assumes h: "held st L R C" and a: "0 < R a" and n: "n \<le> 0xFFFF" and pl: "pb_payload (pbufs st a) = Some pl"
    and c: "ucast (pb_type_internal (pbufs st a)) AND PBUF_TYPE_FLAG_STRUCT_DATA_CONTIGUOUS \<noteq> 0"
    and room: "snd a + int SIZEOF_STRUCT_PBUF + int n \<le> snd pl" "lens st (C a) + n < 65536"
  shows "fst (the (pbuf_add_header (Some a) n st)) = False"
proof -
  obtain as where 1: "C a = a # as" "unat (pb_tot_len (pbufs st a)) = plen st a + lens st as" "home (pbufs st a) a"
    by (rule packet_cases [OF h a])
  have n': "unat (of_nat n :: u16) = n" using n by (simp add: unat_of_nat)
  have "unat (of_nat n + pb_tot_len (pbufs st a)) = n + unat (pb_tot_len (pbufs st a))"
    using room(2) 1(1,2) by (simp add: unat_word_ariths n')
  then have "\<not> of_nat n + pb_tot_len (pbufs st a) < of_nat n" using n' by (simp add: word_less_nat_alt)
  then show ?thesis using n pl c room(1) 1(3)
    by (simp add: pbuf_add_header_def pbuf_add_header_impl_def Let_def home_def)
qed

text \<open>The pbufs of a packet nobody holds do not matter.\<close>

lemma held_unused: "R a = 0 \<Longrightarrow> held st L R (C(a := as)) \<longleftrightarrow> held st L R C"
proof -
  assume a: "R a = 0"
  have "(C(a := as)) b = C b" if "0 < R b" for b using a that by auto
  then show ?thesis unfolding held_def all_blocks_new [of R a C as, OF a] by simp
qed

end
