(* ===== verification/Lwip_Etharp_Inv.thy ===== *)
theory Lwip_Etharp_Inv
  imports Lwip_Etharp Lwip_Refs
begin

unbundle bit_operations_syntax

text \<open>
  The invariant of the network state and what the operations of the ARP module do to it: the table keeps its shape, an
  entry never holds more than one packet and only while it is pending, the reference counters are the numbers of
  holders, and no operation fails.
\<close>

declare split_paired_All [simp del] split_paired_Ex [simp del]

section \<open>The invariant\<close>

definition entry_ok :: "etharp_entry \<Rightarrow> bool" where
  "entry_ok e \<longleftrightarrow> length (ae_ethaddr e) = ETH_HWADDR_LEN \<and> (ae_q e \<noteq> None \<longrightarrow> ae_state e = ETHARP_STATE_PENDING) \<and>
     (ae_state e \<noteq> ETHARP_STATE_EMPTY \<longrightarrow> ae_ctime e < ARP_MAXAGE) \<and>
     (ae_state e = ETHARP_STATE_PENDING \<longrightarrow> ae_ctime e < ARP_MAXPENDING)"

text \<open>What an entry is found by.\<close>

definition entry_key :: "etharp_entry \<Rightarrow> (u32 \<times> u8 option) option" where
  "entry_key e = (if ae_state e = ETHARP_STATE_EMPTY then None else Some (ae_ipaddr e, ae_netif e))"

definition arp_table_ok :: "etharp_entry list \<Rightarrow> bool" where
  "arp_table_ok t \<longleftrightarrow> length t = ARP_TABLE_SIZE \<and> (\<forall>e \<in> set t. entry_ok e) \<and>
     (\<forall>i < ARP_TABLE_SIZE. \<forall>j < ARP_TABLE_SIZE. i \<noteq> j \<longrightarrow> entry_key (t ! i) \<noteq> None \<longrightarrow> entry_key (t ! i) \<noteq> entry_key (t ! j))"

text \<open>How many entries hold a packet.\<close>

definition queued :: "etharp_entry list \<Rightarrow> ptr \<Rightarrow> nat" where
  "queued t a = count (mset (map ae_q t)) (Some a)"

definition netif_ok :: "netif \<Rightarrow> bool" where
  "netif_ok n \<longleftrightarrow> netif_hwaddr_len n = of_nat ETH_HWADDR_LEN \<and> length (netif_hwaddr n) = ETH_HWADDR_LEN"

text \<open>The longest frame that is sent, less the header.\<close>

definition PACKET_MAX :: nat where "PACKET_MAX = 2033"

definition link_ok :: "'d link_fn \<Rightarrow> ('d \<Rightarrow> bool) \<Rightarrow> bool" where
  "link_ok lo I \<longleftrightarrow> (\<forall>n p m d as. I d \<longrightarrow> chain m (Some p) as \<longrightarrow> lens m as \<le> PACKET_MAX + SIZEOF_ETH_HDR \<longrightarrow>
     (\<exists>e d'. lo n p m d = Some (e, d') \<and> I d'))"

abbreviation refs :: "'d net_st \<Rightarrow> (ptr \<Rightarrow> nat) \<Rightarrow> ptr \<Rightarrow> nat" where
  "refs s R \<equiv> (\<lambda>a. R a + queued (arp_table s) a)"

definition net_ok :: "('d \<Rightarrow> bool) \<Rightarrow> 'd net_st \<Rightarrow> ptr set \<Rightarrow> (ptr \<Rightarrow> nat) \<Rightarrow> (ptr \<Rightarrow> ptr list) \<Rightarrow> bool" where
  "net_ok I s L R C \<longleftrightarrow> I (device s) \<and> arp_table_ok (arp_table s) \<and> etharp_cached_entry s < ARP_TABLE_SIZE \<and>
     held (nmem s) L (refs s R) C \<and> (\<forall>a. queued (arp_table s) a \<le> 1) \<and>
     (\<forall>a. 0 < queued (arp_table s) a \<longrightarrow> lens (nmem s) (C a) \<le> PACKET_MAX) \<and>
     (\<forall>n \<in> set (netif_list s). netif_ok n) \<and>
     (\<forall>e \<in> set (arp_table s). ae_state e \<noteq> ETHARP_STATE_EMPTY \<longrightarrow> (\<exists>n. netif_deref (ae_netif e) s = Some n))"

text \<open>What is left alone.\<close>

definition rest ::
    "'d net_st \<Rightarrow> u16 \<times> ip_globals \<times> (ptr \<times> ip_reassdata) list \<times> u16 \<times> (ptr \<Rightarrow> ptr option) \<times> netif list \<times> u8 option" where
  "rest s = (ip_id s, ip_data s, reassdatagrams s, ip_reass_pbufcount s, reass_next s, netif_list s, netif_default s)"

section \<open>Lemmas on the table\<close>

lemma etharp_state_order [simp]:
  "ETHARP_STATE_STABLE \<le> x \<longleftrightarrow> x \<noteq> ETHARP_STATE_EMPTY \<and> x \<noteq> ETHARP_STATE_PENDING"
  by (cases x) (simp_all add: less_eq_etharp_state_def)

lemma queued_upd:
  "i < length t \<Longrightarrow> queued (t[i := e]) a =
    queued t a - (if ae_q (t ! i) = Some a then 1 else 0) + (if ae_q e = Some a then 1 else 0)"
  by (simp add: queued_def map_update mset_update)

lemma queued_same: "i < length t \<Longrightarrow> ae_q e = ae_q (t ! i) \<Longrightarrow> queued (t[i := e]) a = queued t a"
proof -
  assume "i < length t" "ae_q e = ae_q (t ! i)"
  then have "map ae_q (t[i := e]) = map ae_q t" by (metis list_update_id map_update nth_map length_map)
  then show ?thesis by (simp add: queued_def)
qed

lemma queued_pos: "i < length t \<Longrightarrow> ae_q (t ! i) = Some a \<Longrightarrow> 0 < queued t a"
proof -
  assume "i < length t" "ae_q (t ! i) = Some a"
  then have "Some a \<in> set (map ae_q t)" by (metis length_map nth_map nth_mem)
  then show ?thesis unfolding queued_def count_greater_zero_iff set_mset_mset .
qed

lemma queued_0: "(\<forall>e \<in> set t. ae_q e \<noteq> Some a) \<Longrightarrow> queued t a = 0"
  by (auto simp: queued_def count_eq_zero_iff)

lemma arp_table_okD:
  assumes "arp_table_ok t"
  shows "length t = ARP_TABLE_SIZE" "i < ARP_TABLE_SIZE \<Longrightarrow> entry_ok (t ! i)"
    "i < ARP_TABLE_SIZE \<Longrightarrow> j < ARP_TABLE_SIZE \<Longrightarrow> i \<noteq> j \<Longrightarrow> entry_key (t ! i) \<noteq> None \<Longrightarrow> entry_key (t ! i) \<noteq> entry_key (t ! j)"
  using assms by (auto simp: arp_table_ok_def)

lemma arp_table_ok_upd:
  assumes t: "arp_table_ok t" and i: "i < ARP_TABLE_SIZE" and e: "entry_ok e"
    and k: "entry_key e \<noteq> None \<Longrightarrow> \<forall>j < ARP_TABLE_SIZE. j \<noteq> i \<longrightarrow> entry_key (t ! j) \<noteq> entry_key e"
  shows "arp_table_ok (t[i := e])"
  unfolding arp_table_ok_def
proof (intro conjI allI impI)
  show "length (t[i := e]) = ARP_TABLE_SIZE" using arp_table_okD(1) [OF t] by simp
  show "\<forall>x \<in> set (t[i := e]). entry_ok x" using t e set_update_subset_insert [of t i e] by (auto simp: arp_table_ok_def)
  fix m j assume mj: "m < ARP_TABLE_SIZE" "j < ARP_TABLE_SIZE" "m \<noteq> j" "entry_key (t[i := e] ! m) \<noteq> None"
  then show "entry_key (t[i := e] ! m) \<noteq> entry_key (t[i := e] ! j)"
    using k arp_table_okD(1,3) [OF t] by (cases "m = i"; cases "j = i") (auto simp: nth_list_update)
qed

section \<open>Steps of the state\<close>

lemma net_okD:
  assumes "net_ok I s L R C"
  shows "I (device s)" "arp_table_ok (arp_table s)" "etharp_cached_entry s < ARP_TABLE_SIZE" "held (nmem s) L (refs s R) C"
    "queued (arp_table s) a \<le> 1" "0 < queued (arp_table s) a \<Longrightarrow> lens (nmem s) (C a) \<le> PACKET_MAX"
    "n \<in> set (netif_list s) \<Longrightarrow> netif_ok n"
    "i < ARP_TABLE_SIZE \<Longrightarrow> ae_state (arp_table s ! i) \<noteq> ETHARP_STATE_EMPTY \<Longrightarrow> \<exists>n. netif_deref (ae_netif (arp_table s ! i)) s = Some n"
  using assms by (auto simp: net_ok_def arp_table_ok_def)

lemma netif_deref_list: "netif_list s' = netif_list s \<Longrightarrow> netif_deref k s' = netif_deref k s"
  by (cases k) (simp_all add: netif_deref_def)

lemma netif_deref_simps [simp]:
  "netif_deref k (s\<lparr>arp_table := t\<rparr>) = netif_deref k s" "netif_deref k (s\<lparr>nmem := m\<rparr>) = netif_deref k s"
  "netif_deref k (s\<lparr>device := d\<rparr>) = netif_deref k s" "netif_deref k (s\<lparr>etharp_cached_entry := c\<rparr>) = netif_deref k s"
  by (rule netif_deref_list, simp)+

text \<open>An entry is changed; the packet in it may be taken out.\<close>

lemma net_ok_table:
  assumes ok: "net_ok I s L R C" and i: "i < ARP_TABLE_SIZE" and e: "entry_ok e"
    and k: "entry_key e \<noteq> None \<Longrightarrow> \<forall>j < ARP_TABLE_SIZE. j \<noteq> i \<longrightarrow> entry_key (arp_table s ! j) \<noteq> entry_key e"
    and n: "ae_state e \<noteq> ETHARP_STATE_EMPTY \<Longrightarrow> \<exists>n. netif_deref (ae_netif e) s = Some n"
    and q: "ae_q e = ae_q (arp_table s ! i) \<and> R' = R \<or>
      ae_q e = None \<and> (\<exists>a. ae_q (arp_table s ! i) = Some a \<and> R' = R(a := R a + 1))"
  shows "net_ok I (s\<lparr>arp_table := (arp_table s)[i := e]\<rparr>) L R' C"
proof -
  note d = net_okD [OF ok]
  have len: "i < length (arp_table s)" using i arp_table_okD(1) [OF d(2)] by simp
  have le: "queued ((arp_table s)[i := e]) a \<le> queued (arp_table s) a" for a
    using q queued_same [OF len, of e a] queued_upd [OF len, of e a] by (elim disjE conjE exE) simp_all
  have "R' a + queued ((arp_table s)[i := e]) a = R a + queued (arp_table s) a" for a
  proof (cases "ae_q e = ae_q (arp_table s ! i) \<and> R' = R")
    case True
    then show ?thesis using queued_same [OF len, of e a] by simp
  next
    case False
    then obtain b where b: "ae_q e = None" "ae_q (arp_table s ! i) = Some b" "R' = R(b := R b + 1)" using q by blast
    have "0 < queued (arp_table s) b" using queued_pos [OF len b(2)] .
    then show ?thesis using b queued_upd [OF len, of e a] by simp
  qed
  then have refs: "(\<lambda>a. R' a + queued ((arp_table s)[i := e]) a) = refs s R" by simp
  have st: "arp_table_ok ((arp_table s)[i := e])" by (rule arp_table_ok_upd [OF d(2) i e k])
  have "\<forall>x \<in> set ((arp_table s)[i := e]). ae_state x \<noteq> ETHARP_STATE_EMPTY \<longrightarrow> (\<exists>n. netif_deref (ae_netif x) s = Some n)"
    using ok n set_update_subset_insert [of "arp_table s" i e] by (auto simp: net_ok_def)
  moreover have "queued ((arp_table s)[i := e]) a \<le> 1" for a using le [of a] d(5) [of a] by simp
  moreover have "0 < queued ((arp_table s)[i := e]) a \<Longrightarrow> lens (nmem s) (C a) \<le> PACKET_MAX" for a
    using le [of a] d(6) [of a] by simp
  ultimately show ?thesis using d(1,3,4,7) st refs by (simp add: net_ok_def)
qed

text \<open>The memory or the device changes.\<close>

lemma net_ok_mem:
  assumes ok: "net_ok I s L R C" and s': "arp_table s' = arp_table s" "etharp_cached_entry s' = etharp_cached_entry s"
    "netif_list s' = netif_list s" and i: "I (device s')" and h: "held (nmem s') L (refs s R') C"
    and l: "\<And>a. 0 < queued (arp_table s) a \<Longrightarrow> lens (nmem s') (C a) = lens (nmem s) (C a)"
  shows "net_ok I s' L R' C"
  using ok h i l by (simp add: net_ok_def s' netif_deref_list [OF s'(3)])

lemma keeps_lens: "keeps R C st st' \<Longrightarrow> 0 < R a \<Longrightarrow> lens st' (C a) = lens st (C a)"
  by (rule chain_like(2)) (auto simp: keeps_def in_blocks)

lemma free_pbuf_ok:
  assumes ok: "net_ok I s L R C" and a: "0 < R a"
  shows "returns (free_pbuf a s) (\<lambda>s'. net_ok I s' L (R(a := R a - 1)) C \<and> rest s' = rest s \<and> arp_table s' = arp_table s \<and>
    etharp_cached_entry s' = etharp_cached_entry s \<and> device s' = device s \<and> keeps (refs s (R(a := R a - 1))) C (nmem s) (nmem s') \<and>
    data_bytes (nmem s') = data_bytes (nmem s))"
proof -
  have "0 < refs s R a" using a by simp
  from held_free [OF net_okD(4) [OF ok] this] obtain n m where m: "pbuf_free (Some a) (nmem s) = Some (n, m)"
    "held m L ((refs s R)(a := refs s R a - 1)) C" "keeps ((refs s R)(a := refs s R a - 1)) C (nmem s) m"
    "data_bytes m = data_bytes (nmem s)" by blast
  have eq: "(refs s R)(a := refs s R a - 1) = (\<lambda>b. (R(a := R a - 1)) b + queued (arp_table s) b)" using a by auto
  have k: "keeps (refs s (R(a := R a - 1))) C (nmem s) m" using m(3) unfolding eq .
  have "net_ok I (s\<lparr>nmem := m\<rparr>) L (R(a := R a - 1)) C"
  proof (rule net_ok_mem [OF ok])
    show "held (nmem (s\<lparr>nmem := m\<rparr>)) L (refs s (R(a := R a - 1))) C" using m(2) eq by simp
    show "lens (nmem (s\<lparr>nmem := m\<rparr>)) (C b) = lens (nmem s) (C b)" if "0 < queued (arp_table s) b" for b
      using keeps_lens [OF k, of b] that by simp
  qed (use net_okD(1) [OF ok] in simp_all)
  then show ?thesis using m(1,4) k by (simp add: free_pbuf_def in_mem_def rest_def)
qed

definition same_state :: "'d net_st \<Rightarrow> 'd net_st \<Rightarrow> bool" where
  "same_state s s' \<longleftrightarrow> rest s' = rest s \<and> arp_table s' = arp_table s \<and> etharp_cached_entry s' = etharp_cached_entry s"

lemma same_state_refl [simp]: "same_state s s"
  by (simp add: same_state_def)

lemma same_state_trans: "same_state a b \<Longrightarrow> same_state b c \<Longrightarrow> same_state a c"
  by (simp add: same_state_def)

lemma same_state_simps [simp]:
  "same_state s (s\<lparr>nmem := m\<rparr>)" "same_state s (s\<lparr>device := d\<rparr>)" "same_state s (put_bytes a xs s)"
  by (simp_all add: same_state_def rest_def)

lemma free_pbuf_table: "free_pbuf q (s\<lparr>arp_table := t\<rparr>) = map_option (\<lambda>s. s\<lparr>arp_table := t\<rparr>) (free_pbuf q s)"
  by (cases "pbuf_free (Some q) (nmem s)") (auto simp: free_pbuf_def in_mem_def)

lemma upd_entry_twice: "i < length (arp_table s) \<Longrightarrow> upd_entry i f (upd_entry i g s) = upd_entry i (\<lambda>e. f (g e)) s"
  by (simp add: upd_entry_def)

lemma etharp_free_entry_ok:
  assumes ok: "net_ok I s L R C" and i: "i < ARP_TABLE_SIZE"
  shows "returns (etharp_free_entry i s) (\<lambda>s'. net_ok I s' L R C \<and> rest s' = rest s \<and> keeps (refs s' R) C (nmem s) (nmem s') \<and>
    device s' = device s \<and> etharp_cached_entry s' = etharp_cached_entry s \<and>
    arp_table s' = (arp_table s)[i := (arp_table s ! i)\<lparr>ae_q := None, ae_state := ETHARP_STATE_EMPTY\<rparr>])"
proof -
  let ?e = "(arp_table s ! i)\<lparr>ae_q := None, ae_state := ETHARP_STATE_EMPTY\<rparr>"
  let ?t = "(arp_table s)[i := ?e]"
  have len: "i < length (arp_table s)" using i arp_table_okD(1) [OF net_okD(2) [OF ok]] by simp
  have e: "entry_ok ?e" "entry_key ?e = None" using arp_table_okD(2) [OF net_okD(2) [OF ok] i]
    by (simp_all add: entry_ok_def entry_key_def)
  show ?thesis
  proof (cases "ae_q (arp_table s ! i)")
    case None
    have "net_ok I (s\<lparr>arp_table := ?t\<rparr>) L R C" by (rule net_ok_table [OF ok i e(1)]) (use e(2) None in auto)
    moreover have eq: "(arp_table s ! i)\<lparr>ae_state := ETHARP_STATE_EMPTY\<rparr> = ?e" using None by (cases "arp_table s ! i") simp
    ultimately show ?thesis using None by (simp add: etharp_free_entry_def upd_entry_def rest_def eq)
  next
    case (Some q)
    have "net_ok I (s\<lparr>arp_table := ?t\<rparr>) L (R(q := R q + 1)) C"
      by (rule net_ok_table [OF ok i e(1)]) (use e(2) Some in auto)
    from free_pbuf_ok [OF this, of q] obtain s0 where s0: "free_pbuf q (s\<lparr>arp_table := ?t\<rparr>) = Some s0" "net_ok I s0 L R C"
      "rest s0 = rest s" "arp_table s0 = ?t" "etharp_cached_entry s0 = etharp_cached_entry s" "device s0 = device s"
      "keeps (\<lambda>a. R a + queued ?t a) C (nmem s) (nmem s0)"
      by (auto simp: returns_def rest_def)
    then obtain s1 where s1: "free_pbuf q s = Some s1" "s0 = s1\<lparr>arp_table := ?t\<rparr>"
      by (auto simp: free_pbuf_table)
    have "arp_table s1 = arp_table s" using s1(1) by (auto simp: free_pbuf_def in_mem_def bind_Some_iff)
    then have "upd_entry i (\<lambda>e. e\<lparr>ae_state := ETHARP_STATE_EMPTY\<rparr>) (upd_entry i (\<lambda>e. e\<lparr>ae_q := None\<rparr>) s1) = s0"
      using len s1(2) by (simp add: upd_entry_def)
    then show ?thesis using Some s1(1) s0(2-) by (simp add: etharp_free_entry_def)
  qed
qed

section \<open>Sending\<close>

lemma link_ok_send:
  assumes "link_ok lo I" "net_ok I s L R C" "0 < R p" "lens (nmem s) (C p) \<le> PACKET_MAX + SIZEOF_ETH_HDR"
  obtains e d where "lo n p (nmem s) (device s) = Some (e, d)" "I d"
proof -
  have "chain (nmem s) (Some p) (C p)" using heldD(1) [OF net_okD(4) [OF assms(2)], of p] assms(3) by (simp add: packet_def)
  then show thesis using assms(1,4) net_okD(1) [OF assms(2)] that unfolding link_ok_def by blast
qed

lemma ethernet_output_ok:
  assumes lo: "link_ok lo I" and ok: "net_ok I s L R C" and p: "0 < R p" "queued (arp_table s) p = 0"
    and l: "lens (nmem s) (C p) \<le> PACKET_MAX" and n: "netif_ok n"
  shows "returns (ethernet_output lo n p src dst ty s) (\<lambda>(e, s'). net_ok I s' L R C \<and> same_state s s' \<and>
    keeps ((refs s R)(p := 0)) C (nmem s) (nmem s'))"
proof -
  note h = net_okD(4) [OF ok]
  have pos: "0 < refs s R p" using p by simp
  have 14: "SIZEOF_ETH_HDR \<le> 0xFFFF" by (simp add: SIZEOF_ETH_HDR_def)
  show ?thesis
  proof (rule held_add_header [OF h pos 14])
    assume "pbuf_add_header (Some p) SIZEOF_ETH_HDR (nmem s) = Some (True, nmem s)"
    then show ?thesis using ok by (simp add: ethernet_output_def in_mem_def)
  next
    fix m pl assume m: "pbuf_add_header (Some p) SIZEOF_ETH_HDR (nmem s) = Some (False, m)" "held m L (refs s R) C"
      "keeps ((refs s R)(p := 0)) C (nmem s) m" "pb_payload (pbufs m p) = Some (ptr_add pl (- int SIZEOF_ETH_HDR))"
      "lens m (C p) = lens (nmem s) (C p) + SIZEOF_ETH_HDR"
    let ?h = "ptr_add pl (- int SIZEOF_ETH_HDR)"
    define s1 where "s1 = put_bytes (eth_src ?h) (take ETH_HWADDR_LEN src) (put_bytes (eth_dest ?h) (take ETH_HWADDR_LEN dst)
      (put16 (eth_type_at ?h) (lwip_htons ty) (s\<lparr>nmem := m\<rparr>)))"
    have pb: "pbufs (nmem s1) = pbufs m" by (simp add: s1_def)
    have hm: "held (nmem s1) L (refs s R) C" using m(2) held_same_pbufs [of "nmem s1" m] by (simp add: s1_def)
    have same: "same_state s s1" "device s1 = device s" by (simp_all add: s1_def same_state_def rest_def)
    have ok1: "net_ok I s1 L R C"
    proof (rule net_ok_mem [OF ok])
      show "arp_table s1 = arp_table s" "etharp_cached_entry s1 = etharp_cached_entry s" "netif_list s1 = netif_list s"
        by (simp_all add: s1_def)
      show "I (device s1)" using net_okD(1) [OF ok] same by simp
      fix a assume a: "0 < queued (arp_table s) a"
      then have "0 < ((refs s R)(p := 0)) a" using p(2) by auto
      then show "lens (nmem s1) (C a) = lens (nmem s) (C a)" using keeps_lens [OF m(3), of a] by (simp add: pb)
    qed (rule hm)
    have l1: "lens (nmem s1) (C p) \<le> PACKET_MAX + SIZEOF_ETH_HDR" using m(5) l by (simp add: pb)
    obtain e d where d: "lo n p (nmem s1) (device s1) = Some (e, d)" "I d"
      by (rule link_ok_send [OF lo ok1 p(1) l1])
    have ok2: "net_ok I (s1\<lparr>device := d\<rparr>) L R C"
      by (rule net_ok_mem [OF ok1]) (use d(2) net_okD(4) [OF ok1] in simp_all)
    have "ethernet_output lo n p src dst ty s = Some (e, s1\<lparr>device := d\<rparr>)"
      using m(1,4) d(1) n by (simp add: ethernet_output_def in_mem_def Let_def linkoutput_def netif_ok_def s1_def)
    moreover have "keeps ((refs s R)(p := 0)) C (nmem s) (nmem s1)" using m(3) by (simp add: keeps_def pb)
    ultimately show ?thesis using ok2 same(1) by (simp add: same_state_def rest_def)
  qed
qed

lemma net_ok_unused: "R a + queued (arp_table s) a = 0 \<Longrightarrow> net_ok I s L R (C(a := as)) \<longleftrightarrow> net_ok I s L R C"
proof -
  assume a: "R a + queued (arp_table s) a = 0"
  then have "(C(a := as)) b = C b" if "0 < queued (arp_table s) b" for b using that by auto
  then show ?thesis using held_unused [of "refs s R" a "nmem s" L C as] a by (auto simp: net_ok_def)
qed

lemma keeps_unused: "R a = 0 \<Longrightarrow> keeps R (C(a := as)) st st' \<longleftrightarrow> keeps R C st st'"
  using all_blocks_new [of R a C as] by (simp add: keeps_def)

text \<open>The packet as it is built, before it is sent.\<close>

lemma etharp_raw_build:
  assumes ok: "net_ok I s L R C" and n: "netif_ok n"
  obtains (full) "etharp_raw lo n es ed hs si hw di opc s = Some (ERR_MEM, s)"
      "pbuf_alloc PBUF_LINK 28 PBUF_RAM (nmem s) = Some (None, nmem s)"
  | (built) a s1 h where "R a = 0" "queued (arp_table s) a = 0" "net_ok I s1 L (R(a := 1)) (C(a := [a]))" "same_state s s1"
      "device s1 = device s" "keeps (refs s R) C (nmem s) (nmem s1)" "h = ptr_add a 32"
      "the_pbuf s1 a = \<lparr>pb_next = None, pb_payload = Some h, pb_tot_len = 28, pb_len = 28, pb_type_internal = 0x80,
         pb_flags = 0, pb_ref = 1, pb_if_idx = 0\<rparr>"
      "data_bytes (nmem s1) = write_bytes (arp_protolen h) [4] (write_bytes (arp_hwlen h) [6]
         (write_bytes (arp_proto h) [8, 0] (write_bytes (arp_hwtype h) [0, 1] (write_bytes (arp_dipaddr h) (addr_bytes di)
         (write_bytes (arp_sipaddr h) (addr_bytes si) (write_bytes (arp_dhwaddr h) (take ETH_HWADDR_LEN hw)
         (write_bytes (arp_shwaddr h) (take ETH_HWADDR_LEN hs) (write_bytes (arp_opcode h) [hi8 opc, lo8 opc]
           (data_bytes (nmem s))))))))))"
      "etharp_raw lo n es ed hs si hw di opc s =
         do { (_, s) \<leftarrow> ethernet_output lo n a es ed ETHTYPE_ARP s1; s \<leftarrow> free_pbuf a s; Some (ERR_OK, s) }"
proof -
  obtain r m where r: "pbuf_alloc PBUF_LINK (of_nat SIZEOF_ETHARP_HDR) PBUF_RAM (nmem s) = Some (r, m)"
    "data_bytes m = data_bytes (nmem s)"
    "case r of None \<Rightarrow> m = nmem s
     | Some a \<Rightarrow> refs s R a = 0 \<and> held m L ((refs s R)(a := 1)) (C(a := [a])) \<and> keeps (refs s R) C (nmem s) m \<and>
         fst a = Ram \<and>
         pbufs m a = \<lparr>pb_next = None,
           pb_payload = Some (ptr_add a (int (SIZEOF_STRUCT_PBUF + LWIP_MEM_ALIGN_SIZE (layer_num PBUF_LINK)))),
           pb_tot_len = of_nat SIZEOF_ETHARP_HDR, pb_len = of_nat SIZEOF_ETHARP_HDR, pb_type_internal = 0x80,
           pb_flags = 0, pb_ref = 1, pb_if_idx = 0\<rparr>"
    using held_alloc_ram [OF net_okD(4) [OF ok], of PBUF_LINK "of_nat SIZEOF_ETHARP_HDR"] by blast
  show thesis
  proof (cases r)
    case None
    then show thesis using r ok by (intro full) (simp_all add: etharp_raw_def in_mem_def SIZEOF_ETHARP_HDR_def)
  next
    case (Some a)
    let ?C = "C(a := [a])" and ?R = "R(a := 1)"
    have 32: "int SIZEOF_STRUCT_PBUF + int (LWIP_MEM_ALIGN_SIZE PBUF_LINK_HLEN) = 32" by code_simp
    let ?h = "ptr_add a 32"
    have a0: "refs s R a = 0" "R a = 0" "queued (arp_table s) a = 0" and hm: "held m L ((refs s R)(a := 1)) ?C"
      and km: "keeps (refs s R) C (nmem s) m"
      and pa: "pbufs m a = \<lparr>pb_next = None, pb_payload = Some ?h, pb_tot_len = 28, pb_len = 28, pb_type_internal = 0x80,
         pb_flags = 0, pb_ref = 1, pb_if_idx = 0\<rparr>"
      using r(3) Some by (simp_all add: SIZEOF_ETHARP_HDR_def 32)
    define s1 where "s1 = put_bytes (arp_protolen ?h) [4] (put_bytes (arp_hwlen ?h) [of_nat ETH_HWADDR_LEN]
      (put16 (arp_proto ?h) (lwip_htons ETHTYPE_IP) (put16 (arp_hwtype ?h) (lwip_htons LWIP_IANA_HWTYPE_ETHERNET)
      (put32 (arp_dipaddr ?h) di (put32 (arp_sipaddr ?h) si (put_bytes (arp_dhwaddr ?h) (take ETH_HWADDR_LEN hw)
      (put_bytes (arp_shwaddr ?h) (take ETH_HWADDR_LEN hs) (put16 (arp_opcode ?h) (lwip_htons opc) (s\<lparr>nmem := m\<rparr>)))))))))"
    have pb: "pbufs (nmem s1) = pbufs m" by (simp add: s1_def)
    have same1: "same_state s s1" "device s1 = device s" by (simp_all add: s1_def same_state_def rest_def)
    have eq: "refs s ?R = (refs s R)(a := 1)" using a0 by auto
    have ok1: "net_ok I s1 L ?R ?C"
    proof (rule net_ok_mem)
      show "net_ok I s L R ?C" by (rule iffD2 [OF net_ok_unused ok]) (use a0 in simp)
      show "held (nmem s1) L (refs s ?R) ?C" using hm held_same_pbufs [of "nmem s1" m] unfolding eq by (simp add: s1_def)
      show "I (device s1)" using net_okD(1) [OF ok] same1 by simp
      fix b assume b: "0 < queued (arp_table s) b"
      then have "b \<noteq> a" using a0 by auto
      then show "lens (nmem s1) (?C b) = lens (nmem s) (?C b)" using keeps_lens [OF km, of b] b by (simp add: pb)
    qed (simp_all add: s1_def)
    have cst: "[lo8 (lwip_htons ETHTYPE_IP), hi8 (lwip_htons ETHTYPE_IP)] = [8, 0]"
      "[lo8 (lwip_htons LWIP_IANA_HWTYPE_ETHERNET), hi8 (lwip_htons LWIP_IANA_HWTYPE_ETHERNET)] = [0, 1]"
      "[of_nat ETH_HWADDR_LEN] = [6 :: u8]" by code_simp+
    show thesis
    proof (rule built [of a s1 ?h])
      show "etharp_raw lo n es ed hs si hw di opc s =
         do { (_, s) \<leftarrow> ethernet_output lo n a es ed ETHTYPE_ARP s1; s \<leftarrow> free_pbuf a s; Some (ERR_OK, s) }"
        using r(1) Some n pa by (simp add: etharp_raw_def in_mem_def Let_def netif_ok_def s1_def SIZEOF_ETHARP_HDR_def)
      show "keeps (refs s R) C (nmem s) (nmem s1)" using km by (simp add: keeps_def pb)
      show "the_pbuf s1 a = \<lparr>pb_next = None, pb_payload = Some ?h, pb_tot_len = 28, pb_len = 28, pb_type_internal = 0x80,
         pb_flags = 0, pb_ref = 1, pb_if_idx = 0\<rparr>" using pa by (simp add: pb)
      show "data_bytes (nmem s1) = write_bytes (arp_protolen ?h) [4] (write_bytes (arp_hwlen ?h) [6]
         (write_bytes (arp_proto ?h) [8, 0] (write_bytes (arp_hwtype ?h) [0, 1] (write_bytes (arp_dipaddr ?h) (addr_bytes di)
         (write_bytes (arp_sipaddr ?h) (addr_bytes si) (write_bytes (arp_dhwaddr ?h) (take ETH_HWADDR_LEN hw)
         (write_bytes (arp_shwaddr ?h) (take ETH_HWADDR_LEN hs) (write_bytes (arp_opcode ?h) [hi8 opc, lo8 opc]
           (data_bytes (nmem s))))))))))"
        unfolding s1_def using r(2) by (simp only: put_field_simps put_bytes_simps cst) (simp add: lwip_htons_lo_hi)
    qed (use a0 ok1 same1 in simp_all)
  qed
qed

lemma etharp_raw_ok:
  assumes lo: "link_ok lo I" and ok: "net_ok I s L R C" and n: "netif_ok n"
  shows "returns (etharp_raw lo n es ed hs si hw di opc s) (\<lambda>(e, s'). net_ok I s' L R C \<and> same_state s s' \<and>
    keeps (refs s R) C (nmem s) (nmem s') \<and> (e = ERR_OK \<or> e = ERR_MEM))"
proof (cases rule: etharp_raw_build [OF ok n, of lo es ed hs si hw di opc])
  case 1
  then show ?thesis using ok by simp
next
  case built: (2 a s1 h)
  let ?C = "C(a := [a])" and ?R = "R(a := 1)"
  have t1: "arp_table s1 = arp_table s" using built(4) by (simp add: same_state_def)
  have l1: "lens (nmem s1) (?C a) \<le> PACKET_MAX" using built(8) by (simp add: PACKET_MAX_def)
  have "returns (ethernet_output lo n a es ed ETHTYPE_ARP s1) (\<lambda>(e, s'). net_ok I s' L ?R ?C \<and> same_state s1 s' \<and>
    keeps ((refs s1 ?R)(a := 0)) ?C (nmem s1) (nmem s'))"
    by (rule ethernet_output_ok [OF lo built(3) _ _ l1 n]) (simp_all add: t1 built(2))
  then obtain e s2 where s2: "ethernet_output lo n a es ed ETHTYPE_ARP s1 = Some (e, s2)" "net_ok I s2 L ?R ?C"
    "same_state s1 s2" "keeps ((refs s1 ?R)(a := 0)) ?C (nmem s1) (nmem s2)" by (auto simp: returns_def)
  have t2: "arp_table s2 = arp_table s" using s2(3) t1 by (simp add: same_state_def)
  obtain s3 where s3: "free_pbuf a s2 = Some s3" "net_ok I s3 L (?R(a := ?R a - 1)) ?C" "same_state s2 s3"
    "keeps (refs s2 (?R(a := ?R a - 1))) ?C (nmem s2) (nmem s3)"
    using free_pbuf_ok [OF s2(2), of a] by (auto simp: returns_def same_state_def)
  have R: "?R(a := ?R a - 1) = R" using built(1) by auto
  have t3: "arp_table s3 = arp_table s" using s3(3) t2 by (simp add: same_state_def)
  have ok3: "net_ok I s3 L R C" using s3(2) unfolding R by (rule iffD1 [OF net_ok_unused, rotated]) (use built(1,2) t3 in simp)
  have "etharp_raw lo n es ed hs si hw di opc s = Some (ERR_OK, s3)" using built(10) s2(1) s3(1) by simp
  moreover have "same_state s s3" using built(4) s2(3) s3(3) same_state_trans by blast
  moreover have "keeps (refs s R) C (nmem s) (nmem s3)"
  proof -
    have "(refs s1 ?R)(a := 0) = refs s R" using built(1,2) t1 by auto
    then have "keeps (refs s R) C (nmem s1) (nmem s2)" using s2(4) keeps_unused [of "refs s R" a] built(1,2) by simp
    moreover have "keeps (refs s R) C (nmem s2) (nmem s3)"
      using s3(4) keeps_unused [of "refs s R" a] built(1,2) unfolding R t2 by simp
    ultimately show ?thesis using built(6) keeps_trans by blast
  qed
  ultimately show ?thesis using ok3 by simp
qed

end
