(* ===== verification/Lwip_Etharp_Find.thy ===== *)
theory Lwip_Etharp_Find
  imports Lwip_Etharp_Inv
begin

unbundle bit_operations_syntax

text \<open>
  The search in the ARP table: what the sweep finds, and which entry is recycled.
\<close>

declare split_paired_All [simp del] split_paired_Ex [simp del]

section \<open>The sweep\<close>

definition entry_matches :: "u32 option \<Rightarrow> u8 option \<Rightarrow> etharp_entry \<Rightarrow> bool" where
  "entry_matches ipaddr netif e \<longleftrightarrow> ae_state e \<noteq> ETHARP_STATE_EMPTY \<and>
     (case ipaddr of None \<Rightarrow> False | Some a \<Rightarrow> a = ae_ipaddr e) \<and> (netif = None \<or> netif = ae_netif e)"

definition stable_entry :: "etharp_entry \<Rightarrow> bool" where
  "stable_entry e \<longleftrightarrow> ae_state e \<ge> ETHARP_STATE_STABLE"

definition idle_pending :: "etharp_entry \<Rightarrow> bool" where
  "idle_pending e \<longleftrightarrow> ae_state e = ETHARP_STATE_PENDING \<and> ae_q e = None"

definition queued_pending :: "etharp_entry \<Rightarrow> bool" where
  "queued_pending e \<longleftrightarrow> ae_state e = ETHARP_STATE_PENDING \<and> ae_q e \<noteq> None"

lemmas entry_kinds = stable_entry_def idle_pending_def queued_pending_def

text \<open>\<open>k\<close> is the last of the oldest among the first \<open>i\<close> entries with property \<open>P\<close>, and \<open>a\<close> its age.\<close>

definition oldest :: "(etharp_entry \<Rightarrow> bool) \<Rightarrow> etharp_entry list \<Rightarrow> nat \<Rightarrow> nat \<Rightarrow> u16 \<Rightarrow> bool" where
  "oldest P t i k a \<longleftrightarrow>
     (k = ARP_TABLE_SIZE \<and> a = 0 \<and> (\<forall>j < i. \<not> P (t ! j))) \<or>
     (k < i \<and> P (t ! k) \<and> a = ae_ctime (t ! k) \<and>
      (\<forall>j < i. P (t ! j) \<longrightarrow> ae_ctime (t ! j) \<le> a \<and> (ae_ctime (t ! j) = a \<longrightarrow> j \<le> k)))"

definition first_empty :: "etharp_entry list \<Rightarrow> nat \<Rightarrow> nat \<Rightarrow> bool" where
  "first_empty t i k \<longleftrightarrow>
     (k = ARP_TABLE_SIZE \<and> (\<forall>j < i. ae_state (t ! j) \<noteq> ETHARP_STATE_EMPTY)) \<or>
     (k < i \<and> ae_state (t ! k) = ETHARP_STATE_EMPTY \<and> (\<forall>j < k. ae_state (t ! j) \<noteq> ETHARP_STATE_EMPTY))"

definition swept :: "etharp_entry list \<Rightarrow> nat \<Rightarrow> find_vars \<Rightarrow> bool" where
  "swept t i v \<longleftrightarrow> first_empty t i (empty v) \<and> oldest stable_entry t i (old_stable v) (age_stable v) \<and>
     oldest idle_pending t i (old_pending v) (age_pending v) \<and> oldest queued_pending t i (old_queue v) (age_queue v)"

lemma oldest_skip: "oldest P t i k a \<Longrightarrow> \<not> P (t ! i) \<Longrightarrow> oldest P t (Suc i) k a"
  by (auto simp: oldest_def less_Suc_eq)

lemma oldest_keep: "oldest P t i k a \<Longrightarrow> P (t ! i) \<Longrightarrow> \<not> ae_ctime (t ! i) \<ge> a \<Longrightarrow> oldest P t (Suc i) k a"
  by (auto simp: oldest_def less_Suc_eq)

lemma oldest_new:
  assumes "oldest P t i k a" "P (t ! i)" "ae_ctime (t ! i) \<ge> a"
  shows "oldest P t (Suc i) i (ae_ctime (t ! i))"
  using assms unfolding oldest_def less_Suc_eq
  by (elim disjE conjE; intro disjI2 conjI allI impI) (auto dest: order_trans)

lemma swept_step:
  assumes s: "swept t i v" and i: "i < ARP_TABLE_SIZE"
  shows "empty v = ARP_TABLE_SIZE \<Longrightarrow> ae_state (t ! i) = ETHARP_STATE_EMPTY \<Longrightarrow> swept t (Suc i) (v\<lparr>empty := i\<rparr>)"
    "ae_state (t ! i) \<noteq> ETHARP_STATE_EMPTY \<Longrightarrow> swept t (Suc i) (remember i (t ! i) v)"
    "empty v \<noteq> ARP_TABLE_SIZE \<Longrightarrow> ae_state (t ! i) = ETHARP_STATE_EMPTY \<Longrightarrow> swept t (Suc i) v"
proof -
  note d = s [unfolded swept_def]
  show "swept t (Suc i) (v\<lparr>empty := i\<rparr>)" if "empty v = ARP_TABLE_SIZE" "ae_state (t ! i) = ETHARP_STATE_EMPTY"
    using d that i by (auto simp: swept_def entry_kinds first_empty_def intro!: oldest_skip)
  show "swept t (Suc i) v" if "empty v \<noteq> ARP_TABLE_SIZE" "ae_state (t ! i) = ETHARP_STATE_EMPTY"
    using d that by (auto simp: swept_def entry_kinds first_empty_def less_Suc_eq intro!: oldest_skip)
  assume ne: "ae_state (t ! i) \<noteq> ETHARP_STATE_EMPTY"
  have e: "first_empty t (Suc i) (empty v)" using d ne by (auto simp: first_empty_def less_Suc_eq)
  consider "stable_entry (t ! i)" "\<not> idle_pending (t ! i)" "\<not> queued_pending (t ! i)"
    | "\<not> stable_entry (t ! i)" "idle_pending (t ! i)" "\<not> queued_pending (t ! i)"
    | "\<not> stable_entry (t ! i)" "\<not> idle_pending (t ! i)" "queued_pending (t ! i)"
    using ne by (auto simp: entry_kinds)
  then show "swept t (Suc i) (remember i (t ! i) v)"
  proof cases
    case 1
    then have "remember i (t ! i) v =
      (if ae_ctime (t ! i) \<ge> age_stable v then v\<lparr>old_stable := i, age_stable := ae_ctime (t ! i)\<rparr> else v)"
      by (auto simp: remember_def entry_kinds)
    then show ?thesis using d e 1 by (auto simp: swept_def intro: oldest_skip oldest_keep oldest_new)
  next
    case 2
    then have "remember i (t ! i) v =
      (if ae_ctime (t ! i) \<ge> age_pending v then v\<lparr>old_pending := i, age_pending := ae_ctime (t ! i)\<rparr> else v)"
      by (auto simp: remember_def entry_kinds)
    then show ?thesis using d e 2 by (auto simp: swept_def intro: oldest_skip oldest_keep oldest_new)
  next
    case 3
    then have "remember i (t ! i) v =
      (if ae_ctime (t ! i) \<ge> age_queue v then v\<lparr>old_queue := i, age_queue := ae_ctime (t ! i)\<rparr> else v)"
      by (auto simp: remember_def entry_kinds)
    then show ?thesis using d e 3 by (auto simp: swept_def intro: oldest_skip oldest_keep oldest_new)
  qed
qed

lemma find_scan_ok:
  assumes "length t = ARP_TABLE_SIZE" "es = drop i t" "i \<le> ARP_TABLE_SIZE" "swept t i v" "\<forall>j < i. \<not> entry_matches ip nif (t ! j)"
  shows "case find_scan ip nif i es v of
      Inl k \<Rightarrow> k < ARP_TABLE_SIZE \<and> entry_matches ip nif (t ! k) \<and> (\<forall>j < k. \<not> entry_matches ip nif (t ! j))
    | Inr v' \<Rightarrow> swept t ARP_TABLE_SIZE v' \<and> (\<forall>j < ARP_TABLE_SIZE. \<not> entry_matches ip nif (t ! j))"
  using assms
proof (induction es arbitrary: i v)
  case Nil
  then show ?case by simp
next
  case (Cons e es)
  have i: "i < ARP_TABLE_SIZE" using Cons.prems(1-3) by (metis drop_eq_Nil list.distinct(1) not_le)
  have e: "e = t ! i" "es = drop (Suc i) t" using Cons.prems(1,2) i by (simp_all add: Cons_nth_drop_Suc [symmetric])
  note st = swept_step [OF Cons.prems(4) i]
  show ?case
  proof (cases "entry_matches ip nif e")
    case True
    then have "find_scan ip nif i (e # es) v = Inl i" by (auto simp: entry_matches_def)
    then show ?thesis using True e i Cons.prems(5) by simp
  next
    case False
    have no: "\<forall>j < Suc i. \<not> entry_matches ip nif (t ! j)" using False e Cons.prems(5) by (auto simp: less_Suc_eq)
    obtain v1 where v1: "find_scan ip nif i (e # es) v = find_scan ip nif (Suc i) es v1" "swept t (Suc i) v1"
    proof (cases "ae_state e = ETHARP_STATE_EMPTY")
      case em: True
      show thesis
        by (cases "empty v = ARP_TABLE_SIZE") (use em st(1,3) e that in auto)
    next
      case em: False
      then show thesis using False st(2) e that by (auto simp: entry_matches_def)
    qed
    show ?thesis unfolding v1(1) by (rule Cons.IH) (use Cons.prems(1) e v1(2) i no in simp_all)
  qed
qed

definition find_start :: find_vars where
  "find_start = \<lparr>old_pending = ARP_TABLE_SIZE, old_stable = ARP_TABLE_SIZE, empty = ARP_TABLE_SIZE, old_queue = ARP_TABLE_SIZE,
     age_queue = 0, age_pending = 0, age_stable = 0\<rparr>"

lemma find_scan_start:
  assumes "length t = ARP_TABLE_SIZE"
  shows "case find_scan ip nif 0 t find_start of
      Inl k \<Rightarrow> k < ARP_TABLE_SIZE \<and> entry_matches ip nif (t ! k) \<and> (\<forall>j < k. \<not> entry_matches ip nif (t ! j))
    | Inr v' \<Rightarrow> swept t ARP_TABLE_SIZE v' \<and> (\<forall>j < ARP_TABLE_SIZE. \<not> entry_matches ip nif (t ! j))"
  by (rule find_scan_ok) (use assms in \<open>auto simp: swept_def oldest_def first_empty_def find_start_def\<close>)

section \<open>The search\<close>

lemma matches_key: "entry_matches (Some ip) (Some k) e \<longleftrightarrow> entry_key e = Some (ip, Some k)"
  by (auto simp: entry_matches_def entry_key_def)

text \<open>Which entry is recycled: the last of the oldest of the least useful kind there is.\<close>

definition victim :: "etharp_entry list \<Rightarrow> nat \<Rightarrow> bool" where
  "victim t i \<longleftrightarrow> i < ARP_TABLE_SIZE \<and>
     (let some = (\<lambda>P. \<exists>j < ARP_TABLE_SIZE. P (t ! j));
          oldest = (\<lambda>P. P (t ! i) \<and> (\<forall>j < ARP_TABLE_SIZE. P (t ! j) \<longrightarrow> ae_ctime (t ! j) \<le> ae_ctime (t ! i)))
      in if some (\<lambda>e. ae_state e = ETHARP_STATE_EMPTY)
         then ae_state (t ! i) = ETHARP_STATE_EMPTY \<and> (\<forall>j < i. ae_state (t ! j) \<noteq> ETHARP_STATE_EMPTY)
         else if some stable_entry then oldest stable_entry
         else if some idle_pending then oldest idle_pending
         else oldest queued_pending)"

definition picked :: "find_vars \<Rightarrow> nat" where
  "picked v = (if empty v < ARP_TABLE_SIZE then empty v else if old_stable v < ARP_TABLE_SIZE then old_stable v
     else if old_pending v < ARP_TABLE_SIZE then old_pending v else old_queue v)"

lemma oldest_cases:
  "oldest P t ARP_TABLE_SIZE k a \<Longrightarrow> (\<exists>j < ARP_TABLE_SIZE. P (t ! j)) \<longleftrightarrow> k < ARP_TABLE_SIZE"
  "oldest P t ARP_TABLE_SIZE k a \<Longrightarrow> k < ARP_TABLE_SIZE \<Longrightarrow>
    P (t ! k) \<and> (\<forall>j < ARP_TABLE_SIZE. P (t ! j) \<longrightarrow> ae_ctime (t ! j) \<le> ae_ctime (t ! k))"
  by (auto simp: oldest_def)

lemma swept_victim:
  assumes s: "swept t ARP_TABLE_SIZE v"
  shows "victim t (picked v)" "picked v < ARP_TABLE_SIZE"
    "empty v < ARP_TABLE_SIZE \<Longrightarrow> ae_state (t ! empty v) = ETHARP_STATE_EMPTY"
    "old_stable v < ARP_TABLE_SIZE \<Longrightarrow> stable_entry (t ! old_stable v)"
proof -
  note d = s [unfolded swept_def]
  have em: "(\<exists>j < ARP_TABLE_SIZE. ae_state (t ! j) = ETHARP_STATE_EMPTY) \<longleftrightarrow> empty v < ARP_TABLE_SIZE"
    using d by (auto simp: first_empty_def)
  have kind: "ae_state e = ETHARP_STATE_EMPTY \<or> stable_entry e \<or> idle_pending e \<or> queued_pending e" for e
    by (auto simp: entry_kinds)
  have z: "0 < ARP_TABLE_SIZE" by (simp add: arp_consts)
  have q: "old_queue v < ARP_TABLE_SIZE" if "\<not> empty v < ARP_TABLE_SIZE" "\<not> old_stable v < ARP_TABLE_SIZE" "\<not> old_pending v < ARP_TABLE_SIZE"
  proof -
    have "queued_pending (t ! 0)" using kind [of "t ! 0"] em that z oldest_cases(1) d by blast
    then show ?thesis using oldest_cases(1) d z by blast
  qed
  then show "picked v < ARP_TABLE_SIZE" by (simp add: picked_def)
  show em': "empty v < ARP_TABLE_SIZE \<Longrightarrow> ae_state (t ! empty v) = ETHARP_STATE_EMPTY"
    using d by (auto simp: first_empty_def)
  show st': "old_stable v < ARP_TABLE_SIZE \<Longrightarrow> stable_entry (t ! old_stable v)"
    using oldest_cases(2) d by blast
  have fe: "\<forall>j < empty v. ae_state (t ! j) \<noteq> ETHARP_STATE_EMPTY" if "empty v < ARP_TABLE_SIZE"
    using that d by (auto simp: first_empty_def)
  consider "empty v < ARP_TABLE_SIZE" | "\<not> empty v < ARP_TABLE_SIZE" "old_stable v < ARP_TABLE_SIZE"
    | "\<not> empty v < ARP_TABLE_SIZE" "\<not> old_stable v < ARP_TABLE_SIZE" "old_pending v < ARP_TABLE_SIZE"
    | "\<not> empty v < ARP_TABLE_SIZE" "\<not> old_stable v < ARP_TABLE_SIZE" "\<not> old_pending v < ARP_TABLE_SIZE" by blast
  then show "victim t (picked v)"
  proof cases
    case 1
    then show ?thesis using em em' fe by (simp add: victim_def picked_def Let_def)
  next
    case 2
    then show ?thesis using em oldest_cases [of stable_entry t "old_stable v" "age_stable v"] d
      by (simp add: victim_def picked_def Let_def)
  next
    case 3
    then show ?thesis using em d oldest_cases [of stable_entry t "old_stable v" "age_stable v"]
      oldest_cases [of idle_pending t "old_pending v" "age_pending v"] by (simp add: victim_def picked_def Let_def)
  next
    case 4
    then show ?thesis using em d q oldest_cases [of stable_entry t "old_stable v" "age_stable v"]
      oldest_cases [of idle_pending t "old_pending v" "age_pending v"]
      oldest_cases [of queued_pending t "old_queue v" "age_queue v"] by (simp add: victim_def picked_def Let_def)
  qed
qed

text \<open>What a search leaves behind: \<open>found\<close> says that entry \<open>i\<close> is the one for the address.\<close>

definition same_rest :: "('d net_st \<Rightarrow> 'd net_st \<Rightarrow> bool)" where
  "same_rest s s' \<longleftrightarrow> rest s' = rest s \<and> device s' = device s \<and> etharp_cached_entry s' = etharp_cached_entry s"

definition found :: "u32 \<Rightarrow> u8 \<Rightarrow> nat \<Rightarrow> etharp_entry list \<Rightarrow> bool" where
  "found ip k i t \<longleftrightarrow> i < ARP_TABLE_SIZE \<and> ae_ipaddr (t ! i) = ip \<and> ae_netif (t ! i) = Some k \<and>
     (\<forall>j < ARP_TABLE_SIZE. j \<noteq> i \<longrightarrow> entry_key (t ! j) \<noteq> Some (ip, Some k))"

lemma make_room:
  assumes ok: "net_ok I s L R C" and v: "swept (arp_table s) ARP_TABLE_SIZE v"
  shows "returns (if empty v < ARP_TABLE_SIZE then Some (Some (empty v), s) else recycle v s) (\<lambda>(r, s'). r = Some (picked v) \<and>
    net_ok I s' L R C \<and> same_rest s s' \<and> keeps (refs s' R) C (nmem s) (nmem s') \<and>
    (\<exists>e. arp_table s' = (arp_table s)[picked v := e] \<and> ae_state e = ETHARP_STATE_EMPTY \<and> ae_q e = None))"
proof -
  note t = arp_table_okD [OF net_okD(2) [OF ok]]
  note sv = swept_victim [OF v]
  show ?thesis
  proof (cases "empty v < ARP_TABLE_SIZE")
    case True
    then have "ae_state (arp_table s ! empty v) = ETHARP_STATE_EMPTY" "ae_q (arp_table s ! empty v) = None"
      using sv(3) t(2) [of "empty v"] by (auto simp: entry_ok_def)
    then show ?thesis using True ok
      by (auto simp: picked_def same_rest_def intro!: exI [of _ "arp_table s ! empty v"])
  next
    case False
    have "old_stable v < ARP_TABLE_SIZE \<Longrightarrow> ae_q (arp_table s ! old_stable v) = None"
      using sv(4) t(2) [of "old_stable v"] by (auto simp: entry_ok_def stable_entry_def)
    then have "recycle v s = do { s \<leftarrow> etharp_free_entry (picked v) s; Some (Some (picked v), s) }"
      using sv(2) False by (auto simp: recycle_def picked_def split: if_splits)
    moreover have "returns (etharp_free_entry (picked v) s) (\<lambda>s'. net_ok I s' L R C \<and> rest s' = rest s \<and>
      keeps (refs s' R) C (nmem s) (nmem s') \<and> device s' = device s \<and> etharp_cached_entry s' = etharp_cached_entry s \<and>
      arp_table s' = (arp_table s)[picked v := (arp_table s ! picked v)\<lparr>ae_q := None, ae_state := ETHARP_STATE_EMPTY\<rparr>])"
      by (rule etharp_free_entry_ok [OF ok sv(2)])
    ultimately show ?thesis using False by (auto simp: same_rest_def elim!: returns_mono)
  qed
qed

lemma etharp_find_entry_ok:
  assumes ok: "net_ok I s L R C"
  shows "returns (etharp_find_entry (Some ip) flags (Some k) s) (\<lambda>(r, s'). net_ok I s' L R C \<and> same_rest s s' \<and>
    keeps (refs s' R) C (nmem s) (nmem s') \<and>
    (case r of
       Inl e \<Rightarrow> e = ERR_MEM \<and> s' = s \<and> (flags AND ETHARP_FLAG_FIND_ONLY \<noteq> 0 \<or> flags AND ETHARP_FLAG_TRY_HARD = 0)
     | Inr i \<Rightarrow> found ip k i (arp_table s') \<and>
         (ae_state (arp_table s' ! i) \<noteq> ETHARP_STATE_EMPTY \<and> s' = s \<or>
          ae_state (arp_table s' ! i) = ETHARP_STATE_EMPTY \<and> ae_ctime (arp_table s' ! i) = 0 \<and>
          ae_q (arp_table s' ! i) = None \<and> victim (arp_table s) i \<and> flags AND ETHARP_FLAG_FIND_ONLY = 0 \<and>
          (\<exists>e. arp_table s' = (arp_table s)[i := e]))))"
proof -
  note t = arp_table_okD [OF net_okD(2) [OF ok]]
  note scan = find_scan_start [OF t(1), of "Some ip" "Some k"]
  show ?thesis
  proof (cases "find_scan (Some ip) (Some k) 0 (arp_table s) find_start")
    case (Inl i)
    then have i: "i < ARP_TABLE_SIZE" "entry_key (arp_table s ! i) = Some (ip, Some k)" using scan by (auto simp: matches_key)
    have "entry_key (arp_table s ! j) \<noteq> Some (ip, Some k)" if "j < ARP_TABLE_SIZE" "j \<noteq> i" for j
      using t(3) [OF i(1) that(1)] that(2) i(2) by auto
    then have "found ip k i (arp_table s)" using i by (auto simp: found_def entry_key_def split: if_splits)
    moreover have "ae_state (arp_table s ! i) \<noteq> ETHARP_STATE_EMPTY" using i(2) by (auto simp: entry_key_def)
    ultimately show ?thesis using Inl ok by (simp add: etharp_find_entry_def find_start_def [symmetric] same_rest_def)
  next
    case (Inr v)
    then have v: "swept (arp_table s) ARP_TABLE_SIZE v"
      "\<forall>j < ARP_TABLE_SIZE. entry_key (arp_table s ! j) \<noteq> Some (ip, Some k)" using scan by (simp_all add: matches_key)
    note sv = swept_victim [OF v(1)]
    show ?thesis
    proof (cases "flags AND ETHARP_FLAG_FIND_ONLY \<noteq> 0 \<or> empty v = ARP_TABLE_SIZE \<and> flags AND ETHARP_FLAG_TRY_HARD = 0")
      case True
      then show ?thesis using Inr ok by (auto simp: etharp_find_entry_def find_start_def [symmetric] same_rest_def)
    next
      case False
      obtain s1 e where s1: "(if empty v < ARP_TABLE_SIZE then Some (Some (empty v), s) else recycle v s) = Some (Some (picked v), s1)"
        "net_ok I s1 L R C" "same_rest s s1" "keeps (refs s1 R) C (nmem s) (nmem s1)"
        "arp_table s1 = (arp_table s)[picked v := e]" "ae_state e = ETHARP_STATE_EMPTY" "ae_q e = None"
        using make_room [OF ok v(1)] by (auto simp: returns_def)
      let ?e = "e\<lparr>ae_ipaddr := ip, ae_ctime := 0, ae_netif := Some k\<rparr>"
      have at: "arp_table s1 ! picked v = e" "picked v < length (arp_table s1)" using s1(5) sv(2) t(1) by simp_all
      have "entry_ok e" using arp_table_okD(2) [OF net_okD(2) [OF s1(2)] sv(2)] at by simp
      then have ok2: "net_ok I (s1\<lparr>arp_table := (arp_table s1)[picked v := ?e]\<rparr>) L R C"
        by (intro net_ok_table [OF s1(2) sv(2)]) (use s1(6,7) at in \<open>auto simp: entry_ok_def entry_key_def\<close>)
      have run: "etharp_find_entry (Some ip) flags (Some k) s = Some (Inr (picked v), s1\<lparr>arp_table := (arp_table s1)[picked v := ?e]\<rparr>)"
        using False Inr s1(1,6) at sv(2)
        by (simp add: etharp_find_entry_def find_start_def [symmetric] upd_entry_def Let_def)
      have t': "(arp_table s1)[picked v := ?e] = (arp_table s)[picked v := ?e]" by (simp add: s1(5))
      have q: "queued ((arp_table s1)[picked v := ?e]) = queued (arp_table s1)"
        using queued_same [OF at(2), of ?e] s1(7) at(1) by (simp add: fun_eq_iff)
      have "found ip k (picked v) ((arp_table s)[picked v := ?e])"
        using v(2) sv(2) t(1) by (auto simp: found_def nth_list_update)
      then show ?thesis unfolding run using ok2 s1(3,4,6,7) q sv(1,2) False t(1)
        by (auto simp: t' same_rest_def rest_def)
    qed
  qed
qed

end
