(* ===== verification/Lwip_Etharp_Steps.thy ===== *)
theory Lwip_Etharp_Steps
  imports Lwip_Etharp_Find
begin

unbundle bit_operations_syntax

text \<open>
  Every operation of the ARP module returns from a state that satisfies the invariant and leaves one that does.
\<close>

declare split_paired_All [simp del] split_paired_Ex [simp del]

section \<open>Update\<close>

text \<open>An interface that packets can be sent on.\<close>

definition attached :: "'d net_st \<Rightarrow> netif \<Rightarrow> bool" where
  "attached s n \<longleftrightarrow> netif_ok n \<and> (\<exists>m. netif_deref (Some (netif_num n)) s = Some m)"

lemma attached_rest: "rest s' = rest s \<Longrightarrow> attached s' n = attached s n"
  using netif_deref_list [of s' s] by (simp add: attached_def rest_def)

definition not_unicast :: "u32 \<Rightarrow> netif \<Rightarrow> bool" where
  "not_unicast ip n \<longleftrightarrow> ip4_addr_isany ip \<or> ip4_addr_isbroadcast_u32 ip n \<or> ip4_addr_ismulticast ip"

lemma etharp_request_dst_ok:
  assumes "link_ok lo I" "net_ok I s L R C" "netif_ok n"
  shows "returns (etharp_request_dst lo n ip hw s) (\<lambda>(e, s'). net_ok I s' L R C \<and> same_state s s' \<and>
    keeps (refs s R) C (nmem s) (nmem s') \<and> (e = ERR_OK \<or> e = ERR_MEM))"
  unfolding etharp_request_dst_def by (rule etharp_raw_ok [OF assms])

lemmas etharp_request_ok = etharp_request_dst_ok [where hw = ethbroadcast, folded etharp_request_def]

lemma same_entry: "i < length t \<Longrightarrow> t[i := e] ! i = e"
  by simp

text \<open>The entry for an address, with the hardware address just learnt.\<close>

definition learnt :: "u32 \<Rightarrow> u8 \<Rightarrow> u8 list \<Rightarrow> etharp_entry \<Rightarrow> bool" where
  "learnt ip k hw e \<longleftrightarrow> ae_ipaddr e = ip \<and> ae_netif e = Some k \<and> ae_ethaddr e = hw \<and>
     ae_state e = ETHARP_STATE_STABLE \<and> ae_ctime e = 0 \<and> ae_q e = None"

lemma etharp_update_ok:
  assumes lo: "link_ok lo I" and ok: "net_ok I s L R C" and n: "attached s n" and hw: "length hw = ETH_HWADDR_LEN"
  shows "returns (etharp_update_arp_entry lo n ip hw flags s) (\<lambda>(e, s'). net_ok I s' L R C \<and> rest s' = rest s \<and>
    etharp_cached_entry s' = etharp_cached_entry s \<and>
    (if not_unicast ip n then e = ERR_ARG \<and> s' = s
     else e = ERR_MEM \<and> s' = s \<and> (flags AND ETHARP_FLAG_FIND_ONLY \<noteq> 0 \<or> flags AND ETHARP_FLAG_TRY_HARD = 0) \<or>
       e = ERR_OK \<and> (\<exists>i x. i < ARP_TABLE_SIZE \<and> arp_table s' = (arp_table s)[i := x] \<and> learnt ip (netif_num n) hw x \<and>
         (\<forall>j < ARP_TABLE_SIZE. j \<noteq> i \<longrightarrow> entry_key (arp_table s ! j) \<noteq> Some (ip, Some (netif_num n))))))"
proof (cases "not_unicast ip n")
  case True
  then show ?thesis using ok n
    by (simp add: etharp_update_arp_entry_def not_unicast_def attached_def netif_ok_def)
next
  case False
  obtain r s1 where f: "etharp_find_entry (Some ip) flags (Some (netif_num n)) s = Some (r, s1)" "net_ok I s1 L R C"
    "same_rest s s1" and res: "case r of
       Inl e \<Rightarrow> e = ERR_MEM \<and> s1 = s \<and> (flags AND ETHARP_FLAG_FIND_ONLY \<noteq> 0 \<or> flags AND ETHARP_FLAG_TRY_HARD = 0)
     | Inr i \<Rightarrow> found ip (netif_num n) i (arp_table s1) \<and>
         (ae_state (arp_table s1 ! i) \<noteq> ETHARP_STATE_EMPTY \<and> s1 = s \<or>
          ae_state (arp_table s1 ! i) = ETHARP_STATE_EMPTY \<and> ae_ctime (arp_table s1 ! i) = 0 \<and>
          ae_q (arp_table s1 ! i) = None \<and> victim (arp_table s) i \<and> flags AND ETHARP_FLAG_FIND_ONLY = 0 \<and>
          (\<exists>e. arp_table s1 = (arp_table s)[i := e]))"
    using etharp_find_entry_ok [OF ok, of ip flags "netif_num n"] by (auto simp: returns_def)
  have run: "etharp_update_arp_entry lo n ip hw flags s = (case r of Inl e \<Rightarrow> Some (e, s1) | Inr i \<Rightarrow>
      let s = upd_entry i (\<lambda>e. e\<lparr>ae_state := ETHARP_STATE_STABLE\<rparr>) s1;
          s = upd_entry i (\<lambda>e. e\<lparr>ae_netif := Some (netif_num n)\<rparr>) s;
          s = upd_entry i (\<lambda>e. e\<lparr>ae_ethaddr := take ETH_HWADDR_LEN hw\<rparr>) s;
          s = upd_entry i (\<lambda>e. e\<lparr>ae_ctime := 0\<rparr>) s
      in (case ae_q (arp_table s ! i) of
            None \<Rightarrow> Some (ERR_OK, s)
          | Some p \<Rightarrow>
              let s = upd_entry i (\<lambda>e. e\<lparr>ae_q := None\<rparr>) s in
              do { (_, s) \<leftarrow> ethernet_output lo n p (netif_hwaddr n) hw ETHTYPE_IP s;
                   s \<leftarrow> free_pbuf p s;
                   Some (ERR_OK, s) }))"
    using False f(1) n unfolding not_unicast_def
    by (simp add: etharp_update_arp_entry_def attached_def netif_ok_def del: Let_def cong: sum.case_cong)
  show ?thesis
  proof (cases r)
    case (Inl e)
    then show ?thesis using run res ok False by auto
  next
    case (Inr i)
    then have i: "i < ARP_TABLE_SIZE" and fd: "found ip (netif_num n) i (arp_table s1)"
      and t1: "\<exists>e. arp_table s1 = (arp_table s)[i := e]" using res
      by (auto simp: found_def) (metis list_update_id)+
    have len: "i < length (arp_table s1)" using i arp_table_okD(1) [OF net_okD(2) [OF f(2)]] by simp
    let ?f = "\<lambda>q e. e\<lparr>ae_state := ETHARP_STATE_STABLE, ae_netif := Some (netif_num n), ae_ethaddr := hw, ae_ctime := 0, ae_q := q\<rparr>"
    let ?e = "?f None (arp_table s1 ! i)"
    let ?t = "(arp_table s1)[i := ?e]"
    have e: "entry_ok ?e" using hw by (simp add: entry_ok_def arp_consts)
    have key: "entry_key ?e = Some (ip, Some (netif_num n))" using fd by (simp add: entry_key_def found_def)
    have uniq: "\<forall>j < ARP_TABLE_SIZE. j \<noteq> i \<longrightarrow> entry_key (arp_table s1 ! j) \<noteq> entry_key ?e"
      using fd unfolding key by (simp add: found_def)
    have dr: "\<exists>m. netif_deref (ae_netif ?e) s1 = Some m"
      using n f(3) attached_rest [of s1 s n] by (simp add: attached_def same_rest_def)
    have tt: "?t = (arp_table s)[i := ?e]" using t1 by auto
    have uniq': "\<forall>j < ARP_TABLE_SIZE. j \<noteq> i \<longrightarrow> entry_key (arp_table s ! j) \<noteq> Some (ip, Some (netif_num n))"
      using uniq t1 unfolding key by (auto simp: nth_list_update)
    have lrn: "learnt ip (netif_num n) hw ?e" using fd by (simp add: learnt_def found_def)
    have post: "\<exists>i x. i < ARP_TABLE_SIZE \<and> ?t = (arp_table s)[i := x] \<and> learnt ip (netif_num n) hw x \<and>
       (\<forall>j < ARP_TABLE_SIZE. j \<noteq> i \<longrightarrow> entry_key (arp_table s ! j) \<noteq> Some (ip, Some (netif_num n)))"
      using i tt lrn uniq' by (intro exI [of _ i] exI [of _ ?e]) simp
    have take: "take ETH_HWADDR_LEN hw = hw" using hw by simp
    show ?thesis
    proof (cases "ae_q (arp_table s1 ! i)")
      case None
      have "net_ok I (s1\<lparr>arp_table := ?t\<rparr>) L R C"
        by (rule net_ok_table [OF f(2) i e]) (use uniq dr None in auto)
      moreover have eq: "?f None (arp_table s1 ! i) = (arp_table s1 ! i)\<lparr>ae_state := ETHARP_STATE_STABLE,
          ae_netif := Some (netif_num n), ae_ethaddr := hw, ae_ctime := 0\<rparr>" using None by (cases "arp_table s1 ! i") simp
      ultimately have "etharp_update_arp_entry lo n ip hw flags s = Some (ERR_OK, s1\<lparr>arp_table := ?t\<rparr>)"
        "net_ok I (s1\<lparr>arp_table := ?t\<rparr>) L R C"
        using Inr None len by (simp_all add: run upd_entry_def take eq)
      then show ?thesis using post False f(3) by (simp add: same_rest_def rest_def)
    next
      case (Some p)
      have "0 < queued (arp_table s1) p" by (rule queued_pos [OF len Some])
      then have qp: "queued (arp_table s1) p = 1" "lens (nmem s1) (C p) \<le> PACKET_MAX"
        using net_okD(5,6) [OF f(2), of p] by simp_all
      have ok2: "net_ok I (s1\<lparr>arp_table := ?t\<rparr>) L (R(p := R p + 1)) C"
        by (rule net_ok_table [OF f(2) i e]) (use uniq dr Some in auto)
      have q0: "queued ?t p = 0" using queued_upd [OF len, of ?e p] Some qp by simp
      have no: "netif_ok n" using n by (simp add: attached_def)
      have "returns (ethernet_output lo n p (netif_hwaddr n) hw ETHTYPE_IP (s1\<lparr>arp_table := ?t\<rparr>)) (\<lambda>(e, s').
          net_ok I s' L (R(p := R p + 1)) C \<and> same_state (s1\<lparr>arp_table := ?t\<rparr>) s' \<and>
          keeps ((refs (s1\<lparr>arp_table := ?t\<rparr>) (R(p := R p + 1)))(p := 0)) C (nmem (s1\<lparr>arp_table := ?t\<rparr>)) (nmem s'))"
        by (rule ethernet_output_ok [OF lo ok2 _ _ _ no]) (use q0 qp in simp_all)
      then obtain e2 s2 where s2: "ethernet_output lo n p (netif_hwaddr n) hw ETHTYPE_IP (s1\<lparr>arp_table := ?t\<rparr>) = Some (e2, s2)"
        "net_ok I s2 L (R(p := R p + 1)) C" "same_state (s1\<lparr>arp_table := ?t\<rparr>) s2" by (auto simp: returns_def)
      obtain s3 where s3: "free_pbuf p s2 = Some s3" "net_ok I s3 L R C" "same_state s2 s3"
        using free_pbuf_ok [OF s2(2), of p] by (auto simp: returns_def same_state_def)
      have "etharp_update_arp_entry lo n ip hw flags s = Some (ERR_OK, s3)"
        using Inr Some len s2(1) s3(1) by (simp add: run upd_entry_def take)
      moreover have "rest s3 = rest s" "etharp_cached_entry s3 = etharp_cached_entry s" "arp_table s3 = ?t"
        using s3(3) s2(3) f(3) by (simp_all add: same_state_def same_rest_def rest_def)
      ultimately show ?thesis using s3(2) post False by simp
    qed
  qed
qed

section \<open>The timer\<close>

text \<open>What one second does to an entry.\<close>

definition aged :: "etharp_entry \<Rightarrow> etharp_entry" where
  "aged e =
     (if ae_state e = ETHARP_STATE_EMPTY then e
      else if ae_ctime e + 1 \<ge> ARP_MAXAGE \<or> ae_state e = ETHARP_STATE_PENDING \<and> ae_ctime e + 1 \<ge> ARP_MAXPENDING
      then e\<lparr>ae_ctime := ae_ctime e + 1, ae_q := None, ae_state := ETHARP_STATE_EMPTY\<rparr>
      else e\<lparr>ae_ctime := ae_ctime e + 1, ae_state :=
        (if ae_state e = ETHARP_STATE_STABLE_REREQUESTING_1 then ETHARP_STATE_STABLE_REREQUESTING_2
         else if ae_state e = ETHARP_STATE_STABLE_REREQUESTING_2 then ETHARP_STATE_STABLE else ae_state e)\<rparr>)"

lemma entry_ok_aged: "entry_ok e \<Longrightarrow> entry_ok (aged e)"
  by (auto simp: entry_ok_def aged_def not_le)

lemma entry_key_aged: "entry_key (aged e) \<noteq> None \<Longrightarrow> entry_key (aged e) = entry_key e"
  by (auto simp: entry_key_def aged_def split: if_splits)

lemma ctime_commute:
  "e\<lparr>ae_ctime := c, ae_q := q, ae_state := st\<rparr> = e\<lparr>ae_q := q, ae_state := st, ae_ctime := c\<rparr>"
  "e\<lparr>ae_ctime := c, ae_state := st\<rparr> = e\<lparr>ae_state := st, ae_ctime := c\<rparr>"
  by simp_all

lemma free_entry_ctime:
  assumes "i < length (arp_table s)"
  shows "etharp_free_entry i (upd_entry i (\<lambda>e. e\<lparr>ae_ctime := c\<rparr>) s) =
    map_option (upd_entry i (\<lambda>e. e\<lparr>ae_ctime := c\<rparr>)) (etharp_free_entry i s)"
proof (cases "ae_q (arp_table s ! i)")
  case None
  then show ?thesis using assms by (simp add: etharp_free_entry_def upd_entry_def ctime_commute)
next
  case (Some q)
  show ?thesis
  proof (cases "free_pbuf q s")
    case None
    then show ?thesis using assms Some by (simp add: etharp_free_entry_def upd_entry_def free_pbuf_table)
  next
    case s1: (Some s1)
    then have "arp_table s1 = arp_table s" by (auto simp: free_pbuf_def in_mem_def bind_Some_iff)
    then show ?thesis using assms Some s1 by (simp add: etharp_free_entry_def upd_entry_def free_pbuf_table ctime_commute)
  qed
qed

lemma keeps_refs: "keeps (\<lambda>a. R a + q a) C m m' \<Longrightarrow> keeps R C m m'"
  by (erule keeps_mono) (auto simp: all_blocks_def)

lemma etharp_tmr_entry_ok:
  assumes lo: "link_ok lo I" and ok: "net_ok I s L R C" and i: "i < ARP_TABLE_SIZE"
  shows "returns (etharp_tmr_entry lo i s) (\<lambda>s'. net_ok I s' L R C \<and> rest s' = rest s \<and>
    etharp_cached_entry s' = etharp_cached_entry s \<and> arp_table s' = (arp_table s)[i := aged (arp_table s ! i)] \<and> keeps R C (nmem s) (nmem s'))"
proof -
  let ?e = "arp_table s ! i"
  note t = arp_table_okD [OF net_okD(2) [OF ok]]
  have len: "i < length (arp_table s)" using i t(1) by simp
  have okt: "net_ok I (s\<lparr>arp_table := (arp_table s)[i := aged ?e]\<rparr>) L R C" if "ae_q (aged ?e) = ae_q ?e"
  proof (rule net_ok_table [OF ok i entry_ok_aged [OF t(2) [OF i]]])
    show "\<forall>j < ARP_TABLE_SIZE. j \<noteq> i \<longrightarrow> entry_key (arp_table s ! j) \<noteq> entry_key (aged ?e)" if k: "entry_key (aged ?e) \<noteq> None"
      using t(3) [OF i] entry_key_aged [OF k] k by (metis (no_types, lifting))
    show "\<exists>n. netif_deref (ae_netif (aged ?e)) s = Some n" if "ae_state (aged ?e) \<noteq> ETHARP_STATE_EMPTY"
      using that net_okD(8) [OF ok i] by (auto simp: aged_def split: if_splits)
  qed (use that in simp)
  consider (empty) "ae_state ?e = ETHARP_STATE_EMPTY"
    | (old) "ae_state ?e \<noteq> ETHARP_STATE_EMPTY" "ae_ctime ?e + 1 \<ge> ARP_MAXAGE \<or> ae_state ?e = ETHARP_STATE_PENDING \<and> ae_ctime ?e + 1 \<ge> ARP_MAXPENDING"
    | (keep) "ae_state ?e \<noteq> ETHARP_STATE_EMPTY" "\<not> (ae_ctime ?e + 1 \<ge> ARP_MAXAGE \<or> ae_state ?e = ETHARP_STATE_PENDING \<and> ae_ctime ?e + 1 \<ge> ARP_MAXPENDING)"
    by blast
  then show ?thesis
  proof cases
    case empty
    then show ?thesis using ok by (simp add: etharp_tmr_entry_def aged_def)
  next
    case old
    let ?c = "upd_entry i (\<lambda>e. e\<lparr>ae_ctime := ae_ctime ?e + 1\<rparr>)"
    have c: "upd_entry i (\<lambda>e. e\<lparr>ae_ctime := ae_ctime e + 1\<rparr>) s = ?c s" by (simp add: upd_entry_def)
    have run: "etharp_tmr_entry lo i s = etharp_free_entry i (?c s)"
      using old len unfolding etharp_tmr_entry_def c by (simp add: upd_entry_def Let_def)
    obtain s1 where s1: "etharp_free_entry i s = Some s1" "net_ok I s1 L R C" "rest s1 = rest s"
      "etharp_cached_entry s1 = etharp_cached_entry s"
      "arp_table s1 = (arp_table s)[i := ?e\<lparr>ae_q := None, ae_state := ETHARP_STATE_EMPTY\<rparr>]" "keeps R C (nmem s) (nmem s1)"
      using etharp_free_entry_ok [OF ok i] by (auto simp: returns_def dest: keeps_refs)
    have at: "arp_table s1 ! i = ?e\<lparr>ae_q := None, ae_state := ETHARP_STATE_EMPTY\<rparr>" using len s1(5) by simp
    have ag: "(arp_table s1 ! i)\<lparr>ae_ctime := ae_ctime ?e + 1\<rparr> = aged ?e" unfolding at using old by (simp add: aged_def)
    have "net_ok I (s1\<lparr>arp_table := (arp_table s1)[i := aged ?e]\<rparr>) L R C"
    proof (rule net_ok_table [OF s1(2) i entry_ok_aged [OF t(2) [OF i]]])
      show "ae_q (aged ?e) = ae_q (arp_table s1 ! i) \<and> R = R \<or>
        ae_q (aged ?e) = None \<and> (\<exists>a. ae_q (arp_table s1 ! i) = Some a \<and> R = R(a := R a + 1))"
        using old at by (simp add: aged_def)
    qed (use old in \<open>auto simp: aged_def entry_key_def\<close>)
    then show ?thesis using s1 ag unfolding run free_entry_ctime [OF len] by (simp add: upd_entry_def rest_def)
  next
    case keep
    have q: "ae_q (aged ?e) = ae_q ?e" using keep by (auto simp: aged_def)
    note ok1 = okt [OF q]
    let ?s = "s\<lparr>arp_table := (arp_table s)[i := aged ?e]\<rparr>"
    show ?thesis
    proof (cases "ae_state ?e = ETHARP_STATE_PENDING")
      case True
      then obtain n where n: "netif_deref (ae_netif ?e) s = Some n" using net_okD(8) [OF ok i] by auto
      then have "n \<in> set (netif_list s)" by (auto simp: netif_deref_def find_Some_iff split: option.splits)
      then have nok: "netif_ok n" by (rule net_okD(7) [OF ok])
      have upd: "upd_entry i (\<lambda>e. e\<lparr>ae_ctime := ae_ctime e + 1\<rparr>) s = ?s"
        using True keep by (cases ?e) (simp add: upd_entry_def aged_def)
      have "etharp_tmr_entry lo i s = do { (_, s) \<leftarrow> etharp_request lo n (ae_ipaddr ?e) ?s; Some s }"
        using True keep len n unfolding etharp_tmr_entry_def upd by (simp add: Let_def aged_def)
      then show ?thesis using etharp_request_ok [OF lo ok1 nok, of "ae_ipaddr ?e"]
        by (auto simp: returns_def same_state_def rest_def dest: keeps_refs)
    next
      case False
      then have "etharp_tmr_entry lo i s = Some ?s"
        using keep len by (auto simp: etharp_tmr_entry_def aged_def upd_entry_def Let_def)
      then show ?thesis using ok1 by (simp add: rest_def)
    qed
  qed
qed

lemma etharp_tmr_steps:
  assumes lo: "link_ok lo I"
  shows "net_ok I s L R C \<Longrightarrow> k \<le> ARP_TABLE_SIZE \<Longrightarrow>
    returns (each_entry (etharp_tmr_entry lo) [k..<ARP_TABLE_SIZE] s) (\<lambda>s'. net_ok I s' L R C \<and> rest s' = rest s \<and>
      etharp_cached_entry s' = etharp_cached_entry s \<and> arp_table s' = take k (arp_table s) @ map aged (drop k (arp_table s)) \<and>
      keeps R C (nmem s) (nmem s'))"
proof (induction "ARP_TABLE_SIZE - k" arbitrary: k s)
  case 0
  then show ?case using arp_table_okD(1) [OF net_okD(2) [OF 0(2)]] by simp
next
  case (Suc m)
  then have k: "k < ARP_TABLE_SIZE" by simp
  have len: "k < length (arp_table s)" using k arp_table_okD(1) [OF net_okD(2) [OF Suc.prems(1)]] by simp
  obtain s1 where s1: "etharp_tmr_entry lo k s = Some s1" "net_ok I s1 L R C" "rest s1 = rest s"
    "etharp_cached_entry s1 = etharp_cached_entry s" "arp_table s1 = (arp_table s)[k := aged (arp_table s ! k)]" "keeps R C (nmem s) (nmem s1)"
    using etharp_tmr_entry_ok [OF lo Suc.prems(1) k] by (auto simp: returns_def)
  have "m = ARP_TABLE_SIZE - Suc k" using Suc.hyps(2) by simp
  from Suc.hyps(1) [OF this s1(2)] k obtain s2 where s2: "each_entry (etharp_tmr_entry lo) [Suc k..<ARP_TABLE_SIZE] s1 = Some s2"
    "net_ok I s2 L R C" "rest s2 = rest s1" "etharp_cached_entry s2 = etharp_cached_entry s1"
    "arp_table s2 = take (Suc k) (arp_table s1) @ map aged (drop (Suc k) (arp_table s1))" "keeps R C (nmem s1) (nmem s2)"
    by (auto simp: returns_def)
  have "take (Suc k) (arp_table s1) @ map aged (drop (Suc k) (arp_table s1)) = take k (arp_table s) @ map aged (drop k (arp_table s))"
    using len by (simp add: s1(5) take_Suc_conv_app_nth Cons_nth_drop_Suc [symmetric])
  then show ?case using s1 s2 k keeps_trans [OF s1(6) s2(6)] by (simp add: upt_conv_Cons)
qed

section \<open>Queueing\<close>

text \<open>A packet is handed over to an entry.\<close>

lemma net_ok_put:
  assumes ok: "net_ok I s L (R(a := R a + 1)) C" and i: "i < ARP_TABLE_SIZE"
    and e: "ae_state (arp_table s ! i) = ETHARP_STATE_PENDING" "ae_q (arp_table s ! i) = None"
    and a: "queued (arp_table s) a = 0" "lens (nmem s) (C a) \<le> PACKET_MAX"
  shows "net_ok I (s\<lparr>arp_table := (arp_table s)[i := (arp_table s ! i)\<lparr>ae_q := Some a\<rparr>]\<rparr>) L R C"
proof -
  let ?e = "(arp_table s ! i)\<lparr>ae_q := Some a\<rparr>"
  let ?t = "(arp_table s)[i := ?e]"
  note d = net_okD [OF ok]
  have len: "i < length (arp_table s)" using i arp_table_okD(1) [OF d(2)] by simp
  have q: "queued ?t b = queued (arp_table s) b + (if b = a then 1 else 0)" for b
    using queued_upd [OF len, of ?e b] e(2) by simp
  have "(\<lambda>b. R b + queued ?t b) = refs s (R(a := R a + 1))" by (auto simp: q)
  moreover have "arp_table_ok ?t"
  proof (rule arp_table_ok_upd [OF d(2) i])
    show "entry_ok ?e" using arp_table_okD(2) [OF d(2) i] e(1) by (simp add: entry_ok_def)
    have "entry_key ?e = entry_key (arp_table s ! i)" by (simp add: entry_key_def)
    then show "\<forall>j < ARP_TABLE_SIZE. j \<noteq> i \<longrightarrow> entry_key (arp_table s ! j) \<noteq> entry_key ?e" if "entry_key ?e \<noteq> None"
      using arp_table_okD(3) [OF d(2) i] that by (metis (no_types, lifting))
  qed
  moreover have "queued ?t b \<le> 1" for b using d(5) [of b] a(1) by (simp add: q)
  moreover have "0 < queued ?t b \<Longrightarrow> lens (nmem s) (C b) \<le> PACKET_MAX" for b
    using d(6) [of b] a(2) by (cases "b = a") (simp_all add: q)
  moreover have "\<forall>x \<in> set ?t. ae_state x \<noteq> ETHARP_STATE_EMPTY \<longrightarrow> (\<exists>n. netif_deref (ae_netif x) s = Some n)"
    using ok d(8) [OF i] set_update_subset_insert [of "arp_table s" i ?e] by (auto simp: net_ok_def)
  ultimately show ?thesis using d(1,3,4,7) by (simp add: net_ok_def)
qed

text \<open>A packet that the ARP module accepts: its data stay as they are while it waits, no pbuf is empty, and nothing holds
  it but its sender.\<close>

definition sendable :: "'d net_st \<Rightarrow> (ptr \<Rightarrow> nat) \<Rightarrow> (ptr \<Rightarrow> ptr list) \<Rightarrow> ptr \<Rightarrow> bool" where
  "sendable s R C q \<longleftrightarrow> 0 < R q \<and> R q < 255 \<and> queued (arp_table s) q = 0 \<and> lens (nmem s) (C q) \<le> PACKET_MAX \<and>
     (\<forall>b \<in> set (C q). \<not> PBUF_NEEDS_COPY (pbufs (nmem s) b) \<and> 0 < plen (nmem s) b)"

lemma sendable_keeps:
  assumes "sendable s R C q" "keeps (refs s R) C (nmem s) (nmem s')" "queued (arp_table s') q = 0"
  shows "sendable s' R C q"
proof -
  have l: "like (pbufs (nmem s) b) (pbufs (nmem s') b)" if "b \<in> set (C q)" for b
    using assms(1,2) that in_blocks [of "refs s R" q b C] by (auto simp: keeps_def sendable_def)
  show ?thesis using assms(1,3) l chain_like(2) [of "C q" "nmem s" "nmem s'"]
    by (auto simp: sendable_def like_def PBUF_NEEDS_COPY_def)
qed

lemma copy_needed_walk_ok:
  "chain st p as \<Longrightarrow> \<forall>b \<in> set as. \<not> PBUF_NEEDS_COPY (pbufs st b) \<and> 0 < plen st b \<Longrightarrow> copy_needed_walk p st = Some False"
proof (induction as arbitrary: p)
  case Nil
  then show ?case by (subst copy_needed_walk.simps) (auto simp: chain_def split: option.splits)
next
  case (Cons a as)
  then have p: "p = Some a" and c: "chain st (pb_next (pbufs st a)) as"
    and tot: "unat (pb_tot_len (pbufs st a)) = plen st a + lens st as" by (cases p; auto simp: chain_Some)+
  have "pb_len (pbufs st a) \<noteq> pb_tot_len (pbufs st a) \<or> pb_next (pbufs st a) = None"
  proof (cases as)
    case Nil
    then show ?thesis using c by (cases "pb_next (pbufs st a)") (auto simp: chain_Some)
  next
    case (Cons b bs)
    then have "unat (pb_tot_len (pbufs st a)) \<noteq> plen st a" using Cons.prems(2) tot by simp
    then show ?thesis by metis
  qed
  then show ?case using Cons.IH [OF c] Cons.prems(2) p by (subst copy_needed_walk.simps) simp
qed

lemma etharp_queue_ok:
  assumes ok: "net_ok I s L R C" and i: "i < ARP_TABLE_SIZE" and e: "ae_state (arp_table s ! i) = ETHARP_STATE_PENDING"
    and q: "sendable s R C q"
  shows "returns (etharp_queue i q s) (\<lambda>(r, s'). r = ERR_OK \<and> net_ok I s' L R C \<and> rest s' = rest s \<and>
    etharp_cached_entry s' = etharp_cached_entry s \<and>
    arp_table s' = (arp_table s)[i := (arp_table s ! i)\<lparr>ae_q := Some q\<rparr>])"
proof -
  have len: "i < length (arp_table s)" using i arp_table_okD(1) [OF net_okD(2) [OF ok]] by simp
  have pos: "0 < refs s R q" "refs s R q < 255" using q by (auto simp: sendable_def)
  have "chain (nmem s) (Some q) (C q)" using heldD(1) [OF net_okD(4) [OF ok] pos(1)] by (simp add: packet_def)
  then have walk: "copy_needed_walk (Some q) (nmem s) = Some False"
    using q by (intro copy_needed_walk_ok) (auto simp: sendable_def)
  obtain m where m: "pbuf_ref (Some q) (nmem s) = Some m" "held m L ((refs s R)(q := refs s R q + 1)) C"
    "keeps (refs s R) C (nmem s) m"
    using held_ref [OF net_okD(4) [OF ok] pos] by blast
  let ?R = "R(q := R q + 1)"
  let ?s = "s\<lparr>nmem := m\<rparr>"
  have eq: "(refs s R)(q := refs s R q + 1) = refs s ?R" by auto
  have ok1: "net_ok I ?s L ?R C"
  proof (rule net_ok_mem [OF ok])
    show "held (nmem ?s) L (refs s ?R) C" using m(2) unfolding eq by simp
    show "lens (nmem ?s) (C a) = lens (nmem s) (C a)" if "0 < queued (arp_table s) a" for a
      using keeps_lens [OF m(3), of a] that by simp
  qed (use net_okD(1) [OF ok] in simp_all)
  have sq: "queued (arp_table s) q = 0" "lens m (C q) \<le> PACKET_MAX"
    using q keeps_lens [OF m(3) pos(1)] by (simp_all add: sendable_def)
  let ?en = "(arp_table s ! i)\<lparr>ae_q := Some q\<rparr>"
  show ?thesis
  proof (cases "ae_q (arp_table s ! i)")
    case None
    have "net_ok I (?s\<lparr>arp_table := (arp_table ?s)[i := (arp_table ?s ! i)\<lparr>ae_q := Some q\<rparr>]\<rparr>) L R C"
      by (rule net_ok_put [OF ok1 i]) (use e None sq in simp_all)
    then show ?thesis using walk m(1) None
      by (simp add: etharp_queue_def on_mem_def upd_entry_def rest_def)
  next
    case (Some old)
    let ?e0 = "(arp_table s ! i)\<lparr>ae_q := None\<rparr>"
    let ?t = "(arp_table s)[i := ?e0]"
    have ne: "old \<noteq> q" using queued_pos [OF len Some] sq(1) by auto
    have "entry_ok ?e0" using arp_table_okD(2) [OF net_okD(2) [OF ok] i] by (simp add: entry_ok_def)
    moreover have "entry_key ?e0 = entry_key (arp_table s ! i)" by (simp add: entry_key_def)
    then have "\<forall>j < ARP_TABLE_SIZE. j \<noteq> i \<longrightarrow> entry_key (arp_table s ! j) \<noteq> entry_key ?e0" if "entry_key ?e0 \<noteq> None"
      using arp_table_okD(3) [OF net_okD(2) [OF ok] i] that by (metis (no_types, lifting))
    ultimately have ok2: "net_ok I (?s\<lparr>arp_table := (arp_table ?s)[i := ?e0]\<rparr>) L (?R(old := ?R old + 1)) C"
      by (intro net_ok_table [OF ok1 i]) (use Some net_okD(8) [OF ok i] in auto)
    have R: "(?R(old := ?R old + 1))(old := (?R(old := ?R old + 1)) old - 1) = ?R" by auto
    from free_pbuf_ok [OF ok2, of old, unfolded R] obtain s0 where s0: "free_pbuf old (?s\<lparr>arp_table := ?t\<rparr>) = Some s0" "net_ok I s0 L ?R C"
      "rest s0 = rest s" "arp_table s0 = ?t" "etharp_cached_entry s0 = etharp_cached_entry s"
      "keeps (\<lambda>a. ?R a + queued ?t a) C m (nmem s0)"
      by (auto simp: returns_def rest_def)
    then obtain s1 where s1: "free_pbuf old ?s = Some s1" "s0 = s1\<lparr>arp_table := ?t\<rparr>"
      by (auto simp: free_pbuf_table)
    have t1: "arp_table s1 = arp_table s" using s1(1) by (auto simp: free_pbuf_def in_mem_def bind_Some_iff)
    have q2: "queued ?t q = 0" using queued_upd [OF len, of ?e0 q] sq(1) by simp
    have l2: "lens (nmem s0) (C q) \<le> PACKET_MAX" using keeps_lens [OF s0(6), of q] sq(2) by simp
    have "net_ok I (s0\<lparr>arp_table := (arp_table s0)[i := (arp_table s0 ! i)\<lparr>ae_q := Some q\<rparr>]\<rparr>) L R C"
      by (rule net_ok_put [OF s0(2) i]) (use e len q2 l2 in \<open>simp_all add: s0(4)\<close>)
    moreover have "etharp_queue i q s = Some (ERR_OK, s1\<lparr>arp_table := (arp_table s)[i := ?en]\<rparr>)"
      using walk m(1) Some s1(1) t1 by (simp add: etharp_queue_def on_mem_def upd_entry_def)
    moreover have "s1\<lparr>arp_table := (arp_table s)[i := ?en]\<rparr> =
        s0\<lparr>arp_table := (arp_table s0)[i := (arp_table s0 ! i)\<lparr>ae_q := Some q\<rparr>]\<rparr>"
      using len by (simp add: s1(2))
    moreover have "(arp_table s0)[i := (arp_table s0 ! i)\<lparr>ae_q := Some q\<rparr>] = (arp_table s)[i := ?en]"
      using len by (simp add: s0(4))
    ultimately show ?thesis using s0(3,5) by (simp add: rest_def)
  qed
qed

section \<open>Output\<close>

lemma restate_ok:
  assumes ok: "net_ok I s L R C" and i: "i < ARP_TABLE_SIZE" and st: "ae_state (arp_table s ! i) \<ge> ETHARP_STATE_STABLE"
    and x: "x \<ge> ETHARP_STATE_STABLE"
  shows "net_ok I (upd_entry i (\<lambda>e. e\<lparr>ae_state := x\<rparr>) s) L R C"
  unfolding upd_entry_def
proof (rule net_ok_table [OF ok i])
  let ?e = "(arp_table s ! i)\<lparr>ae_state := x\<rparr>"
  note t = arp_table_okD [OF net_okD(2) [OF ok]]
  show "entry_ok ?e" using t(2) [OF i] st x by (auto simp: entry_ok_def)
  have "entry_key ?e = entry_key (arp_table s ! i)" using st x by (simp add: entry_key_def)
  then show "\<forall>j < ARP_TABLE_SIZE. j \<noteq> i \<longrightarrow> entry_key (arp_table s ! j) \<noteq> entry_key ?e" if "entry_key ?e \<noteq> None"
    using t(3) [OF i] that by (metis (no_types, lifting))
  show "\<exists>n. netif_deref (ae_netif ?e) s = Some n" using net_okD(8) [OF ok i] st by simp
qed simp

lemma etharp_to_index_ok:
  assumes lo: "link_ok lo I" and ok: "net_ok I s L R C" and i: "i < ARP_TABLE_SIZE"
    and st: "ae_state (arp_table s ! i) \<ge> ETHARP_STATE_STABLE" and q: "sendable s R C q" and n: "netif_ok n"
  shows "returns (etharp_output_to_arp_index lo n q i s) (\<lambda>(e, s'). net_ok I s' L R C \<and> rest s' = rest s)"
proof -
  let ?e = "arp_table s ! i"
  define s1' where "s1' =
    (if ae_state ?e = ETHARP_STATE_STABLE then
       if ae_ctime ?e \<ge> ARP_AGE_REREQUEST_USED_BROADCAST then
         do { (r, s) \<leftarrow> etharp_request lo n (ae_ipaddr ?e) s;
              Some (if r = ERR_OK then upd_entry i (\<lambda>e. e\<lparr>ae_state := ETHARP_STATE_STABLE_REREQUESTING_1\<rparr>) s else s) }
       else if ae_ctime ?e \<ge> ARP_AGE_REREQUEST_USED_UNICAST then
         do { (r, s) \<leftarrow> etharp_request_dst lo n (ae_ipaddr ?e) (ae_ethaddr ?e) s;
              Some (if r = ERR_OK then upd_entry i (\<lambda>e. e\<lparr>ae_state := ETHARP_STATE_STABLE_REREQUESTING_1\<rparr>) s else s) }
       else Some s
     else Some s)"
  have len: "i < length (arp_table s)" using i arp_table_okD(1) [OF net_okD(2) [OF ok]] by simp
  have req: "returns (do { (r, s) \<leftarrow> etharp_request_dst lo n ip hw s;
      Some (if r = ERR_OK then upd_entry i (\<lambda>e. e\<lparr>ae_state := ETHARP_STATE_STABLE_REREQUESTING_1\<rparr>) s else s) })
    (\<lambda>s'. net_ok I s' L R C \<and> rest s' = rest s \<and> sendable s' R C q)" for ip hw
  proof -
    obtain r s2 where s2: "etharp_request_dst lo n ip hw s = Some (r, s2)" "net_ok I s2 L R C" "same_state s s2"
      "keeps (refs s R) C (nmem s) (nmem s2)"
      using etharp_request_dst_ok [OF lo ok n, of ip hw] by (auto simp: returns_def)
    have t2: "arp_table s2 = arp_table s" using s2(3) by (simp add: same_state_def)
    have q2: "sendable s2 R C q" by (rule sendable_keeps [OF q s2(4)]) (use q t2 in \<open>simp add: sendable_def\<close>)
    let ?s3 = "upd_entry i (\<lambda>e. e\<lparr>ae_state := ETHARP_STATE_STABLE_REREQUESTING_1\<rparr>) s2"
    have "net_ok I ?s3 L R C" by (rule restate_ok [OF s2(2) i]) (use st t2 in simp_all)
    moreover have "queued (arp_table ?s3) q = queued (arp_table s2) q"
      unfolding upd_entry_def using queued_same [of i "arp_table s2"] len t2 by simp
    then have "sendable ?s3 R C q" using q2 by (simp add: sendable_def upd_entry_def)
    moreover have "rest ?s3 = rest s" using s2(3) by (simp add: upd_entry_def rest_def same_state_def)
    ultimately show ?thesis using s2(1,2,3) q2 by (simp add: same_state_def)
  qed
  have "returns s1' (\<lambda>s'. net_ok I s' L R C \<and> rest s' = rest s \<and> sendable s' R C q)"
    using req [of "ae_ipaddr ?e" ethbroadcast] req [of "ae_ipaddr ?e" "ae_ethaddr ?e"] ok q
    by (simp add: s1'_def etharp_request_def del: returns_simps(3))
  then obtain s1 where s1: "s1' = Some s1" "net_ok I s1 L R C" "rest s1 = rest s" "sendable s1 R C q"
    by (auto simp: returns_def)
  have "etharp_output_to_arp_index lo n q i s =
      ethernet_output lo n q (netif_hwaddr n) (ae_ethaddr (arp_table s1 ! i)) ETHTYPE_IP s1"
    using st s1(1) by (simp add: etharp_output_to_arp_index_def s1'_def)
  moreover have "returns (ethernet_output lo n q (netif_hwaddr n) (ae_ethaddr (arp_table s1 ! i)) ETHTYPE_IP s1)
    (\<lambda>(e, s'). net_ok I s' L R C \<and> same_state s1 s' \<and> keeps ((refs s1 R)(q := 0)) C (nmem s1) (nmem s'))"
    by (rule ethernet_output_ok [OF lo s1(2) _ _ _ n]) (use s1(4) in \<open>simp_all add: sendable_def\<close>)
  ultimately show ?thesis using s1(3) by (auto simp: same_state_def elim!: returns_mono)
qed

lemma net_ok_cached: "net_ok I s L R C \<Longrightarrow> i < ARP_TABLE_SIZE \<Longrightarrow> net_ok I (s\<lparr>etharp_cached_entry := i\<rparr>) L R C"
  by (simp add: net_ok_def)

lemma sendable_queued: "sendable s R C q \<Longrightarrow> keeps (refs s' R) C (nmem s) (nmem s') \<Longrightarrow> queued (arp_table s') q = 0 \<Longrightarrow> sendable s' R C q"
proof -
  assume q: "sendable s R C q" and k: "keeps (refs s' R) C (nmem s) (nmem s')" "queued (arp_table s') q = 0"
  have "like (pbufs (nmem s) b) (pbufs (nmem s') b)" if "b \<in> set (C q)" for b
    using q k(1) that in_blocks [of "refs s' R" q b C] by (auto simp: keeps_def sendable_def)
  then show ?thesis using q k(2) chain_like(2) [of "C q" "nmem s" "nmem s'"]
    by (auto simp: sendable_def like_def PBUF_NEEDS_COPY_def)
qed

lemma etharp_find_hard:
  assumes ok: "net_ok I s L R C"
  obtains i s1 where "etharp_find_entry (Some ip) ETHARP_FLAG_TRY_HARD (Some k) s = Some (Inr i, s1)" "net_ok I s1 L R C"
    "same_rest s s1" "keeps (refs s1 R) C (nmem s) (nmem s1)" "found ip k i (arp_table s1)"
    "s1 = s \<or> ae_ctime (arp_table s1 ! i) = 0 \<and> ae_q (arp_table s1 ! i) = None \<and> (\<exists>e. arp_table s1 = (arp_table s)[i := e])"
    "ae_state (arp_table s1 ! i) = ETHARP_STATE_EMPTY \<Longrightarrow> ae_ctime (arp_table s1 ! i) = 0 \<and> ae_q (arp_table s1 ! i) = None"
proof (rule returns_pair [OF etharp_find_entry_ok [OF ok, of ip ETHARP_FLAG_TRY_HARD k]], elim conjE)
  fix r s1
  assume f: "etharp_find_entry (Some ip) ETHARP_FLAG_TRY_HARD (Some k) s = Some (r, s1)" "net_ok I s1 L R C"
    "same_rest s s1" "keeps (refs s1 R) C (nmem s) (nmem s1)"
  assume res: "case r of
       Inl e \<Rightarrow> e = ERR_MEM \<and> s1 = s \<and> (ETHARP_FLAG_TRY_HARD AND ETHARP_FLAG_FIND_ONLY \<noteq> 0 \<or> ETHARP_FLAG_TRY_HARD AND ETHARP_FLAG_TRY_HARD = 0)
     | Inr i \<Rightarrow> found ip k i (arp_table s1) \<and>
         (ae_state (arp_table s1 ! i) \<noteq> ETHARP_STATE_EMPTY \<and> s1 = s \<or>
          ae_state (arp_table s1 ! i) = ETHARP_STATE_EMPTY \<and> ae_ctime (arp_table s1 ! i) = 0 \<and>
          ae_q (arp_table s1 ! i) = None \<and> victim (arp_table s) i \<and> ETHARP_FLAG_TRY_HARD AND ETHARP_FLAG_FIND_ONLY = 0 \<and>
          (\<exists>e. arp_table s1 = (arp_table s)[i := e]))"
  have fl: "\<not> (ETHARP_FLAG_TRY_HARD AND ETHARP_FLAG_FIND_ONLY \<noteq> 0 \<or> ETHARP_FLAG_TRY_HARD AND ETHARP_FLAG_TRY_HARD = 0)"
    by (simp add: arp_consts)
  obtain i where i: "r = Inr i"
  proof (cases r)
    case (Inl e)
    then show ?thesis using fl res by (simp only: sum.case simp_thms)
  qed (rule that)
  note c = res [unfolded i sum.case]
  show thesis
  proof (rule that [of i s1])
    show "etharp_find_entry (Some ip) ETHARP_FLAG_TRY_HARD (Some k) s = Some (Inr i, s1)" using f(1) by (simp only: i)
    show "s1 = s \<or> ae_ctime (arp_table s1 ! i) = 0 \<and> ae_q (arp_table s1 ! i) = None \<and> (\<exists>e. arp_table s1 = (arp_table s)[i := e])"
      using conjunct2 [OF c] by (elim disjE conjE) simp_all
    show "ae_ctime (arp_table s1 ! i) = 0 \<and> ae_q (arp_table s1 ! i) = None" if "ae_state (arp_table s1 ! i) = ETHARP_STATE_EMPTY"
      using conjunct2 [OF c] that by (elim disjE conjE) simp_all
  qed (rule f conjunct1 [OF c])+
qed

lemma etharp_query_ok:
  assumes lo: "link_ok lo I" and ok: "net_ok I s L R C" and n: "attached s n" and q: "sendable s R C q"
  shows "returns (etharp_query lo n ip (Some q) s) (\<lambda>(e, s'). net_ok I s' L R C \<and> rest s' = rest s)"
proof (cases "not_unicast ip n")
  case True
  then show ?thesis using ok by (simp add: etharp_query_def not_unicast_def)
next
  case False
  have no: "netif_ok n" using n by (simp add: attached_def)
  obtain i s1 where f: "etharp_find_entry (Some ip) ETHARP_FLAG_TRY_HARD (Some (netif_num n)) s = Some (Inr i, s1)" "net_ok I s1 L R C"
    "same_rest s s1" "keeps (refs s1 R) C (nmem s) (nmem s1)" and fd: "found ip (netif_num n) i (arp_table s1)"
    and res: "s1 = s \<or> ae_ctime (arp_table s1 ! i) = 0 \<and> ae_q (arp_table s1 ! i) = None \<and> (\<exists>e. arp_table s1 = (arp_table s)[i := e])"
      "ae_state (arp_table s1 ! i) = ETHARP_STATE_EMPTY \<Longrightarrow> ae_ctime (arp_table s1 ! i) = 0 \<and> ae_q (arp_table s1 ! i) = None"
    by (rule etharp_find_hard [OF ok]) (rule that, assumption+)
  have ii: "i < ARP_TABLE_SIZE" using fd by (simp add: found_def)
  have len: "i < length (arp_table s1)" using ii arp_table_okD(1) [OF net_okD(2) [OF f(2)]] by simp
  have len0: "length (arp_table s) = length (arp_table s1)"
    using arp_table_okD(1) [OF net_okD(2) [OF f(2)]] arp_table_okD(1) [OF net_okD(2) [OF ok]] by simp
  have q1: "sendable s1 R C q"
  proof (rule sendable_queued [OF q f(4)])
    have q0: "queued (arp_table s) q = 0" using q by (simp add: sendable_def)
    show "queued (arp_table s1) q = 0"
    proof (rule disjE [OF res(1)])
      assume "ae_ctime (arp_table s1 ! i) = 0 \<and> ae_q (arp_table s1 ! i) = None \<and> (\<exists>e. arp_table s1 = (arp_table s)[i := e])"
      then obtain e where e: "arp_table s1 = (arp_table s)[i := e]" "ae_q (arp_table s1 ! i) = None" by (elim conjE exE) (rule that)
      have "i < length (arp_table s)" using len len0 by simp
      then show ?thesis using queued_upd [of i "arp_table s" e q] q0 e(2) by (simp add: e(1))
    qed (simp add: q0)
  qed
  consider (stable) "ae_state (arp_table s1 ! i) \<ge> ETHARP_STATE_STABLE" | (pending) "ae_state (arp_table s1 ! i) = ETHARP_STATE_PENDING"
    | (empty) "ae_state (arp_table s1 ! i) = ETHARP_STATE_EMPTY" by auto
  then show ?thesis
  proof cases
    case stable
    have "etharp_query lo n ip (Some q) s = ethernet_output lo n q (netif_hwaddr n) (ae_ethaddr (arp_table s1 ! i)) ETHTYPE_IP
        (s1\<lparr>etharp_cached_entry := i\<rparr>)"
      using False f(1) stable by (simp add: etharp_query_def not_unicast_def Let_def)
    moreover have "returns (ethernet_output lo n q (netif_hwaddr n) (ae_ethaddr (arp_table s1 ! i)) ETHTYPE_IP
        (s1\<lparr>etharp_cached_entry := i\<rparr>)) (\<lambda>(e, s'). net_ok I s' L R C \<and> same_state (s1\<lparr>etharp_cached_entry := i\<rparr>) s' \<and>
        keeps ((refs (s1\<lparr>etharp_cached_entry := i\<rparr>) R)(q := 0)) C (nmem (s1\<lparr>etharp_cached_entry := i\<rparr>)) (nmem s'))"
      by (rule ethernet_output_ok [OF lo net_ok_cached [OF f(2) ii] _ _ _ no]) (use q1 in \<open>simp_all add: sendable_def\<close>)
    ultimately show ?thesis using f(3) by (auto simp: same_state_def same_rest_def rest_def elim!: returns_mono)
  next
    case pending
    have "etharp_query lo n ip (Some q) s = etharp_queue i q s1"
      using False f(1) pending by (simp add: etharp_query_def not_unicast_def Let_def)
    then show ?thesis using etharp_queue_ok [OF f(2) ii pending q1] f(3)
      by (auto simp: same_rest_def elim!: returns_mono)
  next
    case empty
    let ?e = "(arp_table s1 ! i)\<lparr>ae_state := ETHARP_STATE_PENDING, ae_netif := Some (netif_num n)\<rparr>"
    let ?s = "s1\<lparr>arp_table := (arp_table s1)[i := ?e]\<rparr>"
    have e: "ae_ctime (arp_table s1 ! i) = 0" "ae_q (arp_table s1 ! i) = None" using res(2) empty by auto
    have ok2: "net_ok I ?s L R C"
    proof (rule net_ok_table [OF f(2) ii])
      show "entry_ok ?e" using arp_table_okD(2) [OF net_okD(2) [OF f(2)] ii] e by (simp add: entry_ok_def arp_consts)
      have "entry_key ?e = Some (ip, Some (netif_num n))" using fd by (simp add: entry_key_def found_def)
      then show "\<forall>j < ARP_TABLE_SIZE. j \<noteq> i \<longrightarrow> entry_key (arp_table s1 ! j) \<noteq> entry_key ?e" using fd by (simp add: found_def)
      show "\<exists>n. netif_deref (ae_netif ?e) s1 = Some n"
        using n f(3) attached_rest [of s1 s n] by (simp add: attached_def same_rest_def)
    qed simp
    obtain e3 s3 where s3: "etharp_request lo n ip ?s = Some (e3, s3)" "net_ok I s3 L R C" "same_state ?s s3"
      "keeps (refs ?s R) C (nmem ?s) (nmem s3)"
      using etharp_request_ok [OF lo ok2 no, of ip] by (auto simp: returns_def)
    have t3: "arp_table s3 = (arp_table s1)[i := ?e]" using s3(3) by (simp add: same_state_def)
    have qq: "queued (arp_table s3) q = 0" using queued_same [OF len, of ?e q] q1 by (simp add: t3 sendable_def)
    have "sendable ?s R C q" using q1 queued_same [OF len, of ?e q] by (simp add: sendable_def)
    then have q3: "sendable s3 R C q" using s3(4) qq by (rule sendable_keeps)
    have st: "ae_state (arp_table s3 ! i) = ETHARP_STATE_PENDING" using len by (simp add: t3)
    have upd: "upd_entry i (\<lambda>e. e\<lparr>ae_netif := Some (netif_num n)\<rparr>) (upd_entry i (\<lambda>e. e\<lparr>ae_state := ETHARP_STATE_PENDING\<rparr>) s1) = ?s"
      using len by (simp add: upd_entry_def)
    have "etharp_query lo n ip (Some q) s = etharp_queue i q s3"
      using False f(1) empty s3(1) st len
      by (simp add: etharp_query_def not_unicast_def Let_def upd t3)
    then show ?thesis using etharp_queue_ok [OF s3(2) ii st q3] f(3) s3(3)
      by (auto simp: same_rest_def same_state_def rest_def elim!: returns_mono)
  qed
qed

lemma find_stable_ok:
  "find_stable n dst i es = Some k \<Longrightarrow> i \<le> k \<and> k < i + length es \<and> ae_state (es ! (k - i)) \<ge> ETHARP_STATE_STABLE \<and>
    entry_key (es ! (k - i)) = Some (dst, Some (netif_num n))"
proof (induction es arbitrary: i)
  case (Cons e es)
  show ?case
  proof (cases "ae_state e \<ge> ETHARP_STATE_STABLE \<and> ae_netif e = Some (netif_num n) \<and> dst = ae_ipaddr e")
    case True
    then show ?thesis using Cons.prems by (auto simp: entry_key_def)
  next
    case False
    then have "find_stable n dst (Suc i) es = Some k" using Cons.prems by (simp del: etharp_state_order split: if_splits)
    from Cons.IH [OF this] show ?thesis by (auto simp: nth_Cons')
  qed
qed simp

lemma etharp_output_ok:
  assumes lo: "link_ok lo I" and ok: "net_ok I s L R C" and n: "attached s n" and q: "sendable s R C q"
  shows "returns (etharp_output lo n q ip s) (\<lambda>(e, s'). net_ok I s' L R C \<and> rest s' = rest s)"
proof -
  have no: "netif_ok n" using n by (simp add: attached_def)
  have direct: "returns (ethernet_output lo n q src dst ty s) (\<lambda>(e, s'). net_ok I s' L R C \<and> rest s' = rest s)" for src dst ty
  proof -
    have "returns (ethernet_output lo n q src dst ty s) (\<lambda>(e, s'). net_ok I s' L R C \<and> same_state s s' \<and>
      keeps ((refs s R)(q := 0)) C (nmem s) (nmem s'))"
      by (rule ethernet_output_ok [OF lo ok _ _ _ no]) (use q in \<open>simp_all add: sendable_def\<close>)
    then show ?thesis by (auto simp: same_state_def elim!: returns_mono)
  qed
  show ?thesis
  proof (cases "ip4_addr_isbroadcast_u32 ip n \<or> ip4_addr_ismulticast ip")
    case True
    then show ?thesis using direct by (auto simp: etharp_output_def)
  next
    case False
    show ?thesis
    proof (cases "etharp_next_hop n ip")
      case None
      then show ?thesis using False ok by (simp add: etharp_output_def)
    next
      case (Some dst)
      let ?c = "etharp_cached_entry s"
      have c: "?c < ARP_TABLE_SIZE" using net_okD(3) [OF ok] .
      let ?hit = "ae_state (arp_table s ! ?c) \<ge> ETHARP_STATE_STABLE \<and> ae_netif (arp_table s ! ?c) = Some (netif_num n) \<and>
        dst = ae_ipaddr (arp_table s ! ?c)"
      have run: "etharp_output lo n q ip s = (if ?hit then etharp_output_to_arp_index lo n q ?c s
         else (case find_stable n dst 0 (arp_table s) of
                 Some i \<Rightarrow> etharp_output_to_arp_index lo n q i (s\<lparr>etharp_cached_entry := i\<rparr>)
               | None \<Rightarrow> etharp_query lo n dst (Some q) s))"
        using False Some c by (simp add: etharp_output_def Let_def del: etharp_state_order)
      show ?thesis
      proof (cases ?hit)
        case True
        then show ?thesis unfolding run using etharp_to_index_ok [OF lo ok c _ q no] by simp
      next
        case miss: False
        show ?thesis
        proof (cases "find_stable n dst 0 (arp_table s)")
          case None
          then show ?thesis unfolding run if_not_P [OF miss] using etharp_query_ok [OF lo ok n q] by simp
        next
          case (Some i)
          then have i: "i < ARP_TABLE_SIZE" "ae_state (arp_table s ! i) \<ge> ETHARP_STATE_STABLE"
            using find_stable_ok [OF Some] arp_table_okD(1) [OF net_okD(2) [OF ok]] by auto
          let ?s = "s\<lparr>etharp_cached_entry := i\<rparr>"
          have "returns (etharp_output_to_arp_index lo n q i ?s) (\<lambda>(e, s'). net_ok I s' L R C \<and> rest s' = rest ?s)"
            by (rule etharp_to_index_ok [OF lo net_ok_cached [OF ok i(1)] i(1) _ _ no]) (use i q in \<open>simp_all add: sendable_def\<close>)
          then show ?thesis unfolding run if_not_P [OF miss] using Some by (simp add: rest_def)
        qed
      qed
    qed
  qed
qed

end
