(* ===== verification/Lwip_Etharp_Input.thy ===== *)
theory Lwip_Etharp_Input
  imports Lwip_Etharp_Steps
begin

unbundle bit_operations_syntax

text \<open>
  Reception of ARP packets, lookup of addresses and removal of an interface.
\<close>

declare split_paired_All [simp del] split_paired_Ex [simp del]

section \<open>Lookup\<close>

definition known :: "u32 \<Rightarrow> u8 \<Rightarrow> etharp_entry list \<Rightarrow> bool" where
  "known ip k t \<longleftrightarrow> (\<exists>j < ARP_TABLE_SIZE. entry_key (t ! j) = Some (ip, Some k))"

lemma etharp_find_known:
  assumes t: "arp_table_ok (arp_table s)" and i: "i < ARP_TABLE_SIZE" "entry_key (arp_table s ! i) = Some (ip, Some k)"
  shows "etharp_find_entry (Some ip) flags (Some k) s = Some (Inr i, s)"
proof -
  have scan: "case find_scan (Some ip) (Some k) 0 (arp_table s) find_start of
      Inl j \<Rightarrow> j < ARP_TABLE_SIZE \<and> entry_key (arp_table s ! j) = Some (ip, Some k)
    | Inr v' \<Rightarrow> \<forall>j < ARP_TABLE_SIZE. entry_key (arp_table s ! j) \<noteq> Some (ip, Some k)"
    using find_scan_start [OF arp_table_okD(1) [OF t], of "Some ip" "Some k"] by (auto simp: matches_key split: sum.splits)
  show ?thesis
  proof (cases "find_scan (Some ip) (Some k) 0 (arp_table s) find_start")
    case (Inl j)
    then have j: "j < ARP_TABLE_SIZE" "entry_key (arp_table s ! j) = Some (ip, Some k)" using scan by simp_all
    have "j = i" using arp_table_okD(3) [OF t j(1) i(1)] j(2) i(2) by auto
    then show ?thesis using Inl by (simp add: etharp_find_entry_def find_start_def [symmetric])
  next
    case (Inr v)
    then show ?thesis using scan i by simp
  qed
qed

lemma etharp_find_unknown:
  assumes t: "length (arp_table s) = ARP_TABLE_SIZE" and u: "\<not> known ip k (arp_table s)" and f: "flags AND ETHARP_FLAG_FIND_ONLY \<noteq> 0"
  shows "etharp_find_entry (Some ip) flags (Some k) s = Some (Inl ERR_MEM, s)"
proof -
  have scan: "case find_scan (Some ip) (Some k) 0 (arp_table s) find_start of
      Inl j \<Rightarrow> j < ARP_TABLE_SIZE \<and> entry_key (arp_table s ! j) = Some (ip, Some k)
    | Inr v' \<Rightarrow> True"
    using find_scan_start [OF t, of "Some ip" "Some k"] by (auto simp: matches_key split: sum.splits)
  show ?thesis
  proof (cases "find_scan (Some ip) (Some k) 0 (arp_table s) find_start")
    case (Inl j)
    then show ?thesis using scan u by (auto simp: known_def)
  next
    case (Inr v)
    then show ?thesis using f by (simp add: etharp_find_entry_def find_start_def [symmetric])
  qed
qed

lemma etharp_find_addr_known:
  assumes "arp_table_ok (arp_table s)" "i < ARP_TABLE_SIZE" "entry_key (arp_table s ! i) = Some (ip, Some (netif_num n))"
    "ae_state (arp_table s ! i) \<ge> ETHARP_STATE_STABLE"
  shows "etharp_find_addr n ip s = Some (Some (i, ae_ethaddr (arp_table s ! i), ip), s)"
proof -
  have "ae_ipaddr (arp_table s ! i) = ip" using assms(3) by (auto simp: entry_key_def split: if_splits)
  then show ?thesis using etharp_find_known [OF assms(1-3), of ETHARP_FLAG_FIND_ONLY] assms(4)
    by (simp add: etharp_find_addr_def)
qed

lemma etharp_find_addr_unknown:
  assumes "length (arp_table s) = ARP_TABLE_SIZE" "\<not> known ip (netif_num n) (arp_table s)"
  shows "etharp_find_addr n ip s = Some (None, s)"
  using etharp_find_unknown [OF assms, of ETHARP_FLAG_FIND_ONLY] by (simp add: etharp_find_addr_def arp_consts)

text \<open>What is learnt from a packet: an address that is not known is taken up only when the flag asks for it.\<close>

lemma etharp_update_unknown:
  assumes "arp_table_ok (arp_table s)" "netif_ok n" "\<not> not_unicast ip n" "\<not> known ip (netif_num n) (arp_table s)"
  shows "etharp_update_arp_entry lo n ip hw ETHARP_FLAG_FIND_ONLY s = Some (ERR_MEM, s)"
  using assms etharp_find_unknown [OF arp_table_okD(1) [OF assms(1)] assms(4), of ETHARP_FLAG_FIND_ONLY]
  by (simp add: etharp_update_arp_entry_def netif_ok_def not_unicast_def arp_consts)

section \<open>Reception\<close>

text \<open>The fields that the packet is checked for.\<close>

definition arp_valid :: "'d net_st \<Rightarrow> ptr \<Rightarrow> bool" where
  "arp_valid s ah \<longleftrightarrow> get16 (arp_hwtype ah) s = lwip_htons LWIP_IANA_HWTYPE_ETHERNET \<and>
     get8 (arp_hwlen ah) s = of_nat ETH_HWADDR_LEN \<and> get8 (arp_protolen ah) s = 4 \<and>
     get16 (arp_proto ah) s = lwip_htons ETHTYPE_IP"

definition arp_for_us :: "'d net_st \<Rightarrow> ptr \<Rightarrow> netif \<Rightarrow> bool" where
  "arp_for_us s ah n \<longleftrightarrow> \<not> ip4_addr_isany (netif_ip4_addr n) \<and> get32 (arp_dipaddr ah) s = netif_ip4_addr n"

text \<open>The table after the sender's addresses have been seen.\<close>

definition taken_up :: "u32 \<Rightarrow> netif \<Rightarrow> u8 list \<Rightarrow> bool \<Rightarrow> etharp_entry list \<Rightarrow> etharp_entry list \<Rightarrow> bool" where
  "taken_up ip n hw create t t' \<longleftrightarrow>
     (if not_unicast ip n \<or> \<not> create \<and> \<not> known ip (netif_num n) t then t' = t
      else \<exists>i x. i < ARP_TABLE_SIZE \<and> t' = t[i := x] \<and> learnt ip (netif_num n) hw x \<and>
        (\<forall>j < ARP_TABLE_SIZE. j \<noteq> i \<longrightarrow> entry_key (t ! j) \<noteq> Some (ip, Some (netif_num n))))"

lemma etharp_update_taken_up:
  assumes lo: "link_ok lo I" and ok: "net_ok I s L R C" and n: "attached s n" and hw: "length hw = ETH_HWADDR_LEN"
  shows "returns (etharp_update_arp_entry lo n ip hw (if create then ETHARP_FLAG_TRY_HARD else ETHARP_FLAG_FIND_ONLY) s)
    (\<lambda>(e, s'). net_ok I s' L R C \<and> rest s' = rest s \<and> taken_up ip n hw create (arp_table s) (arp_table s'))"
proof -
  note t = net_okD(2) [OF ok]
  have no: "netif_ok n" using n by (simp add: attached_def)
  consider (skip) "not_unicast ip n" | (new) "\<not> not_unicast ip n" "\<not> create" "\<not> known ip (netif_num n) (arp_table s)"
    | (hard) "\<not> not_unicast ip n" "create" | (old) "\<not> not_unicast ip n" "\<not> create" "known ip (netif_num n) (arp_table s)" by blast
  then show ?thesis
  proof cases
    case skip
    then show ?thesis using etharp_update_ok [OF lo ok n hw, of ip "if create then ETHARP_FLAG_TRY_HARD else ETHARP_FLAG_FIND_ONLY"]
      by (auto simp: taken_up_def elim!: returns_mono)
  next
    case new
    then show ?thesis using etharp_update_unknown [OF t no new(1,3), of lo hw] ok by (simp add: taken_up_def)
  next
    case hard
    have "\<not> (ETHARP_FLAG_TRY_HARD AND ETHARP_FLAG_FIND_ONLY \<noteq> 0 \<or> ETHARP_FLAG_TRY_HARD AND ETHARP_FLAG_TRY_HARD = 0)"
      by (simp add: arp_consts)
    then show ?thesis using etharp_update_ok [OF lo ok n hw, of ip ETHARP_FLAG_TRY_HARD] hard
      by (auto simp: taken_up_def simp del: de_Morgan_disj elim!: returns_mono)
  next
    case old
    then obtain i where i: "i < ARP_TABLE_SIZE" "entry_key (arp_table s ! i) = Some (ip, Some (netif_num n))"
      by (auto simp: known_def)
    have eq: "etharp_update_arp_entry lo n ip hw ETHARP_FLAG_FIND_ONLY s = etharp_update_arp_entry lo n ip hw ETHARP_FLAG_TRY_HARD s"
      using etharp_find_known [OF t i] by (simp add: etharp_update_arp_entry_def)
    have "\<not> (ETHARP_FLAG_TRY_HARD AND ETHARP_FLAG_FIND_ONLY \<noteq> 0 \<or> ETHARP_FLAG_TRY_HARD AND ETHARP_FLAG_TRY_HARD = 0)"
      by (simp add: arp_consts)
    then show ?thesis using etharp_update_ok [OF lo ok n hw, of ip ETHARP_FLAG_TRY_HARD] old eq
      by (auto simp: taken_up_def simp del: de_Morgan_disj elim!: returns_mono)
  qed
qed

lemma length_get_bytes [simp]: "length (get_bytes a n s) = n"
  by (simp add: get_bytes_def)

lemma etharp_input_ok:
  assumes lo: "link_ok lo I" and ok: "net_ok I s L R C" and n: "attached s n" and p: "0 < R p"
    and ah: "pb_payload (the_pbuf s p) = Some ah"
  shows "returns (etharp_input lo p n s) (\<lambda>s'. net_ok I s' L (R(p := R p - 1)) C \<and> rest s' = rest s \<and>
    (if arp_valid s ah
     then taken_up (get32 (arp_sipaddr ah) s) n (get_bytes (arp_shwaddr ah) ETH_HWADDR_LEN s) (arp_for_us s ah n)
            (arp_table s) (arp_table s')
     else arp_table s' = arp_table s \<and> device s' = device s))"
proof (cases "arp_valid s ah")
  case False
  then have "etharp_input lo p n s = free_pbuf p s" using ah by (auto simp: etharp_input_def arp_valid_def)
  then show ?thesis using free_pbuf_ok [of I s L R C p, OF ok p] False by (auto elim!: returns_mono)
next
  case True
  have no: "netif_ok n" using n by (simp add: attached_def)
  let ?sip = "get32 (arp_sipaddr ah) s" and ?hw = "get_bytes (arp_shwaddr ah) ETH_HWADDR_LEN s"
  obtain e s1 where s1: "etharp_update_arp_entry lo n ?sip ?hw
      (if arp_for_us s ah n then ETHARP_FLAG_TRY_HARD else ETHARP_FLAG_FIND_ONLY) s = Some (e, s1)"
    "net_ok I s1 L R C" "rest s1 = rest s" "taken_up ?sip n ?hw (arp_for_us s ah n) (arp_table s) (arp_table s1)"
    using etharp_update_taken_up [OF lo ok n, of ?hw ?sip "arp_for_us s ah n"] by (auto simp: returns_def)
  let ?from_us = "\<not> ip4_addr_isany (netif_ip4_addr n) \<and> ?sip = netif_ip4_addr n"
  define s2' where "s2' = (if get16 (arp_opcode ah) s1 = lwip_htons ARP_REQUEST then
                         if arp_for_us s ah n \<and> \<not> ?from_us then
                           let shwaddr = get_bytes (arp_shwaddr ah) ETH_HWADDR_LEN s1 in
                           do { (_, s) \<leftarrow> etharp_raw lo n (netif_hwaddr n) shwaddr (netif_hwaddr n)
                                  (netif_ip4_addr n) shwaddr ?sip ARP_REPLY s1;
                                Some s }
                         else Some s1
                       else Some s1)"
  have "returns s2' (\<lambda>s'. net_ok I s' L R C \<and> rest s' = rest s \<and> arp_table s' = arp_table s1)"
    using etharp_raw_ok [OF lo s1(2) no, of "netif_hwaddr n" "get_bytes (arp_shwaddr ah) ETH_HWADDR_LEN s1" "netif_hwaddr n"
      "netif_ip4_addr n" "get_bytes (arp_shwaddr ah) ETH_HWADDR_LEN s1" ?sip ARP_REPLY] s1(2,3)
    by (auto simp: s2'_def Let_def same_state_def returns_def)
  then obtain s2 where s2: "s2' = Some s2" "net_ok I s2 L R C" "rest s2 = rest s" "arp_table s2 = arp_table s1"
    by (auto simp: returns_def)
  have "etharp_input lo p n s = do { s \<leftarrow> s2'; free_pbuf p s }"
    using True ah s1(1) unfolding s2'_def by (simp add: etharp_input_def arp_valid_def arp_for_us_def Let_def)
  then have "etharp_input lo p n s = free_pbuf p s2" using s2(1) by simp
  moreover have "returns (free_pbuf p s2) (\<lambda>s'. net_ok I s' L (R(p := R p - 1)) C \<and> rest s' = rest s2 \<and> arp_table s' = arp_table s2)"
    by (rule returns_mono [OF free_pbuf_ok [of I s2 L R C p, OF s2(2) p]]) simp
  ultimately show ?thesis using True s2(3,4) s1(4) by (auto elim!: returns_mono)
qed

section \<open>Removal of an interface\<close>

definition cleaned :: "netif \<Rightarrow> etharp_entry \<Rightarrow> etharp_entry" where
  "cleaned n e = (if ae_state e \<noteq> ETHARP_STATE_EMPTY \<and> ae_netif e = Some (netif_num n)
                  then e\<lparr>ae_q := None, ae_state := ETHARP_STATE_EMPTY\<rparr> else e)"

lemma etharp_cleanup_steps:
  "net_ok I s L R C \<Longrightarrow> k \<le> ARP_TABLE_SIZE \<Longrightarrow>
    returns (each_entry (\<lambda>i s. if ae_state (arp_table s ! i) \<noteq> ETHARP_STATE_EMPTY \<and>
                            ae_netif (arp_table s ! i) = Some (netif_num n)
                         then etharp_free_entry i s else Some s) [k..<ARP_TABLE_SIZE] s) (\<lambda>s'. net_ok I s' L R C \<and>
      rest s' = rest s \<and> device s' = device s \<and> arp_table s' = take k (arp_table s) @ map (cleaned n) (drop k (arp_table s)))"
proof (induction "ARP_TABLE_SIZE - k" arbitrary: k s)
  case 0
  then show ?case using arp_table_okD(1) [OF net_okD(2) [OF 0(2)]] by simp
next
  case (Suc m)
  let ?f = "\<lambda>i s. if ae_state (arp_table s ! i) \<noteq> ETHARP_STATE_EMPTY \<and> ae_netif (arp_table s ! i) = Some (netif_num n)
                         then etharp_free_entry i s else Some s"
  have k: "k < ARP_TABLE_SIZE" using Suc.hyps(2) by simp
  have len: "k < length (arp_table s)" using k arp_table_okD(1) [OF net_okD(2) [OF Suc.prems(1)]] by simp
  have "returns (?f k s) (\<lambda>s1. net_ok I s1 L R C \<and> rest s1 = rest s \<and> device s1 = device s \<and>
      arp_table s1 = (arp_table s)[k := cleaned n (arp_table s ! k)])"
    using etharp_free_entry_ok [OF Suc.prems(1) k] Suc.prems(1) by (auto simp: cleaned_def elim!: returns_mono)
  then obtain s1 where s1: "?f k s = Some s1" "net_ok I s1 L R C" "rest s1 = rest s" "device s1 = device s"
    "arp_table s1 = (arp_table s)[k := cleaned n (arp_table s ! k)]" unfolding returns_def by blast
  have "m = ARP_TABLE_SIZE - Suc k" using Suc.hyps(2) by simp
  from Suc.hyps(1) [OF this s1(2)] k obtain s2 where s2: "each_entry ?f [Suc k..<ARP_TABLE_SIZE] s1 = Some s2"
    "net_ok I s2 L R C" "rest s2 = rest s1" "device s2 = device s1"
    "arp_table s2 = take (Suc k) (arp_table s1) @ map (cleaned n) (drop (Suc k) (arp_table s1))"
    unfolding returns_def by auto
  have eq: "take (Suc k) (arp_table s1) @ map (cleaned n) (drop (Suc k) (arp_table s1)) = take k (arp_table s) @ map (cleaned n) (drop k (arp_table s))"
    using len by (simp add: s1(5) take_Suc_conv_app_nth Cons_nth_drop_Suc [symmetric])
  have "each_entry ?f [k..<ARP_TABLE_SIZE] s = Some s2" using s1(1) s2(1) k by (simp add: upt_conv_Cons del: if_split)
  then show ?case using s1(3,4) s2 eq by simp
qed

lemma etharp_cleanup_netif_ok:
  assumes "net_ok I s L R C"
  shows "returns (etharp_cleanup_netif n s) (\<lambda>s'. net_ok I s' L R C \<and> rest s' = rest s \<and> device s' = device s \<and>
    arp_table s' = map (cleaned n) (arp_table s))"
  using etharp_cleanup_steps [OF assms, of 0 n] by (simp add: etharp_cleanup_netif_def)

end
