(* ===== verification/Lwip_Etharp_Props.thy ===== *)
theory Lwip_Etharp_Props
  imports Lwip_Etharp_Input
begin

unbundle bit_operations_syntax

text \<open>
  The properties of the ARP module: the sequences of operations that the stack and its driver can run, what they keep, and
  what the table promises to its users.
\<close>

declare split_paired_All [simp del] split_paired_Ex [simp del]

section \<open>A state to start from\<close>

text \<open>The table as the linker leaves it, the interface of \<^verbatim>\<open>core/src/main.c\<close>, and a link that counts frames.\<close>

definition no_entry :: etharp_entry where
  "no_entry = \<lparr>ae_q = None, ae_ipaddr = 0, ae_netif = None, ae_ethaddr = ethzero, ae_ctime = 0, ae_state = ETHARP_STATE_EMPTY\<rparr>"

definition netif0 :: netif where
  "netif0 = \<lparr>netif_ip4_addr = 0x3F19FEA9, netif_ip4_netmask = 0x00FFFFFF, netif_ip4_gw = 0, netif_mtu = 1500,
     netif_hwaddr = [0x02, 0, 0, 0, 0, 0x01], netif_hwaddr_len = 6, netif_flags = 0x1f, netif_name = [101, 110], netif_num = 0\<rparr>"

definition count_link :: "nat link_fn" where
  "count_link n p m d = Some (ERR_OK, Suc d)"

definition st0 :: "nat net_st" where
  "st0 = \<lparr>nmem = net0, arp_table = replicate ARP_TABLE_SIZE no_entry, etharp_cached_entry = 0, ip_id = 0,
     ip_data = \<lparr>current_netif = None, current_input_netif = None, current_ip4_header = None, current_ip_header_tot_len = 0,
       current_iphdr_src = 0, current_iphdr_dest = 0\<rparr>,
     reassdatagrams = [], ip_reass_pbufcount = 0, reass_next = \<lambda>_. None, netif_list = [netif0], netif_default = Some 0, next_netif_num = 1, device = 0\<rparr>"

lemma netif0_ok: "netif_ok netif0"
  by (simp add: netif_ok_def netif0_def ETH_HWADDR_LEN_def)

lemma attached0: "attached st0 netif0"
  using netif0_ok by (simp add: attached_def st0_def netif_deref_def)

lemma count_link_ok: "link_ok count_link (\<lambda>_. True)"
  by (simp add: link_ok_def count_link_def)

lemma held_none: "mem_ok st L \<Longrightarrow> held st L (\<lambda>_. 0) C"
  by (simp add: held_def all_blocks_def)

lemma net_ok0: "net_ok (\<lambda>_. True) st0 {} (\<lambda>_. 0) (\<lambda>_. [])"
proof -
  have q: "queued (arp_table st0) a = 0" for a
    by (rule queued_0) (auto simp: st0_def no_entry_def)
  have "entry_key (replicate ARP_TABLE_SIZE no_entry ! i) = None" if "i < ARP_TABLE_SIZE" for i
    using that by (simp add: entry_key_def no_entry_def)
  then have "arp_table_ok (arp_table st0)"
    by (auto simp: arp_table_ok_def st0_def entry_ok_def no_entry_def ethzero_def ETH_HWADDR_LEN_def)
  then show ?thesis using q held_none [OF mem_ok_net0, of "\<lambda>_. []"] netif0_ok
    by (auto simp: net_ok_def st0_def no_entry_def ARP_TABLE_SIZE_def)
qed

section \<open>Runs\<close>

text \<open>
  A run starts from some state and performs, in any order: rounds of the timer, reception of ARP packets, output of
  packets, requests, removal of an interface, and allocation, filling and release of packets by their owners.  \<open>R\<close> counts
  the references that callers hold.
\<close>

type_synonym 'd sys = "'d net_st \<times> (ptr \<Rightarrow> nat) \<times> (ptr \<Rightarrow> ptr list)"

inductive arp_step :: "'d link_fn \<Rightarrow> netif \<Rightarrow> 'd sys \<Rightarrow> 'd sys \<Rightarrow> bool" for lo n where
  tmr: "etharp_tmr lo s = Some s' \<Longrightarrow> arp_step lo n (s, R, C) (s', R, C)"
| receive: "0 < R p \<Longrightarrow> etharp_input lo p n s = Some s' \<Longrightarrow> arp_step lo n (s, R, C) (s', R(p := R p - 1), C)"
| send: "sendable s R C q \<Longrightarrow> etharp_output lo n q ip s = Some (e, s') \<Longrightarrow> arp_step lo n (s, R, C) (s', R, C)"
| request: "etharp_request lo n ip s = Some (e, s') \<Longrightarrow> arp_step lo n (s, R, C) (s', R, C)"
| cleanup: "etharp_cleanup_netif n s = Some s' \<Longrightarrow> arp_step lo n (s, R, C) (s', R, C)"
| new: "in_mem (pbuf_alloc layer len t) s = Some (Some p, s') \<Longrightarrow> t = PBUF_RAM \<or> t = PBUF_POOL \<Longrightarrow>
    arp_step lo n (s, R, C) (s', R(p := 1), C(p := [p]))"
| fill: "arp_step lo n (s, R, C) (put_bytes a xs s, R, C)"
| release: "0 < R p \<Longrightarrow> free_pbuf p s = Some s' \<Longrightarrow> arp_step lo n (s, R, C) (s', R(p := R p - 1), C)"

inductive_cases arp_stepE: "arp_step lo n (s, R, C) (s', R', C')"

definition sys_ok :: "('d \<Rightarrow> bool) \<Rightarrow> netif \<Rightarrow> ptr set \<Rightarrow> 'd sys \<Rightarrow> bool" where
  "sys_ok I n L = (\<lambda>(s, R, C). net_ok I s L R C \<and> attached s n)"

lemma etharp_tmr_ok:
  assumes "link_ok lo I" "net_ok I s L R C"
  shows "returns (etharp_tmr lo s) (\<lambda>s'. net_ok I s' L R C \<and> rest s' = rest s \<and>
    etharp_cached_entry s' = etharp_cached_entry s \<and> arp_table s' = map aged (arp_table s) \<and>
    keeps R C (nmem s) (nmem s'))"
  using etharp_tmr_steps [OF assms, of 0] by (simp add: etharp_tmr_def)

lemma put_bytes_ok: "net_ok I s L R C \<Longrightarrow> net_ok I (put_bytes a xs s) L R C"
  using held_same_pbufs [of "nmem (put_bytes a xs s)" "nmem s"] netif_deref_list [of "put_bytes a xs s" s]
  by (simp add: net_ok_def)

lemma new_packet_ok:
  assumes ok: "net_ok I s L R C" and t: "t = PBUF_RAM \<or> t = PBUF_POOL" and a: "in_mem (pbuf_alloc layer len t) s = Some (Some p, s')"
  shows "net_ok I s' L (R(p := 1)) (C(p := [p])) \<and> rest s' = rest s"
proof -
  have "\<exists>m. pbuf_alloc layer len t (nmem s) = Some (Some p, m) \<and> refs s R p = 0 \<and> held m L ((refs s R)(p := 1)) (C(p := [p])) \<and>
    keeps (refs s R) C (nmem s) m \<and> s' = s\<lparr>nmem := m\<rparr>"
    using held_alloc_ram [OF net_okD(4) [OF ok], of layer len] held_alloc_pool [OF net_okD(4) [OF ok], of layer len] t a
    by (elim disjE) (auto simp: in_mem_def bind_Some_iff)
  then obtain m where m: "refs s R p = 0" "held m L ((refs s R)(p := 1)) (C(p := [p]))" "keeps (refs s R) C (nmem s) m"
    "s' = s\<lparr>nmem := m\<rparr>" by (elim exE conjE) (rule that)
  have eq: "refs s (R(p := 1)) = (refs s R)(p := 1)" using m(1) by auto
  have "net_ok I s' L (R(p := 1)) (C(p := [p]))"
  proof (rule net_ok_mem)
    show "net_ok I s L R (C(p := [p]))" by (rule iffD2 [OF net_ok_unused ok]) (use m(1) in simp)
    show "held (nmem s') L (refs s (R(p := 1))) (C(p := [p]))" unfolding eq m(4) using m(2) by simp
    show "I (device s')" using net_okD(1) [OF ok] m(4) by simp
    fix b assume b: "0 < queued (arp_table s) b"
    then have "b \<noteq> p" using m(1) by auto
    then show "lens (nmem s') ((C(p := [p])) b) = lens (nmem s) ((C(p := [p])) b)" using keeps_lens [OF m(3), of b] b m(4) by simp
  qed (simp_all add: m(4))
  then show ?thesis by (simp add: m(4) rest_def)
qed

lemma arp_step_ok:
  assumes step: "arp_step lo n x y" and lo: "link_ok lo I" and ok: "sys_ok I n L x"
  shows "sys_ok I n L y"
  using step ok
proof (induction rule: arp_step.induct)
  case (tmr s s' R C)
  then show ?case using etharp_tmr_ok [OF lo, of s L R C] attached_rest [of s' s n] by (simp add: sys_ok_def returns_def)
next
  case (receive R p s s' C)
  then have ok: "net_ok I s L R C" "attached s n" by (simp_all add: sys_ok_def)
  have "pb_payload (the_pbuf s p) \<noteq> None" using receive(2) by (auto simp: etharp_input_def bind_eq_Some_conv)
  then obtain h where "pb_payload (the_pbuf s p) = Some h" by blast
  from etharp_input_ok [of lo I s L R C n p h, OF lo ok receive(1) this] receive(2) attached_rest [of s' s n] ok(2) show ?case
    by (simp add: sys_ok_def returns_def)
next
  case (send s R C q ip e s')
  then show ?case using etharp_output_ok [OF lo, of s L R C n q ip] attached_rest [of s' s n] by (simp add: sys_ok_def returns_def)
next
  case (request ip s e s' R C)
  then show ?case using etharp_request_ok [OF lo, of s L R C n ip] attached_rest [of s' s n]
    by (simp add: sys_ok_def returns_def same_state_def attached_def)
next
  case (cleanup s s' R C)
  then show ?case using etharp_cleanup_netif_ok [of I s L R C n] attached_rest [of s' s n] by (simp add: sys_ok_def returns_def)
next
  case (new layer len t s p s' R C)
  then have ok: "net_ok I s L R C" "attached s n" by (simp_all add: sys_ok_def)
  from new_packet_ok [OF ok(1) new(2,1)] show ?case using ok(2) attached_rest [of s' s n] by (simp add: sys_ok_def)
next
  case (fill s R C a xs)
  then show ?case using put_bytes_ok [of I s L R C a xs] attached_rest [of "put_bytes a xs s" s n] by (simp add: sys_ok_def rest_def)
next
  case (release R p s s' C)
  then have ok: "net_ok I s L R C" "attached s n" by (simp_all add: sys_ok_def)
  from free_pbuf_ok [of I s L R C p, OF ok(1) release(1)] release(2) attached_rest [of s' s n] ok(2) show ?case
    by (simp add: sys_ok_def returns_def)
qed

lemma arp_run_ok:
  assumes "(arp_step lo n)\<^sup>*\<^sup>* x y" "link_ok lo I" "sys_ok I n L x"
  shows "sys_ok I n L y"
  using assms(1,3) by (induction rule: rtranclp_induct) (auto intro: arp_step_ok [OF _ assms(2)])

section \<open>Safety\<close>

lemma net_ok_payload: "net_ok I s L R C \<Longrightarrow> 0 < R p \<Longrightarrow> \<exists>h. pb_payload (the_pbuf s p) = Some h"
proof -
  assume ok: "net_ok I s L R C" and p: "0 < R p"
  then have pk: "packet (nmem s) p (C p)" using heldD(1) [OF net_okD(4) [OF ok], of p] by simp
  then have "pb_payload (the_pbuf s p) \<noteq> None" using packet_head [OF pk] unfolding packet_def chain_def by simp
  then show ?thesis by simp
qed

text \<open>C18. After every sequence of operations the invariant holds: the table has ten entries with distinct keys, only a
  pending entry holds a packet and no packet is in two entries, the reference counters are exactly the numbers of holders,
  and nothing is leaked or freed twice.  In every such state every operation returns: no assertion fails, no list of pbufs
  is endless and no pointer without a target is followed.\<close>

theorem arp_run_safe:
  assumes "link_ok lo I" "net_ok I s0 L R0 C0" "attached s0 n" "(arp_step lo n)\<^sup>*\<^sup>* (s0, R0, C0) (s, R, C)"
  shows "net_ok I s L R C \<and> (\<exists>s'. etharp_tmr lo s = Some s') \<and> (\<exists>s'. etharp_cleanup_netif n s = Some s') \<and>
    (\<forall>ip. \<exists>r. etharp_request lo n ip s = Some r) \<and>
    (\<forall>q ip. sendable s R C q \<longrightarrow> (\<exists>r. etharp_output lo n q ip s = Some r)) \<and>
    (\<forall>p. 0 < R p \<longrightarrow> (\<exists>s'. etharp_input lo p n s = Some s') \<and> (\<exists>s'. free_pbuf p s = Some s'))"
proof -
  have "sys_ok I n L (s0, R0, C0)" using assms(2,3) by (simp add: sys_ok_def)
  from arp_run_ok [OF assms(4,1) this] have ok: "net_ok I s L R C" and n: "attached s n" by (simp_all add: sys_ok_def)
  have "\<exists>s'. etharp_input lo p n s = Some s'" if p: "0 < R p" for p
  proof -
    obtain h where "pb_payload (the_pbuf s p) = Some h" using net_ok_payload [of I s L R C p, OF ok p] by blast
    from etharp_input_ok [of lo I s L R C n p h, OF assms(1) ok n p this] show ?thesis by (auto simp: returns_def)
  qed
  moreover have "\<exists>s'. free_pbuf p s = Some s'" if "0 < R p" for p
    using free_pbuf_ok [of I s L R C p, OF ok that] by (auto simp: returns_def)
  moreover have "\<exists>r. etharp_output lo n q ip s = Some r" if "sendable s R C q" for q ip
    using etharp_output_ok [OF assms(1) ok n that, of ip] by (auto simp: returns_def)
  moreover have "\<exists>r. etharp_request lo n ip s = Some r" for ip
    using etharp_request_ok [OF assms(1) ok, of n ip] n by (auto simp: returns_def attached_def)
  moreover have "\<exists>s'. etharp_tmr lo s = Some s'" using etharp_tmr_ok [OF assms(1) ok] by (auto simp: returns_def)
  moreover have "\<exists>s'. etharp_cleanup_netif n s = Some s'" using etharp_cleanup_netif_ok [OF ok, of n] by (auto simp: returns_def)
  ultimately show ?thesis using ok by simp
qed

lemma st0_packet: "\<exists>s'. in_mem (pbuf_alloc PBUF_RAW 100 PBUF_RAM) st0 = Some (Some (Ram, 8), s')"
  using net0_alloc by (auto simp: in_mem_def st0_def)

theorem arp_run_safe_witness:
  "\<exists>s' s''. in_mem (pbuf_alloc PBUF_RAW 100 PBUF_RAM) st0 = Some (Some (Ram, 8), s') \<and>
    etharp_input count_link (Ram, 8) netif0 s' = Some s''"
proof -
  obtain s' where s': "in_mem (pbuf_alloc PBUF_RAW 100 PBUF_RAM) st0 = Some (Some (Ram, 8), s')" using st0_packet by blast
  have "arp_step count_link netif0 (st0, \<lambda>_. 0, \<lambda>_. []) (s', (\<lambda>_. 0)((Ram, 8) := 1), (\<lambda>_. [])((Ram, 8) := [(Ram, 8)]))"
    by (rule arp_step.new [OF s']) simp
  then have run: "(arp_step count_link netif0)\<^sup>*\<^sup>* (st0, \<lambda>_. 0, \<lambda>_. [])
      (s', (\<lambda>_. 0)((Ram, 8) := 1), (\<lambda>_. [])((Ram, 8) := [(Ram, 8)]))" by (rule r_into_rtranclp)
  have "\<exists>s''. etharp_input count_link (Ram, 8) netif0 s' = Some s''"
    using arp_run_safe [of count_link "\<lambda>_. True" st0 "{}" "\<lambda>_. 0" "\<lambda>_. []" netif0 s' "(\<lambda>_. 0)((Ram, 8) := 1)"
      "(\<lambda>_. [])((Ram, 8) := [(Ram, 8)])", OF count_link_ok net_ok0 attached0 run] by simp
  then show ?thesis using s' by blast
qed

section \<open>The table\<close>

text \<open>C19. An address that has been learnt is found, with the hardware address it was learnt with; the other entries
  stay as they were.\<close>

theorem arp_learn_find:
  assumes "link_ok lo I" "net_ok I s L R C" "attached s n" "length hw = ETH_HWADDR_LEN" "\<not> not_unicast ip n"
  shows "\<exists>s' i. etharp_update_arp_entry lo n ip hw ETHARP_FLAG_TRY_HARD s = Some (ERR_OK, s') \<and>
    etharp_find_addr n ip s' = Some (Some (i, hw, ip), s') \<and> etharp_get_entry i s' = Some (ip, Some (netif_num n), hw) \<and>
    (\<forall>j. j \<noteq> i \<longrightarrow> arp_table s' ! j = arp_table s ! j)"
proof -
  have "\<not> (ETHARP_FLAG_TRY_HARD AND ETHARP_FLAG_FIND_ONLY \<noteq> 0 \<or> ETHARP_FLAG_TRY_HARD AND ETHARP_FLAG_TRY_HARD = 0)"
    by (simp add: arp_consts)
  then obtain s' i x where u: "etharp_update_arp_entry lo n ip hw ETHARP_FLAG_TRY_HARD s = Some (ERR_OK, s')" "net_ok I s' L R C"
    "i < ARP_TABLE_SIZE" "arp_table s' = (arp_table s)[i := x]" "learnt ip (netif_num n) hw x"
    using etharp_update_ok [OF assms(1-4), of ip ETHARP_FLAG_TRY_HARD] assms(5)
    by (auto simp: returns_def simp del: de_Morgan_disj)
  note t = net_okD(2) [OF u(2)]
  have x: "arp_table s' ! i = x" using u(3,4) arp_table_okD(1) [OF net_okD(2) [OF assms(2)]] by simp
  have "entry_key x = Some (ip, Some (netif_num n))" "ae_state x \<ge> ETHARP_STATE_STABLE" "ae_ethaddr x = hw" "ae_ipaddr x = ip"
    "ae_netif x = Some (netif_num n)"
    using u(5) by (simp_all add: learnt_def entry_key_def)
  then have "etharp_find_addr n ip s' = Some (Some (i, hw, ip), s')" "etharp_get_entry i s' = Some (ip, Some (netif_num n), hw)"
    using etharp_find_addr_known [OF t u(3), of ip n] u(3) unfolding x by (simp_all add: etharp_get_entry_def x)
  then show ?thesis using u(1,4) by (intro exI [of _ s'] exI [of _ i]) simp
qed

theorem arp_learn_find_witness:
  "\<exists>s' i. etharp_update_arp_entry count_link netif0 0x0119FEA9 [2, 0, 0, 0, 0, 9] ETHARP_FLAG_TRY_HARD st0 = Some (ERR_OK, s') \<and>
    etharp_find_addr netif0 0x0119FEA9 s' = Some (Some (i, [2, 0, 0, 0, 0, 9], 0x0119FEA9), s') \<and>
    etharp_get_entry i s' = Some (0x0119FEA9, Some (netif_num netif0), [2, 0, 0, 0, 0, 9]) \<and>
    (\<forall>j. j \<noteq> i \<longrightarrow> arp_table s' ! j = arp_table st0 ! j)"
proof (rule arp_learn_find [OF count_link_ok net_ok0 attached0])
  show "\<not> not_unicast 0x0119FEA9 netif0" by code_simp
qed (simp add: ETH_HWADDR_LEN_def)

text \<open>C23. A search that may recycle always yields an entry.  It is the entry for the address if there is one; otherwise it is
  the first empty entry, or else the oldest stable entry, or else the oldest pending entry without a packet, or else the
  oldest of the rest, whose packet is released; no other entry changes.\<close>

theorem arp_find_entry_picks:
  assumes "net_ok I s L R C"
  shows "\<exists>i s'. etharp_find_entry (Some ip) ETHARP_FLAG_TRY_HARD (Some k) s = Some (Inr i, s') \<and> net_ok I s' L R C \<and>
    (if known ip k (arp_table s) then s' = s \<and> i < ARP_TABLE_SIZE \<and> entry_key (arp_table s ! i) = Some (ip, Some k)
     else victim (arp_table s) i \<and> (\<exists>e. arp_table s' = (arp_table s)[i := e] \<and> ae_state e = ETHARP_STATE_EMPTY \<and>
       ae_q e = None \<and> ae_ipaddr e = ip \<and> ae_netif e = Some k))"
proof (cases "known ip k (arp_table s)")
  case True
  then obtain i where i: "i < ARP_TABLE_SIZE" "entry_key (arp_table s ! i) = Some (ip, Some k)" by (auto simp: known_def)
  then show ?thesis using etharp_find_known [OF net_okD(2) [OF assms] i, of ETHARP_FLAG_TRY_HARD] assms True by auto
next
  case False
  have no: "entry_key (arp_table s ! i) \<noteq> Some (ip, Some k)" if "i < ARP_TABLE_SIZE" for i using False that by (auto simp: known_def)
  show ?thesis
  proof (rule returns_pair [OF etharp_find_entry_ok [OF assms, of ip ETHARP_FLAG_TRY_HARD k]], elim conjE)
    fix r s'
    assume f: "etharp_find_entry (Some ip) ETHARP_FLAG_TRY_HARD (Some k) s = Some (r, s')" "net_ok I s' L R C"
    assume res: "case r of
       Inl e \<Rightarrow> e = ERR_MEM \<and> s' = s \<and> (ETHARP_FLAG_TRY_HARD AND ETHARP_FLAG_FIND_ONLY \<noteq> 0 \<or> ETHARP_FLAG_TRY_HARD AND ETHARP_FLAG_TRY_HARD = 0)
     | Inr i \<Rightarrow> found ip k i (arp_table s') \<and>
         (ae_state (arp_table s' ! i) \<noteq> ETHARP_STATE_EMPTY \<and> s' = s \<or>
          ae_state (arp_table s' ! i) = ETHARP_STATE_EMPTY \<and> ae_ctime (arp_table s' ! i) = 0 \<and>
          ae_q (arp_table s' ! i) = None \<and> victim (arp_table s) i \<and> ETHARP_FLAG_TRY_HARD AND ETHARP_FLAG_FIND_ONLY = 0 \<and>
          (\<exists>e. arp_table s' = (arp_table s)[i := e]))"
    have fl: "\<not> (ETHARP_FLAG_TRY_HARD AND ETHARP_FLAG_FIND_ONLY \<noteq> 0 \<or> ETHARP_FLAG_TRY_HARD AND ETHARP_FLAG_TRY_HARD = 0)"
      by (simp add: arp_consts)
    obtain i where i: "r = Inr i"
    proof (cases r)
      case (Inl e)
      then show ?thesis using fl res by (simp only: sum.case simp_thms)
    qed (rule that)
    note c = res [unfolded i sum.case]
    have fd: "i < ARP_TABLE_SIZE" "ae_ipaddr (arp_table s' ! i) = ip" "ae_netif (arp_table s' ! i) = Some k"
      using conjunct1 [OF c] by (simp_all add: found_def)
    have "\<not> (ae_state (arp_table s' ! i) \<noteq> ETHARP_STATE_EMPTY \<and> s' = s)" using fd no [OF fd(1)] by (auto simp: entry_key_def)
    then have v: "ae_state (arp_table s' ! i) = ETHARP_STATE_EMPTY" "ae_q (arp_table s' ! i) = None" "victim (arp_table s) i"
      "\<exists>e. arp_table s' = (arp_table s)[i := e]"
      using conjunct2 [OF c] by (simp_all only: simp_thms)
    then obtain e where e: "arp_table s' = (arp_table s)[i := e]" by (elim exE) (rule that)
    have "i < length (arp_table s)" using fd(1) arp_table_okD(1) [OF net_okD(2) [OF assms]] by simp
    then have at: "arp_table s' ! i = e" by (simp add: e)
    show ?thesis using f i False v(1-3) fd(2,3) e unfolding at
      by (intro exI [of _ i] exI [of _ s']) (simp, blast)
  qed
qed

theorem arp_find_entry_picks_witness:
  "\<exists>i s'. etharp_find_entry (Some 0x0119FEA9) ETHARP_FLAG_TRY_HARD (Some 0) st0 = Some (Inr i, s') \<and> victim (arp_table st0) i"
proof -
  have "\<not> known 0x0119FEA9 0 (arp_table st0)" by (auto simp: known_def st0_def entry_key_def no_entry_def)
  then show ?thesis using arp_find_entry_picks [OF net_ok0, of "0x0119FEA9" 0] by auto
qed

section \<open>Time\<close>

text \<open>One round of the timer ages every entry by a second and returns; it clears the entries that have reached their
  age limit and moves the entries that ask again through their states.\<close>

theorem arp_tmr_ages:
  assumes "link_ok lo I" "net_ok I s L R C"
  shows "\<exists>s'. etharp_tmr lo s = Some s' \<and> net_ok I s' L R C \<and> rest s' = rest s \<and> arp_table s' = map aged (arp_table s)"
  using etharp_tmr_ok [OF assms] by (auto simp: returns_def)

theorem arp_tmr_ages_witness:
  "\<exists>s'. etharp_tmr count_link st0 = Some s' \<and> net_ok (\<lambda>_. True) s' {} (\<lambda>_. 0) (\<lambda>_. []) \<and> rest s' = rest st0 \<and>
    arp_table s' = map aged (arp_table st0)"
  by (rule arp_tmr_ages [OF count_link_ok net_ok0])

text \<open>\<open>k\<close> rounds of the timer.\<close>

primrec tmr_rounds :: "'d link_fn \<Rightarrow> nat \<Rightarrow> 'd net_st \<Rightarrow> 'd net_st option" where
  "tmr_rounds lo 0 s = Some s"
| "tmr_rounds lo (Suc k) s = do { s \<leftarrow> etharp_tmr lo s; tmr_rounds lo k s }"

lemma tmr_rounds_ok:
  assumes "link_ok lo I"
  shows "net_ok I s L R C \<Longrightarrow> returns (tmr_rounds lo k s) (\<lambda>s'. net_ok I s' L R C \<and> arp_table s' = map (aged ^^ k) (arp_table s))"
proof (induction k arbitrary: s)
  case (Suc k)
  obtain s1 where s1: "etharp_tmr lo s = Some s1" "net_ok I s1 L R C" "arp_table s1 = map aged (arp_table s)"
    using etharp_tmr_ok [OF assms Suc.prems] by (auto simp: returns_def)
  have "returns (tmr_rounds lo k s1) (\<lambda>s'. net_ok I s' L R C \<and> arp_table s' = map (aged ^^ k) (arp_table s1))"
    by (rule Suc.IH [OF s1(2)])
  then show ?case using s1(1,3) by (simp add: funpow_Suc_right del: funpow.simps) (simp add: comp_def)
qed simp

text \<open>How long an entry can still live.\<close>

lemma aged_empty: "ae_state e = ETHARP_STATE_EMPTY \<Longrightarrow> (aged ^^ k) e = e"
  by (induction k) (simp_all add: aged_def)

lemma aged_pos: "ae_ctime (e :: etharp_entry) < ARP_MAXAGE \<Longrightarrow> unat (ae_ctime e + 1) = Suc (unat (ae_ctime e))"
  by (simp add: arp_consts word_less_nat_alt unat_word_ariths)

lemma aged_runs_out:
  "entry_ok e \<Longrightarrow> 300 \<le> k + unat (ae_ctime e) \<Longrightarrow> ae_state ((aged ^^ k) e) = ETHARP_STATE_EMPTY"
proof (induction k arbitrary: e)
  case 0
  then show ?case by (auto simp: entry_ok_def arp_consts word_less_nat_alt)
next
  case (Suc k)
  show ?case
  proof (cases "ae_state e = ETHARP_STATE_EMPTY")
    case True
    then show ?thesis using aged_empty [of e "Suc k"] by simp
  next
    case False
    then have t: "unat (ae_ctime e + 1) = Suc (unat (ae_ctime e))" using Suc.prems(1) by (intro aged_pos) (auto simp: entry_ok_def)
    have eq: "(aged ^^ Suc k) e = (aged ^^ k) (aged e)" by (simp add: funpow_swap1)
    show ?thesis
    proof (cases "ae_state (aged e) = ETHARP_STATE_EMPTY")
      case True
      then show ?thesis unfolding eq using aged_empty [of "aged e" k] by simp
    next
      case nz: False
      then have "ae_ctime (aged e) = ae_ctime e + 1" using False by (auto simp: aged_def split: if_splits)
      then show ?thesis unfolding eq using Suc.prems t by (intro Suc.IH entry_ok_aged) simp_all
    qed
  qed
qed

lemma pending_runs_out:
  "entry_ok e \<Longrightarrow> ae_state e = ETHARP_STATE_PENDING \<Longrightarrow> 5 \<le> k + unat (ae_ctime e) \<Longrightarrow>
    ae_state ((aged ^^ k) e) = ETHARP_STATE_EMPTY"
proof (induction k arbitrary: e)
  case 0
  then show ?case by (auto simp: entry_ok_def arp_consts word_less_nat_alt)
next
  case (Suc k)
  then have t: "unat (ae_ctime e + 1) = Suc (unat (ae_ctime e))" by (intro aged_pos) (auto simp: entry_ok_def)
  have eq: "(aged ^^ Suc k) e = (aged ^^ k) (aged e)" by (simp add: funpow_swap1)
  show ?case
  proof (cases "ae_state (aged e) = ETHARP_STATE_EMPTY")
    case True
    then show ?thesis unfolding eq using aged_empty [of "aged e" k] by simp
  next
    case False
    then have "ae_ctime (aged e) = ae_ctime e + 1" "ae_state (aged e) = ETHARP_STATE_PENDING"
      using Suc.prems(2) by (auto simp: aged_def split: if_splits)
    then show ?thesis unfolding eq using Suc.prems t by (intro Suc.IH entry_ok_aged) simp_all
  qed
qed

lemma aged_ok: "entry_ok e \<Longrightarrow> entry_ok ((aged ^^ k) e)"
  by (induction k) (simp_all add: entry_ok_aged)

text \<open>C24. Nothing stays in the table for ever: five rounds of the timer end every request that is not answered (at one round
  per second that is five seconds, half of what the comment on \<^verbatim>\<open>ARP_MAXPENDING\<close> says), so that no entry is pending and no
  packet is held any more, and three hundred rounds empty the table.\<close>

theorem arp_entries_expire:
  assumes "link_ok lo I" "net_ok I s L R C"
  shows "(\<exists>s'. tmr_rounds lo 5 s = Some s' \<and> net_ok I s' L R C \<and> (\<forall>e \<in> set (arp_table s'). ae_state e \<noteq> ETHARP_STATE_PENDING \<and> ae_q e = None)) \<and>
    (\<exists>s'. tmr_rounds lo 300 s = Some s' \<and> net_ok I s' L R C \<and> (\<forall>e \<in> set (arp_table s'). ae_state e = ETHARP_STATE_EMPTY))"
proof -
  have ok: "entry_ok e" if "e \<in> set (arp_table s)" for e using net_okD(2) [OF assms(2)] that by (auto simp: arp_table_ok_def)
  have q: "ae_state ((aged ^^ 5) e) \<noteq> ETHARP_STATE_PENDING \<and> ae_q ((aged ^^ 5) e) = None" if e: "e \<in> set (arp_table s)" for e
  proof -
    have keep: "ae_state e \<noteq> ETHARP_STATE_PENDING \<Longrightarrow> ae_state (aged e) \<noteq> ETHARP_STATE_PENDING" for e by (auto simp: aged_def)
    have "ae_state ((aged ^^ k) e) \<noteq> ETHARP_STATE_PENDING" if "ae_state e \<noteq> ETHARP_STATE_PENDING" for k
      using that by (induction k) (simp_all add: keep)
    then have "ae_state ((aged ^^ 5) e) \<noteq> ETHARP_STATE_PENDING"
      using pending_runs_out [OF ok [OF e], of 5] by (cases "ae_state e = ETHARP_STATE_PENDING") auto
    then show ?thesis using aged_ok [OF ok [OF e], of 5] by (auto simp: entry_ok_def)
  qed
  have z: "ae_state ((aged ^^ 300) e) = ETHARP_STATE_EMPTY" if "e \<in> set (arp_table s)" for e
    by (rule aged_runs_out [OF ok [OF that]]) simp
  have "\<exists>s'. tmr_rounds lo 5 s = Some s' \<and> net_ok I s' L R C \<and> arp_table s' = map (aged ^^ 5) (arp_table s)"
    using tmr_rounds_ok [OF assms, of 5] unfolding returns_def .
  moreover have "\<exists>s'. tmr_rounds lo 300 s = Some s' \<and> net_ok I s' L R C \<and> arp_table s' = map (aged ^^ 300) (arp_table s)"
    using tmr_rounds_ok [OF assms, of 300] unfolding returns_def .
  ultimately show ?thesis using q z by (auto simp del: funpow.simps)
qed

theorem arp_entries_expire_witness:
  "(\<exists>s'. tmr_rounds count_link 5 st0 = Some s' \<and> net_ok (\<lambda>_. True) s' {} (\<lambda>_. 0) (\<lambda>_. []) \<and>
      (\<forall>e \<in> set (arp_table s'). ae_state e \<noteq> ETHARP_STATE_PENDING \<and> ae_q e = None)) \<and>
    (\<exists>s'. tmr_rounds count_link 300 st0 = Some s' \<and> net_ok (\<lambda>_. True) s' {} (\<lambda>_. 0) (\<lambda>_. []) \<and>
      (\<forall>e \<in> set (arp_table s'). ae_state e = ETHARP_STATE_EMPTY))"
  by (rule arp_entries_expire [OF count_link_ok net_ok0])

section \<open>Reception\<close>

text \<open>C22. \<open>etharp_input\<close> returns for every packet and gives back exactly the one reference it was handed.  A packet
  that is not IPv4 over Ethernet leaves the table alone; otherwise the sender's address is taken up if the packet is for this
  host or the address is in the table already, and no other entry changes.\<close>

theorem arp_input_learns:
  assumes "link_ok lo I" "net_ok I s L R C" "attached s n" "0 < R p" "pb_payload (the_pbuf s p) = Some h"
  shows "\<exists>s'. etharp_input lo p n s = Some s' \<and> net_ok I s' L (R(p := R p - 1)) C \<and>
    (if arp_valid s h
     then taken_up (get32 (arp_sipaddr h) s) n (get_bytes (arp_shwaddr h) ETH_HWADDR_LEN s) (arp_for_us s h n)
            (arp_table s) (arp_table s')
     else arp_table s' = arp_table s \<and> device s' = device s)"
  using etharp_input_ok [of lo I s L R C n p h, OF assms] by (auto simp: returns_def)

theorem arp_input_learns_witness:
  "\<exists>s s'. in_mem (pbuf_alloc PBUF_RAW 100 PBUF_RAM) st0 = Some (Some (Ram, 8), s) \<and>
    etharp_input count_link (Ram, 8) netif0 s = Some s' \<and> net_ok (\<lambda>_. True) s' {} (\<lambda>_. 0) ((\<lambda>_. [])((Ram, 8) := [(Ram, 8)]))"
proof -
  obtain s where s: "in_mem (pbuf_alloc PBUF_RAW 100 PBUF_RAM) st0 = Some (Some (Ram, 8), s)" using st0_packet by blast
  let ?R = "(\<lambda>_. 0)((Ram, 8) := 1) :: ptr \<Rightarrow> nat" and ?C = "(\<lambda>_. [])((Ram, 8) := [(Ram, 8)]) :: ptr \<Rightarrow> ptr list"
  have ok: "net_ok (\<lambda>_. True) s {} ?R ?C" "rest s = rest st0"
    using new_packet_ok [OF net_ok0 _ s] by simp_all
  have n: "attached s netif0" using attached0 attached_rest [OF ok(2), of netif0] by simp
  obtain h where h: "pb_payload (the_pbuf s (Ram, 8)) = Some h"
    using net_ok_payload [of "\<lambda>_. True" s "{}" ?R ?C "(Ram, 8)", OF ok(1)] by auto
  have "\<exists>s'. etharp_input count_link (Ram, 8) netif0 s = Some s' \<and> net_ok (\<lambda>_. True) s' {} (?R((Ram, 8) := ?R (Ram, 8) - 1)) ?C"
    using arp_input_learns [of count_link "\<lambda>_. True" s "{}" ?R ?C netif0 "(Ram, 8)" h, OF count_link_ok ok(1) n _ h] by auto
  moreover have "?R((Ram, 8) := ?R (Ram, 8) - 1) = (\<lambda>_. 0)" by auto
  ultimately show ?thesis using s by (simp only:) blast
qed

text \<open>While a packet in use has the buffer of the pool, allocation from it fails.\<close>

lemma pool_busy:
  assumes "net_ok I s L R C" "0 < R p \<or> 0 < queued (arp_table s) p" "b \<in> set (C p)" "b \<in> elems MEMP_PBUF_POOL"
  shows "\<exists>s'. in_mem (pbuf_alloc PBUF_RAW len PBUF_POOL) s = Some (None, s')"
proof -
  note h = net_okD(4) [OF assms(1)]
  obtain r st' where r: "pbuf_alloc PBUF_RAW len PBUF_POOL (nmem s) = Some (r, st')"
    "case r of None \<Rightarrow> held st' L (refs s R) C
     | Some a \<Rightarrow> refs s R a = 0 \<and> held st' L ((refs s R)(a := 1)) (C(a := [a])) \<and> pool_pbuf st' a \<and> plen st' a = unat len \<and> unat len \<le> 256"
    using held_alloc_pool [OF h, of PBUF_RAW len] by blast
  have one: "elems MEMP_PBUF_POOL = {(Pool MEMP_PBUF_POOL, 0)}" by (auto simp: elems_def)
  show ?thesis
  proof (cases r)
    case (Some a)
    have a': "refs s R a = 0" "held st' L ((refs s R)(a := 1)) (C(a := [a]))" "pool_pbuf st' a"
      using r(2) unfolding Some option.case by (simp_all only: simp_thms)
    then have a: "refs s R a = 0" "held st' L ((refs s R)(a := 1)) (C(a := [a]))" "a = b"
      using assms(4) by (simp_all only: one pool_pbuf_def singleton_iff)
    have "p \<noteq> a" using a(1) assms(2) by auto
    moreover from this have "0 < ((refs s R)(a := 1)) p" using assms(2) by auto
    ultimately have "set ((C(a := [a])) p) \<inter> set ((C(a := [a])) a) = {}"
      using held_disjoint [of st' L "(refs s R)(a := 1)" "C(a := [a])" p a, OF a(2)] by simp
    then show ?thesis using \<open>p \<noteq> a\<close> a(3) assms(3) by auto
  qed (use r(1) in \<open>simp add: in_mem_def\<close>)
qed

end
