(* ===== verification/Lwip_Frames.thy ===== *)
theory Lwip_Frames
  imports Lwip_Etharp_Props
begin

unbundle bit_operations_syntax

text \<open>
  The bytes that the link driver is given: the Ethernet header in front of a packet, and the ARP packets.
\<close>

declare split_paired_All [simp del] split_paired_Ex [simp del]

section \<open>Writing a header\<close>

definition eth_frame :: "u8 list \<Rightarrow> u8 list \<Rightarrow> u16 \<Rightarrow> u8 list \<Rightarrow> u8 list" where
  "eth_frame dst src ty payload = dst @ src @ [hi8 ty, lo8 ty] @ payload"

definition arp_packet :: "u16 \<Rightarrow> u8 list \<Rightarrow> u32 \<Rightarrow> u8 list \<Rightarrow> u32 \<Rightarrow> u8 list" where
  "arp_packet opcode hwsrc ipsrc hwdst ipdst =
     [0, 1, 8, 0, 6, 4, hi8 opcode, lo8 opcode] @ hwsrc @ addr_bytes ipsrc @ hwdst @ addr_bytes ipdst"

lemma length_addr_bytes [simp]: "length (addr_bytes a) = 4"
  by (simp add: addr_bytes_def)

lemma eth_header_written:
  assumes "length src = 6" "length dst = 6"
  shows "read_bytes (write_bytes (ptr_add h 6) src (write_bytes h dst (write_bytes (ptr_add h 12) [x, y] m))) h 14 =
    dst @ src @ [x, y]"
  by (rule nth_equalityI) (use assms in \<open>auto simp: read_bytes_def write_bytes_def nth_append nat_diff_distrib\<close>)

text \<open>The fields of an ARP packet, in the order in which the code writes them.\<close>

lemma arp_packet_written:
  assumes "length hs = 6" "length hw = 6"
  shows "read_bytes (write_bytes (arp_protolen h) [4] (write_bytes (arp_hwlen h) [6]
         (write_bytes (arp_proto h) [8, 0] (write_bytes (arp_hwtype h) [0, 1] (write_bytes (arp_dipaddr h) (addr_bytes di)
         (write_bytes (arp_sipaddr h) (addr_bytes si) (write_bytes (arp_dhwaddr h) hw
         (write_bytes (arp_shwaddr h) hs (write_bytes (arp_opcode h) [x, y] m))))))))) h 28 =
    [0, 1, 8, 0, 6, 4, x, y] @ hs @ addr_bytes si @ hw @ addr_bytes di"
proof -
  have f: "arp_hwtype h = h" "arp_proto h = ptr_add h (int 2)" "arp_hwlen h = ptr_add h (int 4)"
    "arp_protolen h = ptr_add h (int 5)" "arp_opcode h = ptr_add h (int 6)" "arp_shwaddr h = ptr_add h (int 8)"
    "arp_sipaddr h = ptr_add h (int 14)" "arp_dhwaddr h = ptr_add h (int 18)" "arp_dipaddr h = ptr_add h (int 24)"
    by (simp_all add: arp_fields)
  have f0: "length d \<le> 28 \<Longrightarrow> read_bytes (write_bytes h d m) h 28 = d @ drop (length d) (read_bytes m h 28)" for d m
    using read_write_part [of 0 d 28 h m] by simp
  show ?thesis using assms unfolding f
    by (simp add: read_write_part f0 del: of_nat_numeral of_nat_0)
qed

lemma header_disjoint:
  "bytes_at (ptr_add h (int k)) n \<inter> bytes_at h k = {}"
  by (auto simp: bytes_at_def)

lemma add_header_others:
  "pbuf_add_header (Some a) n st = Some (r, st') \<Longrightarrow> b \<noteq> a \<Longrightarrow> pbufs st' b = pbufs st b"
  by (auto simp: pbuf_add_header_def pbuf_add_header_impl_def Let_def upd_pbuf_def bind_Some_iff split: if_splits option.splits)

section \<open>The frame given to the driver\<close>

text \<open>A packet with room for the Ethernet header in front of its first pbuf, at a place that no other pbuf of it uses.\<close>

definition has_headroom :: "net_mem \<Rightarrow> ptr \<Rightarrow> ptr list \<Rightarrow> bool" where
  "has_headroom m p as \<longleftrightarrow> (\<exists>pl. pb_payload (pbufs m p) = Some pl \<and>
     ucast (pb_type_internal (pbufs m p)) AND PBUF_TYPE_FLAG_STRUCT_DATA_CONTIGUOUS \<noteq> 0 \<and>
     snd p + int SIZEOF_STRUCT_PBUF + int SIZEOF_ETH_HDR \<le> snd pl \<and> lens m as + SIZEOF_ETH_HDR < 65536 \<and>
     (\<forall>b \<in> set (tl as). region m b \<inter> bytes_at (ptr_add pl (- int SIZEOF_ETH_HDR)) SIZEOF_ETH_HDR = {}))"

lemma ethernet_output_bytes:
  assumes ok: "net_ok I s L R C" and p: "0 < R p" and n: "netif_ok n" and hw: "length src = ETH_HWADDR_LEN" "length dst = ETH_HWADDR_LEN"
    and room: "has_headroom (nmem s) p (C p)"
  shows "\<exists>m. ethernet_output lo n p src dst ty s = do { (e, d) \<leftarrow> lo n p m (device s); Some (e, s\<lparr>nmem := m, device := d\<rparr>) } \<and>
    chain m (Some p) (C p) \<and> content m (C p) = eth_frame dst src ty (content (nmem s) (C p))"
proof -
  note h = net_okD(4) [OF ok]
  have pos: "0 < refs s R p" using p by simp
  have 14: "SIZEOF_ETH_HDR \<le> 0xFFFF" by (simp add: SIZEOF_ETH_HDR_def)
  obtain pl where pl: "pb_payload (the_pbuf s p) = Some pl"
    "ucast (pb_type_internal (the_pbuf s p)) AND PBUF_TYPE_FLAG_STRUCT_DATA_CONTIGUOUS \<noteq> 0"
    "snd p + int SIZEOF_STRUCT_PBUF + int SIZEOF_ETH_HDR \<le> snd pl" "lens (nmem s) (C p) + SIZEOF_ETH_HDR < 65536"
    "\<forall>b \<in> set (tl (C p)). region (nmem s) b \<inter> bytes_at (ptr_add pl (- int SIZEOF_ETH_HDR)) SIZEOF_ETH_HDR = {}"
    using room unfolding has_headroom_def by (elim exE conjE) (rule that)
  let ?h = "ptr_add pl (- int SIZEOF_ETH_HDR)"
  have "fst (the (pbuf_add_header (Some p) SIZEOF_ETH_HDR (nmem s))) = False"
    by (rule add_header_room [of "nmem s" L "refs s R" C, OF h pos 14 pl(1,2,3,4)])
  moreover obtain as where as: "C p = p # as" "links (pnext (nmem s)) (Some p) (p # as)"
    by (rule packet_cases [OF h pos]) (auto simp: chain_def)
  ultimately show ?thesis
  proof (cases rule: held_add_header [OF h pos 14])
    case 1
    then show ?thesis using \<open>fst (the (pbuf_add_header (Some p) SIZEOF_ETH_HDR (nmem s))) = False\<close> by simp
  next
    case (2 m pl')
    define m' where "m' = m\<lparr>data_bytes := write_bytes (ptr_add ?h 6) src (write_bytes ?h dst
      (write_bytes (ptr_add ?h 12) [hi8 ty, lo8 ty] (data_bytes (nmem s))))\<rparr>"
    have pb: "pbufs m' = pbufs m" by (simp add: m'_def)
    have m: "pb_payload (pbufs m p) = Some ?h" "plen m p = SIZEOF_ETH_HDR + plen (nmem s) p" using 2(5-7) pl(1) by simp_all
    have "p \<notin> set as" using links_distinct [OF as(2)] by simp
    then have tl: "pbufs m b = the_pbuf s b" if "b \<in> set as" for b using add_header_others [OF 2(1), of b] that by metis
    have eq: "src = take ETH_HWADDR_LEN src" "dst = take ETH_HWADDR_LEN dst" using hw by simp_all
    have "put_bytes (eth_src ?h) (take ETH_HWADDR_LEN src) (put_bytes (eth_dest ?h) (take ETH_HWADDR_LEN dst)
      (put_bytes (eth_type_at ?h) [lo8 (lwip_htons ty), hi8 (lwip_htons ty)] (s\<lparr>nmem := m\<rparr>))) = s\<lparr>nmem := m'\<rparr>"
      using hw 2(4) by (simp add: m'_def put_bytes_def put16_def eth_src_def eth_dest_def eth_type_at_def lwip_htons_lo_hi)
    then have "ethernet_output lo n p src dst ty s = do { (e, d) \<leftarrow> lo n p m' (device s); Some (e, s\<lparr>nmem := m', device := d\<rparr>) }"
      using 2(1) m(1) n by (simp add: ethernet_output_def in_mem_def Let_def linkoutput_def netif_ok_def put16_def del: put_field_simps)
    moreover have "chain m' (Some p) (C p)" using heldD(1) [OF 2(2) pos] tot_ok_cong [of "C p" m' m]
      by (simp add: packet_def chain_def pb)
    moreover have "content m' (C p) = eth_frame dst src ty (content (nmem s) (C p))"
    proof -
      have w: "data_bytes m' q = data_bytes (nmem s) q" if "q \<notin> bytes_at ?h 14" for q
        unfolding m'_def using that hw by (auto simp: write_bytes_def bytes_at_def ETH_HWADDR_LEN_def)
      have "chunk m' p = read_bytes (data_bytes m') ?h 14 @ read_bytes (data_bytes m') (ptr_add ?h (int 14)) (plen (nmem s) p)"
        using m unfolding chunk_def pb by (simp only: read_bytes_split option.sel SIZEOF_ETH_HDR_def)
      also have "read_bytes (data_bytes m') ?h 14 = dst @ src @ [hi8 ty, lo8 ty]"
        using hw eth_header_written [of src dst ?h "hi8 ty" "lo8 ty" "data_bytes (nmem s)"] by (simp add: m'_def ETH_HWADDR_LEN_def)
      also have "read_bytes (data_bytes m') (ptr_add ?h (int 14)) (plen (nmem s) p) = chunk (nmem s) p"
        unfolding chunk_def using pl(1) header_disjoint [of ?h 14 "plen (nmem s) p"]
        by (auto simp: SIZEOF_ETH_HDR_def ptr_add_def intro!: read_bytes_frame w)
      finally have "chunk m' p = (dst @ src @ [hi8 ty, lo8 ty]) @ chunk (nmem s) p" .
      moreover have "content m' as = content (nmem s) as"
        unfolding content_def
      proof (intro arg_cong [of _ _ concat] map_cong refl)
        fix b assume b: "b \<in> set as"
        have disj: "region (nmem s) b \<inter> bytes_at ?h 14 = {}" using pl(5) as(1) b by (simp add: SIZEOF_ETH_HDR_def)
        show "chunk m' b = chunk (nmem s) b" unfolding chunk_def pb tl [OF b]
          by (rule read_bytes_frame, rule w) (use disj in blast)
      qed
      ultimately show ?thesis using as(1) by (simp add: eth_frame_def)
    qed
    ultimately show ?thesis by blast
  qed
qed

text \<open>C21. The frame that \<open>etharp_raw\<close> gives to the driver is the Ethernet header followed by the ARP packet with the given
  fields, in one buffer, unless no memory is left for it.\<close>

theorem arp_frame_sent:
  assumes "net_ok I s L R C" "netif_ok n" "length es = 6" "length ed = 6" "length hs = 6" "length hw = 6"
  shows "etharp_raw lo n es ed hs si hw di opc s = Some (ERR_MEM, s) \<and>
      pbuf_alloc PBUF_LINK 28 PBUF_RAM (nmem s) = Some (None, nmem s) \<or>
    (\<exists>p m s1. chain m (Some p) [p] \<and> same_state s s1 \<and>
       content m [p] = eth_frame ed es ETHTYPE_ARP (arp_packet opc hs si hw di) \<and>
       etharp_raw lo n es ed hs si hw di opc s =
         do { (e, d) \<leftarrow> lo n p m (device s); s \<leftarrow> free_pbuf p (s1\<lparr>nmem := m, device := d\<rparr>); Some (ERR_OK, s) })"
proof (cases rule: etharp_raw_build [OF assms(1,2), of lo es ed hs si hw di opc])
  case 1
  then show ?thesis by simp
next
  case b: (2 a s1 h)
  let ?R = "R(a := 1)" and ?C = "C(a := [a])"
  have room: "has_headroom (nmem s1) a (?C a)"
    using b(7,8) by (simp add: has_headroom_def SIZEOF_ETH_HDR_def SIZEOF_STRUCT_PBUF_def LWIP_MEM_ALIGN_SIZE_def
      PBUF_TYPE_FLAG_STRUCT_DATA_CONTIGUOUS_def)
  have hl: "length es = ETH_HWADDR_LEN" "length ed = ETH_HWADDR_LEN" using assms(3,4) by (simp_all add: ETH_HWADDR_LEN_def)
  obtain m where m: "ethernet_output lo n a es ed ETHTYPE_ARP s1 =
      do { (e, d) \<leftarrow> lo n a m (device s1); Some (e, s1\<lparr>nmem := m, device := d\<rparr>) }"
    "chain m (Some a) [a]" "content m [a] = eth_frame ed es ETHTYPE_ARP (content (nmem s1) [a])"
    using ethernet_output_bytes [OF b(3) _ assms(2) hl room, of lo ETHTYPE_ARP] by auto
  have "content (nmem s1) [a] = arp_packet opc hs si hw di"
    using arp_packet_written [OF assms(5,6), of h di si "hi8 opc" "lo8 opc" "data_bytes (nmem s)"] b(8,9) assms(5,6)
    by (simp add: chunk_def arp_packet_def ETH_HWADDR_LEN_def)
  moreover have "etharp_raw lo n es ed hs si hw di opc s =
      do { (e, d) \<leftarrow> lo n a m (device s); s \<leftarrow> free_pbuf a (s1\<lparr>nmem := m, device := d\<rparr>); Some (ERR_OK, s) }"
    unfolding b(10) m(1) b(5) by (cases "lo n a m (device s)") (auto split: prod.splits)
  ultimately show ?thesis using m(2,3) b(4) by (intro disjI2 exI [of _ a] exI [of _ m] exI [of _ s1]) simp
qed

lemma net0_link: "\<exists>a m. pbuf_alloc PBUF_LINK 28 PBUF_RAM net0 = Some (Some a, m)"
proof -
  obtain h' where h': "mem_malloc 60 (mem_init heap0) = Some (Some 8, h')"
    using mem_malloc_fit [OF mem_init_inv, of 60] by (auto simp: mem_round_small cut_block_def)
  have "mem_size_cast 44 = 44" "mem_size_cast 60 = 60" "mem_size_cast 28 = 28" by (simp_all add: mem_size_cast_def)
  then show ?thesis
    by (simp add: pbuf_alloc_def Let_def LWIP_MEM_ALIGN_SIZE_def SIZEOF_STRUCT_PBUF_def
      st_mem_malloc_def net0_def h' LWIP_MEM_ALIGN_def ptr_add_def PBUF_LINK_HLEN_def)
qed

theorem arp_frame_sent_witness:
  "\<exists>p m s1. chain m (Some p) [p] \<and> same_state st0 s1 \<and>
     content m [p] = eth_frame ethbroadcast [2, 0, 0, 0, 0, 1] ETHTYPE_ARP
       (arp_packet ARP_REQUEST [2, 0, 0, 0, 0, 1] 0x3F19FEA9 ethzero 0x0119FEA9)"
proof -
  let ?run = "etharp_raw count_link netif0 [2, 0, 0, 0, 0, 1] ethbroadcast [2, 0, 0, 0, 0, 1] 0x3F19FEA9 ethzero 0x0119FEA9 ARP_REQUEST st0"
  have "?run = Some (ERR_MEM, st0) \<and> pbuf_alloc PBUF_LINK 28 PBUF_RAM (nmem st0) = Some (None, nmem st0) \<or>
    (\<exists>p m s1. chain m (Some p) [p] \<and> same_state st0 s1 \<and>
       content m [p] = eth_frame ethbroadcast [2, 0, 0, 0, 0, 1] ETHTYPE_ARP
         (arp_packet ARP_REQUEST [2, 0, 0, 0, 0, 1] 0x3F19FEA9 ethzero 0x0119FEA9) \<and>
       ?run = do { (e, d) \<leftarrow> count_link netif0 p m (device st0); s \<leftarrow> free_pbuf p (s1\<lparr>nmem := m, device := d\<rparr>); Some (ERR_OK, s) })"
    by (rule arp_frame_sent [OF net_ok0 netif0_ok]) (simp_all add: ethbroadcast_def ethzero_def)
  then show ?thesis using net0_link by (elim disjE) (auto simp: st0_def)
qed

section \<open>Packets to a neighbour\<close>

lemma find_stable_complete:
  assumes t: "arp_table_ok t" and k: "k < ARP_TABLE_SIZE" "ae_state (t ! k) \<ge> ETHARP_STATE_STABLE"
    "entry_key (t ! k) = Some (dst, Some (netif_num n))"
  shows "find_stable n dst 0 t = Some k"
proof (cases "find_stable n dst 0 t")
  case None
  have no: "\<not> (ae_state (es ! j) \<ge> ETHARP_STATE_STABLE \<and> ae_netif (es ! j) = Some (netif_num n) \<and> dst = ae_ipaddr (es ! j))"
    if "find_stable n dst i es = None" "j < length es" for i j es
    using that
  proof (induction es arbitrary: i j)
    case (Cons e es)
    have e: "\<not> (ae_state e \<ge> ETHARP_STATE_STABLE \<and> ae_netif e = Some (netif_num n) \<and> dst = ae_ipaddr e)"
      "find_stable n dst (Suc i) es = None" using Cons.prems(1) by (simp_all del: etharp_state_order split: if_splits)
    show ?case
    proof (cases j)
      case (Suc k)
      then show ?thesis using Cons.IH [OF e(2), of k] Cons.prems(2) by (simp only: nth_Cons_Suc length_Cons Suc_less_eq simp_thms)
    qed (use e(1) in \<open>simp only: nth_Cons_0 simp_thms\<close>)
  qed simp
  have "dst = ae_ipaddr (t ! k)" "ae_netif (t ! k) = Some (netif_num n)" using k(3) by (auto simp: entry_key_def split: if_splits)
  then show ?thesis using no [OF None, of k] k(1,2) arp_table_okD(1) [OF t] by simp
next
  case (Some i)
  then have i: "i < ARP_TABLE_SIZE" "entry_key (t ! i) = Some (dst, Some (netif_num n))"
    using find_stable_ok [OF Some] arp_table_okD(1) [OF t] by auto
  then have "i = k" using arp_table_okD(3) [OF t k(1) i(1)] k(3) by auto
  then show ?thesis using Some by simp
qed

lemma etharp_output_stable:
  assumes "net_ok I s L R C" "netif_ok n" "0 < R q" "has_headroom (nmem s) q (C q)"
    and "\<not> not_unicast ip n" "etharp_next_hop n ip = Some dst"
    and "i < ARP_TABLE_SIZE" "ae_state (arp_table s ! i) = ETHARP_STATE_STABLE" "ae_ctime (arp_table s ! i) < 270"
      "entry_key (arp_table s ! i) = Some (dst, Some (netif_num n))"
  shows "\<exists>m. etharp_output lo n q ip s =
      do { (e, d) \<leftarrow> lo n q m (device s); Some (e, s\<lparr>etharp_cached_entry := i, nmem := m, device := d\<rparr>) } \<and>
    chain m (Some q) (C q) \<and>
    content m (C q) = eth_frame (ae_ethaddr (arp_table s ! i)) (netif_hwaddr n) ETHTYPE_IP (content (nmem s) (C q))"
proof -
  let ?s = "s\<lparr>etharp_cached_entry := i\<rparr>"
  note t = net_okD(2) [OF assms(1)]
  have e: "ae_ipaddr (arp_table s ! i) = dst" "ae_netif (arp_table s ! i) = Some (netif_num n)"
    using assms(8,10) by (auto simp: entry_key_def)
  have "etharp_output lo n q ip s = etharp_output_to_arp_index lo n q i ?s"
  proof -
    let ?c = "etharp_cached_entry s"
    let ?hit = "ae_state (arp_table s ! ?c) \<ge> ETHARP_STATE_STABLE \<and> ae_netif (arp_table s ! ?c) = Some (netif_num n) \<and>
        dst = ae_ipaddr (arp_table s ! ?c)"
    have c: "?c < ARP_TABLE_SIZE" using net_okD(3) [OF assms(1)] .
    have run: "etharp_output lo n q ip s = (if ?hit then etharp_output_to_arp_index lo n q ?c s
         else (case find_stable n dst 0 (arp_table s) of
                 Some i \<Rightarrow> etharp_output_to_arp_index lo n q i (s\<lparr>etharp_cached_entry := i\<rparr>)
               | None \<Rightarrow> etharp_query lo n dst (Some q) s))"
      using assms(5,6) c by (simp add: etharp_output_def Let_def not_unicast_def del: etharp_state_order)
    show ?thesis
    proof (cases ?hit)
      case True
      then have "entry_key (arp_table s ! ?c) = Some (dst, Some (netif_num n))" by (auto simp: entry_key_def)
      then have ci: "?c = i" using arp_table_okD(3) [OF t c assms(7)] assms(10) by auto
      then have "?s = s" by (cases s) simp
      then show ?thesis using trans [OF run if_P [OF True]] by (simp only: ci)
    next
      case False
      have "find_stable n dst 0 (arp_table s) = Some i"
        by (rule find_stable_complete [OF t assms(7) _ assms(10)]) (simp add: assms(8))
      then show ?thesis unfolding run if_not_P [OF False] by simp
    qed
  qed
  also have "\<dots> = ethernet_output lo n q (netif_hwaddr n) (ae_ethaddr (arp_table s ! i)) ETHTYPE_IP ?s"
    using assms(8,9) by (auto simp: etharp_output_to_arp_index_def arp_consts word_less_nat_alt word_le_nat_alt)
  finally have run: "etharp_output lo n q ip s = ethernet_output lo n q (netif_hwaddr n) (ae_ethaddr (arp_table s ! i)) ETHTYPE_IP ?s" .
  have hl: "length (netif_hwaddr n) = ETH_HWADDR_LEN" "length (ae_ethaddr (arp_table s ! i)) = ETH_HWADDR_LEN"
    using assms(2) arp_table_okD(2) [OF t assms(7)] by (simp_all add: netif_ok_def entry_ok_def)
  from ethernet_output_bytes [OF net_ok_cached [OF assms(1,7)] assms(3,2) hl, of lo ETHTYPE_IP] assms(4) show ?thesis
    unfolding run by simp
qed

text \<open>C20. A packet to a neighbour that is resolved and need not be asked again goes out at once, as a frame to its hardware
  address; the hint for the next packet is its entry.\<close>

theorem output_to_neighbour:
  assumes "net_ok I s L R C" "netif_ok n" "0 < R q" "has_headroom (nmem s) q (C q)"
    and "\<not> not_unicast ip n" "etharp_next_hop n ip = Some dst"
    and "i < ARP_TABLE_SIZE" "ae_state (arp_table s ! i) = ETHARP_STATE_STABLE" "ae_ctime (arp_table s ! i) < 270"
      "entry_key (arp_table s ! i) = Some (dst, Some (netif_num n))"
  shows "\<exists>m. etharp_output lo n q ip s =
      do { (e, d) \<leftarrow> lo n q m (device s); Some (e, s\<lparr>etharp_cached_entry := i, nmem := m, device := d\<rparr>) } \<and>
    chain m (Some q) (C q) \<and>
    content m (C q) = eth_frame (ae_ethaddr (arp_table s ! i)) (netif_hwaddr n) ETHTYPE_IP (content (nmem s) (C q))"
  using assms by (rule etharp_output_stable)

lemma st0_link:
  obtains s p where "in_mem (pbuf_alloc PBUF_LINK 28 PBUF_RAM) st0 = Some (Some p, s)" "rest s = rest st0"
    "net_ok (\<lambda>_. True) s {} ((\<lambda>_. 0)(p := 1)) ((\<lambda>_. [])(p := [p]))" "has_headroom (nmem s) p [p]"
    "arp_table s = arp_table st0" "plen (nmem s) p = 28" "pb_type_internal (the_pbuf s p) = 0x80"
proof -
  obtain p m where a: "pbuf_alloc PBUF_LINK 28 PBUF_RAM net0 = Some (Some p, m)" using net0_link by blast
  obtain r st where r: "pbuf_alloc PBUF_LINK 28 PBUF_RAM net0 = Some (r, st)"
    "case r of None \<Rightarrow> st = net0
     | Some a \<Rightarrow> (0 :: nat) = 0 \<and> held st {} ((\<lambda>_. 0)(a := 1)) ((\<lambda>_. [])(a := [a])) \<and> keeps (\<lambda>_. 0) (\<lambda>_. []) net0 st \<and> fst a = Ram \<and>
         pbufs st a = \<lparr>pb_next = None,
           pb_payload = Some (ptr_add a (int (SIZEOF_STRUCT_PBUF + LWIP_MEM_ALIGN_SIZE (layer_num PBUF_LINK)))),
           pb_tot_len = 28, pb_len = 28, pb_type_internal = 0x80, pb_flags = 0, pb_ref = 1, pb_if_idx = 0\<rparr>"
    using held_alloc_ram [OF held_none [OF mem_ok_net0], of PBUF_LINK 28 "\<lambda>_. []"] by blast
  have pb: "pbufs m p = \<lparr>pb_next = None,
           pb_payload = Some (ptr_add p (int (SIZEOF_STRUCT_PBUF + LWIP_MEM_ALIGN_SIZE (layer_num PBUF_LINK)))),
           pb_tot_len = 28, pb_len = 28, pb_type_internal = 0x80, pb_flags = 0, pb_ref = 1, pb_if_idx = 0\<rparr>"
  proof -
    have "r = Some p" "st = m" using r(1) a by simp_all
    then show ?thesis using r(2) unfolding \<open>r = Some p\<close> option.case by simp
  qed
  have st: "in_mem (pbuf_alloc PBUF_LINK 28 PBUF_RAM) st0 = Some (Some p, st0\<lparr>nmem := m\<rparr>)"
    using a by (simp add: in_mem_def st0_def)
  have "has_headroom m p [p]"
    unfolding has_headroom_def pb by (simp add: SIZEOF_ETH_HDR_def LWIP_MEM_ALIGN_SIZE_def PBUF_TYPE_FLAG_STRUCT_DATA_CONTIGUOUS_def
      PBUF_LINK_HLEN_def SIZEOF_STRUCT_PBUF_def pb)
  then show thesis
    by (intro that [OF st _ conjunct1 [OF new_packet_ok [OF net_ok0 _ st]]]) (simp_all add: rest_def pb)
qed

definition st1 :: "nat net_st \<Rightarrow> nat net_st" where
  "st1 s = s\<lparr>arp_table := (arp_table s)[0 := no_entry\<lparr>ae_ipaddr := 0x0119FEA9, ae_netif := Some 0,
     ae_ethaddr := [2, 0, 0, 0, 0, 9], ae_state := ETHARP_STATE_STABLE\<rparr>]\<rparr>"

lemma st1_ok:
  assumes "net_ok I s L R C" "rest s = rest st0" "arp_table s = arp_table st0"
  shows "net_ok I (st1 s) L R C"
  unfolding st1_def
proof (rule net_ok_table [OF assms(1)])
  show "entry_ok (no_entry\<lparr>ae_ipaddr := 0x0119FEA9, ae_netif := Some 0, ae_ethaddr := [2, 0, 0, 0, 0, 9], ae_state := ETHARP_STATE_STABLE\<rparr>)"
    by (simp add: entry_ok_def no_entry_def ETH_HWADDR_LEN_def arp_consts)
  have "attached s netif0" using attached0 attached_rest [OF assms(2), of netif0] by simp
  then show "\<exists>n. netif_deref (ae_netif (no_entry\<lparr>ae_ipaddr := 0x0119FEA9, ae_netif := Some 0, ae_ethaddr := [2, 0, 0, 0, 0, 9],
      ae_state := ETHARP_STATE_STABLE\<rparr>)) s = Some n" by (simp add: attached_def netif0_def)
qed (use assms(3) in \<open>auto simp: st0_def no_entry_def entry_key_def ARP_TABLE_SIZE_def nth_Cons'\<close>)

theorem output_to_neighbour_witness:
  "\<exists>s p m. in_mem (pbuf_alloc PBUF_LINK 28 PBUF_RAM) st0 = Some (Some p, s) \<and>
    etharp_output count_link netif0 p 0x0119FEA9 (st1 s) = Some (ERR_OK, (st1 s)\<lparr>etharp_cached_entry := 0, nmem := m, device := Suc (device s)\<rparr>) \<and>
    content m [p] = eth_frame [2, 0, 0, 0, 0, 9] [2, 0, 0, 0, 0, 1] ETHTYPE_IP (content (nmem s) [p])"
proof -
  obtain s p where s: "in_mem (pbuf_alloc PBUF_LINK 28 PBUF_RAM) st0 = Some (Some p, s)" "rest s = rest st0"
    "net_ok (\<lambda>_. True) s {} ((\<lambda>_. 0)(p := 1)) ((\<lambda>_. [])(p := [p]))" "has_headroom (nmem s) p [p]" "arp_table s = arp_table st0"
    by (rule st0_link)
  have e: "arp_table (st1 s) ! 0 = no_entry\<lparr>ae_ipaddr := 0x0119FEA9, ae_netif := Some 0,
     ae_ethaddr := [2, 0, 0, 0, 0, 9], ae_state := ETHARP_STATE_STABLE\<rparr>"
    using s(5) by (simp add: st1_def st0_def ARP_TABLE_SIZE_def)
  have m: "nmem (st1 s) = nmem s" "device (st1 s) = device s" by (simp_all add: st1_def)
  have ip: "\<not> not_unicast 0x0119FEA9 netif0" "etharp_next_hop netif0 0x0119FEA9 = Some 0x0119FEA9" by code_simp+
  have "\<exists>m. etharp_output count_link netif0 p 0x0119FEA9 (st1 s) =
      do { (e, d) \<leftarrow> count_link netif0 p m (device (st1 s)); Some (e, (st1 s)\<lparr>etharp_cached_entry := 0, nmem := m, device := d\<rparr>) } \<and>
    chain m (Some p) (((\<lambda>_. [])(p := [p])) p) \<and>
    content m (((\<lambda>_. [])(p := [p])) p) = eth_frame (ae_ethaddr (arp_table (st1 s) ! 0)) (netif_hwaddr netif0) ETHTYPE_IP
      (content (nmem (st1 s)) (((\<lambda>_. [])(p := [p])) p))"
    by (rule output_to_neighbour [of "\<lambda>_. True" "st1 s" "{}" "(\<lambda>_. 0)(p := 1)" "(\<lambda>_. [])(p := [p])" netif0 p "0x0119FEA9" "0x0119FEA9" 0,
        OF st1_ok [OF s(3,2,5)] netif0_ok _ _ ip])
      (use s(4) e m in \<open>simp_all add: ARP_TABLE_SIZE_def no_entry_def entry_key_def netif0_def\<close>)
  then show ?thesis using s(1) m e by (auto simp: count_link_def netif0_def)
qed

end
