(* ===== verification/Lwip_Ip4_Safe.thy ===== *)
theory Lwip_Ip4_Safe
  imports Lwip_Ip4 Lwip_Frames
begin

unbundle bit_operations_syntax

text \<open>
  IPv4 and ICMP keep the invariant: no assertion fails, and a packet that is handed on is given back exactly once.
\<close>

declare split_paired_All [simp del] split_paired_Ex [simp del]

section \<open>Headers of a packet, in the whole state\<close>

lemma add_header_fields:
  assumes "pbuf_add_header (Some a) n st = Some (r, st')"
  shows "pb_type_internal (pbufs st' b) = pb_type_internal (pbufs st b)" "pb_ref (pbufs st' b) = pb_ref (pbufs st b)"
    "pb_flags (pbufs st' b) = pb_flags (pbufs st b)" "pb_next (pbufs st' b) = pb_next (pbufs st b)"
    "ram_heap st' = ram_heap st" "pools st' = pools st" "customs st' = customs st" "data_bytes st' = data_bytes st"
  using assms by (auto simp: pbuf_add_header_def pbuf_add_header_impl_def Let_def upd_pbuf_def split: if_splits option.splits)

lemma remove_header_fields:
  assumes "pbuf_remove_header (Some a) n st = Some (r, st')"
  shows "pb_type_internal (pbufs st' b) = pb_type_internal (pbufs st b)" "pb_ref (pbufs st' b) = pb_ref (pbufs st b)"
    "pb_flags (pbufs st' b) = pb_flags (pbufs st b)" "pb_next (pbufs st' b) = pb_next (pbufs st b)"
    "ram_heap st' = ram_heap st" "pools st' = pools st" "customs st' = customs st" "data_bytes st' = data_bytes st"
    "b \<noteq> a \<Longrightarrow> pbufs st' b = pbufs st b"
  using assms by (auto simp: pbuf_remove_header_def Let_def upd_pbuf_def split: if_splits option.splits)

lemma net_ok_nmem:
  assumes "net_ok I s L R C" "held m L (refs s R) C" "keeps ((refs s R)(p := 0)) C (nmem s) m" "queued (arp_table s) p = 0"
  shows "net_ok I (s\<lparr>nmem := m\<rparr>) L R C"
proof (rule net_ok_mem [OF assms(1)])
  fix a assume a: "0 < queued (arp_table s) a"
  then have "a \<noteq> p" using assms(4) by auto
  then show "lens (nmem (s\<lparr>nmem := m\<rparr>)) (C a) = lens (nmem s) (C a)" using keeps_lens [OF assms(3), of a] a by simp
qed (use assms(2) net_okD(1) [OF assms(1)] in simp_all)

lemma add_header_net:
  assumes ok: "net_ok I s L R C" and p: "0 < R p" "queued (arp_table s) p = 0" and n: "n \<le> 0xFFFF"
  obtains (failed) "in_mem (pbuf_add_header (Some p) n) s = Some (True, s)"
  | (added) m pl where "pbuf_add_header (Some p) n (nmem s) = Some (False, m)"
      "in_mem (pbuf_add_header (Some p) n) s = Some (False, s\<lparr>nmem := m\<rparr>)" "net_ok I (s\<lparr>nmem := m\<rparr>) L R C"
      "data_bytes m = data_bytes (nmem s)" "pb_payload (the_pbuf s p) = Some pl"
      "pb_payload (pbufs m p) = Some (ptr_add pl (- int n))" "plen m p = plen (nmem s) p + n"
      "lens m (C p) = lens (nmem s) (C p) + n"
proof -
  have pos: "0 < refs s R p" using p by simp
  show thesis
  proof (rule held_add_header [OF net_okD(4) [OF ok] pos n])
    assume "pbuf_add_header (Some p) n (nmem s) = Some (True, nmem s)"
    then show thesis by (intro failed) (simp add: in_mem_def)
  next
    fix m pl assume m: "pbuf_add_header (Some p) n (nmem s) = Some (False, m)" "held m L (refs s R) C"
      "keeps ((refs s R)(p := 0)) C (nmem s) m" "data_bytes m = data_bytes (nmem s)" "pb_payload (the_pbuf s p) = Some pl"
      "pb_payload (pbufs m p) = Some (ptr_add pl (- int n))" "plen m p = plen (nmem s) p + n"
      "lens m (C p) = lens (nmem s) (C p) + n"
    show thesis
      by (rule added [OF m(1) _ net_ok_nmem [OF ok m(2,3) p(2)] m(4-8)]) (simp add: in_mem_def m(1))
  qed
qed

lemma remove_header_net:
  assumes ok: "net_ok I s L R C" and p: "0 < R p" "queued (arp_table s) p = 0" and n: "n \<le> plen (nmem s) p"
  obtains m pl where "pbuf_remove_header (Some p) n (nmem s) = Some (False, m)"
      "in_mem (pbuf_remove_header (Some p) n) s = Some (False, s\<lparr>nmem := m\<rparr>)" "net_ok I (s\<lparr>nmem := m\<rparr>) L R C"
      "data_bytes m = data_bytes (nmem s)" "pb_payload (the_pbuf s p) = Some pl"
      "pb_payload (pbufs m p) = Some (ptr_add pl (int n))" "plen m p = plen (nmem s) p - n"
      "lens m (C p) = lens (nmem s) (C p) - n" "content m (C p) = drop n (content (nmem s) (C p))"
proof -
  have pos: "0 < refs s R p" using p by simp
  show thesis
  proof (rule held_remove_header [OF net_okD(4) [OF ok] pos n])
    fix m pl assume m: "pbuf_remove_header (Some p) n (nmem s) = Some (False, m)" "held m L (refs s R) C"
      "keeps ((refs s R)(p := 0)) C (nmem s) m" "data_bytes m = data_bytes (nmem s)" "pb_payload (the_pbuf s p) = Some pl"
      "pb_payload (pbufs m p) = Some (ptr_add pl (int n))" "plen m p = plen (nmem s) p - n"
      "lens m (C p) = lens (nmem s) (C p) - n" "content m (C p) = drop n (content (nmem s) (C p))"
    show thesis
      by (rule that [OF m(1) _ net_ok_nmem [OF ok m(2,3) p(2)] m(4-9)]) (simp add: in_mem_def m(1))
  qed
qed

lemma packet_tot:
  assumes "net_ok I s L R C" "0 < R p"
  shows "unat (pb_tot_len (the_pbuf s p)) = lens (nmem s) (C p)" "lens (nmem s) (C p) < 65536" "p \<in> set (C p)"
    "plen (nmem s) p \<le> lens (nmem s) (C p)"
proof -
  obtain as where as: "C p = p # as" "unat (pb_tot_len (the_pbuf s p)) = plen (nmem s) p + lens (nmem s) as"
    using packet_cases [of "nmem s" L "refs s R" C p, OF net_okD(4) [OF assms(1)]] assms(2) by (metis add_gr_0)
  then show "unat (pb_tot_len (the_pbuf s p)) = lens (nmem s) (C p)" "p \<in> set (C p)" "plen (nmem s) p \<le> lens (nmem s) (C p)"
    by simp_all
  then show "lens (nmem s) (C p) < 65536" using u16_lt [of "pb_tot_len (the_pbuf s p)"] by simp
qed

lemma put_bytes_net: "net_ok I (put_bytes a xs s) L R C \<longleftrightarrow> net_ok I s L R C"
  using held_same_pbufs [of "nmem (put_bytes a xs s)" "nmem s"] netif_deref_list [of "put_bytes a xs s" s]
  by (simp add: net_ok_def)

lemma data_net: "net_ok I (s\<lparr>nmem := (nmem s)\<lparr>data_bytes := d\<rparr>\<rparr>) L R C \<longleftrightarrow> net_ok I s L R C"
  using held_same_pbufs [of "(nmem s)\<lparr>data_bytes := d\<rparr>" "nmem s"] netif_deref_list [of "s\<lparr>nmem := (nmem s)\<lparr>data_bytes := d\<rparr>\<rparr>" s]
  by (simp add: net_ok_def)

lemma ip_id_net [simp]: "net_ok I (s\<lparr>ip_id := i\<rparr>) L R C \<longleftrightarrow> net_ok I s L R C" "netif_deref k (s\<lparr>ip_id := i\<rparr>) = netif_deref k s"
  using netif_deref_list [of "s\<lparr>ip_id := i\<rparr>" s] by (simp_all add: net_ok_def)

lemma ip_data_net [simp]: "net_ok I (s\<lparr>ip_data := i\<rparr>) L R C \<longleftrightarrow> net_ok I s L R C" "netif_deref k (s\<lparr>ip_data := i\<rparr>) = netif_deref k s"
  using netif_deref_list [of "s\<lparr>ip_data := i\<rparr>" s] by (simp_all add: net_ok_def)

section \<open>Output\<close>

text \<open>What IPv4 output leaves alone.\<close>

definition ip_rest ::
    "'d net_st \<Rightarrow> ip_globals \<times> (ptr \<times> ip_reassdata) list \<times> u16 \<times> (ptr \<Rightarrow> ptr option) \<times> netif list \<times> u8 option" where
  "ip_rest s = (ip_data s, reassdatagrams s, ip_reass_pbufcount s, reass_next s, netif_list s, netif_default s)"

lemma rest_ip_rest: "rest s' = rest s \<Longrightarrow> ip_rest s' = ip_rest s"
  by (simp add: rest_def ip_rest_def)

lemma ip_rest_simps [simp]:
  "ip_rest (put_bytes a xs s) = ip_rest s" "ip_rest (s\<lparr>nmem := m\<rparr>) = ip_rest s" "ip_rest (s\<lparr>ip_id := i\<rparr>) = ip_rest s"
  "ip_rest (s\<lparr>device := d\<rparr>) = ip_rest s"
  by (simp_all add: ip_rest_def)

lemma attached_ip_rest: "ip_rest s' = ip_rest s \<Longrightarrow> attached s' n = attached s n"
  using netif_deref_list [of s' s] by (simp add: attached_def ip_rest_def)

lemma attached_put [simp]: "attached (put_bytes a xs s) n = attached s n" "attached (s\<lparr>nmem := m\<rparr>) n = attached s n"
  "attached (s\<lparr>ip_id := i\<rparr>) n = attached s n"
  by (rule attached_ip_rest, simp)+

lemma sendable_put [simp]: "sendable (put_bytes a xs s) R C q = sendable s R C q" "sendable (s\<lparr>ip_id := i\<rparr>) R C q = sendable s R C q"
  by (simp_all add: sendable_def)

lemma sendable_header:
  assumes "sendable s R C p" "pbuf_add_header (Some p) n (nmem s) = Some (False, m)" "plen m p = plen (nmem s) p + n"
    "lens m (C p) = lens (nmem s) (C p) + n" "lens (nmem s) (C p) + n \<le> PACKET_MAX"
  shows "sendable (s\<lparr>nmem := m\<rparr>) R C p"
proof -
  have "\<not> PBUF_NEEDS_COPY (pbufs m b) \<and> 0 < plen m b" if "b \<in> set (C p)" for b
  proof (cases "b = p")
    case True
    then show ?thesis using assms(1,3) that add_header_fields(1) [OF assms(2), of b] by (auto simp: sendable_def PBUF_NEEDS_COPY_def)
  next
    case False
    then show ?thesis using assms(1) that add_header_others [OF assms(2), of b] by (auto simp: sendable_def)
  qed
  then show ?thesis using assms by (simp add: sendable_def)
qed

text \<open>A packet to send: one holder, and short enough for the interface.\<close>

definition fits :: "netif \<Rightarrow> nat \<Rightarrow> bool" where
  "fits n len \<longleftrightarrow> len \<le> PACKET_MAX \<and> (netif_mtu n = 0 \<or> len \<le> unat (netif_mtu n))"

lemma ip4_output_if_src_ok:
  assumes lo: "link_ok lo I" and ok: "net_ok I s L R C" and n: "attached s n" and p: "sendable s R C p" "R p = 1"
    and l: "fits n (lens (nmem s) (C p) + IP_HLEN)"
  shows "returns (ip4_output_if_src lo p src dest ttl tos proto n s) (\<lambda>(e, s'). net_ok I s' L R C \<and> ip_rest s' = ip_rest s)"
proof -
  have p0: "0 < R p" "queued (arp_table s) p = 0" using p by (simp_all add: sendable_def)
  have r: "pb_ref (the_pbuf s p) = 1"
    using heldD(2) [OF net_okD(4) [OF ok], of p] p0 p(2) word_eq_nat [of "pb_ref (the_pbuf s p)" 1] by simp
  have send: "returns (if netif_mtu n \<noteq> 0 \<and> pb_tot_len (the_pbuf s1 p) > netif_mtu n then ip4_frag lo p n d s1
                 else etharp_output lo n p d s1) (\<lambda>(e, s'). net_ok I s' L R C \<and> ip_rest s' = ip_rest s)"
    if "net_ok I s1 L R C" "sendable s1 R C p" "ip_rest s1 = ip_rest s" "fits n (lens (nmem s1) (C p))" for s1 d
  proof -
    have "\<not> (netif_mtu n \<noteq> 0 \<and> pb_tot_len (the_pbuf s1 p) > netif_mtu n)"
      using that(4) packet_tot(1) [OF that(1) p0(1)] by (auto simp: fits_def word_less_nat_alt)
    moreover have "returns (etharp_output lo n p d s1) (\<lambda>(e, s'). net_ok I s' L R C \<and> rest s' = rest s1)"
      by (rule etharp_output_ok [OF lo that(1) _ that(2)]) (use n attached_ip_rest [OF that(3)] in simp)
    ultimately show ?thesis using that(3) by (auto elim!: returns_mono dest: rest_ip_rest)
  qed
  show ?thesis
  proof (cases dest)
    case None
    have f: "fits n (lens (nmem s) (C p))" using l by (auto simp: fits_def)
    obtain h where h: "pb_payload (the_pbuf s p) = Some h" using net_ok_payload [of I s L R C p, OF ok p0(1)] by blast
    show ?thesis using send [OF ok p(1) refl f] ok None r h by (simp add: ip4_output_if_src_def)
  next
    case (Some d)
    have 20: "IP_HLEN \<le> 0xFFFF" by (simp add: IP_HLEN_def)
    show ?thesis
    proof (rule add_header_net [of I s L R C p, OF ok p0 20])
      assume "in_mem (pbuf_add_header (Some p) IP_HLEN) s = Some (True, s)"
      then show ?thesis using Some r ok by (simp add: ip4_output_if_src_def)
    next
      fix m pl assume m: "pbuf_add_header (Some p) IP_HLEN (nmem s) = Some (False, m)"
        "in_mem (pbuf_add_header (Some p) IP_HLEN) s = Some (False, s\<lparr>nmem := m\<rparr>)" "net_ok I (s\<lparr>nmem := m\<rparr>) L R C"
        "pb_payload (pbufs m p) = Some (ptr_add pl (- int IP_HLEN))" "plen m p = plen (nmem s) p + IP_HLEN"
        "lens m (C p) = lens (nmem s) (C p) + IP_HLEN"
      have sm: "sendable (s\<lparr>nmem := m\<rparr>) R C p" by (rule sendable_header [OF p(1) m(1,5,6)]) (use l in \<open>simp add: fits_def\<close>)
      have len: "\<not> \<not> of_nat IP_HLEN \<le> pb_len (pbufs m p)" using m(5) by (simp add: word_le_nat_alt IP_HLEN_def)
      let ?s = "ip4_write_header (ptr_add pl (- int IP_HLEN)) (pb_tot_len (pbufs m p)) (case src of None \<Rightarrow> IPADDR_ANY | Some src \<Rightarrow> src)
          d ttl tos proto (s\<lparr>nmem := m\<rparr>)"
      have pb: "pbufs (nmem ?s) = pbufs m" by (simp add: ip4_write_header_def Let_def)
      have "returns (if netif_mtu n \<noteq> 0 \<and> pb_tot_len (the_pbuf ?s p) > netif_mtu n then ip4_frag lo p n d ?s
                 else etharp_output lo n p d ?s) (\<lambda>(e, s'). net_ok I s' L R C \<and> ip_rest s' = ip_rest s)"
        by (rule send) (use m(3,6) sm l in \<open>simp_all add: pb, simp_all add: ip4_write_header_def Let_def put_bytes_net\<close>)
      then show ?thesis unfolding ip4_output_if_src_def using r Some m(2,4) len by (simp add: pb split del: if_split)
    qed
  qed
qed

lemma ip4_output_if_ok:
  assumes "link_ok lo I" "net_ok I s L R C" "attached s n" "sendable s R C p" "R p = 1" "fits n (lens (nmem s) (C p) + IP_HLEN)"
  shows "returns (ip4_output_if lo p src dest ttl tos proto n s) (\<lambda>(e, s'). net_ok I s' L R C \<and> ip_rest s' = ip_rest s)"
  unfolding ip4_output_if_def Let_def by (rule ip4_output_if_src_ok [OF assms])

section \<open>New packets\<close>

lemma new_ram_packet:
  assumes ok: "net_ok I s L R C"
  obtains (full) "in_mem (pbuf_alloc layer len PBUF_RAM) s = Some (None, s)"
  | (got) q m where "in_mem (pbuf_alloc layer len PBUF_RAM) s = Some (Some q, s\<lparr>nmem := m\<rparr>)" "R q = 0" "queued (arp_table s) q = 0"
      "net_ok I (s\<lparr>nmem := m\<rparr>) L (R(q := 1)) (C(q := [q]))" "keeps (refs s R) C (nmem s) m" "data_bytes m = data_bytes (nmem s)"
      "fst q = Ram"
      "pbufs m q = \<lparr>pb_next = None, pb_payload = Some (ptr_add q (int (SIZEOF_STRUCT_PBUF + LWIP_MEM_ALIGN_SIZE (layer_num layer)))),
           pb_tot_len = len, pb_len = len, pb_type_internal = 0x80, pb_flags = 0, pb_ref = 1, pb_if_idx = 0\<rparr>"
proof -
  obtain r m where r: "pbuf_alloc layer len PBUF_RAM (nmem s) = Some (r, m)" "data_bytes m = data_bytes (nmem s)"
    "case r of None \<Rightarrow> m = nmem s
     | Some a \<Rightarrow> refs s R a = 0 \<and> held m L ((refs s R)(a := 1)) (C(a := [a])) \<and> keeps (refs s R) C (nmem s) m \<and> fst a = Ram \<and>
         pbufs m a = \<lparr>pb_next = None,
           pb_payload = Some (ptr_add a (int (SIZEOF_STRUCT_PBUF + LWIP_MEM_ALIGN_SIZE (layer_num layer)))),
           pb_tot_len = len, pb_len = len, pb_type_internal = 0x80, pb_flags = 0, pb_ref = 1, pb_if_idx = 0\<rparr>"
    using held_alloc_ram [OF net_okD(4) [OF ok], of layer len] by blast
  show thesis
  proof (cases r)
    case None
    then show thesis using r by (intro full) (simp add: in_mem_def)
  next
    case (Some q)
    have q: "refs s R q = 0" "keeps (refs s R) C (nmem s) m" "fst q = Ram" "pbufs m q = \<lparr>pb_next = None,
           pb_payload = Some (ptr_add q (int (SIZEOF_STRUCT_PBUF + LWIP_MEM_ALIGN_SIZE (layer_num layer)))),
           pb_tot_len = len, pb_len = len, pb_type_internal = 0x80, pb_flags = 0, pb_ref = 1, pb_if_idx = 0\<rparr>"
      using r(3) unfolding Some option.case by (simp_all only: simp_thms)
    have run: "in_mem (pbuf_alloc layer len PBUF_RAM) s = Some (Some q, s\<lparr>nmem := m\<rparr>)" using r(1) Some by (simp add: in_mem_def)
    have "net_ok I (s\<lparr>nmem := m\<rparr>) L (R(q := 1)) (C(q := [q]))" using new_packet_ok [OF ok _ run] by simp
    then show thesis using q r(2) run by (intro got [of q m]) simp_all
  qed
qed

text \<open>The packets that somebody holds keep their pbufs; a new packet may stay behind in the queue of an ARP entry.\<close>

definition same_held :: "(ptr \<Rightarrow> nat) \<Rightarrow> (ptr \<Rightarrow> ptr list) \<Rightarrow> (ptr \<Rightarrow> ptr list) \<Rightarrow> bool" where
  "same_held R C C' \<longleftrightarrow> (\<forall>a. 0 < R a \<longrightarrow> C' a = C a)"

lemma same_held_simps [simp]: "same_held R C C" "R q = 0 \<Longrightarrow> same_held R C (C(q := as))"
  by (auto simp: same_held_def)

lemma free_new:
  assumes ok: "net_ok I s L (R(q := 1)) C" and q: "R q = 0"
  shows "returns (free_pbuf q s) (\<lambda>s'. net_ok I s' L R C \<and> rest s' = rest s)"
proof -
  have R: "(R(q := 1))(q := (R(q := 1)) q - 1) = R" using q by auto
  show ?thesis using free_pbuf_ok [OF ok, of q] unfolding R by (auto elim!: returns_mono)
qed

section \<open>Routing\<close>

definition nets_ok :: "'d net_st \<Rightarrow> bool" where
  "nets_ok s \<longleftrightarrow> (\<forall>n \<in> set (netif_list s). 576 \<le> unat (netif_mtu n))"

lemma route_scan_in: "route_scan d ns = Some n \<Longrightarrow> n \<in> set ns"
  by (induction ns) (auto split: if_splits)

lemma ip4_route_in: "ip4_route d s = Some n \<Longrightarrow> n \<in> set (netif_list s)"
  by (auto simp: ip4_route_def netif_deref_def find_Some_iff in_set_conv_nth split: option.splits if_splits dest: route_scan_in)

lemma in_list_attached:
  assumes "net_ok I s L R C" "n \<in> set (netif_list s)"
  shows "attached s n"
proof -
  have "List.find (\<lambda>m. netif_num m = netif_num n) (netif_list s) \<noteq> None" using assms(2) by (auto simp: find_None_iff)
  then show ?thesis using net_okD(7) [OF assms] by (simp add: attached_def netif_deref_def)
qed

section \<open>Error messages\<close>

text \<open>The packet that has been received: the buffer of the pool.\<close>

definition rx_packet :: "'d net_st \<Rightarrow> (ptr \<Rightarrow> ptr list) \<Rightarrow> ptr \<Rightarrow> bool" where
  "rx_packet s C p \<longleftrightarrow> C p = [p] \<and> p \<in> elems MEMP_PBUF_POOL \<and> pb_type_internal (the_pbuf s p) = 0x82"

lemma rx_packet_area:
  assumes "net_ok I s L R C" "0 < R p" "rx_packet s C p" "pb_payload (the_pbuf s p) = Some pl"
  shows "fst p = Pool MEMP_PBUF_POOL" "fst pl = Pool MEMP_PBUF_POOL"
proof -
  show p: "fst p = Pool MEMP_PBUF_POOL" using assms(3) elems_area [of p MEMP_PBUF_POOL] by (simp add: rx_packet_def)
  have "home (the_pbuf s p) p" using packet_cases [of "nmem s" L "refs s R" C p, OF net_okD(4) [OF assms(1)]] assms(2) by (metis add_gr_0)
  then show "fst pl = Pool MEMP_PBUF_POOL" using assms(3,4) p by (simp add: home_def rx_packet_def PBUF_TYPE_FLAG_STRUCT_DATA_CONTIGUOUS_def)
qed

lemma icmp_send_response_ok:
  assumes lo: "link_ok lo I" and ok: "net_ok I s L R C" and nets: "nets_ok s" and p: "0 < R p" "rx_packet s C p" "0 < plen (nmem s) p"
  shows "returns (icmp_send_response lo p ty code s) (\<lambda>s'. \<exists>C'. net_ok I s' L R C' \<and> same_held R C C' \<and> ip_rest s' = ip_rest s)"
proof -
  have tot: "unat (pb_tot_len (the_pbuf s p)) = plen (nmem s) p" using packet_tot(1) [OF ok p(1)] p(2) by (simp add: rx_packet_def)
  define k where "k = (if pb_tot_len (the_pbuf s p) < 28 then pb_tot_len (the_pbuf s p) else 28)"
  have k: "0 < unat k" "unat k \<le> 28" "unat k \<le> plen (nmem s) p" "unat (8 + k) = 8 + unat k"
    using p(3) tot by (auto simp: k_def word_less_nat_alt unat_word_ariths)
  have run: "icmp_send_response lo p ty code s =
      do { (q, s) \<leftarrow> in_mem (pbuf_alloc PBUF_IP (8 + k) PBUF_RAM) s;
           case q of None \<Rightarrow> Some s | Some q \<Rightarrow> icmp_fill_response lo p q k ty code s }"
    unfolding icmp_send_response_def k_def by (simp add: IP_HLEN_def ICMP_DEST_UNREACH_DATASIZE_def SIZEOF_ICMP_HDR_def Let_def)
  show ?thesis
  proof (cases rule: new_ram_packet [OF ok, of PBUF_IP "8 + k"])
    case 1
    then show ?thesis unfolding run using ok by auto
  next
    case g: (2 q m)
    let ?R = "R(q := 1)" and ?C = "C(q := [q])"
    have pq: "p \<noteq> q" using p(1) g(2) by auto
    have pm: "pbufs m p = the_pbuf s p \<or> like (the_pbuf s p) (pbufs m p)"
      using g(5) p(1,2) in_blocks [of "refs s R" p p C] by (auto simp: keeps_def rx_packet_def)
    then have pm: "like (the_pbuf s p) (pbufs m p)" by auto
    obtain pl where pl: "pb_payload (the_pbuf s p) = Some pl" using net_ok_payload [of I s L R C p, OF ok p(1)] by blast
    obtain hq where hq: "pb_payload (pbufs m q) = Some hq" "fst hq = Ram" using g(7,8) by simp
    define s1 where "s1 = put32 (icmph_data hq) 0 (put_bytes (icmph_code hq) [code] (put_bytes (icmph_type hq) [ty] (s\<lparr>nmem := m\<rparr>)))"
    have pb1: "pbufs (nmem s1) = pbufs m" by (simp add: s1_def)
    have ok1: "net_ok I s1 L ?R ?C" using g(4) by (simp add: s1_def put_bytes_net)
    have ch: "chain (nmem s1) (Some q) [q]" "chain (nmem s1) (Some p) [p]"
      using heldD(1) [OF net_okD(4) [OF ok1], of q] heldD(1) [OF net_okD(4) [OF ok1], of p] p(1,2) pq
      by (auto simp: packet_def rx_packet_def)
    have areas: "fst (the (pb_payload (pbufs m p))) = Pool MEMP_PBUF_POOL" "fst (the (pb_payload (pbufs m q))) = Ram"
      using rx_packet_area(2) [OF ok p(1,2) pl] pl pm hq by (simp_all add: like_def)
    have "\<forall>a \<in> set [q] \<union> set [p]. plen (nmem s1) a > 0" using p(3) pm g(8) k by (simp add: pb1 like_def)
    moreover have "unat (of_nat SIZEOF_ICMP_HDR :: u16) < plen (nmem s1) q" using g(8) k by (simp add: pb1 SIZEOF_ICMP_HDR_def)
    moreover have "separate (nmem s1) [q]" by simp
    moreover have "payloads (nmem s1) [q] \<inter> payloads (nmem s1) [p] = {}" using areas by (auto simp: payloads_def pb1 bytes_at_def)
    ultimately obtain m2 where m2: "pbuf_copy_partial_pbuf (Some q) (Some p) k (of_nat SIZEOF_ICMP_HDR) (nmem s1) = Some (ERR_OK, m2)"
      "m2 = (nmem s1)\<lparr>data_bytes := data_bytes m2\<rparr>"
      using pbuf_copy_partial_pbuf_ok [OF ch, of "of_nat SIZEOF_ICMP_HDR" k] k g(8) pm by (auto simp: pb1 like_def SIZEOF_ICMP_HDR_def)
    define s2 where "s2 = s1\<lparr>nmem := m2\<rparr>"
    have copy: "in_mem (pbuf_copy_partial_pbuf (Some q) (Some p) k (of_nat SIZEOF_ICMP_HDR)) s1 = Some (ERR_OK, s2)"
      by (simp add: in_mem_def m2(1) s2_def)
    have s2: "s2 = s1\<lparr>nmem := (nmem s1)\<lparr>data_bytes := data_bytes m2\<rparr>\<rparr>" unfolding s2_def using m2(2) by (rule arg_cong)
    have ok2: "net_ok I s2 L ?R ?C" unfolding s2 using ok1 by (simp add: data_net)
    have pb2: "pbufs (nmem s2) = pbufs m" by (simp add: s2 pb1)
    have r2: "ip_rest s2 = ip_rest s" by (simp add: s2 s1_def)
    define src where "src = get32 (iph_src pl) s2"
    have sent: "returns (case ip4_route src s2 of None \<Rightarrow> Some s2
         | Some netif \<Rightarrow>
             let s = put16 (icmph_chksum hq) 0 s2;
                 s = put16 (icmph_chksum hq) (chksum_at hq (unat (pb_len (the_pbuf s q))) s) s
             in do { (_, s) \<leftarrow> ip4_output_if lo q None (Some src) ICMP_TTL 0 IP_PROTO_ICMP netif s; Some s })
       (\<lambda>s'. net_ok I s' L ?R ?C \<and> ip_rest s' = ip_rest s)"
    proof (cases "ip4_route src s2")
      case None
      then show ?thesis using ok2 r2 by simp
    next
      case (Some n)
      define c where "c = chksum_at hq (unat (pb_len (the_pbuf (put16 (icmph_chksum hq) 0 s2) q))) (put16 (icmph_chksum hq) 0 s2)"
      define s3 where "s3 = put16 (icmph_chksum hq) c (put16 (icmph_chksum hq) 0 s2)"
      have ok3: "net_ok I s3 L ?R ?C" using ok2 by (simp add: s3_def put_bytes_net)
      have r3: "ip_rest s3 = ip_rest s" using r2 by (simp add: s3_def)
      have pb3: "pbufs (nmem s3) = pbufs m" by (simp add: s3_def pb2)
      have q0: "queued (arp_table s3) q = 0" using g(3) by (simp add: s3_def s2 s1_def)
      have n: "n \<in> set (netif_list s)" using ip4_route_in [OF Some] r2 by (simp add: ip_rest_def)
      then have att: "attached s3 n" using in_list_attached [OF ok3] r3 by (simp add: ip_rest_def)
      have len: "lens (nmem s3) [q] = 8 + unat k" using g(8) k by (simp add: pb3)
      have snd: "sendable s3 ?R ?C q" using q0 len k g(8) by (simp add: sendable_def pb3 PACKET_MAX_def PBUF_NEEDS_COPY_def PBUF_TYPE_FLAG_DATA_VOLATILE_def)
      have "fits n (lens (nmem s3) (?C q) + IP_HLEN)" using nets n len k by (auto simp: fits_def nets_ok_def PACKET_MAX_def IP_HLEN_def)
      then have "returns (ip4_output_if lo q None (Some src) ICMP_TTL 0 IP_PROTO_ICMP n s3)
          (\<lambda>(e, s'). net_ok I s' L ?R ?C \<and> ip_rest s' = ip_rest s3)"
        by (intro ip4_output_if_ok [OF lo ok3 att snd]) simp
      then have "returns (do { (_, s) \<leftarrow> ip4_output_if lo q None (Some src) ICMP_TTL 0 IP_PROTO_ICMP n s3; Some s })
          (\<lambda>s'. net_ok I s' L ?R ?C \<and> ip_rest s' = ip_rest s)" using r3 by (auto simp: returns_def)
      then show ?thesis unfolding Some option.case Let_def s3_def c_def .
    qed
    then obtain s4 where s4: "(case ip4_route src s2 of None \<Rightarrow> Some s2
         | Some netif \<Rightarrow>
             let s = put16 (icmph_chksum hq) 0 s2;
                 s = put16 (icmph_chksum hq) (chksum_at hq (unat (pb_len (the_pbuf s q))) s) s
             in do { (_, s) \<leftarrow> ip4_output_if lo q None (Some src) ICMP_TTL 0 IP_PROTO_ICMP netif s; Some s }) = Some s4"
      "net_ok I s4 L ?R ?C" "ip_rest s4 = ip_rest s" by (auto simp: returns_def)
    have "returns (free_pbuf q s4) (\<lambda>s'. \<exists>C'. net_ok I s' L R C' \<and> same_held R C C' \<and> ip_rest s' = ip_rest s)"
      using free_new [OF s4(2) g(2)] s4(3) g(2) by (elim returns_mono) (auto dest: rest_ip_rest intro!: exI [of _ ?C])
    moreover have "\<not> \<not> SIZEOF_ICMP_HDR + unat k \<le> unat (pb_len (pbufs m q))" using g(8) k by (simp add: SIZEOF_ICMP_HDR_def)
    moreover have "pb_payload (pbufs m p) = Some pl" using pm pl by (simp add: like_def)
    ultimately show ?thesis unfolding run icmp_fill_response_def
      using g(1) hq(1) copy [unfolded s1_def] s4(1) [unfolded src_def] by (simp split del: if_split)
  qed
qed

end
