(* ===== verification/Lwip_Icmp_Safe.thy ===== *)
theory Lwip_Icmp_Safe
  imports Lwip_Ip4_Safe
begin

unbundle bit_operations_syntax

text \<open>
  ICMP and IPv4 input are safe: whatever the packet, no assertion fails, the packet that is handed on is given back exactly
  once, and what ARP and memory rely on is kept.
\<close>

declare split_paired_All [simp del] split_paired_Ex [simp del]

section \<open>Echo\<close>

text \<open>Room for the link header: the packet, or a copy of it.\<close>

definition roomy :: "('d \<Rightarrow> bool) \<Rightarrow> 'd net_st \<Rightarrow> ptr set \<Rightarrow> (ptr \<Rightarrow> nat) \<Rightarrow> (ptr \<Rightarrow> ptr list) \<Rightarrow> ptr \<Rightarrow> ptr option \<Rightarrow> 'd net_st \<Rightarrow> bool" where
  "roomy I s L R C p r s' \<longleftrightarrow>
     (\<exists>C'. ip_rest s' = ip_rest s \<and> same_held (R(p := 0)) C C' \<and>
        (case r of
           None \<Rightarrow> net_ok I s' L R C' \<and> C' p = C p
         | Some q \<Rightarrow>
             net_ok I s' L (R(p := 0, q := 1)) C' \<and> C' q = [q] \<and> queued (arp_table s') q = 0 \<and> (R(p := 0)) q = 0 \<and>
             plen (nmem s') q = plen (nmem s) p \<and> \<not> PBUF_NEEDS_COPY (the_pbuf s' q)))"

lemma icmp_make_room_ok:
  assumes ok: "net_ok I s L R C" and p: "R p = 1" "rx_packet s C p" "queued (arp_table s) p = 0" "8 \<le> plen (nmem s) p" 
    and l: "unat hlen \<le> 60" "plen (nmem s) p < 60000"
  shows "returns (icmp_make_room p h hlen s) (\<lambda>(r, s'). roomy I s L R C p r s')"
proof -
  have p0: "0 < R p" using p by simp
  have Rp: "R(p := 0, p := 1) = R" using p(1) by auto
  have Cp: "C p = [p]" using p(2) by (simp add: rx_packet_def)
  have n: "unat hlen + PBUF_LINK_HLEN \<le> 0xFFFF" using l by (simp add: PBUF_LINK_HLEN_def)
  show ?thesis
  proof (rule add_header_net [of I s L R C p, OF ok p0 p(3) n])
    fix m pl assume m: "pbuf_add_header (Some p) (unat hlen + PBUF_LINK_HLEN) (nmem s) = Some (False, m)"
      "in_mem (pbuf_add_header (Some p) (unat hlen + PBUF_LINK_HLEN)) s = Some (False, s\<lparr>nmem := m\<rparr>)" "net_ok I (s\<lparr>nmem := m\<rparr>) L R C"
      "plen m p = plen (nmem s) p + (unat hlen + PBUF_LINK_HLEN)"
    show ?thesis
    proof (rule remove_header_net [of I "s\<lparr>nmem := m\<rparr>" L R C p "unat hlen + PBUF_LINK_HLEN", OF m(3) p0])
      show "queued (arp_table (s\<lparr>nmem := m\<rparr>)) p = 0" "unat hlen + PBUF_LINK_HLEN \<le> plen (nmem (s\<lparr>nmem := m\<rparr>)) p"
        using p(3) m(4) by simp_all
      fix m' pl' assume m': "pbuf_remove_header (Some p) (unat hlen + PBUF_LINK_HLEN) (nmem (s\<lparr>nmem := m\<rparr>)) = Some (False, m')"
        "in_mem (pbuf_remove_header (Some p) (unat hlen + PBUF_LINK_HLEN)) (s\<lparr>nmem := m\<rparr>) = Some (False, s\<lparr>nmem := m, nmem := m'\<rparr>)"
        "net_ok I (s\<lparr>nmem := m, nmem := m'\<rparr>) L R C" "plen m' p = plen (nmem (s\<lparr>nmem := m\<rparr>)) p - (unat hlen + PBUF_LINK_HLEN)"
      have ty: "pb_type_internal (pbufs m' p) = 0x82"
        using remove_header_fields(1) [OF m'(1), of p] add_header_fields(1) [OF m(1), of p] p(2) by (simp add: rx_packet_def)
      have "roomy I s L R C p (Some p) (s\<lparr>nmem := m, nmem := m'\<rparr>)"
        unfolding roomy_def option.case Rp
        by (intro exI [of _ C] conjI) (use m'(3,4) m(4) p(3) ty Cp in
           \<open>simp_all add: PBUF_NEEDS_COPY_def PBUF_TYPE_FLAG_DATA_VOLATILE_def\<close>)
      then show ?thesis using m(2) m'(2) by (simp add: icmp_make_room_def)
    qed
  next
    assume f: "in_mem (pbuf_add_header (Some p) (unat hlen + PBUF_LINK_HLEN)) s = Some (True, s)"
    have tot: "unat (pb_tot_len (the_pbuf s p)) = plen (nmem s) p" using packet_tot(1) [OF ok p0] Cp by simp
    define al where "al = pb_tot_len (the_pbuf s p) + hlen"
    have al: "unat al = plen (nmem s) p + unat hlen" using tot l by (simp add: al_def unat_word_ariths)
    have nov: "\<not> al < pb_tot_len (the_pbuf s p)" using al tot by (simp add: word_less_nat_alt)
    have none: "roomy I s L R C p None s'" if "net_ok I s' L R C" "ip_rest s' = ip_rest s" for s'
      using that by (auto simp: roomy_def intro!: exI [of _ C])
    show ?thesis
    proof (cases rule: new_ram_packet [OF ok, of PBUF_LINK al])
      case 1
      then show ?thesis using f nov none [OF ok] by (simp add: icmp_make_room_def Let_def al_def)
    next
      case g: (2 q m)
      let ?R = "R(q := 1)" and ?C = "C(q := [q])"
      have pq: "p \<noteq> q" using p(1) g(2) by auto
      obtain rp where rp: "pb_payload (pbufs m q) = Some rp" "fst rp = Ram" using g(7,8) by simp
      define s1 where "s1 = put_bytes rp (get_bytes h (unat hlen) (s\<lparr>nmem := m\<rparr>)) (s\<lparr>nmem := m\<rparr>)"
      have pb1: "pbufs (nmem s1) = pbufs m" by (simp add: s1_def)
      have ok1: "net_ok I s1 L ?R ?C" using g(4) by (simp add: s1_def put_bytes_net)
      have q1: "queued (arp_table s1) q = 0" "unat hlen \<le> plen (nmem s1) q" using g(3,8) al by (simp_all add: s1_def)
      have Rq: "0 < ?R q" by simp
      show ?thesis
      proof (rule remove_header_net [of I s1 L ?R ?C q, OF ok1 Rq q1])
        fix m2 pl2 assume m2: "pbuf_remove_header (Some q) (unat hlen) (nmem s1) = Some (False, m2)"
          "in_mem (pbuf_remove_header (Some q) (unat hlen)) s1 = Some (False, s1\<lparr>nmem := m2\<rparr>)"
          "net_ok I (s1\<lparr>nmem := m2\<rparr>) L ?R ?C" "pb_payload (the_pbuf s1 q) = Some pl2"
          "pb_payload (pbufs m2 q) = Some (ptr_add pl2 (int (unat hlen)))" "plen m2 q = plen (nmem s1) q - unat hlen"
        define s2 where "s2 = s1\<lparr>nmem := m2\<rparr>"
        have pm: "like (the_pbuf s p) (pbufs m p)"
          using g(5) p0 Cp in_blocks [of "refs s R" p p C] by (auto simp: keeps_def)
        have m2p: "pbufs m2 p = pbufs m p" using remove_header_fields(9) [OF m2(1) pq] by (simp add: pb1)
        have ty: "pb_type_internal (pbufs m2 q) = 0x80" using remove_header_fields(1) [OF m2(1), of q] g(8) by (simp add: pb1)
        have lens: "plen m2 q = plen (nmem s) p" "plen m2 p = plen (nmem s) p"
          using m2(6) g(8) al pm by (simp_all add: pb1 m2p like_def)
        have ok2: "net_ok I s2 L ?R ?C" using m2(3) by (simp add: s2_def)
        have ch: "chain (nmem s2) (Some q) [q]" "chain (nmem s2) (Some p) [p]"
          using heldD(1) [OF net_okD(4) [OF ok2], of q] heldD(1) [OF net_okD(4) [OF ok2], of p] p0 Cp pq
          by (auto simp: packet_def)
        have areas: "fst (the (pb_payload (pbufs m2 p))) = Pool MEMP_PBUF_POOL" "fst (the (pb_payload (pbufs m2 q))) = Ram"
        proof -
          obtain pl where pl: "pb_payload (the_pbuf s p) = Some pl" using net_ok_payload [of I s L R C p, OF ok p0] by blast
          show "fst (the (pb_payload (pbufs m2 p))) = Pool MEMP_PBUF_POOL"
            using rx_packet_area(2) [OF ok p0 p(2) pl] pl pm by (simp add: m2p like_def)
          show "fst (the (pb_payload (pbufs m2 q))) = Ram" using m2(4,5) rp by (simp add: pb1)
        qed
        have tp: "unat (pb_tot_len (pbufs m2 p)) = plen (nmem s) p" using pm tot by (simp add: m2p like_def)
        have pos: "\<forall>a \<in> set [q] \<union> set [p]. plen (nmem s2) a > 0" using lens p(4) by (simp add: s2_def)
        have off: "unat (0 :: u16) < plen (nmem s2) q" using lens p(4) by (simp add: s2_def)
        have sep: "separate (nmem s2) [q]" "payloads (nmem s2) [q] \<inter> payloads (nmem s2) [p] = {}"
          using areas by (auto simp: payloads_def bytes_at_def s2_def)
        have fitting: "unat (pb_tot_len (pbufs m2 p)) \<le> lens (nmem s2) [p] \<and> unat (0 :: u16) + unat (pb_tot_len (pbufs m2 p)) \<le> lens (nmem s2) [q]"
          using tp lens by (simp add: s2_def)
        obtain m3 where m3: "pbuf_copy_partial_pbuf (Some q) (Some p) (pb_tot_len (pbufs m2 p)) 0 (nmem s2) = Some (ERR_OK, m3)"
          "m3 = (nmem s2)\<lparr>data_bytes := data_bytes m3\<rparr>"
          using pbuf_copy_partial_pbuf_ok [OF ch pos off sep, of "pb_tot_len (pbufs m2 p)"] unfolding if_P [OF fitting]
          by (elim exE conjE) (rule that)
        define s3 where "s3 = s2\<lparr>nmem := m3\<rparr>"
        have s3: "s3 = s2\<lparr>nmem := (nmem s2)\<lparr>data_bytes := data_bytes m3\<rparr>\<rparr>" unfolding s3_def using m3(2) by (rule arg_cong)
        have ok3: "net_ok I s3 L ?R ?C" unfolding s3 using ok2 by (simp add: data_net)
        have copy: "in_mem (pbuf_copy (Some q) (Some p)) s2 = Some (ERR_OK, s3)"
          using m3(1) by (simp add: in_mem_def pbuf_copy_def s3_def s2_def)
        have Rq': "?R(p := ?R p - 1) = R(p := 0, q := 1)" using p(1) pq by auto
        have "returns (free_pbuf p s3) (\<lambda>s'. roomy I s L R C p (Some q) s')"
        proof (rule returns_mono [OF free_pbuf_ok [OF ok3, of p, unfolded Rq']])
          fix s' assume s': "net_ok I s' L (R(p := 0, q := 1)) ?C \<and> rest s' = rest s3 \<and> arp_table s' = arp_table s3 \<and>
            etharp_cached_entry s' = etharp_cached_entry s3 \<and> device s' = device s3 \<and>
            keeps (refs s3 (R(p := 0, q := 1))) ?C (nmem s3) (nmem s') \<and> data_bytes (nmem s') = data_bytes (nmem s3)"
          then have "like (the_pbuf s3 q) (the_pbuf s' q)" using in_blocks [of "refs s3 (R(p := 0, q := 1))" q q ?C] by (auto simp: keeps_def)
          then have "plen (nmem s') q = plen (nmem s) p" "\<not> PBUF_NEEDS_COPY (the_pbuf s' q)" "queued (arp_table s') q = 0"
            using s' lens ty q1(1)
            by (simp_all add: like_def s3 s2_def PBUF_NEEDS_COPY_def PBUF_TYPE_FLAG_DATA_VOLATILE_def)
          moreover have "ip_rest s' = ip_rest s" using rest_ip_rest [of s' s3] s' by (simp add: s3 s2_def s1_def)
          ultimately show "roomy I s L R C p (Some q) s'"
            unfolding roomy_def option.case
            by (intro exI [of _ ?C]) (use s' g(2) pq in \<open>auto simp: same_held_def\<close>)
        qed (use p0 pq in simp)
        then have free: "returns (do { s \<leftarrow> free_pbuf p s3; Some (Some q, s) }) (\<lambda>(r, s'). roomy I s L R C p r s')" by simp
        have "\<not> unat (pb_len (the_pbuf (s\<lparr>nmem := m\<rparr>) q)) < unat hlen + SIZEOF_ICMP_HDR"
          using g(8) al p(4) by (simp add: SIZEOF_ICMP_HDR_def)
        then show ?thesis using f nov g(1) rp(1) m2(2) [unfolded s1_def] copy [unfolded s2_def s1_def] free
          by (simp add: icmp_make_room_def Let_def al_def)
      qed
    qed
  qed
qed

text \<open>A change of the flags or of the interface index of a packet.\<close>

lemma upd_flags_net:
  assumes ok: "net_ok I s L R C" and p: "0 < R p" "queued (arp_table s) p = 0"
    and f: "\<And>b. pb_next (f b) = pb_next b" "\<And>b. pb_payload (f b) = pb_payload b" "\<And>b. pb_tot_len (f b) = pb_tot_len b"
      "\<And>b. pb_len (f b) = pb_len b" "\<And>b. pb_type_internal (f b) = pb_type_internal b" "\<And>b. pb_ref (f b) = pb_ref b"
      "\<And>b. pb_flags (f b) AND PBUF_FLAG_IS_CUSTOM = pb_flags b AND PBUF_FLAG_IS_CUSTOM"
  shows "net_ok I (s\<lparr>nmem := upd_pbuf p f (nmem s)\<rparr>) L R C"
proof -
  have pos: "0 < refs s R p" using p by simp
  obtain as pl where as: "C p = p # as" "chain (nmem s) (Some p) (p # as)" "pb_payload (the_pbuf s p) = Some pl"
    "unat (pb_tot_len (the_pbuf s p)) = plen (nmem s) p + lens (nmem s) as" "owned (the_pbuf s p) p" "home (the_pbuf s p) p"
    using packet_cases [of "nmem s" L "refs s R" C p, OF net_okD(4) [OF ok] pos] by blast
  have "chain (upd_pbuf p f (nmem s)) (Some p) (C p)"
    unfolding as(1) by (rule chain_head_upd(1) [OF as(2)]) (use f as(3,4) in simp_all)
  moreover have "owned (f (the_pbuf s p)) p" "home (f (the_pbuf s p)) p"
    using as(5,6) f by (simp_all add: owned_def home_def pbuf_get_allocsrc_def)
  ultimately show ?thesis
    using held_head [of "nmem s" L "refs s R" C p f, OF net_okD(4) [OF ok] pos f(6)] net_ok_nmem [OF ok _ _ p(2)] by blast
qed

lemma icmp_reply_ok:
  assumes lo: "link_ok lo I" and ok: "net_ok I s L R C" and n: "attached s inp" "576 \<le> unat (netif_mtu inp)"
    and p: "R p = 1" "C p = [p]" "queued (arp_table s) p = 0" "8 \<le> plen (nmem s) p" "\<not> PBUF_NEEDS_COPY (the_pbuf s p)"
    and l: "20 \<le> unat hlen" "unat hlen \<le> 60" "plen (nmem s) p \<le> 256"
  shows "returns (icmp_reply lo p hlen src inp s) (\<lambda>s'. net_ok I s' L R C \<and> ip_rest s' = ip_rest s)"
proof -
  have p0: "0 < R p" using p(1) by simp
  obtain iecho where iecho: "pb_payload (the_pbuf s p) = Some iecho" using net_ok_payload [of I s L R C p, OF ok p0] by blast
  have hl: "unat hlen \<le> 0xFFFF" using l by simp
  show ?thesis
  proof (rule add_header_net [of I s L R C p, OF ok p0 p(3) hl])
    assume "in_mem (pbuf_add_header (Some p) (unat hlen)) s = Some (True, s)"
    then show ?thesis using ok iecho by (simp add: icmp_reply_def)
  next
    fix m pl assume m: "pbuf_add_header (Some p) (unat hlen) (nmem s) = Some (False, m)"
      "in_mem (pbuf_add_header (Some p) (unat hlen)) s = Some (False, s\<lparr>nmem := m\<rparr>)" "net_ok I (s\<lparr>nmem := m\<rparr>) L R C"
      "pb_payload (the_pbuf s p) = Some pl" "pb_payload (pbufs m p) = Some (ptr_add pl (- int (unat hlen)))"
      "plen m p = plen (nmem s) p + unat hlen"
    define h where "h = ptr_add pl (- int (unat hlen))"
    let ?f = "\<lambda>b. b\<lparr>pb_if_idx := NETIF_NO_INDEX\<rparr>"
    define s1 where "s1 = put_bytes (icmph_type iecho) [ICMP_ER] (put32 (iph_dest h) (current_iphdr_src (ip_data s))
      (put32 (iph_src h) src (s\<lparr>nmem := m\<rparr>)))"
    have ok1: "net_ok I s1 L R C" using m(3) by (simp add: s1_def put_bytes_net)
    define s2 where "s2 = s1\<lparr>nmem := upd_pbuf p ?f (nmem s1)\<rparr>"
    have ok2: "net_ok I s2 L R C" unfolding s2_def by (rule upd_flags_net [of I s1 L R C p, OF ok1 p0]) (use p(3) in \<open>simp_all add: s1_def\<close>)
    define s3 where "s3 = put16 (iph_chksum h) 0 (put_bytes (iph_ttl h) [ICMP_TTL]
       (put16 (icmph_chksum iecho) (icmp_adjust_chksum (get16 (icmph_chksum iecho) s2)) s2))"
    define s4 where "s4 = put16 (iph_chksum h) (chksum_at h (unat hlen) s3) s3"
    have ok4: "net_ok I s4 L R C" using ok2 by (simp add: s4_def s3_def put_bytes_net)
    have r4: "ip_rest s4 = ip_rest s" by (simp add: s4_def s3_def s2_def s1_def)
    have pb4: "pbufs (nmem s4) p = ?f (pbufs m p)" by (simp add: s4_def s3_def s2_def s1_def upd_pbuf_def)
    have ty: "\<not> PBUF_NEEDS_COPY (pbufs m p)" using p(5) add_header_fields(1) [OF m(1), of p] by (simp add: PBUF_NEEDS_COPY_def)
    have q0: "queued (arp_table s4) p = 0" using p(3) by (simp add: s4_def s3_def s2_def s1_def)
    have snd: "sendable s4 R C p"
      using p l m(6) q0 ty by (simp add: sendable_def pb4 PACKET_MAX_def PBUF_NEEDS_COPY_def)
    have fit: "fits inp (lens (nmem s4) (C p) + IP_HLEN)" using n(2) p(2) l m(6) by (simp add: fits_def pb4 PACKET_MAX_def IP_HLEN_def)
    have att: "attached s4 inp" using n(1) attached_ip_rest [OF r4] by simp
    have "returns (ip4_output_if lo p (Some src) None ICMP_TTL 0 IP_PROTO_ICMP inp s4) (\<lambda>(e, s'). net_ok I s' L R C \<and> ip_rest s' = ip_rest s4)"
      by (rule ip4_output_if_ok [OF lo ok4 att snd p(1) fit])
    then have "returns (do { (_, s) \<leftarrow> ip4_output_if lo p (Some src) None ICMP_TTL 0 IP_PROTO_ICMP inp s4; Some s })
        (\<lambda>s'. net_ok I s' L R C \<and> ip_rest s' = ip_rest s)" using r4 by (auto simp: returns_def)
    moreover have "icmp_reply lo p hlen src inp s = do { (_, s) \<leftarrow> ip4_output_if lo p (Some src) None ICMP_TTL 0 IP_PROTO_ICMP inp s4; Some s }"
      unfolding icmp_reply_def using iecho m(2,5) by (simp add: s4_def s3_def s2_def s1_def h_def on_mem_def Let_def)
    ultimately show ?thesis by simp
  qed
qed

lemma chain_segs_chain:
  "chain st p as \<Longrightarrow> chain_segs p st =
     Some (map (\<lambda>a. (nat (snd (the (pb_payload (pbufs st a)))), chunk st a)) as)"
proof (induction as arbitrary: p)
  case Nil
  then have "p = None" by (cases p) (auto simp: chain_Some)
  then show ?case by (subst chain_segs.simps) simp
next
  case (Cons a as)
  then have p: "p = Some a" by (cases p) (auto simp: chain_Some)
  then have "chain st (pb_next (pbufs st a)) as" "pb_payload (pbufs st a) \<noteq> None" using Cons.prems by (auto simp: chain_Some)
  then show ?case using Cons.IH by (subst chain_segs.simps) (auto simp: p chunk_def)
qed

lemma unat_ucast8 [simp]: "unat (ucast (w :: u8) :: u16) = unat w"
proof -
  have "unat w < 2 ^ LENGTH(8)" by (rule unsigned_less)
  then show ?thesis by (simp add: unsigned_ucast_eq take_bit_eq_mod)
qed

lemma IPH_HL_BYTES_bound: "unat (IPH_HL_BYTES h s) \<le> 60"
proof -
  have "unat (get8 (iph_v_hl h) s AND 0x0f) \<le> 15" using word_and_le1 [of "get8 (iph_v_hl h) s" 15] by (simp add: word_le_nat_alt)
  then show ?thesis by (simp add: IPH_HL_BYTES_def IPH_HL_def unat_word_ariths)
qed

definition given_back :: "('d \<Rightarrow> bool) \<Rightarrow> 'd net_st \<Rightarrow> ptr set \<Rightarrow> (ptr \<Rightarrow> nat) \<Rightarrow> (ptr \<Rightarrow> ptr list) \<Rightarrow> 'd net_st \<Rightarrow> bool" where
  "given_back I s L R C s' \<longleftrightarrow> (\<exists>C'. net_ok I s' L R C' \<and> same_held R C C' \<and> ip_rest s' = ip_rest s)"

lemma free_given_back:
  assumes "net_ok I s L R C" "R p = 1"
  shows "returns (free_pbuf p s) (given_back I s L (R(p := 0)) C)"
proof -
  have p0: "0 < R p" using assms(2) by simp
  have R: "R(p := R p - 1) = R(p := 0)" using assms(2) by simp
  show ?thesis using free_pbuf_ok [of I s L R C p, OF assms(1) p0] unfolding R
    by (elim returns_mono) (auto simp: given_back_def dest: rest_ip_rest intro!: exI [of _ C])
qed

lemma icmp_input_ok:
  assumes lo: "link_ok lo I" and ok: "net_ok I s L R C" and n: "attached s inp" "576 \<le> unat (netif_mtu inp)"
    and p: "R p = 1" "rx_packet s C p" "queued (arp_table s) p = 0" and l: "plen (nmem s) p \<le> 256"
    and h: "current_ip4_header (ip_data s) = Some h" and cn: "netif_deref (current_netif (ip_data s)) s = Some cn"
  shows "returns (icmp_input lo p inp s) (given_back I s L (R(p := 0)) C)"
proof -
  have p0: "0 < R p" and Cp: "C p = [p]" using p by (simp_all add: rx_packet_def)
  note drop = free_given_back [OF ok p(1)]
  obtain ih where ih: "pb_payload (the_pbuf s p) = Some ih" using net_ok_payload [of I s L R C p, OF ok p0] by blast
  define hlen where "hlen = (ucast (IPH_HL_BYTES h s) :: u16)"
  have hl: "unat hlen \<le> 60" using IPH_HL_BYTES_bound [of h s] by (simp add: hlen_def)
  have tot: "unat (pb_tot_len (the_pbuf s p)) = plen (nmem s) p" using packet_tot(1) [OF ok p0] Cp by simp
  obtain segs where segs: "chain_segs (Some p) (nmem s) = Some segs"
    using heldD(1) [OF net_okD(4) [OF ok], of p] p0 chain_segs_chain by (auto simp: packet_def)
  have reply: "returns (do { (r, s) \<leftarrow> icmp_make_room p h hlen s;
      case r of None \<Rightarrow> free_pbuf p s | Some p \<Rightarrow> do { s \<leftarrow> icmp_reply lo p hlen src inp s; free_pbuf p s } })
      (given_back I s L (R(p := 0)) C)" if that20: "20 \<le> unat hlen" and that8: "8 \<le> plen (nmem s) p" for src
  proof -
    have "plen (nmem s) p < 60000" using l by simp
    then obtain r s1 where r: "icmp_make_room p h hlen s = Some (r, s1)" "roomy I s L R C p r s1"
      using icmp_make_room_ok [OF ok p that8 hl, of h] by (auto elim: returns_pair)
    then obtain C1 where C1: "ip_rest s1 = ip_rest s" "same_held (R(p := 0)) C C1" by (auto simp: roomy_def)
    show ?thesis
    proof (cases r)
      case None
      then obtain C1 where C1: "ip_rest s1 = ip_rest s" "same_held (R(p := 0)) C C1" "net_ok I s1 L R C1"
        using r(2) by (auto simp: roomy_def)
      have "returns (free_pbuf p s1) (given_back I s L (R(p := 0)) C)"
        using free_given_back [OF C1(3) p(1)] by (elim returns_mono) (use C1(1,2) in \<open>auto simp: given_back_def same_held_def\<close>)
      then show ?thesis using r(1) None by simp
    next
      case (Some q)
      let ?R = "R(p := 0, q := 1)"
      obtain C1 where C1: "ip_rest s1 = ip_rest s" "same_held (R(p := 0)) C C1" "net_ok I s1 L ?R C1" "C1 q = [q]"
        "queued (arp_table s1) q = 0" "(R(p := 0)) q = 0" "plen (nmem s1) q = plen (nmem s) p" "\<not> PBUF_NEEDS_COPY (the_pbuf s1 q)"
        using r(2) unfolding Some roomy_def option.case by (elim exE conjE) (rule that)
      have q1: "?R q = 1" by simp
      have att: "attached s1 inp" using n(1) attached_ip_rest [OF C1(1)] by simp
      have pl: "8 \<le> plen (nmem s1) q" "plen (nmem s1) q \<le> 256" using that8 C1(7) l by simp_all
      obtain s2 where s2: "icmp_reply lo q hlen src inp s1 = Some s2" "net_ok I s2 L ?R C1" "ip_rest s2 = ip_rest s1"
        using icmp_reply_ok [OF lo C1(3) att n(2) q1 C1(4,5) pl(1) C1(8) that20 hl pl(2), of src]
        by (auto simp: returns_def simp del: fun_upd_apply)
      have "returns (free_pbuf q s2) (given_back I s L (R(p := 0)) C)"
        using free_new [OF s2(2) C1(6)] by (elim returns_mono) (use C1(1,2) s2(3) in \<open>auto simp: given_back_def simp del: fun_upd_apply dest: rest_ip_rest intro!: exI [of _ C1]\<close>)
      then show ?thesis using r(1) s2(1) Some by simp
    qed
  qed
  have hdr: "\<not> hlen < of_nat IP_HLEN \<Longrightarrow> 20 \<le> unat hlen" by (simp add: IP_HLEN_def word_less_nat_alt)
  show ?thesis
    unfolding icmp_input_def h Option.bind.bind_lunit hlen_def [symmetric] Let_def
    using drop reply hdr ih cn segs tot by (auto simp: SIZEOF_ICMP_HDR_def not_less)
qed

end
