(* ===== verification/Lwip_Reass_Safe.thy ===== *)
theory Lwip_Reass_Safe
  imports Lwip_Icmp_Safe
begin

unbundle bit_operations_syntax

text \<open>
  Reassembly is safe, and with the one receive buffer of this configuration it never completes: a fragment that waits
  holds the buffer, so no other can be received until the timer gives it up.
\<close>

declare split_paired_All [simp del] split_paired_Ex [simp del]

section \<open>Reading what was written\<close>

lemma get8_put: "get8 p (put_bytes a xs s) =
    (if fst p = fst a \<and> snd a \<le> snd p \<and> snd p < snd a + int (length xs) then xs ! nat (snd p - snd a) else get8 p s)"
  by (simp add: get8_def write_bytes_def)

lemma ptr_add_parts [simp]: "fst (ptr_add a i) = fst a" "snd (ptr_add a i) = snd a + i"
  by (cases a, simp add: ptr_add_def)+

lemma get16_put_same: "get16 a (put_bytes a [lo8 w, hi8 w] s) = w"
  by (simp add: get16_def get8_put)

lemma get16_put_other: "snd b + 2 \<le> snd a \<or> snd a + int (length xs) \<le> snd b \<Longrightarrow> get16 b (put_bytes a xs s) = get16 b s"
  by (auto simp: get16_def get8_put)

section \<open>Offsets\<close>

lemma htons_inv [simp]: "lwip_htons (lwip_htons w) = w"
  by (metis le16_lo8_hi8 lwip_htons_bytes)

lemma htons_0: "lwip_htons w = 0 \<longleftrightarrow> w = 0"
proof
  assume "lwip_htons w = 0"
  then have "w = lwip_htons 0" using htons_inv [of w] by simp
  then show "w = 0" by (simp add: lwip_htons_def)
qed (simp add: lwip_htons_def)

lemma htons_and: "lwip_htons (v AND w) = lwip_htons v AND lwip_htons w"
proof -
  have "le16 a b AND le16 c d = le16 (a AND c) (b AND d)" for a b c d
    by (rule bit_word_eqI) (auto simp: le16_def bit_simps dest: bit_imp_le_length)
  then show ?thesis by (metis le16_lo8_hi8 lwip_htons_bytes)
qed

lemma last_fragment_offset:
  assumes "get16 (iph_offset h) s AND lwip_htons (IP_OFFMASK OR IP_MF) \<noteq> 0" "get16 (iph_offset h) s AND lwip_htons IP_MF = 0"
  shows "IPH_OFFSET_BYTES h s \<noteq> 0"
proof -
  let ?v = "lwip_htons (get16 (iph_offset h) s)"
  have "lwip_htons (?v AND (IP_OFFMASK OR IP_MF)) \<noteq> 0" "lwip_htons (?v AND IP_MF) = 0" using assms by (simp_all add: htons_and)
  then have v: "?v AND IP_OFFMASK \<noteq> 0" by (simp add: htons_0 bit.conj_disj_distrib)
  have "unat (?v AND IP_OFFMASK) \<le> unat IP_OFFMASK" using word_and_le1 [of ?v IP_OFFMASK] by (simp add: word_le_nat_alt)
  then have "unat ((?v AND IP_OFFMASK) * 8) = unat (?v AND IP_OFFMASK) * 8" by (simp add: unat_word_ariths IP_OFFMASK_def)
  then show ?thesis using v unfolding IPH_OFFSET_BYTES_def by (metis unat_0 mult_eq_0_iff unat_eq_0 zero_neq_numeral)
qed

section \<open>The pool of the datagrams\<close>

lemma reass_alloc:
  assumes ok: "net_ok I s {} R C"
  obtains (full) "in_mem (st_memp_malloc MEMP_REASSDATA) s = Some (None, s)"
  | (got) a m where "in_mem (st_memp_malloc MEMP_REASSDATA) s = Some (Some a, s\<lparr>nmem := m\<rparr>)" "a \<in> elems MEMP_REASSDATA"
      "net_ok I (s\<lparr>nmem := m\<rparr>) {a} R C" "pbufs m = pbufs (nmem s)" "data_bytes m = data_bytes (nmem s)"
proof -
  note h = net_okD(4) [OF ok]
  obtain r m where r: "st_memp_malloc MEMP_REASSDATA (nmem s) = Some (r, m)" "same_data (nmem s) m"
    "case r of None \<Rightarrow> m = nmem s | Some a \<Rightarrow> a \<in> elems MEMP_REASSDATA \<and> a \<notin> {} \<union> all_blocks (refs s R) C \<and>
       mem_ok m (insert a ({} \<union> all_blocks (refs s R) C))"
    using st_memp_malloc_ok [OF held_mem [OF h], of MEMP_REASSDATA] by blast
  show thesis
  proof (cases r)
    case None
    then show thesis using r by (intro full) (simp add: in_mem_def)
  next
    case (Some a)
    then have a: "a \<in> elems MEMP_REASSDATA" "a \<notin> all_blocks (refs s R) C" "mem_ok m (insert a (all_blocks (refs s R) C))"
      using r(3) by simp_all
    have p: "pbufs m = pbufs (nmem s)" "data_bytes m = data_bytes (nmem s)" using r(2) by (simp_all add: same_data_def)
    have "packet m b as = packet (nmem s) b as" for b as by (rule packet_like) (simp_all add: p)
    moreover have "a \<notin> set (C b)" if "0 < refs s R b" for b using a(2) in_blocks [of "refs s R" b a C, OF that] by blast
    ultimately have "held m {a} (refs s R) C" using h a(3) p unfolding held_def by (simp only:) simp
    then have "net_ok I (s\<lparr>nmem := m\<rparr>) {a} R C" using ok p by (simp add: net_ok_def)
    then show thesis using got r(1) Some a(1) p by (simp add: in_mem_def)
  qed
qed

lemma reass_release:
  assumes ok: "net_ok I s {a} R C" and a: "a \<in> elems MEMP_REASSDATA"
  obtains m where "on_mem (st_memp_free MEMP_REASSDATA a) s = Some (s\<lparr>nmem := m\<rparr>)" "net_ok I (s\<lparr>nmem := m\<rparr>) {} R C"
    "pbufs m = pbufs (nmem s)"
proof -
  note h = net_okD(4) [OF ok]
  obtain m where m: "st_memp_free MEMP_REASSDATA a (nmem s) = Some m" "same_data (nmem s) m"
    "mem_ok m ({a} \<union> all_blocks (refs s R) C - {a})"
    using st_memp_free_ok [OF held_mem [OF h] _ a] by blast
  have p: "pbufs m = pbufs (nmem s)" using m(2) by (simp add: same_data_def)
  have "a \<notin> all_blocks (refs s R) C" using h by (auto simp: held_def all_blocks_def)
  then have "mem_ok m (all_blocks (refs s R) C)" using m(3) by simp
  moreover have "packet m b as = packet (nmem s) b as" for b as by (rule packet_like) (simp_all add: p)
  ultimately have "held m {} (refs s R) C" using h p by (simp add: held_def)
  then have "net_ok I (s\<lparr>nmem := m\<rparr>) {} R C" using ok p by (simp add: net_ok_def)
  then show thesis using that m(1) p by (simp add: on_mem_def)
qed

section \<open>The invariant\<close>

text \<open>No fragment waits.\<close>

definition reass_idle :: "'d net_st \<Rightarrow> bool" where
  "reass_idle s \<longleftrightarrow> reassdatagrams s = [] \<and> ip_reass_pbufcount s = 0 \<and> reass_next s = (\<lambda>_. None)"

text \<open>One fragment waits: the packet \<open>p\<close>, in the datagram at \<open>a\<close>.\<close>

definition reass_waits :: "'d net_st \<Rightarrow> ptr \<Rightarrow> ptr \<Rightarrow> bool" where
  "reass_waits s a p \<longleftrightarrow> (\<exists>r. reassdatagrams s = [(a, r)] \<and> ipr_p r = Some p) \<and> ip_reass_pbufcount s = 1 \<and>
     reass_next s = (\<lambda>_. None)"

text \<open>The state between two packets.\<close>

definition ip_ok :: "('d \<Rightarrow> bool) \<Rightarrow> 'd net_st \<Rightarrow> (ptr \<Rightarrow> nat) \<Rightarrow> (ptr \<Rightarrow> ptr list) \<Rightarrow> bool" where
  "ip_ok I s R C \<longleftrightarrow> nets_ok s \<and>
     (reass_idle s \<and> net_ok I s {} R C \<or>
      (\<exists>a p. reass_waits s a p \<and> a \<in> elems MEMP_REASSDATA \<and> R p = 0 \<and> queued (arp_table s) p = 0 \<and>
         rx_packet s C p \<and> 0 < plen (nmem s) p \<and> net_ok I s {a} (R(p := 1)) C))"

definition same_nets :: "'d net_st \<Rightarrow> 'd net_st \<Rightarrow> bool" where
  "same_nets s s' \<longleftrightarrow> netif_list s' = netif_list s \<and> netif_default s' = netif_default s"

lemma same_nets_simps [simp]:
  "same_nets s s" "same_nets s (put_bytes a xs s') = same_nets s s'" "same_nets s (s'\<lparr>nmem := m\<rparr>) = same_nets s s'"
  "same_nets s (s'\<lparr>reassdatagrams := rs\<rparr>) = same_nets s s'" "same_nets s (s'\<lparr>ip_reass_pbufcount := c\<rparr>) = same_nets s s'"
  "same_nets s (s'\<lparr>reass_next := f\<rparr>) = same_nets s s'" "same_nets s (s'\<lparr>ip_data := i\<rparr>) = same_nets s s'"
  by (simp_all add: same_nets_def)

lemma reass_net [simp]:
  "net_ok I (s\<lparr>reassdatagrams := rs\<rparr>) L R C = net_ok I s L R C" "net_ok I (s\<lparr>ip_reass_pbufcount := c\<rparr>) L R C = net_ok I s L R C"
  "net_ok I (s\<lparr>reass_next := f\<rparr>) L R C = net_ok I s L R C"
  using netif_deref_list [of "s\<lparr>reassdatagrams := rs\<rparr>" s] netif_deref_list [of "s\<lparr>ip_reass_pbufcount := c\<rparr>" s]
    netif_deref_list [of "s\<lparr>reass_next := f\<rparr>" s] by (simp_all add: net_ok_def)

lemma ip_ok_idle: "reass_idle s \<Longrightarrow> ip_ok I s R C \<longleftrightarrow> nets_ok s \<and> net_ok I s {} R C"
  by (auto simp: ip_ok_def reass_idle_def reass_waits_def)

lemma nets_ok_same: "same_nets s s' \<Longrightarrow> nets_ok s' = nets_ok s"
  by (simp add: same_nets_def nets_ok_def)

lemma reass_idle_simps [simp]: "reass_idle (put_bytes a xs s) = reass_idle s" "reass_idle (s\<lparr>nmem := m\<rparr>) = reass_idle s"
  "reass_idle (s\<lparr>ip_data := i\<rparr>) = reass_idle s"
  by (simp_all add: reass_idle_def)

section \<open>A new fragment\<close>

text \<open>A packet that is dropped leaves nothing behind.\<close>

lemma drop_idle:
  assumes "net_ok I s {} R C" "R p = 1" "reass_idle s" "nets_ok s"
  shows "returns (free_pbuf p s) (\<lambda>s'. ip_ok I s' (R(p := 0)) C \<and> reass_idle s' \<and> same_nets s s')"
proof -
  have R: "R(p := R p - 1) = R(p := 0)" "0 < R p" using assms(2) by simp_all
  show ?thesis using free_pbuf_ok [of I s "{}" R C p, OF assms(1) R(2)] unfolding R(1)
    by (elim returns_mono) (use assms(3,4) in \<open>auto simp: rest_def ip_ok_def reass_idle_def same_nets_def nets_ok_def\<close>)
qed

lemma nullreturn_idle:
  assumes "net_ok I s {} R C" "R p = 1" "reass_idle s" "nets_ok s"
  shows "returns (nullreturn p s) (\<lambda>(r, s'). r = None \<and> ip_ok I s' (R(p := 0)) C \<and> same_nets s s')"
  using drop_idle [OF assms] by (auto simp: nullreturn_def returns_def)

lemma nullreturn_ipr_new:
  assumes "net_ok I s {a} R C" "a \<in> elems MEMP_REASSDATA" "R p = 1" "nets_ok s"
    and "reassdatagrams s = [(a, r)]" "ipr_p r = None" "ip_reass_pbufcount s = 0" "reass_next s = (\<lambda>_. None)"
  shows "returns (nullreturn_ipr a p s) (\<lambda>(r, s'). r = None \<and> ip_ok I s' (R(p := 0)) C \<and> same_nets s s')"
proof -
  let ?s = "s\<lparr>reassdatagrams := []\<rparr>"
  have "net_ok I ?s {a} R C" using assms(1) by simp
  then obtain m where m: "on_mem (st_memp_free MEMP_REASSDATA a) ?s = Some (?s\<lparr>nmem := m\<rparr>)" "net_ok I (?s\<lparr>nmem := m\<rparr>) {} R C"
    using reass_release [of I ?s a R C] assms(2) by blast
  have "reass_idle (?s\<lparr>nmem := m\<rparr>)" "nets_ok (?s\<lparr>nmem := m\<rparr>)" using assms by (simp_all add: reass_idle_def nets_ok_def)
  note n = nullreturn_idle [OF m(2) assms(3) this]
  have "nullreturn_ipr a p s = nullreturn p (?s\<lparr>nmem := m\<rparr>)"
    using assms(5,6) m(1) by (simp add: nullreturn_ipr_def the_reass_def ip_reass_dequeue_datagram_def)
  then show ?thesis using n by (auto simp: returns_def same_nets_def)
qed

text \<open>The first fragment of a datagram is queued, unless its length overflows; it is never the whole datagram.\<close>

lemma set_next_none: "reass_next s = (\<lambda>_. None) \<Longrightarrow> set_next_pbuf h None s = s"
  by (simp add: set_next_pbuf_def fun_upd_idem)

lemma chain_frag_new:
  assumes s: "reassdatagrams s = [(a, r)]" "ipr_p r = None" "ipr_flags r = 0" "reass_next s = (\<lambda>_. None)"
    and h: "pb_payload (the_pbuf s p) = Some h" and lst: "is_last \<Longrightarrow> IPH_OFFSET_BYTES h s \<noteq> 0"
  obtains (dropped) ws where "ip_reass_chain_frag_into_datagram_and_validate a p is_last s =
      Some (IP_REASS_VALIDATE_PBUF_DROPPED, put_bytes (iprh_end h) (fst ws) (put_bytes (iprh_start h) (snd ws) s))"
  | (short) "ip_reass_chain_frag_into_datagram_and_validate a p is_last s = Some (IP_REASS_VALIDATE_PBUF_DROPPED, s)"
  | (chained) ws where "ip_reass_chain_frag_into_datagram_and_validate a p is_last s =
      Some (IP_REASS_VALIDATE_PBUF_QUEUED, upd_reass a (\<lambda>e. e\<lparr>ipr_p := Some p\<rparr>)
        (put_bytes (iprh_end h) (fst ws) (put_bytes (iprh_start h) (snd ws) s)))"
proof (cases "ucast (IPH_HL_BYTES h s) > lwip_htons (get16 (iph_len h) s)")
  case True
  then show ?thesis using h by (intro short) (simp add: ip_reass_chain_frag_into_datagram_and_validate_def)
next
  case False
  define off where "off = IPH_OFFSET_BYTES h s"
  define en where "en = off + (lwip_htons (get16 (iph_len h) s) - ucast (IPH_HL_BYTES h s))"
  let ?s1 = "put16 (iprh_end h) en (put16 (iprh_start h) off s)"
  have e: "get16 (iprh_end h) ?s1 = en" using get16_put_same by simp
  have st: "get16 (iprh_start h) ?s1 = off"
    using get16_put_same [of "iprh_start h" off s] by (simp add: get16_put_other iprh_start_def iprh_end_def del: ptr_add_parts)
  have rd: "reassdatagrams ?s1 = [(a, r)]" using s(1) by simp
  have run: "ip_reass_chain_frag_into_datagram_and_validate a p is_last s =
     (if en < off then Some (IP_REASS_VALIDATE_PBUF_DROPPED, ?s1)
      else do { v \<leftarrow> validate_datagram a h is_last True (upd_reass a (\<lambda>e. e\<lparr>ipr_p := Some p\<rparr>) ?s1);
                Some (v, upd_reass a (\<lambda>e. e\<lparr>ipr_p := Some p\<rparr>) ?s1) })"
    using h False s rd e st set_next_none [OF s(4), of h]
    by (simp add: ip_reass_chain_frag_into_datagram_and_validate_def Let_def off_def [symmetric] en_def [symmetric]
          place_fragment.simps [of _ _ _ None] the_reass_def del: put_field_simps)
  show ?thesis
  proof (cases "en < off")
    case True
    then show ?thesis using run by (intro dropped [of "([lo8 en, hi8 en], [lo8 off, hi8 off])"]) simp
  next
    case b: False
    have up: "get16 x (upd_reass a f s') = get16 x s'" for x f and s' :: "'a net_st" by (simp add: upd_reass_def get16_def get8_def)
    have up2: "get16 x (s'\<lparr>reassdatagrams := rs\<rparr>) = get16 x s'" for x rs and s' :: "'a net_st" by (simp add: get16_def get8_def)
    have "validate_datagram a h is_last True (upd_reass a (\<lambda>e. e\<lparr>ipr_p := Some p\<rparr>) ?s1) = Some IP_REASS_VALIDATE_PBUF_QUEUED"
      using s h lst st by (simp add: validate_datagram_def the_reass_def up off_def del: put_field_simps) (simp add: upd_reass_def up2)
    then show ?thesis using run b by (intro chained [of "([lo8 en, hi8 en], [lo8 off, hi8 off])"]) simp
  qed
qed

lemma reass_add_new:
  assumes ok: "net_ok I s {a} R C" and a: "a \<in> elems MEMP_REASSDATA" and p: "R p = 1" "rx_packet s C p" "queued (arp_table s) p = 0"
      "0 < plen (nmem s) p" and nets: "nets_ok s"
    and s: "reassdatagrams s = [(a, r)]" "ipr_p r = None" "ipr_flags r = 0" "reass_next s = (\<lambda>_. None)" "ip_reass_pbufcount s = 0"
    and h: "pb_payload (the_pbuf s p) = Some h" and frag: "get16 (iph_offset h) s AND lwip_htons (IP_OFFMASK OR IP_MF) \<noteq> 0"
  shows "returns (reass_add a p h offset len 1 s) (\<lambda>(r, s'). r = None \<and> ip_ok I s' (R(p := 0)) C \<and> same_nets s s')"
proof -
  define is_last where "is_last \<longleftrightarrow> get16 (iph_offset h) s AND lwip_htons IP_MF = 0"
  have lst: "is_last \<Longrightarrow> IPH_OFFSET_BYTES h s \<noteq> 0" using last_fragment_offset [OF frag] by (simp add: is_last_def)
  have R: "R(p := 0, p := 1) = R" using p(1) by auto
  have undo: "returns (nullreturn_ipr a p s') (\<lambda>(r, s'). r = None \<and> ip_ok I s' (R(p := 0)) C \<and> same_nets s s')"
    if "s' = s \<or> (\<exists>x y b c. s' = put_bytes x b (put_bytes y c s))" for s'
  proof -
    have "net_ok I s' {a} R C" "nets_ok s'" "reassdatagrams s' = [(a, r)]" "ip_reass_pbufcount s' = 0" "reass_next s' = (\<lambda>_. None)" "same_nets s s'"
      using that ok nets s by (auto simp: put_bytes_net nets_ok_def)
    from nullreturn_ipr_new [OF this(1) a p(1) this(2,3) s(2) this(4,5)] this(6) show ?thesis
      by (elim returns_mono) (auto simp: same_nets_def)
  qed
  have undo2: "returns (nullreturn_ipr a p (put_bytes x b (put_bytes y c s))) (\<lambda>(r, s'). r = None \<and> ip_ok I s' (R(p := 0)) C \<and> same_nets s s')"
    for x y b c by (rule undo, rule disjI2, intro exI, rule refl)
  have waits: "ip_ok I s' (R(p := 0)) C \<and> same_nets s s'"
    if s': "s' = (put_bytes x b (put_bytes y c s))\<lparr>reassdatagrams := [(a, r')], ip_reass_pbufcount := 1\<rparr>" "ipr_p r' = Some p" for s' r' x y b c
  proof -
    have "reass_waits s' a p" "net_ok I s' {a} R C" "nets_ok s'" "same_nets s s'" "queued (arp_table s') p = 0" "rx_packet s' C p" "0 < plen (nmem s') p"
      using s' s ok nets p by (simp_all add: reass_waits_def put_bytes_net nets_ok_def rx_packet_def)
    then show ?thesis using a R by (auto simp: ip_ok_def)
  qed
  show ?thesis
  proof (cases "is_last \<and> (offset + len < offset \<or> offset + len > 0xFFFF - of_nat IP_HLEN)")
    case True
    then show ?thesis using undo [of s] by (simp add: reass_add_def Let_def is_last_def)
  next
    case no: False
    show ?thesis
    proof (cases rule: chain_frag_new [OF s(1-4) h, of is_last])
      case 1
      then show ?case using lst by simp
    next
      case (2 ws)
      then show ?thesis using no undo2 by (auto simp add: reass_add_def Let_def is_last_def)
    next
      case 3
      then show ?thesis using no undo [of s] by (auto simp add: reass_add_def Let_def is_last_def)
    next
      case (4 ws)
      let ?s1 = "put_bytes (iprh_end h) (fst ws) (put_bytes (iprh_start h) (snd ws) s)"
      let ?e = "r\<lparr>ipr_p := Some p\<rparr>"
      let ?e2 = "if is_last then ?e\<lparr>ipr_datagram_len := offset + len, ipr_flags := ipr_flags ?e OR IP_REASS_FLAG_LASTFRAG\<rparr> else ?e"
      let ?s2 = "?s1\<lparr>reassdatagrams := [(a, ?e2)], ip_reass_pbufcount := 1\<rparr>"
      have run: "reass_add a p h offset len 1 s = Some (None, ?s2)"
        using 4 no s(1,5) by (auto simp: reass_add_def Let_def is_last_def upd_reass_def)
      have "ipr_p ?e2 = Some p" by simp
      from waits [OF refl this] run show ?thesis by simp
    qed
  qed
qed

lemma clen_rx:
  assumes "net_ok I s L R C" "0 < R p" "C p = [p]"
  shows "pbuf_clen (Some p) (nmem s) = Some 1"
proof -
  have "chain (nmem s) (Some p) [p]" using heldD(1) [OF net_okD(4) [OF assms(1)], of p] assms(2,3) by (simp add: packet_def)
  then show ?thesis
    by (cases "pb_next (the_pbuf s p)") (auto simp: pbuf_clen_def chain_Some clen_loop.simps [of "Some p"] clen_loop.simps [of None])
qed

lemma ip4_reass_ok:
  assumes ok: "net_ok I s {} R C" and p: "R p = 1" "rx_packet s C p" "queued (arp_table s) p = 0"
      "0 < plen (nmem s) p" and nets: "nets_ok s" and idle: "reass_idle s"
    and h: "pb_payload (the_pbuf s p) = Some h" and frag: "get16 (iph_offset h) s AND lwip_htons (IP_OFFMASK OR IP_MF) \<noteq> 0"
  shows "returns (ip4_reass lo p s) (\<lambda>(r, s'). r = None \<and> ip_ok I s' (R(p := 0)) C \<and> same_nets s s')"
proof -
  note null = nullreturn_idle [OF ok p(1) idle nets]
  have clen: "pbuf_clen (Some p) (nmem s) = Some 1" by (rule clen_rx [OF ok]) (use p in \<open>simp_all add: rx_packet_def\<close>)
  have s: "reassdatagrams s = []" "ip_reass_pbufcount s = 0" "reass_next s = (\<lambda>_. None)" using idle by (simp_all add: reass_idle_def)
  have new: "returns (do { (ipr, s) \<leftarrow> ip_reass_enqueue_new_datagram lo h 1 s;
        case ipr of None \<Rightarrow> nullreturn p s | Some ipr \<Rightarrow> reass_add ipr p h offset len 1 s })
      (\<lambda>(r, s'). r = None \<and> ip_ok I s' (R(p := 0)) C \<and> same_nets s s')" for offset len
  proof (cases rule: reass_alloc [OF ok])
    case 1
    then show ?thesis using null s
      by (simp add: ip_reass_enqueue_new_datagram_def ip_reass_remove_oldest_datagram_def remove_oldest_loop.simps [of lo h 1 0 s])
  next
    case (2 a m)
    let ?r = "\<lparr>ipr_p = None, ipr_iphdr = get_bytes h IP_HLEN (s\<lparr>nmem := m\<rparr>), ipr_datagram_len = 0, ipr_flags = 0, ipr_timer = IP_REASS_MAXAGE\<rparr>"
    let ?s = "s\<lparr>nmem := m, reassdatagrams := [(a, ?r)]\<rparr>"
    have run: "ip_reass_enqueue_new_datagram lo h 1 s = Some (Some a, ?s)"
      using 2(1) s(1) by (simp add: ip_reass_enqueue_new_datagram_def)
    have "net_ok I ?s {a} R C" "rx_packet ?s C p" "queued (arp_table ?s) p = 0" "0 < plen (nmem ?s) p" "nets_ok ?s"
      "pb_payload (the_pbuf ?s p) = Some h" "get16 (iph_offset h) ?s AND lwip_htons (IP_OFFMASK OR IP_MF) \<noteq> 0"
      using 2(3-5) p(2-4) nets h frag by (simp_all add: rx_packet_def nets_ok_def get16_def get8_def)
    from reass_add_new [OF this(1) 2(2) p(1) this(2-5) _ _ _ _ _ this(6,7), of ?r offset len] s
    show ?thesis unfolding run by (auto simp: returns_def same_nets_def)
  qed
  show ?thesis unfolding ip4_reass_def using h clen s new null
    by (simp add: IP_REASS_MAX_PBUFS_def Let_def)
qed

section \<open>The timer\<close>

lemma dequeue_ok:
  assumes ok: "net_ok I s {a} R C" and a: "a \<in> elems MEMP_REASSDATA" "reassdatagrams s = [(a, r)]"
  obtains m where "ip_reass_dequeue_datagram a None s = Some (s\<lparr>reassdatagrams := [], nmem := m\<rparr>)"
    "net_ok I (s\<lparr>reassdatagrams := [], nmem := m\<rparr>) {} R C"
proof -
  have "net_ok I (s\<lparr>reassdatagrams := []\<rparr>) {a} R C" using ok by simp
  from reass_release [OF this a(1)] show thesis using that a(2) by (auto simp: ip_reass_dequeue_datagram_def)
qed

text \<open>The end of a datagram that is given up: its one fragment, unless it has been freed already, and the datagram.\<close>

lemma give_up:
  assumes ok: "net_ok I s {a} R C" and a: "a \<in> elems MEMP_REASSDATA" "reassdatagrams s = [(a, r)]"
    and s: "ip_reass_pbufcount s = 1" "reass_next s = (\<lambda>_. None)" "nets_ok s"
  shows "returns (do { s \<leftarrow> ip_reass_dequeue_datagram a None s;
      if \<not> ip_reass_pbufcount s \<ge> 1 then None else Some (1 :: u16, s\<lparr>ip_reass_pbufcount := ip_reass_pbufcount s - 1\<rparr>) })
    (\<lambda>(n, s'). n = 1 \<and> ip_ok I s' R C \<and> reass_idle s' \<and> same_nets s s')"
proof (rule dequeue_ok [OF ok a])
  fix m assume m: "ip_reass_dequeue_datagram a None s = Some (s\<lparr>reassdatagrams := [], nmem := m\<rparr>)"
    "net_ok I (s\<lparr>reassdatagrams := [], nmem := m\<rparr>) {} R C"
  have "reass_idle (s\<lparr>reassdatagrams := [], nmem := m, ip_reass_pbufcount := 0\<rparr>)" using s by (simp add: reass_idle_def)
  moreover have "nets_ok (s\<lparr>reassdatagrams := [], nmem := m, ip_reass_pbufcount := 0\<rparr>)" using s(3) by (simp add: nets_ok_def)
  ultimately show ?thesis using m s(1) by (simp add: ip_ok_idle same_nets_def)
qed

lemma free_complete_ok:
  assumes lo: "link_ok lo I" and w: "reass_waits s a p" "a \<in> elems MEMP_REASSDATA" "R p = 0" "rx_packet s C p" "0 < plen (nmem s) p"
    and ok: "net_ok I s {a} (R(p := 1)) C" and nets: "nets_ok s"
  shows "returns (ip_reass_free_complete_datagram lo a None s)
    (\<lambda>(n, s'). n = 1 \<and> (\<exists>C'. ip_ok I s' R C' \<and> same_held R C C') \<and> reass_idle s' \<and> same_nets s s')"
proof -
  obtain r where r: "reassdatagrams s = [(a, r)]" "ipr_p r = Some p" "ip_reass_pbufcount s = 1" "reass_next s = (\<lambda>_. None)"
    using w(1) by (auto simp: reass_waits_def)
  have R1: "(R(p := 1)) p = 1" "0 < (R(p := 1)) p" by simp_all
  have R0: "(R(p := 1))(p := (R(p := 1)) p - 1) = R" using w(3) by auto
  obtain h where h: "pb_payload (the_pbuf s p) = Some h" using net_ok_payload [of I s "{a}" "R(p := 1)" C p, OF ok R1(2)] by blast
  have Cp: "C p = [p]" using w(4) by (simp add: rx_packet_def)
  show ?thesis
  proof (cases "get16 (iprh_start h) s = 0")
    case True
    define s1 where "s1 = put_bytes h (ipr_iphdr r) (upd_reass a (\<lambda>e. e\<lparr>ipr_p := None\<rparr>) s)"
    have s1: "net_ok I s1 {a} (R(p := 1)) C" "nets_ok s1" "rx_packet s1 C p" "0 < plen (nmem s1) p"
      using ok nets w(4,5) by (simp_all add: s1_def upd_reass_def put_bytes_net nets_ok_def rx_packet_def)
    obtain s2 C2 where s2: "icmp_time_exceeded lo p ICMP_TE_FRAG s1 = Some s2" "net_ok I s2 {a} (R(p := 1)) C2"
      "same_held (R(p := 1)) C C2" "ip_rest s2 = ip_rest s1"
      using icmp_send_response_ok [OF lo s1(1,2) R1(2) s1(3,4), of ICMP_TE "icmp_te_num ICMP_TE_FRAG"]
      unfolding icmp_time_exceeded_def returns_def by blast
    have C2: "C2 p = [p]" "same_held R C C2" using s2(3) Cp by (auto simp: same_held_def split: if_splits)
    have d2: "reassdatagrams s2 = [(a, r\<lparr>ipr_p := None\<rparr>)]" "ip_reass_pbufcount s2 = 1" "reass_next s2 = (\<lambda>_. None)"
      "netif_list s2 = netif_list s" "netif_default s2 = netif_default s"
      using s2(4) r by (simp_all add: s1_def upd_reass_def ip_rest_def)
    have clen: "pbuf_clen (Some p) (nmem s2) = Some 1" by (rule clen_rx [OF s2(2) R1(2) C2(1)])
    obtain s3 where s3: "free_pbuf p s2 = Some s3" "net_ok I s3 {a} R C2" "rest s3 = rest s2"
      using free_pbuf_ok [of I s2 "{a}" "R(p := 1)" C2 p, OF s2(2) R1(2)] unfolding R0 by (auto simp: returns_def)
    have d3: "reassdatagrams s3 = [(a, r\<lparr>ipr_p := None\<rparr>)]" "ip_reass_pbufcount s3 = 1" "reass_next s3 = (\<lambda>_. None)" "nets_ok s3" "same_nets s s3"
      using s3(3) d2 nets by (simp_all add: rest_def nets_ok_def same_nets_def)
    have "ip_reass_free_complete_datagram lo a None s =
       do { s \<leftarrow> ip_reass_dequeue_datagram a None s3;
            if \<not> ip_reass_pbufcount s \<ge> 1 then None else Some (1 :: u16, s\<lparr>ip_reass_pbufcount := ip_reass_pbufcount s - 1\<rparr>) }"
      using r h True s2(1) clen s3(1) d3(1) unfolding s1_def
      by (simp add: ip_reass_free_complete_datagram_def the_reass_def upd_reass_def Let_def free_fragments.simps [of None] split del: if_split)
    then show ?thesis using give_up [OF s3(2) w(2) d3(1-4)] C2(2) d3(5) by (auto simp: returns_def same_nets_def split del: if_split)
  next
    case False
    obtain s3 where s3: "free_pbuf p s = Some s3" "net_ok I s3 {a} R C" "rest s3 = rest s"
      using free_pbuf_ok [of I s "{a}" "R(p := 1)" C p, OF ok R1(2)] unfolding R0 by (auto simp: returns_def)
    have d3: "reassdatagrams s3 = [(a, r)]" "ip_reass_pbufcount s3 = 1" "reass_next s3 = (\<lambda>_. None)" "nets_ok s3" "same_nets s s3"
      using s3(3) r nets by (simp_all add: rest_def nets_ok_def same_nets_def)
    have "free_fragments (Some p) 0 s = Some (1, s3)"
      using h r(4) clen_rx [OF ok R1(2) Cp] s3(1) by (simp add: free_fragments.simps [of "Some p"] free_fragments.simps [of None])
    then have "ip_reass_free_complete_datagram lo a None s =
       do { s \<leftarrow> ip_reass_dequeue_datagram a None s3;
            if \<not> ip_reass_pbufcount s \<ge> 1 then None else Some (1 :: u16, s\<lparr>ip_reass_pbufcount := ip_reass_pbufcount s - 1\<rparr>) }"
      using r(1,2) h False by (simp add: ip_reass_free_complete_datagram_def the_reass_def Let_def split del: if_split)
    then show ?thesis using give_up [OF s3(2) w(2) d3(1-4)] d3(5)
      by (auto simp: returns_def same_nets_def split del: if_split intro!: exI [of _ C])
  qed
qed

lemma ip_reass_tmr_ok:
  assumes lo: "link_ok lo I" and ok: "ip_ok I s R C"
  shows "returns (ip_reass_tmr lo s) (\<lambda>s'. (\<exists>C'. ip_ok I s' R C' \<and> same_held R C C') \<and> same_nets s s')"
proof (cases "reass_idle s")
  case True
  then show ?thesis using ok by (auto simp: ip_reass_tmr_def reass_idle_def intro!: exI [of _ C])
next
  case False
  then obtain a p where w: "reass_waits s a p" "a \<in> elems MEMP_REASSDATA" "R p = 0" "queued (arp_table s) p = 0"
    "rx_packet s C p" "0 < plen (nmem s) p" "net_ok I s {a} (R(p := 1)) C" "nets_ok s" using ok unfolding ip_ok_def by blast
  then obtain r where r: "reassdatagrams s = [(a, r)]" "ipr_p r = Some p" "ip_reass_pbufcount s = 1" "reass_next s = (\<lambda>_. None)"
    by (auto simp: reass_waits_def)
  show ?thesis
  proof (cases "ipr_timer r > 0")
    case True
    let ?s = "upd_reass a (\<lambda>e. e\<lparr>ipr_timer := ipr_timer e - 1\<rparr>) s"
    have "reass_waits ?s a p" "nets_ok ?s" "net_ok I ?s {a} (R(p := 1)) C" "queued (arp_table ?s) p = 0" "rx_packet ?s C p" "0 < plen (nmem ?s) p"
      using r w by (simp_all add: reass_waits_def upd_reass_def nets_ok_def rx_packet_def)
    then have "ip_ok I ?s R C" using w(2,3) unfolding ip_ok_def by blast
    moreover have "ip_reass_tmr lo s = Some ?s" using r True by (simp add: ip_reass_tmr_def the_reass_def)
    moreover have "same_nets s ?s" by (simp add: upd_reass_def same_nets_def)
    ultimately show ?thesis by (auto intro!: exI [of _ C])
  next
    case no: False
    have "ip_reass_tmr lo s = do { (_, s) \<leftarrow> ip_reass_free_complete_datagram lo a None s; Some s }"
      using r no by (cases "ip_reass_free_complete_datagram lo a None s") (auto simp: ip_reass_tmr_def the_reass_def)
    then show ?thesis using free_complete_ok [OF lo w(1,2,3,5,6,7,8)] by (auto simp: returns_def)
  qed
qed

end
