(* ===== verification/Lwip_Input_Safe.thy ===== *)
theory Lwip_Input_Safe
  imports Lwip_Reass_Safe
begin

unbundle bit_operations_syntax

text \<open>
  Reception is safe: whatever frame has been put into the receive buffer, \<open>ethernet_input\<close> returns, gives the buffer back
  or keeps it for ARP or reassembly, and keeps the invariant.
\<close>

declare split_paired_All [simp del] split_paired_Ex [simp del]

section \<open>Delivery\<close>

lemma rx_packet_like: "pb_type_internal (the_pbuf s' p) = pb_type_internal (the_pbuf s p) \<Longrightarrow> rx_packet s C p \<Longrightarrow> rx_packet s' C p"
  by (simp add: rx_packet_def)

text \<open>A header that has been removed can be put back.\<close>

lemma header_back:
  assumes ok: "net_ok I s L R C" and p: "0 < R p" "rx_packet s C p" "queued (arp_table s) p = 0" "plen (nmem s) p \<le> 256"
    and n: "0 < unat n" "unat n \<le> 60" and pl: "pb_payload (the_pbuf s p) = Some pl" "snd p + int SIZEOF_STRUCT_PBUF + int (unat n) \<le> snd pl"
  obtains m where "in_mem (pbuf_header_force (Some p) n) s = Some (False, s\<lparr>nmem := m\<rparr>)" "net_ok I (s\<lparr>nmem := m\<rparr>) L R C"
    "plen m p = plen (nmem s) p + unat n" "rx_packet (s\<lparr>nmem := m\<rparr>) C p"
proof -
  have c: "ucast (pb_type_internal (the_pbuf s p)) AND PBUF_TYPE_FLAG_STRUCT_DATA_CONTIGUOUS \<noteq> 0"
    using p(2) by (simp add: rx_packet_def PBUF_TYPE_FLAG_STRUCT_DATA_CONTIGUOUS_def)
  have "int (unat n) \<le> 60" using n(2) by linarith
  then have "uint n \<le> 60" by simp
  then have "uint n < 2 ^ 15" by simp
  moreover have "- (2 ^ 15) \<le> uint n" by (rule order_trans [of _ 0]) simp_all
  ultimately have "- (2 ^ 15) \<le> uint n" "uint n < 2 ^ 15" by blast+
  from signed_take_bit_int_eq_self [OF this] have si: "sint n = int (unat n)" by (simp add: sint_uint)
  have same: "pbuf_header_force (Some p) n (nmem s) = pbuf_add_header (Some p) (unat n) (nmem s)"
    using c n si by (simp add: pbuf_header_force_def pbuf_header_impl_def pbuf_add_header_def pbuf_add_header_impl_def Let_def)
  have le: "unat n \<le> 0xFFFF" using n by simp
  have pos: "0 < refs s R p" using p(1) by simp
  have l: "lens (nmem s) (C p) + unat n < 65536" using p(2,4) n by (simp add: rx_packet_def)
  have fits: "fst (the (pbuf_add_header (Some p) (unat n) (nmem s))) = False"
    using add_header_room [of "nmem s" L "refs s R" C p "unat n" pl, OF net_okD(4) [OF ok] pos le pl(1) c pl(2) l] .
  show thesis
  proof (rule add_header_net [of I s L R C p, OF ok p(1,3) le])
    assume "in_mem (pbuf_add_header (Some p) (unat n)) s = Some (True, s)"
    then show thesis using fits by (auto simp: in_mem_def bind_Some_iff)
  next
    fix m pl' assume m: "pbuf_add_header (Some p) (unat n) (nmem s) = Some (False, m)"
      "in_mem (pbuf_add_header (Some p) (unat n)) s = Some (False, s\<lparr>nmem := m\<rparr>)" "net_ok I (s\<lparr>nmem := m\<rparr>) L R C"
      "plen m p = plen (nmem s) p + unat n"
    have "rx_packet (s\<lparr>nmem := m\<rparr>) C p" using p(2) add_header_fields(1) [OF m(1), of p] by (simp add: rx_packet_def)
    then show thesis using that m by (simp add: in_mem_def same)
  qed
qed

lemma given_back_ok:
  assumes "given_back I s {} R C s'" "reass_idle s" "nets_ok s"
  shows "(\<exists>C'. ip_ok I s' R C' \<and> same_held R C C') \<and> reass_idle s' \<and> same_nets s s'"
proof -
  obtain C' where C': "net_ok I s' {} R C'" "same_held R C C'" "ip_rest s' = ip_rest s" using assms(1) by (auto simp: given_back_def)
  then have "reass_idle s'" "same_nets s s'" using assms(2) by (simp_all add: ip_rest_def reass_idle_def same_nets_def)
  moreover from this have "nets_ok s'" using assms(3) nets_ok_same by blast
  ultimately show ?thesis using C'(1,2) by (auto simp: ip_ok_idle)
qed

lemma drop_packet_ok:
  assumes "net_ok I s {} R C" "R p = 1" "reass_idle s" "nets_ok s"
  shows "returns (drop_packet p s) (\<lambda>(e, s'). e = ERR_OK \<and> (\<exists>C'. ip_ok I s' (R(p := 0)) C' \<and> same_held (R(p := 0)) C C') \<and>
    same_nets s s')"
  using drop_idle [OF assms] by (auto simp: drop_packet_def returns_def intro!: exI [of _ C])

lemma returns_if: "returns A Q \<Longrightarrow> returns B Q \<Longrightarrow> returns (if c then A else B) Q"
  by simp

lemma ip4_deliver_ok:
  assumes lo: "link_ok lo I" and ok: "net_ok I s {} R C" and nets: "nets_ok s" and idle: "reass_idle s"
    and p: "R p = 1" "rx_packet s C p" "queued (arp_table s) p = 0" "plen (nmem s) p \<le> 256" "unat hlen \<le> plen (nmem s) p"
    and hl: "20 \<le> unat hlen" "unat hlen \<le> 60"
    and n: "attached s inp" "576 \<le> unat (netif_mtu inp)" and cn: "netif_deref (Some (netif_num netif)) s = Some cn"
  shows "returns (ip4_deliver lo p h hlen netif inp s) (\<lambda>(e, s'). e = ERR_OK \<and>
    (\<exists>C'. ip_ok I s' (R(p := 0)) C' \<and> same_held (R(p := 0)) C C') \<and> same_nets s s')"
proof -
  have p0: "0 < R p" using p(1) by simp
  define s1 where "s1 = s\<lparr>ip_data := (ip_data s)\<lparr>current_netif := Some (netif_num netif), current_input_netif := Some (netif_num inp),
                current_ip4_header := Some h, current_ip_header_tot_len := ucast (IPH_HL_BYTES h s)\<rparr>\<rparr>"
  have ok1: "net_ok I s1 {} R C" "queued (arp_table s1) p = 0" "unat hlen \<le> plen (nmem s1) p" using ok p by (simp_all add: s1_def)
  define fin where "fin = (\<lambda>s' :: 'a net_st. s'\<lparr>ip_data := \<lparr>current_netif = None, current_input_netif = None, current_ip4_header = None,
                current_ip_header_tot_len = 0, current_iphdr_src = IPADDR_ANY, current_iphdr_dest = IPADDR_ANY\<rparr>\<rparr>)"
  define Q where "Q = (\<lambda>s'. (\<exists>C'. ip_ok I s' (R(p := 0)) C' \<and> same_held (R(p := 0)) C C') \<and> reass_idle s' \<and> same_nets s s')"
  have Qfin: "Q s' \<Longrightarrow> (\<exists>C'. ip_ok I (fin s') (R(p := 0)) C' \<and> same_held (R(p := 0)) C C') \<and> same_nets s (fin s')" for s'
    by (auto simp: Q_def fin_def ip_ok_idle nets_ok_def)
  obtain pl where pl: "pb_payload (the_pbuf s p) = Some pl" using net_ok_payload [of I s "{}" R C p, OF ok p0] by blast
  have area: "fst pl = fst p" "snd p + int SIZEOF_STRUCT_PBUF \<le> snd pl"
  proof -
    have pos: "0 < refs s R p" using p0 by simp
    have "home (the_pbuf s p) p" using packet_cases [of "nmem s" "{}" "refs s R" C p, OF net_okD(4) [OF ok] pos] by blast
    then show "fst pl = fst p" "snd p + int SIZEOF_STRUCT_PBUF \<le> snd pl"
      using pl p(2) by (simp_all add: home_def rx_packet_def PBUF_TYPE_FLAG_STRUCT_DATA_CONTIGUOUS_def)
  qed
  show ?thesis
  proof (rule remove_header_net [of I s1 "{}" R C p, OF ok1(1) p0 ok1(2,3)])
    fix m pl' assume m: "pbuf_remove_header (Some p) (unat hlen) (nmem s1) = Some (False, m)"
      "in_mem (pbuf_remove_header (Some p) (unat hlen)) s1 = Some (False, s1\<lparr>nmem := m\<rparr>)" "net_ok I (s1\<lparr>nmem := m\<rparr>) {} R C"
      "pb_payload (the_pbuf s1 p) = Some pl'" "pb_payload (pbufs m p) = Some (ptr_add pl' (int (unat hlen)))"
      "plen m p = plen (nmem s1) p - unat hlen"
    define s2 where "s2 = s1\<lparr>nmem := m\<rparr>"
    have pl': "pl' = pl" using m(4) pl by (simp add: s1_def)
    have rx2: "rx_packet s2 C p" using p(2) remove_header_fields(1) [OF m(1), of p] by (simp add: rx_packet_def s2_def s1_def)
    have ok2: "net_ok I s2 {} R C" "nets_ok s2" "reass_idle s2" "queued (arp_table s2) p = 0" "plen (nmem s2) p \<le> 256" "same_nets s s2"
      using m(3,6) nets idle p(3,4) by (simp_all add: s2_def s1_def nets_ok_def reass_idle_def)
    have att2: "attached s2 inp" using n(1) netif_deref_list [of s2 s] by (simp add: attached_def s2_def s1_def)
    have free: "returns (free_pbuf p s') Q" if "net_ok I s' {} R C'" "same_held (R(p := 0)) C C'" "reass_idle s'" "nets_ok s'" "same_nets s s'" for s' C'
      using drop_idle [OF that(1) p(1) that(3,4)] that(2,5) by (elim returns_mono) (auto simp: Q_def same_nets_def)
    have other: "returns (do { s \<leftarrow> (if \<not> ip4_addr_isbroadcast_u32 (current_iphdr_dest (ip_data s2)) netif \<and>
                              \<not> ip4_addr_ismulticast (current_iphdr_dest (ip_data s2)) then
                             do { (_, s) \<leftarrow> in_mem (pbuf_header_force (Some p) hlen) s2; icmp_dest_unreach lo p ICMP_DUR_PROTO s }
                           else Some s2); free_pbuf p s }) Q"
    proof (cases "\<not> ip4_addr_isbroadcast_u32 (current_iphdr_dest (ip_data s2)) netif \<and> \<not> ip4_addr_ismulticast (current_iphdr_dest (ip_data s2))")
      case False
      have "returns (free_pbuf p s2) Q" by (rule free [OF ok2(1) _ ok2(3,2,6)]) simp
      then show ?thesis using False by auto
    next
      case True
      have n2: "0 < unat hlen" using hl by simp
      have pl2: "pb_payload (the_pbuf s2 p) = Some (ptr_add pl (int (unat hlen)))" using m(5) pl' by (simp add: s2_def)
      have room: "snd p + int SIZEOF_STRUCT_PBUF + int (unat hlen) \<le> snd (ptr_add pl (int (unat hlen)))" using area(2) by simp
      show ?thesis
      proof (rule header_back [OF ok2(1) p0 rx2 ok2(4,5) n2 hl(2) pl2 room])
        fix m3 assume m3: "in_mem (pbuf_header_force (Some p) hlen) s2 = Some (False, s2\<lparr>nmem := m3\<rparr>)" "net_ok I (s2\<lparr>nmem := m3\<rparr>) {} R C"
          "plen m3 p = plen (nmem s2) p + unat hlen" "rx_packet (s2\<lparr>nmem := m3\<rparr>) C p"
        have s3: "nets_ok (s2\<lparr>nmem := m3\<rparr>)" "0 < plen (nmem (s2\<lparr>nmem := m3\<rparr>)) p" using ok2(2) m3(3) n2 by (simp_all add: nets_ok_def)
        obtain s4 C4 where s4: "icmp_dest_unreach lo p ICMP_DUR_PROTO (s2\<lparr>nmem := m3\<rparr>) = Some s4" "net_ok I s4 {} R C4" "same_held R C C4"
          "ip_rest s4 = ip_rest s2"
          using icmp_send_response_ok [OF lo m3(2) s3(1) p0 m3(4) s3(2), of ICMP_DUR "icmp_dur_num ICMP_DUR_PROTO"]
          unfolding icmp_dest_unreach_def returns_def by auto
        have "same_held (R(p := 0)) C C4" "reass_idle s4" "nets_ok s4" "same_nets s s4"
          using s4(3,4) ok2 by (auto simp: same_held_def ip_rest_def reass_idle_def nets_ok_def same_nets_def)
        then have "returns (free_pbuf p s4) Q" using free [OF s4(2)] by blast
        then show ?thesis using True m3(1) s4(1) by simp
      qed
    qed
    have icmp: "returns (icmp_input lo p inp s2) Q"
    proof -
      have "current_ip4_header (ip_data s2) = Some h" "netif_deref (current_netif (ip_data s2)) s2 = Some cn"
        using cn netif_deref_list [of s2 s] by (simp_all add: s2_def s1_def)
      from icmp_input_ok [OF lo ok2(1) att2 n(2) p(1) rx2 ok2(4,5) this]
      show ?thesis by (elim returns_mono) (use given_back_ok [OF _ ok2(3,2)] ok2(6) in \<open>auto simp: Q_def same_nets_def\<close>)
    qed
    define M where "M = (if get8 (iph_proto h) s2 = IP_PROTO_ICMP then icmp_input lo p inp s2
        else do { s \<leftarrow> (if \<not> ip4_addr_isbroadcast_u32 (current_iphdr_dest (ip_data s2)) netif \<and>
                              \<not> ip4_addr_ismulticast (current_iphdr_dest (ip_data s2)) then
                             do { (_, s) \<leftarrow> in_mem (pbuf_header_force (Some p) hlen) s2; icmp_dest_unreach lo p ICMP_DUR_PROTO s }
                           else Some s2); free_pbuf p s })"
    have "returns M Q" unfolding M_def by (rule returns_if [OF icmp other])
    then obtain s' where "M = Some s'" "Q s'" unfolding returns_def by blast
    moreover have "ip4_deliver lo p h hlen netif inp s = do { s' \<leftarrow> M; Some (ERR_OK, fin s') }"
      unfolding M_def using m(2) by (simp add: ip4_deliver_def Let_def s1_def s2_def fin_def)
    ultimately show ?thesis using Qfin by simp
  qed
qed

section \<open>IPv4\<close>

text \<open>The receive buffer is cut to the length of the packet.\<close>

lemma realloc_rx:
  assumes ok: "net_ok I s L R C" and p: "0 < R p" "rx_packet s C p" "queued (arp_table s) p = 0" and new: "new < pb_tot_len (the_pbuf s p)"
  obtains m where "on_mem (pbuf_realloc (Some p) new) s = Some (s\<lparr>nmem := m\<rparr>)" "net_ok I (s\<lparr>nmem := m\<rparr>) L R C"
    "plen m p = unat new" "pb_payload (pbufs m p) = pb_payload (the_pbuf s p)" "rx_packet (s\<lparr>nmem := m\<rparr>) C p"
    "pb_tot_len (pbufs m p) = new" "data_bytes m = data_bytes (nmem s)"
proof -
  let ?f = "\<lambda>b. b\<lparr>pb_len := new, pb_tot_len := new, pb_next := None\<rparr>"
  have pos: "0 < refs s R p" and Cp: "C p = [p]" using p by (simp_all add: rx_packet_def)
  obtain as pl where as: "C p = p # as" "chain (nmem s) (Some p) (p # as)" "pb_payload (the_pbuf s p) = Some pl"
    "unat (pb_tot_len (the_pbuf s p)) = plen (nmem s) p + lens (nmem s) as" "owned (the_pbuf s p) p" "home (the_pbuf s p) p"
    using packet_cases [of "nmem s" L "refs s R" C p, OF net_okD(4) [OF ok] pos] by blast
  then have c: "chain (nmem s) (Some p) [p]" "pb_payload (the_pbuf s p) = Some pl" "unat (pb_tot_len (the_pbuf s p)) = plen (nmem s) p"
    "owned (the_pbuf s p) p" "home (the_pbuf s p) p" using Cp by simp_all
  then have nx: "pb_next (the_pbuf s p) = None" by (cases "pb_next (the_pbuf s p)") (auto simp: chain_Some)
  have le: "\<not> new > pb_len (the_pbuf s p)" using new c(3) by (simp add: word_less_nat_alt)
  have walk: "realloc_walk p new k (nmem s) = Some (p, new, nmem s)" for k using le by (subst realloc_walk.simps) simp
  have trim: "trim_last p new (nmem s) = Some (nmem s)"
    using p(2) by (simp add: trim_last_def pbuf_match_allocsrc_def pbuf_get_allocsrc_def rx_packet_def PBUF_TYPE_ALLOC_SRC_MASK_def PBUF_TYPE_ALLOC_SRC_MASK_STD_HEAP_def)
  have "pbuf_realloc (Some p) new (nmem s) = Some (upd_pbuf p ?f (nmem s))"
    unfolding pbuf_realloc_steps [OF new] using walk trim nx by (simp add: free_rest_def upd_pbuf_def)
  then have run: "on_mem (pbuf_realloc (Some p) new) s = Some (s\<lparr>nmem := upd_pbuf p ?f (nmem s)\<rparr>)" by (simp add: on_mem_def)
  have "chain (upd_pbuf p ?f (nmem s)) (Some p) [p]" by (rule chain_head_upd(1) [OF c(1)]) (use c(2) nx in simp_all)
  then have "chain (upd_pbuf p ?f (nmem s)) (Some p) (C p)" by (simp add: Cp)
  moreover have "owned (?f (the_pbuf s p)) p" "home (?f (the_pbuf s p)) p" "pb_ref (?f (the_pbuf s p)) = pb_ref (the_pbuf s p)"
    using c(4,5) by (simp_all add: owned_def home_def pbuf_get_allocsrc_def)
  ultimately have "net_ok I (s\<lparr>nmem := upd_pbuf p ?f (nmem s)\<rparr>) L R C"
    using held_head [of "nmem s" L "refs s R" C p ?f, OF net_okD(4) [OF ok] pos] net_ok_nmem [OF ok _ _ p(3)] by blast
  then show thesis using that [OF run] p(2) by (simp add: upd_pbuf_def rx_packet_def)
qed

lemma input_netif_deref:
  assumes "net_ok I s L R C" "attached s inp" "ip4_input_netif inp s = Some netif"
  shows "\<exists>cn. netif_deref (Some (netif_num netif)) s = Some cn"
proof -
  have "netif = inp \<or> netif \<in> set (netif_list s)"
    using assms(3) by (auto simp: ip4_input_netif_def find_Some_iff split: if_splits)
  then show ?thesis using assms(2) in_list_attached [OF assms(1)] by (auto simp: attached_def)
qed

definition handled :: "('d \<Rightarrow> bool) \<Rightarrow> 'd net_st \<Rightarrow> (ptr \<Rightarrow> nat) \<Rightarrow> (ptr \<Rightarrow> ptr list) \<Rightarrow> 'd net_st \<Rightarrow> bool" where
  "handled I s R C s' \<longleftrightarrow> (\<exists>C'. ip_ok I s' R C' \<and> same_held R C C') \<and> same_nets s s'"

lemma handled_from: "handled I s1 R C s' \<Longrightarrow> same_nets s s1 \<Longrightarrow> handled I s R C s'"
  by (auto simp: handled_def same_nets_def)

lemma ip4_input_ok:
  assumes lo: "link_ok lo I" and ok: "net_ok I s {} R C" and nets: "nets_ok s" and idle: "reass_idle s"
    and p: "R p = 1" "rx_packet s C p" "queued (arp_table s) p = 0" "plen (nmem s) p \<le> 256"
    and n: "attached s inp" "576 \<le> unat (netif_mtu inp)"
  shows "returns (ip4_input lo p inp s) (\<lambda>(e, s'). e = ERR_OK \<and> handled I s (R(p := 0)) C s')"
proof -
  have p0: "0 < R p" using p(1) by simp
  obtain h where h: "pb_payload (the_pbuf s p) = Some h" using net_ok_payload [of I s "{}" R C p, OF ok p0] by blast
  define hlen where "hlen = (ucast (IPH_HL_BYTES h s) :: u16)"
  define len where "len = lwip_htons (get16 (iph_len h) s)"
  have drop: "returns (drop_packet p s') (\<lambda>(e, s''). e = ERR_OK \<and> handled I s (R(p := 0)) C s'')"
    if "net_ok I s' {} R C" "reass_idle s'" "nets_ok s'" "same_nets s s'" for s'
    using drop_packet_ok [OF that(1) p(1) that(2,3)] that(4)
    by (elim returns_mono) (auto simp: handled_def same_nets_def)
  have body: "returns (if hlen > pb_len (the_pbuf s1 p) \<or> len > pb_tot_len (the_pbuf s1 p) \<or> hlen < of_nat IP_HLEN
                 then drop_packet p s1
                 else if chksum_at h (unat hlen) s1 \<noteq> 0 then drop_packet p s1
                 else
                   let s = s1\<lparr>ip_data := (ip_data s1)\<lparr>current_iphdr_dest := get32 (iph_dest h) s1\<rparr>\<rparr>;
                       s = s\<lparr>ip_data := (ip_data s)\<lparr>current_iphdr_src := get32 (iph_src h) s\<rparr>\<rparr>;
                       netif = ip4_input_netif inp s
                   in if ip4_addr_isbroadcast_u32 (current_iphdr_src (ip_data s)) inp \<or>
                         ip4_addr_ismulticast (current_iphdr_src (ip_data s)) then drop_packet p s
                      else
                        (case netif of
                           None \<Rightarrow> drop_packet p s
                         | Some netif \<Rightarrow>
                             if get16 (iph_offset h) s AND lwip_htons (IP_OFFMASK OR IP_MF) \<noteq> 0 then
                               do { (r, s) \<leftarrow> ip4_reass lo p s;
                                    case r of
                                      None \<Rightarrow> Some (ERR_OK, s)
                                    | Some p \<Rightarrow>
                                        do { iphdr \<leftarrow> pb_payload (the_pbuf s p);
                                             ip4_deliver lo p iphdr hlen netif inp s } }
                             else ip4_deliver lo p h hlen netif inp s))
      (\<lambda>(e, s'). e = ERR_OK \<and> handled I s (R(p := 0)) C s')"
    if s1: "net_ok I s1 {} R C" "same_nets s s1" "reass_idle s1" "rx_packet s1 C p" "queued (arp_table s1) p = 0" "plen (nmem s1) p \<le> 256"
      "pb_payload (the_pbuf s1 p) = Some h" for s1
  proof -
    define s2 where "s2 = s1\<lparr>ip_data := (ip_data s1)\<lparr>current_iphdr_dest := get32 (iph_dest h) s1\<rparr>\<rparr>
        \<lparr>ip_data := (ip_data (s1\<lparr>ip_data := (ip_data s1)\<lparr>current_iphdr_dest := get32 (iph_dest h) s1\<rparr>\<rparr>))
           \<lparr>current_iphdr_src := get32 (iph_src h) (s1\<lparr>ip_data := (ip_data s1)\<lparr>current_iphdr_dest := get32 (iph_dest h) s1\<rparr>\<rparr>)\<rparr>\<rparr>"
    have s2: "net_ok I s2 {} R C" "reass_idle s2" "same_nets s s2" "rx_packet s2 C p" "queued (arp_table s2) p = 0" "plen (nmem s2) p \<le> 256"
      "pb_payload (the_pbuf s2 p) = Some h" "plen (nmem s2) p = plen (nmem s1) p"
      using s1 by (simp_all add: s2_def reass_idle_def rx_packet_def)
    have nets1: "nets_ok s1" and nets2: "nets_ok s2" using nets_ok_same [OF s1(2)] nets_ok_same [OF s2(3)] nets by simp_all
    have att2: "attached s2 inp" using n(1) netif_deref_list [of s2 s] s2(3) by (simp add: attached_def same_nets_def)
    note d1 = drop [OF s1(1,3) nets1 s1(2)] and d2 = drop [OF s2(1,2) nets2 s2(3)]
    have del: "returns (ip4_deliver lo p h hlen netif inp s2) (\<lambda>(e, s'). e = ERR_OK \<and> handled I s (R(p := 0)) C s')"
      if len_ok: "\<not> (hlen > pb_len (the_pbuf s1 p) \<or> len > pb_tot_len (the_pbuf s1 p) \<or> hlen < of_nat IP_HLEN)"
        and nif: "ip4_input_netif inp s2 = Some netif" for netif
    proof -
      have l: "unat hlen \<le> plen (nmem s2) p" "20 \<le> unat hlen" "unat hlen \<le> 60"
        using len_ok s2(8) IPH_HL_BYTES_bound [of h s] by (simp_all add: word_le_nat_alt not_less hlen_def IP_HLEN_def)
      obtain cn where cn: "netif_deref (Some (netif_num netif)) s2 = Some cn" using input_netif_deref [OF s2(1) att2 nif] by blast
      show ?thesis using ip4_deliver_ok [OF lo s2(1) nets2 s2(2) p(1) s2(4-6) l att2 n(2) cn, of h] s2(3)
        by (elim returns_mono) (auto simp: handled_def same_nets_def)
    qed
    have fr: "returns (do { (r, s) \<leftarrow> ip4_reass lo p s2;
          case r of None \<Rightarrow> Some (ERR_OK, s) | Some p \<Rightarrow> do { iphdr \<leftarrow> pb_payload (the_pbuf s p); ip4_deliver lo p iphdr hlen netif inp s } })
        (\<lambda>(e, s'). e = ERR_OK \<and> handled I s (R(p := 0)) C s')"
      if len_ok: "\<not> (hlen > pb_len (the_pbuf s1 p) \<or> len > pb_tot_len (the_pbuf s1 p) \<or> hlen < of_nat IP_HLEN)"
        and frag: "get16 (iph_offset h) s2 AND lwip_htons (IP_OFFMASK OR IP_MF) \<noteq> 0" for netif
    proof -
      have "0 < plen (nmem s2) p" using len_ok s2(8) by (auto simp: word_le_nat_alt not_less IP_HLEN_def)
      then obtain s3 where "ip4_reass lo p s2 = Some (None, s3)" "ip_ok I s3 (R(p := 0)) C" "same_nets s2 s3"
        using ip4_reass_ok [OF s2(1) p(1) s2(4,5) _ nets2 s2(2,7) frag, of lo] by (auto simp: returns_def)
      then show ?thesis using s2(3) by (auto simp: handled_def same_nets_def intro!: exI [of _ C])
    qed
    show ?thesis
    proof (cases "hlen > pb_len (the_pbuf s1 p) \<or> len > pb_tot_len (the_pbuf s1 p) \<or> hlen < of_nat IP_HLEN")
      case True
      show ?thesis unfolding if_P [OF True] by (rule d1)
    next
      case False
      show ?thesis unfolding if_not_P [OF False] Let_def s2_def [symmetric]
      proof (rule returns_if [OF d1], rule returns_if [OF d2], cases "ip4_input_netif inp s2")
        case None
        show "returns (case ip4_input_netif inp s2 of None \<Rightarrow> drop_packet p s2
          | Some netif \<Rightarrow>
              if get16 (iph_offset h) s2 AND lwip_htons (IP_OFFMASK OR IP_MF) \<noteq> 0 then
                do { (r, s) \<leftarrow> ip4_reass lo p s2;
                     case r of None \<Rightarrow> Some (ERR_OK, s)
                     | Some p \<Rightarrow> do { iphdr \<leftarrow> pb_payload (the_pbuf s p); ip4_deliver lo p iphdr hlen netif inp s } }
              else ip4_deliver lo p h hlen netif inp s2) (\<lambda>(e, s'). e = ERR_OK \<and> handled I s (R(p := 0)) C s')"
          unfolding None option.case by (rule d2)
      next
        case (Some netif)
        show "returns (case ip4_input_netif inp s2 of None \<Rightarrow> drop_packet p s2
          | Some netif \<Rightarrow>
              if get16 (iph_offset h) s2 AND lwip_htons (IP_OFFMASK OR IP_MF) \<noteq> 0 then
                do { (r, s) \<leftarrow> ip4_reass lo p s2;
                     case r of None \<Rightarrow> Some (ERR_OK, s)
                     | Some p \<Rightarrow> do { iphdr \<leftarrow> pb_payload (the_pbuf s p); ip4_deliver lo p iphdr hlen netif inp s } }
              else ip4_deliver lo p h hlen netif inp s2) (\<lambda>(e, s'). e = ERR_OK \<and> handled I s (R(p := 0)) C s')"
          unfolding Some option.case using fr [OF False] del [OF False Some]
          by (cases "get16 (iph_offset h) s2 AND lwip_htons (IP_OFFMASK OR IP_MF) = 0") simp_all
      qed
    qed
  qed
  show ?thesis
  proof (cases "IPH_V h s \<noteq> 4")
    case True
    then show ?thesis using drop [OF ok idle nets] h by (simp add: ip4_input_def)
  next
    case v: False
    show ?thesis
    proof (cases "len < pb_tot_len (the_pbuf s p)")
      case False
      note b = body [OF ok _ idle p(2-4) h]
      show ?thesis using b v h False unfolding ip4_input_def len_def hlen_def Let_def
        by (simp split del: if_split cong: if_cong)
    next
      case True
      show ?thesis
      proof (rule realloc_rx [OF ok p0 p(2,3) True])
        fix m assume m: "on_mem (pbuf_realloc (Some p) len) s = Some (s\<lparr>nmem := m\<rparr>)" "net_ok I (s\<lparr>nmem := m\<rparr>) {} R C"
          "plen m p = unat len" "pb_payload (pbufs m p) = pb_payload (the_pbuf s p)" "rx_packet (s\<lparr>nmem := m\<rparr>) C p"
        have l: "plen (nmem (s\<lparr>nmem := m\<rparr>)) p \<le> 256"
          using m(3) True p(4) packet_tot(1) [OF ok p0] p(2) by (simp add: word_less_nat_alt rx_packet_def)
        have "same_nets s (s\<lparr>nmem := m\<rparr>)" "reass_idle (s\<lparr>nmem := m\<rparr>)" "queued (arp_table (s\<lparr>nmem := m\<rparr>)) p = 0"
          "pb_payload (the_pbuf (s\<lparr>nmem := m\<rparr>) p) = Some h" using idle p(3) m(4) h by (simp_all add: reass_idle_def)
        note b = body [OF m(2) this(1,2) m(5) this(3) l this(4)]
        show ?thesis using b v h True m(1) unfolding ip4_input_def len_def hlen_def Let_def
          by (simp split del: if_split cong: if_cong)
      qed
    qed
  qed
qed

section \<open>Ethernet\<close>

lemma eth_header_off:
  assumes ok: "net_ok I s L R C" and p: "0 < R p" "rx_packet s C p" "queued (arp_table s) p = 0" "14 \<le> plen (nmem s) p"
  obtains m where "in_mem (pbuf_remove_header (Some p) SIZEOF_ETH_HDR) s = Some (False, s\<lparr>nmem := m\<rparr>)" "net_ok I (s\<lparr>nmem := m\<rparr>) L R C"
    "plen m p = plen (nmem s) p - 14" "rx_packet (s\<lparr>nmem := m\<rparr>) C p" "data_bytes m = data_bytes (nmem s)"
    "pb_payload (pbufs m p) = Some (ptr_add (the (pb_payload (the_pbuf s p))) 14)"
proof (rule remove_header_net [OF ok p(1,3)])
  show "SIZEOF_ETH_HDR \<le> plen (nmem s) p" using p(4) by (simp add: SIZEOF_ETH_HDR_def)
  fix m pl assume m: "pbuf_remove_header (Some p) SIZEOF_ETH_HDR (nmem s) = Some (False, m)"
    "in_mem (pbuf_remove_header (Some p) SIZEOF_ETH_HDR) s = Some (False, s\<lparr>nmem := m\<rparr>)" "net_ok I (s\<lparr>nmem := m\<rparr>) L R C"
    "plen m p = plen (nmem s) p - SIZEOF_ETH_HDR" "data_bytes m = data_bytes (nmem s)" "pb_payload (the_pbuf s p) = Some pl"
    "pb_payload (pbufs m p) = Some (ptr_add pl (int SIZEOF_ETH_HDR))"
  then show thesis using that p(2) remove_header_fields(1) [OF m(1), of p] by (simp add: rx_packet_def SIZEOF_ETH_HDR_def)
qed

lemma frame_flags_custom: "(f OR frame_flags h s) AND PBUF_FLAG_IS_CUSTOM = f AND PBUF_FLAG_IS_CUSTOM"
proof -
  have "frame_flags h s AND PBUF_FLAG_IS_CUSTOM = 0"
    by (simp add: frame_flags_def PBUF_FLAG_LLMCAST_def PBUF_FLAG_LLBCAST_def PBUF_FLAG_IS_CUSTOM_def)
  then show ?thesis by (simp add: bit.conj_disj_distrib2)
qed

text \<open>The packet is marked with its interface and with the kind of its destination; then its type decides.\<close>

lemma ethernet_input_steps:
  assumes ok: "net_ok I s L R C" and p: "0 < R p" "rx_packet s C p" "queued (arp_table s) p = 0"
    and h: "pb_payload (the_pbuf s p) = Some h" and long: "\<not> unat (pb_len (the_pbuf s p)) \<le> SIZEOF_ETH_HDR"
  obtains s2 where "s2 = s\<lparr>nmem := nmem s2\<rparr>" "net_ok I s2 L R C" "plen (nmem s2) p = plen (nmem s) p" "rx_packet s2 C p"
    "pb_payload (the_pbuf s2 p) = Some h" "data_bytes (nmem s2) = data_bytes (nmem s)"
    "ethernet_input lo p inp s =
       (if get16 (eth_type_at h) s = lwip_htons ETHTYPE_IP then
          if netif_flags inp AND NETIF_FLAG_ETHARP = 0 then drop_packet p s2
          else do { (failed, s) \<leftarrow> in_mem (pbuf_remove_header (Some p) SIZEOF_ETH_HDR) s2;
                    if failed then drop_packet p s else do { (_, s) \<leftarrow> ip4_input lo p inp s; Some (ERR_OK, s) } }
        else if get16 (eth_type_at h) s = lwip_htons ETHTYPE_ARP then
          if netif_flags inp AND NETIF_FLAG_ETHARP = 0 then drop_packet p s2
          else do { (failed, s) \<leftarrow> in_mem (pbuf_remove_header (Some p) SIZEOF_ETH_HDR) s2;
                    if failed then drop_packet p s else do { s \<leftarrow> etharp_input lo p inp s; Some (ERR_OK, s) } }
        else drop_packet p s2)"
proof -
  define s1 where "s1 = (if pb_if_idx (the_pbuf s p) = NETIF_NO_INDEX
      then s\<lparr>nmem := upd_pbuf p (\<lambda>b. b\<lparr>pb_if_idx := netif_get_index inp\<rparr>) (nmem s)\<rparr> else s)"
  define s2 where "s2 = s1\<lparr>nmem := upd_pbuf p (\<lambda>b. b\<lparr>pb_flags := pb_flags b OR frame_flags h s1\<rparr>) (nmem s1)\<rparr>"
  have idx: "net_ok I (s\<lparr>nmem := upd_pbuf p (\<lambda>b. b\<lparr>pb_if_idx := netif_get_index inp\<rparr>) (nmem s)\<rparr>) L R C"
    by (rule upd_flags_net [of I s L R C p, OF ok p(1,3)]) simp_all
  have ok1: "net_ok I s1 L R C" using ok idx by (simp add: s1_def)
  have q1: "queued (arp_table s1) p = 0" using p(3) by (simp add: s1_def)
  have ok2: "net_ok I s2 L R C" unfolding s2_def
    by (rule upd_flags_net [of I s1 L R C p, OF ok1 p(1) q1]) (simp_all add: frame_flags_custom)
  have u1: "(if pb_if_idx (the_pbuf s p) = NETIF_NO_INDEX
              then on_mem (\<lambda>m. Some (upd_pbuf p (\<lambda>b. b\<lparr>pb_if_idx := netif_get_index inp\<rparr>) m)) s else Some s) = Some s1"
    by (simp add: s1_def on_mem_def)
  have u2: "on_mem (\<lambda>m. Some (upd_pbuf p (\<lambda>b. b\<lparr>pb_flags := pb_flags b OR frame_flags h s1\<rparr>) m)) s1 = Some s2"
    by (simp add: s2_def on_mem_def)
  show thesis
  proof (rule that [OF _ ok2])
    show "s2 = s\<lparr>nmem := nmem s2\<rparr>" "plen (nmem s2) p = plen (nmem s) p" "rx_packet s2 C p" "pb_payload (the_pbuf s2 p) = Some h"
      "data_bytes (nmem s2) = data_bytes (nmem s)"
      using p(2) h by (simp_all add: s2_def s1_def upd_pbuf_def rx_packet_def)
  qed (unfold ethernet_input_def if_not_P [OF long] h Option.bind.bind_lunit Let_def u1 u2, rule refl)
qed

lemma ethernet_input_ok:
  assumes lo: "link_ok lo I" and ok: "net_ok I s {} R C" and nets: "nets_ok s" and idle: "reass_idle s"
    and p: "R p = 1" "rx_packet s C p" "queued (arp_table s) p = 0" "plen (nmem s) p \<le> 256"
    and n: "attached s inp" "576 \<le> unat (netif_mtu inp)"
  shows "returns (ethernet_input lo p inp s) (\<lambda>(e, s'). e = ERR_OK \<and> handled I s (R(p := 0)) C s')"
proof -
  have p0: "0 < R p" using p(1) by simp
  obtain h where h: "pb_payload (the_pbuf s p) = Some h" using net_ok_payload [of I s "{}" R C p, OF ok p0] by blast
  have drop: "returns (drop_packet p s') (\<lambda>(e, s''). e = ERR_OK \<and> handled I s (R(p := 0)) C s'')"
    if "net_ok I s' {} R C" "reass_idle s'" "nets_ok s'" "same_nets s s'" for s'
    using drop_packet_ok [OF that(1) p(1) that(2,3)] that(4)
    by (elim returns_mono) (auto simp: handled_def same_nets_def)
  show ?thesis
  proof (cases "unat (pb_len (the_pbuf s p)) \<le> SIZEOF_ETH_HDR")
    case True
    then show ?thesis using drop [OF ok idle nets] by (simp add: ethernet_input_def)
  next
    case long: False
    show ?thesis
    proof (cases rule: ethernet_input_steps [OF ok p0 p(2,3) h long, of lo inp])
    case e: (1 s2)
    note ok2 = e(2) and run = e(7)
    have same: "arp_table s2 = arp_table s" "netif_list s2 = netif_list s" "reassdatagrams s2 = reassdatagrams s" "ip_reass_pbufcount s2 = ip_reass_pbufcount s"
      "reass_next s2 = reass_next s" "netif_default s2 = netif_default s"
      by (subst e(1), simp)+
    have s2: "queued (arp_table s2) p = 0" "plen (nmem s2) p = plen (nmem s) p" "rx_packet s2 C p" "reass_idle s2" "nets_ok s2" "same_nets s s2"
      using p(3) idle nets e(3,4) same by (simp_all add: reass_idle_def nets_ok_def same_nets_def)
    have l2: "14 \<le> plen (nmem s2) p" using long s2(2) by (simp add: SIZEOF_ETH_HDR_def)
    note d2 = drop [OF ok2 s2(4-6)]
    show ?thesis
    proof (rule eth_header_off [OF ok2 p0 s2(3,1) l2])
      fix m assume m: "in_mem (pbuf_remove_header (Some p) SIZEOF_ETH_HDR) s2 = Some (False, s2\<lparr>nmem := m\<rparr>)" "net_ok I (s2\<lparr>nmem := m\<rparr>) {} R C"
        "plen m p = plen (nmem s2) p - 14" "rx_packet (s2\<lparr>nmem := m\<rparr>) C p"
      let ?s = "s2\<lparr>nmem := m\<rparr>"
      have s3: "queued (arp_table ?s) p = 0" "plen (nmem ?s) p \<le> 256" "reass_idle ?s" "nets_ok ?s" "same_nets s ?s"
        using s2 m(3) p(4) by (simp_all add: nets_ok_def)
      have att: "attached ?s inp" using n(1) netif_deref_list [of ?s s] s3(5) by (simp add: attached_def same_nets_def)
      have ip: "returns (do { (_, s) \<leftarrow> ip4_input lo p inp ?s; Some (ERR_OK, s) }) (\<lambda>(e, s'). e = ERR_OK \<and> handled I s (R(p := 0)) C s')"
        using ip4_input_ok [OF lo m(2) s3(4,3) p(1) m(4) s3(1,2) att n(2)] s3(5) by (auto simp: returns_def handled_def same_nets_def)
      have arp: "returns (do { s \<leftarrow> etharp_input lo p inp ?s; Some (ERR_OK, s) }) (\<lambda>(e, s'). e = ERR_OK \<and> handled I s (R(p := 0)) C s')"
      proof -
        obtain ah where ah: "pb_payload (the_pbuf ?s p) = Some ah" using net_ok_payload [of I ?s "{}" R C p, OF m(2) p0] by blast
        have R: "R(p := R p - 1) = R(p := 0)" using p(1) by simp
        obtain s' where s': "etharp_input lo p inp ?s = Some s'" "net_ok I s' {} (R(p := 0)) C" "rest s' = rest ?s"
          using etharp_input_ok [OF lo m(2) att p0 ah] unfolding R returns_def by blast
        have "reass_idle s'" "nets_ok s'" "same_nets s s'" using s'(3) s3(3-5) by (simp_all add: rest_def reass_idle_def nets_ok_def same_nets_def)
        then have "handled I s (R(p := 0)) C s'" using s'(2) by (auto simp: handled_def ip_ok_idle intro!: exI [of _ C])
        then show ?thesis using s'(1) by simp
      qed
      show ?thesis unfolding run m(1) Option.bind.bind_lunit prod.case if_False
        by (rule returns_if [OF returns_if [OF d2 ip] returns_if [OF returns_if [OF d2 arp] d2]])
    qed
    qed
  qed
qed

end
