(* ===== verification/Lwip_Stack.thy ===== *)
theory Lwip_Stack
  imports Lwip_Input_Safe
begin

unbundle bit_operations_syntax

text \<open>
  The stack as the main loop drives it: frames are received into the buffer of the pool and handed to \<open>ethernet_input\<close>,
  and the timers run.  No order of these steps makes an assertion fail or loses memory.
\<close>

declare split_paired_All [simp del] split_paired_Ex [simp del]

section \<open>The receive buffer\<close>

lemma pool_type:
  assumes m: "mem_ok st L" and r: "pbuf_alloc layer len PBUF_POOL st = Some (Some p, st')"
  shows "pb_type_internal (pbufs st' p) = 0x82"
proof -
  have one: "elems MEMP_PBUF_POOL = {(Pool MEMP_PBUF_POOL, 0)}" by (auto simp: elems_def)
  obtain q m1 where q: "st_memp_malloc MEMP_PBUF_POOL st = Some (q, m1)" "same_data st m1"
    "case q of None \<Rightarrow> m1 = st | Some a \<Rightarrow> a \<in> elems MEMP_PBUF_POOL \<and> a \<notin> L \<and> mem_ok m1 (insert a L)"
    using st_memp_malloc_ok [OF m, of MEMP_PBUF_POOL] by blast
  show ?thesis
  proof (cases q)
    case None
    then show ?thesis using r q(1) by (simp add: pbuf_alloc_def Let_def pool_loop.simps [of None])
  next
    case (Some a)
    define m2 where "m2 = pbuf_init_alloced_pbuf a (Some (LWIP_MEM_ALIGN (ptr_add a (int (SIZEOF_STRUCT_PBUF + layer_num layer))))) len
      (min len (of_nat (PBUF_POOL_BUFSIZE_ALIGNED - LWIP_MEM_ALIGN_SIZE (layer_num layer)))) PBUF_POOL 0 m1"
    have a: "a \<in> elems MEMP_PBUF_POOL" "mem_ok m1 (insert a L)" using q(3) Some by simp_all
    have "ram_heap m2 = ram_heap m1" "pools m2 = pools m1" by (simp_all add: m2_def pbuf_init_alloced_pbuf_def upd_pbuf_def)
    then have m2: "mem_ok m2 (insert a L)" using a(2) by (simp add: mem_ok_def)
    obtain q3 m3 where q3: "st_memp_malloc MEMP_PBUF_POOL m2 = Some (q3, m3)"
      "case q3 of None \<Rightarrow> m3 = m2 | Some b \<Rightarrow> b \<in> elems MEMP_PBUF_POOL \<and> b \<notin> insert a L \<and> mem_ok m3 (insert b (insert a L))"
      using st_memp_malloc_ok [OF m2, of MEMP_PBUF_POOL] by blast
    have none: "q3 = None" using q3(2) a(1) by (auto simp: one split: option.splits)
    have second: "pool_loop (Some a) l n off m2 = do { r \<leftarrow> pbuf_free (Some a) m3; Some (None, snd r) }" for l n off
      using q3(1) none by (simp add: pool_loop.simps [of "Some a"])
    have "p = a \<and> st' = m2" using r q(1) Some second unfolding m2_def
      unfolding pbuf_alloc_def pool_loop.simps [of None]
      by (auto simp: Let_def bind_Some_iff split: if_splits)
    then show ?thesis by (simp add: m2_def pbuf_init_alloced_pbuf_def upd_pbuf_def)
  qed
qed

text \<open>A failed allocation changes nothing that matters.\<close>

lemma pool_alloc_fails:
  assumes ok: "net_ok I s L R C"
  shows "\<exists>r m. pbuf_alloc layer len PBUF_POOL (nmem s) = Some (r, m) \<and>
    (r = None \<longrightarrow> net_ok I (s\<lparr>nmem := m\<rparr>) L R C \<and> keeps (refs s R) C (nmem s) m) \<and>
    (\<forall>p. r = Some p \<longrightarrow> R p = 0 \<and> queued (arp_table s) p = 0 \<and> p \<in> elems MEMP_PBUF_POOL \<and> plen m p = unat len \<and> unat len \<le> 256)"
proof -
  obtain r m where r: "pbuf_alloc layer len PBUF_POOL (nmem s) = Some (r, m)" "keeps (refs s R) C (nmem s) m"
    "case r of None \<Rightarrow> held m L (refs s R) C
     | Some a \<Rightarrow> refs s R a = 0 \<and> held m L ((refs s R)(a := 1)) (C(a := [a])) \<and> pool_pbuf m a \<and> plen m a = unat len \<and> unat len \<le> 256"
    using held_alloc_pool [OF net_okD(4) [OF ok], of layer len] by blast
  have "net_ok I (s\<lparr>nmem := m\<rparr>) L R C" if "r = None"
    by (rule net_ok_mem [OF ok]) (use r(2,3) that net_okD(1) [OF ok] keeps_lens [OF r(2)] in simp_all)
  moreover have "R p = 0 \<and> queued (arp_table s) p = 0 \<and> p \<in> elems MEMP_PBUF_POOL \<and> plen m p = unat len \<and> unat len \<le> 256" if "r = Some p" for p
  proof -
    have "refs s R p = 0 \<and> pool_pbuf m p \<and> plen m p = unat len \<and> unat len \<le> 256" using r(3) unfolding that option.case by (elim conjE) (intro conjI; assumption)
    then show ?thesis by (simp add: pool_pbuf_def)
  qed
  ultimately show ?thesis using r(1,2) by (intro exI [of _ r] exI [of _ m]) simp
qed

text \<open>
  The buffer for a frame: none, and nothing has changed, or a new packet that is the only one of the pool; then no
  fragment waits.
\<close>

lemma rx_alloc:
  assumes ok: "ip_ok I s R C"
  shows "returns (in_mem (pbuf_alloc PBUF_RAW len PBUF_POOL) s) (\<lambda>(r, s'). same_nets s s' \<and> device s' = device s \<and>
    (case r of None \<Rightarrow> ip_ok I s' R C
     | Some p \<Rightarrow> R p = 0 \<and> queued (arp_table s') p = 0 \<and> reass_idle s' \<and> nets_ok s' \<and> net_ok I s' {} (R(p := 1)) (C(p := [p])) \<and>
         rx_packet s' (C(p := [p])) p \<and> plen (nmem s') p = unat len \<and> unat len \<le> 256))"
proof (cases "reass_idle s")
  case True
  then have n: "net_ok I s {} R C" "nets_ok s" using ok ip_ok_idle by blast+
  obtain r m where r: "pbuf_alloc PBUF_RAW len PBUF_POOL (nmem s) = Some (r, m)"
    "r = None \<longrightarrow> net_ok I (s\<lparr>nmem := m\<rparr>) {} R C"
    "\<forall>p. r = Some p \<longrightarrow> R p = 0 \<and> queued (arp_table s) p = 0 \<and> p \<in> elems MEMP_PBUF_POOL \<and> plen m p = unat len \<and> unat len \<le> 256"
    using pool_alloc_fails [OF n(1), of PBUF_RAW len] by blast
  have run: "in_mem (pbuf_alloc PBUF_RAW len PBUF_POOL) s = Some (r, s\<lparr>nmem := m\<rparr>)" using r(1) by (simp add: in_mem_def)
  have idle: "reass_idle (s\<lparr>nmem := m\<rparr>)" "nets_ok (s\<lparr>nmem := m\<rparr>)" using True n(2) by (simp_all add: nets_ok_def)
  show ?thesis
  proof (cases r)
    case None
    then have "ip_ok I (s\<lparr>nmem := m\<rparr>) R C" using r(2) idle ip_ok_idle by blast
    then show ?thesis using run None by (simp add: returns_def)
  next
    case (Some p)
    have p: "R p = 0" "queued (arp_table s) p = 0" "p \<in> elems MEMP_PBUF_POOL" "plen m p = unat len" "unat len \<le> 256"
      using r(3) Some by blast+
    have new: "net_ok I (s\<lparr>nmem := m\<rparr>) {} (R(p := 1)) (C(p := [p]))" using new_packet_ok [OF n(1) _ run [unfolded Some]] by simp
    have ty: "pb_type_internal (pbufs m p) = 0x82"
      by (rule pool_type [OF held_mem [OF net_okD(4) [OF n(1)]] r(1) [unfolded Some]])
    show ?thesis using run Some p new idle ty by (simp add: returns_def rx_packet_def del: fun_upd_apply) (simp add: fun_upd_apply)
  qed
next
  case False
  then obtain a q where w: "reass_waits s a q" "a \<in> elems MEMP_REASSDATA" "R q = 0" "queued (arp_table s) q = 0"
    "rx_packet s C q" "0 < plen (nmem s) q" "net_ok I s {a} (R(q := 1)) C" "nets_ok s" using ok unfolding ip_ok_def by blast
  have q1: "0 < (R(q := 1)) q" by simp
  obtain s' where "in_mem (pbuf_alloc PBUF_RAW len PBUF_POOL) s = Some (None, s')"
    using pool_busy [of I s "{a}" "R(q := 1)" C q q len, OF w(7) disjI1 [OF q1]] w(5) by (auto simp: rx_packet_def)
  moreover obtain r m where r: "pbuf_alloc PBUF_RAW len PBUF_POOL (nmem s) = Some (r, m)"
    "r = None \<longrightarrow> net_ok I (s\<lparr>nmem := m\<rparr>) {a} (R(q := 1)) C \<and> keeps (refs s (R(q := 1))) C (nmem s) m"
    using pool_alloc_fails [OF w(7), of PBUF_RAW len] by blast
  ultimately have run: "in_mem (pbuf_alloc PBUF_RAW len PBUF_POOL) s = Some (None, s\<lparr>nmem := m\<rparr>)"
    and n: "net_ok I (s\<lparr>nmem := m\<rparr>) {a} (R(q := 1)) C" and k: "keeps (refs s (R(q := 1))) C (nmem s) m"
    by (auto simp: in_mem_def)
  have "q \<in> all_blocks (refs s (R(q := 1))) C" using w(5) by (auto simp: all_blocks_def rx_packet_def intro!: exI [of _ q])
  then have "like (the_pbuf s q) (pbufs m q)" using k by (simp add: keeps_def)
  then have "rx_packet (s\<lparr>nmem := m\<rparr>) C q" "0 < plen m q" using w(5,6) by (simp_all add: rx_packet_def like_def)
  moreover have "reass_waits (s\<lparr>nmem := m\<rparr>) a q" "nets_ok (s\<lparr>nmem := m\<rparr>)" using w(1,8) by (simp_all add: reass_waits_def nets_ok_def)
  ultimately have "ip_ok I (s\<lparr>nmem := m\<rparr>) R C" using w(2-4) n by (auto simp: ip_ok_def)
  then show ?thesis using run by (simp add: returns_def)
qed

section \<open>The timers\<close>

lemma aged_q: "ae_q (aged e) = ae_q e \<or> ae_q (aged e) = None"
  by (simp add: aged_def)

lemma queued_aged: "queued t p = 0 \<Longrightarrow> queued (map aged t) p = 0"
proof -
  assume "queued t p = 0"
  then have "Some p \<notin> set (map ae_q t)" by (simp add: queued_def not_in_iff [symmetric])
  then have "Some p \<notin> set (map ae_q (map aged t))" using aged_q by force
  then show ?thesis by (simp add: queued_def not_in_iff [symmetric])
qed

lemma etharp_tmr_ip:
  assumes lo: "link_ok lo I" and ok: "ip_ok I s R C"
  shows "returns (etharp_tmr lo s) (\<lambda>s'. ip_ok I s' R C \<and> same_nets s s')"
proof (cases "reass_idle s")
  case True
  then have n: "net_ok I s {} R C" "nets_ok s" using ok ip_ok_idle by blast+
  show ?thesis using etharp_tmr_ok [OF lo n(1)] True n(2)
    by (elim returns_mono) (auto simp: ip_ok_def reass_idle_def rest_def nets_ok_def same_nets_def)
next
  case False
  then obtain a q where w: "reass_waits s a q" "a \<in> elems MEMP_REASSDATA" "R q = 0" "queued (arp_table s) q = 0"
    "rx_packet s C q" "0 < plen (nmem s) q" "net_ok I s {a} (R(q := 1)) C" "nets_ok s" using ok unfolding ip_ok_def by blast
  obtain s' where s': "etharp_tmr lo s = Some s'" "net_ok I s' {a} (R(q := 1)) C" "rest s' = rest s"
    "arp_table s' = map aged (arp_table s)" "keeps (R(q := 1)) C (nmem s) (nmem s')"
    using etharp_tmr_ok [OF lo w(7)] by (auto simp: returns_def)
  have "q \<in> all_blocks (R(q := 1)) C" using w(5) by (auto simp: all_blocks_def rx_packet_def intro!: exI [of _ q])
  then have "like (the_pbuf s q) (the_pbuf s' q)" using s'(5) by (simp add: keeps_def)
  then have "rx_packet s' C q" "0 < plen (nmem s') q" using w(5,6) by (simp_all add: rx_packet_def like_def)
  moreover have "reass_waits s' a q" "nets_ok s'" "same_nets s s'" using s'(3) w(1,8)
    by (simp_all add: rest_def reass_waits_def nets_ok_def same_nets_def)
  ultimately have "ip_ok I s' R C" using w(2,3) queued_aged [OF w(4)] s'(2,4) by (auto simp: ip_ok_def)
  then show ?thesis using s'(1) \<open>same_nets s s'\<close> by (simp add: returns_def)
qed

section \<open>The driver's contract\<close>

text \<open>A packet that has just been received: it is the only packet in the hands of the stack's caller.\<close>

definition received :: "('d \<Rightarrow> bool) \<Rightarrow> 'd net_st \<Rightarrow> (ptr \<Rightarrow> nat) \<Rightarrow> (ptr \<Rightarrow> ptr list) \<Rightarrow> ptr \<Rightarrow> bool" where
  "received I s R C p \<longleftrightarrow> R p = 0 \<and> queued (arp_table s) p = 0 \<and> reass_idle s \<and> nets_ok s \<and> net_ok I s {} (R(p := 1)) C \<and>
     rx_packet s C p \<and> plen (nmem s) p \<le> 256"

text \<open>
  What the stack relies on: output returns for every packet that is not too long, input returns, with a packet of the pool
  or without; both keep the driver's invariant.
\<close>

locale link_driver =
  fixes lo :: "'d link_fn"
    and receive :: "'d net_st \<Rightarrow> (ptr option \<times> 'd net_st) option"
    and I :: "'d \<Rightarrow> bool"
  assumes output_law: "link_ok lo I"
    and input_law: "ip_ok I s R C \<Longrightarrow> returns (receive s) (\<lambda>(r, s'). same_nets s s' \<and>
      (case r of None \<Rightarrow> ip_ok I s' R C | Some p \<Rightarrow> received I s' R (C(p := [p])) p))"
begin

text \<open>One frame from the driver through the stack: it is consumed.\<close>

lemma frame_consumed:
  assumes r: "received I s R C p" and n: "netif_deref (Some k) s = Some n"
  shows "returns (ethernet_input lo p n s) (\<lambda>(e, s'). e = ERR_OK \<and> (\<exists>C'. ip_ok I s' R C' \<and> same_held R C C') \<and> same_nets s s')"
proof -
  have R: "(R(p := 1))(p := 0) = R" "(R(p := 1)) p = 1" using r by (auto simp: received_def)
  have mem: "n \<in> set (netif_list s)" using n by (auto simp: netif_deref_def find_Some_iff)
  note r' = r [unfolded received_def]
  have att: "attached s n" using r' in_list_attached [of I s "{}" "R(p := 1)" C n] mem by blast
  have mtu: "576 \<le> unat (netif_mtu n)" using r' mem by (simp add: nets_ok_def)
  have "returns (ethernet_input lo p n s) (\<lambda>(e, s'). e = ERR_OK \<and> handled I s ((R(p := 1))(p := 0)) C s')"
    by (rule ethernet_input_ok [of lo I s "R(p := 1)" C p n]) (use r' output_law R(2) att mtu in blast)+
  then show ?thesis unfolding R by (elim returns_mono) (auto simp: handled_def)
qed

text \<open>A round of the main loop up to the timers.\<close>

lemma input_round:
  assumes ok: "ip_ok I s R C" and n: "netif_deref (Some k) s = Some n"
  shows "returns (do { (p, s) \<leftarrow> receive s;
      case p of
        None \<Rightarrow> Some s
      | Some p \<Rightarrow> do { netif \<leftarrow> netif_deref (Some k) s; (e, s) \<leftarrow> ethernet_input lo p netif s;
                       if e \<noteq> ERR_OK then free_pbuf p s else Some s } })
    (\<lambda>s'. (\<exists>C'. ip_ok I s' R C' \<and> same_held R C C') \<and> same_nets s s')"
proof -
  obtain r s1 where s1: "receive s = Some (r, s1)" "same_nets s s1"
    "case r of None \<Rightarrow> ip_ok I s1 R C | Some p \<Rightarrow> received I s1 R (C(p := [p])) p"
    using input_law [OF ok] by (auto simp: returns_def)
  show ?thesis
  proof (cases r)
    case None
    then show ?thesis using s1 by (auto intro!: exI [of _ C])
  next
    case (Some p)
    have n1: "netif_deref (Some k) s1 = Some n" using n netif_deref_list [of s1 s "Some k"] s1(2) by (simp add: same_nets_def)
    have rc: "received I s1 R (C(p := [p])) p" using s1(3) Some by simp
    obtain s2 C' where s2: "ethernet_input lo p n s1 = Some (ERR_OK, s2)" "ip_ok I s2 R C'" "same_held R (C(p := [p])) C'" "same_nets s1 s2"
      using frame_consumed [OF rc n1] by (auto simp: returns_def)
    have "same_held R C C'" using s2(3) rc by (auto simp: same_held_def received_def split: if_splits)
    then show ?thesis using s1(1,2) Some n1 s2 by (auto simp: same_nets_def)
  qed
qed

lemma timer_round:
  assumes "ip_ok I s R C"
  shows "returns (ip_reass_tmr lo s) (\<lambda>s'. (\<exists>C'. ip_ok I s' R C' \<and> same_held R C C') \<and> same_nets s s')"
    "returns (etharp_tmr lo s) (\<lambda>s'. (\<exists>C'. ip_ok I s' R C' \<and> same_held R C C') \<and> same_nets s s')"
  using ip_reass_tmr_ok [OF output_law assms] etharp_tmr_ip [OF output_law assms]
  by (auto elim!: returns_mono intro!: exI [of _ C])

end

end
