(* ===== verification/Main_Link.thy ===== *)
theory Main_Link
  imports Main_Glue Lwip_Stack Lwip_Pbuf_Data
begin

unbundle bit_operations_syntax

text \<open>
  The driver functions of the interface meet the contract under which the stack is verified (\<open>link_driver\<close>): output returns
  for every packet the stack sends, and puts its bytes into the transmit buffer; input returns a packet of the pool or
  none.  What the chip is assumed to do is that of \<open>Enc_Xfer\<close>: it answers truthfully which bank is selected, and every
  transmission ends.
\<close>

declare split_paired_All [simp del] split_paired_Ex [simp del]

section \<open>Output\<close>

lemma mem_bytes_read: "mem_bytes (\<lambda>i. m (ptr_add p i)) 0 n = read_bytes m p n"
  by (simp add: mem_bytes_def read_bytes_def)

lemma chain_step:
  assumes "chain m q (a # as)"
  obtains pl where "q = Some a" "pb_payload (pbufs m a) = Some pl" "chain m (pb_next (pbufs m a)) as"
  using assms by (auto simp: chain_def)

text \<open>Pbuf after pbuf lands behind the one before it.\<close>

lemma wire_output_chain:
  assumes "chain m q as" "lens m as \<le> 32767" "coherent rv d h"
  shows "\<exists>b h'. output_chain (wire_io R) q m (d, h) = Some (d\<lparr>bank := b, tx_buff_ptr := tx_buff_ptr d + of_nat (lens m as)\<rparr>, h') \<and>
    coherent rv (d\<lparr>bank := b\<rparr>) h' \<and>
    (autoinc (view rv h) \<and> unat (tx_buff_ptr d) + lens m as \<le> 0x2000 \<longrightarrow> autoinc (view rv h') \<and>
      hv_mem (view rv h') = mem_write (tx_buff_ptr d) (content m as) (hv_mem (view rv h)))"
  using assms
proof (induction as arbitrary: q d h)
  case Nil
  then have "q = None" by (cases q) (auto simp: chain_def)
  then show ?case using Nil.prems(3) by (subst output_chain.simps) (auto simp: content_def intro!: exI [of _ "bank d"])
next
  case (Cons a as)
  obtain pl where pl: "q = Some a" "pb_payload (pbufs m a) = Some pl" and c: "chain m (pb_next (pbufs m a)) as"
    using chain_step [OF Cons.prems(1)] by blast
  let ?n = "pb_len (pbufs m a)" and ?buf = "\<lambda>i. data_bytes m (ptr_add pl i)"
  let ?d = "d\<lparr>bank := Bank0, tx_buff_ptr := tx_buff_ptr d + ?n\<rparr>"
  have n: "unat ?n \<le> 32767" "lens m as \<le> 32767" using Cons.prems(2) by simp_all
  have chunk: "mem_bytes ?buf 0 (unat ?n) = chunk m a" using pl(2) by (simp add: mem_bytes_read chunk_def)
  obtain h1 where h1: "enc28j60_write_to_tx (wire_io R) ?buf ?n (d, h) = Some (?d, h1)" "coherent rv ?d h1"
    "autoinc (view rv h) \<and> unat (tx_buff_ptr d) + unat ?n \<le> 0x2000 \<longrightarrow> autoinc (view rv h1) \<and>
      hv_mem (view rv h1) = mem_write (tx_buff_ptr d) (chunk m a) (hv_mem (view rv h))"
    using wire_write_to_tx [OF Cons.prems(3) n(1), of R ?buf] by (auto simp: chunk)
  obtain b h' where h': "output_chain (wire_io R) (pb_next (pbufs m a)) m (?d, h1) =
      Some (?d\<lparr>bank := b, tx_buff_ptr := tx_buff_ptr ?d + of_nat (lens m as)\<rparr>, h')" "coherent rv (?d\<lparr>bank := b\<rparr>) h'"
    "autoinc (view rv h1) \<and> unat (tx_buff_ptr ?d) + lens m as \<le> 0x2000 \<longrightarrow> autoinc (view rv h') \<and>
      hv_mem (view rv h') = mem_write (tx_buff_ptr ?d) (content m as) (hv_mem (view rv h1))"
    using Cons.IH [OF c n(2) h1(2)] by blast
  have "output_chain (wire_io R) q m (d, h) = Some (d\<lparr>bank := b, tx_buff_ptr := tx_buff_ptr d + of_nat (lens m (a # as))\<rparr>, h')"
    using h1(1) h'(1) by (subst output_chain.simps) (simp add: pl add.assoc)
  moreover have "autoinc (view rv h') \<and> hv_mem (view rv h') = mem_write (tx_buff_ptr d) (content m (a # as)) (hv_mem (view rv h))"
    if "autoinc (view rv h)" "unat (tx_buff_ptr d) + lens m (a # as) \<le> 0x2000"
  proof -
    have p: "unat (tx_buff_ptr d + ?n) = unat (tx_buff_ptr d) + unat ?n" using that(2) by (subst unat_word_ariths) simp
    have "length (chunk m a) = unat ?n" by (simp add: chunk_def)
    then have w: "mem_write (tx_buff_ptr d) (content m (a # as)) M = mem_write (tx_buff_ptr d + ?n) (content m as) (mem_write (tx_buff_ptr d) (chunk m a) M)"
      for M by (simp add: content_def mem_write_append)
    show ?thesis unfolding w using that h1(3) h'(3) p by simp
  qed
  moreover have "coherent rv (d\<lparr>bank := b\<rparr>) h'" using h'(2) by (simp add: coherent_def)
  ultimately show ?case by (intro exI [of _ b] exI [of _ h']) simp
qed

text \<open>The whole function, on the wire.\<close>

lemma wire_low_level_output:
  assumes c: "chain m (Some p) as" "lens m as \<le> 32767" and coh: "coherent rv d h"
    and ans: "bank_answers rv R" and tx: "tx_completes rv R rank"
  shows "\<exists>h'. low_level_output (wire_io R) n p m (d, h) = Some (ERR_OK, d\<lparr>bank := Bank0, tx_buff_ptr := TX_BUFFER_START_ADDR\<rparr>, h') \<and>
    coherent rv (d\<lparr>bank := Bank0\<rparr>) h' \<and> bit (hv_econ1 (view rv h')) TXRTS \<and>
    le16 (hv_regs (view rv h') (0, 4)) (hv_regs (view rv h') (0, 5)) = TX_BUFFER_START_ADDR \<and>
    le16 (hv_regs (view rv h') (0, 6)) (hv_regs (view rv h') (0, 7)) = TX_BUFFER_START_ADDR + of_nat (lens m as) \<and>
    (autoinc (view rv h) \<and> lens m as < 0x800 \<longrightarrow>
      hv_mem (view rv h') = mem_write TX_BUFFER_START_ADDR (0 # content m as) (hv_mem (view rv h)))"
proof -
  let ?d = "d\<lparr>tx_buff_ptr := TX_BUFFER_START_ADDR\<rparr>"
  let ?d1 = "?d\<lparr>bank := Bank0, tx_buff_ptr := tx_buff_ptr ?d + 1\<rparr>"
  have "coherent rv ?d h" "unat (1 :: u16) \<le> 32767" using coh by simp_all
  from wire_write_to_tx [OF this, of R "\<lambda>i. [0x00] ! nat i"] obtain h1 where
    h1: "enc28j60_write_to_tx (wire_io R) (\<lambda>i. [0x00] ! nat i) 1 (?d, h) = Some (?d1, h1)" "coherent rv ?d1 h1"
      "autoinc (view rv h) \<longrightarrow> autoinc (view rv h1) \<and> hv_mem (view rv h1) = mem_write TX_BUFFER_START_ADDR [0] (hv_mem (view rv h))"
    by (auto simp: mem_bytes_def layout_defs coherent_def)
  obtain b h2 where h2: "output_chain (wire_io R) (Some p) m (?d1, h1) =
      Some (?d1\<lparr>bank := b, tx_buff_ptr := tx_buff_ptr ?d1 + of_nat (lens m as)\<rparr>, h2)" "coherent rv (?d1\<lparr>bank := b\<rparr>) h2"
    "autoinc (view rv h1) \<and> unat (tx_buff_ptr ?d1) + lens m as \<le> 0x2000 \<longrightarrow> autoinc (view rv h2) \<and>
      hv_mem (view rv h2) = mem_write (tx_buff_ptr ?d1) (content m as) (hv_mem (view rv h1))"
    using wire_output_chain [OF c h1(2)] by blast
  define d2 where "d2 = ?d1\<lparr>bank := b, tx_buff_ptr := tx_buff_ptr ?d1 + of_nat (lens m as)\<rparr>"
  have "coherent rv d2 h2" using h2(2) by (simp add: d2_def coherent_def)
  from wire_ready_to_send [OF this ans tx] obtain h3 where
    h3: "enc28j60_ready_to_send (wire_io R) (d2, h2) = Some (d2\<lparr>bank := Bank0, tx_buff_ptr := TX_BUFFER_START_ADDR\<rparr>, h3)"
      "coherent rv (d2\<lparr>bank := Bank0\<rparr>) h3" "bit (hv_econ1 (view rv h3)) TXRTS"
      "hv_regs (view rv h3) = store_reg ETXSTL TX_BUFFER_START_ADDR (store_reg ETXNDL (tx_buff_ptr d2 - 1) (hv_regs (view rv h2)))"
      "hv_mem (view rv h3) = hv_mem (view rv h2)" by blast
  have d3: "d2\<lparr>bank := Bank0, tx_buff_ptr := TX_BUFFER_START_ADDR\<rparr> = d\<lparr>bank := Bank0, tx_buff_ptr := TX_BUFFER_START_ADDR\<rparr>"
    "coherent rv (d2\<lparr>bank := Bank0\<rparr>) h3 = coherent rv (d\<lparr>bank := Bank0\<rparr>) h3"
    "tx_buff_ptr d2 - 1 = TX_BUFFER_START_ADDR + of_nat (lens m as)"
    by (simp_all add: d2_def coherent_def)
  have room: "unat (tx_buff_ptr ?d1) + lens m as \<le> 0x2000" if "lens m as < 0x800" using that by (simp add: layout_defs)
  have "low_level_output (wire_io R) n p m (d, h) = Some (ERR_OK, d\<lparr>bank := Bank0, tx_buff_ptr := TX_BUFFER_START_ADDR\<rparr>, h3)"
    using h1(1) h2(1) h3(1) by (simp add: low_level_output_def enc28j60_prepare_to_tx_def d2_def)
  moreover have "hv_mem (view rv h3) = mem_write TX_BUFFER_START_ADDR (0 # content m as) (hv_mem (view rv h))"
    if "autoinc (view rv h)" "lens m as < 0x800"
    using h1(3) h2(3) h3(5) that room by simp
  ultimately show ?thesis
    using h3(2-4) unfolding d3(2,3) by (intro exI [of _ h3]) (simp add: store_regs)
qed

context enc_io
begin

lemma output_chain_sim:
  "chain m q as \<Longrightarrow> wrel w h \<Longrightarrow> osim srel (output_chain io q m (d, w)) (output_chain (wire_io reply) q m (d, h))"
proof (induction as arbitrary: q d w h)
  case Nil
  then have "q = None" by (cases q) (auto simp: chain_def)
  then show ?case using Nil.prems(2) output_chain.simps [of io q m] output_chain.simps [of "wire_io reply" q m] by simp
next
  case (Cons a as)
  obtain pl where pl: "q = Some a" "pb_payload (pbufs m a) = Some pl" and c: "chain m (pb_next (pbufs m a)) as"
    using chain_step [OF Cons.prems(1)] by blast
  show ?case
    unfolding output_chain.simps [of io q m] output_chain.simps [of "wire_io reply" q m]
    unfolding pl(1) option.case pl(2) bind.simps
    by (rule osim_bind_st) (rule write_to_tx_sim [OF Cons.prems(2)], rule Cons.IH [OF c])
qed

lemma low_level_output_sim:
  assumes "chain m (Some p) as" "wrel w h"
  shows "osim (rel_prod (=) srel) (low_level_output io n p m (d, w)) (low_level_output (wire_io reply) n p m (d, h))"
  using assms(2) unfolding low_level_output_def enc28j60_prepare_to_tx_def
  by (auto intro!: osim_bind_st write_to_tx_sim output_chain_sim [OF assms(1)] ready_to_send_sim)

end

text \<open>On the hardware.\<close>

lemma low_level_output_ok:
  assumes "drv_ok rv d w" "chain m (Some p) as" "lens m as \<le> 32767" "bank_answers rv (miso E)" "tx_completes rv (miso E) rank"
  shows "\<exists>w'. low_level_output (port_io E) n p m (d, w) = Some (ERR_OK, d\<lparr>bank := Bank0, tx_buff_ptr := TX_BUFFER_START_ADDR\<rparr>, w') \<and>
    drv_ok rv (d\<lparr>bank := Bank0\<rparr>) w' \<and> bit (hv_econ1 (chip rv w')) TXRTS \<and>
    le16 (hv_regs (chip rv w') (0, 4)) (hv_regs (chip rv w') (0, 5)) = TX_BUFFER_START_ADDR \<and>
    le16 (hv_regs (chip rv w') (0, 6)) (hv_regs (chip rv w') (0, 7)) = TX_BUFFER_START_ADDR + of_nat (lens m as) \<and>
    (autoinc (chip rv w) \<and> lens m as < 0x800 \<longrightarrow>
      hv_mem (chip rv w') = mem_write TX_BUFFER_START_ADDR (0 # content m as) (hv_mem (chip rv w)))"
proof -
  from wire_low_level_output [OF assms(2,3) drv_okD(2) [OF assms(1)] assms(4,5), of n] obtain h' where
    h': "low_level_output (wire_io (miso E)) n p m (d, hist w) = Some (ERR_OK, d\<lparr>bank := Bank0, tx_buff_ptr := TX_BUFFER_START_ADDR\<rparr>, h')"
    and rest: "coherent rv (d\<lparr>bank := Bank0\<rparr>) h' \<and> bit (hv_econ1 (view rv h')) TXRTS \<and>
      le16 (hv_regs (view rv h') (0, 4)) (hv_regs (view rv h') (0, 5)) = TX_BUFFER_START_ADDR \<and>
      le16 (hv_regs (view rv h') (0, 6)) (hv_regs (view rv h') (0, 7)) = TX_BUFFER_START_ADDR + of_nat (lens m as) \<and>
      (autoinc (view rv (hist w)) \<and> lens m as < 0x800 \<longrightarrow>
        hv_mem (view rv h') = mem_write TX_BUFFER_START_ADDR (0 # content m as) (hv_mem (view rv (hist w))))" by blast
  from port.transfer_rst [OF port.low_level_output_sim [OF assms(2) port.wrelI [OF drv_okD(1) [OF assms(1)]]] h'] obtain w' where
    "low_level_output (port_io E) n p m (d, w) = Some (ERR_OK, d\<lparr>bank := Bank0, tx_buff_ptr := TX_BUFFER_START_ADDR\<rparr>, w')"
    "spi_idle w'" "hist w' = h'" by blast
  with rest show ?thesis by (intro exI [of _ w']) (simp add: drv_ok_def chip_def)
qed

text \<open>C7. \<open>low_level_output\<close> returns for every chain, provided the chip finishes every transmission; the transmit buffer then
  holds the zero control byte followed by the content of the chain, \<open>ETXST\<close> and \<open>ETXND\<close> enclose exactly these bytes, a
  transmission has been requested, and the driver is ready for the next frame.\<close>

theorem low_level_output_sends:
  assumes "drv_ok rv d w" "autoinc (chip rv w)" "chain m (Some p) as" "lens m as < 0x800"
    and "bank_answers rv (miso E)" "tx_completes rv (miso E) rank"
  shows "\<exists>w'. low_level_output (port_io E) n p m (d, w) = Some (ERR_OK, d\<lparr>bank := Bank0, tx_buff_ptr := TX_BUFFER_START_ADDR\<rparr>, w') \<and>
    drv_ok rv (d\<lparr>bank := Bank0\<rparr>) w' \<and> bit (hv_econ1 (chip rv w')) TXRTS \<and>
    le16 (hv_regs (chip rv w') (0, 4)) (hv_regs (chip rv w') (0, 5)) = TX_BUFFER_START_ADDR \<and>
    le16 (hv_regs (chip rv w') (0, 6)) (hv_regs (chip rv w') (0, 7)) = TX_BUFFER_START_ADDR + of_nat (lens m as) \<and>
    hv_mem (chip rv w') = mem_write TX_BUFFER_START_ADDR (0 # content m as) (hv_mem (chip rv w))"
proof -
  have "lens m as \<le> 32767" using assms(4) by simp
  from low_level_output_ok [OF assms(1,3) this assms(5,6), of n] assms(2,4) show ?thesis by auto
qed

theorem low_level_output_sends_witness:
  "\<exists>d' w'. low_level_output (port_io env0) netif0 (Ram, 8) net3 (dev0, hw0) = Some (ERR_OK, d', w') \<and>
    hv_mem (chip rv0 w') = mem_write TX_BUFFER_START_ADDR (0 # content net3 [(Ram, 8), (Ram, 40)]) (\<lambda>_. 0)"
proof -
  have "autoinc (chip rv0 hw0)" "bank_answers rv0 (miso env0)" "tx_completes rv0 (miso env0) (\<lambda>_. 0)"
    using ref_bank [of rv0] ref_tx [of rv0] by (simp_all add: chip_def hw0_ok env0_def)
  moreover have "lens net3 [(Ram, 8), (Ram, 40)] < 0x800" by code_simp
  ultimately show ?thesis
    using low_level_output_sends [OF drv_ok0 _ chain_net3 _, of env0 "\<lambda>_. 0" netif0] by (auto simp: chip_def hw0_ok rv0_def)
qed

section \<open>Input\<close>

lemma receive_packet_ok:
  assumes "drv_ok rv d w"
  shows "\<exists>len bs d' w'. enc28j60_receive_packet (port_io E) maxlen (d, w) = Some ((len, bs), d', w') \<and> drv_ok rv d' w' \<and>
    length bs = unat len \<and> len \<le> maxlen"
proof -
  have coh: "coherent rv d (hist w)" using assms by (simp add: drv_ok_def)
  obtain d1 h1 where sel: "select_bank (wire_io (miso E)) EPKTCNT (d, hist w) = Some (d1, h1)"
    using wire_select_bank [OF coh, of "miso E" EPKTCNT] by (auto simp: epktcnt_reg)
  have "\<exists>len bs d' h'. enc28j60_receive_packet (wire_io (miso E)) maxlen (d, hist w) = Some ((len, bs), d', h') \<and>
    coherent rv d' h' \<and> length bs = unat len \<and> len \<le> maxlen"
  proof (cases "answer_byte (miso E) ETH_R 0x19 h1 = 0")
    case True
    then show ?thesis using wire_receive_none [OF coh sel True, of maxlen] by auto
  next
    case False
    from wire_receive_packet [OF coh sel False, of maxlen] show ?thesis
      by (auto simp: Let_def rbm_answer_def rx_copy_len_le coherent_def)
  qed
  then obtain len bs d' h' where h': "enc28j60_receive_packet (wire_io (miso E)) maxlen (d, hist w) = Some ((len, bs), d', h')"
    "coherent rv d' h'" "length bs = unat len" "len \<le> maxlen" by blast
  from port.transfer_rst [OF port.receive_packet_sim [OF port.wrelI [OF drv_okD(1) [OF assms]]] h'(1)] h'(2-)
  show ?thesis by (auto simp: drv_ok_def)
qed

lemma device_net:
  assumes "net_ok I s L R C" "I d"
  shows "net_ok I (s\<lparr>device := d\<rparr>) L R C"
  using assms netif_deref_list [of "s\<lparr>device := d\<rparr>" s] by (simp add: net_ok_def)

lemma buffered_ip:
  assumes ok: "ip_ok I s R C" and d: "I d"
  shows "ip_ok I (put_bytes buf bs (s\<lparr>device := d\<rparr>)) R C"
proof -
  let ?s = "put_bytes buf bs (s\<lparr>device := d\<rparr>)"
  have n: "net_ok I ?s L R' C" if "net_ok I s L R' C" for L R' using device_net [of I s L R' C d, OF that d] by (simp add: put_bytes_net)
  have eq: "nets_ok ?s = nets_ok s" "reass_idle ?s = reass_idle s" "reass_waits ?s a p = reass_waits s a p" "rx_packet ?s C p = rx_packet s C p"
    "plen (nmem ?s) p = plen (nmem s) p" "queued (arp_table ?s) p = queued (arp_table s) p" for a p
    by (simp_all add: nets_ok_def reass_idle_def reass_waits_def rx_packet_def)
  show ?thesis using ok n unfolding ip_ok_def eq by blast
qed

text \<open>The frame is copied into the new packet.\<close>

lemma take_frame:
  assumes ok: "net_ok I s {} (R(p := 1)) C" and p: "rx_packet s C p" "plen (nmem s) p = unat len" and buf: "fst buf \<noteq> Pool MEMP_PBUF_POOL"
  obtains m where "pbuf_take (Some p) (Some buf) len (nmem s) = Some (ERR_OK, m)" "m = (nmem s)\<lparr>data_bytes := data_bytes m\<rparr>"
    "chunk m p = read_bytes (data_bytes (nmem s)) buf (unat len)"
proof -
  have p0: "0 < (R(p := 1)) p" by simp
  have Cp: "C p = [p]" using p(1) by (simp add: rx_packet_def)
  obtain pl where pl: "chain (nmem s) (Some p) [p]" "pb_payload (the_pbuf s p) = Some pl"
  proof (rule packet_cases [of "nmem s" "{}" "refs s (R(p := 1))" C p, OF net_okD(4) [OF ok]])
    show "0 < refs s (R(p := 1)) p" by simp
    fix as pl
    assume c: "C p = p # as" "chain (nmem s) (Some p) (p # as)" "pb_payload (the_pbuf s p) = Some pl"
    have "chain (nmem s) (Some p) [p]" using c(1,2) Cp by simp
    from that [OF this c(3)] show thesis .
  qed
  have area: "fst pl = Pool MEMP_PBUF_POOL" by (rule rx_packet_area(2) [OF ok p0 p(1) pl(2)])
  have "payloads (nmem s) [p] \<inter> bytes_at buf (unat len) = {}"
    using area buf pl(2) by (auto simp: payloads_def bytes_at_def)
  from pbuf_take_chain [OF pl(1) _ _ this] p(2) obtain m where
    m: "pbuf_take (Some p) (Some buf) len (nmem s) = Some (ERR_OK, m)" "m = (nmem s)\<lparr>data_bytes := data_bytes m\<rparr>"
    "content m [p] = read_bytes (data_bytes (nmem s)) buf (unat len) @ drop (unat len) (content (nmem s) [p])"
    by auto
  have "length (content (nmem s) [p]) = unat len" using p(2) by (simp add: content_def chunk_def)
  then have "chunk m p = read_bytes (data_bytes (nmem s)) buf (unat len)" using m(3) by (simp add: content_def)
  from that [OF m(1,2) this] show thesis .
qed

text \<open>What the driver keeps, and what its chip is assumed to do.\<close>

definition board_ok :: "env \<Rightarrow> host_view \<Rightarrow> hw enc_st \<Rightarrow> bool" where
  "board_ok E rv = (\<lambda>(d, w). drv_ok rv d w \<and> bank_answers rv (miso E) \<and> (\<exists>rank. tx_completes rv (miso E) rank))"

lemma low_level_input_ok:
  assumes ok: "ip_ok (board_ok E rv) s R C" and dev: "board_ok E rv (device s)"
    and buf: "fst buf \<noteq> Pool MEMP_PBUF_POOL"
  shows "returns (low_level_input (port_io E) buf sz s) (\<lambda>(r, s'). same_nets s s' \<and>
    (case r of None \<Rightarrow> ip_ok (board_ok E rv) s' R C | Some p \<Rightarrow> received (board_ok E rv) s' R (C(p := [p])) p))"
proof -
  let ?I = "board_ok E rv"
  obtain d w where dw: "device s = (d, w)" "drv_ok rv d w" using dev by (cases "device s") (auto simp: board_ok_def)
  obtain len bs d' w' where rx: "enc28j60_receive_packet (port_io E) sz (d, w) = Some ((len, bs), d', w')" "drv_ok rv d' w'"
    "length bs = unat len" using receive_packet_ok [OF dw(2), of E sz] by blast
  have "?I (d', w')" using rx(2) dev dw(1) by (simp add: board_ok_def)
  define s1 where "s1 = put_bytes buf bs (s\<lparr>device := (d', w')\<rparr>)"
  have s1: "ip_ok ?I s1 R C" "same_nets s s1" using buffered_ip [OF ok \<open>?I (d', w')\<close>] by (simp_all add: s1_def same_nets_def)
  have run: "low_level_input (port_io E) buf sz s =
     (if len = 0 then Some (None, s1)
      else do { (p, s) \<leftarrow> in_mem (pbuf_alloc PBUF_RAW len PBUF_POOL) s1;
                case p of None \<Rightarrow> Some (None, s)
                | Some p \<Rightarrow> do { (_, s) \<leftarrow> in_mem (pbuf_take (Some p) (Some buf) len) s; Some (Some p, s) } })"
    by (simp add: low_level_input_def dw(1) rx(1) s1_def)
  show ?thesis
  proof (cases "len = 0")
    case True
    then show ?thesis using run s1 by (simp add: returns_def)
  next
    case False
    obtain r s2 where s2: "in_mem (pbuf_alloc PBUF_RAW len PBUF_POOL) s1 = Some (r, s2)" "same_nets s1 s2"
      "case r of None \<Rightarrow> ip_ok ?I s2 R C
       | Some p \<Rightarrow> R p = 0 \<and> queued (arp_table s2) p = 0 \<and> reass_idle s2 \<and> nets_ok s2 \<and> net_ok ?I s2 {} (R(p := 1)) (C(p := [p])) \<and>
           rx_packet s2 (C(p := [p])) p \<and> plen (nmem s2) p = unat len \<and> unat len \<le> 256"
      using rx_alloc [OF s1(1), of len] by (auto simp: returns_def)
    show ?thesis
    proof (cases r)
      case None
      then show ?thesis using run False s2 s1(2) by (auto simp: returns_def same_nets_def)
    next
      case (Some p)
      have n: "R p = 0" "queued (arp_table s2) p = 0" "reass_idle s2" "nets_ok s2" "net_ok ?I s2 {} (R(p := 1)) (C(p := [p]))"
        "rx_packet s2 (C(p := [p])) p" "plen (nmem s2) p = unat len" "unat len \<le> 256"
        using s2(3) unfolding Some option.case by blast+
      obtain m where m: "pbuf_take (Some p) (Some buf) len (nmem s2) = Some (ERR_OK, m)" "m = (nmem s2)\<lparr>data_bytes := data_bytes m\<rparr>"
        by (rule take_frame [OF n(5,6,7) buf])
      define s3 where "s3 = s2\<lparr>nmem := (nmem s2)\<lparr>data_bytes := data_bytes m\<rparr>\<rparr>"
      have "in_mem (pbuf_take (Some p) (Some buf) len) s2 = Some (ERR_OK, s3)" using m by (simp add: in_mem_def s3_def)
      moreover have "received ?I s3 R (C(p := [p])) p"
        using n by (simp add: received_def s3_def data_net rx_packet_def nets_ok_def)
      moreover have "same_nets s s3" using s1(2) s2(2) by (simp add: same_nets_def s3_def)
      ultimately show ?thesis using run False s2(1) Some by (simp add: returns_def)
    qed
  qed
qed

lemma ip_ok_device: "ip_ok I s R C \<Longrightarrow> I (device s)"
  by (auto simp: ip_ok_def dest: net_okD(1))

lemma board_link_ok: "link_ok (low_level_output (port_io E)) (board_ok E rv)"
proof -
  have "\<exists>e d'. low_level_output (port_io E) n p m s = Some (e, d') \<and> board_ok E rv d'"
    if s: "board_ok E rv s" and c: "chain m (Some p) as" "lens m as \<le> PACKET_MAX + SIZEOF_ETH_HDR" for n p m s as
  proof -
    obtain d w rank where s': "s = (d, w)" "drv_ok rv d w" "bank_answers rv (miso E)" "tx_completes rv (miso E) rank"
      using s by (cases s) (auto simp: board_ok_def)
    have "lens m as \<le> 32767" using c(2) by (simp add: PACKET_MAX_def SIZEOF_ETH_HDR_def)
    from low_level_output_ok [OF s'(2) c(1) this s'(3,4), of n] s' show ?thesis
      by (auto simp: board_ok_def drv_ok_def coherent_def)
  qed
  then show ?thesis unfolding link_ok_def by blast
qed

interpretation board: link_driver "low_level_output (port_io E)" "low_level_input (port_io E) ETH_BUFFER sz" "board_ok E rv"
  for E rv sz
proof
  show "link_ok (low_level_output (port_io E)) (board_ok E rv)" by (rule board_link_ok)
next
  fix s R C
  assume ok: "ip_ok (board_ok E rv) s R C"
  show "returns (low_level_input (port_io E) ETH_BUFFER sz s) (\<lambda>(r, s'). same_nets s s' \<and>
      (case r of None \<Rightarrow> ip_ok (board_ok E rv) s' R C | Some p \<Rightarrow> received (board_ok E rv) s' R (C(p := [p])) p))"
    by (rule low_level_input_ok [OF ok ip_ok_device [OF ok]]) (simp add: ETH_BUFFER_def)
qed

end
