(* ===== verification/Main_Loop.thy ===== *)
theory Main_Loop
  imports Main_Link
begin

unbundle bit_operations_syntax

text \<open>
  The main loop of \<^verbatim>\<open>core/src/main.c\<close>: rounds, with ticks of the system timer between them.  Whatever bytes the chip
  delivers, every round returns, and the state stays well formed.
\<close>

declare split_paired_All [simp del] split_paired_Ex [simp del]

section \<open>The invariant of the loop\<close>

text \<open>The network state between two rounds: nobody but the ARP table and the reassembly holds a packet.\<close>

definition stack_ok :: "env \<Rightarrow> host_view \<Rightarrow> u8 \<Rightarrow> hw board \<Rightarrow> bool" where
  "stack_ok E rv k s \<longleftrightarrow> (\<exists>C. ip_ok (board_ok E rv) s (\<lambda>_. 0) C) \<and> (\<exists>n. netif_deref (Some k) s = Some n)"

text \<open>Both timers are armed, no later than 1000 ticks from now.\<close>

definition armed :: "('x, 'w) timers \<Rightarrow> bool" where
  "armed st \<longleftrightarrow> timers_ok (sys_now st - 2 ^ 30) st \<and> cyclic_only st \<and>
     (\<forall>t \<in> set (next_timeout st). 2 ^ 30 \<le> due (sys_now st - 2 ^ 30) (timeo_time t) \<and>
        due (sys_now st - 2 ^ 30) (timeo_time t) \<le> 2 ^ 30 + 1000)"

definition loop_ok :: "env \<Rightarrow> host_view \<Rightarrow> u8 \<Rightarrow> ('x, hw board) timers \<Rightarrow> bool" where
  "loop_ok E rv k st \<longleftrightarrow> stack_ok E rv k (world st) \<and> armed st"

section \<open>Ticks\<close>

lemma ticks_simps: "(SysTick_Handler ^^ n) st = st\<lparr>sys_time := sys_time st + of_nat n\<rparr>"
  by (induction n) (simp_all add: SysTick_Handler_def ac_simps)

lemma due_later: "unat n \<le> due b t \<Longrightarrow> due (b + n) t = due b t - unat n"
proof -
  assume n: "unat n \<le> due b t"
  have "t - (b + n) = (t - b) - n" by simp
  then show ?thesis using n unfolding due_def by (simp only:) (rule unat_sub, simp add: word_le_nat_alt)
qed

text \<open>After a while the timers are still within the window of the check.\<close>

lemma ticks_window:
  assumes "armed st" "n \<le> 2 ^ 30"
  defines "st' \<equiv> (SysTick_Handler ^^ n) st"
  shows "timers_ok (sys_now st' - 2 ^ 30) st'" "cyclic_only st'" "world st' = world st"
    "\<forall>t \<in> set (next_timeout st'). due (sys_now st' - 2 ^ 30) (timeo_time t) \<le> 2 ^ 30 + 1000"
proof -
  let ?b = "sys_now st - 2 ^ 30"
  have n: "unat (of_nat n :: u32) = n" using assms(2) by (simp add: unat_of_nat take_bit_nat_eq_self)
  have b: "sys_now st' - 2 ^ 30 = ?b + of_nat n" by (simp add: st'_def ticks_simps sys_now_def)
  have d: "due (?b + of_nat n) (timeo_time t) = due ?b (timeo_time t) - n" if "t \<in> set (next_timeout st)" for t
    using assms(1,2) that n due_later [of "of_nat n" ?b "timeo_time t"] by (auto simp: armed_def)
  have next': "next_timeout st' = next_timeout st" "timeo_free st' = timeo_free st" by (simp_all add: st'_def ticks_simps)
  have srt: "sorted (map (\<lambda>t. due ?b (timeo_time t) - n) ts)" if "sorted (map (due ?b \<circ> timeo_time) ts)" for ts :: "'a sys_timeo list"
    using that by (induction ts) (auto simp: diff_le_mono)
  have "map (due (?b + of_nat n) \<circ> timeo_time) (next_timeout st) = map (\<lambda>t. due ?b (timeo_time t) - n) (next_timeout st)"
    using d by simp
  moreover have ok: "timers_ok ?b st" using assms(1) by (simp add: armed_def)
  ultimately have "sorted (map (due (?b + of_nat n) \<circ> timeo_time) (next_timeout st))" using srt [of "next_timeout st"] by (simp only: timers_ok_def)
  moreover have "in_window (?b + of_nat n) (timeo_time t)" if "t \<in> set (next_timeout st)" for t
    using d [OF that] ok that by (auto simp: timers_ok_def in_window_def intro: le_less_trans [OF diff_le_self])
  ultimately show "timers_ok (sys_now st' - 2 ^ 30) st'" using ok unfolding timers_ok_def b next' by blast
  show "cyclic_only st'" "world st' = world st" using assms(1) by (simp_all add: armed_def cyclic_only_def next') (simp add: st'_def ticks_simps)
  show "\<forall>t \<in> set (next_timeout st'). due (sys_now st' - 2 ^ 30) (timeo_time t) \<le> 2 ^ 30 + 1000"
    using assms(1) d unfolding b next' by (auto simp: armed_def)
qed

section \<open>A round\<close>

lemma same_nets_deref: "same_nets s s' \<Longrightarrow> netif_deref k s' = netif_deref k s"
  using netif_deref_list [of s' s k] by (simp add: same_nets_def)

text \<open>The effect of a timer function on the board.\<close>

definition timer_effect :: "'w enc28j60_io_t \<Rightarrow> tmr \<Rightarrow> 'w board \<Rightarrow> 'w board option" where
  "timer_effect io f s = (case f of tmr.ip_reass_tmr \<Rightarrow> Lwip_Reass.ip_reass_tmr (low_level_output io) s
     | tmr.etharp_tmr \<Rightarrow> Lwip_Etharp.etharp_tmr (low_level_output io) s)"

lemma run_tmr_tame: "tame (stack_ok E rv k) (timer_effect (port_io E)) (run_tmr (port_io E))"
  unfolding tame_def
proof (intro allI impI)
  fix f and st :: "('x, hw board) timers"
  assume "stack_ok E rv k (world st)"
  then obtain C n where C: "ip_ok (board_ok E rv) (world st) (\<lambda>_. 0) C" "netif_deref (Some k) (world st) = Some n"
    by (auto simp: stack_ok_def)
  show "\<exists>w. timer_effect (port_io E) f (world st) = Some w \<and> run_tmr (port_io E) f st = Some (st\<lparr>world := w\<rparr>) \<and> stack_ok E rv k w"
    using board.timer_round [OF C(1)] C(2)
    by (cases f) (auto simp: run_tmr_def timer_effect_def returns_def stack_ok_def same_nets_deref)
qed

lemma main_round_ok:
  assumes "stack_ok E rv k (world st)" "timers_ok (sys_now st - 2 ^ 30) st" "cyclic_only st"
    "\<forall>t \<in> set (next_timeout st). due (sys_now st - 2 ^ 30) (timeo_time t) \<le> 2 ^ 30 + 1000"
  shows "\<exists>st'. main_round (port_io E) user k st = Some st' \<and> loop_ok E rv k st' \<and> sys_time st' = sys_time st \<and>
    mset (map timeo_arg (next_timeout st')) = mset (map timeo_arg (next_timeout st))"
proof -
  let ?b = "sys_now st - 2 ^ 30"
  obtain C n where C: "ip_ok (board_ok E rv) (world st) (\<lambda>_. 0) C" "netif_deref (Some k) (world st) = Some n"
    using assms(1) by (auto simp: stack_ok_def)
  from board.input_round [OF C, of ETH_BUFFER_SIZE] obtain s where s:
    "do { (p, s) \<leftarrow> low_level_input (port_io E) ETH_BUFFER ETH_BUFFER_SIZE (world st);
      case p of
        None \<Rightarrow> Some s
      | Some p \<Rightarrow> do { netif \<leftarrow> netif_deref (Some k) s; (e, s) \<leftarrow> ethernet_input (low_level_output (port_io E)) p netif s;
                       if e \<noteq> ERR_OK then free_pbuf p s else Some s } } = Some s"
    "stack_ok E rv k s"
    using C(2) unfolding returns_def stack_ok_def by (elim exE conjE) (auto simp: same_nets_deref)
  let ?st = "st\<lparr>world := s\<rparr>"
  have run: "main_round (port_io E) user k st = sys_check_timeouts (run_tmr (port_io E)) user ?st"
    using s(1) unfolding main_round_def by (auto simp: bind_eq_Some_conv split: prod.splits)
  have eq: "sys_now ?st = sys_now st" "sys_time ?st = sys_time st" "next_timeout ?st = next_timeout st" "cyclic_only ?st = cyclic_only st"
    "timers_ok b ?st = timers_ok b st" for b
    by (simp_all add: sys_now_def cyclic_only_def timers_ok_def)
  obtain st' where st': "sys_check_timeouts (run_tmr (port_io E)) user ?st = Some st'" "stack_ok E rv k (world st')"
    "timers_ok ?b st'" "cyclic_only st'" "sys_time st' = sys_time st"
    "mset (map timeo_arg (next_timeout st')) = mset (map timeo_arg (next_timeout st))"
    "\<forall>t \<in> set (next_timeout st'). TIME_LESS_THAN (sys_now st) (timeo_time t) \<and> due ?b (timeo_time t) \<le> 2 ^ 30 + 1000"
    using check_timeouts_all [OF run_tmr_tame, of E rv k ?st "2 ^ 30 + 1000" user] assms(2-4) s(2) unfolding eq by auto
  have now: "sys_now st' = sys_now st" using st'(5) by (simp add: sys_now_def)
  have "2 ^ 30 \<le> due ?b (timeo_time t)" if "t \<in> set (next_timeout st')" for t
  proof -
    have "in_window ?b (timeo_time t)" "in_window ?b (sys_now st)" using st'(3) that window_now [of "sys_now st"]
      by (simp_all add: timers_ok_def in_window_def)
    then show ?thesis using TIME_LESS_THAN_due [of ?b "sys_now st" "timeo_time t"] st'(7) that window_now [of "sys_now st"] by simp
  qed
  then have "armed st'" using st' unfolding armed_def now by blast
  then show ?thesis using st' run by (auto simp: loop_ok_def)
qed

text \<open>One turn of the loop: some ticks, then a round.  \<open>2 ^ 30\<close> ticks are more than twelve days.\<close>

inductive loop_step ::
    "'w enc28j60_io_t \<Rightarrow> ('x \<Rightarrow> nat \<Rightarrow> ('x, 'w board) timers \<Rightarrow> ('x, 'w board) timers option) \<Rightarrow> u8 \<Rightarrow>
     ('x, 'w board) timers \<Rightarrow> ('x, 'w board) timers \<Rightarrow> bool"
  for io user k where
  turn: "n \<le> 2 ^ 30 \<Longrightarrow> main_round io user k ((SysTick_Handler ^^ n) st) = Some st' \<Longrightarrow> loop_step io user k st st'"

lemma turn_ok:
  assumes "loop_ok E rv k st" "n \<le> 2 ^ 30"
  shows "\<exists>st'. main_round (port_io E) user k ((SysTick_Handler ^^ n) st) = Some st' \<and> loop_ok E rv k st' \<and>
    mset (map timeo_arg (next_timeout st')) = mset (map timeo_arg (next_timeout st))"
proof -
  have a: "armed st" and s: "stack_ok E rv k (world st)" using assms(1) by (simp_all add: loop_ok_def)
  note w = ticks_window [OF a assms(2)]
  have "next_timeout ((SysTick_Handler ^^ n) st) = next_timeout st" by (simp add: ticks_simps)
  with main_round_ok [of E rv k "(SysTick_Handler ^^ n) st" user, OF _ w(1,2,4)] s w(3) show ?thesis by auto
qed

lemma loop_invariant:
  assumes "(loop_step (port_io E) user k)\<^sup>*\<^sup>* st st'" "loop_ok E rv k st"
  shows "loop_ok E rv k st'"
  using assms
proof (induction rule: rtranclp_induct)
  case (step st1 st2)
  from step.hyps(2) show ?case
  proof cases
    case (turn n)
    from turn_ok [OF step.IH [OF step.prems] turn(1), of user] turn(2) show ?thesis by (elim exE conjE) simp
  qed
qed

end
