(* ===== verification/Enc_Init.thy ===== *)
theory Enc_Init
  imports Enc_Frames
begin

unbundle bit_operations_syntax

text \<open>
  Initialisation of the driver: on a chip that keeps what is written to it, the self test passes, and
  \<^verbatim>\<open>enc28j60_init\<close> returns with the receive ring and the MAC set up and reception enabled.  The PHY keeps its duplex mode:
  the bit of \<^verbatim>\<open>PHCON1\<close> that the C structure sets is not the duplex bit of the chip.
\<close>

section \<open>What the chip is assumed to do\<close>

text \<open>After a reset it is in bank 0; it reports its bank truthfully, and its clock becomes ready; the polled flags clear;
  the registers of the self test, the PHY register written last and the buffer memory are read as they were written.\<close>

definition phlcon_kept :: "host_view \<Rightarrow> (spi_event list \<Rightarrow> u8) \<Rightarrow> bool" where
  "phlcon_kept rv R \<longleftrightarrow> (\<forall>g. settled g \<and> hv_bank (view rv g) = 2 \<and> hv_regs (view rv g) (2, 0x14) = reg_addr PHLCON \<longrightarrow>
     drop_bit 1 (le16 (answer_byte R MII_R 0x18 g) (answer_byte R MII_R 0x19 (g @ read_frame MII_R 0x18))) =
     drop_bit 1 (le16 (hv_regs (view rv g) (2, 0x16)) (hv_regs (view rv g) (2, 0x17))))"

definition buffer_kept :: "host_view \<Rightarrow> (spi_event list \<Rightarrow> u8) \<Rightarrow> bool" where
  "buffer_kept rv R \<longleftrightarrow> (\<forall>h n. let v = view rv h; p = le16 (hv_regs v (0, 0)) (hv_regs v (0, 1)) in
     settled h \<and> autoinc v \<and> le16 (hv_regs v (0, 0x0a)) (hv_regs v (0, 0x0b)) < p \<and> unat p + n \<le> 0x2000 \<longrightarrow>
     rx_bytes R (h @ [CsLow, Xfer 0x3a]) n = map (\<lambda>i. hv_mem v (p + of_nat i)) [0..<n])"

abbreviation clock_ready :: "host_view \<Rightarrow> (spi_event list \<Rightarrow> u8) \<Rightarrow> (u8 list list \<Rightarrow> nat) \<Rightarrow> bool" where
  "clock_ready rv R rank \<equiv> poll_ends rv R Common ETH_R 0x1d (\<lambda>x. \<not> bit x 0) rank"

definition chip_ok :: "host_view \<Rightarrow> (spi_event list \<Rightarrow> u8) \<Rightarrow> bool" where
  "chip_ok rv R \<longleftrightarrow> hv_bank rv = 0 \<and> bank_answers rv R \<and> mem_reg rv R ERXSTL \<and> mem_reg rv R MAMXFLL \<and>
     phlcon_kept rv R \<and> buffer_kept rv R \<and> (\<exists>rank. clock_ready rv R rank) \<and> (\<exists>rank. mii_completes rv R rank) \<and>
     (\<exists>rank. tx_completes rv R rank)"

section \<open>Step by step on the wire\<close>

text \<open>The driver is in bank \<open>b\<close>, so is the chip, and its registers and memory are \<open>f\<close> and \<open>m\<close>.\<close>

definition at :: "host_view \<Rightarrow> Bank_t \<Rightarrow> (u8 \<times> u8 \<Rightarrow> u8) \<Rightarrow> (u16 \<Rightarrow> u8) \<Rightarrow> spi_event list \<Rightarrow> bool" where
  "at rv b f m h \<longleftrightarrow> settled h \<and> (b \<noteq> Common \<longrightarrow> hv_bank (view rv h) = bank_val b) \<and> hv_regs (view rv h) = f \<and> hv_mem (view rv h) = m"

lemma at_coherent: "at rv b f m h \<Longrightarrow> coherent rv (d\<lparr>bank := b\<rparr>) h"
  by (simp add: at_def coherent_def)

lemma atI: "coherent rv (d\<lparr>bank := b\<rparr>) h \<Longrightarrow> hv_regs (view rv h) = f \<Longrightarrow> hv_mem (view rv h) = m \<Longrightarrow> at rv b f m h"
  by (simp add: at_def coherent_def)

text \<open>The bank after an access.\<close>

definition bank_of :: "Reg_t \<Rightarrow> Bank_t \<Rightarrow> Bank_t" where
  "bank_of reg b = (if reg_bank reg = Common then b else reg_bank reg)"

lemma switch_bank: "switch_dev reg (d\<lparr>bank := b\<rparr>) = d\<lparr>bank := bank_of reg b\<rparr>"
  by (simp add: switch_dev_def bank_of_def)

lemma do_write:
  assumes a: "at rv b f m h" and reg: "ctl_reg reg"
    and k: "\<And>h'. at rv (bank_of reg b) (store_reg reg v f) m h' \<Longrightarrow> returns (k (d\<lparr>bank := bank_of reg b\<rparr>, h')) Q"
  shows "returns (Option.bind (enc28j60_write_reg (wire_io R) reg v (d\<lparr>bank := b\<rparr>, h)) k) Q"
proof -
  obtain h' where "enc28j60_write_reg (wire_io R) reg v (d\<lparr>bank := b\<rparr>, h) = Some (d\<lparr>bank := bank_of reg b\<rparr>, h')"
    "at rv (bank_of reg b) (store_reg reg v f) m h'"
    using wire_write_reg [OF at_coherent [OF a, of d] reg, of R v] a atI [where d = d] unfolding switch_bank by (auto simp: at_def)
  then show ?thesis using k by simp
qed

lemma do_read:
  assumes a: "at rv b f m h" and reg: "ctl_reg reg"
    and k: "\<And>h' x. at rv (bank_of reg b) f m h' \<Longrightarrow> returns (k (x, d\<lparr>bank := bank_of reg b\<rparr>, h')) Q"
  shows "returns (Option.bind (enc28j60_read_reg (wire_io R) reg (d\<lparr>bank := b\<rparr>, h)) k) Q"
proof -
  have reg': "reg_wf reg" "reg_type reg \<noteq> PHY_R" using reg by (simp_all add: ctl_reg_def)
  obtain x h' where "enc28j60_read_reg (wire_io R) reg (d\<lparr>bank := b\<rparr>, h) = Some (x, d\<lparr>bank := bank_of reg b\<rparr>, h')"
    "at rv (bank_of reg b) f m h'"
    using wire_read_reg [OF at_coherent [OF a, of d] reg', of R] a atI [where d = d] unfolding switch_bank by (auto simp: at_def same_store_def)
  then show ?thesis using k by simp
qed

text \<open>What was written is read back.\<close>

lemma do_check:
  assumes a: "at rv b (store_reg reg v f) m h" and reg: "ctl_reg reg" "mem_reg rv R reg" "reg_length reg = 2" "reg_bank reg = b" "b \<noteq> Common"
    and k: "\<And>h'. at rv b (store_reg reg v f) m h' \<Longrightarrow> returns (k (v, d\<lparr>bank := b\<rparr>, h')) Q"
  shows "returns (Option.bind (enc28j60_read_reg (wire_io R) reg (d\<lparr>bank := b\<rparr>, h)) k) Q"
proof -
  have reg': "reg_wf reg" "reg_type reg \<noteq> PHY_R" using reg by (simp_all add: ctl_reg_def)
  have sw: "switch_dev reg (d\<lparr>bank := b\<rparr>) = d\<lparr>bank := b\<rparr>" using reg(4) by (simp add: switch_dev_def)
  have sel: "select_bank (wire_io R) reg (d\<lparr>bank := b\<rparr>, h) = Some (d\<lparr>bank := b\<rparr>, h)" using reg(4) by (simp add: select_bank_def)
  obtain h' where h': "enc28j60_read_reg (wire_io R) reg (d\<lparr>bank := b\<rparr>, h) = Some (reg_answer R reg h, d\<lparr>bank := b\<rparr>, h')"
    "at rv b (store_reg reg v f) m h'"
    using wire_read_reg [OF at_coherent [OF a, of d] reg', of R] a atI [where d = d] sel unfolding sw by (auto simp: at_def same_store_def)
  have "coherent rv (switch_dev reg (d\<lparr>bank := b\<rparr>)) h" unfolding sw by (rule at_coherent [OF a])
  from wire_reg_answer [OF this reg(1,2)] a reg(3) have "reg_answer R reg h = v" by (simp add: at_def)
  with h' k show ?thesis by simp
qed

lemma estat_reg: "reg_wf ESTAT" "reg_type ESTAT = ETH_R" "reg_bank ESTAT = Common" "reg_length ESTAT = 1" "reg_addr ESTAT = 0x1d"
  by (simp_all add: reg_defs reg_wf_def word_le_nat_alt word_less_nat_alt)

lemma do_clock:
  assumes a: "at rv b f m h" and clk: "clock_ready rv R rank"
    and k: "\<And>h'. at rv b f m h' \<Longrightarrow> returns (k (d\<lparr>bank := b\<rparr>, h')) Q"
  shows "returns (Option.bind (poll_clkrdy (wire_io R) (d\<lparr>bank := b\<rparr>, h)) k) Q"
proof -
  obtain h' where "poll_clkrdy (wire_io R) (d\<lparr>bank := b\<rparr>, h) = Some (d\<lparr>bank := b\<rparr>, h')" "at rv b f m h'"
    using wire_poll_eth [OF estat_reg(1-4), of rv R "\<lambda>x. \<not> bit x 0" rank "d\<lparr>bank := b\<rparr>" h] at_coherent [OF a, of d] clk a atI [where d = d]
    by (auto simp: poll_clkrdy_def estat_reg bf_get_ucast CLKRDY_def at_def)
  then show ?thesis using k by simp
qed

lemma log_wire [simp]: "log_msg (wire_io R) msg s = Some s" "test_verdict (wire_io R) True s = Some s"
  by (cases s; simp add: log_msg_def test_verdict_def wire_simps)+

lemma phy_regs: "reg_type PHLCON = PHY_R" "reg_bank PHLCON = Common" "reg_type PHCON1 = PHY_R" "reg_bank PHCON1 = Common"
  by (simp_all add: reg_defs)

lemma do_phy_write:
  assumes a: "at rv b f m h" and b: "b \<noteq> Common" and reg: "reg_type reg = PHY_R" "reg_bank reg = Common" and mii: "mii_completes rv R rank"
    and k: "\<And>h'. at rv Bank3 (phy_store (bank_val b) reg v f) m h' \<Longrightarrow> returns (k (d\<lparr>bank := Bank3\<rparr>, h')) Q"
  shows "returns (Option.bind (enc28j60_write_reg (wire_io R) reg v (d\<lparr>bank := b\<rparr>, h)) k) Q"
proof -
  obtain h' where "enc28j60_write_reg (wire_io R) reg v (d\<lparr>bank := b\<rparr>, h) = Some (d\<lparr>bank := Bank3\<rparr>, h')"
    "at rv Bank3 (phy_store (bank_val b) reg v f) m h'"
    using wire_write_phy [OF at_coherent [OF a, of d] reg mii, of v] a b atI [where d = d] by (auto simp: at_def)
  then show ?thesis using k by simp
qed

text \<open>A PHY register is read; \<open>g\<close> is the trace before its answer.\<close>

lemma do_phy_read:
  assumes a: "at rv b f m h" and reg: "reg_type reg = PHY_R" "reg_bank reg = Common" and mii: "mii_completes rv R rank"
    and k: "\<And>h' g x y. at rv Bank2 (f((2, 0x14) := reg_addr reg, (2, 0x12) := x)) m h' \<Longrightarrow>
      settled g \<Longrightarrow> hv_bank (view rv g) = 2 \<Longrightarrow> hv_regs (view rv g) = f((2, 0x14) := reg_addr reg, (2, 0x12) := y) \<Longrightarrow>
      returns (k (le16 (answer_byte R MII_R 0x18 g) (answer_byte R MII_R 0x19 (g @ read_frame MII_R 0x18)), d\<lparr>bank := Bank2\<rparr>, h')) Q"
  shows "returns (Option.bind (enc28j60_read_reg (wire_io R) reg (d\<lparr>bank := b\<rparr>, h)) k) Q"
proof -
  have "settled h" using a by (simp add: at_def)
  from wire_read_phy_reg [OF this mii reg, of "d\<lparr>bank := b\<rparr>"] obtain h' g where
    r: "enc28j60_read_reg (wire_io R) reg (d\<lparr>bank := b\<rparr>, h) = Some (le16 (answer_byte R MII_R 0x18 g)
        (answer_byte R MII_R 0x19 (g @ read_frame MII_R 0x18)), d\<lparr>bank := Bank2\<rparr>, h')"
      "coherent rv (d\<lparr>bank := Bank2\<rparr>) h'" "phy_read_store reg (hv_regs (view rv h)) (hv_regs (view rv h'))"
      "hv_mem (view rv h') = hv_mem (view rv h)" "quiet g" "hv_bank (view rv g) = 2" "phy_read_store reg (hv_regs (view rv h)) (hv_regs (view rv g))"
    by auto
  obtain x y where "hv_regs (view rv h') = f((2, 0x14) := reg_addr reg, (2, 0x12) := x)"
    "hv_regs (view rv g) = f((2, 0x14) := reg_addr reg, (2, 0x12) := y)"
    using r(3,7) a by (auto simp: phy_read_store_def at_def)
  moreover have "at rv Bank2 (hv_regs (view rv h')) m h'" using atI [where d = d] r(2,4) a by (simp add: at_def)
  ultimately show ?thesis using r(1,5,6) k [of x h' g y] quiet_settled [of g] by simp
qed

lemma do_write_buf:
  assumes a: "at rv b f m h" and n: "unat n \<le> 32767" and auto: "bit (f (0, 0x1e)) AUTOINC"
    and p: "le16 (f (0, 2)) (f (0, 3)) = p" "unat p + unat n \<le> 0x2000"
    and k: "\<And>h' x y. at rv b (f((0, 2) := x, (0, 3) := y)) (mem_write p (mem_bytes buf 0 (unat n)) m) h' \<Longrightarrow> returns (k (d\<lparr>bank := b\<rparr>, h')) Q"
  shows "returns (Option.bind (enc28j60_write_buf (wire_io R) buf n (d\<lparr>bank := b\<rparr>, h)) k) Q"
proof -
  have set: "settled h" using a by (simp add: at_def)
  obtain h' where h': "enc28j60_write_buf (wire_io R) buf n (d\<lparr>bank := b\<rparr>, h) = Some (d\<lparr>bank := b\<rparr>, h')" "quiet h'"
    "view rv h' = fold hv_put (mem_bytes buf 0 (unat n)) (view rv h)"
    using wire_write_buf [OF set n, of R buf "d\<lparr>bank := b\<rparr>" rv] by blast
  have e: "autoinc (view rv h)" "ewrpt (view rv h) = p" using a auto p(1) by (simp_all add: at_def autoinc_def ewrpt_def)
  have "unat (ewrpt (view rv h)) + length (mem_bytes buf 0 (unat n)) \<le> 0x2000" using e p(2) by (simp add: mem_bytes_def)
  note put = fold_hv_put [OF e(1) this]
  define x y where "x = hv_regs (view rv h') (0, 2)" and "y = hv_regs (view rv h') (0, 3)"
  have "hv_regs (view rv h') = f((0, 2) := x, (0, 3) := y)"
  proof
    fix s show "hv_regs (view rv h') s = (f((0, 2) := x, (0, 3) := y)) s"
      using put a by (cases s) (auto simp: h'(3) at_def x_def y_def)
  qed
  then have "at rv b (f((0, 2) := x, (0, 3) := y)) (mem_write p (mem_bytes buf 0 (unat n)) m) h'"
    using h' put a e by (simp add: at_def quiet_settled hv_bank_def)
  then show ?thesis using h'(1) k by simp
qed

lemma do_read_buf:
  assumes a: "at rv b f m h" and kept: "buffer_kept rv R" and auto: "bit (f (0, 0x1e)) AUTOINC"
    and p: "le16 (f (0, 0)) (f (0, 1)) = p" "le16 (f (0, 0x0a)) (f (0, 0x0b)) < p" "unat p + unat n \<le> 0x2000"
    and k: "\<And>h'. at rv b f m h' \<Longrightarrow> returns (k (map (\<lambda>i. m (p + of_nat i)) [0..<unat n], d\<lparr>bank := b\<rparr>, h')) Q"
  shows "returns (Option.bind (enc28j60_read_buf (wire_io R) n (d\<lparr>bank := b\<rparr>, h)) k) Q"
proof -
  have set: "settled h" using a by (simp add: at_def)
  obtain h' where h': "enc28j60_read_buf (wire_io R) n (d\<lparr>bank := b\<rparr>, h) = Some (rx_bytes R (h @ [CsLow, Xfer 0x3a]) (unat n), d\<lparr>bank := b\<rparr>, h')"
    "quiet h'" "view rv h' = view rv h"
    using wire_read_buf [OF set, of R n "d\<lparr>bank := b\<rparr>" rv] by blast
  have "rx_bytes R (h @ [CsLow, Xfer 0x3a]) (unat n) = map (\<lambda>i. m (p + of_nat i)) [0..<unat n]"
    using kept a auto p unfolding buffer_kept_def Let_def by (simp add: at_def autoinc_def)
  moreover have "at rv b f m h'" using a h' by (simp add: at_def quiet_settled)
  ultimately show ?thesis using h'(1) k by simp
qed

lemma do_reset:
  assumes a: "settled h" and rv: "hv_bank rv = 0" and b: "b = Bank0 \<or> b = Common"
    and k: "\<And>h'. at rv b (hv_regs rv) (hv_mem (view rv h)) h' \<Longrightarrow> returns (k (d\<lparr>bank := b\<rparr>, h')) Q"
  shows "returns (Option.bind (enc28j60_soft_reset (wire_io R) (d\<lparr>bank := b\<rparr>, h)) k) Q"
proof -
  obtain h' where h': "enc28j60_soft_reset (wire_io R) (d\<lparr>bank := b\<rparr>, h) = Some (d\<lparr>bank := b\<rparr>, h')" "quiet h'"
    "view rv h' = rv\<lparr>hv_mem := hv_mem (view rv h)\<rparr>" using wire_soft_reset [OF a] by blast
  have "at rv b (hv_regs rv) (hv_mem (view rv h)) h'" using h'(2,3) rv b by (auto simp: at_def quiet_settled)
  then show ?thesis using h'(1) k by simp
qed

section \<open>The self test\<close>

lemma ctl_regs2: "ctl_reg MAMXFLL" "ctl_reg MACON1" "ctl_reg MACON3" "ctl_reg MABBIPG" "ctl_reg MAADR1" "ctl_reg MAADR2"
  "ctl_reg MAADR3" "ctl_reg MAADR4" "ctl_reg MAADR5" "ctl_reg MAADR6"
  by (simp_all add: ctl_reg_def reg_wf_def reg_defs word_le_nat_alt word_less_nat_alt)

lemma banks_of [simp]:
  "bank_of ERXSTL b = Bank0" "bank_of ERXNDL b = Bank0" "bank_of ERXRDPTL b = Bank0" "bank_of EWRPTL b = Bank0" "bank_of ERDPTL b = Bank0"
  "bank_of ERXFCON b = Bank1" "bank_of ECON2 b = b" "bank_of MAMXFLL b = Bank2" "bank_of MACON1 b = Bank2" "bank_of MACON3 b = Bank2"
  "bank_of MABBIPG b = Bank2" "bank_of MAADR1 b = Bank3" "bank_of MAADR2 b = Bank3" "bank_of MAADR3 b = Bank3" "bank_of MAADR4 b = Bank3"
  "bank_of MAADR5 b = Bank3" "bank_of MAADR6 b = Bank3"
  by (simp_all add: bank_of_def reg_defs)

lemma store_regs2:
  "store_reg ERXSTL v f = f((0, 0x08) := lo8 v, (0, 0x09) := hi8 v)"
  "store_reg ERXNDL v f = f((0, 0x0a) := lo8 v, (0, 0x0b) := hi8 v)"
  "store_reg ERXFCON v f = f((1, 0x18) := lo8 v)"
  "store_reg MAMXFLL v f = f((2, 0x0a) := lo8 v, (2, 0x0b) := hi8 v)"
  "store_reg MACON1 v f = f((2, 0x00) := lo8 v)"
  "store_reg MACON3 v f = f((2, 0x02) := lo8 v)"
  "store_reg MABBIPG v f = f((2, 0x04) := lo8 v)"
  "store_reg MAADR1 v f = f((3, 0x04) := lo8 v)"
  "store_reg MAADR2 v f = f((3, 0x05) := lo8 v)"
  "store_reg MAADR3 v f = f((3, 0x02) := lo8 v)"
  "store_reg MAADR4 v f = f((3, 0x03) := lo8 v)"
  "store_reg MAADR5 v f = f((3, 0x00) := lo8 v)"
  "store_reg MAADR6 v f = f((3, 0x01) := lo8 v)"
  by (simp_all add: store_reg_def slot_of_def slot_hi_def reg_slot_def reg_defs word_le_nat_alt word_less_nat_alt)

lemma autoinc_set: "bit (lo8 (bf_set AUTOINC x)) AUTOINC"
  by (simp add: lo8_def bit_simps bit_bf_set AUTOINC_def)

text \<open>The four bytes of the memory test come back.\<close>

lemma test_bytes:
  "map (\<lambda>i. mem_write 0x1000 (mem_bytes (\<lambda>i. [0x12, 0x34, 0x56, 0x78] ! nat i) 0 (unat (4 :: u16))) m (0x1000 + of_nat i)) [0..<unat (4 :: u16)] =
    ([0x12, 0x34, 0x56, 0x78] :: u8 list)"
  by (simp add: mem_bytes_def upt_rec)

lemma test_regs: "reg_length ERXSTL = 2" "reg_bank ERXSTL = Bank0" "reg_length MAMXFLL = 2" "reg_bank MAMXFLL = Bank2"
  by (simp_all add: reg_defs)

lemma ll_test_ok:
  assumes c: "chip_ok rv R" and a: "at rv b f m h"
  shows "returns (ll_test (wire_io R) (d\<lparr>bank := b\<rparr>, h)) (\<lambda>s. \<exists>m h'. s = (d\<lparr>bank := Bank0\<rparr>, h') \<and> at rv Bank0 (hv_regs rv) m h')"
proof -
  obtain r1 r2 where poll: "clock_ready rv R r1" "mii_completes rv R r2" using c by (auto simp: chip_ok_def)
  have kept: "mem_reg rv R ERXSTL" "mem_reg rv R MAMXFLL" "phlcon_kept rv R" "buffer_kept rv R" "hv_bank rv = 0"
    using c by (simp_all add: chip_ok_def)
  show ?thesis
    unfolding ll_test_def Let_def bind.simps prod.case wire_io_sel
    apply (rule do_write [OF a ctl_regs(7)], simp only: banks_of)
    apply (rule do_check [OF _ ctl_regs(7) kept(1) test_regs(1,2)], assumption, simp)
    apply (simp only: prod.case log_wire bind.simps simp_thms)
    apply (rule do_clock [OF _ poll(1)], assumption)
    apply (rule do_write [OF _ ctl_regs2(1)], assumption, simp only: banks_of)
    apply (rule do_check [OF _ ctl_regs2(1) kept(2) test_regs(3,4)], assumption, simp)
    apply (simp only: prod.case log_wire bind.simps simp_thms)
    apply (rule do_phy_write [OF _ _ phy_regs(1,2) poll(2)], assumption, simp)
    apply (rule do_phy_read [OF _ phy_regs(1,2) poll(2)], assumption)
    subgoal premises prems for h1 h2 h3 h4 h5 h6 h7 g x y
    proof -
      have "drop_bit 1 (le16 (answer_byte R MII_R 0x18 g) (answer_byte R MII_R 0x19 (g @ read_frame MII_R 0x18))) = drop_bit 1 (0x3883 :: u16)"
        using kept(3) prems(8-10) unfolding phlcon_kept_def by (simp add: phy_store_def)
      then have eq: "(drop_bit 1 (le16 (answer_byte R MII_R 0x18 g) (answer_byte R MII_R 0x19 (g @ read_frame MII_R 0x18))) = drop_bit 1 (0x3883 :: u16)) = True" by simp
      show ?thesis
        unfolding prod.case log_wire bind.simps eq
        apply (rule do_read [OF prems(7) ctl_regs(6)], simp only: prod.case banks_of)
        apply (rule do_write [OF _ ctl_regs(6)], assumption, simp only: banks_of)
        apply (rule do_write [OF _ ctl_regs(7)], assumption, simp only: banks_of)
        apply (rule do_write [OF _ ctl_regs(8)], assumption, simp only: banks_of)
        apply (rule do_write [OF _ ctl_regs(1)], assumption, simp only: banks_of)
        apply (rule do_write_buf [where p = "0x1000"], assumption, simp, simp add: store_regs store_regs2 autoinc_set, simp add: store_regs, simp)
        apply (rule do_write [OF _ ctl_regs(4)], assumption, simp only: banks_of)
        apply (rule do_read_buf [OF _ kept(4), where p = "0x1000"], assumption, simp add: store_regs store_regs2 autoinc_set,
            simp add: store_regs, simp add: store_regs store_regs2, simp)
        apply (simp only: prod.case log_wire bind.simps test_bytes simp_thms)
        by (rule do_reset [where k = Some, unfolded bind_runit, OF _ kept(5)]) (auto simp: at_def)
    qed
    done
qed

lemma do_test:
  assumes c: "chip_ok rv R" and a: "at rv b f m h"
    and k: "\<And>m h'. at rv Bank0 (hv_regs rv) m h' \<Longrightarrow> returns (k (d\<lparr>bank := Bank0\<rparr>, h')) Q"
  shows "returns (Option.bind (ll_test (wire_io R) (d\<lparr>bank := b\<rparr>, h)) k) Q"
  using ll_test_ok [OF c a, of d] k by (auto simp: returns_def)

section \<open>The configuration\<close>

definition reg16_at :: "(u8 \<times> u8 \<Rightarrow> u8) \<Rightarrow> Reg_t \<Rightarrow> u16" where
  "reg16_at f reg = le16 (f (slot_of reg)) (f (slot_hi reg))"

text \<open>
  The receive ring, the filter and the memory pointer; the MAC with its flow control, full duplex mode, padding to 60 bytes, checksum
  and maximal frame length; the interface's address.
\<close>

definition configured :: "MAC_addr_t \<Rightarrow> (u8 \<times> u8 \<Rightarrow> u8) \<Rightarrow> bool" where
  "configured a f \<longleftrightarrow> reg16_at f ERXSTL = RX_BUFFER_START_ADDR \<and> reg16_at f ERXNDL = RX_BUFFER_END_ADDR \<and>
     reg16_at f ERXRDPTL = RX_BUFFER_END_ADDR \<and> bit (f (slot_of ERXFCON)) CRCEN \<and> bit (f (slot_of ECON2)) AUTOINC \<and>
     (\<forall>k \<in> {MARXEN, TXPAUS, RXPAUS}. bit (f (slot_of MACON1)) k) \<and>
     (\<forall>k \<in> {FULLDPX, FRMLNEN, TXCRCEN}. bit (f (slot_of MACON3)) k) \<and>
     (\<forall>k < 3. bit (f (slot_of MACON3)) (PADCFG + k) = bit MACON3_60B_PADDED k) \<and>
     reg16_at f MAMXFLL = 1518 \<and> f (slot_of MABBIPG) = 0x15 \<and>
     [f (slot_of MAADR1), f (slot_of MAADR2), f (slot_of MAADR3), f (slot_of MAADR4), f (slot_of MAADR5), f (slot_of MAADR6)] =
       [addr1 a, addr2 a, addr3 a, addr4 a, addr5 a, addr6 a]"

text \<open>
  The PHY: the last MII write went to \<open>PHCON1\<close>, and its value is what the chip answered for \<open>PHCON1\<close> with bit 7 set, the bit
  that the C structure calls \<open>PDPXMD\<close>.  The duplex mode of the PHY is bit 8 of that register, so it is what it was before.
\<close>

definition phy_answer :: "(spi_event list \<Rightarrow> u8) \<Rightarrow> spi_event list \<Rightarrow> u16" where
  "phy_answer R g = le16 (answer_byte R MII_R 0x18 g) (answer_byte R MII_R 0x19 (g @ read_frame MII_R 0x18))"

definition phy_mode_kept :: "host_view \<Rightarrow> (spi_event list \<Rightarrow> u8) \<Rightarrow> (u8 \<times> u8 \<Rightarrow> u8) \<Rightarrow> bool" where
  "phy_mode_kept rv R f \<longleftrightarrow> f (2, 0x14) = reg_addr PHCON1 \<and>
     (\<exists>g. settled g \<and> hv_bank (view rv g) = 2 \<and> hv_regs (view rv g) (2, 0x14) = reg_addr PHCON1 \<and>
          le16 (f (2, 0x16)) (f (2, 0x17)) = phy_answer R g OR 0x80 \<and>
          bit (le16 (f (2, 0x16)) (f (2, 0x17))) 8 = bit (phy_answer R g) 8)"

lemma lo8_ucast: "lo8 (ucast x) = x"
  by (rule bit_word_eqI) (auto simp: lo8_def bit_simps)

lemma slots:
  "slot_of ERXSTL = (0, 0x08)" "slot_hi ERXSTL = (0, 0x09)" "slot_of ERXNDL = (0, 0x0a)" "slot_hi ERXNDL = (0, 0x0b)"
  "slot_of ERXRDPTL = (0, 0x0c)" "slot_hi ERXRDPTL = (0, 0x0d)" "slot_of ERXFCON = (1, 0x18)" "slot_of ECON2 = (0, 0x1e)"
  "slot_of MACON1 = (2, 0x00)" "slot_of MACON3 = (2, 0x02)" "slot_of MAMXFLL = (2, 0x0a)" "slot_hi MAMXFLL = (2, 0x0b)"
  "slot_of MABBIPG = (2, 0x04)" "slot_of MAADR1 = (3, 0x04)" "slot_of MAADR2 = (3, 0x05)" "slot_of MAADR3 = (3, 0x02)"
  "slot_of MAADR4 = (3, 0x03)" "slot_of MAADR5 = (3, 0x00)" "slot_of MAADR6 = (3, 0x01)"
  by (simp_all add: slot_of_def slot_hi_def reg_slot_def reg_defs word_le_nat_alt word_less_nat_alt)

lemma lo8_bits: "k < 8 \<Longrightarrow> bit (lo8 x) k = bit x k"
  by (simp add: lo8_def bit_simps)

lemma phy_addrs: "reg_addr MIREGADR = 0x14" "reg_addr PHCON1 = 0"
  by (simp_all add: reg_defs)

lemma do_econ1:
  assumes a: "at rv b f m h" and c: "bank_answers rv R" and k: "2 \<le> i" "i < 8"
    and r: "\<And>h'. at rv b f m h' \<Longrightarrow> bit (hv_econ1 (view rv h')) i \<Longrightarrow> returns (k (d\<lparr>bank := b\<rparr>, h')) Q"
  shows "returns (do { (tmp, s) \<leftarrow> enc28j60_read_reg (wire_io R) ECON1 (d\<lparr>bank := b\<rparr>, h);
      s \<leftarrow> enc28j60_write_reg (wire_io R) ECON1 (bf_set i tmp) s; k s }) Q"
proof -
  obtain h' where h': "do { (tmp, s) \<leftarrow> enc28j60_read_reg (wire_io R) ECON1 (d\<lparr>bank := b\<rparr>, h);
      enc28j60_write_reg (wire_io R) ECON1 (bf_set i tmp) s } = Some (d\<lparr>bank := b\<rparr>, h')" "at rv b f m h'" "bit (hv_econ1 (view rv h')) i"
    using wire_econ1_set [OF at_coherent [OF a, of d] c k] a atI [where d = d] by (auto simp: at_def same_store_def)
  from h'(1) have "do { (tmp, s) \<leftarrow> enc28j60_read_reg (wire_io R) ECON1 (d\<lparr>bank := b\<rparr>, h);
      s \<leftarrow> enc28j60_write_reg (wire_io R) ECON1 (bf_set i tmp) s; k s } = k (d\<lparr>bank := b\<rparr>, h')"
    by (auto simp: bind_eq_Some_conv)
  then show ?thesis using r [OF h'(2,3)] by simp
qed

lemma at_configured: "at rv b f m h \<Longrightarrow> configured a f \<Longrightarrow> configured a (hv_regs (view rv h))"
  by (simp add: at_def)

lemma at_phy: "at rv b f m h \<Longrightarrow> phy_mode_kept rv R f \<Longrightarrow> phy_mode_kept rv R (hv_regs (view rv h))"
  by (simp add: at_def)

lemma pad_bits:
  assumes "k < 3"
  shows "bit (lo8 (bf_set FULLDPX (bf_set FRMLNEN (bf_set TXCRCEN (bf_put PADCFG 3 MACON3_60B_PADDED v))))) (PADCFG + k) = bit MACON3_60B_PADDED k"
  using assms by (auto simp: lo8_def bit_simps bit_bf_set bf_put_def bit_defs)

text \<open>The writes of the initialisation, in their order.\<close>

lemma configuredI:
  "configured a (phy_store (bank_val Bank2) PHCON1 (bf_set PDPXMD v4) ((store_reg MAADR6 (ucast (addr6 a)) (store_reg MAADR5 (ucast (addr5 a))
    (store_reg MAADR4 (ucast (addr4 a)) (store_reg MAADR3 (ucast (addr3 a)) (store_reg MAADR2 (ucast (addr2 a))
    (store_reg MAADR1 (ucast (addr1 a)) (store_reg MABBIPG 0x15 (store_reg MAMXFLL 1518
    (store_reg MACON3 (bf_set FULLDPX (bf_set FRMLNEN (bf_set TXCRCEN (bf_put PADCFG 3 MACON3_60B_PADDED v3))))
    (store_reg MACON1 (bf_set RXPAUS (bf_set TXPAUS (bf_set MARXEN v2))) (store_reg ECON2 (bf_set AUTOINC v1)
    (store_reg ERXFCON (bf_set CRCEN v0) (store_reg ERXRDPTL RX_BUFFER_END_ADDR (store_reg ERXNDL RX_BUFFER_END_ADDR
    (store_reg ERXSTL RX_BUFFER_START_ADDR f))))))))))))))) ((2, 0x14) := reg_addr PHCON1, (2, 0x12) := x)))"
  unfolding configured_def reg16_at_def slots store_regs store_regs2 phy_store_def
  by (intro conjI ballI allI impI, simp_all add: pad_bits) (auto simp: bit_defs lo8_ucast lo8_bits phy_addrs bit_bf_set, simp add: lo8_def)

lemma phy_mode_keptI:
  assumes "settled g" "hv_bank (view rv g) = 2" "hv_regs (view rv g) (2, 0x14) = reg_addr PHCON1"
  shows "phy_mode_kept rv R (phy_store (bank_val Bank2) PHCON1 (bf_set PDPXMD (phy_answer R g)) f)"
proof -
  have "bf_set PDPXMD (phy_answer R g) = phy_answer R g OR 0x80"
    by (simp add: bf_set_def PDPXMD_def push_bit_eq_mult)
  then show ?thesis
    using assms unfolding phy_mode_kept_def phy_store_def by (auto simp: phy_addrs bit_simps intro!: exI [of _ g])
qed

lemma wire_ll_init:
  assumes c: "chip_ok rv R" and a: "settled h"
  shows "returns (enc28j60_ll_init (wire_io R) addr (d\<lparr>bank := Common\<rparr>, h)) (\<lambda>(d', h'). d' = d\<lparr>bank := Bank3\<rparr> \<and> coherent rv d' h' \<and>
    configured addr (hv_regs (view rv h')) \<and> phy_mode_kept rv R (hv_regs (view rv h')) \<and> bit (hv_econ1 (view rv h')) RXEN)"
proof -
  obtain r1 r2 where poll: "clock_ready rv R r1" "mii_completes rv R r2" using c by (auto simp: chip_ok_def)
  have rv: "hv_bank rv = 0" "bank_answers rv R" using c by (simp_all add: chip_ok_def)
  have s: "settled (h @ [CsHigh])" using settled_high [OF a] quiet_settled by blast
  have rx: "(2::nat) \<le> RXEN" "RXEN < 8" by (simp_all add: RXEN_def)
  show ?thesis
    unfolding enc28j60_ll_init_def Let_def bind.simps prod.case wire_io_sel
    apply (rule do_reset [OF s rv(1)], simp)
    apply (rule do_test [OF c], assumption)
    apply (rule do_write [OF _ ctl_regs(7)], assumption, simp only: banks_of)
    apply (rule do_write [OF _ ctl_regs(8)], assumption, simp only: banks_of)
    apply (rule do_write [OF _ ctl_regs(5)], assumption, simp only: banks_of)
    apply (rule do_read [OF _ ctl_regs(9)], assumption, simp only: prod.case banks_of)
    apply (rule do_write [OF _ ctl_regs(9)], assumption, simp only: banks_of)
    apply (rule do_read [OF _ ctl_regs(6)], assumption, simp only: prod.case banks_of)
    apply (rule do_write [OF _ ctl_regs(6)], assumption, simp only: banks_of)
    apply (rule do_clock [OF _ poll(1)], assumption)
    apply (rule do_read [OF _ ctl_regs2(2)], assumption, simp only: prod.case banks_of)
    apply (rule do_write [OF _ ctl_regs2(2)], assumption, simp only: banks_of)
    apply (rule do_read [OF _ ctl_regs2(3)], assumption, simp only: prod.case banks_of)
    apply (rule do_write [OF _ ctl_regs2(3)], assumption, simp only: banks_of)
    apply (rule do_write [OF _ ctl_regs2(1)], assumption, simp only: banks_of)
    apply (rule do_write [OF _ ctl_regs2(4)], assumption, simp only: banks_of)
    apply (rule do_write [OF _ ctl_regs2(5)], assumption, simp only: banks_of)
    apply (rule do_write [OF _ ctl_regs2(6)], assumption, simp only: banks_of)
    apply (rule do_write [OF _ ctl_regs2(7)], assumption, simp only: banks_of)
    apply (rule do_write [OF _ ctl_regs2(8)], assumption, simp only: banks_of)
    apply (rule do_write [OF _ ctl_regs2(9)], assumption, simp only: banks_of)
    apply (rule do_write [OF _ ctl_regs2(10)], assumption, simp only: banks_of)
    apply (rule do_phy_read [OF _ phy_regs(3,4) poll(2)], assumption, simp only: prod.case)
    apply (rule do_phy_write [OF _ _ phy_regs(3,4) poll(2)], assumption, simp)
    apply (rule do_econ1 [OF _ rv(2) rx], assumption)
    apply (simp only: log_wire returns_simps prod.case simp_thms)
    apply (rule conjI)
     apply (rule at_coherent, assumption)
    apply (rule conjI)
     apply (rule at_configured, assumption)
     apply (rule configuredI)
    apply (rule at_phy, assumption)
    unfolding phy_answer_def [symmetric]
    by (rule phy_mode_keptI) simp_all
qed

section \<open>On the hardware\<close>

lemma init_ok:
  assumes c: "chip_ok rv (miso E)" and w: "hw_boot w" "settled (hist w)"
  shows "\<exists>w'. enc28j60_init (port_io E) a (d, w) =
      Some (d\<lparr>bank := Bank3, next_rx_packet_ptr := RX_BUFFER_START_ADDR, tx_buff_ptr := TX_BUFFER_START_ADDR\<rparr>, w') \<and>
    drv_ok rv (d\<lparr>bank := Bank3\<rparr>) w' \<and> configured a (hv_regs (chip rv w')) \<and>
    phy_mode_kept rv (miso E) (hv_regs (chip rv w')) \<and> bit (hv_econ1 (chip rv w')) RXEN"
proof -
  let ?d = "d\<lparr>next_rx_packet_ptr := RX_BUFFER_START_ADDR, tx_buff_ptr := TX_BUFFER_START_ADDR\<rparr>"
  obtain h' where h': "enc28j60_ll_init (wire_io (miso E)) a (?d\<lparr>bank := Common\<rparr>, hist w) = Some (?d\<lparr>bank := Bank3\<rparr>, h')"
    "coherent rv (?d\<lparr>bank := Bank3\<rparr>) h'" "configured a (hv_regs (view rv h'))" "phy_mode_kept rv (miso E) (hv_regs (view rv h'))" "bit (hv_econ1 (view rv h')) RXEN"
    using wire_ll_init [OF c w(2), of a ?d] by (auto simp: returns_def)
  have "enc28j60_init (wire_io (miso E)) a (d, hist w) = Some (?d\<lparr>bank := Bank3\<rparr>, h')"
    using h'(1) by (cases d) (simp add: enc28j60_init_def Let_def)
  from port.transfer_st [OF port.init_sim [OF w(1)] this] h'(2-) show ?thesis
    by (cases d) (auto simp: drv_ok_def chip_def coherent_def)
qed

text \<open>The reference chip is such a chip.\<close>

lemma ref_buffer: "buffer_kept rv (ref_reply rv)"
proof -
  have "rx_bytes (ref_reply rv) (h @ [CsLow, Xfer 0x3a]) n = map (\<lambda>i. hv_mem (view rv h) (p + of_nat i)) [0..<n]"
    if h: "settled h" and p: "p = le16 (hv_regs (view rv h) (0, 0)) (hv_regs (view rv h) (0, 1))" "unat p + n \<le> 0x2000" for h n p
  proof -
    have "ref_reply rv ((h @ [CsLow, Xfer 0x3a]) @ replicate (Suc i) (Xfer 0xFF)) = hv_mem (view rv h) (p + of_nat i)" if i: "i < n" for i
    proof -
      let ?bs = "0x3a # replicate (Suc i) 0xFF"
      have eq: "(h @ [CsLow, Xfer 0x3a]) @ replicate (Suc i) (Xfer 0xFF) = h @ CsLow # map Xfer ?bs" by simp
      have v: "view rv (h @ CsLow # map Xfer ?bs) = view rv h" using cur_open(2) [OF h, of ?bs] by (simp only: view_def cmds_def)
      have "p + of_nat (length (replicate (Suc i) (0xFF :: u8))) - 1 = p + of_nat i" by simp
      moreover have "unat (p + of_nat i) = unat p + i" using p(2) i by (simp add: unat_word_ariths unat_of_nat take_bit_nat_eq_self)
      ultimately have "(p + of_nat (length (replicate (Suc i) (0xFF :: u8))) - 1) AND 0x1fff = p + of_nat i"
        using p(2) i by (simp only:) (rule and_1fff, simp)
      then show ?thesis
        unfolding eq ref_reply_def Let_def v cur_open(1) [OF h, of ?bs] using p(1) by simp
    qed
    then show ?thesis by (simp add: rx_bytes_def)
  qed
  then show ?thesis unfolding buffer_kept_def Let_def by blast
qed

lemma ref_chip: "chip_ok rv0 (ref_reply rv0)"
proof -
  have "phlcon_kept rv0 (ref_reply rv0)"
  proof -
    have "le16 (answer_byte (ref_reply rv0) MII_R 0x18 g) (answer_byte (ref_reply rv0) MII_R 0x19 (g @ read_frame MII_R 0x18)) =
        le16 (hv_regs (view rv0 g) (2, 0x16)) (hv_regs (view rv0 g) (2, 0x17))"
      if g: "settled g" "hv_bank (view rv0 g) = 2" for g
      using g read_frame_settled [OF g(1), of "0x18" MII_R rv0] by (simp add: ref_answer ref_reg_def)
    then show ?thesis unfolding phlcon_kept_def by simp
  qed
  moreover have "clock_ready rv0 (ref_reply rv0) (\<lambda>_. 0)"
    by (auto simp: poll_ends_def ref_answer ref_reg_def)
  moreover have "mem_reg rv0 (ref_reply rv0) ERXSTL"
    by (auto simp: mem_reg_def ref_answer ref_reg_def slot_of_def slot_hi_def reg_slot_def reg_defs word_le_nat_alt word_less_nat_alt)
  moreover have "mem_reg rv0 (ref_reply rv0) MAMXFLL"
    using ref_mem_mamxfl(1) by (simp add: env0_def)
  ultimately show ?thesis
    using ref_bank [of rv0] ref_buffer [of rv0] ref_mii [of rv0] ref_tx [of rv0] unfolding chip_ok_def
    by (auto simp: rv0_def hv_bank_def)
qed

text \<open>C5. On a chip that answers what was written to it, \<open>enc28j60_init\<close> passes its self test and returns: the receive ring,
  the filter and the MAC (full duplex, flow control, padding, checksum, its address) are set up, reception is enabled, and the driver's
  record of the bank is right.  The PHY is not set to full duplex: \<open>PHCON1\<close> is written back as it was read, with its reserved bit 7
  set, so bit 8, the duplex mode, is what the PHY had.\<close>

theorem init_configures:
  assumes "chip_ok rv (miso E)" "hw_boot w" "settled (hist w)"
  shows "\<exists>w'. enc28j60_init (port_io E) a (d, w) =
      Some (d\<lparr>bank := Bank3, next_rx_packet_ptr := RX_BUFFER_START_ADDR, tx_buff_ptr := TX_BUFFER_START_ADDR\<rparr>, w') \<and>
    drv_ok rv (d\<lparr>bank := Bank3\<rparr>) w' \<and> configured a (hv_regs (chip rv w')) \<and>
    phy_mode_kept rv (miso E) (hv_regs (chip rv w')) \<and> bit (hv_econ1 (chip rv w')) RXEN"
  by (rule init_ok [OF assms])

theorem init_configures_witness:
  "\<exists>d' w'. enc28j60_init (port_io env0) \<lparr>addr1 = 2, addr2 = 0, addr3 = 0, addr4 = 0, addr5 = 0, addr6 = 1\<rparr> (dev0, hw0) = Some (d', w') \<and>
    hv_regs (chip rv0 w') (3, 0x01) = 1"
proof -
  have "chip_ok rv0 (miso env0)" using ref_chip by (simp add: env0_def)
  moreover have "settled (hist hw0)" using hw0_ok(3) by (simp add: coherent_def hw0_ok(2))
  ultimately show ?thesis
    using init_configures [of rv0 env0 hw0 "\<lparr>addr1 = 2, addr2 = 0, addr3 = 0, addr4 = 0, addr5 = 0, addr6 = 1\<rparr>" dev0] hw0_ok(5)
    by (auto simp: configured_def slots)
qed

end
