(* ===== verification/Main_Start.thy ===== *)
theory Main_Start
  imports Main_Loop Enc_Init
begin

unbundle bit_operations_syntax

text \<open>
  The program from its start: initialisation of the chip and of the stack, then the main loop.  On a chip that keeps what is
  written to it the start succeeds, and from then on every round of the loop returns, whatever frames arrive.
\<close>

declare split_paired_All [simp del] split_paired_Ex [simp del]

section \<open>The start\<close>

text \<open>The state that the C start-up code leaves: zeroed static data, the timer nodes in their pool.\<close>

definition at_boot :: "('x, 'w board) timers \<Rightarrow> bool" where
  "at_boot st \<longleftrightarrow> next_timeout st = [] \<and> timeo_free st = MEMP_NUM_SYS_TIMEOUT \<and>
     arp_table (world st) = replicate ARP_TABLE_SIZE no_entry \<and> etharp_cached_entry (world st) = 0 \<and>
     reass_idle (world st) \<and> netif_list (world st) = [] \<and> next_netif_num (world st) = 0"

lemma fresh_net_ok:
  assumes "mem_ok (nmem s) {}" "arp_table s = replicate ARP_TABLE_SIZE no_entry" "etharp_cached_entry s < ARP_TABLE_SIZE"
    "\<forall>n \<in> set (netif_list s). netif_ok n" "I (device s)"
  shows "net_ok I s {} (\<lambda>_. 0) C"
proof -
  have q: "queued (arp_table s) a = 0" for a by (rule queued_0) (auto simp: assms(2) no_entry_def)
  have "arp_table_ok (arp_table s)"
    using assms(2) by (auto simp: arp_table_ok_def entry_ok_def no_entry_def ethzero_def ETH_HWADDR_LEN_def entry_key_def)
  then show ?thesis using q held_none [OF assms(1)] assms
    by (auto simp: net_ok_def no_entry_def)
qed

text \<open>The interface as \<^verbatim>\<open>ethernetif_init\<close> and \<^verbatim>\<open>main\<close> set it up.\<close>

definition main_netif :: "netif \<Rightarrow> netif" where
  "main_netif n = n\<lparr>netif_ip4_addr := 0x3F19FEA9, netif_ip4_netmask := 0x00FFFFFF, netif_ip4_gw := 0, netif_mtu := 1500,
     netif_hwaddr := [2, 0, 0, 0, 0, 1], netif_hwaddr_len := 6,
     netif_flags := NETIF_FLAG_BROADCAST OR NETIF_FLAG_ETHARP OR NETIF_FLAG_LINK_UP OR NETIF_FLAG_ETHERNET, netif_name := [101, 110],
     netif_num := 0\<rparr>"

lemma addr_values: "IP4_ADDR 169 254 25 63 = 0x3F19FEA9" "IP4_ADDR 255 255 255 0 = 0x00FFFFFF" "IP4_ADDR 0 0 0 0 = 0"
  by code_simp+

lemma netif_add_main:
  assumes "netif_list s = []" "next_netif_num s = 0"
  shows "netif_add lo n (Some (IP4_ADDR 169 254 25 63)) (Some (IP4_ADDR 255 255 255 0)) (Some (IP4_ADDR 0 0 0 0)) ethernetif_init s =
    Some (Some 0, s\<lparr>next_netif_num := 1, netif_list := [main_netif n]\<rparr>)"
  using assms unfolding addr_values
  by (simp add: netif_add_def netif_set_addr_def Let_def addr_or_any_def ip4_addr_isany_def netif_do_set_netmask_def netif_do_set_gw_def
      netif_do_set_ipaddr_def netif_issue_reports_def ethernetif_init_def unique_num.simps main_netif_def ETH_HWADDR_LEN_def IPADDR_ANY_def)

definition main_netif_up :: "netif \<Rightarrow> netif" where
  "main_netif_up n = netif_set_flags (main_netif n) NETIF_FLAG_UP"

lemma main_netif_ok: "netif_ok (main_netif n)" "netif_ok (main_netif_up n)"
  by (simp_all add: netif_ok_def main_netif_def main_netif_up_def netif_set_flags_def ETH_HWADDR_LEN_def)

text \<open>Taking the interface up announces its address.\<close>

lemma netif_up_main:
  assumes "netif_list s = [main_netif n]"
  shows "on_netif 0 (netif_set_up lo) s =
    do { (_, s) \<leftarrow> etharp_request lo (main_netif_up n) 0x3F19FEA9 s; Some (s\<lparr>netif_list := map (\<lambda>m. if netif_num m = 0 then main_netif_up n else m) (netif_list s)\<rparr>) }"
proof -
  have d: "netif_deref (Some 0) s = Some (main_netif n)" using assms by (simp add: netif_deref_def main_netif_def)
  have f: "netif_flags (main_netif n) AND NETIF_FLAG_UP = 0" "netif_flags (main_netif_up n) AND NETIF_FLAG_UP \<noteq> 0"
    "netif_flags (main_netif_up n) AND NETIF_FLAG_LINK_UP \<noteq> 0" "netif_flags (main_netif_up n) AND NETIF_FLAG_ETHARP \<noteq> 0"
    "netif_ip4_addr (main_netif_up n) = 0x3F19FEA9"
    by (simp_all add: main_netif_def main_netif_up_def netif_set_flags_def NETIF_FLAG_UP_def NETIF_FLAG_LINK_UP_def NETIF_FLAG_ETHARP_def
        NETIF_FLAG_BROADCAST_def NETIF_FLAG_ETHERNET_def)
  have r: "(NETIF_REPORT_TYPE_IPV4 OR NETIF_REPORT_TYPE_IPV6) AND NETIF_REPORT_TYPE_IPV4 \<noteq> 0" by code_simp
  have a: "\<not> ip4_addr_isany (0x3F19FEA9 :: u32)" by (simp add: ip4_addr_isany_def IPADDR_ANY_def)
  show ?thesis
    using f r a by (simp add: on_netif_def d netif_set_up_def netif_issue_reports_def etharp_gratuitous_def Let_def
      main_netif_up_def [symmetric] split: bind_splits prod.splits)
qed

lemma timers_start:
  assumes "next_timeout st = []" "timeo_free st = MEMP_NUM_SYS_TIMEOUT"
  shows "sys_timeouts_init st = Some (st\<lparr>next_timeout := [\<lparr>timeo_time = sys_time st + 1000, timeo_h = Some Cyclic, timeo_arg = 0\<rparr>,
      \<lparr>timeo_time = sys_time st + 1000, timeo_h = Some Cyclic, timeo_arg = 1\<rparr>], timeo_free := 1\<rparr>)"
  using assms
  by (simp add: sys_timeouts_init_def lwip_cyclic_timers_def upt_rec sys_timeout_def sys_timeout_abs_place
      MEMP_NUM_SYS_TIMEOUT_def place_def sys_now_def TIME_LESS_THAN_def LWIP_MAX_TIMEOUT_def Let_def)

lemma armed_start:
  assumes "next_timeout st = [\<lparr>timeo_time = sys_time st + 1000, timeo_h = Some Cyclic, timeo_arg = 0\<rparr>,
      \<lparr>timeo_time = sys_time st + 1000, timeo_h = Some Cyclic, timeo_arg = 1\<rparr>]" "timeo_free st = 1"
  shows "armed st"
proof -
  have "due (sys_now st - 2 ^ 30) (sys_time st + 1000) = 2 ^ 30 + 1000" by (simp add: due_def sys_now_def)
  then show ?thesis using assms by (auto simp: armed_def timers_ok_def cyclic_only_def in_window_def MEMP_NUM_SYS_TIMEOUT_def lwip_cyclic_timers_def)
qed

lemma net_ok_mem_ok:
  assumes "net_ok I s {} (\<lambda>_. 0) C" "\<forall>a. queued (arp_table s) a = 0"
  shows "mem_ok (nmem s) {}"
  using held_mem [OF net_okD(4) [OF assms(1)]] assms(2) by (simp add: all_blocks_def)

lemma main_start_ok:
  fixes st :: "('x, hw board) timers"
  assumes boot: "at_boot st" and chip: "chip_ok rv (miso E)" and hw: "device (world st) = (d, w)" "hw_boot w" "settled (hist w)"
  shows "\<exists>st'. main_start (port_io E) n st = Some (Some 0, st') \<and> loop_ok E rv 0 st' \<and>
    netif_list (world st') = [main_netif_up n] \<and> netif_default (world st') = Some 0 \<and>
    arp_table (world st') = replicate ARP_TABLE_SIZE no_entry \<and> reassdatagrams (world st') = []"
proof -
  let ?lo = "low_level_output (port_io E)" and ?I = "board_ok E rv"
  obtain d' w' where d': "enc28j60_init (port_io E) my_MAC_addr (d, w) = Some (d', w')" "drv_ok rv d' w'"
    using init_ok [OF chip hw(2,3), of my_MAC_addr d] by (auto simp: drv_ok_def coherent_def)
  have dev: "?I (d', w')" using d'(2) chip by (auto simp: board_ok_def chip_ok_def)
  define s1 where "s1 = (world st)\<lparr>device := (d', w'), nmem := (nmem (world st))\<lparr>ram_heap := mem_init (ram_heap (nmem (world st))),
      pools := memp_init (pools (nmem (world st)))\<rparr>\<rparr>"
  define ts where "ts = [\<lparr>timeo_time = sys_time st + 1000, timeo_h = Some Cyclic, timeo_arg = 0\<rparr>,
      \<lparr>timeo_time = sys_time st + 1000, timeo_h = Some (Cyclic :: 'x sys_timeout_handler), timeo_arg = 1\<rparr>]"
  note b = boot [unfolded at_boot_def reass_idle_def]
  have init: "lwip_init (st\<lparr>world := (world st)\<lparr>device := (d', w')\<rparr>\<rparr>) = Some (st\<lparr>world := s1, next_timeout := ts, timeo_free := 1\<rparr>)"
    using timers_start [of "st\<lparr>world := s1\<rparr>"] b by (simp add: lwip_init_def s1_def ts_def Let_def)
  define s2 where "s2 = s1\<lparr>next_netif_num := 1, netif_list := [main_netif n]\<rparr>"
  have add: "netif_add ?lo n (Some (IP4_ADDR 169 254 25 63)) (Some (IP4_ADDR 255 255 255 0)) (Some (IP4_ADDR 0 0 0 0)) ethernetif_init s1 =
      Some (Some 0, s2)"
    unfolding s2_def by (rule netif_add_main) (use b in \<open>simp_all add: s1_def\<close>)
  let ?s2 = "netif_set_default (Some 0) s2"
  have ok2: "net_ok ?I ?s2 {} (\<lambda>_. 0) (\<lambda>_. [])"
  proof (rule fresh_net_ok)
    show "mem_ok (nmem ?s2) {}" by (simp add: netif_set_default_def s2_def s1_def mem_ok_def memp_init_ok heap_ok_init ram_ptrs_def)
  qed (use b dev main_netif_ok in \<open>simp_all add: netif_set_default_def s2_def s1_def ARP_TABLE_SIZE_def\<close>)
  have "returns (etharp_request ?lo (main_netif_up n) 0x3F19FEA9 ?s2) (\<lambda>(e, s'). net_ok ?I s' {} (\<lambda>_. 0) (\<lambda>_. []) \<and> same_state ?s2 s')"
    by (rule returns_mono [OF etharp_request_ok [OF board_link_ok ok2 main_netif_ok(2)]]) auto
  then obtain e s3 where s3: "etharp_request ?lo (main_netif_up n) 0x3F19FEA9 ?s2 = Some (e, s3)" "net_ok ?I s3 {} (\<lambda>_. 0) (\<lambda>_. [])"
    "same_state ?s2 s3" by (rule returns_pair) blast
  have tab: "arp_table s3 = replicate ARP_TABLE_SIZE no_entry" "rest s3 = rest ?s2" "etharp_cached_entry s3 = 0"
    using s3(3) b by (simp_all add: same_state_def netif_set_default_def s2_def s1_def)
  have list3: "netif_list s3 = [main_netif n]" "netif_default s3 = Some 0" "reassdatagrams s3 = []" "ip_reass_pbufcount s3 = 0" "reass_next s3 = (\<lambda>_. None)"
    using tab(2) b by (simp_all add: rest_def netif_set_default_def s2_def s1_def)
  define s4 where "s4 = s3\<lparr>netif_list := [main_netif_up n]\<rparr>"
  have up: "on_netif 0 (netif_set_up ?lo) ?s2 = Some s4"
    using netif_up_main [of ?s2 n ?lo] s3(1) list3(1) by (simp add: netif_set_default_def s2_def s4_def main_netif_def)
  have "net_ok ?I s4 {} (\<lambda>_. 0) (\<lambda>_. [])"
  proof (rule fresh_net_ok)
    have "\<forall>a. queued (arp_table s3) a = 0" by (intro allI queued_0) (auto simp: tab(1) no_entry_def)
    then show "mem_ok (nmem s4) {}" using net_ok_mem_ok [OF s3(2)] by (simp add: s4_def)
  qed (use tab main_netif_ok net_okD(1) [OF s3(2)] in \<open>simp_all add: s4_def ARP_TABLE_SIZE_def\<close>)
  then have "stack_ok E rv 0 s4"
    using list3 by (auto simp: stack_ok_def ip_ok_def nets_ok_def reass_idle_def s4_def netif_deref_def main_netif_up_def main_netif_def
        netif_set_flags_def intro!: exI [of _ "\<lambda>_. []"])
  moreover define st' where "st' = st\<lparr>world := s4, next_timeout := ts, timeo_free := 1\<rparr>"
  moreover have "armed st'" by (rule armed_start) (simp_all add: st'_def ts_def)
  moreover have "main_start (port_io E) n st = Some (Some 0, st')"
    using d'(1) hw(1) init add up by (simp add: main_start_def Let_def st'_def)
  ultimately show ?thesis using list3(2,3) tab(1) by (auto simp: loop_ok_def s4_def)
qed

section \<open>Properties\<close>

lemma all_free:
  assumes "heap_ok h {}"
  shows "heap_inv h [(1024, False)]"
proof -
  obtain bs where bs: "heap_inv h bs" "used_at 0 bs = {}" using assms by (auto simp: heap_ok_def user_ptrs_def)
  then obtain q where b: "blocks (hdr h) 0 0 bs MEM_SIZE_ALIGNED q" "merged bs" by (auto simp: heap_inv_def heap_list_def)
  have "bs = [(1024, False)]"
  proof (cases bs)
    case Nil
    then show ?thesis using b(1) by (simp add: MEM_SIZE_ALIGNED_def)
  next
    case (Cons x ys)
    have free: "\<not> snd x" using bs(2) Cons by (cases x) auto
    have "ys = []"
    proof (rule ccontr)
      assume "ys \<noteq> []"
      then obtain y zs where "ys = y # zs" by (cases ys) auto
      then have "snd y" using b(2) Cons free by simp
      then show False using bs(2) Cons \<open>ys = y # zs\<close> by (cases x; cases y) auto
    qed
    then show ?thesis using b(1) Cons free by (cases x) (auto simp: MEM_SIZE_ALIGNED_def)
  qed
  then show ?thesis using bs(1) by simp
qed

text \<open>C1. On a chip that answers what was written to it and finishes every transmission, the program starts, with its one
  interface up; from then on every round of the main loop returns, however many ticks (up to twelve days) pass between the
  rounds, and whatever bytes the chip delivers as frames: no assertion fails, no pointer is bad, no loop is endless.\<close>

theorem program_runs:
  fixes st :: "('x, hw board) timers"
  assumes "at_boot st" "chip_ok rv (miso E)" "device (world st) = (d, w)" "hw_boot w" "settled (hist w)"
  shows "\<exists>st1. main_start (port_io E) n st = Some (Some 0, st1) \<and> netif_list (world st1) = [main_netif_up n] \<and>
    netif_default (world st1) = Some 0 \<and>
    (\<forall>st2 m. (loop_step (port_io E) user 0)\<^sup>*\<^sup>* st1 st2 \<longrightarrow> m \<le> 2 ^ 30 \<longrightarrow>
      (\<exists>st3. main_round (port_io E) user 0 ((SysTick_Handler ^^ m) st2) = Some st3))"
proof -
  obtain st1 where st1: "main_start (port_io E) n st = Some (Some 0, st1)" "loop_ok E rv 0 st1"
    "netif_list (world st1) = [main_netif_up n]" "netif_default (world st1) = Some 0"
    using main_start_ok [OF assms] by blast
  have "\<exists>st3. main_round (port_io E) user 0 ((SysTick_Handler ^^ m) st2) = Some st3"
    if "(loop_step (port_io E) user 0)\<^sup>*\<^sup>* st1 st2" "m \<le> 2 ^ 30" for st2 m
    using turn_ok [OF loop_invariant [OF that(1) st1(2)] that(2)] by blast
  then show ?thesis using st1 by blast
qed

text \<open>A board at boot, with the reference chip.\<close>

definition board0 :: "(unit, hw board) timers" where
  "board0 = \<lparr>next_timeout = [], current_timeout_due_time = 0, timeo_free = 3, sys_time = 0, world =
     \<lparr>nmem = net0, arp_table = replicate ARP_TABLE_SIZE no_entry, etharp_cached_entry = 0, ip_id = 0,
      ip_data = \<lparr>current_netif = None, current_input_netif = None, current_ip4_header = None, current_ip_header_tot_len = 0,
        current_iphdr_src = 0, current_iphdr_dest = 0\<rparr>,
      reassdatagrams = [], ip_reass_pbufcount = 0, reass_next = \<lambda>_. None, netif_list = [], netif_default = None,
      next_netif_num = 0, device = (dev0, hw0)\<rparr>\<rparr>"

lemma board0_boot: "at_boot board0" "chip_ok rv0 (miso env0)" "device (world board0) = (dev0, hw0)" "hw_boot hw0" "settled (hist hw0)"
proof -
  show "at_boot board0" by (simp add: at_boot_def board0_def reass_idle_def MEMP_NUM_SYS_TIMEOUT_def)
  show "chip_ok rv0 (miso env0)" using ref_chip by (simp add: env0_def)
  show "device (world board0) = (dev0, hw0)" by (simp add: board0_def)
  show "hw_boot hw0" by (rule hw0_ok)
  show "settled (hist hw0)" using hw0_ok(3) by (simp add: coherent_def hw0_ok(2))
qed

theorem program_runs_witness:
  "\<exists>st1 st2. main_start (port_io env0) netif0 board0 = Some (Some 0, st1) \<and>
    main_round (port_io env0) (\<lambda>_ _. Some) 0 ((SysTick_Handler ^^ 2000) st1) = Some st2"
proof -
  obtain st1 where st1: "main_start (port_io env0) netif0 board0 = Some (Some 0, st1)"
    "\<forall>st2 m. (loop_step (port_io env0) (\<lambda>_ _. Some) 0)\<^sup>*\<^sup>* st1 st2 \<longrightarrow> m \<le> 2 ^ 30 \<longrightarrow>
      (\<exists>st3. main_round (port_io env0) (\<lambda>_ _. Some) 0 ((SysTick_Handler ^^ m) st2) = Some st3)"
    using program_runs [OF board0_boot, of netif0 "\<lambda>_ _. Some"] by blast
  have "\<exists>st2. main_round (port_io env0) (\<lambda>_ _. Some) 0 ((SysTick_Handler ^^ 2000) st1) = Some st2"
    by (rule st1(2) [rule_format, OF rtranclp.rtrancl_refl]) simp
  then show ?thesis using st1(1) by blast
qed

text \<open>C4. In every state the loop reaches, the data is well formed: ten ARP entries with distinct keys and hardware addresses
  of six bytes, packets only on pending entries, interfaces with six-byte addresses and an MTU of at least 576; both cyclic
  timers are armed, due within a second.\<close>

theorem reachable_types:
  assumes "at_boot st" "chip_ok rv (miso E)" "device (world st) = (d, w)" "hw_boot w" "settled (hist w)"
    and "main_start (port_io E) n st = Some (Some k, u1)" "(loop_step (port_io E) user k)\<^sup>*\<^sup>* u1 u2"
  shows "arp_table_ok (arp_table (world u2)) \<and> (\<forall>n \<in> set (netif_list (world u2)). netif_ok n \<and> 576 \<le> unat (netif_mtu n)) \<and>
    drv_ok rv (fst (device (world u2))) (snd (device (world u2))) \<and>
    (\<forall>t \<in> set (next_timeout u2). timeo_h t = Some Cyclic \<and> due (sys_now u2) (timeo_time t) \<le> 1000) \<and>
    length (next_timeout u2) + timeo_free u2 = MEMP_NUM_SYS_TIMEOUT"
proof -
  obtain u1' where "main_start (port_io E) n st = Some (Some 0, u1')" "loop_ok E rv 0 u1'"
    using main_start_ok [OF assms(1-5)] by blast
  then have "loop_ok E rv k u1" using assms(6) by simp
  then have ok: "loop_ok E rv k u2" using loop_invariant assms(7) by blast
  then obtain C where C: "ip_ok (board_ok E rv) (world u2) (\<lambda>_. 0) C" by (auto simp: loop_ok_def stack_ok_def)
  then obtain L R where n: "net_ok (board_ok E rv) (world u2) L R C" "nets_ok (world u2)" unfolding ip_ok_def by blast
  have "due (sys_now u2) (timeo_time t) \<le> 1000" if "t \<in> set (next_timeout u2)" for t
  proof -
    have b: "2 ^ 30 \<le> due (sys_now u2 - 2 ^ 30) (timeo_time t)" "due (sys_now u2 - 2 ^ 30) (timeo_time t) \<le> 2 ^ 30 + 1000"
      using ok that by (auto simp: loop_ok_def armed_def)
    have "due (sys_now u2 - 2 ^ 30 + 2 ^ 30) (timeo_time t) = due (sys_now u2 - 2 ^ 30) (timeo_time t) - 2 ^ 30"
      using due_later [of "2 ^ 30" "sys_now u2 - 2 ^ 30" "timeo_time t"] b(1) by simp
    then show ?thesis using b(2) by simp
  qed
  moreover have "timers_ok (sys_now u2 - 2 ^ 30) u2" "cyclic_only u2" using ok by (auto simp: loop_ok_def armed_def)
  ultimately show ?thesis using net_okD(1,2,7) [OF n(1)] n(2)
    by (auto simp: nets_ok_def board_ok_def timers_ok_def cyclic_only_def split: prod.splits)
qed

theorem reachable_types_witness:
  "\<exists>u1. main_start (port_io env0) netif0 board0 = Some (Some 0, u1) \<and> arp_table_ok (arp_table (world u1))"
proof -
  obtain u1 where u1: "main_start (port_io env0) netif0 board0 = Some (Some 0, u1)"
    using main_start_ok [OF board0_boot, of netif0] by blast
  from reachable_types [OF board0_boot u1 rtranclp.rtrancl_refl] u1 show ?thesis by blast
qed

text \<open>C2. No frame and no timer leaks memory: whenever the loop is between two rounds, no fragment waits and no ARP entry holds
  a packet, the heap is one free block again and every pool is complete.\<close>

theorem nothing_leaks:
  assumes "at_boot st" "chip_ok rv (miso E)" "device (world st) = (d, w)" "hw_boot w" "settled (hist w)"
    and "main_start (port_io E) n st = Some (Some k, u1)" "(loop_step (port_io E) user k)\<^sup>*\<^sup>* u1 u2"
    and "reassdatagrams (world u2) = []" "\<forall>e \<in> set (arp_table (world u2)). ae_q e = None"
  shows "heap_inv (ram_heap (nmem (world u2))) [(1024, False)] \<and> (\<forall>t. pool_ok (pools (nmem (world u2))) t {})"
proof -
  obtain u1' where "main_start (port_io E) n st = Some (Some 0, u1')" "loop_ok E rv 0 u1'"
    using main_start_ok [OF assms(1-5)] by blast
  then have "loop_ok E rv k u1" using assms(6) by simp
  then have ok: "loop_ok E rv k u2" using loop_invariant assms(7) by blast
  then obtain C where C: "ip_ok (board_ok E rv) (world u2) (\<lambda>_. 0) C" by (auto simp: loop_ok_def stack_ok_def)
  then have n: "net_ok (board_ok E rv) (world u2) {} (\<lambda>_. 0) C" using assms(8) by (auto simp: ip_ok_def reass_waits_def)
  have "\<forall>a. queued (arp_table (world u2)) a = 0" using assms(9) by (intro allI queued_0) auto
  from net_ok_mem_ok [OF n this] show ?thesis using all_free by (simp add: mem_ok_def memp_ok_def ram_ptrs_def)
qed

theorem nothing_leaks_witness:
  "\<exists>u1. main_start (port_io env0) netif0 board0 = Some (Some 0, u1) \<and> heap_inv (ram_heap (nmem (world u1))) [(1024, False)]"
proof -
  obtain u1 where u1: "main_start (port_io env0) netif0 board0 = Some (Some 0, u1)" "arp_table (world u1) = replicate ARP_TABLE_SIZE no_entry"
    "reassdatagrams (world u1) = []" using main_start_ok [OF board0_boot, of netif0] by blast
  have "\<forall>e \<in> set (arp_table (world u1)). ae_q e = None" using u1(2) by (simp add: no_entry_def)
  from nothing_leaks [OF board0_boot u1(1) rtranclp.rtrancl_refl u1(3) this] u1(1) show ?thesis by blast
qed

end
