(* ===== verification/Lwip_Echo.thy ===== *)
theory Lwip_Echo
  imports Lwip_Input_Safe
begin

unbundle bit_operations_syntax

text \<open>
  What the program is for: an echo request is answered.  The bytes of the frame that the link driver is given are those of
  the request with addresses and type exchanged and both checksums right.
\<close>

declare split_paired_All [simp del] split_paired_Ex [simp del]

section \<open>Messages\<close>

definition ip4_bytes :: "u8 \<Rightarrow> u16 \<Rightarrow> u16 \<Rightarrow> u16 \<Rightarrow> u8 \<Rightarrow> u16 \<Rightarrow> u32 \<Rightarrow> u32 \<Rightarrow> u8 list" where
  "ip4_bytes tos len ident frag ttl chk src dst =
     [0x45, tos, hi8 len, lo8 len, hi8 ident, lo8 ident, hi8 frag, lo8 frag, ttl, 1, lo8 chk, hi8 chk] @ addr_bytes src @ addr_bytes dst"

text \<open>An ICMP packet without options or fragmentation, with the right checksum of the header.\<close>

definition ip4_packet :: "u8 \<Rightarrow> u16 \<Rightarrow> u8 \<Rightarrow> u32 \<Rightarrow> u32 \<Rightarrow> u8 list \<Rightarrow> u8 list" where
  "ip4_packet tos ident ttl src dst payload =
     (let len = of_nat (20 + length payload)
      in ip4_bytes tos len ident 0 ttl (internet_checksum (ip4_bytes tos len ident 0 ttl 0 src dst)) src dst @ payload)"

definition icmp_bytes :: "u8 \<Rightarrow> u8 \<Rightarrow> u16 \<Rightarrow> u8 list \<Rightarrow> u8 list" where
  "icmp_bytes ty code chk body = [ty, code, lo8 chk, hi8 chk] @ body"

lemma length_ip4_bytes [simp]: "length (ip4_bytes tos len ident frag ttl chk src dst) = 20"
  by (simp add: ip4_bytes_def)

lemma length_ip4_packet [simp]: "length (ip4_packet tos ident ttl src dst payload) = 20 + length payload"
  by (simp add: ip4_packet_def Let_def)

lemma length_icmp_bytes [simp]: "length (icmp_bytes ty code chk body) = 4 + length body"
  by (simp add: icmp_bytes_def)

section \<open>Checksums\<close>

lemma unat_not16: "unat (NOT w) = 65535 - unat (w :: u16)"
proof -
  have "NOT w = - 1 - w" by (simp add: not_eq_complement)
  moreover have "unat (- 1 - w) = unat (- 1 :: u16) - unat w" by (rule unat_sub) simp
  ultimately show ?thesis by (simp add: unsigned_minus_1_eq_mask mask_eq_exp_minus_1)
qed

lemma unat_internet_checksum: "unat (internet_checksum bs) = 65535 - oc (le_sum bs)"
  using oc_le [of "le_sum bs"] by (simp add: internet_checksum_def unat_not16 unat_of_nat)

lemma inet_chksum_internet:
  assumes "length bs \<le> 0x20000"
  shows "inet_chksum adr bs = internet_checksum bs"
proof -
  have "unat (inet_chksum adr bs) = unat (internet_checksum bs)"
    using chksum_oc [OF assms, of adr] by (simp add: inet_chksum_def unat_not16 unat_internet_checksum)
  then show ?thesis by (rule unsigned_word_eqI)
qed

lemma internet_checksum_0_iff: "internet_checksum bs = 0 \<longleftrightarrow> le_sum bs mod 65535 = 0 \<and> le_sum bs \<noteq> 0"
proof -
  have "internet_checksum bs = 0 \<longleftrightarrow> oc (le_sum bs) = 65535"
    using oc_le [of "le_sum bs"] unat_internet_checksum [of bs] unsigned_eq_0_iff [of "internet_checksum bs"] by auto
  also have "\<dots> \<longleftrightarrow> le_sum bs mod 65535 = 0 \<and> le_sum bs \<noteq> 0"
  proof (cases "le_sum bs")
    case (Suc k)
    have "(Suc k) mod 65535 = 0 \<longleftrightarrow> k mod 65535 = 65534" by (auto simp: mod_Suc)
    then show ?thesis using Suc by (simp add: oc_def)
  qed simp
  finally show ?thesis .
qed

text \<open>A checksum in its field makes the checksum of the whole 0.\<close>

lemma checksum_filled:
  assumes "even (length pre)" "\<not> set (pre @ post) \<subseteq> {0}"
  defines "c \<equiv> internet_checksum (pre @ [0, 0] @ post)"
  shows "internet_checksum (pre @ [lo8 c, hi8 c] @ post) = 0"
proof -
  let ?S = "le_sum (pre @ [0, 0] @ post)"
  have sum: "le_sum (pre @ [lo8 c, hi8 c] @ post) = ?S + unat c" using unat_le16 [of "lo8 c" "hi8 c"]
    by (simp add: le_sum_append_even [OF assms(1)])
  have S: "?S \<noteq> 0" using assms(2) by (auto simp: le_sum_eq_0)
  have "oc ?S + unat c = 65535" using oc_le [of ?S] unfolding c_def unat_internet_checksum by (rule le_add_diff_inverse)
  then have "oc_eq (?S + unat c) 65535" using oc_eq_add [OF oc_eq_sym [OF oc_eq_oc] oc_eq_refl, of ?S "unat c"] by simp
  then have "(?S + unat c) mod 65535 = 0" by (simp only: oc_eq_def mod_self)
  moreover have "?S + unat c \<noteq> 0" using S by (rule contrapos_nn) (rule add_is_0 [THEN iffD1, THEN conjunct1])
  ultimately show ?thesis unfolding internet_checksum_0_iff sum by (rule conjI)
qed

lemma ip4_packet_checksum:
  "internet_checksum (ip4_bytes tos len ident frag ttl (internet_checksum (ip4_bytes tos len ident frag ttl 0 src dst)) src dst) = 0"
  using checksum_filled [of "[0x45, tos, hi8 len, lo8 len, hi8 ident, lo8 ident, hi8 frag, lo8 frag, ttl, 1]"
      "addr_bytes src @ addr_bytes dst"]
  by (simp add: ip4_bytes_def)

text \<open>The checksum of a reply, computed from that of the request.\<close>

lemma unat_adjust:
  "unat (icmp_adjust_chksum c) = (if unat c > 65527 then unat c - 65527 else unat c + 8)"
proof -
  have h: "lwip_htons (0xffff - push_bit 8 (ucast ICMP_ECHO)) = 65527" "lwip_htons (push_bit 8 (ucast ICMP_ECHO)) = 8"
    by (simp_all add: ICMP_ECHO_def, code_simp+)
  have "unat c < 65536" by (rule u16_lt)
  then show ?thesis unfolding icmp_adjust_chksum_def h
    by (auto simp: word_less_nat_alt unat_word_ariths not_less mod_if)
qed

lemma icmp_adjust_checksum:
  assumes "internet_checksum (icmp_bytes 8 code c body) = 0"
  shows "internet_checksum (icmp_bytes 0 code (icmp_adjust_chksum c) body) = 0"
proof -
  let ?c = "icmp_adjust_chksum c"
  have sum: "le_sum (icmp_bytes ty code c body) = unat ty + 256 * unat code + unat c + le_sum body" for ty c
    using unat_le16 [of "lo8 c" "hi8 c"] by (simp add: icmp_bytes_def)
  have S: "(8 + 256 * unat code + unat c + le_sum body) mod 65535 = 0"
    using assms by (simp add: internet_checksum_0_iff sum)
  have lt: "unat c < 65536" by (rule u16_lt)
  have "(256 * unat code + unat ?c + le_sum body) mod 65535 = 0 \<and> 0 < unat ?c"
  proof (cases "unat c > 65527")
    case True
    then have "8 + 256 * unat code + unat c + le_sum body = (256 * unat code + unat ?c + le_sum body) + 65535"
      by (simp add: unat_adjust)
    then have "(256 * unat code + unat ?c + le_sum body) mod 65535 = 0" using S by (simp only: mod_add_self2)
    then show ?thesis using True by (simp add: unat_adjust)
  next
    case False
    then show ?thesis using S by (simp add: unat_adjust ac_simps)
  qed
  then show ?thesis by (simp add: internet_checksum_0_iff sum)
qed

section \<open>The reply\<close>

text \<open>The bytes that \<open>icmp_reply\<close> writes, in its order.\<close>

lemma reply_written:
  assumes d: "read_bytes d h (24 + length body) = ip4_bytes tos len ident 0 ttl chk src dst @ icmp_bytes 8 code c body"
    and d1_def: "d1 = write_bytes (iph_chksum h) [0, 0] (write_bytes (iph_ttl h) [ttl'] (write_bytes (ptr_add h 22) [lo8 c', hi8 c']
       (write_bytes (ptr_add h 20) [0] (write_bytes (iph_dest h) (addr_bytes dst') (write_bytes (iph_src h) (addr_bytes src') d)))))"
  shows "read_bytes d1 h 20 = ip4_bytes tos len ident 0 ttl' 0 src' dst'"
    and "read_bytes (write_bytes (iph_chksum h) [lo8 k, hi8 k] d1) h (24 + length body) =
      ip4_bytes tos len ident 0 ttl' k src' dst' @ icmp_bytes 0 code c' body"
proof -
  have f: "iph_chksum h = ptr_add h (int 10)" "iph_ttl h = ptr_add h (int 8)" "iph_dest h = ptr_add h (int 16)"
    "iph_src h = ptr_add h (int 12)" "ptr_add h 22 = ptr_add h (int 22)" "ptr_add h 20 = ptr_add h (int 20)"
    by (simp_all add: iph_fields)
  have all: "read_bytes d1 h (24 + length body) = ip4_bytes tos len ident 0 ttl' 0 src' dst' @ icmp_bytes 0 code c' body"
    unfolding d1_def f by (simp add: read_write_part d ip4_bytes_def icmp_bytes_def addr_bytes_def del: of_nat_numeral)
  show "read_bytes (write_bytes (iph_chksum h) [lo8 k, hi8 k] d1) h (24 + length body) =
      ip4_bytes tos len ident 0 ttl' k src' dst' @ icmp_bytes 0 code c' body"
    unfolding f by (simp add: read_write_part all ip4_bytes_def icmp_bytes_def addr_bytes_def del: of_nat_numeral)
  have "read_bytes d1 (ptr_add h (int 0)) 20 = take 20 (drop 0 (read_bytes d1 h (24 + length body)))" by (rule read_bytes_sub) simp
  then show "read_bytes d1 h 20 = ip4_bytes tos len ident 0 ttl' 0 src' dst'" by (simp add: all ip4_bytes_def addr_bytes_def)
qed

lemma le32_addr_bytes: "le32 (ucast a) (ucast (drop_bit 8 a)) (ucast (drop_bit 16 a)) (ucast (drop_bit 24 a)) = a"
  by (rule bit_word_eqI) (auto simp: bit_le32 bit_simps)

text \<open>Fields of a packet in memory.\<close>

lemma byte_of: "read_bytes d h n = xs \<Longrightarrow> i < n \<Longrightarrow> d (ptr_add h (int i)) = xs ! i"
  by auto

lemma get32_addr:
  assumes "read_bytes (data_bytes (nmem s)) h n = xs" "k + 4 \<le> n" "take 4 (drop k xs) = addr_bytes a"
  shows "get32 (ptr_add h (int k)) s = a"
proof -
  have "length xs = n" using assms(1) by auto
  then have x: "xs ! (k + i) = addr_bytes a ! i" if "i < 4" for i using assms(2,3) that nth_take [of i 4 "drop k xs"] by simp
  have "get8 (ptr_add (ptr_add h (int k)) (int i)) s = addr_bytes a ! i" if "i < 4" for i
    using byte_of [OF assms(1), of "k + i"] assms(2) that x [OF that] by (simp add: get8_def)
  from this [of 0] this [of 1] this [of 2] this [of 3] have "get32 (ptr_add h (int k)) s =
      le32 (addr_bytes a ! 0) (addr_bytes a ! 1) (addr_bytes a ! 2) (addr_bytes a ! 3)" by (simp add: get32_def)
  then show ?thesis using le32_addr_bytes [of a] by (simp add: addr_bytes_def)
qed

lemma get16_at:
  assumes "read_bytes (data_bytes (nmem s)) h n = xs" "k + 2 \<le> n" "xs ! k = lo8 w" "xs ! (k + 1) = hi8 w"
  shows "get16 (ptr_add h (int k)) s = w"
proof -
  have "get8 (ptr_add h (int k)) s = lo8 w" "get8 (ptr_add (ptr_add h (int k)) (int 1)) s = hi8 w"
    using byte_of [OF assms(1), of k] byte_of [OF assms(1), of "k + 1"] assms(2-4) by (simp_all add: get8_def ac_simps)
  then show ?thesis by (simp add: get16_def)
qed

text \<open>The neighbour that a packet to \<open>ip\<close> goes to is resolved, and need not be asked again.\<close>

definition neighbour :: "'d net_st \<Rightarrow> netif \<Rightarrow> u32 \<Rightarrow> nat \<Rightarrow> bool" where
  "neighbour s n ip i \<longleftrightarrow> \<not> not_unicast ip n \<and> i < ARP_TABLE_SIZE \<and> ae_state (arp_table s ! i) = ETHARP_STATE_STABLE \<and>
     ae_ctime (arp_table s ! i) < 270 \<and>
     (\<exists>dst. etharp_next_hop n ip = Some dst \<and> entry_key (arp_table s ! i) = Some (dst, Some (netif_num n)))"

lemma icmp_reply_frame:
  assumes ok: "net_ok I s L R C" and n: "netif_ok inp" and nb: "neighbour s inp src i"
    and p: "R p = 1" "rx_packet s C p" "queued (arp_table s) p = 0"
    and pl: "pb_payload (the_pbuf s p) = Some (ptr_add h 20)" "snd p + int SIZEOF_STRUCT_PBUF + 14 \<le> snd h"
    and len: "plen (nmem s) p = 4 + length body" "length body \<le> 218" "576 \<le> unat (netif_mtu inp)"
    and d: "read_bytes (data_bytes (nmem s)) h (24 + length body) = ip4_bytes tos len ident 0 ttl chk src dst @ icmp_bytes 8 code c body"
    and cur: "current_iphdr_src (ip_data s) = src"
  shows "\<exists>m. icmp_reply lo p 20 dst inp s =
      do { (e, d) \<leftarrow> lo inp p m (device s); Some (s\<lparr>etharp_cached_entry := i, nmem := m, device := d\<rparr>) } \<and>
    chain m (Some p) [p] \<and>
    content m [p] = eth_frame (ae_ethaddr (arp_table s ! i)) (netif_hwaddr inp) ETHTYPE_IP
      (ip4_bytes tos len ident 0 255 (internet_checksum (ip4_bytes tos len ident 0 255 0 dst src)) dst src @
       icmp_bytes 0 code (icmp_adjust_chksum c) body)"
proof -
  have p0: "0 < R p" and Cp: "C p = [p]" using p by (simp_all add: rx_packet_def)
  have pos: "0 < refs s R p" using p0 by simp
  have ctg: "ucast (pb_type_internal (the_pbuf s p)) AND PBUF_TYPE_FLAG_STRUCT_DATA_CONTIGUOUS \<noteq> 0"
    using p(2) by (simp add: rx_packet_def PBUF_TYPE_FLAG_STRUCT_DATA_CONTIGUOUS_def)
  have 20: "unat (20 :: u16) \<le> 0xFFFF" by simp
  have room: "fst (the (pbuf_add_header (Some p) (unat (20 :: u16)) (nmem s))) = False"
    by (rule add_header_room [OF net_okD(4) [OF ok] pos _ pl(1) ctg]) (use pl(2) len Cp in simp_all)
  show ?thesis
  proof (cases rule: add_header_net [OF ok p0 p(3) 20])
    case 1
    then show ?thesis using room by (auto simp: in_mem_def bind_Some_iff)
  next
    case m: (2 m pl')
    have "pl' = ptr_add h 20" using m(5) pl(1) by simp
    then have h: "pb_payload (pbufs m p) = Some h" using m(6) by simp
    let ?f = "\<lambda>b. b\<lparr>pb_if_idx := NETIF_NO_INDEX\<rparr>"
    define s1 where "s1 = put_bytes (ptr_add h 20) [ICMP_ER] (put32 (iph_dest h) src (put32 (iph_src h) dst (s\<lparr>nmem := m\<rparr>)))"
    have ok1: "net_ok I s1 L R C" using m(3) by (simp add: s1_def put_bytes_net)
    define s2 where "s2 = s1\<lparr>nmem := upd_pbuf p ?f (nmem s1)\<rparr>"
    have ok2: "net_ok I s2 L R C" unfolding s2_def by (rule upd_flags_net [of I s1 L R C p, OF ok1 p0]) (use p(3) in \<open>simp_all add: s1_def\<close>)
    define s3 where "s3 = put16 (iph_chksum h) 0 (put_bytes (iph_ttl h) [ICMP_TTL]
       (put16 (ptr_add h 22) (icmp_adjust_chksum (get16 (ptr_add h 22) s2)) s2))"
    define s4 where "s4 = put16 (iph_chksum h) (chksum_at h 20 s3) s3"
    have ok4: "net_ok I s4 L R C" using ok2 by (simp add: s4_def s3_def put_bytes_net)
    have r4: "ip_rest s4 = ip_rest s" and a4: "arp_table s4 = arp_table s" by (simp_all add: s4_def s3_def s2_def s1_def)
    have pb4: "pbufs (nmem s4) p = ?f (pbufs m p)" by (simp add: s4_def s3_def s2_def s1_def upd_pbuf_def)
    have s4: "s4 = s\<lparr>nmem := nmem s4\<rparr>" by (simp add: s4_def s3_def s2_def s1_def put_bytes_def)
    define N where "N = 24 + length body"
    have b2: "read_bytes (data_bytes (nmem s2)) h N = ip4_bytes tos len ident 0 ttl chk dst src @ icmp_bytes 0 code c body"
    proof -
      have f: "iph_dest h = ptr_add h (int 16)" "iph_src h = ptr_add h (int 12)" "ptr_add h 20 = ptr_add h (int 20)"
        by (simp_all add: iph_fields)
      show ?thesis unfolding s2_def s1_def f N_def
        by (simp add: read_write_part d m(4) upd_pbuf_def ip4_bytes_def icmp_bytes_def addr_bytes_def ICMP_ER_def del: of_nat_numeral)
    qed
    have c: "get16 (ptr_add h 22) s2 = c"
      using get16_at [OF b2, of 22 c] by (simp add: N_def ip4_bytes_def icmp_bytes_def addr_bytes_def)
    define d1 where "d1 = write_bytes (iph_chksum h) [0, 0] (write_bytes (iph_ttl h) [255] (write_bytes (ptr_add h 22)
       [lo8 (icmp_adjust_chksum c), hi8 (icmp_adjust_chksum c)] (write_bytes (ptr_add h 20) [0] (write_bytes (iph_dest h) (addr_bytes src)
       (write_bytes (iph_src h) (addr_bytes dst) (data_bytes (nmem s)))))))"
    have d3: "data_bytes (nmem s3) = d1"
      unfolding s3_def c by (simp add: s2_def s1_def d1_def m(4) upd_pbuf_def ICMP_ER_def ICMP_TTL_def)
    note w = reply_written [OF d d1_def]
    define k where "k = chksum_at h 20 s3"
    have k: "k = internet_checksum (ip4_bytes tos len ident 0 255 0 dst src)"
      unfolding k_def chksum_at_def get_bytes_def d3 w(1) by (rule inet_chksum_internet) simp
    have b4: "read_bytes (data_bytes (nmem s4)) h N =
        ip4_bytes tos len ident 0 255 k dst src @ icmp_bytes 0 code (icmp_adjust_chksum c) body"
      unfolding s4_def k_def [symmetric] N_def using w(2) [of k] d3 by simp
    have l4: "plen (nmem s4) p = N" "unat (pb_tot_len (the_pbuf s4 p)) = N"
      using m(7) len packet_tot(1) [OF ok4 p0] by (simp_all add: pb4 Cp N_def)
    have con4: "content (nmem s4) (C p) = ip4_bytes tos len ident 0 255 k dst src @ icmp_bytes 0 code (icmp_adjust_chksum c) body"
      using l4(1) h b4 by (simp add: Cp chunk_def pb4)
    have "ucast (pb_type_internal (the_pbuf s4 p)) AND PBUF_TYPE_FLAG_STRUCT_DATA_CONTIGUOUS \<noteq> 0"
      using ctg add_header_fields(1) [OF m(1), of p] by (simp add: pb4)
    then have head: "has_headroom (nmem s4) p (C p)"
      unfolding has_headroom_def using h pl(2) l4(1) len by (simp add: pb4 Cp SIZEOF_ETH_HDR_def N_def)
    obtain nh where nh: "\<not> not_unicast src inp" "i < ARP_TABLE_SIZE" "ae_state (arp_table s4 ! i) = ETHARP_STATE_STABLE"
      "ae_ctime (arp_table s4 ! i) < 270" "etharp_next_hop inp src = Some nh" "entry_key (arp_table s4 ! i) = Some (nh, Some (netif_num inp))"
      using nb unfolding neighbour_def a4 by blast
    obtain m' where m': "etharp_output lo inp p src s4 =
        do { (e, d) \<leftarrow> lo inp p m' (device s4); Some (e, s4\<lparr>etharp_cached_entry := i, nmem := m', device := d\<rparr>) }"
      "chain m' (Some p) (C p)"
      "content m' (C p) = eth_frame (ae_ethaddr (arp_table s4 ! i)) (netif_hwaddr inp) ETHTYPE_IP (content (nmem s4) (C p))"
      using etharp_output_stable [OF ok4 n p0 head nh(1,5,2,3,4,6), of lo] by blast
    have ref: "pb_ref (the_pbuf s4 p) = 1"
      using heldD(2) [OF net_okD(4) [OF ok4], of p] p0 p(1,3) word_eq_nat [of "pb_ref (the_pbuf s4 p)" 1] by (simp add: a4)
    have dest: "get32 (iph_dest h) s4 = src"
      using get32_addr [OF b4, of 16 src] by (simp add: iph_fields N_def ip4_bytes_def addr_bytes_def)
    have "\<not> pb_len (the_pbuf s4 p) < of_nat IP_HLEN" using l4(1) by (simp add: IP_HLEN_def word_less_nat_alt N_def)
    moreover have "\<not> pb_tot_len (the_pbuf s4 p) > netif_mtu inp" using l4(2) len by (simp add: word_less_nat_alt N_def)
    ultimately have out: "ip4_output_if lo p (Some dst) None ICMP_TTL 0 IP_PROTO_ICMP inp s4 = etharp_output lo inp p src s4"
      using ref dest h by (simp add: ip4_output_if_def ip4_output_if_src_def pb4)
    have "icmp_reply lo p 20 dst inp s = do { (_, s) \<leftarrow> ip4_output_if lo p (Some dst) None ICMP_TTL 0 IP_PROTO_ICMP inp s4; Some s }"
      unfolding icmp_reply_def using pl(1) m(2) h cur
      by (simp add: s4_def s3_def s2_def s1_def on_mem_def Let_def icmp_fields)
    also have "\<dots> = do { (e, d) \<leftarrow> lo inp p m' (device s); Some (s\<lparr>etharp_cached_entry := i, nmem := m', device := d\<rparr>) }"
      unfolding out m'(1) by (subst (1 2) s4) (cases "lo inp p m' (device s)", auto)
    finally show ?thesis using m'(2,3) con4 k by (intro exI [of _ m']) (simp add: Cp a4)
  qed
qed

section \<open>Reception\<close>

lemma make_room_same:
  assumes ok: "net_ok I s L R C" and p: "R p = 1" "rx_packet s C p" "queued (arp_table s) p = 0"
    and pl: "pb_payload (the_pbuf s p) = Some (ptr_add h 20)" "snd p + int SIZEOF_STRUCT_PBUF + 14 \<le> snd h" "plen (nmem s) p \<le> 256"
  obtains m where "icmp_make_room p h' 20 s = Some (Some p, s\<lparr>nmem := m\<rparr>)" "net_ok I (s\<lparr>nmem := m\<rparr>) L R C"
    "pb_payload (pbufs m p) = Some (ptr_add h 20)" "plen m p = plen (nmem s) p" "data_bytes m = data_bytes (nmem s)"
    "rx_packet (s\<lparr>nmem := m\<rparr>) C p"
proof -
  have p0: "0 < R p" and Cp: "C p = [p]" using p by (simp_all add: rx_packet_def)
  have pos: "0 < refs s R p" using p0 by simp
  have ctg: "ucast (pb_type_internal (the_pbuf s p)) AND PBUF_TYPE_FLAG_STRUCT_DATA_CONTIGUOUS \<noteq> 0"
    using p(2) by (simp add: rx_packet_def PBUF_TYPE_FLAG_STRUCT_DATA_CONTIGUOUS_def)
  have k: "unat (20 :: u16) + PBUF_LINK_HLEN = 34" by (simp add: PBUF_LINK_HLEN_def)
  have 34: "(34 :: nat) \<le> 0xFFFF" by simp
  have room: "fst (the (pbuf_add_header (Some p) 34 (nmem s))) = False"
    by (rule add_header_room [OF net_okD(4) [OF ok] pos 34 pl(1) ctg]) (use pl(2,3) Cp in simp_all)
  show thesis
  proof (cases rule: add_header_net [OF ok p0 p(3) 34])
    case 1
    then show thesis using room by (auto simp: in_mem_def bind_Some_iff)
  next
    case m: (2 m pl1)
    let ?s = "s\<lparr>nmem := m\<rparr>"
    have q: "queued (arp_table ?s) p = 0" "34 \<le> plen (nmem ?s) p" using p(3) m(7) by simp_all
    show thesis
    proof (rule remove_header_net [OF m(3) p0 q])
      fix m' pl2 assume m': "pbuf_remove_header (Some p) 34 (nmem ?s) = Some (False, m')"
        "in_mem (pbuf_remove_header (Some p) 34) ?s = Some (False, ?s\<lparr>nmem := m'\<rparr>)" "net_ok I (?s\<lparr>nmem := m'\<rparr>) L R C"
        "data_bytes m' = data_bytes (nmem ?s)" "pb_payload (the_pbuf ?s p) = Some pl2"
        "pb_payload (pbufs m' p) = Some (ptr_add pl2 (int 34))" "plen m' p = plen (nmem ?s) p - 34"
      have ty: "pb_type_internal (pbufs m' p) = pb_type_internal (the_pbuf s p)"
        using remove_header_fields(1) [OF m'(1), of p] add_header_fields(1) [OF m(1), of p] by simp
      have "icmp_make_room p h' 20 s = Some (Some p, s\<lparr>nmem := m'\<rparr>)" unfolding icmp_make_room_def k using m(2) m'(2) by simp
      then show thesis using that [of m'] m' m pl(1) p(2) ty by (auto simp: rx_packet_def)
    qed
  qed
qed

lemma icmp_input_frame:
  assumes ok: "net_ok I s L R C" and n: "netif_ok inp" and nb: "neighbour s inp src i"
    and p: "R p = 1" "rx_packet s C p" "queued (arp_table s) p = 0"
    and pl: "pb_payload (the_pbuf s p) = Some (ptr_add h 20)" "snd p + int SIZEOF_STRUCT_PBUF + 14 \<le> snd h"
    and len: "plen (nmem s) p = 4 + length body" "4 \<le> length body" "length body \<le> 218" "576 \<le> unat (netif_mtu inp)"
    and d: "read_bytes (data_bytes (nmem s)) h (24 + length body) = ip4_bytes tos len ident 0 ttl chk src dst @ icmp_bytes 8 code c body"
    and cur: "current_iphdr_src (ip_data s) = src" "current_iphdr_dest (ip_data s) = dst" "current_ip4_header (ip_data s) = Some h"
      "netif_deref (current_netif (ip_data s)) s = Some cn"
    and dst: "\<not> ip4_addr_ismulticast dst" "\<not> ip4_addr_isbroadcast_u32 dst cn"
    and chk: "internet_checksum (icmp_bytes 8 code c body) = 0"
  shows "\<exists>m. icmp_input lo p inp s =
      do { (e, d) \<leftarrow> lo inp p m (device s); free_pbuf p (s\<lparr>etharp_cached_entry := i, nmem := m, device := d\<rparr>) } \<and>
    chain m (Some p) [p] \<and>
    content m [p] = eth_frame (ae_ethaddr (arp_table s ! i)) (netif_hwaddr inp) ETHTYPE_IP
      (ip4_bytes tos len ident 0 255 (internet_checksum (ip4_bytes tos len ident 0 255 0 dst src)) dst src @
       icmp_bytes 0 code (icmp_adjust_chksum c) body)"
proof -
  have p0: "0 < R p" and Cp: "C p = [p]" using p by (simp_all add: rx_packet_def)
  have le: "plen (nmem s) p \<le> 256" using len by simp
  obtain m where m: "icmp_make_room p h 20 s = Some (Some p, s\<lparr>nmem := m\<rparr>)" "net_ok I (s\<lparr>nmem := m\<rparr>) L R C"
    "pb_payload (pbufs m p) = Some (ptr_add h 20)" "plen m p = plen (nmem s) p" "data_bytes m = data_bytes (nmem s)"
    "rx_packet (s\<lparr>nmem := m\<rparr>) C p" by (rule make_room_same [OF ok p pl le])
  let ?s = "s\<lparr>nmem := m\<rparr>"
  have "neighbour ?s inp src i" using nb by (simp add: neighbour_def)
  moreover have "queued (arp_table ?s) p = 0" "pb_payload (the_pbuf ?s p) = Some (ptr_add h 20)" "plen (nmem ?s) p = 4 + length body"
    "read_bytes (data_bytes (nmem ?s)) h (24 + length body) = ip4_bytes tos len ident 0 ttl chk src dst @ icmp_bytes 8 code c body"
    "current_iphdr_src (ip_data ?s) = src" using p(3) m len d cur by simp_all
  ultimately obtain m' where m': "icmp_reply lo p 20 dst inp ?s =
      do { (e, d) \<leftarrow> lo inp p m' (device ?s); Some (?s\<lparr>etharp_cached_entry := i, nmem := m', device := d\<rparr>) }"
    "chain m' (Some p) [p]"
    "content m' [p] = eth_frame (ae_ethaddr (arp_table ?s ! i)) (netif_hwaddr inp) ETHTYPE_IP
      (ip4_bytes tos len ident 0 255 (internet_checksum (ip4_bytes tos len ident 0 255 0 dst src)) dst src @
       icmp_bytes 0 code (icmp_adjust_chksum c) body)"
    using icmp_reply_frame [OF m(2) n _ p(1) m(6) _ _ pl(2) _ len(3,4), of src i tos len ident ttl chk dst code c lo] by blast
  have hd: "get8 h s = 0x45" "get8 (ptr_add h 20) s = ICMP_ECHO"
    using byte_of [OF d, of 0] byte_of [OF d, of 20]
    by (simp_all add: get8_def ip4_bytes_def icmp_bytes_def addr_bytes_def ICMP_ECHO_def)
  have hl: "(ucast (IPH_HL_BYTES h s) :: u16) = 20" using hd(1) by (simp add: IPH_HL_BYTES_def IPH_HL_def iph_v_hl_def)
  obtain segs where segs: "chain_segs (Some p) (nmem s) = Some segs" "inet_chksum_pbuf segs = 0"
  proof -
    have ch: "chain (nmem s) (Some p) [p]" using heldD(1) [OF net_okD(4) [OF ok], of p] p0 Cp by (simp add: packet_def)
    have "chunk (nmem s) p = icmp_bytes 8 code c body"
    proof -
      have "read_bytes (data_bytes (nmem s)) (ptr_add h (int 20)) (4 + length body) = take (4 + length body) (drop 20 (read_bytes (data_bytes (nmem s)) h (24 + length body)))"
        by (rule read_bytes_sub) simp
      then show ?thesis using pl(1) len(1) by (simp add: chunk_def d)
    qed
    then have "chain_segs (Some p) (nmem s) = Some [(nat (snd (ptr_add h 20)), icmp_bytes 8 code c body)]"
      using chain_segs_chain [OF ch] pl(1) by simp
    moreover have "inet_chksum_pbuf [(nat (snd (ptr_add h 20)), icmp_bytes 8 code c body)] = 0"
      using pbuf_chksum_eq [of "[(nat (snd (ptr_add h 20)), icmp_bytes 8 code c body)]"] chk len by simp
    ultimately show thesis by (rule that)
  qed
  have tot: "unat (pb_tot_len (the_pbuf s p)) = plen (nmem s) p" using packet_tot(1) [OF ok p0] Cp by simp
  have l4: "\<not> pb_len (the_pbuf s p) < 4" using len by (simp add: word_less_nat_alt)
  have "icmp_input lo p inp s = do { s \<leftarrow> icmp_reply lo p 20 dst inp ?s; free_pbuf p s }"
    unfolding icmp_input_def using cur hl pl(1) hd(2) l4 dst tot len segs m(1)
    by (simp add: icmph_type_def IP_HLEN_def SIZEOF_ICMP_HDR_def Let_def)
  then show ?thesis using m' by (intro exI [of _ m']; cases "lo inp p m' (device s)") auto
qed

lemma get_ip_data [simp]: "get32 a (s\<lparr>ip_data := x\<rparr>) = get32 a s" "get16 a (s\<lparr>ip_data := x\<rparr>) = get16 a s"
  by (simp_all add: get32_def get16_def get8_def)

text \<open>Between two packets.\<close>

definition no_packet :: ip_globals where
  "no_packet = \<lparr>current_netif = None, current_input_netif = None, current_ip4_header = None, current_ip_header_tot_len = 0,
     current_iphdr_src = IPADDR_ANY, current_iphdr_dest = IPADDR_ANY\<rparr>"

text \<open>What follows the transmission: the packet is freed.\<close>

definition sent :: "'d link_fn \<Rightarrow> netif \<Rightarrow> ptr \<Rightarrow> net_mem \<Rightarrow> 'd net_st \<Rightarrow> (err_t \<times> 'd net_st) option" where
  "sent lo inp p m s =
     do { (e, d) \<leftarrow> lo inp p m (device s);
          s \<leftarrow> free_pbuf p (s\<lparr>nmem := m, device := d\<rparr>);
          Some (ERR_OK, s\<lparr>ip_data := no_packet\<rparr>) }"

lemma ip4_deliver_frame:
  assumes ok: "net_ok I s L R C" and n: "netif_ok inp" "netif_deref (Some (netif_num inp)) s = Some inp" and nb: "neighbour s inp src i"
    and p: "R p = 1" "rx_packet s C p" "queued (arp_table s) p = 0"
    and pl: "pb_payload (the_pbuf s p) = Some h" "snd p + int SIZEOF_STRUCT_PBUF + 14 \<le> snd h"
    and len: "plen (nmem s) p = 24 + length body" "4 \<le> length body" "length body \<le> 218" "576 \<le> unat (netif_mtu inp)"
    and d: "read_bytes (data_bytes (nmem s)) h (24 + length body) = ip4_bytes tos len ident 0 ttl chk src dst @ icmp_bytes 8 code c body"
    and cur: "current_iphdr_src (ip_data s) = src" "current_iphdr_dest (ip_data s) = dst"
    and dst: "\<not> not_unicast dst inp"
    and chk: "internet_checksum (icmp_bytes 8 code c body) = 0"
  shows "\<exists>m x. ip4_deliver lo p h 20 inp inp s = sent lo inp p m (s\<lparr>ip_data := x, etharp_cached_entry := i\<rparr>) \<and>
    chain m (Some p) [p] \<and>
    content m [p] = eth_frame (ae_ethaddr (arp_table s ! i)) (netif_hwaddr inp) ETHTYPE_IP
      (ip4_bytes tos len ident 0 255 (internet_checksum (ip4_bytes tos len ident 0 255 0 dst src)) dst src @
       icmp_bytes 0 code (icmp_adjust_chksum c) body)"
proof -
  define x where "x = (ip_data s)\<lparr>current_netif := Some (netif_num inp), current_input_netif := Some (netif_num inp),
                current_ip4_header := Some h, current_ip_header_tot_len := ucast (IPH_HL_BYTES h s)\<rparr>"
  define s1 where "s1 = s\<lparr>ip_data := x\<rparr>"
  have p0: "0 < R p" using p(1) by simp
  have ok1: "net_ok I s1 L R C" "queued (arp_table s1) p = 0" "20 \<le> plen (nmem s1) p" using ok p(3) len by (simp_all add: s1_def)
  show ?thesis
  proof (rule remove_header_net [OF ok1(1) p0 ok1(2,3)])
    fix m pl' assume m: "pbuf_remove_header (Some p) 20 (nmem s1) = Some (False, m)"
      "in_mem (pbuf_remove_header (Some p) 20) s1 = Some (False, s1\<lparr>nmem := m\<rparr>)" "net_ok I (s1\<lparr>nmem := m\<rparr>) L R C"
      "data_bytes m = data_bytes (nmem s1)" "pb_payload (the_pbuf s1 p) = Some pl'" "pb_payload (pbufs m p) = Some (ptr_add pl' (int 20))"
      "plen m p = plen (nmem s1) p - 20"
    let ?s = "s1\<lparr>nmem := m\<rparr>"
    have "netif_deref (current_netif (ip_data ?s)) ?s = Some inp"
      using n(2) netif_deref_list [of ?s s] by (simp add: s1_def x_def)
    moreover have "neighbour ?s inp src i" using nb by (simp add: neighbour_def s1_def)
    moreover have "rx_packet ?s C p" using p(2) remove_header_fields(1) [OF m(1), of p] by (simp add: rx_packet_def s1_def)
    moreover have "queued (arp_table ?s) p = 0" "pb_payload (the_pbuf ?s p) = Some (ptr_add h 20)" "plen (nmem ?s) p = 4 + length body"
      "current_iphdr_src (ip_data ?s) = src" "current_iphdr_dest (ip_data ?s) = dst" "current_ip4_header (ip_data ?s) = Some h"
      using p(3) m(5-7) pl(1) len cur by (simp_all add: s1_def x_def)
    moreover have "read_bytes (data_bytes (nmem ?s)) h (24 + length body) = ip4_bytes tos len ident 0 ttl chk src dst @ icmp_bytes 8 code c body"
      using m(4) d by (simp add: s1_def)
    moreover have "\<not> ip4_addr_ismulticast dst" "\<not> ip4_addr_isbroadcast_u32 dst inp" using dst by (simp_all add: not_unicast_def)
    ultimately obtain m' where m': "icmp_input lo p inp ?s =
        do { (e, d) \<leftarrow> lo inp p m' (device ?s); free_pbuf p (?s\<lparr>etharp_cached_entry := i, nmem := m', device := d\<rparr>) }"
      "chain m' (Some p) [p]"
      "content m' [p] = eth_frame (ae_ethaddr (arp_table ?s ! i)) (netif_hwaddr inp) ETHTYPE_IP
        (ip4_bytes tos len ident 0 255 (internet_checksum (ip4_bytes tos len ident 0 255 0 dst src)) dst src @
         icmp_bytes 0 code (icmp_adjust_chksum c) body)"
      using icmp_input_frame [OF m(3) n(1) _ p(1) _ _ _ pl(2) _ len(2-4) _ _ _ _ _ _ _ chk, of src i tos len ident ttl "chk" dst inp lo]
      by blast
    have "get8 (iph_proto h) ?s = IP_PROTO_ICMP"
      using byte_of [OF d, of 9] m(4) by (simp add: get8_def iph_fields ip4_bytes_def IP_PROTO_ICMP_def s1_def)
    moreover have "unat (20 :: u16) = 20" by simp
    ultimately have "ip4_deliver lo p h 20 inp inp s = do { s \<leftarrow> icmp_input lo p inp ?s; Some (ERR_OK, s\<lparr>ip_data := no_packet\<rparr>) }"
      unfolding ip4_deliver_def Let_def using m(2) by (simp add: s1_def x_def no_packet_def)
    also have "\<dots> = sent lo inp p m' (s\<lparr>ip_data := x, etharp_cached_entry := i\<rparr>)"
      unfolding m'(1) by (cases "lo inp p m' (device s)") (auto simp: sent_def s1_def)
    finally show ?thesis using m'(2,3) by (intro exI [of _ m'] exI [of _ x]) (simp add: s1_def)
  qed
qed

lemma ip4_input_frame:
  assumes ok: "net_ok I s L R C" and n: "netif_ok inp" "netif_deref (Some (netif_num inp)) s = Some inp" and nb: "neighbour s inp src i"
    and p: "R p = 1" "rx_packet s C p" "queued (arp_table s) p = 0"
    and pl: "pb_payload (the_pbuf s p) = Some h" "snd p + int SIZEOF_STRUCT_PBUF + 14 \<le> snd h"
    and len: "24 + length body \<le> plen (nmem s) p" "4 \<le> length body" "length body \<le> 218" "576 \<le> unat (netif_mtu inp)"
    and d: "read_bytes (data_bytes (nmem s)) h (24 + length body) =
      ip4_packet tos ident ttl src (netif_ip4_addr inp) (icmp_bytes 8 code c body)"
    and up: "netif_is_up inp" and dst: "\<not> not_unicast (netif_ip4_addr inp) inp"
    and chk: "internet_checksum (icmp_bytes 8 code c body) = 0"
  shows "\<exists>m x. ip4_input lo p inp s = sent lo inp p m (s\<lparr>ip_data := x, etharp_cached_entry := i\<rparr>) \<and>
    chain m (Some p) [p] \<and>
    content m [p] = eth_frame (ae_ethaddr (arp_table s ! i)) (netif_hwaddr inp) ETHTYPE_IP
      (ip4_packet tos ident 255 (netif_ip4_addr inp) src (icmp_bytes 0 code (icmp_adjust_chksum c) body))"
proof -
  define len where "len = (of_nat (24 + length body) :: u16)"
  define dst' where "dst' = netif_ip4_addr inp"
  define k where "k = internet_checksum (ip4_bytes tos len ident 0 ttl 0 src dst')"
  have ul: "unat len = 24 + length body" unfolding len_def using len(3) by (subst unat_of_nat) simp
  have d': "read_bytes (data_bytes (nmem s)) h (24 + length body) = ip4_bytes tos len ident 0 ttl k src dst' @ icmp_bytes 8 code c body"
    using d by (simp add: ip4_packet_def k_def dst'_def len_def Let_def)
  have p0: "0 < R p" and Cp: "C p = [p]" using p by (simp_all add: rx_packet_def)
  have tot: "unat (pb_tot_len (the_pbuf s p)) = plen (nmem s) p" using packet_tot(1) [OF ok p0] Cp by simp
  have b: "get8 h s = 0x45" using byte_of [OF d', of 0] by (simp add: get8_def ip4_bytes_def)
  have hl: "(ucast (IPH_HL_BYTES h s) :: u16) = 20" "IPH_V h s = 4"
    using b by (simp_all add: IPH_HL_BYTES_def IPH_HL_def IPH_V_def iph_v_hl_def)
  have il: "lwip_htons (get16 (iph_len h) s) = len"
    using get16_at [OF d', of 2 "lwip_htons len"] by (simp add: iph_fields ip4_bytes_def lwip_htons_lo_hi)
  define B where "B = (\<lambda>s1. (if 20 > pb_len (the_pbuf s1 p) \<or> len > pb_tot_len (the_pbuf s1 p) \<or> (20 :: u16) < of_nat IP_HLEN
                 then drop_packet p s1
                 else if chksum_at h (unat (20 :: u16)) s1 \<noteq> 0 then drop_packet p s1
                 else
                   let s = s1\<lparr>ip_data := (ip_data s1)\<lparr>current_iphdr_dest := get32 (iph_dest h) s1\<rparr>\<rparr>;
                       s = s\<lparr>ip_data := (ip_data s)\<lparr>current_iphdr_src := get32 (iph_src h) s\<rparr>\<rparr>;
                       netif = ip4_input_netif inp s
                   in if ip4_addr_isbroadcast_u32 (current_iphdr_src (ip_data s)) inp \<or>
                         ip4_addr_ismulticast (current_iphdr_src (ip_data s)) then drop_packet p s
                      else
                        (case netif of
                           None \<Rightarrow> drop_packet p s
                         | Some netif \<Rightarrow>
                             if get16 (iph_offset h) s AND lwip_htons (IP_OFFMASK OR IP_MF) \<noteq> 0 then
                               do { (r, s) \<leftarrow> ip4_reass lo p s;
                                    case r of
                                      None \<Rightarrow> Some (ERR_OK, s)
                                    | Some p \<Rightarrow>
                                        do { iphdr \<leftarrow> pb_payload (the_pbuf s p);
                                             ip4_deliver lo p iphdr 20 netif inp s } }
                             else ip4_deliver lo p h 20 netif inp s)))"
  have run: "ip4_input lo p inp s =
      do { s1 \<leftarrow> (if len < pb_tot_len (the_pbuf s p) then on_mem (pbuf_realloc (Some p) len) s else Some s); B s1 }"
    unfolding ip4_input_def pl(1) Option.bind.bind_lunit hl il Let_def B_def by simp
  have body: "\<exists>m' x. B s1 =
        sent lo inp p m' (s\<lparr>ip_data := x, etharp_cached_entry := i\<rparr>) \<and>
      chain m' (Some p) [p] \<and>
      content m' [p] = eth_frame (ae_ethaddr (arp_table s ! i)) (netif_hwaddr inp) ETHTYPE_IP
        (ip4_bytes tos len ident 0 255 (internet_checksum (ip4_bytes tos len ident 0 255 0 dst' src)) dst' src @
         icmp_bytes 0 code (icmp_adjust_chksum c) body)"
    if s1: "s1 = s\<lparr>nmem := nmem s1\<rparr>" "net_ok I s1 L R C" "rx_packet s1 C p" "plen (nmem s1) p = 24 + length body"
      "unat (pb_tot_len (the_pbuf s1 p)) = 24 + length body" "pb_payload (the_pbuf s1 p) = Some h"
      "data_bytes (nmem s1) = data_bytes (nmem s)" for s1
  proof -
    note d1 = d' [folded s1(7)]
    have f: "get32 (iph_dest h) s1 = dst'" "get32 (iph_src h) s1 = src" "get16 (iph_offset h) s1 = 0"
      using get32_addr [OF d1, of 16 dst'] get32_addr [OF d1, of 12 src] get16_at [OF d1, of 6 0]
      by (simp_all add: iph_fields ip4_bytes_def addr_bytes_def)
    define s2 where "s2 = s1\<lparr>ip_data := (ip_data s1)\<lparr>current_iphdr_dest := dst', current_iphdr_src := src\<rparr>\<rparr>"
    have c0: "chksum_at h 20 s1 = 0"
    proof -
      have "read_bytes (data_bytes (nmem s1)) (ptr_add h (int 0)) 20 = take 20 (drop 0 (read_bytes (data_bytes (nmem s1)) h (24 + length body)))"
        by (rule read_bytes_sub) simp
      then have "get_bytes h 20 s1 = ip4_bytes tos len ident 0 ttl k src dst'" using d1 by (simp add: get_bytes_def)
      then show ?thesis unfolding chksum_at_def using ip4_packet_checksum [of tos len ident 0 ttl src dst']
        by (simp add: inet_chksum_internet k_def)
    qed
    have same: "arp_table s1 = arp_table s" "netif_list s1 = netif_list s" "device s1 = device s" by (subst s1(1), simp)+
    have "neighbour s2 inp src i" using nb by (simp add: neighbour_def s2_def same)
    moreover have "netif_deref (Some (netif_num inp)) s2 = Some inp" using n(2) netif_deref_list [of s2 s] by (simp add: s2_def same)
    moreover have "net_ok I s2 L R C" "rx_packet s2 C p" "queued (arp_table s2) p = 0" "pb_payload (the_pbuf s2 p) = Some h"
      "plen (nmem s2) p = 24 + length body" "current_iphdr_src (ip_data s2) = src" "current_iphdr_dest (ip_data s2) = dst'"
      "read_bytes (data_bytes (nmem s2)) h (24 + length body) = ip4_bytes tos len ident 0 ttl k src dst' @ icmp_bytes 8 code c body"
      using s1(2-6) d1 p(3) by (simp_all add: s2_def rx_packet_def same)
    ultimately obtain m' x where "ip4_deliver lo p h 20 inp inp s2 = sent lo inp p m' (s2\<lparr>ip_data := x, etharp_cached_entry := i\<rparr>)"
      "chain m' (Some p) [p]"
      "content m' [p] = eth_frame (ae_ethaddr (arp_table s2 ! i)) (netif_hwaddr inp) ETHTYPE_IP
        (ip4_bytes tos len ident 0 255 (internet_checksum (ip4_bytes tos len ident 0 255 0 dst' src)) dst' src @
         icmp_bytes 0 code (icmp_adjust_chksum c) body)"
      using ip4_deliver_frame [of I s2 L R C inp src i p h body tos len ident ttl k dst' code c lo] n(1) p(1) pl(2) len dst chk
      unfolding dst'_def by blast
    moreover have "sent lo inp p m' (s2\<lparr>ip_data := x, etharp_cached_entry := i\<rparr>) = sent lo inp p m' (s\<lparr>ip_data := x, etharp_cached_entry := i\<rparr>)"
      unfolding sent_def s2_def by (subst (1 2) s1(1)) simp
    moreover have nif: "ip4_input_netif inp s2 = Some inp"
      using up dst by (simp add: ip4_input_netif_def ip4_input_accept_def s2_def dst'_def not_unicast_def)
    moreover have "\<not> 20 > pb_len (the_pbuf s1 p)" "\<not> len > pb_tot_len (the_pbuf s1 p)"
      using s1(4,5) ul by (simp_all add: word_less_nat_alt)
    moreover have "\<not> (ip4_addr_isbroadcast_u32 src inp \<or> ip4_addr_ismulticast src)" using nb by (simp add: neighbour_def not_unicast_def)
    moreover have "s1\<lparr>ip_data := (ip_data s1)\<lparr>current_iphdr_dest := dst'\<rparr>\<rparr>\<lparr>ip_data := (ip_data s1)\<lparr>current_iphdr_dest := dst', current_iphdr_src := src\<rparr>\<rparr> = s2"
      by (simp add: s2_def)
    ultimately show ?thesis using c0 f same unfolding B_def by (intro exI [of _ m'] exI [of _ x]) (simp add: IP_HLEN_def s2_def)
  qed
  have res: "ip4_packet tos ident 255 dst' src (icmp_bytes 0 code (icmp_adjust_chksum c) body) =
      ip4_bytes tos len ident 0 255 (internet_checksum (ip4_bytes tos len ident 0 255 0 dst' src)) dst' src @
        icmp_bytes 0 code (icmp_adjust_chksum c) body"
    by (simp add: ip4_packet_def len_def Let_def)
  show ?thesis
  proof (cases "len < pb_tot_len (the_pbuf s p)")
    case False
    have "plen (nmem s) p = 24 + length body" using False tot ul len by (simp add: word_less_nat_alt)
    then show ?thesis using body [of s] ok p(2) tot pl(1) False run unfolding res [unfolded dst'_def] dst'_def by simp
  next
    case True
    show ?thesis
    proof (rule realloc_rx [OF ok p0 p(2,3) True])
      fix m assume m: "on_mem (pbuf_realloc (Some p) len) s = Some (s\<lparr>nmem := m\<rparr>)" "net_ok I (s\<lparr>nmem := m\<rparr>) L R C"
          "plen m p = unat len" "pb_payload (pbufs m p) = pb_payload (the_pbuf s p)" "rx_packet (s\<lparr>nmem := m\<rparr>) C p"
          "pb_tot_len (pbufs m p) = len" "data_bytes m = data_bytes (nmem s)"
      show ?thesis using body [of "s\<lparr>nmem := m\<rparr>"] m pl(1) True ul run unfolding res [unfolded dst'_def] dst'_def by simp
    qed
  qed
qed

text \<open>A request for this interface in the packet just received, with its Ethernet header and possibly padding behind it.\<close>

definition echo_request_in ::
    "'d net_st \<Rightarrow> ptr \<Rightarrow> u8 \<Rightarrow> u16 \<Rightarrow> u8 \<Rightarrow> u32 \<Rightarrow> u32 \<Rightarrow> u8 \<Rightarrow> u16 \<Rightarrow> u8 list \<Rightarrow> bool" where
  "echo_request_in s p tos ident ttl src dst code c body \<longleftrightarrow>
     (\<exists>hwd hws pad. length hwd = 6 \<and> length hws = 6 \<and> content (nmem s) [p] =
        eth_frame hwd hws ETHTYPE_IP (ip4_packet tos ident ttl src dst (icmp_bytes 8 code c body)) @ pad)"

lemma echo_answered:
  assumes ok: "net_ok I s L R C" and n: "netif_ok inp" "netif_deref (Some (netif_num inp)) s = Some inp" and nb: "neighbour s inp src i"
    and p: "R p = 1" "rx_packet s C p" "queued (arp_table s) p = 0"
    and frame: "echo_request_in s p tos ident ttl src (netif_ip4_addr inp) code c body"
    and len: "4 \<le> length body" "plen (nmem s) p \<le> 256" "576 \<le> unat (netif_mtu inp)"
    and up: "netif_is_up inp" "netif_flags inp AND NETIF_FLAG_ETHARP \<noteq> 0" and dst: "\<not> not_unicast (netif_ip4_addr inp) inp"
    and chk: "internet_checksum (icmp_bytes 8 code c body) = 0"
  shows "\<exists>m x. ethernet_input lo p inp s = sent lo inp p m (s\<lparr>ip_data := x, etharp_cached_entry := i\<rparr>) \<and>
    chain m (Some p) [p] \<and>
    content m [p] = eth_frame (ae_ethaddr (arp_table s ! i)) (netif_hwaddr inp) ETHTYPE_IP
      (ip4_packet tos ident 255 (netif_ip4_addr inp) src (icmp_bytes 0 code (icmp_adjust_chksum c) body))"
proof -
  have p0: "0 < R p" and Cp: "C p = [p]" using p by (simp_all add: rx_packet_def)
  obtain h where h: "pb_payload (the_pbuf s p) = Some h" using net_ok_payload [of I s L R C p, OF ok p0] by blast
  define P where "P = ip4_packet tos ident ttl src (netif_ip4_addr inp) (icmp_bytes 8 code c body)"
  obtain hwd hws pad where "length hwd = 6" "length hws = 6" "content (nmem s) [p] = eth_frame hwd hws ETHTYPE_IP P @ pad"
    using frame unfolding echo_request_in_def P_def by blast
  then have fr: "length hwd = 6" "length hws = 6" "read_bytes (data_bytes (nmem s)) h (plen (nmem s) p) = (hwd @ hws @ [8, 0] @ P) @ pad"
    using h by (simp_all add: chunk_def eth_frame_def, simp add: ETHTYPE_IP_def, code_simp)
  have PL: "length P = 24 + length body" by (simp add: P_def)
  have pl: "38 + length body + length pad = plen (nmem s) p" using arg_cong [OF fr(3), of length] fr(1,2) PL by simp
  have bl: "length body \<le> 218" using pl len(2) by simp
  have long: "\<not> unat (pb_len (the_pbuf s p)) \<le> SIZEOF_ETH_HDR" using pl by (simp add: SIZEOF_ETH_HDR_def)
  have home: "snd p + int SIZEOF_STRUCT_PBUF \<le> snd h"
  proof -
    have "home (the_pbuf s p) p" using packet_cases [of "nmem s" L "refs s R" C p, OF net_okD(4) [OF ok]] p0 by (metis add_gr_0)
    then show ?thesis using p(2) h by (simp add: home_def rx_packet_def PBUF_TYPE_FLAG_STRUCT_DATA_CONTIGUOUS_def)
  qed
  have "lo8 (lwip_htons ETHTYPE_IP) = 8" "hi8 (lwip_htons ETHTYPE_IP) = 0" by (unfold lwip_htons_lo_hi ETHTYPE_IP_def, code_simp+)
  then have ty: "get16 (eth_type_at h) s = lwip_htons ETHTYPE_IP"
    using get16_at [OF fr(3), of 12 "lwip_htons ETHTYPE_IP"] fr(1,2) pl
    by (simp add: eth_type_at_def nth_append)
  show ?thesis
  proof (cases rule: ethernet_input_steps [OF ok p0 p(2,3) h long, of lo inp])
    case e: (1 s2)
    have same: "arp_table s2 = arp_table s" "netif_list s2 = netif_list s" "device s2 = device s" by (subst e(1), simp)+
    have q2: "queued (arp_table s2) p = 0" "14 \<le> plen (nmem s2) p" using p(3) pl e(3) by (simp_all add: same)
    show ?thesis
    proof (rule eth_header_off [OF e(2) p0 e(4) q2])
      fix m assume m: "in_mem (pbuf_remove_header (Some p) SIZEOF_ETH_HDR) s2 = Some (False, s2\<lparr>nmem := m\<rparr>)" "net_ok I (s2\<lparr>nmem := m\<rparr>) L R C"
        "plen m p = plen (nmem s2) p - 14" "rx_packet (s2\<lparr>nmem := m\<rparr>) C p" "data_bytes m = data_bytes (nmem s2)"
        "pb_payload (pbufs m p) = Some (ptr_add (the (pb_payload (the_pbuf s2 p))) 14)"
      let ?s = "s2\<lparr>nmem := m\<rparr>"
      have nd: "netif_deref (Some (netif_num inp)) ?s = Some inp" using n(2) netif_deref_list [of ?s s] by (simp add: same)
      have nb': "neighbour ?s inp src i" using nb by (simp add: neighbour_def same)
      have q: "queued (arp_table ?s) p = 0" "pb_payload (the_pbuf ?s p) = Some (ptr_add h 14)" "24 + length body \<le> plen (nmem ?s) p"
        "snd p + int SIZEOF_STRUCT_PBUF + 14 \<le> snd (ptr_add h 14)"
        using q2 m(3,6) e(3,5) pl home by simp_all
      have d: "read_bytes (data_bytes (nmem ?s)) (ptr_add h 14) (24 + length body) = P"
      proof -
        have "read_bytes (data_bytes (nmem s)) (ptr_add h (int 14)) (24 + length body) =
            take (24 + length body) (drop 14 (read_bytes (data_bytes (nmem s)) h (plen (nmem s) p)))"
          by (rule read_bytes_sub) (use pl in simp)
        then show ?thesis using fr PL m(5) e(6) by simp
      qed
      obtain m' x where mx: "ip4_input lo p inp ?s = sent lo inp p m' (?s\<lparr>ip_data := x, etharp_cached_entry := i\<rparr>)" "chain m' (Some p) [p]"
        "content m' [p] = eth_frame (ae_ethaddr (arp_table ?s ! i)) (netif_hwaddr inp) ETHTYPE_IP
          (ip4_packet tos ident 255 (netif_ip4_addr inp) src (icmp_bytes 0 code (icmp_adjust_chksum c) body))"
        using ip4_input_frame [OF m(2) n(1) nd nb' p(1) m(4) q(1,2,4,3) len(1) bl len(3) d [unfolded P_def] up(1) dst chk, of lo] by blast
      have "sent lo inp p m' (?s\<lparr>ip_data := x, etharp_cached_entry := i\<rparr>) = sent lo inp p m' (s\<lparr>ip_data := x, etharp_cached_entry := i\<rparr>)"
        unfolding sent_def by (subst (1 2) e(1)) simp
      moreover have "ethernet_input lo p inp s = do { (_, s) \<leftarrow> ip4_input lo p inp ?s; Some (ERR_OK, s) }"
        unfolding e(7) using ty up(2) m(1) by simp
      moreover have "do { (_, s) \<leftarrow> sent lo inp p m' s3; Some (ERR_OK, s) } = sent lo inp p m' s3" for s3
        unfolding sent_def by (cases "lo inp p m' (device s3)") (auto split: Option.bind_split simp: bind_Some_iff)
      ultimately show ?thesis using mx by (intro exI [of _ m'] exI [of _ x]) (simp add: same)
    qed
  qed
qed

end
