(* ===== verification/Main_Echo.thy ===== *)
theory Main_Echo
  imports Main_Start Lwip_Echo
begin

unbundle bit_operations_syntax

text \<open>
  From the chip to the stack and back: a frame that the driver has read is delivered unchanged into the one buffer of the
  pool, or lost without any other effect; an echo request is
  answered with the frame that RFC 792 asks for in the transmit buffer of the chip.
\<close>

declare split_paired_All [simp del] split_paired_Ex [simp del]

section \<open>Delivery\<close>

text \<open>The buffer of the pool, and what allocation makes of it.\<close>

definition pool_buf :: ptr where "pool_buf = (Pool MEMP_PBUF_POOL, 0)"

definition pool_data :: ptr where "pool_data = (Pool MEMP_PBUF_POOL, 16)"

definition take_pool :: "net_mem \<Rightarrow> net_mem" where
  "take_pool st = st\<lparr>pools := (pools st)\<lparr>memp_tab := (memp_tab (pools st))(MEMP_PBUF_POOL := None)\<rparr>\<rparr>"

lemma pool_elems: "elems MEMP_PBUF_POOL = {pool_buf}"
  by (auto simp: elems_def pool_buf_def)

text \<open>One buffer: without it nothing happens, with it a short frame gets it, and a long one gives it back.\<close>

lemma pool_alloc_run:
  assumes m: "mem_ok st L"
  shows "if pool_buf \<in> L then pbuf_alloc PBUF_RAW len PBUF_POOL st = Some (None, st)
    else if unat len \<le> 256
    then \<exists>b. pbuf_alloc PBUF_RAW len PBUF_POOL st = Some (Some pool_buf, take_pool (upd_pbuf pool_buf (\<lambda>_. b) st)) \<and>
      pb_payload b = Some pool_data \<and> pb_next b = None \<and> pb_len b = len \<and> pb_tot_len b = len
    else \<exists>b. pbuf_alloc PBUF_RAW len PBUF_POOL st = Some (None, upd_pbuf pool_buf (\<lambda>_. b) st)"
proof -
  have "memp_ok (pools st) L" using m by (simp add: mem_ok_def)
  then obtain fs where fs: "links (memp_next (pools st)) (memp_tab (pools st) MEMP_PBUF_POOL) fs" "distinct fs" "set fs = {pool_buf} - L"
    unfolding memp_ok_def pool_ok_def pool_elems [symmetric] by blast
  have sz: "LWIP_MEM_ALIGN_SIZE 256 = 256" "LWIP_MEM_ALIGN_SIZE 0 = 0" by code_simp+
  show ?thesis
  proof (cases "pool_buf \<in> L")
    case True
    then have "memp_tab (pools st) MEMP_PBUF_POOL = None" using fs by auto
    then show ?thesis using True
      by (simp add: pbuf_alloc_def pool_loop.simps [of None] st_memp_malloc_def memp_malloc_def do_memp_malloc_pool_def)
  next
    case False
    then have one: "set fs = {pool_buf}" unfolding fs(3) by (simp add: insert_Diff_if)
    have "fs = [pool_buf]"
    proof (cases fs)
      case (Cons a gs)
      then have a: "a = pool_buf" "set gs \<subseteq> {pool_buf}" "pool_buf \<notin> set gs" using one fs(2) by auto
      then have "set gs = {}" using subset_singletonD [OF a(2)] by auto
      then show ?thesis using Cons a(1) by simp
    qed (use one in simp)
    then have tab: "memp_tab (pools st) MEMP_PBUF_POOL = Some pool_buf" "memp_next (pools st) pool_buf = None" using fs(1) by auto
    let ?b = "\<lparr>pb_next = None, pb_payload = Some pool_data, pb_tot_len = len, pb_len = min len 256,
       pb_type_internal = ucast (type_num PBUF_POOL), pb_flags = 0, pb_ref = 1, pb_if_idx = 0\<rparr>"
    have pay: "LWIP_MEM_ALIGN (ptr_add pool_buf (int SIZEOF_STRUCT_PBUF)) = pool_data" by code_simp
    have m1: "st_memp_malloc MEMP_PBUF_POOL st = Some (Some pool_buf, take_pool st)"
      using tab by (simp add: st_memp_malloc_def memp_malloc_def do_memp_malloc_pool_def Let_def pool_buf_def MEMP_SIZE_def take_pool_def)
    let ?st = "take_pool (upd_pbuf pool_buf (\<lambda>_. ?b) st)"
    have init: "pbuf_init_alloced_pbuf pool_buf (Some pool_data) len (min len 256) PBUF_POOL 0 (take_pool st) = ?st"
      by (simp add: pbuf_init_alloced_pbuf_def upd_pbuf_def take_pool_def)
    have al: "snd pool_data mod 4 = 0" "snd pool_buf mod 4 = 0" by (simp_all add: pool_data_def pool_buf_def)
    have run: "pbuf_alloc PBUF_RAW len PBUF_POOL st =
      (if len - min len 256 > 0 then pool_loop (Some pool_buf) (Some pool_buf) (len - min len 256) 0 ?st else Some (Some pool_buf, ?st))"
      using m1 init al by (simp add: pbuf_alloc_def pool_loop.simps [of None] Let_def PBUF_POOL_BUFSIZE_ALIGNED_def sz pay)
    show ?thesis
    proof (cases "unat len \<le> 256")
      case True
      then have "min len 256 = len" by (simp add: min_def word_le_nat_alt)
      then show ?thesis using False True run by auto
    next
      case long: False
      then have l: "min len 256 = 256" "len - 256 > 0" by (auto simp: min_def word_le_nat_alt word_less_nat_alt unat_sub)
      have none: "st_memp_malloc MEMP_PBUF_POOL ?st = Some (None, ?st)"
        by (simp add: st_memp_malloc_def memp_malloc_def do_memp_malloc_pool_def take_pool_def)
      have ty: "pbuf_get_allocsrc (?b\<lparr>pb_ref := 0\<rparr>) = PBUF_TYPE_ALLOC_SRC_MASK_STD_MEMP_PBUF_POOL" by simp code_simp
      have "(memp_next (pools st))(pool_buf := None) = memp_next (pools st)" "(memp_tab (pools st))(MEMP_PBUF_POOL := Some pool_buf) = memp_tab (pools st)"
        using tab by (simp_all add: fun_upd_idem)
      then have eq: "st\<lparr>pbufs := f, pools := pools st\<lparr>memp_next := (memp_next (pools st))(pool_buf := None),
          memp_tab := (memp_tab (pools st))(MEMP_PBUF_POOL := Some pool_buf)\<rparr>\<rparr> = st\<lparr>pbufs := f\<rparr>" for f by simp
      have "pbuf_free (Some pool_buf) ?st = Some (1, upd_pbuf pool_buf (\<lambda>_. ?b\<lparr>pb_ref := 0\<rparr>) st)"
        using ty tab eq
        by (simp add: pbuf_free_def pbuf_free_loop.simps [of "Some pool_buf"] pbuf_free_loop.simps [of None] Let_def upd_pbuf_def take_pool_def
            free_by_src_def st_memp_free_def memp_free_def do_memp_free_pool_def MEMP_SIZE_def al)
      then show ?thesis using False long run l none by (auto simp: pool_loop.simps [of "Some pool_buf"])
    qed
  qed
qed

text \<open>The buffer of the pool is handed out whenever nobody has it.\<close>

lemma pool_alloc_succeeds:
  assumes m: "mem_ok st L" and free: "elems MEMP_PBUF_POOL \<inter> L = {}" and len: "unat len \<le> 256"
  shows "\<exists>p m. pbuf_alloc PBUF_RAW len PBUF_POOL st = Some (Some p, m)"
  using pool_alloc_run [OF m, of len] free len by (auto simp: pool_elems)

lemma pool_alloc_data:
  assumes "net_ok I s L R C" "in_mem (pbuf_alloc layer len PBUF_POOL) s = Some (r, s')"
  shows "data_bytes (nmem s') = data_bytes (nmem s)"
  using held_alloc_pool [OF net_okD(4) [OF assms(1)], of layer len] assms(2) by (auto simp: in_mem_def)

text \<open>Who can have the buffer: a fragment that waits, a packet in the ARP table, or the caller.\<close>

definition pool_taken :: "'d net_st \<Rightarrow> (ptr \<Rightarrow> nat) \<Rightarrow> (ptr \<Rightarrow> ptr list) \<Rightarrow> bool" where
  "pool_taken s R C \<longleftrightarrow> \<not> reass_idle s \<or> elems MEMP_PBUF_POOL \<inter> all_blocks (refs s R) C \<noteq> {}"

lemma frame_received:
  assumes ok: "ip_ok (board_ok E rv) s R C" and buf: "fst buf \<noteq> Pool MEMP_PBUF_POOL"
    and rx: "enc28j60_receive_packet (port_io E) sz (device s) = Some ((len, bs), dev)"
  shows "\<exists>r s'. low_level_input (port_io E) buf sz s = Some (r, s') \<and> device s' = dev \<and>
    (case r of
       None \<Rightarrow> ip_ok (board_ok E rv) s' R C \<and> (len = 0 \<or> 256 < unat len \<or> pool_taken s R C)
     | Some p \<Rightarrow> received (board_ok E rv) s' R (C(p := [p])) p \<and> content (nmem s') [p] = bs)"
proof -
  let ?I = "board_ok E rv"
  obtain d w where dw: "device s = (d, w)" "drv_ok rv d w" using ip_ok_device [OF ok] by (cases "device s") (auto simp: board_ok_def)
  obtain d' w' where dev: "dev = (d', w')" "drv_ok rv d' w'" "length bs = unat len"
    using receive_packet_ok [OF dw(2), of E sz] rx dw(1) by auto
  have "?I dev" using dev(1,2) ip_ok_device [OF ok] dw(1) by (simp add: board_ok_def)
  define s1 where "s1 = put_bytes buf bs (s\<lparr>device := dev\<rparr>)"
  have s1: "ip_ok ?I s1 R C" "device s1 = dev" using buffered_ip [OF ok \<open>?I dev\<close>] by (simp_all add: s1_def)
  have run: "low_level_input (port_io E) buf sz s =
     (if len = 0 then Some (None, s1)
      else do { (p, s) \<leftarrow> in_mem (pbuf_alloc PBUF_RAW len PBUF_POOL) s1;
                case p of None \<Rightarrow> Some (None, s)
                | Some p \<Rightarrow> do { (_, s) \<leftarrow> in_mem (pbuf_take (Some p) (Some buf) len) s; Some (Some p, s) } })"
    by (simp add: low_level_input_def rx s1_def)
  show ?thesis
  proof (cases "len = 0")
    case True
    then show ?thesis using run s1 by simp
  next
    case False
    obtain r s2 where s2: "in_mem (pbuf_alloc PBUF_RAW len PBUF_POOL) s1 = Some (r, s2)" "device s2 = device s1"
      "case r of None \<Rightarrow> ip_ok ?I s2 R C
       | Some p \<Rightarrow> R p = 0 \<and> queued (arp_table s2) p = 0 \<and> reass_idle s2 \<and> nets_ok s2 \<and> net_ok ?I s2 {} (R(p := 1)) (C(p := [p])) \<and>
           rx_packet s2 (C(p := [p])) p \<and> plen (nmem s2) p = unat len \<and> unat len \<le> 256"
      using rx_alloc [OF s1(1), of len] by (auto simp: returns_def)
    show ?thesis
    proof (cases r)
      case None
      have "256 < unat len \<or> pool_taken s R C"
      proof (rule ccontr)
        assume a: "\<not> (256 < unat len \<or> pool_taken s R C)"
        then have free: "reass_idle s1" "elems MEMP_PBUF_POOL \<inter> all_blocks (refs s1 R) C = {}"
          by (simp_all add: pool_taken_def s1_def reass_idle_def)
        then have "net_ok ?I s1 {} R C" using s1(1) ip_ok_idle by blast
        then have "mem_ok (nmem s1) (all_blocks (refs s1 R) C)" using held_mem [OF net_okD(4)] by fastforce
        from pool_alloc_succeeds [OF this free(2), of len] show False using a s2(1) None by (auto simp: in_mem_def)
      qed
      then show ?thesis using run False s2 None s1(2) by simp
    next
      case (Some p)
      have n: "R p = 0" "queued (arp_table s2) p = 0" "reass_idle s2" "nets_ok s2" "net_ok ?I s2 {} (R(p := 1)) (C(p := [p]))"
        "rx_packet s2 (C(p := [p])) p" "plen (nmem s2) p = unat len" "unat len \<le> 256"
        using s2(3) unfolding Some option.case by blast+
      obtain m where m: "pbuf_take (Some p) (Some buf) len (nmem s2) = Some (ERR_OK, m)" "m = (nmem s2)\<lparr>data_bytes := data_bytes m\<rparr>"
        "chunk m p = read_bytes (data_bytes (nmem s2)) buf (unat len)"
        by (rule take_frame [OF n(5,6,7) buf])
      define s3 where "s3 = s2\<lparr>nmem := (nmem s2)\<lparr>data_bytes := data_bytes m\<rparr>\<rparr>"
      have s3: "s3 = s2\<lparr>nmem := m\<rparr>" unfolding s3_def using m(2) by (metis (no_types))
      have "reass_idle s1" using s2(1) n(3) by (auto simp: in_mem_def reass_idle_def bind_Some_iff)
      then have "net_ok ?I s1 {} R C" using s1(1) ip_ok_idle by blast
      then have d2: "data_bytes (nmem s2) = data_bytes (nmem s1)" using pool_alloc_data s2(1) by blast
      have "read_bytes (data_bytes (nmem s1)) buf (unat len) = bs"
        using read_write_part [of 0 bs "unat len" buf "data_bytes (nmem s)"] dev(3) by (simp add: s1_def)
      then have "content (nmem s3) [p] = bs" using m(3) d2 by (simp add: s3)
      moreover have "in_mem (pbuf_take (Some p) (Some buf) len) s2 = Some (ERR_OK, s3)" using m(1) by (simp add: in_mem_def s3)
      moreover have "received ?I s3 R (C(p := [p])) p"
        using n by (simp add: received_def s3_def data_net rx_packet_def nets_ok_def)
      moreover have "device s3 = dev" using s2(2) s1(2) by (simp add: s3_def)
      ultimately show ?thesis using run False s2(1) Some by simp
    qed
  qed
qed

text \<open>The copy into the packet.\<close>

lemma take_run:
  assumes b: "pb_payload (pbufs st p) = Some d" "pb_next (pbufs st p) = None" "pb_len (pbufs st p) = len" "pb_tot_len (pbufs st p) = len"
    and len: "len \<noteq> 0"
  shows "pbuf_take (Some p) (Some buf) len st =
    Some (ERR_OK, st\<lparr>data_bytes := write_bytes d (read_bytes (data_bytes st) buf (unat len)) (data_bytes st)\<rparr>)"
proof -
  have n: "unat (ucast len :: u32) = unat len" by (rule unat_ucast16)
  moreover have "unat len \<noteq> 0" using len by (simp add: unat_eq_zero)
  ultimately have nz: "(ucast len :: u32) \<noteq> 0" by (metis unsigned_0)
  show ?thesis
    using b n nz by (simp add: pbuf_take_def take_loop.simps [of "Some p"] take_loop.simps [of _ _ 0] Let_def MEMCPY_def)
qed

text \<open>The state behind the chip's buffer: the bytes in the receive buffer, and what happens to them.\<close>

lemma input_run:
  assumes rx: "enc28j60_receive_packet io sz (device s) = Some ((len, bs), dev)" "length bs = unat len"
    and s1_def: "s1 = put_bytes buf bs (s\<lparr>device := dev\<rparr>)" and m: "mem_ok (nmem s1) L"
  shows "\<exists>b. low_level_input io buf sz s =
     (if len = 0 \<or> pool_buf \<in> L then Some (None, s1)
      else if 256 < unat len then Some (None, s1\<lparr>nmem := upd_pbuf pool_buf (\<lambda>_. b) (nmem s1)\<rparr>)
      else Some (Some pool_buf, put_bytes pool_data bs (s1\<lparr>nmem := take_pool (upd_pbuf pool_buf (\<lambda>_. b) (nmem s1))\<rparr>)))"
proof -
  have run: "low_level_input io buf sz s =
     (if len = 0 then Some (None, s1)
      else do { (p, s) \<leftarrow> in_mem (pbuf_alloc PBUF_RAW len PBUF_POOL) s1;
                case p of None \<Rightarrow> Some (None, s)
                | Some p \<Rightarrow> do { (_, s) \<leftarrow> in_mem (pbuf_take (Some p) (Some buf) len) s; Some (Some p, s) } })"
    by (simp add: low_level_input_def rx(1) s1_def)
  note alloc = pool_alloc_run [OF m, of len]
  consider "len = 0 \<or> pool_buf \<in> L" | "len \<noteq> 0" "pool_buf \<notin> L" "256 < unat len" | "len \<noteq> 0" "pool_buf \<notin> L" "unat len \<le> 256"
    by linarith
  then show ?thesis
  proof cases
    case 1
    then show ?thesis using alloc run by (auto simp: in_mem_def)
  next
    case 2
    then show ?thesis using alloc run by (auto simp: in_mem_def)
  next
    case 3
    then obtain b where b: "pbuf_alloc PBUF_RAW len PBUF_POOL (nmem s1) = Some (Some pool_buf, take_pool (upd_pbuf pool_buf (\<lambda>_. b) (nmem s1)))"
      "pb_payload b = Some pool_data" "pb_next b = None" "pb_len b = len" "pb_tot_len b = len" using alloc by auto
    let ?m = "take_pool (upd_pbuf pool_buf (\<lambda>_. b) (nmem s1))"
    have "read_bytes (data_bytes ?m) buf (unat len) = bs"
      using read_write_part [of 0 bs "unat len" buf "data_bytes (nmem s)"] rx(2) by (simp add: s1_def take_pool_def upd_pbuf_def put_bytes_def)
    moreover have "pbufs ?m pool_buf = b" by (simp add: take_pool_def upd_pbuf_def)
    ultimately have "pbuf_take (Some pool_buf) (Some buf) len ?m = Some (ERR_OK, ?m\<lparr>data_bytes := write_bytes pool_data bs (data_bytes ?m)\<rparr>)"
      using take_run [of ?m pool_buf pool_data len buf] b(2-5) 3(1) by simp
    then show ?thesis using run b(1) 3 by (intro exI [of _ b]) (simp add: in_mem_def put_bytes_def)
  qed
qed

lemma ip_ok_mem:
  assumes "ip_ok I s R C"
  obtains L where "mem_ok (nmem s) L" "pool_buf \<in> L \<longleftrightarrow> pool_taken s R C"
proof (cases "reass_idle s")
  case True
  then have "net_ok I s {} R C" using assms ip_ok_idle by blast
  from held_mem [OF net_okD(4) [OF this]] that True show thesis by (auto simp: pool_taken_def pool_elems)
next
  case False
  then obtain a q where w: "rx_packet s C q" "net_ok I s {a} (R(q := 1)) C" using assms unfolding ip_ok_def by blast
  have "pool_buf \<in> all_blocks (refs s (R(q := 1))) C"
    using w(1) pool_elems by (auto simp: all_blocks_def rx_packet_def intro!: exI [of _ q])
  with held_mem [OF net_okD(4) [OF w(2)]] that False show thesis by (auto simp: pool_taken_def)
qed

lemma frame_delivered:
  assumes ok: "ip_ok (board_ok E rv) s R C" and buf: "fst buf \<noteq> Pool MEMP_PBUF_POOL"
    and rx: "enc28j60_receive_packet (port_io E) sz (device s) = Some ((len, bs), dev)"
    and s1_def: "s1 = put_bytes buf bs (s\<lparr>device := dev\<rparr>)"
  shows "\<exists>r s' b. low_level_input (port_io E) buf sz s = Some (r, s') \<and>
    (case r of
       None \<Rightarrow> ip_ok (board_ok E rv) s' R C \<and> (len = 0 \<or> 256 < unat len \<or> pool_taken s R C) \<and>
         s' = (if len = 0 \<or> pool_taken s R C then s1 else s1\<lparr>nmem := upd_pbuf pool_buf (\<lambda>_. b) (nmem s1)\<rparr>)
     | Some p \<Rightarrow> p = pool_buf \<and> \<not> pool_taken s R C \<and> received (board_ok E rv) s' R (C(p := [p])) p \<and> content (nmem s') [p] = bs \<and>
         s' = put_bytes pool_data bs (s1\<lparr>nmem := take_pool (upd_pbuf pool_buf (\<lambda>_. b) (nmem s1))\<rparr>))"
proof -
  obtain r s' where rs: "low_level_input (port_io E) buf sz s = Some (r, s')"
    "case r of
       None \<Rightarrow> ip_ok (board_ok E rv) s' R C \<and> (len = 0 \<or> 256 < unat len \<or> pool_taken s R C)
     | Some p \<Rightarrow> received (board_ok E rv) s' R (C(p := [p])) p \<and> content (nmem s') [p] = bs"
    using frame_received [OF ok buf rx] by blast
  obtain d w where dw: "device s = (d, w)" "drv_ok rv d w" using ip_ok_device [OF ok] by (cases "device s") (auto simp: board_ok_def)
  have dev: "length bs = unat len" "board_ok E rv dev"
    using receive_packet_ok [OF dw(2), of E sz] rx dw(1) ip_ok_device [OF ok] by (auto simp: board_ok_def)
  obtain L where L: "mem_ok (nmem s1) L" "pool_buf \<in> L \<longleftrightarrow> pool_taken s1 R C"
    using ip_ok_mem [OF buffered_ip [OF ok dev(2), of buf bs]] unfolding s1_def by blast
  have t: "pool_taken s1 R C = pool_taken s R C" by (simp add: pool_taken_def s1_def reass_idle_def)
  from input_run [OF rx dev(1) s1_def L(1)] obtain b where "low_level_input (port_io E) buf sz s =
     (if len = 0 \<or> pool_taken s R C then Some (None, s1)
      else if 256 < unat len then Some (None, s1\<lparr>nmem := upd_pbuf pool_buf (\<lambda>_. b) (nmem s1)\<rparr>)
      else Some (Some pool_buf, put_bytes pool_data bs (s1\<lparr>nmem := take_pool (upd_pbuf pool_buf (\<lambda>_. b) (nmem s1))\<rparr>)))"
    unfolding L(2) t by blast
  then show ?thesis using rs by (intro exI [of _ r] exI [of _ s'] exI [of _ b]) (auto split: if_splits)
qed

section \<open>Echo\<close>

lemma free_pbuf_device: "free_pbuf p s = Some s' \<Longrightarrow> device s' = device s"
  by (auto simp: free_pbuf_def in_mem_def bind_Some_iff)

text \<open>C3. An echo request for the interface's address, from a neighbour whose address is resolved, is answered: when the stack
  returns, a transmission has been requested and the transmit buffer of the chip holds the control byte and the frame to the
  neighbour's hardware address with the IP addresses exchanged, TTL 255, type 0 and the identifier, number and data of the
  request; the checksums of the header and of the message are right.\<close>

theorem echo_on_the_wire:
  assumes r: "received (board_ok E rv) s R C p" and n: "netif_deref (Some k) s = Some n" "netif_is_up n" "netif_flags n AND NETIF_FLAG_ETHARP \<noteq> 0"
      "\<not> not_unicast (netif_ip4_addr n) n"
    and nb: "neighbour s n src i"
    and frame: "echo_request_in s p tos ident ttl src (netif_ip4_addr n) code c body" "4 \<le> length body"
      "internet_checksum (icmp_bytes 8 code c body) = 0"
    and auto: "autoinc (chip rv (snd (device s)))"
  shows "\<exists>s' c'. ethernet_input (low_level_output (port_io E)) p n s = Some (ERR_OK, s') \<and>
    bit (hv_econ1 (chip rv (snd (device s')))) TXRTS \<and> internet_checksum (icmp_bytes 0 code c' body) = 0 \<and>
    hv_mem (chip rv (snd (device s'))) = mem_write TX_BUFFER_START_ADDR
      (0 # eth_frame (ae_ethaddr (arp_table s ! i)) (netif_hwaddr n) ETHTYPE_IP
         (ip4_packet tos ident 255 (netif_ip4_addr n) src (icmp_bytes 0 code c' body)))
      (hv_mem (chip rv (snd (device s))))"
proof -
  let ?lo = "low_level_output (port_io E)" and ?I = "board_ok E rv" and ?R = "R(p := 1)"
  define F where "F = eth_frame (ae_ethaddr (arp_table s ! i)) (netif_hwaddr n) ETHTYPE_IP
      (ip4_packet tos ident 255 (netif_ip4_addr n) src (icmp_bytes 0 code (icmp_adjust_chksum c) body))"
  note r' = r [unfolded received_def]
  have ok: "net_ok ?I s {} ?R C" and rx: "rx_packet s C p" "queued (arp_table s) p = 0" "plen (nmem s) p \<le> 256" using r' by blast+
  have mem: "n \<in> set (netif_list s)" "netif_num n = k" using n(1) by (auto simp: netif_deref_def find_Some_iff)
  have nok: "netif_ok n" "576 \<le> unat (netif_mtu n)" "netif_deref (Some (netif_num n)) s = Some n"
    using net_okD(7) [OF ok mem(1)] r' mem n(1) by (simp_all add: nets_ok_def)
  have R1: "?R p = 1" by simp
  obtain m x where mx: "ethernet_input ?lo p n s = sent ?lo n p m (s\<lparr>ip_data := x, etharp_cached_entry := i\<rparr>)" "chain m (Some p) [p]"
    "content m [p] = F"
    using echo_answered [OF ok nok(1,3) nb R1 rx(1,2) frame(1,2) rx(3) nok(2) n(2-4) frame(3), of ?lo] unfolding F_def by blast
  obtain d w rank where dw: "device s = (d, w)" "drv_ok rv d w" "bank_answers rv (miso E)" "tx_completes rv (miso E) rank"
    using net_okD(1) [OF ok] by (cases "device s") (auto simp: board_ok_def)
  have lF: "lens m [p] = length F" unfolding mx(3) [symmetric] by (simp add: chunk_def)
  have "length F \<le> 256"
  proof -
    obtain hwd hws pad where fr: "length hwd = 6" "length hws = 6" "content (nmem s) [p] =
        eth_frame hwd hws ETHTYPE_IP (ip4_packet tos ident ttl src (netif_ip4_addr n) (icmp_bytes 8 code c body)) @ pad"
      using frame(1) unfolding echo_request_in_def by blast
    have "length (content (nmem s) [p]) = 38 + length body + length pad" unfolding fr(3) by (simp add: eth_frame_def fr(1,2))
    then have "38 + length body \<le> plen (nmem s) p" by (simp add: chunk_def)
    moreover have "length (ae_ethaddr (arp_table s ! i)) = 6" "length (netif_hwaddr n) = 6"
      using arp_table_okD(2) [OF net_okD(2) [OF ok], of i] nb nok(1) by (simp_all add: entry_ok_def neighbour_def netif_ok_def ETH_HWADDR_LEN_def)
    ultimately show ?thesis using rx(3) by (simp add: F_def eth_frame_def)
  qed
  then have l: "lens m [p] < 0x800" "lens m [p] \<le> 32767" unfolding lF by simp_all
  obtain w' where w': "?lo n p m (d, w) = Some (ERR_OK, d\<lparr>bank := Bank0, tx_buff_ptr := TX_BUFFER_START_ADDR\<rparr>, w')"
    "bit (hv_econ1 (chip rv w')) TXRTS" "hv_mem (chip rv w') = mem_write TX_BUFFER_START_ADDR (0 # content m [p]) (hv_mem (chip rv w))"
    using low_level_output_ok [OF dw(2) mx(2) l(2) dw(3,4), of n] auto l(1) dw(1) by auto
  obtain s' where s': "ethernet_input ?lo p n s = Some (ERR_OK, s')"
    using board.frame_consumed [OF r n(1)] by (auto simp: returns_def)
  then have "device s' = (d\<lparr>bank := Bank0, tx_buff_ptr := TX_BUFFER_START_ADDR\<rparr>, w')"
    using mx(1) w'(1) dw(1) by (auto simp: sent_def bind_Some_iff dest: free_pbuf_device)
  then show ?thesis using s' w'(2,3) mx(3) dw(1) icmp_adjust_checksum [OF frame(3)]
    by (intro exI [of _ s'] exI [of _ "icmp_adjust_chksum c"]) (simp add: F_def)
qed

text \<open>The board after the start, with a neighbour in the ARP table and an echo request in a packet.\<close>

definition echo_board :: "hw board" where
  "echo_board = (world board0)\<lparr>arp_table := (replicate ARP_TABLE_SIZE no_entry)[0 := no_entry\<lparr>ae_ipaddr := 0x0119FEA9, ae_netif := Some 0,
     ae_ethaddr := [2, 0, 0, 0, 0, 9], ae_state := ETHARP_STATE_STABLE\<rparr>],
     netif_list := [main_netif_up netif0], netif_default := Some 0, next_netif_num := 1\<rparr>"

definition echo_request :: "u8 list" where
  "echo_request = eth_frame [2, 0, 0, 0, 0, 1] [2, 0, 0, 0, 0, 9] ETHTYPE_IP
     (ip4_packet 0 7 64 0x0119FEA9 0x3F19FEA9 (icmp_bytes 8 0 65015 [0, 1, 0, 1]))"

lemma echo_board_ok: "ip_ok (board_ok env0 rv0) echo_board (\<lambda>_. 0) (\<lambda>_. [])"
proof -
  let ?s = "(world board0)\<lparr>netif_list := [main_netif_up netif0], netif_default := Some 0, next_netif_num := 1\<rparr>"
  have "board_ok env0 rv0 (dev0, hw0)" using drv_ok0 ref_bank [of rv0] ref_tx [of rv0] by (auto simp: board_ok_def env0_def)
  then have "net_ok (board_ok env0 rv0) ?s {} (\<lambda>_. 0) (\<lambda>_. [])"
    by (intro fresh_net_ok) (simp_all add: board0_def mem_ok_net0 main_netif_ok ARP_TABLE_SIZE_def)
  then have "net_ok (board_ok env0 rv0) (?s\<lparr>arp_table := (arp_table ?s)[0 := no_entry\<lparr>ae_ipaddr := 0x0119FEA9, ae_netif := Some 0,
     ae_ethaddr := [2, 0, 0, 0, 0, 9], ae_state := ETHARP_STATE_STABLE\<rparr>]\<rparr>) {} (\<lambda>_. 0) (\<lambda>_. [])"
    by (rule net_ok_table) (auto simp: ARP_TABLE_SIZE_def entry_ok_def no_entry_def ETH_HWADDR_LEN_def arp_consts netif_deref_def
        main_netif_up_def main_netif_def netif_set_flags_def board0_def entry_key_def nth_Cons')
  then show ?thesis
    by (auto simp: ip_ok_def echo_board_def nets_ok_def reass_idle_def board0_def main_netif_up_def main_netif_def netif_set_flags_def)
qed

text \<open>A packet that holds the request.\<close>

lemma packet_with:
  assumes n: "n \<le> 256" "length bs = n"
  obtains s p C where "received (board_ok env0 rv0) s (\<lambda>_. 0) C p" "content (nmem s) [p] = bs" "plen (nmem s) p = n"
    "arp_table s = arp_table echo_board" "netif_list s = netif_list echo_board" "device s = (dev0, hw0)"
proof -
  let ?I = "board_ok env0 rv0" and ?n = "of_nat n :: u16"
  have un: "unat ?n = n" using n(1) by (subst unat_of_nat) simp
  obtain p m where a: "pbuf_alloc PBUF_RAW ?n PBUF_POOL (nmem echo_board) = Some (Some p, m)"
    using pool_alloc_succeeds [OF mem_ok_net0, of ?n] n(1) un by (auto simp: echo_board_def board0_def)
  let ?s = "echo_board\<lparr>nmem := m\<rparr>"
  have run: "in_mem (pbuf_alloc PBUF_RAW ?n PBUF_POOL) echo_board = Some (Some p, ?s)" using a by (simp add: in_mem_def)
  have new: "received ?I ?s (\<lambda>_. 0) ((\<lambda>_. [])(p := [p])) p" "plen m p = n"
    using rx_alloc [OF echo_board_ok, of ?n] unfolding run un by (auto simp: received_def returns_def simp del: fun_upd_apply)
  have ok: "net_ok ?I ?s {} ((\<lambda>_. 0)(p := 1)) ((\<lambda>_. [])(p := [p]))" using new(1) by (simp add: received_def)
  obtain pl where pl: "pb_payload (pbufs m p) = Some pl"
    using net_ok_payload [of ?I ?s "{}" "(\<lambda>_. 0)(p := 1)" _ p, OF ok] by auto
  define s where "s = put_bytes pl bs ?s"
  have "received ?I s (\<lambda>_. 0) ((\<lambda>_. [])(p := [p])) p"
    using new(1) by (simp add: received_def s_def put_bytes_net rx_packet_def nets_ok_def reass_idle_def)
  moreover have "content (nmem s) [p] = bs"
    using pl new(2) n(2) read_write_part [of 0 bs n pl "data_bytes m"] by (simp add: s_def chunk_def)
  ultimately show thesis by (rule that) (simp_all add: s_def echo_board_def board0_def new(2))
qed

lemma echo_received:
  obtains s p C where "received (board_ok env0 rv0) s (\<lambda>_. 0) C p" "echo_request_in s p 0 7 64 0x0119FEA9 0x3F19FEA9 0 65015 [0, 1, 0, 1]"
    "arp_table s = arp_table echo_board" "netif_list s = netif_list echo_board" "device s = (dev0, hw0)"
proof -
  have L: "(42 :: nat) \<le> 256" "length echo_request = 42" by (simp_all add: echo_request_def eth_frame_def)
  obtain s p C where s: "received (board_ok env0 rv0) s (\<lambda>_. 0) C p" "content (nmem s) [p] = echo_request" "plen (nmem s) p = 42"
    "arp_table s = arp_table echo_board" "netif_list s = netif_list echo_board" "device s = (dev0, hw0)"
    by (rule packet_with [OF L])
  have "echo_request_in s p 0 7 64 0x0119FEA9 0x3F19FEA9 0 65015 [0, 1, 0, 1]"
    unfolding echo_request_in_def s(2) echo_request_def
    by (intro exI [of _ "[2, 0, 0, 0, 0, 1]"] exI [of _ "[2, 0, 0, 0, 0, 9]"] exI [of _ "[]"]) simp
  with s show thesis using that by blast
qed

theorem echo_on_the_wire_witness:
  "\<exists>s p s' c'. ethernet_input (low_level_output (port_io env0)) p (main_netif_up netif0) s = Some (ERR_OK, s') \<and>
    hv_mem (chip rv0 (snd (device s'))) = mem_write TX_BUFFER_START_ADDR
      (0 # eth_frame [2, 0, 0, 0, 0, 9] [2, 0, 0, 0, 0, 1] ETHTYPE_IP
         (ip4_packet 0 7 255 0x3F19FEA9 0x0119FEA9 (icmp_bytes 0 0 c' [0, 1, 0, 1])))
      (hv_mem (chip rv0 hw0))"
proof -
  obtain s p C where s: "received (board_ok env0 rv0) s (\<lambda>_. 0) C p" "echo_request_in s p 0 7 64 0x0119FEA9 0x3F19FEA9 0 65015 [0, 1, 0, 1]"
    "arp_table s = arp_table echo_board" "netif_list s = netif_list echo_board" "device s = (dev0, hw0)" by (rule echo_received)
  let ?n = "main_netif_up netif0"
  have n: "netif_deref (Some 0) s = Some ?n" "netif_is_up ?n" "netif_flags ?n AND NETIF_FLAG_ETHARP \<noteq> 0" "netif_ip4_addr ?n = 0x3F19FEA9"
    using s(4) by (simp_all add: netif_deref_def echo_board_def main_netif_up_def main_netif_def netif_set_flags_def netif_is_up_def
      NETIF_FLAG_UP_def NETIF_FLAG_ETHARP_def NETIF_FLAG_BROADCAST_def NETIF_FLAG_ETHERNET_def NETIF_FLAG_LINK_UP_def)
  have u: "\<not> not_unicast 0x3F19FEA9 ?n" "\<not> not_unicast 0x0119FEA9 ?n" "etharp_next_hop ?n 0x0119FEA9 = Some 0x0119FEA9" by code_simp+
  have e: "arp_table s ! 0 = no_entry\<lparr>ae_ipaddr := 0x0119FEA9, ae_netif := Some 0, ae_ethaddr := [2, 0, 0, 0, 0, 9],
     ae_state := ETHARP_STATE_STABLE\<rparr>"
    using s(3) by (simp add: echo_board_def ARP_TABLE_SIZE_def)
  have nb: "neighbour s ?n 0x0119FEA9 0"
    using u(2,3) e by (simp add: neighbour_def ARP_TABLE_SIZE_def no_entry_def entry_key_def main_netif_up_def main_netif_def netif_set_flags_def)
  have chk: "internet_checksum (icmp_bytes 8 0 65015 [0, 1, 0, 1]) = 0"
    unfolding internet_checksum_0_iff by (simp add: icmp_bytes_def lo8_def hi8_def)
  have auto: "autoinc (chip rv0 (snd (device s)))" using s(5) by (simp add: chip_def hw0_ok)
  have hw: "netif_hwaddr ?n = [2, 0, 0, 0, 0, 1]" by (simp add: main_netif_up_def main_netif_def netif_set_flags_def)
  have "\<not> not_unicast (netif_ip4_addr ?n) ?n" "echo_request_in s p 0 7 64 0x0119FEA9 (netif_ip4_addr ?n) 0 65015 [0, 1, 0, 1]"
    using u(1) s(2) n(4) by simp_all
  from echo_on_the_wire [OF s(1) n(1-3) this(1) nb this(2) _ chk auto] e hw n(4) s(5) show ?thesis
    by (auto simp: no_entry_def)
qed

text \<open>C6. A frame that the chip has delivered to the driver becomes a packet of exactly its bytes, in the buffer of the pool.  It
  is lost only when it is empty, longer than that buffer, or the buffer is in use.  Nothing else changes: in each case the new
  state is the old one with the chip as reception left it and the frame in the receive buffer; a packet that is delivered takes the
  pool buffer, its structure and its data area; a frame that is too long leaves a trace in the structure of the free pool buffer; a
  frame that finds the buffer taken leaves none.\<close>

theorem low_level_input_delivers:
  assumes "ip_ok (board_ok E rv) s R C" "enc28j60_receive_packet (port_io E) ETH_BUFFER_SIZE (device s) = Some ((len, bs), dev)"
    and "s1 = put_bytes ETH_BUFFER bs (s\<lparr>device := dev\<rparr>)"
  shows "\<exists>r s' b. low_level_input (port_io E) ETH_BUFFER ETH_BUFFER_SIZE s = Some (r, s') \<and>
    (case r of
       None \<Rightarrow> ip_ok (board_ok E rv) s' R C \<and> (len = 0 \<or> 256 < unat len \<or> pool_taken s R C) \<and>
         s' = (if len = 0 \<or> pool_taken s R C then s1 else s1\<lparr>nmem := upd_pbuf pool_buf (\<lambda>_. b) (nmem s1)\<rparr>)
     | Some p \<Rightarrow> p = pool_buf \<and> \<not> pool_taken s R C \<and> received (board_ok E rv) s' R (C(p := [p])) p \<and> content (nmem s') [p] = bs \<and>
         s' = put_bytes pool_data bs (s1\<lparr>nmem := take_pool (upd_pbuf pool_buf (\<lambda>_. b) (nmem s1))\<rparr>))"
  by (rule frame_delivered [OF assms(1) _ assms(2,3)]) (simp add: ETH_BUFFER_def)

theorem low_level_input_delivers_witness:
  "\<exists>len bs dev r s'. enc28j60_receive_packet (port_io env0) ETH_BUFFER_SIZE (device echo_board) = Some ((len, bs), dev) \<and>
    low_level_input (port_io env0) ETH_BUFFER ETH_BUFFER_SIZE echo_board = Some (r, s') \<and>
    (len = 0 \<longrightarrow> r = None \<and> s' = put_bytes ETH_BUFFER bs (echo_board\<lparr>device := dev\<rparr>)) \<and>
    (0 < len \<longrightarrow> unat len \<le> 256 \<longrightarrow> r = Some pool_buf \<and> content (nmem s') [pool_buf] = bs \<and> ip_id s' = ip_id echo_board)"
proof -
  have "device echo_board = (dev0, hw0)" by (simp add: echo_board_def board0_def)
  then obtain len bs dev where rx: "enc28j60_receive_packet (port_io env0) ETH_BUFFER_SIZE (device echo_board) = Some ((len, bs), dev)"
    using receive_packet_ok [OF drv_ok0, of env0 ETH_BUFFER_SIZE] by auto
  have free: "\<not> pool_taken echo_board (\<lambda>_. 0) (\<lambda>_. [])"
  proof -
    have "queued (arp_table echo_board) a = 0" for a
      by (rule queued_0) (auto simp: echo_board_def no_entry_def dest!: set_update_subset_insert [THEN subsetD])
    then show ?thesis by (simp add: pool_taken_def all_blocks_def echo_board_def reass_idle_def board0_def)
  qed
  let ?s1 = "put_bytes ETH_BUFFER bs (echo_board\<lparr>device := dev\<rparr>)"
  obtain r s' b where rs: "low_level_input (port_io env0) ETH_BUFFER ETH_BUFFER_SIZE echo_board = Some (r, s')"
    "case r of
       None \<Rightarrow> ip_ok (board_ok env0 rv0) s' (\<lambda>_. 0) (\<lambda>_. []) \<and> (len = 0 \<or> 256 < unat len \<or> pool_taken echo_board (\<lambda>_. 0) (\<lambda>_. [])) \<and>
         s' = (if len = 0 \<or> pool_taken echo_board (\<lambda>_. 0) (\<lambda>_. []) then ?s1 else ?s1\<lparr>nmem := upd_pbuf pool_buf (\<lambda>_. b) (nmem ?s1)\<rparr>)
     | Some p \<Rightarrow> p = pool_buf \<and> \<not> pool_taken echo_board (\<lambda>_. 0) (\<lambda>_. []) \<and>
         received (board_ok env0 rv0) s' (\<lambda>_. 0) ((\<lambda>_. [])(p := [p])) p \<and> content (nmem s') [p] = bs \<and>
         s' = put_bytes pool_data bs (?s1\<lparr>nmem := take_pool (upd_pbuf pool_buf (\<lambda>_. b) (nmem ?s1))\<rparr>)"
    using low_level_input_delivers [OF echo_board_ok rx refl] by blast
  have "r = None \<and> s' = ?s1" if "len = 0"
    using rs that low_level_input_def [of "port_io env0" ETH_BUFFER ETH_BUFFER_SIZE echo_board] rx by simp
  moreover have "r = Some pool_buf \<and> content (nmem s') [pool_buf] = bs \<and> ip_id s' = ip_id echo_board" if "0 < len" "unat len \<le> 256"
  proof (cases r)
    case None
    then show ?thesis using rs(2) free that by simp
  next
    case (Some p)
    then have "p = pool_buf" "content (nmem s') [p] = bs" "s' = put_bytes pool_data bs (?s1\<lparr>nmem := take_pool (upd_pbuf pool_buf (\<lambda>_. b) (nmem ?s1))\<rparr>)"
      using rs(2) unfolding Some option.case by blast+
    then show ?thesis using Some by (simp add: put_bytes_def)
  qed
  ultimately show ?thesis using rx rs(1) by blast
qed

text \<open>C25. The driver has one receive buffer in the pool: while a fragment that waits, a packet queued in the ARP table or any
  packet in use has it, every call of \<open>low_level_input\<close> returns no packet, whatever the chip delivers; the frame is taken off the
  chip and lost, and apart from the chip and the bytes of the receive buffer nothing changes.\<close>

theorem receive_buffer_is_single:
  assumes "ip_ok (board_ok E rv) s R C" "pool_taken s R C"
  shows "\<exists>len bs dev s'. enc28j60_receive_packet (port_io E) ETH_BUFFER_SIZE (device s) = Some ((len, bs), dev) \<and>
    low_level_input (port_io E) ETH_BUFFER ETH_BUFFER_SIZE s = Some (None, s') \<and>
    s' = put_bytes ETH_BUFFER bs (s\<lparr>device := dev\<rparr>) \<and> ip_ok (board_ok E rv) s' R C"
proof -
  obtain d w where dw: "device s = (d, w)" "drv_ok rv d w" using ip_ok_device [OF assms(1)] by (cases "device s") (auto simp: board_ok_def)
  obtain len bs dev where rx: "enc28j60_receive_packet (port_io E) ETH_BUFFER_SIZE (device s) = Some ((len, bs), dev)"
    using receive_packet_ok [OF dw(2), of E ETH_BUFFER_SIZE] dw(1) by auto
  have "fst ETH_BUFFER \<noteq> Pool MEMP_PBUF_POOL" by (simp add: ETH_BUFFER_def)
  from frame_delivered [OF assms(1) this rx refl] assms(2) rx show ?thesis by (auto split: option.splits)
qed

text \<open>The board with a packet in use.\<close>

lemma taken_board:
  obtains s R C where "ip_ok (board_ok env0 rv0) s R C" "pool_taken s R C"
proof -
  have L: "(42 :: nat) \<le> 256" "length echo_request = 42" by (simp_all add: echo_request_def eth_frame_def)
  obtain s p C where r: "received (board_ok env0 rv0) s (\<lambda>_. 0) C p" by (rule packet_with [OF L])
  note r' = r [unfolded received_def]
  let ?R = "(\<lambda>_. 0)(p := 1) :: ptr \<Rightarrow> nat"
  have "ip_ok (board_ok env0 rv0) s ?R C" using r' ip_ok_idle by blast
  moreover have "pool_buf \<in> all_blocks (refs s ?R) C"
    using r' pool_elems by (auto simp: all_blocks_def rx_packet_def intro!: exI [of _ p])
  then have "pool_taken s ?R C" by (auto simp: pool_taken_def pool_elems)
  ultimately show thesis by (rule that)
qed

theorem receive_buffer_is_single_witness:
  "\<exists>s R C len bs dev. ip_ok (board_ok env0 rv0) s R C \<and> pool_taken s R C \<and>
    low_level_input (port_io env0) ETH_BUFFER ETH_BUFFER_SIZE s = Some (None, put_bytes ETH_BUFFER bs (s\<lparr>device := dev\<rparr>)) \<and>
    enc28j60_receive_packet (port_io env0) ETH_BUFFER_SIZE (device s) = Some ((len, bs), dev)"
proof -
  obtain s :: "hw board" and R C where s: "ip_ok (board_ok env0 rv0) s R C" "pool_taken s R C" by (rule taken_board)
  from receive_buffer_is_single [OF s] s show ?thesis by blast
qed

section \<open>Fragments\<close>

text \<open>C26. A fragment never completes a datagram: it is dropped, or it waits and keeps the only buffer of the pool, so that no
  other fragment can be received before its timer drops it.\<close>

theorem fragments_never_complete:
  assumes r: "received (board_ok E rv) s R C p" "0 < plen (nmem s) p"
    and h: "pb_payload (the_pbuf s p) = Some h" "get16 (iph_offset h) s AND lwip_htons (IP_OFFMASK OR IP_MF) \<noteq> 0"
  shows "\<exists>s'. ip4_reass (low_level_output (port_io E)) p s = Some (None, s') \<and> ip_ok (board_ok E rv) s' R C \<and>
    (reass_idle s' \<or> (\<forall>len. \<exists>s''. in_mem (pbuf_alloc PBUF_RAW len PBUF_POOL) s' = Some (None, s'')))"
proof -
  let ?I = "board_ok E rv" and ?R = "R(p := 1)"
  note r' = r(1) [unfolded received_def]
  have R: "?R p = 1" "?R(p := 0) = R" using r' by auto
  obtain s' where s': "ip4_reass (low_level_output (port_io E)) p s = Some (None, s')" "ip_ok ?I s' R C"
    using ip4_reass_ok [of ?I s ?R C p h "low_level_output (port_io E)"] r' r(2) h R unfolding returns_def by auto
  have "reass_idle s' \<or> (\<exists>s''. in_mem (pbuf_alloc PBUF_RAW len PBUF_POOL) s' = Some (None, s''))" for len
  proof -
    obtain q s'' where q: "in_mem (pbuf_alloc PBUF_RAW len PBUF_POOL) s' = Some (q, s'')" "q \<noteq> None \<longrightarrow> reass_idle s''"
      using rx_alloc [OF s'(2), of len] by (auto simp: returns_def split: option.splits)
    then have "q \<noteq> None \<longrightarrow> reass_idle s'" by (auto simp: in_mem_def reass_idle_def bind_Some_iff)
    then show ?thesis using q(1) by (cases q) auto
  qed
  then show ?thesis using s' by blast
qed

theorem fragments_never_complete_witness:
  "\<exists>s p s'. ip4_reass (low_level_output (port_io env0)) p s = Some (None, s') \<and> content (nmem s) [p] =
    ip4_bytes 0 28 7 0x2000 64 0 0x0119FEA9 0x3F19FEA9 @ replicate 8 0"
proof -
  define bs where "bs = ip4_bytes 0 28 7 0x2000 64 0 0x0119FEA9 0x3F19FEA9 @ replicate 8 0"
  have L: "(28 :: nat) \<le> 256" "length bs = 28" by (simp_all add: bs_def)
  obtain s p C where s: "received (board_ok env0 rv0) s (\<lambda>_. 0) C p" "content (nmem s) [p] = bs" "plen (nmem s) p = 28"
    by (rule packet_with [OF L])
  have ok: "net_ok (board_ok env0 rv0) s {} ((\<lambda>_. 0)(p := 1)) C" using s(1) by (simp add: received_def)
  obtain h where h: "pb_payload (the_pbuf s p) = Some h"
    using net_ok_payload [of "board_ok env0 rv0" s "{}" "(\<lambda>_. 0)(p := 1)" C p, OF ok] by auto
  have "read_bytes (data_bytes (nmem s)) h 28 = bs" using s(2,3) h by (simp add: chunk_def)
  from get16_at [OF this, of 6 "0x20"] have "get16 (iph_offset h) s = 0x20"
    by (simp add: iph_fields bs_def ip4_bytes_def lo8_def hi8_def)
  moreover have "(0x20 :: u16) AND lwip_htons (IP_OFFMASK OR IP_MF) \<noteq> 0" by code_simp
  ultimately show ?thesis using fragments_never_complete [OF s(1) _ h] s(2,3) by (auto simp: bs_def)
qed

end
