(* ===== verification/Spec2Isabelle.thy ===== *)
theory Spec2Isabelle
  imports Main_Echo
begin

text \<open>
  Verification library of the firmware in this repository: an STM32F103 with an ENC28J60 Ethernet controller on its SPI
  bus, and the lwIP stack, configured for IPv4, ARP and ICMP only (\<^verbatim>\<open>User/lwip/inc/arch/lwipopts.h\<close>).

  \<^bold>\<open>The program and its parts.\<close>  \<^verbatim>\<open>User/core/src/main.c\<close> initialises the chip, lwIP and one interface, and then loops:
  \<open>low_level_input\<close> fetches a frame from the chip into a pbuf, \<open>ethernet_input\<close> passes it up to ARP or to IPv4, reassembly and
  ICMP, which send their answers through \<open>etharp_output\<close>, \<open>ethernet_output\<close> and \<open>low_level_output\<close> back to the chip; then
  \<open>sys_check_timeouts\<close> runs the ARP and reassembly timers.  The driver has three layers: the interface functions
  (\<^verbatim>\<open>enc28j60/interface\<close>), registers and buffer memory (\<^verbatim>\<open>enc28j60/lowlayer\<close>) over a table of IO functions, and the
  peripheral registers of the STM32 (\<^verbatim>\<open>enc28j60/port\<close>) behind that table.

  \<^bold>\<open>Models\<close>, each in the order of its C file:
  \<^item> \<open>Enc_Regs\<close> the register map; \<open>Enc_Port\<close> \<^verbatim>\<open>enc28j60_port.c\<close> over a hardware record \<open>hw\<close> (the status flags, what has
    been sent, the trace \<open>hist\<close> of the SPI wire), with the chip's answers \<open>miso\<close> and the latencies of the peripherals in an
    environment \<open>env\<close>; \<open>Enc_LL\<close> \<^verbatim>\<open>enc28j60_ll.c\<close>, with the record \<open>enc28j60_io_t\<close> of IO functions as an argument; \<open>Enc_Iface\<close>
    \<^verbatim>\<open>enc28j60.c\<close>.
  \<^item> \<open>Lwip_Def\<close> \<^verbatim>\<open>def.c\<close>; \<open>Lwip_Chksum\<close> \<^verbatim>\<open>inet_chksum.c\<close>; \<open>Lwip_Types\<close> \<^verbatim>\<open>err.h\<close> and the interface record; \<open>Lwip_Timeouts\<close>
    \<^verbatim>\<open>timeouts.c\<close>; \<open>Lwip_Ip4Addr\<close> \<^verbatim>\<open>ip4_addr.c\<close>; \<open>Lwip_Mem\<close> \<^verbatim>\<open>mem.c\<close>; \<open>Lwip_Memp\<close> \<^verbatim>\<open>memp.c\<close>; \<open>Lwip_Pbuf\<close> \<^verbatim>\<open>pbuf.c\<close>.
  \<^item> \<open>Lwip_Net\<close> the state \<open>net_st\<close> that the protocols share (memory, ARP table, current packet, waiting fragments, interfaces,
    device) and \<open>ethernet_output\<close>; \<open>Lwip_Etharp\<close> \<^verbatim>\<open>etharp.c\<close>; \<open>Lwip_Ip4_Out\<close> routing, output and fragmentation of \<^verbatim>\<open>ip4.c\<close> and
    \<^verbatim>\<open>ip4_frag.c\<close>; \<open>Lwip_Icmp\<close> \<^verbatim>\<open>icmp.c\<close>; \<open>Lwip_Reass\<close> reassembly of \<^verbatim>\<open>ip4_frag.c\<close>; \<open>Lwip_Ip4\<close> \<open>ip4_input\<close> and
    \<open>ethernet_input\<close>; \<open>Lwip_Netif\<close> \<^verbatim>\<open>netif.c\<close>.
  \<^item> \<open>Main_Glue\<close> \<^verbatim>\<open>main.c\<close>: the driver functions of the interface, the start \<open>main_start\<close> and one round \<open>main_round\<close> of the loop.

  \<^bold>\<open>Conventions.\<close>  A C function that can fail an assertion, dereference a bad pointer or not return is a function into
  \<open>option\<close>, where \<open>None\<close> means exactly that; loops without an evident bound are \<open>partial_function (option)\<close>, so \<open>None\<close> includes
  not returning, and no fuel is used anywhere.  Error codes are values of \<open>err_t\<close>.  Integers have the width of the C type
  and wrap.  A pointer is an area with an offset (\<open>ptr\<close>): the heap, a pool, or memory outside; user data are bytes at such
  addresses, and headers in packets are read and written there as bytes, little endian for the fields the code swaps.  A
  stored interface pointer is the number of the interface.

  \<^bold>\<open>Proofs.\<close>
  \<^item> \<open>Enc_Sim\<close> states what the middle layer needs of its IO functions as the locale \<open>enc_io\<close>, in which every driver function
    is related to the same function on an ideal wire; its interpretation \<open>port\<close> is on the model of \<^verbatim>\<open>enc28j60_port.c\<close>.
    \<open>Enc_Bus\<close> decodes a trace of the wire into the commands of the data sheet and folds them into the host's view of the chip;
    \<open>Enc_Driver\<close>, \<open>Enc_Phy\<close>, \<open>Enc_Xfer\<close> and \<open>Enc_Recv\<close> evaluate the driver against it, \<open>Enc_Props\<close>, \<open>Enc_Frames\<close> and
    \<open>Enc_Init\<close> carry the results to the hardware.  \<open>Enc_Ref\<close> is a chip that satisfies all hypotheses.
  \<^item> \<open>Lwip_Store\<close> states what users of an allocator rely on as the locale \<open>block_store\<close>, interpreted as \<open>heap\<close> on \<open>mem_malloc\<close> and
    \<open>mem_free\<close> and as \<open>pool\<close> on \<open>memp_malloc\<close> and \<open>memp_free\<close>.  The heap refines first fit on a list of blocks.
  \<^item> \<open>Lwip_Pbuf_Chain\<close>, \<open>Lwip_Pbuf_Ops\<close> and \<open>Lwip_Pbuf_Data\<close> treat chains as lists of pbufs with a content; \<open>Lwip_Refs\<close> adds the
    holders of every packet (\<open>held\<close>): the reference counters are the numbers of holders and no block has two owners.
  \<^item> \<open>Lwip_Etharp_Inv\<close>, \<open>Lwip_Etharp_Find\<close>, \<open>Lwip_Etharp_Steps\<close>, \<open>Lwip_Etharp_Input\<close> and \<open>Lwip_Etharp_Props\<close> prove the invariant \<open>net_ok\<close>
    of the ARP table and of the memory it shares; \<open>Lwip_Ip4_Safe\<close>, \<open>Lwip_Icmp_Safe\<close>, \<open>Lwip_Reass_Safe\<close> and \<open>Lwip_Input_Safe\<close>
    extend it to every function above ARP: each returns from every packet and gives back exactly what it was handed.
    \<open>Lwip_Frames\<close> gives the bytes of the frames sent, \<open>Lwip_Echo\<close> those of the answer to an echo request.
  \<^item> \<open>Lwip_Stack\<close> states what the stack needs of a driver as the locale \<open>link_driver\<close> and proves a round of the loop in it;
    \<open>Main_Link\<close> interprets it as \<open>board\<close> on \<open>low_level_output\<close> and \<open>low_level_input\<close> over the STM32 registers.  \<open>Main_Loop\<close> adds
    the timers and the step relation \<open>loop_step\<close> of the main loop, \<open>Main_Start\<close> the start of the program, \<open>Main_Echo\<close> the way of a
    frame from the chip into the stack and of a reply back to the chip.

  \<^bold>\<open>What is shown.\<close>  For the program (\<open>Main_Start\<close>): it starts, every round of the loop returns whatever the chip delivers,
  the state stays well formed, and no memory is lost.  For the components: the functional properties, round trips, bounds,
  refinements and error behaviour that the theorems numbered C1 to C40 state, each with its hypotheses and a witness.  Where the
  code differs from its comments the theorem states what the code does and its text says so: the PHY keeps its duplex mode
  (\<open>Enc_Init\<close>), a pending ARP entry lasts five rounds (\<open>Lwip_Etharp_Props\<close>), and growing a block with \<open>mem_trim\<close> aborts
  (\<open>Lwip_Mem\<close>).

  \<^bold>\<open>Assumptions.\<close>
  \<^item> The chip (\<open>chip_ok\<close>, \<open>board_ok\<close>): it answers truthfully which bank is selected, keeps the registers, the PHY register and the
    buffer memory that the self test reads back, gets its clock ready, and ends every MII operation and every transmission;
    the polls of the driver have no timeout, so for each there is a rank that falls with every poll that finds the chip
    busy.  Nothing is assumed on received data.
  \<^item> The peripherals become ready after finitely many reads (the latencies in \<open>env\<close>).
  \<^item> At most \<open>2 ^ 30\<close> ticks of the system timer lie between two rounds; the ticks of the interrupt handler are taken there,
    a tick within a round is not modelled.  \<open>TIME_LESS_THAN\<close> would tell times apart up to \<open>2 ^ 31\<close> ticks.
  \<^item> A packet that is sent has at most 2033 bytes (\<open>PACKET_MAX\<close>), which the interface's MTU of 1500 guarantees; a received
    frame has at most 256, which the pool enforces.

  \<^bold>\<open>Not modelled.\<close>
  \<^item> CMSIS and the device headers (register addresses and intrinsics of the vendor), and the clock, GPIO, SysTick and LED set-up
    and the delay loops of \<open>main\<close>: they write peripheral registers on which nothing here depends.  \<^verbatim>\<open>SetCoreClock\<close> of
    \<^verbatim>\<open>rcc.c\<close> has an empty body.
  \<^item> What the configuration compiles out of lwIP: IPv6, TCP, UDP, RAW, IGMP, DHCP, AutoIP, ACD, forwarding, loopback, options
    on output, statistics, callbacks, threads, sanity checks; and debug output such as \<open>ip4_debug_print\<close>.
  \<^item> Libraries: the C library functions that lwIP calls (\<open>memcpy\<close>, \<open>memmove\<close>, \<open>memcmp\<close>, \<open>strlen\<close>, \<open>atoi\<close>) are written out.
  \<^item> The chip beyond its registers and buffer memory as the host sees them: what it sends on the line is not described.
\<close>

end
